(* ===== verification/Prelude.thy ===== *)
theory Prelude
  imports Main "HOL-Library.Word"
begin

text \<open>
  Shared vocabulary of the development: the exceptions the code raises as values of
  \<open>py_error\<close>, results as sums, Python's rounding-up integer arithmetic, byte lists with
  Python's slice and seek-and-write semantics, and the generic list lemmas the component
  theories use.
\<close>

section \<open>Exceptions and results\<close>

text \<open>
  One constructor per exception class that the modelled code raises; messages are not
  modelled.
\<close>

datatype py_error =
    ValueError | KeyError | IndexError | ZeroDivisionError | RuntimeError | AssertionError
  | AttributeError | TypeError | OSError | FileNotFoundError | InterruptedError | OverflowError
  | SliceError | PlanError | WriteError | DecodeError | RangeResponseError
  | IncompleteRangeRead | DomainSliceError | CacheBudgetError

text \<open>\<open>Tuple[int, int]\<close>: an expert, by layer and index within the layer.\<close>

type_synonym expert_key = "int \<times> int"

type_synonym 'a result = "py_error + 'a"

definition bindE :: "'a result \<Rightarrow> ('a \<Rightarrow> 'b result) \<Rightarrow> 'b result" where
  "bindE r f = (case r of Inl e \<Rightarrow> Inl e | Inr a \<Rightarrow> f a)"

lemma bindE_simps [simp]: "bindE (Inl e) f = Inl e" "bindE (Inr a) f = f a"
  by (simp_all add: bindE_def)

lemma bindE_InrE [elim!]:
  assumes "bindE r f = Inr b"
  obtains a where "r = Inr a" "f a = Inr b"
  using assms by (cases r) auto

lemma bindE_Inr_iff: "bindE r f = Inr b \<longleftrightarrow> (\<exists>a. r = Inr a \<and> f a = Inr b)"
  by (cases r) auto

text \<open>A Python list comprehension whose element expression may raise.\<close>

fun mapE :: "('a \<Rightarrow> 'b result) \<Rightarrow> 'a list \<Rightarrow> 'b list result" where
  "mapE f [] = Inr []"
| "mapE f (x # xs) = bindE (f x) (\<lambda>y. bindE (mapE f xs) (\<lambda>ys. Inr (y # ys)))"

lemma mapE_Inr_iff:
  "mapE f xs = Inr ys \<longleftrightarrow> list_all2 (\<lambda>x y. f x = Inr y) xs ys"
proof (induction xs arbitrary: ys)
  case Nil
  then show ?case by auto
next
  case (Cons x xs)
  then show ?case by (cases "f x"; cases ys) (auto simp: bindE_Inr_iff)
qed

lemma mapE_total: "(\<And>x. x \<in> set xs \<Longrightarrow> f x = Inr (g x)) \<Longrightarrow> mapE f xs = Inr (map g xs)"
  by (induction xs) auto

lemma mapE_length: "mapE f xs = Inr ys \<Longrightarrow> length ys = length xs"
  by (auto simp: mapE_Inr_iff dest: list_all2_lengthD)

lemma mapE_nth: "mapE f xs = Inr ys \<Longrightarrow> i < length xs \<Longrightarrow> f (xs ! i) = Inr (ys ! i)"
  by (auto simp: mapE_Inr_iff list_all2_conv_all_nth)

lemma mapE_map: "mapE f xs = Inr ys \<Longrightarrow> (\<And>x y. f x = Inr y \<Longrightarrow> k y = h x) \<Longrightarrow> map k ys = map h xs"
  by (auto simp: mapE_Inr_iff list_all2_conv_all_nth intro!: nth_equalityI)

lemma mapE_mem: "mapE f xs = Inr ys \<Longrightarrow> y \<in> set ys \<Longrightarrow> \<exists>x \<in> set xs. f x = Inr y"
  unfolding mapE_Inr_iff list_all2_conv_all_nth in_set_conv_nth by (metis nth_mem)

text \<open>A loop whose body may raise, over the state it threads.\<close>

fun foldE :: "('a \<Rightarrow> 's \<Rightarrow> 's result) \<Rightarrow> 'a list \<Rightarrow> 's \<Rightarrow> 's result" where
  "foldE f [] s = Inr s"
| "foldE f (x # xs) s = bindE (f x s) (foldE f xs)"

lemma foldE_append: "foldE f (xs @ ys) s = bindE (foldE f xs s) (foldE f ys)"
proof (induction xs arbitrary: s)
  case (Cons x xs)
  then show ?case by (cases "f x s") simp_all
qed simp

lemma foldE_invariant:
  assumes "foldE f xs s = Inr t" "P s" "\<And>x s t. x \<in> set xs \<Longrightarrow> P s \<Longrightarrow> f x s = Inr t \<Longrightarrow> P t"
  shows "P t"
  using assms
proof (induction xs arbitrary: s)
  case (Cons x xs)
  from Cons.prems(1) obtain u where u: "f x s = Inr u" "foldE f xs u = Inr t"
    by (auto simp: bindE_Inr_iff)
  show ?case
  proof (rule Cons.IH [OF u(2)])
    show "P u" using Cons.prems(2) Cons.prems(3) u(1) by auto
    show "P t'" if "y \<in> set xs" "P s'" "f y s' = Inr t'" for y s' t'
      using Cons.prems(3) that by auto
  qed
qed simp

section \<open>Integer arithmetic\<close>

text \<open>The exact ceiling of a quotient, the reference for the code's float ceilings.\<close>

definition ceil_div :: "int \<Rightarrow> int \<Rightarrow> int" where
  "ceil_div n d = - ((- n) div d)"

lemma ceil_div_bounds:
  assumes "0 < d"
  shows "n \<le> ceil_div n d * d" and "ceil_div n d * d < n + d"
proof -
  have "(- n) div d * d + (- n) mod d = - n" by (rule div_mult_mod_eq)
  moreover have "0 \<le> (- n) mod d" "(- n) mod d < d" using assms by simp_all
  ultimately show "n \<le> ceil_div n d * d" "ceil_div n d * d < n + d"
    unfolding ceil_div_def by linarith+
qed

lemmas ceil_div_ge = ceil_div_bounds(1)
lemmas ceil_div_less = ceil_div_bounds(2)

lemma ceil_div_unique:
  assumes "0 < d" and "n \<le> q * d" and "q * d < n + d"
  shows "ceil_div n d = q"
proof -
  let ?c = "ceil_div n d"
  have "(?c - q) * d < d" "(q - ?c) * d < d"
    using assms ceil_div_ge [of d n] ceil_div_less [of d n] by (simp_all add: algebra_simps)
  then have "?c - q < 1" "q - ?c < 1"
    using assms(1) by (simp_all add: mult_less_cancel_right1)
  then show ?thesis by simp
qed

lemma ceil_div_alt:
  assumes "0 < d"
  shows "ceil_div n d = (n + d - 1) div d"
proof (rule ceil_div_unique [OF assms])
  let ?q = "(n + d - 1) div d"
  have "?q * d + (n + d - 1) mod d = n + d - 1" by (rule div_mult_mod_eq)
  moreover have "0 \<le> (n + d - 1) mod d" "(n + d - 1) mod d < d" using assms by simp_all
  ultimately show "n \<le> ?q * d" "?q * d < n + d" by linarith+
qed

lemma ceil_div_exact: "0 < d \<Longrightarrow> d dvd n \<Longrightarrow> ceil_div n d = n div d"
  by (simp add: ceil_div_def dvd_neg_div)

lemma ceil_div_mult [simp]: "0 < d \<Longrightarrow> ceil_div (q * d) d = q" "0 < d \<Longrightarrow> ceil_div (d * q) d = q"
  by (simp_all add: ceil_div_exact)

lemma ceil_div_nonneg: "0 < d \<Longrightarrow> 0 \<le> n \<Longrightarrow> 0 \<le> ceil_div n d"
  by (simp add: ceil_div_alt pos_imp_zdiv_nonneg_iff)

lemma div_less_of_mult:
  assumes "0 < d" "n < q * (d :: int)"
  shows "n div d < q"
proof -
  have "n div d * d \<le> n" using assms(1) div_mult_mod_eq [of n d] pos_mod_sign [of d n] by linarith
  then have "n div d * d < q * d" using assms(2) by linarith
  then show ?thesis using assms(1) by simp
qed

lemma factor_le:
  assumes "0 < r" "0 < n" "r * n \<le> (m :: int)"
  shows "n \<le> m"
proof -
  have "1 * n \<le> r * n" using assms(1,2) by (intro mult_right_mono) simp_all
  then show ?thesis using assms(3) by linarith
qed

section \<open>Slices\<close>

text \<open>\<open>xs[a:b]\<close>: negative bounds count from the end, both are clipped to the list.\<close>

definition py_clip :: "nat \<Rightarrow> int \<Rightarrow> nat" where
  "py_clip n i = (if i < 0 then nat (i + int n) else min (nat i) n)"

definition py_slice :: "'a list \<Rightarrow> int \<Rightarrow> int \<Rightarrow> 'a list" where
  "py_slice xs a b =
     (let i = py_clip (length xs) a; j = py_clip (length xs) b in take (j - i) (drop i xs))"

lemma py_slice_nat:
  assumes "0 \<le> a" "0 \<le> n"
  shows "py_slice xs a (a + n) = take (nat n) (drop (nat a) xs)"
proof -
  have "nat (a + n) = nat a + nat n" using assms by (simp add: nat_add_distrib)
  then show ?thesis using assms
    by (auto simp: py_slice_def py_clip_def Let_def min_def not_le take_all_iff)
qed

lemma py_slice_length:
  assumes "0 \<le> a" "0 \<le> n" "nat a + nat n \<le> length xs"
  shows "length (py_slice xs a (a + n)) = nat n"
  using assms by (simp add: py_slice_nat)

end
