(* ===== verification/PyFloat.thy ===== *)
theory PyFloat
  imports Prelude Complex_Main "HOL-Library.Log_Nat"
begin

text \<open>
  Python floats. The planner sizes every region through float expressions such as
  \<open>int(math.ceil(n * storage_bits(bits) / 8.0))\<close>, so the rounding of those expressions is
  part of the model. A finite float is the rational it denotes; every float operation is the
  exact operation followed by \<open>fl\<close>, rounding to 53 significant bits, ties to even.
  Subnormals, infinities and NaN do not occur in the sizes modelled and are left out.
  \<open>fl_mono\<close>, \<open>fl_dyadic\<close> and \<open>fl_error\<close> are what the component theories use; the two
  ceiling lemmas at the end say when a float ceiling is the exact one.
\<close>

type_synonym pyfloat = rat

section \<open>Rounding to the nearest integer, ties to even\<close>

text \<open>Python's \<open>round(x)\<close> with one argument.\<close>

definition py_round :: "rat \<Rightarrow> int" where
  "py_round x = (let f = \<lfloor>x\<rfloor>; r = x - of_int f in
     if r < 1/2 then f else if 1/2 < r then f + 1 else if even f then f else f + 1)"

lemma py_round_cases:
  "py_round x = \<lfloor>x\<rfloor> \<and> x - of_int \<lfloor>x\<rfloor> \<le> 1/2 \<or>
   py_round x = \<lfloor>x\<rfloor> + 1 \<and> 1/2 \<le> x - of_int \<lfloor>x\<rfloor>"
  by (auto simp: py_round_def Let_def)

lemma py_round_error: "\<bar>of_int (py_round x) - x\<bar> \<le> 1/2"
  using py_round_cases [of x] of_int_floor_le [of x] floor_correct [of x]
  by (auto simp: abs_le_iff algebra_simps)

lemma py_round_of_int [simp]: "py_round (of_int n) = n"
  by (simp add: py_round_def)

lemma py_round_mono:
  assumes "x \<le> y"
  shows "py_round x \<le> py_round y"
proof (cases "\<lfloor>x\<rfloor> = \<lfloor>y\<rfloor>")
  case True
  then show ?thesis using assms by (auto simp: py_round_def Let_def)
next
  case False
  then have "\<lfloor>x\<rfloor> + 1 \<le> \<lfloor>y\<rfloor>" using floor_mono [OF assms] by simp
  then show ?thesis using py_round_cases [of x] py_round_cases [of y] by auto
qed

lemma py_round_ge: "of_int n \<le> x \<Longrightarrow> n \<le> py_round x"
  using py_round_mono [of "of_int n" x] by simp

lemma py_round_le: "x \<le> of_int n \<Longrightarrow> py_round x \<le> n"
  using py_round_mono [of x "of_int n"] by simp

section \<open>Rounding to a double\<close>

text \<open>The binary exponent of a positive rational, and the rounding itself.\<close>

definition fexp :: "rat \<Rightarrow> int" where
  "fexp x = (case quotient_of x of (n, d) \<Rightarrow>
     let e = bitlen n - bitlen d in if 2 powi e \<le> x then e else e - 1)"

definition fl_pos :: "rat \<Rightarrow> rat" where
  "fl_pos x = (let q = 2 powi (fexp x - 52) in of_int (py_round (x / q)) * q)"

definition fl :: "rat \<Rightarrow> pyfloat" where
  "fl x = (if x = 0 then 0 else if x < 0 then - fl_pos (- x) else fl_pos x)"

lemma powi_rat_mono: "e \<le> e' \<Longrightarrow> (2::rat) powi e \<le> 2 powi e'"
  by (rule power_int_increasing) simp_all

lemma powi_rat_pos [simp]: "0 < (2::rat) powi e"
  by simp

lemma powi_rat_less_iff: "(2::rat) powi e < 2 powi e' \<longleftrightarrow> e < e'"
  by (meson linorder_not_less powi_rat_mono power_int_strict_increasing one_less_numeral_iff
      semiring_norm(76))

lemma fexp_bounds:
  assumes "0 < x"
  shows "2 powi (fexp x) \<le> x" and "x < 2 powi (fexp x + 1)"
proof -
  obtain n d where nd: "quotient_of x = (n, d)" by (cases "quotient_of x")
  have x: "x = of_int n / of_int d" using quotient_of_div [OF nd] .
  have d: "0 < d" using quotient_of_denom_pos [OF nd] .
  have n: "0 < n" using assms x d by (simp add: zero_less_divide_iff)
  have bn: "(2::rat) powi (bitlen n - 1) \<le> of_int n" "of_int n < (2::rat) powi bitlen n"
    and bd: "(2::rat) powi (bitlen d - 1) \<le> of_int d" "of_int d < (2::rat) powi bitlen d"
  proof -
    have *: "(2::rat) powi (bitlen m - 1) \<le> of_int m \<and> of_int m < (2::rat) powi bitlen m"
      if m: "0 < m" for m :: int
    proof -
      have b: "0 < bitlen m" using m bitlen_bounds [OF m] by (cases "bitlen m = 0") (auto simp: bitlen_eq_zero_iff bitlen_nonneg order.strict_iff_order)
      have "2 ^ nat (bitlen m - 1) \<le> m" "m < 2 ^ nat (bitlen m)" using bitlen_bounds [OF m] by auto
      then have "(of_int (2 ^ nat (bitlen m - 1)) :: rat) \<le> of_int m"
        "(of_int m :: rat) < of_int (2 ^ nat (bitlen m))"
        by (simp_all only: of_int_le_iff of_int_less_iff)
      then show ?thesis using b by (simp add: power_int_def)
    qed
    show "(2::rat) powi (bitlen n - 1) \<le> of_int n" "of_int n < (2::rat) powi bitlen n"
      "(2::rat) powi (bitlen d - 1) \<le> of_int d" "of_int d < (2::rat) powi bitlen d"
      using * [OF n] * [OF d] by auto
  qed
  let ?e = "bitlen n - bitlen d"
  have hi: "x < 2 powi (?e + 1)"
  proof -
    have "x < 2 powi bitlen n / of_int d" using bn(2) d unfolding x by (simp add: divide_strict_right_mono)
    also have "\<dots> \<le> 2 powi bitlen n / 2 powi (bitlen d - 1)"
      using bd(1) by (intro divide_left_mono) (use d in auto)
    also have "\<dots> = 2 powi (?e + 1)" by (simp add: power_int_diff power_int_add)
    finally show ?thesis .
  qed
  have lo: "2 powi (?e - 1) \<le> x"
  proof -
    have "(2::rat) powi (?e - 1) = 2 powi (bitlen n - 1) / 2 powi bitlen d"
      by (simp add: power_int_diff)
    also have "\<dots> \<le> 2 powi (bitlen n - 1) / of_int d"
      using bd(2) d by (intro divide_left_mono) auto
    also have "\<dots> \<le> x" using bn(1) d unfolding x by (simp add: divide_right_mono)
    finally show ?thesis .
  qed
  show "2 powi (fexp x) \<le> x" "x < 2 powi (fexp x + 1)"
    using hi lo by (simp_all add: fexp_def nd Let_def)
qed

lemma fexp_less: "0 < x \<Longrightarrow> x < 2 powi e \<Longrightarrow> fexp x < e"
  using fexp_bounds(1) [of x] powi_rat_less_iff [of "fexp x" e] by linarith

lemma fexp_mono: "0 < x \<Longrightarrow> x \<le> y \<Longrightarrow> fexp x \<le> fexp y"
  using fexp_less [of x "fexp y + 1"] fexp_bounds(2) [of y] by linarith

section \<open>Properties of the rounding\<close>

lemma fl_pos_ge:
  assumes "0 < x"
  shows "2 powi (fexp x) \<le> fl_pos x"
proof -
  have "(of_int (2 ^ 52) :: rat) \<le> x / 2 powi (fexp x - 52)"
    using fexp_bounds(1) [OF assms] by (simp add: power_int_diff field_simps)
  then have "(of_int (2 ^ 52) :: rat) \<le> of_int (py_round (x / 2 powi (fexp x - 52)))"
    unfolding of_int_le_iff by (rule py_round_ge)
  then have "of_int (2 ^ 52) * 2 powi (fexp x - 52) \<le> fl_pos x"
    unfolding fl_pos_def Let_def by (intro mult_right_mono) simp_all
  then show ?thesis by (simp add: power_int_diff)
qed

lemma fl_pos_le:
  assumes "0 < x"
  shows "fl_pos x \<le> 2 powi (fexp x + 1)"
proof -
  have "x / 2 powi (fexp x - 52) \<le> (of_int (2 ^ 53) :: rat)"
    using fexp_bounds(2) [OF assms] by (simp add: power_int_diff power_int_add field_simps)
  then have "of_int (py_round (x / 2 powi (fexp x - 52))) \<le> (of_int (2 ^ 53) :: rat)"
    unfolding of_int_le_iff by (rule py_round_le)
  then have "fl_pos x \<le> of_int (2 ^ 53) * 2 powi (fexp x - 52)"
    unfolding fl_pos_def Let_def by (intro mult_right_mono) simp_all
  then show ?thesis by (simp add: power_int_diff power_int_add)
qed

lemma fl_pos_mono:
  assumes "0 < x" "x \<le> y"
  shows "fl_pos x \<le> fl_pos y"
proof (cases "fexp x = fexp y")
  case True
  have "x / 2 powi (fexp x - 52) \<le> y / 2 powi (fexp x - 52)"
    using assms by (simp add: divide_right_mono)
  then show ?thesis unfolding fl_pos_def Let_def True
    by (intro mult_right_mono) (simp_all add: py_round_mono)
next
  case False
  then have "fexp x + 1 \<le> fexp y" using fexp_mono [OF assms] by simp
  then have "(2::rat) powi (fexp x + 1) \<le> 2 powi (fexp y)" by (rule powi_rat_mono)
  then show ?thesis using fl_pos_le [of x] fl_pos_ge [of y] assms by linarith
qed

lemma fl_pos_pos: "0 < x \<Longrightarrow> 0 < fl_pos x"
  using fl_pos_ge [of x] powi_rat_pos [of "fexp x"] by linarith

lemma fl_0 [simp]: "fl 0 = 0"
  by (simp add: fl_def)

lemma fl_uminus: "fl (- x) = - fl x"
  by (auto simp: fl_def)

lemma fl_mono: "x \<le> y \<Longrightarrow> fl x \<le> fl y"
  using fl_pos_mono [of x y] fl_pos_mono [of "- y" "- x"] fl_pos_pos [of y] fl_pos_pos [of "- x"]
  by (auto simp: fl_def)

lemma fl_nonneg: "0 \<le> x \<Longrightarrow> 0 \<le> fl x"
  using fl_mono [of 0 x] by simp

lemma fl_gt_0: "0 < x \<Longrightarrow> 0 < fl x"
  by (simp add: fl_def fl_pos_pos)

lemma fl_eq_0_iff [simp]: "fl x = 0 \<longleftrightarrow> x = 0"
  using fl_gt_0 [of x] fl_gt_0 [of "- x"] by (cases x "0 :: rat" rule: linorder_cases) (auto simp: fl_uminus)

text \<open>A dyadic rational with a significand of at most 53 bits is a float.\<close>

lemma fl_pos_dyadic:
  assumes "0 < m" "m \<le> 2 ^ 53"
  shows "fl_pos (of_int m * 2 powi k) = of_int m * 2 powi k"
proof -
  have main: "fl_pos (of_int m * 2 powi k) = of_int m * 2 powi k"
    if m: "0 < m" "m < 2 ^ 53" for m k
  proof -
    let ?x = "of_int m * 2 powi k :: rat"
    have "(of_int m :: rat) < of_int (2 ^ 53)" using m unfolding of_int_less_iff by simp
    then have "?x < 2 powi (53 + k)" by (simp add: power_int_add)
    then have e: "fexp ?x < 53 + k" using m by (intro fexp_less) simp_all
    define j where "j = nat (k - (fexp ?x - 52))"
    have "?x / 2 powi (fexp ?x - 52) = of_int m * 2 powi (k - (fexp ?x - 52))"
      by (simp add: power_int_diff)
    also have "k - (fexp ?x - 52) = int j" using e by (simp add: j_def)
    finally have eq: "?x / 2 powi (fexp ?x - 52) = of_int (m * 2 ^ j)" by simp
    have "fl_pos ?x = of_int (m * 2 ^ j) * 2 powi (fexp ?x - 52)"
      unfolding fl_pos_def Let_def eq py_round_of_int ..
    also have "\<dots> = ?x"
      unfolding eq [symmetric] by (subst times_divide_eq_left, subst nonzero_mult_div_cancel_right) simp_all
    finally show ?thesis .
  qed
  show ?thesis
  proof (cases "m = 2 ^ 53")
    case True
    then have "(of_int m * 2 powi k :: rat) = of_int (2 ^ 52) * 2 powi (k + 1)"
      by (simp add: power_int_add)
    then show ?thesis using main [of "2 ^ 52" "k + 1"] by simp
  next
    case False
    then show ?thesis using assms by (intro main) simp_all
  qed
qed

lemma fl_dyadic:
  assumes "\<bar>m\<bar> \<le> 2 ^ 53"
  shows "fl (of_int m * 2 powi k) = of_int m * 2 powi k"
proof (cases m "0 :: int" rule: linorder_cases)
  case less
  then have "(of_int m * 2 powi k :: rat) < 0" by (simp add: mult_neg_pos)
  moreover have "fl_pos (of_int (- m) * 2 powi k) = of_int (- m) * 2 powi k"
    using less assms by (intro fl_pos_dyadic) simp_all
  ultimately show ?thesis by (simp add: fl_def)
next
  case greater
  then have "(0 :: rat) < of_int m * 2 powi k" by simp
  moreover have "fl_pos (of_int m * 2 powi k) = of_int m * 2 powi k"
    using greater assms by (intro fl_pos_dyadic) simp_all
  ultimately show ?thesis by (simp add: fl_def)
qed simp

lemma fl_of_int: "\<bar>m\<bar> \<le> 2 ^ 53 \<Longrightarrow> fl (of_int m) = of_int m"
  using fl_dyadic [of m 0] by simp

text \<open>Evaluation skips the rounding of the short dyadic numbers that most sizes are.\<close>

definition small_powers :: "int list" where
  "small_powers = [1, 2, 4, 8, 16, 32, 64, 128, 256, 512, 1024]"

lemma fl_quotient:
  assumes "quotient_of x = (n, d)" "d \<in> set small_powers" "\<bar>n\<bar> \<le> 2 ^ 53"
  shows "fl x = x"
proof -
  obtain k where k: "d = 2 ^ k"
    using assms(2) power_one_right [of "2 :: int"] by (auto simp: small_powers_def intro: that [of 0] that [of 1] that [of 2]
      that [of 3] that [of 4] that [of 5] that [of 6] that [of 7] that [of 8] that [of 9] that [of 10])
  have "x = of_int n * 2 powi (- int k)"
    using quotient_of_div [OF assms(1)] by (simp add: k power_int_minus field_simps)
  then show ?thesis using fl_dyadic [OF assms(3), of "- int k"] by simp
qed

lemma fl_code [code]:
  "fl x = (case quotient_of x of (n, d) \<Rightarrow>
     if d \<in> set small_powers \<and> \<bar>n\<bar> \<le> 2 ^ 53 then x else if x < 0 then - fl_pos (- x) else fl_pos x)"
proof (cases "quotient_of x")
  case (Pair n d)
  have "x \<noteq> 0" if "\<not> (d \<in> set small_powers \<and> \<bar>n\<bar> \<le> 2 ^ 53)"
    using that Pair by (auto simp: rat_zero_code small_powers_def)
  then show ?thesis using fl_quotient [OF Pair] by (simp add: Pair fl_def)
qed

lemma fl_pos_error:
  assumes "0 < x"
  shows "\<bar>fl_pos x - x\<bar> \<le> x * 2 powi (- 53)"
proof -
  let ?q = "2 powi (fexp x - 52) :: rat"
  have "\<bar>fl_pos x - x\<bar> = \<bar>(of_int (py_round (x / ?q)) - x / ?q) * ?q\<bar>"
    by (simp add: fl_pos_def Let_def left_diff_distrib)
  also have "\<dots> = \<bar>of_int (py_round (x / ?q)) - x / ?q\<bar> * ?q" by (simp add: abs_mult)
  also have "\<dots> \<le> 1/2 * ?q" by (intro mult_right_mono py_round_error) simp
  also have "\<dots> = 2 powi (fexp x) * 2 powi (- 53)" by (simp add: power_int_diff power_int_minus)
  also have "\<dots> \<le> x * 2 powi (- 53)" using fexp_bounds(1) [OF assms] by (intro mult_right_mono) simp_all
  finally show ?thesis .
qed

lemma fl_error: "\<bar>fl x - x\<bar> \<le> \<bar>x\<bar> * 2 powi (- 53)"
proof (cases "x < 0")
  case True
  then have "\<bar>fl_pos (- x) - (- x)\<bar> \<le> - x * 2 powi (- 53)" by (intro fl_pos_error) simp
  moreover have "fl x - x = - (fl_pos (- x) - (- x))" using True by (simp add: fl_def)
  ultimately show ?thesis using True by (simp only: abs_minus_cancel abs_of_neg)
next
  case False
  then show ?thesis using fl_pos_error [of x] by (auto simp: fl_def)
qed

section \<open>The float expressions of the planner\<close>

text \<open>\<open>a / b\<close> on two Python ints, \<open>math.ceil\<close> and \<open>int\<close> (which truncates).\<close>

definition py_truediv :: "int \<Rightarrow> int \<Rightarrow> pyfloat result" where
  "py_truediv a b = (if b = 0 then Inl ZeroDivisionError else Inr (fl (of_int a / of_int b)))"

definition py_int :: "pyfloat \<Rightarrow> int" where
  "py_int x = (if x < 0 then \<lceil>x\<rceil> else \<lfloor>x\<rfloor>)"

lemma py_int_of_int [simp]: "py_int (of_int n) = n"
  by (simp add: py_int_def)

text \<open>A float quotient of ints below \<open>2 ^ 52\<close> never rounds onto the wrong integer.\<close>

lemma ceil_fl_div:
  assumes "0 \<le> n" "n \<le> 2 ^ 52" "0 < d"
  shows "\<lceil>fl (of_int n / of_int d)\<rceil> = ceil_div n d"
proof (cases "n = 0")
  case True
  then show ?thesis by (simp add: ceil_div_def)
next
  case False
  let ?x = "of_int n / of_int d :: rat" and ?q = "ceil_div n d"
  have q: "n \<le> ?q * d" "?q * d < n + d" using assms ceil_div_ge ceil_div_less by auto
  have q0: "0 \<le> ?q" using assms by (simp add: ceil_div_nonneg)
  have qn: "?q \<le> n"
  proof -
    have "?q * d < n * d + d"
      using q(2) assms by (smt (verit) False mult_le_cancel_left1 mult.commute)
    then have "?q * d < (n + 1) * d" by (simp add: algebra_simps)
    then show ?thesis using assms(3) by (simp add: mult_less_cancel_right)
  qed
  have x0: "0 < ?x" using assms False by simp
  have le: "fl ?x \<le> of_int ?q"
  proof -
    have "(of_int n :: rat) \<le> of_int (?q * d)" using q(1) unfolding of_int_le_iff .
    then have "?x \<le> of_int ?q" using assms(3) by (simp add: field_simps)
    then have "fl ?x \<le> fl (of_int ?q)" by (rule fl_mono)
    then show ?thesis using qn q0 assms(2) by (simp add: fl_of_int)
  qed
  have ge: "of_int ?q - 1 < fl ?x"
  proof -
    have n': "(?q - 1) * d + 1 \<le> n" using q(2) by (simp add: algebra_simps)
    have "(of_int ((?q - 1) * d + 1) :: rat) \<le> of_int n" using n' unfolding of_int_le_iff .
    then have "(of_int ((?q - 1) * d + 1) :: rat) / of_int d \<le> ?x"
      using assms(3) by (intro divide_right_mono) simp_all
    then have "of_int ?q - 1 + 1 / of_int d \<le> ?x" using assms(3) by (simp add: add_divide_distrib)
    moreover have "?x * 2 powi (- 53) < 1 / of_int d"
    proof -
      have "(of_int n :: rat) \<le> of_int (2 ^ 52)" using assms(2) unfolding of_int_le_iff .
      then have "of_int n * 2 powi (- 53) < (1::rat)"
        by (simp add: power_int_minus field_simps)
      then show ?thesis using assms(3) by (simp add: field_simps)
    qed
    moreover have "?x - fl ?x \<le> ?x * 2 powi (- 53)"
      using fl_error [of ?x] x0 by (simp only: abs_of_pos abs_le_iff minus_diff_eq)
    ultimately show ?thesis by linarith
  qed
  show ?thesis using le ge by (simp add: ceiling_unique)
qed

lemma ceil_fl_truediv:
  "0 \<le> n \<Longrightarrow> n \<le> 2 ^ 52 \<Longrightarrow> 0 < d \<Longrightarrow>
   bindE (py_truediv n d) (\<lambda>x. Inr \<lceil>x\<rceil>) = Inr (ceil_div n d)"
  by (simp add: py_truediv_def ceil_fl_div)

section \<open>Float arithmetic\<close>

text \<open>Float division raises on a zero divisor.\<close>

definition py_fdiv :: "pyfloat \<Rightarrow> pyfloat \<Rightarrow> pyfloat result" where
  "py_fdiv x y = (if y = 0 then Inl ZeroDivisionError else Inr (fl (x / y)))"

definition fmul :: "pyfloat \<Rightarrow> pyfloat \<Rightarrow> pyfloat" where "fmul x y = fl (x * y)"
definition fadd :: "pyfloat \<Rightarrow> pyfloat \<Rightarrow> pyfloat" where "fadd x y = fl (x + y)"
definition fsub :: "pyfloat \<Rightarrow> pyfloat \<Rightarrow> pyfloat" where "fsub x y = fl (x - y)"
definition fof :: "int \<Rightarrow> pyfloat" where "fof n = fl (of_int n)"

lemma fmul_pos: "0 < x \<Longrightarrow> 0 < y \<Longrightarrow> 0 < fmul x y"
  by (simp add: fmul_def fl_gt_0)

lemma py_fdiv_pos: "0 < y \<Longrightarrow> py_fdiv x y = Inr (fl (x / y))"
  by (simp add: py_fdiv_def)

lemma fmul_mono: "0 \<le> c \<Longrightarrow> x \<le> y \<Longrightarrow> fmul x c \<le> fmul y c"
  by (simp add: fmul_def fl_mono mult_right_mono)

lemma fadd_mono: "x \<le> x' \<Longrightarrow> y \<le> y' \<Longrightarrow> fadd x y \<le> fadd x' y'"
  by (simp add: fadd_def fl_mono add_mono)

lemma fof_mono: "m \<le> n \<Longrightarrow> fof m \<le> fof n"
  by (simp add: fof_def fl_mono)

lemma fdiv_mono: "0 < c \<Longrightarrow> x \<le> y \<Longrightarrow> fl (x / c) \<le> fl (y / c)"
  by (simp add: fl_mono divide_right_mono)

text \<open>The built-in \<open>sum\<close> of floats, left to right (Python before 3.12, which compensates).\<close>

definition fsum :: "pyfloat list \<Rightarrow> pyfloat" where
  "fsum xs = foldl fadd 0 xs"

end
