(* ===== verification/Odict.thy ===== *)
theory Odict
  imports Prelude
begin

text \<open>
  Python's \<open>collections.OrderedDict\<close> and insertion-ordered \<open>dict\<close>, as association lists
  with the oldest entry first. Every cache of the program keeps its recency order in one of
  these: \<open>move_to_end\<close> makes a key the most recent, \<open>popitem(last=False)\<close> removes the
  oldest. The locale \<open>recency_map\<close> states what those clients rely on, and its
  interpretation discharges it for the association lists.
\<close>

type_synonym ('k, 'v) odict = "('k \<times> 'v) list"

section \<open>Operations\<close>

definition od_keys :: "('k, 'v) odict \<Rightarrow> 'k list" where
  "od_keys d = map fst d"

definition od_in :: "'k \<Rightarrow> ('k, 'v) odict \<Rightarrow> bool" where
  "od_in k d = (k \<in> set (od_keys d))"

definition od_get :: "('k, 'v) odict \<Rightarrow> 'k \<Rightarrow> 'v option" where
  "od_get d k = map_of d k"

text \<open>\<open>d[k]\<close> for reading; a missing key raises.\<close>

definition od_index :: "('k, 'v) odict \<Rightarrow> 'k \<Rightarrow> 'v result" where
  "od_index d k = (case od_get d k of None \<Rightarrow> Inl KeyError | Some v \<Rightarrow> Inr v)"

definition od_remove :: "'k \<Rightarrow> ('k, 'v) odict \<Rightarrow> ('k, 'v) odict" where
  "od_remove k d = filter (\<lambda>p. fst p \<noteq> k) d"

text \<open>\<open>del d[k]\<close> and \<open>d.pop(k)\<close>.\<close>

definition od_del :: "'k \<Rightarrow> ('k, 'v) odict \<Rightarrow> ('k, 'v) odict result" where
  "od_del k d = (if od_in k d then Inr (od_remove k d) else Inl KeyError)"

definition od_pop :: "'k \<Rightarrow> ('k, 'v) odict \<Rightarrow> ('v \<times> ('k, 'v) odict) result" where
  "od_pop k d = (case od_get d k of None \<Rightarrow> Inl KeyError | Some v \<Rightarrow> Inr (v, od_remove k d))"

text \<open>\<open>d[k] = v\<close>: in place for a present key, at the end for a new one.\<close>

fun od_set :: "('k, 'v) odict \<Rightarrow> 'k \<Rightarrow> 'v \<Rightarrow> ('k, 'v) odict" where
  "od_set [] k v = [(k, v)]"
| "od_set (p # d) k v = (if fst p = k then (k, v) # d else p # od_set d k v)"

definition move_to_end :: "'k \<Rightarrow> ('k, 'v) odict \<Rightarrow> ('k, 'v) odict result" where
  "move_to_end k d =
     (case od_get d k of None \<Rightarrow> Inl KeyError | Some v \<Rightarrow> Inr (od_remove k d @ [(k, v)]))"

definition popitem_first :: "('k, 'v) odict \<Rightarrow> (('k \<times> 'v) \<times> ('k, 'v) odict) result" where
  "popitem_first d = (case d of [] \<Rightarrow> Inl KeyError | p # d' \<Rightarrow> Inr (p, d'))"

definition od_ok :: "('k, 'v) odict \<Rightarrow> bool" where
  "od_ok d = distinct (od_keys d)"

section \<open>Laws\<close>

lemma od_keys_simps [simp]:
  "od_keys [] = []" "od_keys (p # d) = fst p # od_keys d" "od_keys (d @ e) = od_keys d @ od_keys e"
  by (simp_all add: od_keys_def)

lemma length_od_keys [simp]: "length (od_keys d) = length d"
  by (simp add: od_keys_def)

lemma od_get_eq_None: "od_get d k = None \<longleftrightarrow> k \<notin> set (od_keys d)"
  by (simp add: od_get_def od_keys_def map_of_eq_None_iff)

lemma od_get_Some_in: "od_get d k = Some v \<Longrightarrow> k \<in> set (od_keys d)"
  using od_get_eq_None [of d k] by auto

lemma od_in_iff [simp]: "od_in k d \<longleftrightarrow> k \<in> set (od_keys d)"
  by (simp add: od_in_def)

lemma od_in_get: "od_in k d \<longleftrightarrow> (\<exists>v. od_get d k = Some v)"
  using od_get_eq_None [of d k] by auto

lemma od_keys_remove: "od_keys (od_remove k d) = filter (\<lambda>x. x \<noteq> k) (od_keys d)"
  by (induction d) (auto simp: od_remove_def)

lemma set_od_keys_remove [simp]: "set (od_keys (od_remove k d)) = set (od_keys d) - {k}"
  by (auto simp: od_keys_remove)

lemma od_get_remove: "od_get (od_remove k d) j = (if j = k then None else od_get d j)"
  by (induction d) (auto simp: od_remove_def od_get_def)

lemma od_get_append: "od_get (d @ e) k = (case od_get d k of None \<Rightarrow> od_get e k | Some v \<Rightarrow> Some v)"
  by (simp add: od_get_def map_add_def split: option.splits)

lemma od_get_set: "od_get (od_set d k v) j = (if j = k then Some v else od_get d j)"
  by (induction d k v rule: od_set.induct) (auto simp: od_get_def)

lemma od_keys_set: "od_keys (od_set d k v) = (if od_in k d then od_keys d else od_keys d @ [k])"
  by (induction d k v rule: od_set.induct) auto

lemma set_od_keys_set [simp]: "set (od_keys (od_set d k v)) = insert k (set (od_keys d))"
  by (auto simp: od_keys_set)

lemma length_od_set: "length (od_set d k v) = (if od_in k d then length d else Suc (length d))"
  by (induction d k v rule: od_set.induct) auto

lemma od_set_new: "\<not> od_in k d \<Longrightarrow> od_set d k v = d @ [(k, v)]"
  by (induction d k v rule: od_set.induct) auto

lemma length_od_remove: "od_ok d \<Longrightarrow> od_in k d \<Longrightarrow> Suc (length (od_remove k d)) = length d"
proof (induction d)
  case (Cons p d)
  show ?case
  proof (cases "fst p = k")
    case True
    then have "\<forall>q \<in> set d. fst q \<noteq> k" using Cons.prems
      unfolding od_ok_def od_keys_def by (auto simp: image_iff)
    then have "od_remove k d = d" by (simp add: od_remove_def)
    then show ?thesis using True by (simp add: od_remove_def)
  next
    case False
    then show ?thesis using Cons by (simp add: od_remove_def od_ok_def)
  qed
qed simp

lemma length_od_remove_le: "length (od_remove k d) \<le> length d"
  by (simp add: od_remove_def)

lemma od_ok_Nil [simp]: "od_ok []"
  by (simp add: od_ok_def)

lemma od_ok_remove [simp]: "od_ok d \<Longrightarrow> od_ok (od_remove k d)"
  by (simp add: od_ok_def od_keys_remove)

lemma od_ok_set [simp]: "od_ok d \<Longrightarrow> od_ok (od_set d k v)"
  by (simp add: od_ok_def od_keys_set)

lemma od_ok_snoc [simp]: "od_ok (d @ [(k, v)]) \<longleftrightarrow> od_ok d \<and> \<not> od_in k d"
  by (auto simp: od_ok_def)

lemma od_ok_Cons [simp]: "od_ok (p # d) \<longleftrightarrow> od_ok d \<and> \<not> od_in (fst p) d"
  by (auto simp: od_ok_def)

lemma move_to_end_Inr_iff:
  "move_to_end k d = Inr d' \<longleftrightarrow> (\<exists>v. od_get d k = Some v \<and> d' = od_remove k d @ [(k, v)])"
  by (auto simp: move_to_end_def split: option.splits)

lemma move_to_end_props:
  assumes "move_to_end k d = Inr d'" "od_ok d"
  shows "od_ok d'" "set (od_keys d') = set (od_keys d)" "length d' = length d"
    "od_get d' = od_get d" "last (od_keys d') = k"
proof -
  obtain v where v: "od_get d k = Some v" and d': "d' = od_remove k d @ [(k, v)]"
    using assms(1) by (auto simp: move_to_end_Inr_iff)
  have k: "k \<in> set (od_keys d)" using v by (rule od_get_Some_in)
  show "od_ok d'" using assms(2) by (simp add: d')
  show "set (od_keys d') = set (od_keys d)" using k by (auto simp: d')
  show "length d' = length d" using length_od_remove [OF assms(2), of k] k by (simp add: d')
  show "od_get d' = od_get d"
  proof
    fix j
    show "od_get d' j = od_get d j"
      using v by (cases "od_get d j")
        (auto simp: d' od_get_append od_get_remove od_get_def [of "[(k, v)]"])
  qed
  show "last (od_keys d') = k" by (simp add: d')
qed

lemma move_to_end_keys:
  "move_to_end k d = Inr d' \<Longrightarrow> od_keys d' = filter (\<lambda>x. x \<noteq> k) (od_keys d) @ [k]"
  by (auto simp: move_to_end_Inr_iff od_keys_remove)

lemma move_to_end_total: "od_in k d \<Longrightarrow> \<exists>d'. move_to_end k d = Inr d'"
  using od_in_get [of k d] by (auto simp: move_to_end_Inr_iff simp del: od_in_iff)

lemma popitem_first_simps [simp]:
  "popitem_first [] = Inl KeyError" "popitem_first (p # d) = Inr (p, d)"
  by (simp_all add: popitem_first_def)

lemma popitem_first_Inr_iff [simp]: "popitem_first d = Inr (p, d') \<longleftrightarrow> d = p # d'"
  by (auto simp: popitem_first_def split: list.splits)

lemma od_pop_Inr_iff: "od_pop k d = Inr (v, d') \<longleftrightarrow> od_get d k = Some v \<and> d' = od_remove k d"
  by (auto simp: od_pop_def split: option.splits)

section \<open>The interface of the recency caches\<close>

locale recency_map =
  fixes keys :: "'d \<Rightarrow> 'k list"
    and get :: "'d \<Rightarrow> 'k \<Rightarrow> 'v option"
    and put :: "'d \<Rightarrow> 'k \<Rightarrow> 'v \<Rightarrow> 'd"
    and touch :: "'k \<Rightarrow> 'd \<Rightarrow> 'd result"
    and pop_oldest :: "'d \<Rightarrow> (('k \<times> 'v) \<times> 'd) result"
    and ok :: "'d \<Rightarrow> bool"
  assumes ok_distinct: "ok d \<Longrightarrow> distinct (keys d)"
    and get_keys: "ok d \<Longrightarrow> get d k = None \<longleftrightarrow> k \<notin> set (keys d)"
    and put_new: "ok d \<Longrightarrow> k \<notin> set (keys d) \<Longrightarrow> ok (put d k v) \<and> keys (put d k v) = keys d @ [k]"
    and put_get: "ok d \<Longrightarrow> get (put d k v) = (get d)(k \<mapsto> v)"
    and touch_ok: "ok d \<Longrightarrow> k \<in> set (keys d) \<Longrightarrow>
       \<exists>d'. touch k d = Inr d' \<and> ok d' \<and> keys d' = filter (\<lambda>x. x \<noteq> k) (keys d) @ [k]
            \<and> get d' = get d"
    and pop_ok: "ok d \<Longrightarrow> keys d \<noteq> [] \<Longrightarrow>
       \<exists>v d'. pop_oldest d = Inr ((hd (keys d), v), d') \<and> ok d' \<and> keys d' = tl (keys d)
            \<and> get d (hd (keys d)) = Some v \<and> get d' = (get d)(hd (keys d) := None)"
begin

text \<open>The insertion step every bounded cache performs: make room, then append.\<close>

definition insert_bounded :: "nat \<Rightarrow> 'k \<Rightarrow> 'v \<Rightarrow> 'd \<Rightarrow> 'd result" where
  "insert_bounded cap k v d =
     (if cap \<le> length (keys d)
      then bindE (pop_oldest d) (\<lambda>(p, d'). Inr (put d' k v))
      else Inr (put d k v))"

lemma insert_bounded_spec:
  assumes "ok d" "k \<notin> set (keys d)" "0 < cap" "length (keys d) \<le> cap"
  obtains d' where "insert_bounded cap k v d = Inr d'" "ok d'"
    "keys d' = (if cap \<le> length (keys d) then tl (keys d) else keys d) @ [k]"
    "length (keys d') \<le> cap" "get d' k = Some v"
proof (cases "cap \<le> length (keys d)")
  case True
  then have ne: "keys d \<noteq> []" using assms(3) by auto
  obtain w e where e: "pop_oldest d = Inr ((hd (keys d), w), e)" "ok e" "keys e = tl (keys d)"
    using pop_ok [OF assms(1) ne] by blast
  have k: "k \<notin> set (keys e)" using assms(2) e(3) by (auto dest: list.set_sel(2) [OF ne])
  show ?thesis
    using put_new [OF e(2) k, of v] put_get [OF e(2), of k v] e True assms(3,4)
    by (intro that [of "put e k v"]) (auto simp: insert_bounded_def)
next
  case False
  then show ?thesis
    using put_new [OF assms(1,2), of v] put_get [OF assms(1), of k v]
    by (intro that [of "put d k v"]) (auto simp: insert_bounded_def)
qed

end

interpretation od: recency_map od_keys od_get od_set move_to_end popitem_first od_ok
proof unfold_locales
  fix d :: "('k, 'v) odict" and k v
  show "od_ok d \<Longrightarrow> distinct (od_keys d)" by (simp add: od_ok_def)
  show "od_get d k = None \<longleftrightarrow> k \<notin> set (od_keys d)" by (rule od_get_eq_None)
  show "od_ok d \<Longrightarrow> k \<notin> set (od_keys d) \<Longrightarrow>
    od_ok (od_set d k v) \<and> od_keys (od_set d k v) = od_keys d @ [k]"
    by (simp add: od_set_new)
  show "od_get (od_set d k v) = (od_get d)(k \<mapsto> v)" by (auto simp: od_get_set)
  show "\<exists>d'. move_to_end k d = Inr d' \<and> od_ok d' \<and>
      od_keys d' = filter (\<lambda>x. x \<noteq> k) (od_keys d) @ [k] \<and> od_get d' = od_get d"
    if ok: "od_ok d" and k: "k \<in> set (od_keys d)"
  proof -
    obtain d' where m: "move_to_end k d = Inr d'"
      using move_to_end_total [of k d] k unfolding od_in_iff by blast
    show ?thesis
      using m move_to_end_props(1,4) [OF m ok] move_to_end_keys [OF m] by (intro exI [of _ d']) simp
  qed
  show "\<exists>v d'. popitem_first d = Inr ((hd (od_keys d), v), d') \<and> od_ok d' \<and>
      od_keys d' = tl (od_keys d) \<and> od_get d (hd (od_keys d)) = Some v \<and>
      od_get d' = (od_get d)(hd (od_keys d) := None)"
    if "od_ok d" "od_keys d \<noteq> []"
    using that by (cases d) (auto simp: od_get_def od_keys_def map_of_eq_None_iff)
qed

end
