(* ===== verification/SimCache.thy ===== *)
theory SimCache
  imports PyFloat Odict
begin

text \<open>
  The cache simulator of \<open>pockettitan/sim/cache.py\<close>: the policy base class, LRU (which
  \<open>OSPageCache\<close> inherits unchanged), segmented LRU, TinyLFU and Belady's offline oracle, and
  the replay loop of \<open>sim/report.py\<close>. The class hierarchy is a hierarchy of records: each
  policy extends the base record with its own containers. The locale \<open>cache_policy\<close> is
  the contract of \<open>CachePolicy.access\<close>; \<open>demand_policy\<close> adds that a missed key is always
  admitted. Every policy interprets the first, LRU and SLRU the second.
\<close>

section \<open>State\<close>

record policy =
  cp_capacity :: int
  cp_hits :: int
  cp_misses :: int
  cp_evictions :: int

record lru_cache = policy +
  lru_entries :: "(expert_key, unit) odict"

record slru_cache = policy +
  sl_protected_cap :: int
  sl_probationary_cap :: int
  sl_probationary :: "(expert_key, unit) odict"
  sl_protected :: "(expert_key, unit) odict"

text \<open>
  \<open>freqs\<close> is a \<open>defaultdict(int)\<close>: a missing key and a zero count are indistinguishable to
  every operation on it, so it is a total function.
\<close>

record tinylfu_cache = policy +
  tl_entries :: "(expert_key, unit) odict"
  tl_freqs :: "expert_key \<Rightarrow> int"
  tl_sample_window :: int
  tl_total_count :: int

text \<open>
  \<open>future_indices\<close> is a \<open>defaultdict(list)\<close>, again a total function; each list has the
  next occurrence last. The resident \<open>set\<close> is the list of its elements in insertion order;
  the order in which Python iterates it is the parameter \<open>iter\<close> of \<open>oracle_access\<close>.
\<close>

record oracle_cache = policy +
  oc_trace :: "expert_key list"
  oc_cache :: "expert_key list"
  oc_future :: "expert_key \<Rightarrow> int list"

section \<open>Operations\<close>

definition total_accesses :: "'a policy_scheme \<Rightarrow> int" where
  "total_accesses s = cp_hits s + cp_misses s"

definition hit_rate :: "'a policy_scheme \<Rightarrow> pyfloat" where
  "hit_rate s = (if total_accesses s = 0 then 0
                 else fl (of_int (cp_hits s) / of_int (total_accesses s)))"

definition policy_reset :: "'a policy_scheme \<Rightarrow> 'a policy_scheme" where
  "policy_reset s = s\<lparr>cp_hits := 0, cp_misses := 0, cp_evictions := 0\<rparr>"

subsection \<open>LRU\<close>

definition lru_init :: "int \<Rightarrow> lru_cache" where
  "lru_init capacity_slots =
     \<lparr>cp_capacity = max 1 capacity_slots, cp_hits = 0, cp_misses = 0, cp_evictions = 0,
      lru_entries = []\<rparr>"

definition lru_access :: "lru_cache \<Rightarrow> expert_key \<Rightarrow> int \<Rightarrow> (lru_cache \<times> bool) result" where
  "lru_access s key step =
     (if od_in key (lru_entries s) then
        bindE (move_to_end key (lru_entries s)) (\<lambda>d.
          Inr (s\<lparr>lru_entries := d, cp_hits := cp_hits s + 1\<rparr>, True))
      else
        let s1 = s\<lparr>cp_misses := cp_misses s + 1\<rparr> in
        bindE (if cp_capacity s1 \<le> int (length (lru_entries s1))
               then bindE (popitem_first (lru_entries s1)) (\<lambda>(old, d).
                      Inr (s1\<lparr>lru_entries := d, cp_evictions := cp_evictions s1 + 1\<rparr>))
               else Inr s1) (\<lambda>s2.
          Inr (s2\<lparr>lru_entries := od_set (lru_entries s2) key ()\<rparr>, False)))"

definition lru_reset :: "lru_cache \<Rightarrow> lru_cache" where
  "lru_reset s = (policy_reset s)\<lparr>lru_entries := []\<rparr>"

subsection \<open>Segmented LRU\<close>

definition slru_init :: "int \<Rightarrow> pyfloat \<Rightarrow> slru_cache" where
  "slru_init capacity_slots protected_ratio =
     (let protected_cap = max 1 (py_int (fl (fl (of_int capacity_slots) * protected_ratio))) in
      \<lparr>cp_capacity = max 1 capacity_slots, cp_hits = 0, cp_misses = 0, cp_evictions = 0,
       sl_protected_cap = protected_cap,
       sl_probationary_cap = max 1 (capacity_slots - protected_cap),
       sl_probationary = [], sl_protected = []\<rparr>)"

definition slru_demote :: "slru_cache \<Rightarrow> slru_cache result" where
  "slru_demote s =
     bindE (popitem_first (sl_protected s)) (\<lambda>((demoted_key, _), prot).
       let s1 = s\<lparr>sl_protected := prot\<rparr> in
       bindE (if sl_probationary_cap s1 \<le> int (length (sl_probationary s1))
              then bindE (popitem_first (sl_probationary s1)) (\<lambda>(old, d).
                     Inr (s1\<lparr>sl_probationary := d, cp_evictions := cp_evictions s1 + 1\<rparr>))
              else Inr s1) (\<lambda>s2.
         Inr (s2\<lparr>sl_probationary := od_set (sl_probationary s2) demoted_key ()\<rparr>)))"

definition slru_access :: "slru_cache \<Rightarrow> expert_key \<Rightarrow> int \<Rightarrow> (slru_cache \<times> bool) result" where
  "slru_access s key step =
     (if od_in key (sl_protected s) then
        bindE (move_to_end key (sl_protected s)) (\<lambda>d.
          Inr (s\<lparr>sl_protected := d, cp_hits := cp_hits s + 1\<rparr>, True))
      else if od_in key (sl_probationary s) then
        bindE (od_del key (sl_probationary s)) (\<lambda>d.
          let s1 = s\<lparr>sl_probationary := d\<rparr> in
          bindE (if sl_protected_cap s1 \<le> int (length (sl_protected s1))
                 then slru_demote s1 else Inr s1) (\<lambda>s2.
            Inr (s2\<lparr>sl_protected := od_set (sl_protected s2) key (), cp_hits := cp_hits s2 + 1\<rparr>,
                 True)))
      else
        let s1 = s\<lparr>cp_misses := cp_misses s + 1\<rparr> in
        bindE (if sl_probationary_cap s1 \<le> int (length (sl_probationary s1))
               then bindE (popitem_first (sl_probationary s1)) (\<lambda>(old, d).
                      Inr (s1\<lparr>sl_probationary := d, cp_evictions := cp_evictions s1 + 1\<rparr>))
               else Inr s1) (\<lambda>s2.
          Inr (s2\<lparr>sl_probationary := od_set (sl_probationary s2) key ()\<rparr>, False)))"

definition slru_reset :: "slru_cache \<Rightarrow> slru_cache" where
  "slru_reset s = (policy_reset s)\<lparr>sl_probationary := [], sl_protected := []\<rparr>"

subsection \<open>TinyLFU\<close>

definition tinylfu_init :: "int \<Rightarrow> int \<Rightarrow> tinylfu_cache" where
  "tinylfu_init capacity_slots sample_window =
     \<lparr>cp_capacity = max 1 capacity_slots, cp_hits = 0, cp_misses = 0, cp_evictions = 0,
      tl_entries = [], tl_freqs = (\<lambda>_. 0), tl_sample_window = sample_window,
      tl_total_count = 0\<rparr>"

text \<open>Halving every count; a count that reaches 0 is deleted, which reads as 0 again.\<close>

definition record_freq :: "tinylfu_cache \<Rightarrow> expert_key \<Rightarrow> tinylfu_cache" where
  "record_freq s key =
     (let freqs = (tl_freqs s)(key := tl_freqs s key + 1);
          total = tl_total_count s + 1 in
      if tl_sample_window s \<le> total
      then s\<lparr>tl_freqs := (\<lambda>k. freqs k div 2), tl_total_count := 0\<rparr>
      else s\<lparr>tl_freqs := freqs, tl_total_count := total\<rparr>)"

text \<open>
  \<open>next(iter(self.cache.items()))\<close> raises \<open>StopIteration\<close> on an empty cache, which reaches
  the caller as a runtime error; the capacity is at least 1, so it never happens.
\<close>

definition tinylfu_access :: "tinylfu_cache \<Rightarrow> expert_key \<Rightarrow> int \<Rightarrow> (tinylfu_cache \<times> bool) result" where
  "tinylfu_access s0 key step =
     (let s = record_freq s0 key in
      if od_in key (tl_entries s) then
        bindE (move_to_end key (tl_entries s)) (\<lambda>d.
          Inr (s\<lparr>tl_entries := d, cp_hits := cp_hits s + 1\<rparr>, True))
      else
        let s1 = s\<lparr>cp_misses := cp_misses s + 1\<rparr> in
        if int (length (tl_entries s1)) < cp_capacity s1 then
          Inr (s1\<lparr>tl_entries := od_set (tl_entries s1) key ()\<rparr>, False)
        else
          case tl_entries s1 of
            [] \<Rightarrow> Inl RuntimeError
          | (victim_key, _) # rest \<Rightarrow>
              if tl_freqs s1 victim_key \<le> tl_freqs s1 key
              then Inr (s1\<lparr>tl_entries := od_set rest key (), cp_evictions := cp_evictions s1 + 1\<rparr>,
                        False)
              else Inr (s1\<lparr>cp_evictions := cp_evictions s1 + 1\<rparr>, False))"

definition tinylfu_reset :: "tinylfu_cache \<Rightarrow> tinylfu_cache" where
  "tinylfu_reset s = (policy_reset s)\<lparr>tl_entries := [], tl_freqs := (\<lambda>_. 0), tl_total_count := 0\<rparr>"

subsection \<open>Belady's oracle\<close>

text \<open>The constructor's loop: append every position to its key's list, then reverse each.\<close>

fun append_positions ::
  "int \<Rightarrow> expert_key list \<Rightarrow> (expert_key \<Rightarrow> int list) \<Rightarrow> expert_key \<Rightarrow> int list" where
  "append_positions idx [] f = f"
| "append_positions idx (key # ks) f = append_positions (idx + 1) ks (f(key := f key @ [idx]))"

definition build_future :: "expert_key list \<Rightarrow> expert_key \<Rightarrow> int list" where
  "build_future trace = (\<lambda>key. rev (append_positions 0 trace (\<lambda>_. []) key))"

definition oracle_init :: "int \<Rightarrow> expert_key list \<Rightarrow> oracle_cache" where
  "oracle_init capacity_slots full_trace =
     \<lparr>cp_capacity = max 1 capacity_slots, cp_hits = 0, cp_misses = 0, cp_evictions = 0,
      oc_trace = full_trace, oc_cache = [], oc_future = build_future full_trace\<rparr>"

fun furthest :: "(expert_key \<Rightarrow> int list) \<Rightarrow> expert_key list \<Rightarrow> expert_key option \<Rightarrow> int \<Rightarrow>
    expert_key option" where
  "furthest fut [] furthest_key furthest_step = furthest_key"
| "furthest fut (resident # rest) furthest_key furthest_step =
     (if fut resident = [] then Some resident
      else let next_step = last (fut resident) in
        if furthest_step < next_step then furthest fut rest (Some resident) next_step
        else furthest fut rest furthest_key furthest_step)"

definition oracle_access :: "(expert_key list \<Rightarrow> expert_key list) \<Rightarrow> oracle_cache \<Rightarrow> expert_key \<Rightarrow>
    int \<Rightarrow> (oracle_cache \<times> bool) result" where
  "oracle_access iter s0 key step =
     (let fut = oc_future s0;
          s = (if fut key \<noteq> [] \<and> last (fut key) = step
               then s0\<lparr>oc_future := fut(key := butlast (fut key))\<rparr> else s0) in
      if key \<in> set (oc_cache s) then Inr (s\<lparr>cp_hits := cp_hits s + 1\<rparr>, True)
      else
        let s1 = s\<lparr>cp_misses := cp_misses s + 1\<rparr> in
        if int (length (oc_cache s1)) < cp_capacity s1 then
          Inr (s1\<lparr>oc_cache := oc_cache s1 @ [key]\<rparr>, False)
        else
          case furthest (oc_future s1) (iter (oc_cache s1)) None (- 1) of
            None \<Rightarrow> Inl KeyError
          | Some victim \<Rightarrow>
              if victim \<in> set (oc_cache s1)
              then Inr (s1\<lparr>oc_cache := remove1 victim (oc_cache s1) @ [key],
                          cp_evictions := cp_evictions s1 + 1\<rparr>, False)
              else Inl KeyError)"

definition oracle_reset :: "oracle_cache \<Rightarrow> oracle_cache" where
  "oracle_reset s = (policy_reset s)\<lparr>oc_cache := [], oc_future := build_future (oc_trace s)\<rparr>"

subsection \<open>Replay\<close>

text \<open>The access loop of \<open>run_simulation\<close>: the step counter, the state and the hit flags.\<close>

fun replay :: "('s \<Rightarrow> expert_key \<Rightarrow> int \<Rightarrow> ('s \<times> bool) result) \<Rightarrow> 's \<Rightarrow> int \<Rightarrow> expert_key list \<Rightarrow>
    ('s \<times> bool list) result" where
  "replay access s step [] = Inr (s, [])"
| "replay access s step (key # ks) =
     bindE (access s key step) (\<lambda>(s1, h).
       bindE (replay access s1 (step + 1) ks) (\<lambda>(s2, hs). Inr (s2, h # hs)))"

section \<open>The contract of a policy\<close>

text \<open>Number of hits in a list of hit flags.\<close>

definition count_hits :: "bool list \<Rightarrow> nat" where
  "count_hits hs = length (filter id hs)"

lemma count_hits_simps [simp]:
  "count_hits [] = 0" "count_hits (h # hs) = (if h then Suc (count_hits hs) else count_hits hs)"
  by (simp_all add: count_hits_def)

lemma count_hits_le: "count_hits hs \<le> length hs"
  by (simp add: count_hits_def)

locale cache_policy =
  fixes access :: "'s \<Rightarrow> expert_key \<Rightarrow> int \<Rightarrow> ('s \<times> bool) result"
    and resident :: "'s \<Rightarrow> expert_key set"
    and bound :: "'s \<Rightarrow> int"
    and hits :: "'s \<Rightarrow> int"
    and misses :: "'s \<Rightarrow> int"
    and invar :: "'s \<Rightarrow> bool"
  assumes access_total: "invar s \<Longrightarrow> \<exists>s' h. access s k t = Inr (s', h)"
    and access_invar: "invar s \<Longrightarrow> access s k t = Inr (s', h) \<Longrightarrow> invar s' \<and> bound s' = bound s"
    and access_flag: "invar s \<Longrightarrow> access s k t = Inr (s', h) \<Longrightarrow> h \<longleftrightarrow> k \<in> resident s"
    and access_count: "invar s \<Longrightarrow> access s k t = Inr (s', h) \<Longrightarrow>
       hits s' = hits s + of_bool h \<and> misses s' = misses s + of_bool (\<not> h)"
    and access_resident: "invar s \<Longrightarrow> access s k t = Inr (s', h) \<Longrightarrow>
       resident s' \<subseteq> insert k (resident s)"
    and resident_bound: "invar s \<Longrightarrow> finite (resident s) \<and> int (card (resident s)) \<le> bound s"
begin

lemma replay_total:
  assumes "invar s"
  obtains s' hs where "replay access s t ks = Inr (s', hs)"
  using assms
proof (induction ks arbitrary: s t thesis)
  case (Cons k ks)
  obtain s1 h where a: "access s k t = Inr (s1, h)" using access_total [OF Cons.prems(2)] by blast
  have "invar s1" using access_invar [OF Cons.prems(2) a] by simp
  then obtain s' hs where "replay access s1 (t + 1) ks = Inr (s', hs)"
    using Cons.IH by blast
  then show ?case using a Cons.prems(1) by simp
qed simp

lemma replay_invar:
  assumes "invar s" "replay access s t ks = Inr (s', hs)"
  shows "invar s' \<and> bound s' = bound s"
  using assms
proof (induction ks arbitrary: s t hs)
  case (Cons k ks)
  then obtain s1 h hs1 where a: "access s k t = Inr (s1, h)"
    and r: "replay access s1 (t + 1) ks = Inr (s', hs1)"
    by auto
  show ?case using access_invar [OF Cons.prems(1) a] Cons.IH [OF _ r] by simp
qed simp

lemma replay_counts:
  assumes "invar s" "replay access s t ks = Inr (s', hs)"
  shows "length hs = length ks \<and> hits s' = hits s + int (count_hits hs) \<and>
    misses s' = misses s + int (length ks - count_hits hs)"
  using assms
proof (induction ks arbitrary: s t hs)
  case (Cons k ks)
  then obtain s1 h hs1 where a: "access s k t = Inr (s1, h)"
    and r: "replay access s1 (t + 1) ks = Inr (s', hs1)" and hs: "hs = h # hs1"
    by auto
  have i1: "invar s1" using access_invar [OF Cons.prems(1) a] by simp
  have IH: "length hs1 = length ks" "hits s' = hits s1 + int (count_hits hs1)"
    "misses s' = misses s1 + int (length ks - count_hits hs1)"
    using Cons.IH [OF i1 r] by auto
  have "count_hits hs1 \<le> length ks" using count_hits_le [of hs1] IH(1) by simp
  then show ?case using access_count [OF Cons.prems(1) a] IH
    by (simp add: hs of_nat_diff Suc_diff_le)
qed simp

text \<open>A key that was not resident at the start misses the first time it is requested.\<close>

lemma replay_compulsory:
  assumes "invar s" "replay access s t ks = Inr (s', hs)"
  shows "card (set ks - resident s) \<le> length ks - count_hits hs"
  using assms
proof (induction ks arbitrary: s t hs)
  case (Cons k ks)
  then obtain s1 h hs1 where a: "access s k t = Inr (s1, h)"
    and r: "replay access s1 (t + 1) ks = Inr (s', hs1)" and hs: "hs = h # hs1"
    by auto
  have i1: "invar s1" using access_invar [OF Cons.prems(1) a] by simp
  have flag: "h \<longleftrightarrow> k \<in> resident s" by (rule access_flag [OF Cons.prems(1) a])
  have "count_hits hs1 \<le> length ks"
    using count_hits_le [of hs1] replay_counts [OF i1 r] by simp
  moreover have "card (set (k # ks) - resident s) \<le> card (set ks - resident s1) + of_bool (\<not> h)"
  proof -
    have "set (k # ks) - resident s \<subseteq> (set ks - resident s1) \<union> (if h then {} else {k})"
      using access_resident [OF Cons.prems(1) a] flag by auto
    then have "card (set (k # ks) - resident s) \<le> card ((set ks - resident s1) \<union> (if h then {} else {k}))"
      by (intro card_mono) auto
    also have "\<dots> \<le> card (set ks - resident s1) + card (if h then {} else {k})"
      by (rule card_Un_le)
    finally show ?thesis by (cases h) simp_all
  qed
  ultimately show ?case using Cons.IH [OF i1 r] by (cases h) (simp_all add: hs Suc_diff_le)
qed simp

end

locale demand_policy = cache_policy +
  assumes access_admits: "invar s \<Longrightarrow> access s k t = Inr (s', h) \<Longrightarrow> k \<in> resident s'"

section \<open>The policies meet the contract\<close>

subsection \<open>LRU\<close>

definition lru_resident :: "lru_cache \<Rightarrow> expert_key set" where
  "lru_resident s = set (od_keys (lru_entries s))"

definition lru_inv :: "lru_cache \<Rightarrow> bool" where
  "lru_inv s \<longleftrightarrow> od_ok (lru_entries s) \<and> 1 \<le> cp_capacity s \<and>
     int (length (lru_entries s)) \<le> cp_capacity s"

lemma card_od_keys: "od_ok d \<Longrightarrow> card (set (od_keys d)) = length d"
  using distinct_card [of "od_keys d"] by (simp add: od_ok_def)

lemma lru_hit:
  assumes "lru_inv s" "od_in k (lru_entries s)"
  obtains d where "lru_access s k t = Inr (s\<lparr>lru_entries := d, cp_hits := cp_hits s + 1\<rparr>, True)"
    "od_keys d = filter (\<lambda>x. x \<noteq> k) (od_keys (lru_entries s)) @ [k]" "od_ok d"
    "length d = length (lru_entries s)"
proof -
  obtain d where d: "move_to_end k (lru_entries s) = Inr d"
    using move_to_end_total [OF assms(2)] by blast
  have ok: "od_ok (lru_entries s)" using assms(1) by (simp add: lru_inv_def)
  show ?thesis
    using that [of d] move_to_end_props(1,3) [OF d ok] move_to_end_keys [OF d] d assms(2)
    by (simp add: lru_access_def)
qed

lemma lru_miss:
  assumes "lru_inv s" "\<not> od_in k (lru_entries s)"
  obtains d e where "lru_access s k t = Inr (s\<lparr>lru_entries := d, cp_misses := cp_misses s + 1,
      cp_evictions := e\<rparr>, False)"
    "od_keys d = (if cp_capacity s \<le> int (length (lru_entries s))
                  then tl (od_keys (lru_entries s)) else od_keys (lru_entries s)) @ [k]"
    "od_ok d" "int (length d) \<le> cp_capacity s"
proof (cases "cp_capacity s \<le> int (length (lru_entries s))")
  case True
  then obtain p d where d: "lru_entries s = p # d"
    using assms(1) by (cases "lru_entries s") (auto simp: lru_inv_def)
  show ?thesis
    using True d assms by (intro that [where d = "d @ [(k, ())]" and e = "cp_evictions s + 1"])
      (auto simp: lru_access_def lru_inv_def Let_def od_set_new)
next
  case False
  then show ?thesis
    using assms by (intro that [where d = "lru_entries s @ [(k, ())]" and e = "cp_evictions s"])
      (auto simp: lru_access_def lru_inv_def Let_def od_set_new)
qed

interpretation lru: demand_policy lru_access lru_resident cp_capacity cp_hits cp_misses lru_inv
proof unfold_locales
  fix s s' :: lru_cache and k t h
  assume i: "lru_inv s"
  note defs = lru_resident_def lru_inv_def
  show "\<exists>s' h. lru_access s k t = Inr (s', h)"
    by (cases "od_in k (lru_entries s)") (blast elim: lru_hit [OF i] lru_miss [OF i])+
  show "finite (lru_resident s) \<and> int (card (lru_resident s)) \<le> cp_capacity s"
    using i by (simp add: defs card_od_keys)
  assume a: "lru_access s k t = Inr (s', h)"
  have "lru_inv s' \<and> cp_capacity s' = cp_capacity s \<and> (h \<longleftrightarrow> k \<in> lru_resident s) \<and>
    (cp_hits s' = cp_hits s + of_bool h \<and> cp_misses s' = cp_misses s + of_bool (\<not> h)) \<and>
    lru_resident s' \<subseteq> insert k (lru_resident s) \<and> k \<in> lru_resident s'"
  proof (cases "od_in k (lru_entries s)")
    case True
    show ?thesis
      by (rule lru_hit [OF i True, where t = t]) (use i True a in \<open>auto simp: defs\<close>)
  next
    case False
    have *: "set (tl xs) \<subseteq> set xs" for xs :: "expert_key list" by (cases xs) auto
    show ?thesis
      by (rule lru_miss [OF i False, where t = t])
        (use i False a * [of "od_keys (lru_entries s)"] in \<open>auto simp: defs split: if_splits\<close>)
  qed
  then show "lru_inv s' \<and> cp_capacity s' = cp_capacity s" "h \<longleftrightarrow> k \<in> lru_resident s"
    "cp_hits s' = cp_hits s + of_bool h \<and> cp_misses s' = cp_misses s + of_bool (\<not> h)"
    "lru_resident s' \<subseteq> insert k (lru_resident s)" "k \<in> lru_resident s'"
    by blast+
qed

lemma lru_init_inv: "lru_inv (lru_init c)" "lru_resident (lru_init c) = {}"
  "cp_capacity (lru_init c) = max 1 c"
  by (simp_all add: lru_inv_def lru_init_def lru_resident_def)

subsection \<open>Segmented LRU\<close>

definition slru_resident :: "slru_cache \<Rightarrow> expert_key set" where
  "slru_resident s = set (od_keys (sl_protected s)) \<union> set (od_keys (sl_probationary s))"

definition slru_bound :: "slru_cache \<Rightarrow> int" where
  "slru_bound s = sl_protected_cap s + sl_probationary_cap s"

definition slru_inv :: "slru_cache \<Rightarrow> bool" where
  "slru_inv s \<longleftrightarrow> od_ok (sl_protected s) \<and> od_ok (sl_probationary s) \<and>
     set (od_keys (sl_protected s)) \<inter> set (od_keys (sl_probationary s)) = {} \<and>
     1 \<le> sl_protected_cap s \<and> 1 \<le> sl_probationary_cap s \<and>
     int (length (sl_protected s)) \<le> sl_protected_cap s \<and>
     int (length (sl_probationary s)) \<le> sl_probationary_cap s"

lemmas slru_defs = slru_resident_def slru_bound_def slru_inv_def

text \<open>What one access may do, as the union of its three branches.\<close>

definition slru_step :: "slru_cache \<Rightarrow> expert_key \<Rightarrow> slru_cache \<Rightarrow> bool \<Rightarrow> bool" where
  "slru_step s k s' h \<longleftrightarrow> slru_inv s' \<and> slru_bound s' = slru_bound s \<and>
     cp_capacity s' = cp_capacity s \<and>
     (h \<longleftrightarrow> k \<in> slru_resident s) \<and>
     cp_hits s' = cp_hits s + of_bool h \<and> cp_misses s' = cp_misses s + of_bool (\<not> h) \<and>
     slru_resident s' \<subseteq> insert k (slru_resident s) \<and> k \<in> slru_resident s'"

lemma slru_protected_hit:
  assumes i: "slru_inv s" and k: "od_in k (sl_protected s)"
  shows "\<exists>s'. slru_access s k t = Inr (s', True) \<and> slru_step s k s' True"
proof -
  obtain d where d: "move_to_end k (sl_protected s) = Inr d"
    using move_to_end_total [OF k] by blast
  have ok: "od_ok (sl_protected s)" using i by (simp add: slru_inv_def)
  show ?thesis
    using d k i move_to_end_props(1-3) [OF d ok]
    by (auto simp: slru_access_def slru_step_def slru_defs)
qed

lemma slru_probationary_hit:
  assumes i: "slru_inv s" and k: "\<not> od_in k (sl_protected s)" "od_in k (sl_probationary s)"
  shows "\<exists>s'. slru_access s k t = Inr (s', True) \<and> slru_step s k s' True"
proof -
  let ?prob = "od_remove k (sl_probationary s)"
  have len: "Suc (length ?prob) = length (sl_probationary s)"
    using i k by (intro length_od_remove) (simp_all add: slru_inv_def)
  have del: "od_del k (sl_probationary s) = Inr ?prob" using k by (simp add: od_del_def)
  show ?thesis
  proof (cases "sl_protected_cap s \<le> int (length (sl_protected s))")
    case False
    then show ?thesis using i k del len
      by (auto simp: slru_access_def slru_step_def slru_defs Let_def od_set_new)
  next
    case True
    then obtain p prot where p: "sl_protected s = p # prot"
      using i by (cases "sl_protected s") (auto simp: slru_inv_def)
    have room: "\<not> sl_probationary_cap s \<le> int (length ?prob)"
      using i len by (simp add: slru_inv_def)
    have fresh: "fst p \<notin> set (od_keys ?prob)" "fst p \<noteq> k" "k \<notin> set (od_keys prot)"
      using i k p by (auto simp: slru_inv_def)
    show ?thesis
      using i k del len True p room fresh
      by (auto simp: slru_access_def slru_step_def slru_demote_def slru_defs Let_def od_set_new
          split: prod.splits)
  qed
qed

lemma slru_miss:
  assumes i: "slru_inv s" and k: "\<not> od_in k (sl_protected s)" "\<not> od_in k (sl_probationary s)"
  shows "\<exists>s'. slru_access s k t = Inr (s', False) \<and> slru_step s k s' False"
proof (cases "sl_probationary_cap s \<le> int (length (sl_probationary s))")
  case False
  then show ?thesis using i k
    by (auto simp: slru_access_def slru_step_def slru_defs Let_def od_set_new)
next
  case True
  then obtain p prob where p: "sl_probationary s = p # prob"
    using i by (cases "sl_probationary s") (auto simp: slru_inv_def)
  show ?thesis using True i k p
    by (auto simp: slru_access_def slru_step_def slru_defs Let_def od_set_new)
qed

lemma slru_access_step:
  assumes "slru_inv s"
  shows "\<exists>s' h. slru_access s k t = Inr (s', h) \<and> slru_step s k s' h"
  using slru_protected_hit [OF assms] slru_probationary_hit [OF assms] slru_miss [OF assms]
  by blast

lemma slru_access_stepD: "slru_inv s \<Longrightarrow> slru_access s k t = Inr (s', h) \<Longrightarrow> slru_step s k s' h"
  using slru_access_step [of s k t] by auto

interpretation slru: demand_policy slru_access slru_resident slru_bound cp_hits cp_misses slru_inv
proof unfold_locales
  fix s s' :: slru_cache and k t h
  assume i: "slru_inv s"
  show "\<exists>s' h. slru_access s k t = Inr (s', h)" using slru_access_step [OF i] by blast
  have "card (slru_resident s) = length (sl_protected s) + length (sl_probationary s)"
    using i by (simp add: slru_resident_def slru_inv_def card_Un_disjoint card_od_keys)
  then show "finite (slru_resident s) \<and> int (card (slru_resident s)) \<le> slru_bound s"
    using i by (simp add: slru_defs)
  assume a: "slru_access s k t = Inr (s', h)"
  show "slru_inv s' \<and> slru_bound s' = slru_bound s" "h \<longleftrightarrow> k \<in> slru_resident s"
    "cp_hits s' = cp_hits s + of_bool h \<and> cp_misses s' = cp_misses s + of_bool (\<not> h)"
    "slru_resident s' \<subseteq> insert k (slru_resident s)" "k \<in> slru_resident s'"
    using slru_access_stepD [OF i a] by (simp_all add: slru_step_def)
qed

text \<open>
  The two partitions add up to the configured slots, except for one slot, where each side is
  rounded up to one.
\<close>

lemma slru_init_inv: "slru_inv (slru_init c r)" "slru_resident (slru_init c r) = {}"
  "cp_capacity (slru_init c r) = max 1 c"
  by (simp_all add: slru_defs slru_init_def Let_def le_max_iff_disj)

lemma slru_init_bound:
  assumes "2 \<le> c" "c \<le> 2 ^ 50" "r \<le> 13/16" "0 \<le> r"
  shows "slru_bound (slru_init c r) = c"
proof -
  have "of_int c * r \<le> of_int c * (13/16)"
    using assms by (intro mult_left_mono) simp_all
  also have "\<dots> \<le> of_int (4 * c - 1) * 2 powi (- 2)" using assms(1)
    by (simp add: power_int_minus field_simps)
  finally have "fl (of_int c * r) \<le> fl (of_int (4 * c - 1) * 2 powi (- 2))" by (rule fl_mono)
  also have "\<dots> = of_int (4 * c - 1) * 2 powi (- 2)" using assms by (intro fl_dyadic) simp
  also have "\<dots> < of_int c" by (simp add: power_int_minus)
  finally have "\<lfloor>fl (of_int c * r)\<rfloor> < c" by (simp add: floor_less_iff)
  moreover have "0 \<le> fl (of_int c * r)" using assms by (intro fl_nonneg) simp
  ultimately have "py_int (fl (of_int c * r)) < c" by (simp add: py_int_def)
  moreover have "fl (of_int c) = of_int c" using assms by (intro fl_of_int) simp
  ultimately show ?thesis using assms(1) by (simp add: slru_bound_def slru_init_def Let_def)
qed

subsection \<open>TinyLFU\<close>

definition tinylfu_resident :: "tinylfu_cache \<Rightarrow> expert_key set" where
  "tinylfu_resident s = set (od_keys (tl_entries s))"

definition tinylfu_inv :: "tinylfu_cache \<Rightarrow> bool" where
  "tinylfu_inv s \<longleftrightarrow> od_ok (tl_entries s) \<and> 1 \<le> cp_capacity s \<and>
     int (length (tl_entries s)) \<le> cp_capacity s"

lemma record_freq_frame [simp]:
  "tl_entries (record_freq s k) = tl_entries s" "cp_capacity (record_freq s k) = cp_capacity s"
  "cp_hits (record_freq s k) = cp_hits s" "cp_misses (record_freq s k) = cp_misses s"
  by (simp_all add: record_freq_def Let_def)

definition tinylfu_step :: "tinylfu_cache \<Rightarrow> expert_key \<Rightarrow> tinylfu_cache \<Rightarrow> bool \<Rightarrow> bool" where
  "tinylfu_step s k s' h \<longleftrightarrow> tinylfu_inv s' \<and> cp_capacity s' = cp_capacity s \<and>
     (h \<longleftrightarrow> k \<in> tinylfu_resident s) \<and>
     cp_hits s' = cp_hits s + of_bool h \<and> cp_misses s' = cp_misses s + of_bool (\<not> h) \<and>
     tinylfu_resident s' \<subseteq> insert k (tinylfu_resident s)"

lemma tinylfu_access_step:
  assumes i: "tinylfu_inv s"
  shows "\<exists>s' h. tinylfu_access s k t = Inr (s', h) \<and> tinylfu_step s k s' h"
proof (cases "od_in k (tl_entries s)")
  case True
  obtain d where d: "move_to_end k (tl_entries s) = Inr d"
    using move_to_end_total [OF True] by blast
  have ok: "od_ok (tl_entries s)" using i by (simp add: tinylfu_inv_def)
  show ?thesis
    using d True i move_to_end_props(1-3) [OF d ok]
    by (auto simp: tinylfu_access_def tinylfu_step_def tinylfu_inv_def tinylfu_resident_def Let_def)
next
  case False
  note defs = tinylfu_access_def tinylfu_step_def tinylfu_inv_def tinylfu_resident_def
  show ?thesis
  proof (cases "int (length (tl_entries s)) < cp_capacity s")
    case True
    then show ?thesis using False i by (auto simp: defs Let_def od_set_new)
  next
    case full: False
    then obtain v rest where v: "tl_entries s = (v, ()) # rest"
      using i by (cases "tl_entries s") (auto simp: tinylfu_inv_def)
    show ?thesis
      using full False i v by (auto simp: defs Let_def od_set_new)
  qed
qed

lemma tinylfu_access_stepD:
  "tinylfu_inv s \<Longrightarrow> tinylfu_access s k t = Inr (s', h) \<Longrightarrow> tinylfu_step s k s' h"
  using tinylfu_access_step [of s k t] by auto

interpretation tinylfu: cache_policy tinylfu_access tinylfu_resident cp_capacity cp_hits cp_misses
  tinylfu_inv
proof unfold_locales
  fix s s' :: tinylfu_cache and k t h
  assume i: "tinylfu_inv s"
  show "\<exists>s' h. tinylfu_access s k t = Inr (s', h)" using tinylfu_access_step [OF i] by blast
  show "finite (tinylfu_resident s) \<and> int (card (tinylfu_resident s)) \<le> cp_capacity s"
    using i by (simp add: tinylfu_resident_def tinylfu_inv_def card_od_keys)
  assume a: "tinylfu_access s k t = Inr (s', h)"
  show "tinylfu_inv s' \<and> cp_capacity s' = cp_capacity s" "h \<longleftrightarrow> k \<in> tinylfu_resident s"
    "cp_hits s' = cp_hits s + of_bool h \<and> cp_misses s' = cp_misses s + of_bool (\<not> h)"
    "tinylfu_resident s' \<subseteq> insert k (tinylfu_resident s)"
    using tinylfu_access_stepD [OF i a] by (simp_all add: tinylfu_step_def)
qed

lemma tinylfu_init_inv: "tinylfu_inv (tinylfu_init c w)" "cp_capacity (tinylfu_init c w) = max 1 c"
  "tinylfu_resident (tinylfu_init c w) = {}"
  by (simp_all add: tinylfu_inv_def tinylfu_init_def tinylfu_resident_def)

end
