(* ===== verification/Belady.thy ===== *)
theory Belady
  imports SimCache
begin

text \<open>
  Belady's oracle meets the contract of a policy, and no demand policy with the same number
  of slots has more hits on the trace it was built for. The proof compares two caches by how
  many of their keys are needed soon: \<open>soon ks n S\<close> counts the keys of \<open>S\<close> requested within
  the next \<open>n\<close> steps of \<open>ks\<close>. Replaying a step keeps the other cache at most \<open>d\<close> keys
  ahead of the oracle's, where \<open>d\<close> is the oracle's lead in hits.
\<close>

section \<open>Next use\<close>

text \<open>Steps until the next request of a key; the length of the rest when there is none.\<close>

definition next_use :: "expert_key list \<Rightarrow> expert_key \<Rightarrow> nat" where
  "next_use ks k = length (takeWhile (\<lambda>x. x \<noteq> k) ks)"

definition soon :: "expert_key list \<Rightarrow> nat \<Rightarrow> expert_key set \<Rightarrow> nat" where
  "soon ks n S = card {k \<in> S. next_use ks k < n}"

lemma next_use_Cons: "next_use (x # ks) k = (if k = x then 0 else Suc (next_use ks k))"
  by (simp add: next_use_def)

lemma soon_insert:
  assumes "finite S" "x \<notin> S"
  shows "soon ks n (insert x S) = soon ks n S + of_bool (next_use ks x < n)"
proof -
  have "{k \<in> insert x S. next_use ks k < n} =
    (if next_use ks x < n then insert x {k \<in> S. next_use ks k < n} else {k \<in> S. next_use ks k < n})"
    by auto
  then show ?thesis using assms by (simp add: soon_def)
qed

lemma soon_remove:
  "finite S \<Longrightarrow> x \<in> S \<Longrightarrow> soon ks n S = soon ks n (S - {x}) + of_bool (next_use ks x < n)"
  using soon_insert [of "S - {x}" x ks n] by (simp add: insert_absorb)

lemma soon_mono: "finite S \<Longrightarrow> R \<subseteq> S \<Longrightarrow> soon ks n R \<le> soon ks n S"
  unfolding soon_def by (rule card_mono) auto

lemma soon_le_card: "finite S \<Longrightarrow> soon ks n S \<le> card S"
  unfolding soon_def by (rule card_mono) auto

lemma soon_all: "(\<And>k. k \<in> S \<Longrightarrow> next_use ks k < n) \<Longrightarrow> soon ks n S = card S"
  unfolding soon_def by (rule arg_cong [where f = card]) auto

text \<open>Advancing one step shifts every key but the requested one.\<close>

lemma soon_shift: "x \<notin> S \<Longrightarrow> soon (x # ks) (Suc n) S = soon ks n S"
  unfolding soon_def by (rule arg_cong [where f = card]) (auto simp: next_use_Cons)

lemma soon_shift_in:
  assumes "finite S" "x \<in> S"
  shows "soon (x # ks) (Suc n) S = Suc (soon ks n (S - {x}))"
  using soon_remove [OF assms, of "x # ks" "Suc n"] soon_shift [of x "S - {x}" ks n]
  by (simp add: next_use_Cons)

lemma soon_first: "finite S \<Longrightarrow> soon (x # ks) (Suc 0) S = of_bool (x \<in> S)"
  by (cases "x \<in> S") (simp_all add: soon_shift_in soon_shift, simp_all add: soon_def)

section \<open>One step\<close>

text \<open>What the oracle does with a request: evict a key whose next use is furthest.\<close>

definition belady_step :: "nat \<Rightarrow> expert_key list \<Rightarrow> expert_key \<Rightarrow> expert_key set \<Rightarrow>
    expert_key set \<Rightarrow> bool" where
  "belady_step cap ks x T T' \<longleftrightarrow>
     (if x \<in> T then T' = T
      else if card T < cap then T' = insert x T
      else \<exists>v \<in> T. (\<forall>k \<in> T. next_use ks k \<le> next_use ks v) \<and> T' = insert x (T - {v}))"

definition ahead :: "expert_key list \<Rightarrow> expert_key set \<Rightarrow> expert_key set \<Rightarrow> nat \<Rightarrow> bool" where
  "ahead ks S T d \<longleftrightarrow> (\<forall>n. soon ks n S \<le> soon ks n T + d)"

lemma soon_demand:
  assumes "finite S" "S' \<subseteq> insert x S"
  shows "soon ks n S' + of_bool (x \<in> S) \<le> soon (x # ks) (Suc n) S + of_bool (next_use ks x < n)"
proof -
  have "soon ks n S' \<le> soon ks n (insert x (S - {x}))"
    using assms by (intro soon_mono) auto
  also have "\<dots> = soon ks n (S - {x}) + of_bool (next_use ks x < n)"
    using assms by (intro soon_insert) auto
  finally show ?thesis
    using assms by (cases "x \<in> S") (simp_all add: soon_shift_in soon_shift)
qed

text \<open>A request that hits one cache and not the other moves the lead by one.\<close>

lemma ahead_step:
  assumes S: "finite S" "S' \<subseteq> insert x S" "x \<in> S'" "finite S'" "card S' \<le> cap"
    and T: "finite T" and step: "belady_step cap ks x T T'"
    and lead: "ahead (x # ks) S T d"
  obtains d' where "ahead ks S' T' d'" "d' + of_bool (x \<in> S) \<le> d + of_bool (x \<in> T)"
proof -
  let ?m = "\<lambda>n. of_bool (next_use ks x < n) :: nat"
  have l: "soon (x # ks) n S \<le> soon (x # ks) n T + d" for n
    using lead by (simp add: ahead_def)
  have s: "soon ks n S' + of_bool (x \<in> S) \<le> soon (x # ks) (Suc n) S + ?m n" for n
    by (rule soon_demand [OF S(1,2)])
  have dS: "of_bool (x \<in> S) \<le> d" if "x \<notin> T"
    using l [of "Suc 0"] that S(1) T by (simp add: soon_first)
  define d' where "d' = d + of_bool (x \<in> T) - of_bool (x \<in> S)"
  have d': "d' + of_bool (x \<in> S) = d + of_bool (x \<in> T)"
    using dS by (cases "x \<in> T"; cases "x \<in> S") (simp_all add: d'_def)
  have "soon ks n S' \<le> soon ks n T' + d'" for n
  proof (cases "x \<in> T \<or> card T < cap")
    case True
    have "soon ks n T' + of_bool (x \<in> T) = soon (x # ks) (Suc n) T + ?m n"
    proof (cases "x \<in> T")
      case True
      then show ?thesis using step T soon_remove [OF T True, of ks n]
        by (simp add: belady_step_def soon_shift_in)
    next
      case False
      then show ?thesis using step T True by (simp add: belady_step_def soon_shift soon_insert)
    qed
    then show ?thesis using s [of n] l [of "Suc n"] d' by linarith
  next
    case False
    then obtain v where v: "v \<in> T" "\<forall>k \<in> T. next_use ks k \<le> next_use ks v"
      "T' = insert x (T - {v})"
      using step by (auto simp: belady_step_def)
    have T': "soon ks n T' = soon ks n (T - {v}) + ?m n"
      using False T v by (simp add: soon_insert)
    show ?thesis
    proof (cases "next_use ks v < n")
      case True
      then have "soon ks n (T - {v}) = card (T - {v})" using v(2) by (intro soon_all) auto
      then have "cap \<le> Suc (soon ks n (T - {v}))"
        using False card_Suc_Diff1 [OF T v(1)] by simp
      moreover have "soon ks n S' \<le> card (S' - {x}) + ?m n"
        using soon_remove [OF S(4,3), of ks n] soon_le_card [of "S' - {x}" ks n] S(4) by simp
      moreover have "Suc (card (S' - {x})) \<le> cap"
        using card_Suc_Diff1 [OF S(4,3)] S(5) by simp
      ultimately show ?thesis using T' by linarith
    next
      case far: False
      then have "soon ks n T = soon ks n (T - {v})" using soon_remove [OF T v(1), of ks n] by simp
      then have "soon ks n T' = soon (x # ks) (Suc n) T + ?m n"
        using T' False by (simp add: soon_shift)
      then show ?thesis using s [of n] l [of "Suc n"] d' False by simp
    qed
  qed
  then have "ahead ks S' T' d'" by (simp add: ahead_def)
  then show thesis by (rule that) (simp only: d')
qed

section \<open>The oracle's bookkeeping\<close>

fun positions :: "int \<Rightarrow> expert_key list \<Rightarrow> expert_key \<Rightarrow> int list" where
  "positions t [] k = []"
| "positions t (x # ks) k = (if x = k then t # positions (t + 1) ks k else positions (t + 1) ks k)"

lemma append_positions_eq: "append_positions t ks f k = f k @ positions t ks k"
  by (induction ks arbitrary: t f) simp_all

lemma build_future_eq: "build_future trace k = rev (positions 0 trace k)"
  by (simp add: build_future_def append_positions_eq)

lemma positions_Nil_iff: "positions t ks k = [] \<longleftrightarrow> k \<notin> set ks"
  by (induction t ks k rule: positions.induct) auto

lemma hd_positions: "k \<in> set ks \<Longrightarrow> hd (positions t ks k) = t + int (next_use ks k)"
proof (induction ks arbitrary: t)
  case (Cons x ks)
  then show ?case by (cases "x = k") (simp_all add: next_use_Cons)
qed simp

lemma next_use_le: "next_use ks k \<le> length ks"
  by (simp add: next_use_def length_takeWhile_le)

lemma next_use_absent: "k \<notin> set ks \<Longrightarrow> next_use ks k = length ks"
  by (induction ks) (auto simp: next_use_def)

definition tracks :: "oracle_cache \<Rightarrow> int \<Rightarrow> expert_key list \<Rightarrow> bool" where
  "tracks s t ks \<longleftrightarrow> (\<forall>k. oc_future s k = rev (positions t ks k))"

lemma tracksD: "tracks s t ks \<Longrightarrow> oc_future s k = rev (positions t ks k)"
  unfolding tracks_def by (rule spec)

lemma tracks_init: "tracks (oracle_init c trace) 0 trace"
  by (simp add: tracks_def oracle_init_def build_future_eq)

text \<open>The victim loop returns a key whose next use is furthest among those it has seen.\<close>

lemma furthest_spec:
  assumes fut: "\<And>k. fut k = rev (positions t ks k)" and "0 \<le> t"
    and acc: "case fk of None \<Rightarrow> fs = - 1 | Some w \<Rightarrow> w \<in> set ks \<and> fs = t + int (next_use ks w)"
    and "rs \<noteq> [] \<or> fk \<noteq> None"
  shows "\<exists>v. furthest fut rs fk fs = Some v \<and> v \<in> set rs \<union> set_option fk \<and>
    (\<forall>k \<in> set rs \<union> set_option fk. next_use ks k \<le> next_use ks v)"
  using acc assms(4)
proof (induction rs arbitrary: fk fs)
  case Nil
  then show ?case by auto
next
  case (Cons r rs)
  show ?case
  proof (cases "r \<in> set ks")
    case False
    then have "next_use ks r = length ks" by (rule next_use_absent)
    then show ?thesis using False next_use_le by (auto simp: fut positions_Nil_iff)
  next
    case True
    then have r: "fut r \<noteq> []" "last (fut r) = t + int (next_use ks r)"
      by (simp_all add: fut positions_Nil_iff last_rev hd_positions)
    show ?thesis
    proof (cases "fs < t + int (next_use ks r)")
      case far: True
      obtain v where v: "furthest fut rs (Some r) (t + int (next_use ks r)) = Some v"
        "v \<in> set rs \<union> {r}" "\<forall>k \<in> set rs \<union> {r}. next_use ks k \<le> next_use ks v"
        using Cons.IH [where fk = "Some r" and fs = "t + int (next_use ks r)"] True by auto
      have "next_use ks w \<le> next_use ks v" if "fk = Some w" for w
        using that Cons.prems(1) far v(3) by force
      then show ?thesis using v far r by auto
    next
      case near: False
      then obtain w where w: "fk = Some w" using Cons.prems(1) \<open>0 \<le> t\<close> by (cases fk) auto
      then show ?thesis
        using near r Cons.prems(1) Cons.IH [where fk = fk and fs = fs] by force
    qed
  qed
qed

section \<open>The oracle meets the contract\<close>

definition oracle_resident :: "oracle_cache \<Rightarrow> expert_key set" where
  "oracle_resident s = set (oc_cache s)"

definition oracle_inv :: "oracle_cache \<Rightarrow> bool" where
  "oracle_inv s \<longleftrightarrow> distinct (oc_cache s) \<and> 1 \<le> cp_capacity s \<and>
     int (length (oc_cache s)) \<le> cp_capacity s \<and> (\<forall>k. \<forall>i \<in> set (oc_future s k). 0 \<le> i)"

lemma set_positions: "i \<in> set (positions t ks k) \<Longrightarrow> t \<le> i"
  by (induction t ks k rule: positions.induct) (auto split: if_splits)

lemma oracle_init_inv: "oracle_inv (oracle_init c trace)" "oracle_resident (oracle_init c trace) = {}"
  "cp_capacity (oracle_init c trace) = max 1 c"
  by (auto simp: oracle_inv_def oracle_init_def oracle_resident_def build_future_eq dest: set_positions)

text \<open>The iteration order of a Python set: unspecified, but it visits every element.\<close>

locale iteration_order =
  fixes iter :: "expert_key list \<Rightarrow> expert_key list"
  assumes iter_set: "set (iter xs) = set xs"
begin

lemma furthest_total:
  assumes "rs \<noteq> [] \<or> fk \<noteq> None" "fk = None \<longrightarrow> fs = - 1" "\<forall>k. \<forall>i \<in> set (fut k). 0 \<le> i"
  shows "\<exists>v. furthest fut rs fk fs = Some v \<and> v \<in> set rs \<union> set_option fk"
  using assms
proof (induction rs arbitrary: fk fs)
  case (Cons r rs)
  have last: "0 \<le> last (fut r)" if "fut r \<noteq> []"
    using Cons.prems(3) last_in_set [OF that] by blast
  show ?case
  proof (cases "fut r = []")
    case nonempty: False
    show ?thesis
  proof (cases "last (fut r) \<le> fs")
    case True
    then have "fk \<noteq> None" using last [OF nonempty] Cons.prems(2) by auto
    then show ?thesis
      using True nonempty Cons.IH [where fk = fk and fs = fs, OF _ Cons.prems(2,3)]
      by (simp add: Let_def) blast
  next
    case False
    then show ?thesis
      using Cons.IH [where fk = "Some r" and fs = "last (fut r)", OF _ _ Cons.prems(3)]
      nonempty by (simp add: Let_def) blast
  qed
  qed simp
qed auto

lemma access_cases:
  assumes i: "oracle_inv s"
  obtains (hit) s' where "k \<in> oracle_resident s" "oracle_access iter s k t = Inr (s', True)"
      "oc_cache s' = oc_cache s" "cp_hits s' = cp_hits s + 1" "cp_misses s' = cp_misses s"
      "cp_capacity s' = cp_capacity s" "oracle_inv s'"
  | (fill) s' where "k \<notin> oracle_resident s" "oracle_access iter s k t = Inr (s', False)"
      "int (length (oc_cache s)) < cp_capacity s"
      "oc_cache s' = oc_cache s @ [k]" "cp_hits s' = cp_hits s" "cp_misses s' = cp_misses s + 1"
      "cp_capacity s' = cp_capacity s" "oracle_inv s'"
  | (evict) s' v where "k \<notin> oracle_resident s" "oracle_access iter s k t = Inr (s', False)"
      "cp_capacity s \<le> int (length (oc_cache s))"
      "furthest (oc_future s') (iter (oc_cache s)) None (- 1) = Some v" "v \<in> set (oc_cache s)"
      "oc_cache s' = remove1 v (oc_cache s) @ [k]" "cp_hits s' = cp_hits s"
      "cp_misses s' = cp_misses s + 1" "cp_capacity s' = cp_capacity s" "oracle_inv s'"
proof -
  define fut where "fut = (if oc_future s k \<noteq> [] \<and> last (oc_future s k) = t
    then (oc_future s)(k := butlast (oc_future s k)) else oc_future s)"
  define s0 where "s0 = s\<lparr>oc_future := fut\<rparr>"
  have s0: "(if oc_future s k \<noteq> [] \<and> last (oc_future s k) = t
    then s\<lparr>oc_future := (oc_future s)(k := butlast (oc_future s k))\<rparr> else s) = s0"
    by (simp add: s0_def fut_def)
  have fut: "\<forall>j. \<forall>i \<in> set (fut j). 0 \<le> i"
    using i by (auto simp: fut_def oracle_inv_def dest: in_set_butlastD)
  note unf = oracle_access_def s0 Let_def
  show thesis
  proof (cases "k \<in> set (oc_cache s)")
    case True
    then show ?thesis using i fut
      by (intro hit [of "s0\<lparr>cp_hits := cp_hits s + 1\<rparr>"])
        (simp_all add: unf, simp_all add: s0_def oracle_resident_def oracle_inv_def)
  next
    case miss: False
    show ?thesis
    proof (cases "int (length (oc_cache s)) < cp_capacity s")
      case True
      then show ?thesis using i fut miss
        by (intro fill [of "s0\<lparr>cp_misses := cp_misses s + 1, oc_cache := oc_cache s @ [k]\<rparr>"])
          (simp_all add: unf, simp_all add: s0_def oracle_resident_def oracle_inv_def)
    next
      case False
      have ne: "iter (oc_cache s) \<noteq> []"
        using i False iter_set [of "oc_cache s"] by (auto simp: oracle_inv_def)
      obtain v where v: "furthest fut (iter (oc_cache s)) None (- 1) = Some v" "v \<in> set (oc_cache s)"
        using furthest_total [of "iter (oc_cache s)" None "- 1" fut] ne fut
        by (auto simp: iter_set)
      have "Suc (length (remove1 v (oc_cache s))) = length (oc_cache s)"
        using v(2) by (simp add: length_remove1)
          (metis Suc_pred length_pos_if_in_set)
      then show ?thesis using i fut miss False v
        by (intro evict [of "s0\<lparr>cp_misses := cp_misses s + 1,
            oc_cache := remove1 v (oc_cache s) @ [k], cp_evictions := cp_evictions s + 1\<rparr>" v])
          (simp_all add: unf, auto simp add: s0_def oracle_resident_def oracle_inv_def
             dest: notin_set_remove1)
    qed
  qed
qed

end

sublocale iteration_order \<subseteq> orc: demand_policy "oracle_access iter" oracle_resident cp_capacity
  cp_hits cp_misses oracle_inv
proof unfold_locales
  fix s s' :: oracle_cache and k t h
  assume i: "oracle_inv s"
  show "\<exists>s' h. oracle_access iter s k t = Inr (s', h)"
    by (rule access_cases [OF i, of k t]) blast+
  show "finite (oracle_resident s) \<and> int (card (oracle_resident s)) \<le> cp_capacity s"
    using i by (simp add: oracle_resident_def oracle_inv_def distinct_card)
  assume a: "oracle_access iter s k t = Inr (s', h)"
  have "(oracle_inv s' \<and> cp_capacity s' = cp_capacity s) \<and> (h \<longleftrightarrow> k \<in> oracle_resident s) \<and>
    (cp_hits s' = cp_hits s + of_bool h \<and> cp_misses s' = cp_misses s + of_bool (\<not> h)) \<and>
    oracle_resident s' \<subseteq> insert k (oracle_resident s) \<and> k \<in> oracle_resident s'"
    by (rule access_cases [OF i, of k t])
      (use a in \<open>auto simp: oracle_resident_def dest: notin_set_remove1\<close>)
  then show "oracle_inv s' \<and> cp_capacity s' = cp_capacity s" "h \<longleftrightarrow> k \<in> oracle_resident s"
    "cp_hits s' = cp_hits s + of_bool h \<and> cp_misses s' = cp_misses s + of_bool (\<not> h)"
    "oracle_resident s' \<subseteq> insert k (oracle_resident s)" "k \<in> oracle_resident s'"
    by blast+
qed

text \<open>Insertion order is one iteration order; the results below hold for every other one.\<close>

interpretation insertion_order: iteration_order "\<lambda>xs. xs"
  by unfold_locales simp

section \<open>Optimality\<close>

context iteration_order
begin

lemma tracks_step:
  assumes "tracks s t (k # ks)" "oracle_access iter s k t = Inr (s', h)"
  shows "tracks s' (t + 1) ks"
proof -
  note fut = tracksD [OF assms(1)]
  have "oc_future s' = (oc_future s)(k := butlast (oc_future s k))"
    using assms(2) fut [of k]
    by (auto simp: oracle_access_def Let_def split: if_splits option.splits)
  then show ?thesis using fut by (simp add: tracks_def)
qed

lemma oracle_belady:
  assumes i: "oracle_inv s" and tr: "tracks s t (k # ks)" "0 \<le> t"
    and a: "oracle_access iter s k t = Inr (s', h)"
  shows "belady_step (nat (cp_capacity s)) ks k (oracle_resident s) (oracle_resident s')"
proof -
  note tr' = tracksD [OF tracks_step [OF tr(1) a]]
  have card: "card (oracle_resident s) = length (oc_cache s)"
    using i by (simp add: oracle_resident_def oracle_inv_def distinct_card)
  show ?thesis
  proof (rule access_cases [OF i, of k t])
    fix s1 assume "k \<in> oracle_resident s" "oracle_access iter s k t = Inr (s1, True)"
      "oc_cache s1 = oc_cache s"
    then show ?thesis using a by (simp add: belady_step_def oracle_resident_def)
  next
    fix s1 assume "k \<notin> oracle_resident s" "oracle_access iter s k t = Inr (s1, False)"
      "int (length (oc_cache s)) < cp_capacity s" "oc_cache s1 = oc_cache s @ [k]"
    then show ?thesis using a card
      by (simp add: belady_step_def oracle_resident_def zless_nat_eq_int_zless)
  next
    fix s1 v assume c: "k \<notin> oracle_resident s" "oracle_access iter s k t = Inr (s1, False)"
      "cp_capacity s \<le> int (length (oc_cache s))"
      "furthest (oc_future s1) (iter (oc_cache s)) None (- 1) = Some v" "v \<in> set (oc_cache s)"
      "oc_cache s1 = remove1 v (oc_cache s) @ [k]"
    have s1: "s1 = s'" using a c(2) by simp
    have "iter (oc_cache s) \<noteq> []" using c(5) iter_set [of "oc_cache s"] by auto
    then have "\<forall>j \<in> set (oc_cache s). next_use ks j \<le> next_use ks v"
      using furthest_spec [OF tr', where fk = None and fs = "- 1" and rs = "iter (oc_cache s)"] tr(2) c(4)
      by (auto simp: s1 iter_set)
    moreover have "oracle_resident s' = insert k (oracle_resident s - {v})"
      using i c(6) by (auto simp: s1 oracle_resident_def oracle_inv_def)
    ultimately show ?thesis using c(1,3,5) card
      by (auto simp: belady_step_def oracle_resident_def)
  qed
qed

end

text \<open>
  Any demand policy, replayed beside the oracle from caches of which the policy's is at most
  \<open>d\<close> keys ahead, has at most \<open>d\<close> more hits.
\<close>

locale versus_oracle = demand_policy + iteration_order
begin

lemma replay_behind:
  assumes "invar s" "oracle_inv s\<^sub>o" "tracks s\<^sub>o t ks" "0 \<le> t" "bound s \<le> cp_capacity s\<^sub>o"
    and "ahead ks (resident s) (oracle_resident s\<^sub>o) d"
    and "replay access s t ks = Inr (s', hs)"
    and "replay (oracle_access iter) s\<^sub>o t ks = Inr (s\<^sub>o', hs\<^sub>o)"
  shows "count_hits hs \<le> count_hits hs\<^sub>o + d"
  using assms
proof (induction ks arbitrary: s s\<^sub>o t d hs hs\<^sub>o)
  case (Cons k ks)
  obtain s1 h hs1 where a: "access s k t = Inr (s1, h)"
    and r: "replay access s1 (t + 1) ks = Inr (s', hs1)" and hs: "hs = h # hs1"
    using Cons.prems(7) by auto
  obtain o1 g gs1 where ao: "oracle_access iter s\<^sub>o k t = Inr (o1, g)"
    and ro: "replay (oracle_access iter) o1 (t + 1) ks = Inr (s\<^sub>o', gs1)" and gs: "hs\<^sub>o = g # gs1"
    using Cons.prems(8) by auto
  note i = Cons.prems(1) and io = Cons.prems(2)
  have i1: "invar s1" "bound s1 = bound s" using access_invar [OF i a] by auto
  have io1: "oracle_inv o1" "cp_capacity o1 = cp_capacity s\<^sub>o" using orc.access_invar [OF io ao] by auto
  have flags: "h \<longleftrightarrow> k \<in> resident s" "g \<longleftrightarrow> k \<in> oracle_resident s\<^sub>o"
    using access_flag [OF i a] orc.access_flag [OF io ao] by auto
  have card: "card (resident s1) \<le> nat (cp_capacity s\<^sub>o)"
    using resident_bound [OF i1(1)] i1(2) Cons.prems(5) by linarith
  obtain d' where d': "ahead ks (resident s1) (oracle_resident o1) d'"
    "d' + of_bool h \<le> d + of_bool g"
    using ahead_step [OF _ access_resident [OF i a] access_admits [OF i a] _ card _
        oracle_belady [OF io Cons.prems(3,4) ao] Cons.prems(6)]
      resident_bound [OF i] resident_bound [OF i1(1)] orc.resident_bound [OF io] flags
    by auto
  have "count_hits hs1 \<le> count_hits gs1 + d'"
    using Cons.IH [OF i1(1) io1(1) tracks_step [OF Cons.prems(3) ao] _ _ d'(1) r ro]
      Cons.prems(4,5) i1(2) io1(2) by simp
  then show ?case using d'(2) by (cases h; cases g) (simp_all add: hs gs)
qed simp

theorem oracle_optimal:
  assumes "invar s" "resident s = {}" "bound s \<le> max 1 c"
    and "replay access s 0 trace = Inr (s', hs)"
    and "replay (oracle_access iter) (oracle_init c trace) 0 trace = Inr (s\<^sub>o', hs\<^sub>o)"
  shows "count_hits hs \<le> count_hits hs\<^sub>o"
proof -
  have "ahead trace (resident s) (oracle_resident (oracle_init c trace)) 0"
    using assms(2) by (simp add: ahead_def soon_def)
  then show ?thesis
    using replay_behind [OF assms(1) oracle_init_inv(1) tracks_init _ _ _ assms(4,5), of 0] assms(3)
    by (simp add: oracle_init_inv)
qed

end

text \<open>LRU and SLRU beside the oracle that iterates its set in insertion order.\<close>

interpretation lru_vs: versus_oracle lru_access lru_resident cp_capacity cp_hits cp_misses lru_inv "\<lambda>xs. xs"
  by unfold_locales
interpretation slru_vs: versus_oracle slru_access slru_resident slru_bound cp_hits cp_misses slru_inv "\<lambda>xs. xs"
  by unfold_locales

end
