(* ===== verification/Simulation.thy ===== *)
theory Simulation
  imports Belady "HOL-Library.Multiset"
begin

text \<open>
  The replay of a routing trace: \<open>RoutingEvent\<close> of \<open>sim/schema.py\<close>, the roofline of
  \<open>sim/hardware.py\<close> in float arithmetic, and \<open>run_simulation\<close> of \<open>sim/report.py\<close>, which
  groups the events by token, replays each group through a policy and averages the
  latencies. The headline results are Belady's bound on the replayed hit counts, which needs
  the events in token order, and the two traces on which it fails.
\<close>

section \<open>Trace events\<close>

record routing_event =
  ev_token_id :: int
  ev_layer_idx :: int
  ev_slot_idx :: int
  ev_expert_idx :: int
  ev_weight :: pyfloat
  ev_router_entropy :: pyfloat
  ev_prompt_id :: int
  ev_phase :: string

definition ev_key :: "routing_event \<Rightarrow> expert_key" where
  "ev_key ev = (ev_layer_idx ev, ev_expert_idx ev)"

section \<open>The roofline\<close>

record hardware_profile =
  hw_ssd_bandwidth_gbps :: pyfloat
  hw_ssd_latency_us :: pyfloat
  hw_pcie_bandwidth_gbps :: pyfloat
  hw_gpu_tflops_fp16 :: pyfloat
  hw_gpu_utilization :: pyfloat
  hw_expert_size_bytes_4b :: int
  hw_expert_size_bytes_2b :: int
  hw_ple_bytes_per_token :: int
  hw_dense_activated_params :: int

definition default_profile :: hardware_profile where
  "default_profile =
     \<lparr>hw_ssd_bandwidth_gbps = fl 3.5, hw_ssd_latency_us = fl 25, hw_pcie_bandwidth_gbps = fl 7.8,
      hw_gpu_tflops_fp16 = fl 9, hw_gpu_utilization = fl 0.35,
      hw_expert_size_bytes_4b = 2613248, hw_expert_size_bytes_2b = 1384448,
      hw_ple_bytes_per_token = 65536, hw_dense_activated_params = 4312004515\<rparr>"

record latency_breakdown =
  lat_token_id :: int
  lat_expert_misses :: int
  lat_expert_hits :: int
  lat_ssd_bytes_read :: int
  lat_ssd_time_ms :: pyfloat
  lat_pcie_time_ms :: pyfloat
  lat_gpu_compute_time_ms :: pyfloat
  lat_stall_time_ms :: pyfloat
  lat_total_time_ms :: pyfloat
  lat_tokens_per_second :: pyfloat

definition simulate_token :: "hardware_profile \<Rightarrow> int \<Rightarrow> int \<Rightarrow> int \<Rightarrow> pyfloat \<Rightarrow> bool \<Rightarrow> bool \<Rightarrow>
    latency_breakdown result" where
  "simulate_token hw token_id expert_misses expert_hits bits_per_weight upload_to_gpu
       overlap_io_and_compute =
     (let expert_size = (if bits_per_weight \<le> fl 2.5 then hw_expert_size_bytes_2b hw
                         else hw_expert_size_bytes_4b hw);
          ssd_expert_bytes = expert_misses * expert_size;
          ssd_total_bytes = ssd_expert_bytes + hw_ple_bytes_per_token hw in
      bindE (py_fdiv (fof ssd_total_bytes) (fmul (hw_ssd_bandwidth_gbps hw) (10 ^ 9))) (\<lambda>ssd_transfer_sec.
      let ssd_latency_sec = (if 0 < expert_misses
            then fmul (hw_ssd_latency_us hw) (fl (1 / 10 ^ 6)) else 0);
          ssd_time_ms = fmul (fadd ssd_transfer_sec ssd_latency_sec) 1000 in
      bindE (if upload_to_gpu \<and> 0 < expert_misses
             then bindE (py_fdiv (fof ssd_expert_bytes) (fmul (hw_pcie_bandwidth_gbps hw) (10 ^ 9)))
                    (\<lambda>pcie_sec. Inr (fmul pcie_sec 1000))
             else Inr 0) (\<lambda>pcie_time_ms.
      let total_active_params =
            hw_dense_activated_params hw + (expert_misses + expert_hits) * 4915200;
          flops_per_token = fmul (fof total_active_params) 2;
          effective_flops = fmul (fmul (hw_gpu_tflops_fp16 hw) (10 ^ 12)) (hw_gpu_utilization hw) in
      bindE (py_fdiv flops_per_token effective_flops) (\<lambda>compute_sec.
      let gpu_compute_ms = fmul compute_sec 1000;
          io_time_ms = fadd ssd_time_ms pcie_time_ms;
          stall_time_ms = (if overlap_io_and_compute then max 0 (fsub io_time_ms gpu_compute_ms)
                           else io_time_ms);
          total_time_ms = (if overlap_io_and_compute then max io_time_ms gpu_compute_ms
                           else fadd io_time_ms gpu_compute_ms) in
      bindE (if 0 < total_time_ms then py_fdiv 1000 total_time_ms else Inr 0) (\<lambda>tok_s.
      Inr \<lparr>lat_token_id = token_id, lat_expert_misses = expert_misses,
           lat_expert_hits = expert_hits, lat_ssd_bytes_read = ssd_total_bytes,
           lat_ssd_time_ms = ssd_time_ms, lat_pcie_time_ms = pcie_time_ms,
           lat_gpu_compute_time_ms = gpu_compute_ms, lat_stall_time_ms = stall_time_ms,
           lat_total_time_ms = total_time_ms, lat_tokens_per_second = tok_s\<rparr>)))))"

section \<open>The simulation loop\<close>

text \<open>\<open>events_by_token.setdefault(ev.token_id, []).append(ev)\<close> over the events.\<close>

fun group_events :: "routing_event list \<Rightarrow> (int, routing_event list) odict \<Rightarrow>
    (int, routing_event list) odict" where
  "group_events [] d = d"
| "group_events (ev # evs) d =
     group_events evs (od_set d (ev_token_id ev)
       ((case od_get d (ev_token_id ev) of None \<Rightarrow> [] | Some l \<Rightarrow> l) @ [ev]))"

definition events_by_token :: "routing_event list \<Rightarrow> (int \<times> routing_event list) list" where
  "events_by_token events = sort_key fst (group_events events [])"

text \<open>The order in which the policies see the accesses.\<close>

definition replay_order :: "routing_event list \<Rightarrow> routing_event list" where
  "replay_order events = concat (map snd (events_by_token events))"

fun run_tokens :: "('s \<Rightarrow> expert_key \<Rightarrow> int \<Rightarrow> ('s \<times> bool) result) \<Rightarrow> hardware_profile \<Rightarrow> pyfloat \<Rightarrow>
    's \<Rightarrow> int \<Rightarrow> (int \<times> routing_event list) list \<Rightarrow> ('s \<times> latency_breakdown list) result" where
  "run_tokens access hw bits s step [] = Inr (s, [])"
| "run_tokens access hw bits s step ((tok_id, tok_events) # rest) =
     bindE (replay access s step (map ev_key tok_events)) (\<lambda>(s1, flags).
     let token_hits = int (count_hits flags);
         token_misses = int (length flags) - token_hits in
     bindE (simulate_token hw tok_id token_misses token_hits bits False True) (\<lambda>lat.
     bindE (run_tokens access hw bits s1 (step + int (length tok_events)) rest) (\<lambda>(s2, lats).
     Inr (s2, lat # lats))))"

record policy_metric =
  pm_policy_name :: string
  pm_capacity_slots :: int
  pm_bits_per_weight :: pyfloat
  pm_total_accesses :: int
  pm_hits :: int
  pm_misses :: int
  pm_evictions :: int
  pm_hit_rate :: pyfloat
  pm_avg_ssd_mb_per_token :: pyfloat
  pm_avg_stall_time_ms :: pyfloat
  pm_avg_tokens_per_second :: pyfloat

definition policy_metrics :: "string \<Rightarrow> int \<Rightarrow> pyfloat \<Rightarrow> 'a policy_scheme \<Rightarrow> latency_breakdown list \<Rightarrow>
    policy_metric result" where
  "policy_metrics name capacity_slots bits s lats =
     (let total_tokens = max 1 (int (length lats)) in
      bindE (py_truediv (sum_list (map lat_ssd_bytes_read lats)) (total_tokens * 1024 * 1024)) (\<lambda>mb.
      bindE (py_fdiv (fsum (map lat_stall_time_ms lats)) (fof total_tokens)) (\<lambda>stall.
      bindE (py_fdiv (fsum (map lat_tokens_per_second lats)) (fof total_tokens)) (\<lambda>tok_s.
      Inr \<lparr>pm_policy_name = name, pm_capacity_slots = capacity_slots, pm_bits_per_weight = bits,
           pm_total_accesses = total_accesses s, pm_hits = cp_hits s, pm_misses = cp_misses s,
           pm_evictions = cp_evictions s, pm_hit_rate = hit_rate s,
           pm_avg_ssd_mb_per_token = mb, pm_avg_stall_time_ms = stall,
           pm_avg_tokens_per_second = tok_s\<rparr>))))"

definition run_policy :: "(expert_key list \<Rightarrow> expert_key list) \<Rightarrow> routing_event list \<Rightarrow> int \<Rightarrow>
    pyfloat \<Rightarrow> hardware_profile \<Rightarrow> string \<Rightarrow> policy_metric result" where
  "run_policy iter events capacity_slots bits hw name =
     (let trace_pairs = map ev_key events; groups = events_by_token events in
      if name = ''Oracle'' then
        bindE (run_tokens (oracle_access iter) hw bits (oracle_init capacity_slots trace_pairs) 0 groups)
          (\<lambda>(s, lats). policy_metrics name capacity_slots bits s lats)
      else if name = ''SLRU'' then
        bindE (run_tokens slru_access hw bits (slru_init capacity_slots (fl 0.8)) 0 groups)
          (\<lambda>(s, lats). policy_metrics name capacity_slots bits s lats)
      else if name = ''TinyLFU'' then
        bindE (run_tokens tinylfu_access hw bits (tinylfu_init capacity_slots 10000) 0 groups)
          (\<lambda>(s, lats). policy_metrics name capacity_slots bits s lats)
      else
        bindE (run_tokens lru_access hw bits (lru_init capacity_slots) 0 groups)
          (\<lambda>(s, lats). policy_metrics name capacity_slots bits s lats))"

definition run_simulation :: "(expert_key list \<Rightarrow> expert_key list) \<Rightarrow> routing_event list \<Rightarrow> int \<Rightarrow>
    pyfloat \<Rightarrow> hardware_profile \<Rightarrow> string list \<Rightarrow> policy_metric list result" where
  "run_simulation iter events capacity_slots bits hw policies =
     mapE (run_policy iter events capacity_slots bits hw)
       (if policies = [] then [''Oracle'', ''OSPageCache'', ''SLRU'', ''TinyLFU'', ''LRU'']
        else policies)"

section \<open>The order of the replay\<close>

lemma group_events_filter:
  "od_get (group_events evs d) t =
     (let l = (case od_get d t of None \<Rightarrow> [] | Some l \<Rightarrow> l) @ filter (\<lambda>e. ev_token_id e = t) evs
      in if od_get d t = None \<and> filter (\<lambda>e. ev_token_id e = t) evs = [] then None else Some l)"
  by (induction evs d rule: group_events.induct) (auto simp: od_get_set Let_def split: option.splits)

lemma group_events_ok: "od_ok d \<Longrightarrow> od_ok (group_events evs d)"
  by (induction evs d rule: group_events.induct) simp_all

lemma od_get_mem: "od_ok d \<Longrightarrow> (k, v) \<in> set d \<longleftrightarrow> od_get d k = Some v"
  by (simp add: od_ok_def od_get_def od_keys_def)

text \<open>Every group is the stable selection of its token's events.\<close>

lemma events_by_token_mem:
  "(t, l) \<in> set (events_by_token evs) \<longleftrightarrow>
     l = filter (\<lambda>e. ev_token_id e = t) evs \<and> l \<noteq> []"
proof -
  have "od_get (group_events evs []) t =
    (if filter (\<lambda>e. ev_token_id e = t) evs = [] then None
     else Some (filter (\<lambda>e. ev_token_id e = t) evs))"
    by (simp add: group_events_filter od_get_def [of "[]"])
  then show ?thesis
    using od_get_mem [OF group_events_ok [OF od_ok_Nil], of t l evs]
    by (auto simp: events_by_token_def)
qed

lemma events_by_token_keys: "distinct (map fst (events_by_token evs))"
  using group_events_ok [of "[]" evs]
  by (simp add: events_by_token_def od_ok_def od_keys_def distinct_map inj_on_def)

lemma filter_concat_groups:
  assumes "\<And>t l. (t, l) \<in> set gs \<Longrightarrow> l = filter (\<lambda>e. ev_token_id e = t) evs"
    and "distinct (map fst gs)"
  shows "filter (\<lambda>e. ev_token_id e = t) (concat (map snd gs)) =
    (if t \<in> fst ` set gs then filter (\<lambda>e. ev_token_id e = t) evs else [])"
  using assms
proof (induction gs)
  case (Cons g gs)
  obtain u l where g: "g = (u, l)" by (cases g)
  have l: "l = filter (\<lambda>e. ev_token_id e = u) evs" using Cons.prems(1) [of u l] by (simp add: g)
  have IH: "filter (\<lambda>e. ev_token_id e = t) (concat (map snd gs)) =
    (if t \<in> fst ` set gs then filter (\<lambda>e. ev_token_id e = t) evs else [])"
    using Cons.prems by (intro Cons.IH) (auto simp: g)
  have eq: "filter (\<lambda>e. ev_token_id e = t) l = (if t = u then l else [])"
    by (auto simp: l filter_empty_conv intro: filter_cong)
  show ?case using IH eq Cons.prems(2) by (auto simp: g l)
qed simp

lemma replay_order_filter:
  "filter (\<lambda>e. ev_token_id e = t) (replay_order evs) = filter (\<lambda>e. ev_token_id e = t) evs"
proof -
  have "t \<in> fst ` set (events_by_token evs) \<longleftrightarrow> filter (\<lambda>e. ev_token_id e = t) evs \<noteq> []"
  proof -
    have "t \<in> fst ` set (events_by_token evs) \<longleftrightarrow> (\<exists>l. (t, l) \<in> set (events_by_token evs))" by force
    then show ?thesis unfolding events_by_token_mem by blast
  qed
  moreover have "filter (\<lambda>e. ev_token_id e = t) (concat (map snd (events_by_token evs))) =
    (if t \<in> fst ` set (events_by_token evs) then filter (\<lambda>e. ev_token_id e = t) evs else [])"
    by (rule filter_concat_groups [OF _ events_by_token_keys]) (simp add: events_by_token_mem)
  ultimately show ?thesis unfolding replay_order_def by presburger
qed

lemma sorted_concat_groups:
  assumes "\<And>t l e. (t, l) \<in> set gs \<Longrightarrow> e \<in> set l \<Longrightarrow> ev_token_id e = t" "sorted (map fst gs)"
  shows "sorted (map ev_token_id (concat (map snd gs)))"
  using assms
proof (induction gs)
  case (Cons g gs)
  have "map ev_token_id (snd g) = replicate (length (snd g)) (fst g)"
    using Cons.prems(1) [of "fst g" "snd g"] by (intro replicate_eqI) auto
  then have s: "sorted (map ev_token_id (snd g))" by simp
  have "sorted (map ev_token_id (concat (map snd gs)))"
    using Cons.prems by (intro Cons.IH) auto
  moreover have "ev_token_id e \<le> ev_token_id e'"
    if e: "e \<in> set (snd g)" and e': "e' \<in> set (concat (map snd gs))" for e e'
  proof -
    obtain h where h: "h \<in> set gs" "e' \<in> set (snd h)" using e' by auto
    have "ev_token_id e = fst g" using Cons.prems(1) [of "fst g" "snd g"] e by simp
    moreover have "ev_token_id e' = fst h" using Cons.prems(1) [of "fst h" "snd h"] h by simp
    ultimately show ?thesis using Cons.prems(2) h(1) by simp
  qed
  ultimately show ?case using s by (auto simp: sorted_append)
qed simp

lemma replay_order_sort: "replay_order evs = sort_key ev_token_id evs"
proof (rule properties_for_sort_key [symmetric])
  show "mset (replay_order evs) = mset evs"
  proof (rule multiset_eqI)
    fix e
    have "count (mset xs) e = count_list (filter (\<lambda>x. ev_token_id x = ev_token_id e) xs) e"
      for xs :: "routing_event list"
      by (induction xs) auto
    then show "count (mset (replay_order evs)) e = count (mset evs) e"
      by (simp only: replay_order_filter)
  qed
  show "filter (\<lambda>x. ev_token_id k = ev_token_id x) (replay_order evs) =
    filter (\<lambda>x. ev_token_id k = ev_token_id x) evs" for k
    using replay_order_filter [of "ev_token_id k" evs] by (simp add: eq_commute)
  show "sorted (map ev_token_id (replay_order evs))"
    unfolding replay_order_def
    by (rule sorted_concat_groups) (auto simp: events_by_token_mem, simp add: events_by_token_def)
qed

lemma replay_order_sorted: "sorted (map ev_token_id evs) \<Longrightarrow> replay_order evs = evs"
  unfolding replay_order_sort by (rule properties_for_sort_key) simp_all

section \<open>Latencies\<close>

text \<open>A profile whose rates are positive; every division of the roofline is then defined.\<close>

definition hw_ok :: "hardware_profile \<Rightarrow> bool" where
  "hw_ok hw \<longleftrightarrow> 0 < hw_ssd_bandwidth_gbps hw \<and> 0 \<le> hw_ssd_latency_us hw \<and>
     0 < hw_pcie_bandwidth_gbps hw \<and> 0 < hw_gpu_tflops_fp16 hw \<and> 0 < hw_gpu_utilization hw \<and>
     0 \<le> hw_expert_size_bytes_4b hw \<and> 0 \<le> hw_expert_size_bytes_2b hw"

lemma default_profile_ok: "hw_ok default_profile"
  by (simp add: hw_ok_def default_profile_def fl_gt_0 fl_nonneg)

lemma simulate_token_total:
  assumes "hw_ok hw"
  shows "\<exists>lat. simulate_token hw tok misses hits bits upload overlap = Inr lat"
proof -
  have "0 < fmul (hw_ssd_bandwidth_gbps hw) (10 ^ 9)" "0 < fmul (hw_pcie_bandwidth_gbps hw) (10 ^ 9)"
    "0 < fmul (fmul (hw_gpu_tflops_fp16 hw) (10 ^ 12)) (hw_gpu_utilization hw)"
    using assms by (auto simp: hw_ok_def intro!: fmul_pos)
  then show ?thesis unfolding simulate_token_def Let_def
    by (simp add: py_fdiv_pos)
qed

text \<open>A token with more misses never takes less time, whatever the rounding does.\<close>

lemma simulate_token_time:
  assumes ok: "hw_ok hw" and m: "misses \<le> misses'" "misses + hits \<le> misses' + hits'"
    and a: "simulate_token hw tok misses hits bits upload overlap = Inr a"
    and b: "simulate_token hw tok' misses' hits' bits upload overlap = Inr b"
  shows "lat_total_time_ms a \<le> lat_total_time_ms b"
proof -
  define sz where "sz = (if bits \<le> fl 2.5 then hw_expert_size_bytes_2b hw
    else hw_expert_size_bytes_4b hw)"
  have sz: "0 \<le> sz" using ok by (simp add: sz_def hw_ok_def)
  define ssd where "ssd n = fmul (fadd (fl (fof (n * sz + hw_ple_bytes_per_token hw) /
      fmul (hw_ssd_bandwidth_gbps hw) (10 ^ 9)))
    (if 0 < n then fmul (hw_ssd_latency_us hw) (fl (1 / 10 ^ 6)) else 0)) 1000" for n
  define pcie where "pcie n = (if upload \<and> 0 < n
    then fmul (fl (fof (n * sz) / fmul (hw_pcie_bandwidth_gbps hw) (10 ^ 9))) 1000 else 0)" for n
  define cmp where "cmp n = fmul (fl (fmul (fof (hw_dense_activated_params hw + n * 4915200)) 2 /
    fmul (fmul (hw_gpu_tflops_fp16 hw) (10 ^ 12)) (hw_gpu_utilization hw))) 1000" for n
  have pos: "0 < fmul (hw_ssd_bandwidth_gbps hw) (10 ^ 9)" "0 < fmul (hw_pcie_bandwidth_gbps hw) (10 ^ 9)"
    "0 < fmul (fmul (hw_gpu_tflops_fp16 hw) (10 ^ 12)) (hw_gpu_utilization hw)"
    using ok by (auto simp: hw_ok_def intro!: fmul_pos)
  have time: "lat_total_time_ms l = (if overlap then max (fadd (ssd n) (pcie n)) (cmp (n + h))
      else fadd (fadd (ssd n) (pcie n)) (cmp (n + h)))"
    if "simulate_token hw t n h bits upload overlap = Inr l" for l t n h
    using that unfolding simulate_token_def Let_def py_fdiv_pos [OF pos(1)] py_fdiv_pos [OF pos(2)]
      py_fdiv_pos [OF pos(3)] bindE_simps ssd_def pcie_def cmp_def sz_def [symmetric]
    by (auto split: if_splits elim!: bindE_InrE simp: distrib_right)
  have lat0: "0 \<le> fmul (hw_ssd_latency_us hw) (fl (1 / 10 ^ 6))"
    using ok by (simp add: fmul_def hw_ok_def fl_nonneg)
  have "ssd misses \<le> ssd misses'"
    unfolding ssd_def using m(1) sz lat0
    by (intro fmul_mono fadd_mono fdiv_mono [OF pos(1)] fof_mono) (auto intro: mult_right_mono)
  moreover have "pcie misses \<le> pcie misses'"
  proof -
    have nn: "0 \<le> fmul (fl (fof (n * sz) / fmul (hw_pcie_bandwidth_gbps hw) (10 ^ 9))) 1000" if "0 < n" for n
      using that sz pos(2) by (simp add: fmul_def fof_def fl_nonneg)
    have "fmul (fl (fof (misses * sz) / fmul (hw_pcie_bandwidth_gbps hw) (10 ^ 9))) 1000
      \<le> fmul (fl (fof (misses' * sz) / fmul (hw_pcie_bandwidth_gbps hw) (10 ^ 9))) 1000"
      using m(1) sz by (intro fmul_mono fdiv_mono [OF pos(2)] fof_mono) (auto intro: mult_right_mono)
    then show ?thesis using m(1) nn by (auto simp: pcie_def)
  qed
  moreover have "cmp (misses + hits) \<le> cmp (misses' + hits')"
    unfolding cmp_def using m(2)
    by (intro fmul_mono fdiv_mono [OF pos(3)] fof_mono) auto
  ultimately have "fadd (ssd misses) (pcie misses) \<le> fadd (ssd misses') (pcie misses')"
    "cmp (misses + hits) \<le> cmp (misses' + hits')"
    by (auto intro: fadd_mono)
  then show ?thesis
    unfolding time [OF a] time [OF b] by (auto simp: max_def intro: fadd_mono)
qed

section \<open>From a simulation to its replay\<close>

lemma replay_append:
  "replay access s t (ks @ ls) =
     bindE (replay access s t ks) (\<lambda>(s1, hs).
       bindE (replay access s1 (t + int (length ks)) ls) (\<lambda>(s2, hs2). Inr (s2, hs @ hs2)))"
proof (induction ks arbitrary: s t)
  case Nil
  then show ?case by (cases "replay access s t ls") auto
next
  case (Cons k ks)
  show ?case
  proof (cases "access s k t")
    case (Inr r)
    then obtain s1 h where r: "access s k t = Inr (s1, h)" by (cases r) auto
    show ?thesis using r Cons.IH [of s1 "t + 1"]
      by (cases "replay access s1 (t + 1) ks")
        (auto simp: algebra_simps bindE_def split: sum.splits prod.splits)
  qed simp
qed

lemma run_tokens_replay:
  assumes "run_tokens access hw bits s t gs = Inr (s', lats)"
  shows "\<exists>hs. replay access s t (map ev_key (concat (map snd gs))) = Inr (s', hs) \<and>
    length lats = length gs"
  using assms
proof (induction gs arbitrary: s t lats)
  case (Cons g gs)
  obtain tok evs where g: "g = (tok, evs)" by (cases g)
  obtain s1 hs1 lats1 where r: "replay access s t (map ev_key evs) = Inr (s1, hs1)"
    "run_tokens access hw bits s1 (t + int (length evs)) gs = Inr (s', lats1)"
    "length lats = Suc (length lats1)"
    using Cons.prems by (auto simp: g Let_def)
  show ?case using Cons.IH [OF r(2)] r by (auto simp: g replay_append)
qed simp

lemma run_tokens_total:
  assumes "hw_ok hw" and "\<And>s ks t. ok s \<Longrightarrow> \<exists>s' hs. replay access s t ks = Inr (s', hs) \<and> ok s'"
    and "ok s"
  shows "\<exists>s' lats. run_tokens access hw bits s t gs = Inr (s', lats)"
  using assms(3)
proof (induction gs arbitrary: s t)
  case (Cons g gs)
  obtain tok evs where g: "g = (tok, evs)" by (cases g)
  obtain s1 hs where r: "replay access s t (map ev_key evs) = Inr (s1, hs)" "ok s1"
    using assms(2) [OF Cons.prems] by blast
  show ?case
    using r Cons.IH [OF r(2), of "t + int (length evs)"]
      simulate_token_total [OF assms(1), of tok "int (length hs) - int (count_hits hs)"
        "int (count_hits hs)" bits False True]
    by (auto simp: g Let_def)
qed simp

text \<open>What the metrics of a run say about the replay behind it.\<close>

lemma policy_metrics_fields:
  assumes "policy_metrics name c bits s lats = Inr m"
  shows "pm_hits m = cp_hits s \<and> pm_misses m = cp_misses s \<and> pm_policy_name m = name \<and>
    pm_total_accesses m = cp_hits s + cp_misses s"
  using assms by (auto simp: policy_metrics_def Let_def total_accesses_def)

lemma policy_metrics_total: "\<exists>m. policy_metrics name c bits s lats = Inr m"
proof -
  have p: "0 < fof (max 1 (int (length lats)))" by (simp add: fof_def fl_gt_0)
  have n: "max 1 (int (length lats)) * 1024 * 1024 \<noteq> 0" by simp
  show ?thesis
    unfolding policy_metrics_def Let_def py_fdiv_pos [OF p] py_truediv_def if_not_P [OF n] bindE_simps
    by blast
qed

context cache_policy
begin

lemma run_tokens_metrics:
  assumes i: "invar s" and r: "run_tokens access hw bits s 0 (events_by_token evs) = Inr (s', lats)"
  obtains hs where "replay access s 0 (map ev_key (replay_order evs)) = Inr (s', hs)"
    "hits s' = hits s + int (count_hits hs)" "misses s' = misses s + (int (length evs) - int (count_hits hs))"
    "card (ev_key ` set evs - resident s) \<le> length evs - count_hits hs" "count_hits hs \<le> length evs"
proof -
  obtain hs where hs: "replay access s 0 (map ev_key (replay_order evs)) = Inr (s', hs)"
    using run_tokens_replay [OF r] by (auto simp: replay_order_def)
  have len: "length (replay_order evs) = length evs" "set (replay_order evs) = set evs"
    by (simp_all add: replay_order_sort)
  have "count_hits hs \<le> length evs"
    using replay_counts [OF i hs] count_hits_le [of hs] len by simp
  then show ?thesis using replay_counts [OF i hs] replay_compulsory [OF i hs] len
    by (intro that [OF hs]) (simp_all add: of_nat_diff)
qed

lemma replay_total_invar:
  "invar s \<Longrightarrow> \<exists>s' hs. replay access s t ks = Inr (s', hs) \<and> invar s'"
  using replay_total [of s t ks] replay_invar [of s t ks] by metis

end

lemma slru_init_fresh: "cp_hits (slru_init c r) = 0" "cp_misses (slru_init c r) = 0"
  by (simp_all add: slru_init_def Let_def)

lemma init_fresh:
  "cp_hits (lru_init c) = 0" "cp_misses (lru_init c) = 0"
  "cp_hits (tinylfu_init c w) = 0" "cp_misses (tinylfu_init c w) = 0"
  "cp_hits (oracle_init c tr) = 0" "cp_misses (oracle_init c tr) = 0"
  by (simp_all add: lru_init_def tinylfu_init_def oracle_init_def)

lemmas run_policy_inits = lru_init_inv slru_init_inv tinylfu_init_inv oracle_init_inv
  slru_init_fresh init_fresh

text \<open>The four policies, as one case split over the name.\<close>

lemma run_policy_cases:
  assumes "run_policy iter evs c bits hw name = Inr m" and "\<forall>xs. set (iter xs) = set xs"
  obtains (Oracle) s lats where "name = ''Oracle''"
      "run_tokens (oracle_access iter) hw bits (oracle_init c (map ev_key evs)) 0 (events_by_token evs) = Inr (s, lats)"
      "pm_hits m = cp_hits s" "pm_misses m = cp_misses s" "pm_total_accesses m = cp_hits s + cp_misses s"
  | (SLRU) s lats where "name = ''SLRU''"
      "run_tokens slru_access hw bits (slru_init c (fl 0.8)) 0 (events_by_token evs) = Inr (s, lats)"
      "pm_hits m = cp_hits s" "pm_misses m = cp_misses s" "pm_total_accesses m = cp_hits s + cp_misses s"
  | (TinyLFU) s lats where "name = ''TinyLFU''"
      "run_tokens tinylfu_access hw bits (tinylfu_init c 10000) 0 (events_by_token evs) = Inr (s, lats)"
      "pm_hits m = cp_hits s" "pm_misses m = cp_misses s" "pm_total_accesses m = cp_hits s + cp_misses s"
  | (LRU) s lats where "name \<notin> {''Oracle'', ''SLRU'', ''TinyLFU''}"
      "run_tokens lru_access hw bits (lru_init c) 0 (events_by_token evs) = Inr (s, lats)"
      "pm_hits m = cp_hits s" "pm_misses m = cp_misses s" "pm_total_accesses m = cp_hits s + cp_misses s"
  using assms(1) unfolding run_policy_def Let_def
  by (auto split: if_splits elim!: bindE_InrE dest!: policy_metrics_fields)

lemma iteration_orderI: "\<forall>xs. set (iter xs) = set xs \<Longrightarrow> iteration_order iter"
  by unfold_locales simp

context iteration_order
begin

lemma oracle_run_total:
  "hw_ok hw \<Longrightarrow> \<exists>s lats. run_tokens (oracle_access iter) hw bits (oracle_init c tr) 0 gs = Inr (s, lats)"
  by (rule run_tokens_total [OF _ orc.replay_total_invar oracle_init_inv(1)])

lemma oracle_metrics:
  assumes "run_tokens (oracle_access iter) hw bits (oracle_init c tr) 0 (events_by_token evs) = Inr (s, lats)"
  shows "\<exists>hs. replay (oracle_access iter) (oracle_init c tr) 0 (map ev_key (replay_order evs)) = Inr (s, hs) \<and>
    cp_hits s = int (count_hits hs) \<and> cp_misses s = int (length evs) - int (count_hits hs) \<and>
    card (ev_key ` set evs) \<le> length evs - count_hits hs \<and> count_hits hs \<le> length evs"
  by (rule orc.run_tokens_metrics [OF oracle_init_inv(1) assms]) (auto simp: run_policy_inits)

end

lemma run_policy_total:
  assumes "\<forall>xs. set (iter xs) = set xs" "hw_ok hw"
  shows "\<exists>m. run_policy iter evs c bits hw name = Inr m"
proof -
  note run = run_tokens_total [OF assms(2)]
  obtain s1 l1 where 1: "run_tokens (oracle_access iter) hw bits (oracle_init c (map ev_key evs)) 0
      (events_by_token evs) = Inr (s1, l1)"
    using iteration_order.oracle_run_total [OF iteration_orderI [OF assms(1)] assms(2)] by blast
  obtain s2 l2 where 2: "run_tokens slru_access hw bits (slru_init c (fl 0.8)) 0
      (events_by_token evs) = Inr (s2, l2)"
    using run [OF slru.replay_total_invar slru_init_inv(1)] by blast
  obtain s3 l3 where 3: "run_tokens tinylfu_access hw bits (tinylfu_init c 10000) 0
      (events_by_token evs) = Inr (s3, l3)"
    using run [OF tinylfu.replay_total_invar tinylfu_init_inv(1)] by blast
  obtain s4 l4 where 4: "run_tokens lru_access hw bits (lru_init c) 0 (events_by_token evs) = Inr (s4, l4)"
    using run [OF lru.replay_total_invar lru_init_inv(1)] by blast
  show ?thesis
    unfolding run_policy_def Let_def 1 2 3 4 bindE_simps prod.case
    by (auto intro: policy_metrics_total)
qed

text \<open>The replay behind a metric, whichever policy produced it.\<close>

lemma run_policy_accounting:
  assumes "run_policy iter evs c bits hw name = Inr m" "\<forall>xs. set (iter xs) = set xs"
  shows "pm_hits m + pm_misses m = int (length evs) \<and> pm_total_accesses m = int (length evs) \<and>
    0 \<le> pm_hits m \<and> int (card (ev_key ` set evs)) \<le> pm_misses m"
  using assms
proof (cases rule: run_policy_cases)
  case (Oracle s lats)
  then show ?thesis
    using iteration_order.oracle_metrics [OF iteration_orderI [OF assms(2)] Oracle(2)]
    by (auto simp: of_nat_diff)
next
  case (SLRU s lats)
  show ?thesis
    by (rule slru.run_tokens_metrics [OF slru_init_inv(1) SLRU(2)])
      (use SLRU in \<open>auto simp: run_policy_inits\<close>)
next
  case (TinyLFU s lats)
  show ?thesis
    by (rule tinylfu.run_tokens_metrics [OF tinylfu_init_inv(1) TinyLFU(2)])
      (use TinyLFU in \<open>auto simp: run_policy_inits\<close>)
next
  case (LRU s lats)
  show ?thesis
    by (rule lru.run_tokens_metrics [OF lru_init_inv(1) LRU(2)])
      (use LRU in \<open>auto simp: run_policy_inits\<close>)
qed

lemma lru_no_eviction:
  assumes "lru_inv s" "card (lru_resident s \<union> set ks) \<le> nat (cp_capacity s)"
    and "replay lru_access s t ks = Inr (s', hs)"
  shows "length ks - count_hits hs = card (set ks - lru_resident s)"
  using assms
proof (induction ks arbitrary: s t hs)
  case (Cons k ks)
  obtain s1 h hs1 where a: "lru_access s k t = Inr (s1, h)"
    and r: "replay lru_access s1 (t + 1) ks = Inr (s', hs1)" and hs: "hs = h # hs1"
    using Cons.prems(3) by auto
  note i = Cons.prems(1)
  have i1: "lru_inv s1" "cp_capacity s1 = cp_capacity s" using lru.access_invar [OF i a] by auto
  have flag: "h \<longleftrightarrow> k \<in> lru_resident s" by (rule lru.access_flag [OF i a])
  have fin: "finite (lru_resident s)" by (simp add: lru_resident_def)
  have res: "lru_resident s1 = insert k (lru_resident s)"
  proof (cases "od_in k (lru_entries s)")
    case True
    show ?thesis
      by (rule lru_hit [OF i True, where t = t]) (use a True in \<open>auto simp: lru_resident_def\<close>)
  next
    case False
    have "card (insert k (lru_resident s)) \<le> nat (cp_capacity s)"
    proof -
      have "card (insert k (lru_resident s)) \<le> card (lru_resident s \<union> set (k # ks))"
        by (rule card_mono) (use fin in auto)
      then show ?thesis using Cons.prems(2) by linarith
    qed
    then have room: "int (length (lru_entries s)) < cp_capacity s"
      using False i fin by (simp add: lru_resident_def card_od_keys lru_inv_def)
    show ?thesis
      by (rule lru_miss [OF i False, where t = t]) (use a room in \<open>auto simp: lru_resident_def\<close>)
  qed
  have "length ks - count_hits hs1 = card (set ks - lru_resident s1)"
    using Cons.IH [OF i1(1) _ r] Cons.prems(2) i1(2) by (simp add: res)
  moreover have "count_hits hs1 \<le> length ks"
    using count_hits_le [of hs1] lru.replay_counts [OF i1(1) r] by simp
  moreover have "set (k # ks) - lru_resident s =
    (if h then set ks - lru_resident s1 else insert k (set ks - lru_resident s1))"
    by (auto simp: res flag)
  ultimately show ?case by (simp add: hs res Suc_diff_le)
qed simp

lemma oracle_hits:
  assumes "run_policy iter evs c bits hw ''Oracle'' = Inr m" "\<forall>xs. set (iter xs) = set xs"
    and "map_sum id snd (replay (oracle_access iter) (oracle_init c (map ev_key evs)) 0
      (map ev_key (replay_order evs))) = Inr hs"
  shows "pm_hits m = int (count_hits hs)"
  using assms(1,2)
proof (cases rule: run_policy_cases)
  case (Oracle s lats)
  then show ?thesis
    using iteration_order.oracle_metrics [OF iteration_orderI [OF assms(2)] Oracle(2)] assms(3) by auto
qed simp_all

lemma tinylfu_hits:
  assumes "run_policy iter evs c bits hw ''TinyLFU'' = Inr m" "\<forall>xs. set (iter xs) = set xs"
    and "map_sum id snd (replay tinylfu_access (tinylfu_init c 10000) 0
      (map ev_key (replay_order evs))) = Inr hs"
  shows "pm_hits m = int (count_hits hs)"
  using assms(1,2)
proof (cases rule: run_policy_cases)
  case (TinyLFU s lats)
  show ?thesis
    by (rule tinylfu.run_tokens_metrics [OF tinylfu_init_inv(1) TinyLFU(2)])
      (use TinyLFU assms(3) in \<open>auto simp: run_policy_inits\<close>)
qed simp_all

lemma lru_hits:
  assumes "run_policy iter evs c bits hw ''LRU'' = Inr m" "\<forall>xs. set (iter xs) = set xs"
    and "map_sum id snd (replay lru_access (lru_init c) 0
      (map ev_key (replay_order evs))) = Inr hs"
  shows "pm_hits m = int (count_hits hs)"
  using assms(1,2)
proof (cases rule: run_policy_cases)
  case (LRU s lats)
  show ?thesis
    by (rule lru.run_tokens_metrics [OF lru_init_inv(1) LRU(2)])
      (use LRU assms(3) in \<open>auto simp: run_policy_inits\<close>)
qed simp_all

section \<open>Properties of the simulator\<close>

definition sim_event :: "int \<Rightarrow> int \<Rightarrow> routing_event" where
  "sim_event tok expert =
     \<lparr>ev_token_id = tok, ev_layer_idx = 0, ev_slot_idx = 0, ev_expert_idx = expert, ev_weight = 1,
      ev_router_entropy = 0, ev_prompt_id = 0, ev_phase = ''decode''\<rparr>"

text \<open>C14: On a trace in token order, replayed by \<open>run_simulation\<close> with the same slots, Belady's
  oracle has at least as many hits as LRU, the OS page cache and segmented LRU, whatever order
  Python iterates the resident set in.\<close>

theorem sim_oracle_optimal:
  assumes "\<forall>xs. set (iter xs) = set xs" and "sorted (map ev_token_id evs)"
    and "name \<noteq> ''TinyLFU''" and "name = ''SLRU'' \<longrightarrow> 2 \<le> c \<and> c \<le> 2 ^ 50"
    and "run_policy iter evs c bits hw name = Inr m"
    and "run_policy iter evs c bits hw ''Oracle'' = Inr b"
  shows "pm_hits m \<le> pm_hits b"
proof -
  have order: "replay_order evs = evs" by (rule replay_order_sorted [OF assms(2)])
  note it = iteration_orderI [OF assms(1)]
  obtain so lo where o: "run_tokens (oracle_access iter) hw bits (oracle_init c (map ev_key evs)) 0
      (events_by_token evs) = Inr (so, lo)" "pm_hits b = cp_hits so"
    using assms(6,1) by (cases rule: run_policy_cases) auto
  obtain ho where ho: "replay (oracle_access iter) (oracle_init c (map ev_key evs)) 0 (map ev_key evs) = Inr (so, ho)"
    "pm_hits b = int (count_hits ho)"
    using iteration_order.oracle_metrics [OF it o(1)] o(2) by (auto simp: order)
  from assms(5,1) show ?thesis
  proof (cases rule: run_policy_cases)
    case (Oracle s lats)
    then show ?thesis using o by simp
  next
    case (SLRU s lats)
    have "slru_bound (slru_init c (fl 0.8)) = c"
      using assms(4) SLRU(1) fl_mono [of "0.8" "of_int 13 * 2 powi (- 4)"] fl_dyadic [of 13 "- 4"]
      by (intro slru_init_bound) (simp_all add: power_int_minus fl_nonneg)
    then have v: "versus_oracle slru_access slru_resident slru_bound cp_hits cp_misses slru_inv iter"
      "slru_bound (slru_init c (fl 0.8)) \<le> max 1 c"
      using it slru.demand_policy_axioms by (simp_all add: versus_oracle_def)
    show ?thesis
      by (rule slru.run_tokens_metrics [OF slru_init_inv(1) SLRU(2)])
        (use SLRU(3) ho versus_oracle.oracle_optimal [OF v(1) slru_init_inv(1,2) v(2) _ ho(1)]
          in \<open>auto simp: order run_policy_inits\<close>)
  next
    case TinyLFU
    then show ?thesis using assms(3) by simp
  next
    case (LRU s lats)
    have v: "versus_oracle lru_access lru_resident cp_capacity cp_hits cp_misses lru_inv iter"
      using it lru.demand_policy_axioms by (simp add: versus_oracle_def)
    show ?thesis
      by (rule lru.run_tokens_metrics [OF lru_init_inv(1) LRU(2)])
        (use LRU(3) ho versus_oracle.oracle_optimal [OF v lru_init_inv(1,2) eq_refl [OF lru_init_inv(3)] _ ho(1)]
          in \<open>auto simp: order run_policy_inits\<close>)
  qed
qed

theorem sim_oracle_optimal_witness:
  "\<exists>m b. run_policy rev [sim_event 0 0, sim_event 0 1, sim_event 1 0] 2 4 default_profile ''SLRU'' = Inr m \<and>
     run_policy rev [sim_event 0 0, sim_event 0 1, sim_event 1 0] 2 4 default_profile ''Oracle'' = Inr b \<and>
     pm_hits m \<le> pm_hits b"
proof -
  have rev: "\<forall>xs. set (rev xs) = set xs" by simp
  obtain m b where mb:
    "run_policy rev [sim_event 0 0, sim_event 0 1, sim_event 1 0] 2 4 default_profile ''SLRU'' = Inr m"
    "run_policy rev [sim_event 0 0, sim_event 0 1, sim_event 1 0] 2 4 default_profile ''Oracle'' = Inr b"
    using run_policy_total [OF _ default_profile_ok] by (metis set_rev)
  show ?thesis
    using mb sim_oracle_optimal [OF rev _ _ _ mb] by (simp add: sim_event_def)
qed

text \<open>C20: Every policy accounts for every access once, and the first request of an expert is
  always a miss: hits and misses add up to the number of events, and there are at least as many
  misses as distinct experts.\<close>

theorem sim_accounting:
  assumes "\<forall>xs. set (iter xs) = set xs" and "run_policy iter evs c bits hw name = Inr m"
  shows "pm_hits m + pm_misses m = int (length evs) \<and> pm_total_accesses m = int (length evs) \<and>
    int (card (ev_key ` set evs)) \<le> pm_misses m"
  using run_policy_accounting [OF assms(2,1)] by blast

theorem sim_accounting_witness:
  "\<exists>m. run_policy rev [sim_event 0 0, sim_event 1 0] 1 4 default_profile ''TinyLFU'' = Inr m \<and>
     pm_hits m + pm_misses m = 2"
proof -
  have rev: "\<forall>xs. set (rev xs) = set xs" by simp
  obtain m where m: "run_policy rev [sim_event 0 0, sim_event 1 0] 1 4 default_profile ''TinyLFU'' = Inr m"
    using run_policy_total [OF rev default_profile_ok] by blast
  show ?thesis using m sim_accounting [OF rev m] by simp
qed

text \<open>LRU with a slot for every expert of the trace misses exactly once per distinct
  expert.\<close>

theorem sim_lru_unbounded:
  assumes "\<forall>xs. set (iter xs) = set xs" and "int (card (ev_key ` set evs)) \<le> c"
    and "run_policy iter evs c bits hw ''LRU'' = Inr m"
  shows "pm_misses m = int (card (ev_key ` set evs))"
  using assms(3,1)
proof (cases rule: run_policy_cases)
  case (LRU s lats)
  have nc: "lru_resident (lru_init c) = {}" "cp_capacity (lru_init c) = max 1 c"
    by (simp_all add: lru_init_inv)
  show ?thesis
  proof (rule lru.run_tokens_metrics [OF lru_init_inv(1) LRU(2)])
    fix hs assume h: "replay lru_access (lru_init c) 0 (map ev_key (replay_order evs)) = Inr (s, hs)"
      "cp_misses s = cp_misses (lru_init c) + (int (length evs) - int (count_hits hs))"
      "count_hits hs \<le> length evs"
    have "length evs - count_hits hs = card (ev_key ` set evs)"
      using lru_no_eviction [OF lru_init_inv(1) _ h(1)] assms(2)
      by (simp add: nc replay_order_sort)
    then show ?thesis using h LRU(4) by (simp add: init_fresh of_nat_diff)
  qed
qed simp_all

theorem sim_lru_unbounded_witness:
  "\<exists>m. run_policy rev [sim_event 0 0, sim_event 1 3, sim_event 1 0] 2 4 default_profile ''LRU'' = Inr m \<and>
     pm_misses m = 2"
proof -
  have rev: "\<forall>xs. set (rev xs) = set xs" by simp
  obtain m where m: "run_policy rev [sim_event 0 0, sim_event 1 3, sim_event 1 0] 2 4 default_profile ''LRU'' = Inr m"
    using run_policy_total [OF rev default_profile_ok] by blast
  have "pm_misses m = int (card (ev_key ` set [sim_event 0 0, sim_event 1 3, sim_event 1 0]))"
    by (rule sim_lru_unbounded [OF rev _ m]) (simp add: sim_event_def ev_key_def card_insert_if)
  then show ?thesis using m by (simp add: sim_event_def ev_key_def card_insert_if)
qed

text \<open>The oracle is not an upper bound for a policy that may bypass the cache: on the
  requests A, A, B, A with one slot TinyLFU keeps A and hits twice, the oracle admits B and hits
  once.\<close>

theorem sim_tinylfu_beats_oracle:
  "\<exists>m b. run_policy (\<lambda>xs. xs) (map (sim_event 0) [0, 0, 1, 0]) 1 4 default_profile ''TinyLFU'' = Inr m \<and>
     run_policy (\<lambda>xs. xs) (map (sim_event 0) [0, 0, 1, 0]) 1 4 default_profile ''Oracle'' = Inr b \<and>
     pm_hits b = 1 \<and> pm_hits m = 2"
proof -
  let ?evs = "map (sim_event 0) [0, 0, 1, 0]"
  have it: "\<forall>xs. set xs = set xs" by simp
  obtain m where m: "run_policy (\<lambda>xs. xs) ?evs 1 4 default_profile ''TinyLFU'' = Inr m"
    using run_policy_total [OF it default_profile_ok] by blast
  obtain b where b: "run_policy (\<lambda>xs. xs) ?evs 1 4 default_profile ''Oracle'' = Inr b"
    using run_policy_total [OF it default_profile_ok] by blast
  have "pm_hits m = int (count_hits [False, True, False, True])"
    by (rule tinylfu_hits [OF m it]) code_simp
  moreover have "pm_hits b = int (count_hits [False, True, False, False])"
    by (rule oracle_hits [OF b it]) code_simp
  ultimately show ?thesis using m b by simp
qed

text \<open>The oracle reads its future from the events in trace order while the replay groups
  them by token, so on a trace that holds two sequences even LRU beats it.\<close>

theorem sim_order_matters:
  "\<exists>m b. run_policy (\<lambda>xs. xs) (map2 sim_event [0, 1, 0, 0, 1] [0, 1, 0, 2, 2]) 2 4 default_profile ''LRU'' = Inr m \<and>
     run_policy (\<lambda>xs. xs) (map2 sim_event [0, 1, 0, 0, 1] [0, 1, 0, 2, 2]) 2 4 default_profile ''Oracle'' = Inr b \<and>
     pm_hits b = 1 \<and> pm_hits m = 2"
proof -
  let ?evs = "map2 sim_event [0, 1, 0, 0, 1] [0, 1, 0, 2, 2]"
  have it: "\<forall>xs. set xs = set xs" by simp
  obtain m where m: "run_policy (\<lambda>xs. xs) ?evs 2 4 default_profile ''LRU'' = Inr m"
    using run_policy_total [OF it default_profile_ok] by blast
  obtain b where b: "run_policy (\<lambda>xs. xs) ?evs 2 4 default_profile ''Oracle'' = Inr b"
    using run_policy_total [OF it default_profile_ok] by blast
  have "pm_hits m = int (count_hits [False, True, False, False, True])"
    by (rule lru_hits [OF m it]) code_simp
  moreover have "pm_hits b = int (count_hits [False, True, False, False, False])"
    by (rule oracle_hits [OF b it]) code_simp
  ultimately show ?thesis using m b by simp
qed

text \<open>The simulated time of a token never falls when it has more misses and no fewer accesses,
  in the rounded float arithmetic of the code, with or without upload and overlap.\<close>

theorem sim_latency_mono:
  assumes "hw_ok hw" and "misses \<le> misses'" "misses + hits \<le> misses' + hits'"
    and "simulate_token hw tok misses hits bits upload overlap = Inr a"
    and "simulate_token hw tok' misses' hits' bits upload overlap = Inr b"
  shows "lat_total_time_ms a \<le> lat_total_time_ms b"
  by (rule simulate_token_time [OF assms])

theorem sim_latency_mono_witness:
  "\<exists>a b. simulate_token default_profile 0 2 6 4 False True = Inr a \<and>
     simulate_token default_profile 1 5 3 4 False True = Inr b \<and> lat_total_time_ms a \<le> lat_total_time_ms b"
proof -
  obtain a b where "simulate_token default_profile 0 2 6 4 False True = Inr a"
    "simulate_token default_profile 1 5 3 4 False True = Inr b"
    using simulate_token_total [OF default_profile_ok] by blast
  then show ?thesis using sim_latency_mono [OF default_profile_ok, of 2 5 6 3] by auto
qed

text \<open>A segmented LRU of one slot holds two experts: both partitions are rounded up to one.\<close>

theorem slru_overcommits:
  "\<exists>s hs. replay slru_access (slru_init 1 (fl 0.8)) 0 [(0, 0), (0, 0), (0, 1)] = Inr (s, hs) \<and>
     cp_capacity s = 1 \<and> slru_resident s = {(0, 0), (0, 1)}"
proof -
  have "replay slru_access (slru_init 1 (fl 0.8)) 0 [(0, 0), (0, 0), (0, 1)] =
    Inr (\<lparr>cp_capacity = 1, cp_hits = 1, cp_misses = 2, cp_evictions = 0, sl_protected_cap = 1,
      sl_probationary_cap = 1, sl_probationary = [((0, 1), ())], sl_protected = [((0, 0), ())]\<rparr>,
      [False, True, False])"
    by code_simp
  then show ?thesis by (auto simp: slru_resident_def)
qed

end
