(* ===== verification/ExpertCache.thy ===== *)
theory ExpertCache
  imports PyFloat Odict
begin

text \<open>
  The runtime expert cache of \<open>runtime/expert/cache.py\<close> and the contract its clients rely on.
  The locale \<open>value_cache\<close> says what a bounded cache of decoded payloads promises;
  \<open>cached_fetch\<close>, the lookup-or-load step of every store of the program, is transparent over
  any cache that keeps the contract. The segmented LRU and the plain row LRU interpret it.
\<close>

section \<open>The segmented LRU\<close>

record 'v expert_cache =
  ec_capacity_slots :: int
  ec_probationary_capacity :: int
  ec_protected_capacity :: int
  ec_probationary :: "(expert_key, 'v) odict"
  ec_protected :: "(expert_key, 'v) odict"
  ec_hits :: int
  ec_misses :: int
  ec_evictions :: int
  ec_promotions :: int
  ec_demotions :: int

definition ec_init :: "int \<Rightarrow> pyfloat \<Rightarrow> 'v expert_cache result" where
  "ec_init capacity_slots probationary_ratio =
     (if capacity_slots \<le> 0 then Inl ValueError
      else
        let probationary_capacity = max 1 (py_int (fmul (fof capacity_slots) probationary_ratio)) in
        Inr \<lparr>ec_capacity_slots = capacity_slots, ec_probationary_capacity = probationary_capacity,
             ec_protected_capacity = capacity_slots - probationary_capacity,
             ec_probationary = [], ec_protected = [],
             ec_hits = 0, ec_misses = 0, ec_evictions = 0, ec_promotions = 0, ec_demotions = 0\<rparr>)"

definition total_resident :: "'v expert_cache \<Rightarrow> int" where
  "total_resident s = int (length (ec_probationary s)) + int (length (ec_protected s))"

definition ec_contains :: "'v expert_cache \<Rightarrow> expert_key \<Rightarrow> bool" where
  "ec_contains s key \<longleftrightarrow> od_in key (ec_protected s) \<or> od_in key (ec_probationary s)"

definition ec_get :: "'v expert_cache \<Rightarrow> expert_key \<Rightarrow> ('v expert_cache \<times> 'v option) result" where
  "ec_get s key =
     (if od_in key (ec_protected s) then
        bindE (move_to_end key (ec_protected s)) (\<lambda>d.
        let s1 = s\<lparr>ec_protected := d, ec_hits := ec_hits s + 1\<rparr> in
        bindE (od_index (ec_protected s1) key) (\<lambda>v. Inr (s1, Some v)))
      else if od_in key (ec_probationary s) then
        bindE (od_pop key (ec_probationary s)) (\<lambda>(val, d).
        let s1 = s\<lparr>ec_probationary := d, ec_hits := ec_hits s + 1, ec_promotions := ec_promotions s + 1\<rparr> in
        bindE (if ec_protected_capacity s1 \<le> int (length (ec_protected s1)) then
                 bindE (popitem_first (ec_protected s1)) (\<lambda>((demoted_key, demoted_val), p).
                 Inr (s1\<lparr>ec_protected := p,
                         ec_probationary := od_set (ec_probationary s1) demoted_key demoted_val,
                         ec_demotions := ec_demotions s1 + 1\<rparr>))
               else Inr s1) (\<lambda>s2.
        Inr (s2\<lparr>ec_protected := od_set (ec_protected s2) key val\<rparr>, Some val)))
      else Inr (s\<lparr>ec_misses := ec_misses s + 1\<rparr>, None))"

definition ec_put :: "'v expert_cache \<Rightarrow> expert_key \<Rightarrow> 'v \<Rightarrow>
    ('v expert_cache \<times> (expert_key \<times> 'v) option) result" where
  "ec_put s key val =
     (if ec_contains s key then
        bindE (ec_get s key) (\<lambda>(s1, _).
        if od_in key (ec_protected s1)
        then Inr (s1\<lparr>ec_protected := od_set (ec_protected s1) key val\<rparr>, None)
        else Inr (s1\<lparr>ec_probationary := od_set (ec_probationary s1) key val\<rparr>, None))
      else
        bindE (if ec_probationary_capacity s \<le> int (length (ec_probationary s)) then
                 bindE (popitem_first (ec_probationary s)) (\<lambda>(old, d).
                 Inr (s\<lparr>ec_probationary := d, ec_evictions := ec_evictions s + 1\<rparr>, Some old))
               else Inr (s, None)) (\<lambda>(s1, evicted).
        let s2 = s1\<lparr>ec_probationary := od_set (ec_probationary s1) key val\<rparr> in
        if total_resident s2 \<le> ec_capacity_slots s2 then Inr (s2, evicted) else Inl AssertionError))"

definition ec_clear :: "'v expert_cache \<Rightarrow> 'v expert_cache" where
  "ec_clear s = s\<lparr>ec_probationary := [], ec_protected := []\<rparr>"

section \<open>The residency invariant\<close>

definition ec_inv :: "'v expert_cache \<Rightarrow> bool" where
  "ec_inv s \<longleftrightarrow> od_ok (ec_probationary s) \<and> od_ok (ec_protected s) \<and>
     set (od_keys (ec_probationary s)) \<inter> set (od_keys (ec_protected s)) = {} \<and>
     1 \<le> ec_probationary_capacity s \<and> 1 \<le> ec_protected_capacity s \<and>
     ec_probationary_capacity s + ec_protected_capacity s = ec_capacity_slots s \<and>
     int (length (ec_probationary s)) \<le> ec_probationary_capacity s \<and>
     int (length (ec_protected s)) \<le> ec_protected_capacity s"

definition ec_entries :: "'v expert_cache \<Rightarrow> expert_key \<Rightarrow> 'v option" where
  "ec_entries s key = (case od_get (ec_protected s) key of
     Some v \<Rightarrow> Some v | None \<Rightarrow> od_get (ec_probationary s) key)"

lemma ec_contains_entries: "ec_contains s key \<longleftrightarrow> ec_entries s key \<noteq> None"
  using od_get_eq_None [of "ec_protected s" key] od_get_eq_None [of "ec_probationary s" key]
  by (auto simp: ec_contains_def ec_entries_def split: option.splits)

lemma ec_inv_bound: "ec_inv s \<Longrightarrow> total_resident s \<le> ec_capacity_slots s"
  by (simp add: ec_inv_def total_resident_def)

lemma od_get_Cons: "od_get (p # d) k = (if k = fst p then Some (snd p) else od_get d k)"
  by (cases p) (simp add: od_get_def)

lemma ec_get_spec:
  assumes i: "ec_inv s"
  shows "\<exists>s'. ec_get s key = Inr (s', ec_entries s key) \<and> ec_inv s' \<and> ec_entries s' = ec_entries s \<and>
    total_resident s' = total_resident s \<and>
    ec_hits s' + ec_misses s' = ec_hits s + ec_misses s + 1 \<and> ec_evictions s' = ec_evictions s \<and>
    (ec_entries s key \<noteq> None \<longrightarrow> od_in key (ec_protected s')) \<and>
    ec_capacity_slots s' = ec_capacity_slots s \<and> ec_protected_capacity s' = ec_protected_capacity s"
proof (cases "od_in key (ec_protected s)")
  case True
  have ok: "od_ok (ec_protected s)" using i by (simp add: ec_inv_def)
  obtain d where d: "move_to_end key (ec_protected s) = Inr d"
    using move_to_end_total [OF True] by blast
  note p = move_to_end_props [OF d ok]
  obtain v where v: "od_get (ec_protected s) key = Some v" using True by (auto simp: od_in_get simp del: od_in_iff)
  define s' where "s' = s\<lparr>ec_protected := d, ec_hits := ec_hits s + 1\<rparr>"
  have "ec_get s key = Inr (s', ec_entries s key)"
    using True d p(4) v by (simp add: ec_get_def Let_def od_index_def ec_entries_def s'_def)
  moreover have "ec_inv s'" "ec_entries s' = ec_entries s" "total_resident s' = total_resident s"
    using p(1-4) i by (auto simp: s'_def ec_inv_def ec_entries_def total_resident_def fun_eq_iff split: option.splits)
  moreover have "od_in key (ec_protected s')" using True p(2) by (simp add: s'_def)
  ultimately show ?thesis by (auto simp: s'_def)
next
  case F: False
  show ?thesis
  proof (cases "od_in key (ec_probationary s)")
    case True
    let ?pb = "ec_probationary s" and ?pt = "ec_protected s"
    obtain v where v: "od_get ?pb key = Some v" using True by (auto simp: od_in_get simp del: od_in_iff)
    have nv: "od_get ?pt key = None" using F by (simp add: od_get_eq_None)
    have ent: "ec_entries s key = Some v" using v nv by (simp add: ec_entries_def)
    have okb: "od_ok ?pb" and okt: "od_ok ?pt" using i by (auto simp: ec_inv_def)
    have lb: "Suc (length (od_remove key ?pb)) = length ?pb" using length_od_remove [OF okb True] .
    have pop: "od_pop key ?pb = Inr (v, od_remove key ?pb)" using v by (simp add: od_pop_Inr_iff)
    show ?thesis
    proof (cases "ec_protected_capacity s \<le> int (length ?pt)")
      case room: False
      define s' where "s' = s\<lparr>ec_probationary := od_remove key ?pb, ec_hits := ec_hits s + 1,
        ec_promotions := ec_promotions s + 1, ec_protected := ?pt @ [(key, v)]\<rparr>"
      have "ec_get s key = Inr (s', Some v)"
        using F True pop room by (simp add: ec_get_def Let_def s'_def od_set_new)
      moreover have "ec_inv s'"
        using i lb room F by (auto simp: s'_def ec_inv_def)
      moreover have "ec_entries s' = ec_entries s"
        using v nv by (auto simp: s'_def ec_entries_def fun_eq_iff od_get_append od_get_remove od_get_Cons
            od_get_def [of "[]"] split: option.splits)
      moreover have "total_resident s' = total_resident s" using lb by (simp add: s'_def total_resident_def)
      ultimately show ?thesis using ent by (auto simp: s'_def)
    next
      case full: True
      then obtain dk dv p where pt: "?pt = (dk, dv) # p" using i
        by (cases ?pt) (auto simp: ec_inv_def)
      have dk: "dk \<noteq> key" "\<not> od_in dk ?pb" "\<not> od_in dk p" "\<not> od_in key p"
        using F i by (auto simp: pt ec_inv_def)
      define s' where "s' = s\<lparr>ec_probationary := od_remove key ?pb @ [(dk, dv)], ec_hits := ec_hits s + 1,
        ec_promotions := ec_promotions s + 1, ec_demotions := ec_demotions s + 1,
        ec_protected := p @ [(key, v)]\<rparr>"
      have "ec_get s key = Inr (s', Some v)"
        using F True pop full dk by (simp add: ec_get_def Let_def s'_def od_set_new pt)
      moreover have "ec_inv s'"
        using i lb full dk by (auto simp: s'_def ec_inv_def pt)
      moreover have "ec_entries s' = ec_entries s"
      proof
        fix j
        have none: "od_get ?pb dk = None" "od_get p dk = None" "od_get p key = None"
          using dk by (simp_all add: od_get_eq_None)
        show "ec_entries s' j = ec_entries s j"
          using v none dk(1) by (auto simp: s'_def ec_entries_def pt od_get_append od_get_remove od_get_Cons
              od_get_def [of "[]"] split: option.splits)
      qed
      moreover have "total_resident s' = total_resident s" using lb by (simp add: s'_def total_resident_def pt)
      ultimately show ?thesis using ent by (auto simp: s'_def)
    qed
  next
    case False
    have "ec_entries s key = None" using F False ec_contains_entries [of s key] by (simp add: ec_contains_def)
    then show ?thesis using F False i
      by (auto simp: ec_get_def ec_inv_def ec_entries_def total_resident_def fun_eq_iff split: option.splits)
  qed
qed

lemma ec_put_new_spec:
  assumes i: "ec_inv s" and new: "ec_entries s key = None"
  shows "\<exists>s' ev. ec_put s key val = Inr (s', ev) \<and> ec_inv s' \<and> ec_protected s' = ec_protected s \<and>
    ec_entries s' key = Some val \<and>
    (\<forall>j. j \<noteq> key \<longrightarrow> ec_entries s' j = (if ev \<noteq> None \<and> j = fst (the ev) then None else ec_entries s j)) \<and>
    (ev \<noteq> None \<longrightarrow> ec_entries s (fst (the ev)) = Some (snd (the ev)) \<and> \<not> od_in (fst (the ev)) (ec_protected s)) \<and>
    total_resident s' = total_resident s + of_bool (ev = None) \<and>
    ec_capacity_slots s' = ec_capacity_slots s \<and> ec_protected_capacity s' = ec_protected_capacity s"
proof -
  let ?pb = "ec_probationary s" and ?pt = "ec_protected s"
  have n: "\<not> od_in key ?pb" "\<not> od_in key ?pt" "\<not> ec_contains s key"
    using new ec_contains_entries [of s key] by (auto simp: ec_contains_def)
  have g: "od_get ?pt key = None" "od_get ?pb key = None" using n by (simp_all add: od_get_eq_None)
  show ?thesis
  proof (cases "ec_probationary_capacity s \<le> int (length ?pb)")
    case True
    then obtain ok ov d where pb: "?pb = (ok, ov) # d" using i by (cases ?pb) (auto simp: ec_inv_def)
    have k: "\<not> od_in ok ?pt" "\<not> od_in ok d" "key \<noteq> ok" "\<not> od_in key d" using i n by (auto simp: pb ec_inv_def)
    have go: "od_get ?pt ok = None" "od_get d ok = None" using k by (simp_all add: od_get_eq_None)
    define s' where "s' = s\<lparr>ec_evictions := ec_evictions s + 1, ec_probationary := d @ [(key, val)]\<rparr>"
    have inv: "ec_inv s'" using i n k by (auto simp: s'_def ec_inv_def pb)
    have "ec_put s key val = Inr (s', Some (ok, ov))"
      using n(3) True k ec_inv_bound [OF inv]
      by (simp add: ec_put_def Let_def pb od_set_new s'_def)
    moreover have "ec_entries s' j = (if j = ok then None else ec_entries s j)" if "j \<noteq> key" for j
      using that go by (auto simp: s'_def ec_entries_def pb od_get_append od_get_Cons od_get_def [of "[]"]
          split: option.splits)
    moreover have "ec_entries s' key = Some val"
      using g k by (auto simp: s'_def ec_entries_def pb od_get_append od_get_Cons od_get_def [of "[]"] split: option.splits)
    ultimately show ?thesis using inv go k
      by (intro exI [of _ s'] exI [of _ "Some (ok, ov)"])
        (auto simp: s'_def total_resident_def pb ec_entries_def od_get_Cons)
  next
    case False
    define s' where "s' = s\<lparr>ec_probationary := ?pb @ [(key, val)]\<rparr>"
    have inv: "ec_inv s'" using i n False by (auto simp: s'_def ec_inv_def)
    have "ec_put s key val = Inr (s', None)"
      using n False ec_inv_bound [OF inv] by (simp add: ec_put_def Let_def od_set_new s'_def)
    moreover have "ec_entries s' j = (if j = key then Some val else ec_entries s j)" for j
      using g by (auto simp: s'_def ec_entries_def od_get_append od_get_Cons od_get_def [of "[]"] split: option.splits)
    ultimately show ?thesis using inv
      by (intro exI [of _ s'] exI [of _ None]) (auto simp: s'_def total_resident_def)
  qed
qed

lemma ec_init_inv:
  assumes "2 \<le> c" "c \<le> 2 ^ 50" "0 \<le> r" "r \<le> 1 / 2" "ec_init c r = Inr s"
  shows "ec_inv s" "ec_entries s = (\<lambda>_. None)" "ec_capacity_slots s = c"
proof -
  have e: "fof c = of_int c" unfolding fof_def using assms(1,2) by (intro fl_of_int) simp
  have "fmul (fof c) r \<le> fl (of_int c * 2 powi (- 1))"
    unfolding fmul_def e using assms(1,4)
    by (intro fl_mono) (simp add: power_int_minus field_simps)
  also have "\<dots> = of_int c * 2 powi (- 1)" using assms(1,2) by (intro fl_dyadic) simp
  also have "\<dots> < of_int c" using assms(1) by (simp add: power_int_minus)
  finally have lt: "fmul (fof c) r < of_int c" .
  have nn: "0 \<le> fmul (fof c) r" using assms(1,3) by (simp add: fmul_def e fl_nonneg)
  then have "py_int (fmul (fof c) r) < c" using lt by (simp add: py_int_def floor_less_iff)
  then show "ec_inv s" "ec_entries s = (\<lambda>_. None)" "ec_capacity_slots s = c"
    using assms(1,5) by (auto simp: ec_init_def Let_def ec_inv_def ec_entries_def od_get_def)
qed

section \<open>The contract of a cache of loaded values\<close>

text \<open>
  A lookup finds what the cache holds and changes no content; an insertion of an absent key
  holds it and at most drops others.
\<close>

locale value_cache =
  fixes lookup :: "'s \<Rightarrow> 'k \<Rightarrow> ('s \<times> 'v option) result"
    and insert_new :: "'s \<Rightarrow> 'k \<Rightarrow> 'v \<Rightarrow> 's result"
    and entries :: "'s \<Rightarrow> 'k \<Rightarrow> 'v option"
    and invar :: "'s \<Rightarrow> bool"
  assumes lookup_ok: "invar s \<Longrightarrow> \<exists>s'. lookup s k = Inr (s', entries s k) \<and> invar s' \<and> entries s' = entries s"
    and insert_ok: "invar s \<Longrightarrow> entries s k = None \<Longrightarrow>
       \<exists>s'. insert_new s k v = Inr s' \<and> invar s' \<and> entries s' k = Some v \<and>
            (\<forall>j. j \<noteq> k \<longrightarrow> entries s' j = entries s j \<or> entries s' j = None)"
begin

definition coherent :: "('k \<Rightarrow> 'v result) \<Rightarrow> 's \<Rightarrow> bool" where
  "coherent load s \<longleftrightarrow> (\<forall>k v. entries s k = Some v \<longrightarrow> load k = Inr v)"

definition cached_fetch :: "('k \<Rightarrow> 'v result) \<Rightarrow> 's \<Rightarrow> 'k \<Rightarrow> ('s \<times> 'v) result" where
  "cached_fetch load s k = bindE (lookup s k) (\<lambda>(s1, r).
     case r of Some v \<Rightarrow> Inr (s1, v)
     | None \<Rightarrow> bindE (load k) (\<lambda>v. bindE (insert_new s1 k v) (\<lambda>s2. Inr (s2, v))))"

text \<open>The cache never changes what a fetch returns.\<close>

theorem fetch_transparent:
  assumes i: "invar s" and c: "coherent load s" and l: "load k = Inr v"
  shows "\<exists>s'. cached_fetch load s k = Inr (s', v) \<and> invar s' \<and> coherent load s' \<and> entries s' k = Some v"
proof -
  obtain s1 where s1: "lookup s k = Inr (s1, entries s k)" "invar s1" "entries s1 = entries s"
    using lookup_ok [OF i] by blast
  show ?thesis
  proof (cases "entries s k")
    case (Some w)
    then have "w = v" using c l by (auto simp: coherent_def)
    then show ?thesis using s1 Some c by (simp add: cached_fetch_def coherent_def)
  next
    case None
    then obtain s2 where s2: "insert_new s1 k v = Inr s2" "invar s2" "entries s2 k = Some v"
      "\<forall>j. j \<noteq> k \<longrightarrow> entries s2 j = entries s j \<or> entries s2 j = None"
      using insert_ok [OF s1(2), of k v] s1(3) by auto
    have "coherent load s2"
      unfolding coherent_def
    proof (intro allI impI)
      fix j w assume jw: "entries s2 j = Some w"
      show "load j = Inr w"
      proof (cases "j = k")
        case True
        then show ?thesis using jw s2(3) l by simp
      next
        case False
        then have "entries s j = Some w" using jw s2(4) by (metis option.distinct(1))
        then show ?thesis using c by (simp add: coherent_def)
      qed
    qed
    then show ?thesis using None s1(1) s2 l by (simp add: cached_fetch_def)
  qed
qed

text \<open>A failed load leaves the cache coherent: nothing was inserted.\<close>

theorem fetch_error:
  assumes "invar s" "coherent load s" "load k = Inl e"
  shows "cached_fetch load s k = Inl e"
proof -
  obtain s1 where s1: "lookup s k = Inr (s1, entries s k)" using lookup_ok [OF assms(1)] by blast
  have "entries s k = None" using assms(2,3) by (cases "entries s k") (auto simp: coherent_def)
  then show ?thesis using s1 assms(3) by (simp add: cached_fetch_def)
qed

end

definition ec_insert :: "'v expert_cache \<Rightarrow> expert_key \<Rightarrow> 'v \<Rightarrow> 'v expert_cache result" where
  "ec_insert s key val = bindE (ec_put s key val) (\<lambda>(s1, evicted). Inr s1)"

interpretation slru_values: value_cache ec_get ec_insert ec_entries ec_inv
proof
  fix s :: "'v expert_cache" and k v
  assume i: "ec_inv s"
  show "\<exists>s'. ec_get s k = Inr (s', ec_entries s k) \<and> ec_inv s' \<and> ec_entries s' = ec_entries s"
    using ec_get_spec [OF i, of k] by blast
  show "\<exists>s'. ec_insert s k v = Inr s' \<and> ec_inv s' \<and> ec_entries s' k = Some v \<and>
      (\<forall>j. j \<noteq> k \<longrightarrow> ec_entries s' j = ec_entries s j \<or> ec_entries s' j = None)"
    if "ec_entries s k = None"
    using ec_put_new_spec [OF i that, of v] by (auto simp: ec_insert_def)
qed

section \<open>The row LRU\<close>

text \<open>The cache of \<open>PleRowStore\<close>: an OrderedDict and its capacity.\<close>

definition row_lookup :: "int \<times> ('k, 'v) odict \<Rightarrow> 'k \<Rightarrow> ((int \<times> ('k, 'v) odict) \<times> 'v option) result" where
  "row_lookup c k =
     (if od_in k (snd c) then
        bindE (move_to_end k (snd c)) (\<lambda>d. bindE (od_index d k) (\<lambda>v. Inr ((fst c, d), Some v)))
      else Inr (c, None))"

definition row_insert :: "int \<times> ('k, 'v) odict \<Rightarrow> 'k \<Rightarrow> 'v \<Rightarrow> (int \<times> ('k, 'v) odict) result" where
  "row_insert c k v =
     bindE (if fst c \<le> int (length (snd c))
            then bindE (popitem_first (snd c)) (\<lambda>(old, d). Inr d) else Inr (snd c)) (\<lambda>d.
     Inr (fst c, od_set d k v))"

definition row_cache_inv :: "int \<times> ('k, 'v) odict \<Rightarrow> bool" where
  "row_cache_inv c \<longleftrightarrow> od_ok (snd c) \<and> 1 \<le> fst c \<and> int (length (snd c)) \<le> fst c"

lemma row_insert_spec:
  assumes i: "row_cache_inv c" and n: "od_get (snd c) k = None"
  shows "\<exists>c'. row_insert c k v = Inr c' \<and> row_cache_inv c' \<and> od_get (snd c') k = Some v \<and>
    (\<forall>j. j \<noteq> k \<longrightarrow> od_get (snd c') j = od_get (snd c) j \<or> od_get (snd c') j = None)"
proof (cases "fst c \<le> int (length (snd c))")
  case True
  then obtain p d where d: "snd c = p # d" using i by (cases "snd c") (auto simp: row_cache_inv_def)
  have "fst p \<noteq> k" "\<not> od_in k d" "\<not> od_in (fst p) d" using n i by (auto simp: od_get_eq_None d row_cache_inv_def)
  moreover from this have "od_get d (fst p) = None" by (simp add: od_get_eq_None)
  ultimately show ?thesis using True i
    by (intro exI [of _ "(fst c, od_set d k v)"])
      (auto simp: row_insert_def d row_cache_inv_def length_od_set od_get_set od_get_Cons)
next
  case False
  then show ?thesis using i n
    by (intro exI [of _ "(fst c, od_set (snd c) k v)"])
      (auto simp: row_insert_def row_cache_inv_def length_od_set od_get_set)
qed

interpretation row_values: value_cache row_lookup row_insert "\<lambda>c. od_get (snd c)" row_cache_inv
proof
  fix c :: "int \<times> ('k, 'v) odict" and k v
  assume i: "row_cache_inv c"
  show "\<exists>s'. row_lookup c k = Inr (s', od_get (snd c) k) \<and> row_cache_inv s' \<and> od_get (snd s') = od_get (snd c)"
  proof (cases "od_in k (snd c)")
    case True
    have ok: "od_ok (snd c)" using i by (simp add: row_cache_inv_def)
    obtain d where d: "move_to_end k (snd c) = Inr d" using move_to_end_total [OF True] by blast
    obtain w where w: "od_get (snd c) k = Some w" using True by (auto simp: od_in_get simp del: od_in_iff)
    show ?thesis using True d w i move_to_end_props [OF d ok]
      by (intro exI [of _ "(fst c, d)"]) (simp add: row_lookup_def od_index_def row_cache_inv_def)
  next
    case False
    then have "od_get (snd c) k = None" by (simp add: od_get_eq_None)
    then show ?thesis using False i by (auto simp: row_lookup_def)
  qed
  show "od_get (snd c) k = None \<Longrightarrow> \<exists>s'. row_insert c k v = Inr s' \<and> row_cache_inv s' \<and>
      od_get (snd s') k = Some v \<and> (\<forall>j. j \<noteq> k \<longrightarrow> od_get (snd s') j = od_get (snd c) j \<or> od_get (snd s') j = None)"
    by (rule row_insert_spec [OF i])
qed

section \<open>Runs of the cache\<close>

lemma ec_put_old_spec:
  assumes i: "ec_inv s" and old: "ec_entries s key \<noteq> None"
  shows "\<exists>s'. ec_put s key val = Inr (s', None) \<and> ec_inv s' \<and> ec_entries s' = (ec_entries s)(key \<mapsto> val) \<and>
    total_resident s' = total_resident s \<and> ec_capacity_slots s' = ec_capacity_slots s"
proof -
  obtain s1 where g: "ec_get s key = Inr (s1, ec_entries s key)" "ec_inv s1" "ec_entries s1 = ec_entries s"
    "total_resident s1 = total_resident s" "od_in key (ec_protected s1)" "ec_capacity_slots s1 = ec_capacity_slots s"
    using ec_get_spec [OF i, of key] old by blast
  define s' where "s' = s1\<lparr>ec_protected := od_set (ec_protected s1) key val\<rparr>"
  have len: "length (od_set (ec_protected s1) key val) = length (ec_protected s1)"
    using g(5) by (simp add: length_od_set)
  have "ec_put s key val = Inr (s', None)"
    using g old ec_contains_entries [of s key] by (simp add: ec_put_def s'_def)
  moreover have "set (od_keys (od_set (ec_protected s1) key val)) = set (od_keys (ec_protected s1))"
    using g(5) by (auto simp: od_keys_set)
  then have "ec_inv s'" using g(2) len by (simp add: s'_def ec_inv_def)
  moreover have "ec_entries s' = (ec_entries s)(key \<mapsto> val)"
    unfolding g(3) [symmetric] by (auto simp: s'_def ec_entries_def fun_eq_iff od_get_set split: option.splits)
  moreover have "total_resident s' = total_resident s" using len g(4) by (simp add: s'_def total_resident_def)
  ultimately show ?thesis using g(6) by (simp add: s'_def)
qed

datatype 'v ec_op = Get expert_key | Put expert_key 'v | Clear

fun ec_run :: "'v expert_cache \<Rightarrow> 'v ec_op list \<Rightarrow> 'v expert_cache result" where
  "ec_run s [] = Inr s"
| "ec_run s (op # ops) =
     bindE (case op of
         Get key \<Rightarrow> bindE (ec_get s key) (\<lambda>(s1, r). Inr s1)
       | Put key val \<Rightarrow> bindE (ec_put s key val) (\<lambda>(s1, evicted). Inr s1)
       | Clear \<Rightarrow> Inr (ec_clear s)) (\<lambda>s1. ec_run s1 ops)"

lemma ec_run_inv:
  "ec_inv s \<Longrightarrow> \<exists>s'. ec_run s ops = Inr s' \<and> ec_inv s' \<and> ec_capacity_slots s' = ec_capacity_slots s"
proof (induction ops arbitrary: s)
  case (Cons op ops)
  have step: "\<exists>s1. (case op of Get key \<Rightarrow> bindE (ec_get s key) (\<lambda>(s1, r). Inr s1)
       | Put key val \<Rightarrow> bindE (ec_put s key val) (\<lambda>(s1, evicted). Inr s1)
       | Clear \<Rightarrow> Inr (ec_clear s)) = Inr s1 \<and> ec_inv s1 \<and> ec_capacity_slots s1 = ec_capacity_slots s"
  proof (cases op)
    case (Get key)
    then show ?thesis using ec_get_spec [OF Cons.prems, of key] by auto
  next
    case (Put key val)
    then show ?thesis
      using ec_put_new_spec [OF Cons.prems, of key val] ec_put_old_spec [OF Cons.prems, of key val]
      by (cases "ec_entries s key") auto
  next
    case Clear
    then show ?thesis using Cons.prems by (simp add: ec_clear_def ec_inv_def)
  qed
  then obtain s1 where s1: "ec_inv s1" "ec_capacity_slots s1 = ec_capacity_slots s"
    "ec_run s (op # ops) = ec_run s1 ops" by auto
  then show ?case using Cons.IH [OF s1(1)] by simp
qed simp


lemma ec_init_4: "ec_init 4 (1 / 4) = Inr \<lparr>ec_capacity_slots = 4, ec_probationary_capacity = 1,
    ec_protected_capacity = 3, ec_probationary = [], ec_protected = [], ec_hits = 0, ec_misses = 0,
    ec_evictions = 0, ec_promotions = 0, ec_demotions = 0\<rparr>"
  using fl_of_int [of 1] fl_of_int [of 4] by (simp add: ec_init_def fmul_def fof_def py_int_def)


text \<open>C32: Experts that were hit once are safe from a scan: fetching any number of new experts
  leaves the protected partition exactly as it was.\<close>

theorem ec_scan_resistant:
  assumes "ec_inv s" "distinct keys" "\<forall>k \<in> set keys. \<not> ec_contains s k"
  shows "\<exists>s'. ec_run s (map (\<lambda>k. Put k (load k)) keys) = Inr s' \<and> ec_protected s' = ec_protected s"
  using assms
proof (induction keys arbitrary: s)
  case (Cons k keys)
  have none: "ec_entries s j = None" if "j \<in> set (k # keys)" for j
    using Cons.prems(3) that ec_contains_entries [of s j] by auto
  obtain s1 ev where s1: "ec_put s k (load k) = Inr (s1, ev)" "ec_inv s1" "ec_protected s1 = ec_protected s"
    "\<forall>j. j \<noteq> k \<longrightarrow> ec_entries s1 j = (if ev \<noteq> None \<and> j = fst (the ev) then None else ec_entries s j)"
    using ec_put_new_spec [OF Cons.prems(1), of k "load k"] none [of k] by auto
  have "\<not> ec_contains s1 j" if "j \<in> set keys" for j
  proof -
    have "j \<noteq> k" using that Cons.prems(2) by auto
    then have "ec_entries s1 j = None" using s1(4) [rule_format, of j] none [of j] that by (simp split: if_splits)
    then show ?thesis by (simp add: ec_contains_entries)
  qed
  then show ?case using Cons.IH [OF s1(2)] Cons.prems(2) s1(1,3) by auto
qed simp

theorem ec_scan_resistant_witness:
  "\<exists>s'. ec_run \<lparr>ec_capacity_slots = 4, ec_probationary_capacity = 1, ec_protected_capacity = 3,
      ec_probationary = [((0, 5), 1)], ec_protected = [((0, 6), 2)], ec_hits = 0, ec_misses = 0,
      ec_evictions = 0, ec_promotions = 0, ec_demotions = 0\<rparr>
      (map (\<lambda>k. Put k (3 :: nat)) [(0, 1), (0, 2), (0, 3)]) = Inr s' \<and> ec_protected s' = [((0, 6), 2)]"
proof -
  let ?s = "\<lparr>ec_capacity_slots = 4, ec_probationary_capacity = 1, ec_protected_capacity = 3,
      ec_probationary = [((0, 5), 1)], ec_protected = [((0, 6), 2 :: nat)], ec_hits = 0, ec_misses = 0,
      ec_evictions = 0, ec_promotions = 0, ec_demotions = 0\<rparr> :: nat expert_cache"
  have "ec_inv ?s" by (simp add: ec_inv_def od_ok_def od_keys_def)
  moreover have "\<forall>k \<in> set [(0, 1), (0, 2), (0, 3)]. \<not> ec_contains ?s k"
    by (simp add: ec_contains_def od_keys_def)
  ultimately show ?thesis
    using ec_scan_resistant [of ?s "[(0, 1), (0, 2), (0, 3)]" "\<lambda>_. 3 :: nat"] by simp
qed

text \<open>C31: A cache of one slot cannot be used: the first lookup of the expert it holds raises
  \<open>KeyError\<close>, because its protected partition has no slot and the promotion pops it while
  it is empty.\<close>

theorem ec_one_slot_raises:
  assumes "0 \<le> r" "r \<le> 1" "ec_init 1 r = Inr s"
  shows "\<exists>s1. ec_put s k v = Inr (s1, None) \<and> ec_get s1 k = Inl KeyError"
proof -
  have one: "fl 1 = (1 :: rat)" using fl_of_int [of 1] by simp
  have "fl r \<le> fl 1" using assms(2) by (rule fl_mono)
  then have "max 1 \<lfloor>fl r\<rfloor> = 1" "0 \<le> fl r"
    using fl_nonneg [OF assms(1)] one by (simp_all add: max_def floor_le_iff)
  then have "s = \<lparr>ec_capacity_slots = 1, ec_probationary_capacity = 1, ec_protected_capacity = 0,
    ec_probationary = [], ec_protected = [], ec_hits = 0, ec_misses = 0, ec_evictions = 0,
    ec_promotions = 0, ec_demotions = 0\<rparr>"
    using assms(3) one by (simp add: ec_init_def fmul_def fof_def py_int_def Let_def)
  then show ?thesis
    by (simp add: ec_put_def ec_get_def ec_contains_def total_resident_def od_pop_def
        od_remove_def popitem_first_def od_get_def od_keys_def)
qed

theorem ec_one_slot_raises_witness:
  "\<exists>s s1. ec_init 1 (1 / 4) = Inr s \<and> ec_put s (0, 0) (7 :: nat) = Inr (s1, None) \<and> ec_get s1 (0, 0) = Inl KeyError"
proof -
  obtain s :: "nat expert_cache" where "ec_init 1 (1 / 4) = Inr s" by (simp add: ec_init_def Let_def)
  then show ?thesis using ec_one_slot_raises [of "1 / 4" s "(0, 0)" 7] by auto
qed

end
