(* ===== verification/Format.thy ===== *)
theory Format
  imports PyFloat
begin

text \<open>
  The byte layout of \<open>package/format.py\<close>: bit widths and packing density, group sizes, the
  spans of one quantized matrix, expert records and the bank index, page-packed PLE rows, the
  n-gram row hash and the shard map. Bit widths are Python floats and every size goes through
  the float arithmetic of the source; the lemmas show that it agrees with exact integer
  arithmetic up to \<open>2 ^ 49\<close> elements.
\<close>

section \<open>Sizes\<close>

definition align_up :: "int \<Rightarrow> int \<Rightarrow> int" where
  "align_up value alignment =
     (if alignment \<le> 1 then value else ((value + alignment - 1) div alignment) * alignment)"

definition storage_bits :: "pyfloat \<Rightarrow> pyfloat" where
  "storage_bits nominal_bits =
     (let bits = py_int nominal_bits in
      if 8 \<le> bits \<or> bits \<le> 0 then nominal_bits
      else let values_per_byte = 8 div bits in fl (8 / of_int values_per_byte))"

definition is_dense_bit_width :: "pyfloat \<Rightarrow> bool" where
  "is_dense_bit_width nominal_bits \<longleftrightarrow> storage_bits nominal_bits = fof (py_int nominal_bits)"

definition packed_bytes :: "int \<Rightarrow> pyfloat \<Rightarrow> int" where
  "packed_bytes num_elements bits = \<lceil>fl (fmul (fof num_elements) (storage_bits bits) / 8)\<rceil>"

definition num_groups :: "int \<Rightarrow> int \<Rightarrow> int result" where
  "num_groups num_elements group_size =
     (if group_size \<le> 0 then Inr 1
      else bindE (py_truediv num_elements group_size) (\<lambda>x. Inr \<lceil>x\<rceil>))"

definition matrix_dims :: "int list \<Rightarrow> int \<times> int" where
  "matrix_dims shape =
     (if shape = [] then (1, 1)
      else if length shape = 1 then (1, shape ! 0)
      else (prod_list (butlast shape), last shape))"

text \<open>\<open>for candidate in range(group_size, 0, -1)\<close>\<close>

function largest_divisor :: "int \<Rightarrow> int \<Rightarrow> int" where
  "largest_divisor in_features candidate =
     (if candidate \<le> 0 then in_features
      else if in_features mod candidate = 0 then candidate
      else largest_divisor in_features (candidate - 1))"
  by pat_completeness auto
termination by (relation "measure (\<lambda>(_, c). nat c)") auto

declare largest_divisor.simps [simp del]

definition resolve_group_size :: "int \<Rightarrow> int \<Rightarrow> int" where
  "resolve_group_size in_features group_size =
     (if in_features \<le> 0 then in_features
      else if group_size \<le> 0 \<or> in_features \<le> group_size then in_features
      else if in_features mod group_size = 0 then group_size
      else largest_divisor in_features group_size)"

section \<open>Spans of one matrix\<close>

datatype section_kind = PACKED | SCALES | ZEROS

record section_span =
  sp_section :: section_kind
  sp_offset :: int
  sp_length :: int

definition span_end :: "section_span \<Rightarrow> int" where
  "span_end s = sp_offset s + sp_length s"

definition spans_length :: "section_span list \<Rightarrow> int" where
  "spans_length spans = sum_list (map sp_length spans)"

fun find_span :: "section_span list \<Rightarrow> section_kind \<Rightarrow> section_span option" where
  "find_span [] sec = None"
| "find_span (s # spans) sec = (if sp_section s = sec then Some s else find_span spans sec)"

definition section_spans ::
  "int list \<Rightarrow> pyfloat \<Rightarrow> int \<Rightarrow> bool \<Rightarrow> int \<Rightarrow> int \<Rightarrow> section_span list result" where
  "section_spans shape bits group_size symmetric scale_bytes zero_bytes =
     (let (rows, in_features) = matrix_dims shape in
      if 16 \<le> bits then
        Inr [\<lparr>sp_section = PACKED, sp_offset = 0, sp_length = rows * in_features * 2\<rparr>]
      else
        let effective_group = resolve_group_size in_features group_size in
        bindE (py_truediv in_features effective_group) (\<lambda>q.
        let groups_per_row = \<lceil>q\<rceil>;
            padded_in = groups_per_row * effective_group;
            groups = rows * groups_per_row;
            packed = packed_bytes (rows * padded_in) bits;
            scales = groups * scale_bytes in
        Inr ([\<lparr>sp_section = PACKED, sp_offset = 0, sp_length = packed\<rparr>,
              \<lparr>sp_section = SCALES, sp_offset = packed, sp_length = scales\<rparr>] @
             (if symmetric then []
              else [\<lparr>sp_section = ZEROS, sp_offset = packed + scales,
                     sp_length = groups * zero_bytes\<rparr>]))))"

section \<open>Expert records\<close>

text \<open>The dict of one projection that the planner passes to \<open>build\<close>.\<close>

record projection_spec =
  ps_name :: string
  ps_shape :: "int list"
  ps_bits :: pyfloat
  ps_group_size :: int
  ps_symmetric :: bool
  ps_codec_id :: string

record projection_layout =
  pl_name :: string
  pl_shape :: "int list"
  pl_bits :: pyfloat
  pl_group_size :: int
  pl_symmetric :: bool
  pl_codec_id :: string
  pl_offset :: int
  pl_spans :: "section_span list"

definition pl_num_elements :: "projection_layout \<Rightarrow> int" where
  "pl_num_elements p = (if pl_shape p = [] then 0 else prod_list (pl_shape p))"

definition pl_length :: "projection_layout \<Rightarrow> int" where
  "pl_length p = spans_length (pl_spans p)"

record record_layout =
  rl_projections :: "projection_layout list"
  rl_payload_bytes :: int
  rl_stride :: int
  rl_alignment :: int

definition rl_num_params :: "record_layout \<Rightarrow> int" where
  "rl_num_params r = sum_list (map pl_num_elements (rl_projections r))"

definition padding_bytes :: "record_layout \<Rightarrow> int" where
  "padding_bytes r = rl_stride r - rl_payload_bytes r"

fun find_projection :: "projection_layout list \<Rightarrow> string \<Rightarrow> projection_layout option" where
  "find_projection [] name = None"
| "find_projection (p # ps) name = (if pl_name p = name then Some p else find_projection ps name)"

fun lay_out_projections :: "projection_spec list \<Rightarrow> int \<Rightarrow> int \<Rightarrow> int \<Rightarrow>
    (projection_layout list \<times> int) result" where
  "lay_out_projections [] scale_bytes zero_bytes cursor = Inr ([], cursor)"
| "lay_out_projections (spec # specs) scale_bytes zero_bytes cursor =
     (let group_size = resolve_group_size (snd (matrix_dims (ps_shape spec))) (ps_group_size spec) in
      bindE (section_spans (ps_shape spec) (ps_bits spec) group_size (ps_symmetric spec)
               scale_bytes zero_bytes) (\<lambda>spans.
      let laid = \<lparr>pl_name = ps_name spec, pl_shape = ps_shape spec, pl_bits = ps_bits spec,
                  pl_group_size = group_size, pl_symmetric = ps_symmetric spec,
                  pl_codec_id = ps_codec_id spec, pl_offset = cursor, pl_spans = spans\<rparr> in
      bindE (lay_out_projections specs scale_bytes zero_bytes (cursor + spans_length spans))
        (\<lambda>(rest, end_cursor). Inr (laid # rest, end_cursor))))"

definition record_build :: "projection_spec list \<Rightarrow> int \<Rightarrow> int \<Rightarrow> int \<Rightarrow> record_layout result" where
  "record_build projections alignment scale_bytes zero_bytes =
     bindE (lay_out_projections projections scale_bytes zero_bytes 0) (\<lambda>(laid_out, cursor).
     Inr \<lparr>rl_projections = laid_out, rl_payload_bytes = cursor,
          rl_stride = align_up cursor alignment, rl_alignment = alignment\<rparr>)"

definition record_offset :: "record_layout \<Rightarrow> int \<Rightarrow> int" where
  "record_offset r record_index = record_index * rl_stride r"

definition section_offset :: "record_layout \<Rightarrow> int \<Rightarrow> string \<Rightarrow> section_kind \<Rightarrow> int result" where
  "section_offset r record_index projection sec =
     (case find_projection (rl_projections r) projection of
        None \<Rightarrow> Inl KeyError
      | Some proj \<Rightarrow>
          (case find_span (pl_spans proj) sec of
             None \<Rightarrow> Inl KeyError
           | Some sp \<Rightarrow> Inr (record_offset r record_index + pl_offset proj + sp_offset sp)))"

section \<open>The expert bank\<close>

record record_entry =
  re_record_index :: int
  re_layer :: int
  re_expert :: int
  re_byte_offset :: int

record expert_layout =
  el_num_layers :: int
  el_num_experts :: int
  el_layers :: "int list"
  el_record :: record_layout
  el_records :: "record_entry list"

definition num_records :: "expert_layout \<Rightarrow> int" where
  "num_records lay = (if el_records lay \<noteq> [] then int (length (el_records lay))
                      else int (length (el_layers lay)) * el_num_experts lay)"

definition el_total_bytes :: "expert_layout \<Rightarrow> int" where
  "el_total_bytes lay = num_records lay * rl_stride (el_record lay)"

fun find_entry :: "record_entry list \<Rightarrow> int \<Rightarrow> int \<Rightarrow> int result" where
  "find_entry [] layer expert = Inl KeyError"
| "find_entry (e # es) layer expert =
     (if re_layer e = layer \<and> re_expert e = expert then Inr (re_record_index e)
      else find_entry es layer expert)"

text \<open>\<open>list.index\<close>\<close>

fun list_index :: "'a list \<Rightarrow> 'a \<Rightarrow> int option" where
  "list_index [] x = None"
| "list_index (y # ys) x = (if y = x then Some 0 else map_option (\<lambda>i. i + 1) (list_index ys x))"

definition record_index :: "expert_layout \<Rightarrow> int \<Rightarrow> int \<Rightarrow> int result" where
  "record_index lay layer expert =
     (if el_records lay \<noteq> [] then find_entry (el_records lay) layer expert
      else case list_index (el_layers lay) layer of
        None \<Rightarrow> Inl KeyError
      | Some position \<Rightarrow>
          if \<not> (0 \<le> expert \<and> expert < el_num_experts lay) then Inl KeyError
          else Inr (position * el_num_experts lay + expert))"

definition byte_range :: "expert_layout \<Rightarrow> int \<Rightarrow> int \<Rightarrow> (int \<times> int) result" where
  "byte_range lay layer expert =
     bindE (record_index lay layer expert) (\<lambda>i.
     Inr (record_offset (el_record lay) i, rl_payload_bytes (el_record lay)))"

section \<open>PLE rows\<close>

record ple_row_layout =
  pr_row_width :: int
  pr_bits :: pyfloat
  pr_group_size :: int
  pr_symmetric :: bool
  pr_codec_id :: string
  pr_payload_bytes :: int
  pr_rows_per_page :: int
  pr_page_bytes :: int

definition row_build :: "int \<Rightarrow> pyfloat \<Rightarrow> int \<Rightarrow> bool \<Rightarrow> int \<Rightarrow> int \<Rightarrow> int \<Rightarrow> string \<Rightarrow>
    ple_row_layout result" where
  "row_build row_width bits group_size0 symmetric scale_bytes zero_bytes page_bytes0 codec_id =
     (let group_size = resolve_group_size row_width group_size0 in
      bindE (section_spans [1, row_width] bits group_size symmetric scale_bytes zero_bytes) (\<lambda>spans.
      let payload = spans_length spans in
      bindE (if page_bytes0 < payload then Inr (align_up payload 4096, 1)
             else if payload = 0 then Inl ZeroDivisionError
             else Inr (page_bytes0, max 1 (page_bytes0 div payload))) (\<lambda>(page_bytes, rows_per_page).
      Inr \<lparr>pr_row_width = row_width, pr_bits = bits, pr_group_size = group_size,
           pr_symmetric = symmetric, pr_codec_id = codec_id, pr_payload_bytes = payload,
           pr_rows_per_page = rows_per_page, pr_page_bytes = page_bytes\<rparr>)))"

definition row_offset :: "ple_row_layout \<Rightarrow> int \<Rightarrow> int" where
  "row_offset r row_id =
     (let page = row_id div pr_rows_per_page r; slot = row_id mod pr_rows_per_page r in
      page * pr_page_bytes r + slot * pr_payload_bytes r)"

definition bytes_for :: "ple_row_layout \<Rightarrow> int \<Rightarrow> int result" where
  "bytes_for r total_rows =
     bindE (py_truediv total_rows (pr_rows_per_page r)) (\<lambda>q. Inr (\<lceil>q\<rceil> * pr_page_bytes r))"

definition waste_fraction :: "ple_row_layout \<Rightarrow> pyfloat result" where
  "waste_fraction r =
     (let used = pr_rows_per_page r * pr_payload_bytes r in
      py_truediv (pr_page_bytes r - used) (pr_page_bytes r))"

section \<open>The PLE index\<close>

record shard_mapping =
  sm_shard_index :: int
  sm_logical_first_row :: int
  sm_physical_first_row :: int
  sm_num_rows :: int

record ple_index =
  pi_ngram_size :: int
  pi_num_heads :: int
  pi_heads_per_ngram :: int
  pi_head_offsets :: "int list"
  pi_head_vocab_sizes :: "int list"
  pi_layer_multipliers :: "int list"
  pi_total_rows :: int
  pi_physical_rows :: int
  pi_shards :: "shard_mapping list"
  pi_row :: ple_row_layout
  pi_source_layer :: int

definition pi_total_bytes :: "ple_index \<Rightarrow> int result" where
  "pi_total_bytes ix = bytes_for (pi_row ix) (pi_physical_rows ix)"

fun find_shard :: "shard_mapping list \<Rightarrow> int \<Rightarrow> int result" where
  "find_shard [] logical_row_id = Inl KeyError"
| "find_shard (s # shards) logical_row_id =
     (if sm_logical_first_row s \<le> logical_row_id \<and>
         logical_row_id < sm_logical_first_row s + sm_num_rows s
      then Inr (sm_physical_first_row s + (logical_row_id - sm_logical_first_row s))
      else find_shard shards logical_row_id)"

definition physical_row_id :: "ple_index \<Rightarrow> int \<Rightarrow> int result" where
  "physical_row_id ix logical_row_id = find_shard (pi_shards ix) logical_row_id"

text \<open>\<open>value &= 0xFFFFFFFFFFFFFFFF\<close>, then the sign.\<close>

definition signed_int64 :: "int \<Rightarrow> int" where
  "signed_int64 value =
     (let v = value mod 2 ^ 64 in if 2 ^ 63 \<le> v then v - 2 ^ 64 else v)"

text \<open>A Python list subscript, negative indices counting from the end.\<close>

definition py_nth :: "'a list \<Rightarrow> int \<Rightarrow> 'a result" where
  "py_nth xs i =
     (let j = (if i < 0 then i + int (length xs) else i) in
      if 0 \<le> j \<and> j < int (length xs) then Inr (xs ! nat j) else Inl IndexError)"

fun hash_tokens :: "int list \<Rightarrow> int list \<Rightarrow> int \<Rightarrow> int \<Rightarrow> int result" where
  "hash_tokens mults [] position acc = Inr acc"
| "hash_tokens mults (token # tokens) position acc =
     bindE (py_nth mults position) (\<lambda>m.
     let product = signed_int64 (token * m) in
     hash_tokens mults tokens (position + 1) (signed_int64 (xor acc product)))"

text \<open>The slice \<open>xs[-n:]\<close>: the last \<open>n\<close> elements, but all of them for 0.\<close>

definition py_last_n :: "'a list \<Rightarrow> int \<Rightarrow> 'a list" where
  "py_last_n xs n = (if 0 < n then drop (length xs - nat n) xs else drop (nat (- n)) xs)"

definition row_id :: "ple_index \<Rightarrow> int \<Rightarrow> int list \<Rightarrow> int result" where
  "row_id ix head tokens =
     (if head < 0 \<or> pi_num_heads ix \<le> head then Inl IndexError
      else if pi_heads_per_ngram ix = 0 then Inl ZeroDivisionError
      else
        let ngram_order = 2 + head div pi_heads_per_ngram ix in
        if int (length tokens) < ngram_order then Inl ValueError
        else
          let current_first = rev (py_last_n tokens ngram_order) in
          bindE (hash_tokens (pi_layer_multipliers ix) current_first 0 0) (\<lambda>acc.
          bindE (py_nth (pi_head_offsets ix) head) (\<lambda>offset.
          bindE (py_nth (pi_head_vocab_sizes ix) head) (\<lambda>vocab.
          if vocab = 0 then Inl ZeroDivisionError else Inr (offset + acc mod vocab)))))"

definition row_ids :: "ple_index \<Rightarrow> int list \<Rightarrow> int list result" where
  "row_ids ix tokens = mapE (\<lambda>h. row_id ix (int h) tokens) [0 ..< nat (pi_num_heads ix)]"

section \<open>Dense entries and totals\<close>

record dense_entry =
  de_name :: string
  de_component :: string
  de_shape :: "int list"
  de_bits :: pyfloat
  de_group_size :: int
  de_symmetric :: bool
  de_codec_id :: string
  de_num_params :: int
  de_packed_bytes :: int
  de_byte_offset :: int
  de_spans :: "section_span list"

definition de_length :: "dense_entry \<Rightarrow> int" where
  "de_length e = (if spans_length (de_spans e) \<noteq> 0 then spans_length (de_spans e)
                  else de_packed_bytes e)"

record package_totals =
  pt_source_params :: int
  pt_packaged_params :: int
  pt_dropped_params :: int
  pt_dense_bytes :: int
  pt_expert_bytes :: int
  pt_ple_bytes :: int

definition pt_total_bytes :: "package_totals \<Rightarrow> int" where
  "pt_total_bytes t = pt_dense_bytes t + pt_expert_bytes t + pt_ple_bytes t"

definition average_bits :: "package_totals \<Rightarrow> pyfloat" where
  "average_bits t =
     (if pt_packaged_params t = 0 then 0
      else fl (fmul (fof (pt_total_bytes t)) 8 / fof (pt_packaged_params t)))"

end
