(* ===== verification/Region.thy ===== *)
theory Region
  imports Prelude
begin

text \<open>
  Region files: Python's seek, read and write on a binary file as operations on a byte list,
  segments laid end to end, and the contract of a layout that assigns every item of a region
  its own byte range. Under the contract items may be written in any order, again after a
  crash, and each reads back what was last written to it.
\<close>

type_synonym byte = "8 word"
type_synonym bytes = "byte list"

section \<open>Files\<close>

text \<open>A seek to a negative offset raises; a write past the end fills the gap with zeros, an
  empty write does nothing; \<open>read(n)\<close> returns what is there and all of it for a negative
  \<open>n\<close>.\<close>

definition file_write :: "bytes \<Rightarrow> int \<Rightarrow> bytes \<Rightarrow> bytes result" where
  "file_write f off data =
     (if off < 0 then Inl OSError
      else if data = [] then Inr f
      else let k = nat off in
        Inr (take k f @ replicate (k - length f) 0 @ data @ drop (k + length data) f))"

definition file_read :: "bytes \<Rightarrow> int \<Rightarrow> int \<Rightarrow> bytes result" where
  "file_read f off n =
     (if off < 0 then Inl OSError
      else if n < 0 then Inr (drop (nat off) f)
      else Inr (take (nat n) (drop (nat off) f)))"

definition preallocate :: "bytes \<Rightarrow> int \<Rightarrow> bytes" where
  "preallocate f nbytes = f @ replicate (nat nbytes - length f) 0"

lemma preallocate_length [simp]: "length (preallocate f nbytes) = max (length f) (nat nbytes)"
  by (simp add: preallocate_def)

lemma file_write_in:
  assumes "0 \<le> off" "nat off + length data \<le> length f"
  shows "file_write f off data = Inr (take (nat off) f @ data @ drop (nat off + length data) f)"
  using assms by (auto simp: file_write_def Let_def)

lemma file_write_length:
  assumes "file_write f off data = Inr f'" "nat off + length data \<le> length f"
  shows "length f' = length f"
  using assms by (auto simp: file_write_def Let_def split: if_splits)

lemma file_read_same:
  assumes "file_write f off data = Inr f'" "nat off + length data \<le> length f" "n = int (length data)"
  shows "file_read f' off n = Inr data"
  using assms by (auto simp: file_write_def file_read_def Let_def split: if_splits)

lemma slice_nth: "k + n \<le> length f \<Longrightarrow> take n (drop k f) = map (\<lambda>i. f ! (k + i)) [0 ..< n]"
  by (rule nth_equalityI) simp_all

lemma file_read_other:
  assumes w: "file_write f off data = Inr f'" and fit: "nat off + length data \<le> length f"
    and o: "0 \<le> o'" "0 \<le> n" "nat o' + nat n \<le> length f"
    and d: "o' + n \<le> off \<or> off + int (length data) \<le> o'"
  shows "file_read f' o' n = file_read f o' n"
proof -
  have off: "0 \<le> off" using w by (simp add: file_write_def split: if_splits)
  have f': "f' = take (nat off) f @ data @ drop (nat off + length data) f"
    using w file_write_in [OF off fit] by simp
  have len: "length f' = length f" by (rule file_write_length [OF w fit])
  have out: "f' ! k = f ! k" if "k < nat off \<or> nat off + length data \<le> k" for k
    using that fit by (auto simp: f' nth_append)
  have "f' ! (nat o' + i) = f ! (nat o' + i)" if "i < nat n" for i
    by (rule out) (use that d o off in linarith)
  then show ?thesis using o len by (simp add: file_read_def slice_nth)
qed

section \<open>Segments laid end to end\<close>

fun contig :: "int \<Rightarrow> (int \<times> int) list \<Rightarrow> bool" where
  "contig c [] = True"
| "contig c ((off, len) # segs) = (off = c \<and> 0 \<le> len \<and> contig (c + len) segs)"

lemma contig_nonneg: "contig c segs \<Longrightarrow> 0 \<le> sum_list (map snd segs)"
  by (induction c segs rule: contig.induct) auto

lemma contig_bounds:
  "contig c segs \<Longrightarrow> i < length segs \<Longrightarrow>
     c \<le> fst (segs ! i) \<and> 0 \<le> snd (segs ! i) \<and>
     fst (segs ! i) + snd (segs ! i) \<le> c + sum_list (map snd segs)"
proof (induction c segs arbitrary: i rule: contig.induct)
  case (2 c off len segs)
  then show ?case using contig_nonneg [of "c + len" segs] by (cases i) fastforce+
qed simp

lemma contig_disjoint:
  "contig c segs \<Longrightarrow> i < j \<Longrightarrow> j < length segs \<Longrightarrow> fst (segs ! i) + snd (segs ! i) \<le> fst (segs ! j)"
proof (induction c segs arbitrary: i j rule: contig.induct)
  case (2 c off len segs)
  then obtain j' where j: "j = Suc j'" by (cases j) auto
  show ?case
  proof (cases i)
    case 0
    then show ?thesis using "2.prems" contig_bounds [of "c + len" segs j'] by (auto simp: j)
  next
    case (Suc i')
    then show ?thesis using 2 by (auto simp: j)
  qed
qed simp

lemma contig_append:
  "contig c (xs @ ys) \<longleftrightarrow> contig c xs \<and> contig (c + sum_list (map snd xs)) ys"
  by (induction c xs rule: contig.induct) (auto simp: algebra_simps)

section \<open>The contract of a region\<close>

text \<open>
  \<open>ok c\<close> says that the configuration \<open>c\<close> is well formed, \<open>item c i\<close> that it addresses
  the item \<open>i\<close>.
\<close>

locale region_layout =
  fixes ok :: "'c \<Rightarrow> bool"
    and item :: "'c \<Rightarrow> 'i \<Rightarrow> bool"
    and off :: "'c \<Rightarrow> 'i \<Rightarrow> int"
    and len :: "'c \<Rightarrow> 'i \<Rightarrow> int"
    and region_size :: "'c \<Rightarrow> int"
  assumes in_bounds: "ok c \<Longrightarrow> item c i \<Longrightarrow> 0 \<le> off c i \<and> 0 \<le> len c i \<and> off c i + len c i \<le> region_size c"
    and disjoint: "ok c \<Longrightarrow> item c i \<Longrightarrow> item c j \<Longrightarrow> i \<noteq> j \<Longrightarrow>
      off c i + len c i \<le> off c j \<or> off c j + len c j \<le> off c i"
begin

text \<open>A payload of the planned length for an item of the region.\<close>

definition fits :: "'c \<Rightarrow> 'i \<times> bytes \<Rightarrow> bool" where
  "fits c w \<longleftrightarrow> item c (fst w) \<and> int (length (snd w)) = len c (fst w)"

fun write_items :: "'c \<Rightarrow> bytes \<Rightarrow> ('i \<times> bytes) list \<Rightarrow> bytes result" where
  "write_items c f [] = Inr f"
| "write_items c f (w # ws) =
     bindE (file_write f (off c (fst w)) (snd w)) (\<lambda>f'. write_items c f' ws)"

lemma write_one:
  assumes "ok c" "fits c w" "region_size c \<le> int (length f)"
  shows "\<exists>f'. file_write f (off c (fst w)) (snd w) = Inr f' \<and> length f' = length f \<and>
    file_read f' (off c (fst w)) (len c (fst w)) = Inr (snd w) \<and>
    (\<forall>j. item c j \<longrightarrow> j \<noteq> fst w \<longrightarrow>
       file_read f' (off c j) (len c j) = file_read f (off c j) (len c j))"
proof -
  note i = in_bounds [OF assms(1), of "fst w"]
  have fit: "nat (off c (fst w)) + length (snd w) \<le> length f"
    using i assms(2,3) by (simp add: fits_def nat_add_distrib [symmetric]) linarith
  obtain f' where w: "file_write f (off c (fst w)) (snd w) = Inr f'"
    using file_write_in [OF _ fit] i assms(2) by (auto simp: fits_def)
  show ?thesis
  proof (intro exI [of _ f'] conjI allI impI)
    show "file_write f (off c (fst w)) (snd w) = Inr f'" by (rule w)
    show "length f' = length f" by (rule file_write_length [OF w fit])
    show "file_read f' (off c (fst w)) (len c (fst w)) = Inr (snd w)"
      by (rule file_read_same [OF w fit]) (use assms(2) in \<open>simp add: fits_def\<close>)
    fix j assume j: "item c j" "j \<noteq> fst w"
    show "file_read f' (off c j) (len c j) = file_read f (off c j) (len c j)"
    proof (rule file_read_other [OF w fit])
      show "0 \<le> off c j" "0 \<le> len c j" using in_bounds [OF assms(1) j(1)] by auto
      show "nat (off c j) + nat (len c j) \<le> length f"
        using in_bounds [OF assms(1) j(1)] assms(3) by linarith
      show "off c j + len c j \<le> off c (fst w) \<or> off c (fst w) + int (length (snd w)) \<le> off c j"
        using disjoint [OF assms(1) j(1), of "fst w"] assms(2) j(2) by (auto simp: fits_def)
    qed
  qed
qed

lemma write_items_ok:
  assumes "ok c" "\<forall>w \<in> set ws. fits c w" "region_size c \<le> int (length f)"
  shows "\<exists>f'. write_items c f ws = Inr f' \<and> length f' = length f"
  using assms(2,3)
proof (induction ws arbitrary: f)
  case (Cons w ws)
  obtain f1 where "file_write f (off c (fst w)) (snd w) = Inr f1" "length f1 = length f"
    using write_one [OF assms(1), of w f] Cons.prems by force
  then show ?case using Cons.IH [of f1] Cons.prems by auto
qed simp

text \<open>An item that is not written keeps its bytes.\<close>

lemma write_items_frame:
  assumes "ok c" "\<forall>w \<in> set ws. fits c w" "region_size c \<le> int (length f)"
    and "write_items c f ws = Inr f'" "item c j" "j \<notin> fst ` set ws"
  shows "file_read f' (off c j) (len c j) = file_read f (off c j) (len c j)"
  using assms(2-4,6)
proof (induction ws arbitrary: f)
  case (Cons w ws)
  obtain f1 where f1: "file_write f (off c (fst w)) (snd w) = Inr f1" "length f1 = length f"
    "file_read f1 (off c j) (len c j) = file_read f (off c j) (len c j)"
    using write_one [OF assms(1), of w f] Cons.prems assms(5) by force
  then show ?case using Cons.IH [of f1] Cons.prems by auto
qed simp

text \<open>In any order, each item reads back what was written to it.\<close>

theorem write_items_read:
  assumes "ok c" "\<forall>w \<in> set ws. fits c w" "region_size c \<le> int (length f)"
    and "write_items c f ws = Inr f'" "distinct (map fst ws)" "(i, p) \<in> set ws"
  shows "file_read f' (off c i) (len c i) = Inr p"
  using assms(2-6)
proof (induction ws arbitrary: f)
  case (Cons w ws)
  obtain f1 where f1: "file_write f (off c (fst w)) (snd w) = Inr f1" "length f1 = length f"
    "file_read f1 (off c (fst w)) (len c (fst w)) = Inr (snd w)"
    using write_one [OF assms(1), of w f] Cons.prems by force
  have rest: "write_items c f1 ws = Inr f'" using Cons.prems f1 by simp
  show ?case
  proof (cases "(i, p) = w")
    case True
    have w: "fst w = i" "snd w = p" using True by auto
    have "item c i" using Cons.prems(1) w by (simp add: fits_def)
    moreover have "i \<notin> fst ` set ws" using Cons.prems(4) w by simp
    ultimately have "file_read f' (off c i) (len c i) = file_read f1 (off c i) (len c i)"
      using Cons.prems(1,2) f1(2) by (intro write_items_frame [OF assms(1) _ _ rest]) simp_all
    then show ?thesis using f1(3) w by simp
  next
    case False
    then have "(i, p) \<in> set ws" using Cons.prems(5) by simp
    then show ?thesis using Cons.prems f1(2) by (intro Cons.IH [OF _ _ rest]) simp_all
  qed
qed simp

end

end
