(* ===== verification/FormatLaws.thy ===== *)
theory FormatLaws
  imports Format Region
begin

text \<open>
  Laws of the byte layout: the float sizes are the exact integer ones, group sizes never pad,
  the spans of a matrix, the projections of a record, the records of a bank and the rows of a
  PLE table are laid out without gaps or overlaps.
\<close>

section \<open>Sizes\<close>

lemma align_up_ceil: "1 < a \<Longrightarrow> align_up v a = ceil_div v a * a"
  by (simp add: align_up_def ceil_div_alt)

lemma align_up_id: "a \<le> 1 \<Longrightarrow> align_up v a = v"
  by (simp add: align_up_def)

lemma align_up_ge: "v \<le> align_up v a"
  using ceil_div_ge [of a v] by (cases "1 < a") (simp_all add: align_up_ceil align_up_id)

lemma align_up_less: "1 \<le> a \<Longrightarrow> align_up v a < v + a"
  using ceil_div_less [of a v] by (cases "1 < a") (simp_all add: align_up_ceil align_up_id)

lemma align_up_dvd: "1 \<le> a \<Longrightarrow> a dvd align_up v a"
  by (cases "1 < a") (simp_all add: align_up_ceil)

lemma align_up_least:
  assumes "1 \<le> a" "v \<le> w" "a dvd w"
  shows "align_up v a \<le> w"
proof -
  obtain q where w: "w = a * q" using assms(3) by (elim dvdE)
  obtain p where p: "align_up v a = a * p" using align_up_dvd [OF assms(1), of v] by (elim dvdE)
  have "a * p < a * (q + 1)" using align_up_less [OF assms(1), of v] assms(2) by (simp add: p w algebra_simps)
  then have "p \<le> q" using assms(1) by (simp add: mult_less_cancel_left)
  then show ?thesis using assms(1) by (simp add: p w mult_left_mono)
qed

text \<open>Codes per byte of an integral bit width, and the bits it occupies on disk.\<close>

definition disk_bits :: "int \<Rightarrow> int" where
  "disk_bits b = 8 div (8 div b)"

lemma int_1_to_8: "1 \<le> b \<Longrightarrow> b \<le> (8::int) \<Longrightarrow> b \<in> {1, 2, 3, 4, 5, 6, 7, 8}"
  by auto

lemma fl_int [simp]: "fl (numeral n) = numeral n" if "numeral n \<le> (2 ^ 53 :: int)"
  using fl_of_int [of "numeral n"] that by simp

lemma fl_1 [simp]: "fl 1 = 1"
  using fl_of_int [of 1] by simp

lemma storage_bits_int:
  assumes "1 \<le> b" "b \<le> 8"
  shows "storage_bits (of_int b) = of_int (disk_bits b)"
  using int_1_to_8 [OF assms]
  by (elim insertE emptyE) (simp_all add: storage_bits_def disk_bits_def Let_def py_int_def)

lemma disk_bits_mult:
  assumes "1 \<le> b" "b \<le> 8"
  shows "disk_bits b * (8 div b) = 8" and "1 \<le> disk_bits b" and "disk_bits b \<le> 8"
    and "b \<le> disk_bits b" and "1 \<le> 8 div b"
  using int_1_to_8 [OF assms] by (auto simp: disk_bits_def)

lemma ceil_div_scale:
  assumes "0 < d" "0 < s"
  shows "ceil_div (n * s) (d * s) = ceil_div n d"
proof (rule ceil_div_unique)
  show "n * s \<le> ceil_div n d * (d * s)"
    using mult_right_mono [OF ceil_div_ge [OF assms(1), of n], of s] assms(2) by (simp add: mult.assoc)
  have "ceil_div n d * d * s < (n + d) * s"
    using ceil_div_less [OF assms(1), of n] assms(2) by simp
  then show "ceil_div n d * (d * s) < n * s + d * s" by (simp add: algebra_simps)
qed (use assms in simp)

lemma packed_bytes_exact:
  assumes "0 \<le> n" "n \<le> 2 ^ 49" "1 \<le> b" "b \<le> 8"
  shows "packed_bytes n (of_int b) = ceil_div n (8 div b)"
proof -
  note d = disk_bits_mult [OF assms(3,4)]
  have le: "n * disk_bits b \<le> 2 ^ 49 * 8" using assms d by (intro mult_mono) simp_all
  have n: "0 \<le> n * disk_bits b" using assms d by simp
  have "fl (of_int n :: rat) = of_int n" using assms by (intro fl_of_int) simp
  moreover have "fl (of_int (n * disk_bits b) :: rat) = of_int (n * disk_bits b)"
    using le n by (intro fl_of_int) simp
  ultimately have "packed_bytes n (of_int b) = \<lceil>fl (of_int (n * disk_bits b) / of_int 8)\<rceil>"
    using storage_bits_int [OF assms(3,4)] by (simp add: packed_bytes_def fmul_def fof_def)
  also have "\<dots> = ceil_div (n * disk_bits b) 8" using le n by (intro ceil_fl_div) simp_all
  also have "\<dots> = ceil_div (n * disk_bits b) ((8 div b) * disk_bits b)" using d(1) by (simp add: mult.commute)
  also have "\<dots> = ceil_div n (8 div b)" using d by (intro ceil_div_scale) simp_all
  finally show ?thesis .
qed

lemma num_groups_exact:
  "0 \<le> n \<Longrightarrow> n \<le> 2 ^ 52 \<Longrightarrow> num_groups n g = Inr (if g \<le> 0 then 1 else ceil_div n g)"
  by (simp add: num_groups_def ceil_fl_truediv)

section \<open>Group sizes\<close>

lemma largest_divisor_spec:
  assumes "0 < n" "0 < c"
  shows "largest_divisor n c dvd n \<and> 0 < largest_divisor n c \<and> largest_divisor n c \<le> c \<and>
    (\<forall>d. 0 < d \<and> d \<le> c \<and> d dvd n \<longrightarrow> d \<le> largest_divisor n c)"
  using assms
proof (induction n c rule: largest_divisor.induct)
  case (1 n c)
  show ?case
  proof (cases "n mod c = 0")
    case True
    then show ?thesis using "1.prems" by (simp add: largest_divisor.simps [of n c] dvd_eq_mod_eq_0)
  next
    case False
    then have "c \<noteq> 1" by auto
    then have IH: "largest_divisor n (c - 1) dvd n \<and> 0 < largest_divisor n (c - 1) \<and>
        largest_divisor n (c - 1) \<le> c - 1 \<and>
        (\<forall>d. 0 < d \<and> d \<le> c - 1 \<and> d dvd n \<longrightarrow> d \<le> largest_divisor n (c - 1))"
      using "1.IH" False "1.prems" by simp
    have "largest_divisor n c = largest_divisor n (c - 1)"
      using False "1.prems" by (simp add: largest_divisor.simps [of n c])
    moreover have "d \<le> c - 1" if "d \<le> c" "d dvd n" for d
      using that False by (cases "d = c") (auto simp: dvd_eq_mod_eq_0)
    ultimately show ?thesis using IH by auto
  qed
qed

lemma resolve_group_size_spec:
  assumes "0 < n"
  shows "resolve_group_size n g dvd n" and "0 < resolve_group_size n g"
    and "resolve_group_size n g \<le> n"
    and "0 < g \<Longrightarrow> resolve_group_size n g \<le> g"
    and "0 < g \<Longrightarrow> 0 < d \<Longrightarrow> d \<le> g \<Longrightarrow> d dvd n \<Longrightarrow> d \<le> resolve_group_size n g"
  using assms largest_divisor_spec [OF assms, of g]
  by (auto simp: resolve_group_size_def dvd_eq_mod_eq_0 intro: zdvd_imp_le split: if_splits)

lemma resolve_group_size_idem:
  "resolve_group_size n (resolve_group_size n g) = resolve_group_size n g"
proof (cases "0 < n")
  case True
  note r = resolve_group_size_spec [OF True, of g]
  then show ?thesis using r(1-3)
    by (simp add: resolve_group_size_def [of n "resolve_group_size n g"] dvd_eq_mod_eq_0)
qed (simp add: resolve_group_size_def)

section \<open>Spans\<close>

definition span_segs :: "section_span list \<Rightarrow> (int \<times> int) list" where
  "span_segs spans = map (\<lambda>s. (sp_offset s, sp_length s)) spans"

lemma spans_length_segs: "spans_length spans = sum_list (map snd (span_segs spans))"
  by (simp add: spans_length_def span_segs_def comp_def)

text \<open>Spans that tile their record from 0, one per section.\<close>

definition spans_ok :: "section_span list \<Rightarrow> bool" where
  "spans_ok spans \<longleftrightarrow> contig 0 (span_segs spans) \<and> distinct (map sp_section spans)"

lemma storage_bits_nonneg: "0 \<le> bits \<Longrightarrow> 0 \<le> storage_bits bits"
  by (simp add: storage_bits_def Let_def fl_nonneg pos_imp_zdiv_nonneg_iff)

lemma packed_bytes_nonneg: "0 \<le> n \<Longrightarrow> 0 \<le> bits \<Longrightarrow> 0 \<le> packed_bytes n bits"
  unfolding packed_bytes_def fmul_def fof_def
  by (simp add: fl_nonneg storage_bits_nonneg order_less_le_trans [of "-1" 0])

lemma groups_per_row:
  assumes "0 < n"
  shows "\<exists>q. py_truediv n (resolve_group_size n g) = Inr q \<and> 1 \<le> \<lceil>q\<rceil>"
proof -
  have "0 < fl (of_int n / of_int (resolve_group_size n g))"
    using assms resolve_group_size_spec(2) [OF assms, of g] by (intro fl_gt_0) simp
  then have "0 < \<lceil>fl (of_int n / of_int (resolve_group_size n g))\<rceil>" by simp
  then show ?thesis using resolve_group_size_spec(2) [OF assms, of g] by (simp add: py_truediv_def)
qed

lemma section_spans_ok:
  assumes "matrix_dims shape = (rows, n)" "0 \<le> rows" "0 < n" "0 \<le> bits" "0 \<le> sb" "0 \<le> zb"
  shows "\<exists>spans. section_spans shape bits g symm sb zb = Inr spans \<and> spans_ok spans"
proof -
  obtain q where q: "py_truediv n (resolve_group_size n g) = Inr q" "1 \<le> \<lceil>q\<rceil>"
    using groups_per_row [OF assms(3)] by blast
  have "0 \<le> packed_bytes (rows * (\<lceil>q\<rceil> * resolve_group_size n g)) bits"
    using assms q(2) resolve_group_size_spec(2) [OF assms(3), of g] by (intro packed_bytes_nonneg) simp_all
  then show ?thesis
    using assms q by (auto simp: section_spans_def Let_def spans_ok_def span_segs_def)
qed

lemma section_spans_exact:
  assumes dims: "matrix_dims shape = (rows, n)" and r: "0 \<le> rows" "0 < n" "n \<le> 2 ^ 49" "rows * n \<le> 2 ^ 49"
    and b: "1 \<le> b" "b \<le> 8"
  shows "section_spans shape (of_int b) g symm sb zb =
    (let groups = rows * (n div resolve_group_size n g); packed = ceil_div (rows * n) (8 div b) in
     Inr ([\<lparr>sp_section = PACKED, sp_offset = 0, sp_length = packed\<rparr>,
           \<lparr>sp_section = SCALES, sp_offset = packed, sp_length = groups * sb\<rparr>] @
          (if symm then []
           else [\<lparr>sp_section = ZEROS, sp_offset = packed + groups * sb, sp_length = groups * zb\<rparr>])))"
proof -
  note g = resolve_group_size_spec [OF r(2), of g]
  have q: "\<lceil>fl (of_int n / of_int (resolve_group_size n g))\<rceil> = n div resolve_group_size n g"
    using r g by (simp add: ceil_fl_div ceil_div_exact)
  have "n div resolve_group_size n g * resolve_group_size n g = n" using g(1) by simp
  moreover have "\<not> (16::rat) \<le> of_int b" using b(2) by linarith
  ultimately show ?thesis
    using r g(2) b dims
    by (simp add: section_spans_def Let_def py_truediv_def q packed_bytes_exact)
qed

section \<open>Records\<close>

definition projection_segs :: "projection_layout list \<Rightarrow> (int \<times> int) list" where
  "projection_segs ps = map (\<lambda>p. (pl_offset p, pl_length p)) ps"

definition spec_ok :: "projection_spec \<Rightarrow> bool" where
  "spec_ok s \<longleftrightarrow> 0 \<le> fst (matrix_dims (ps_shape s)) \<and> 0 < snd (matrix_dims (ps_shape s)) \<and> 0 \<le> ps_bits s"

definition record_ok :: "record_layout \<Rightarrow> bool" where
  "record_ok r \<longleftrightarrow> contig 0 (projection_segs (rl_projections r)) \<and>
     rl_payload_bytes r = sum_list (map snd (projection_segs (rl_projections r))) \<and>
     (\<forall>p \<in> set (rl_projections r). spans_ok (pl_spans p)) \<and>
     distinct (map pl_name (rl_projections r)) \<and> rl_payload_bytes r \<le> rl_stride r"

lemma lay_out_projections_ok:
  assumes "\<forall>s \<in> set specs. spec_ok s" "0 \<le> sb" "0 \<le> zb"
  shows "\<exists>laid e. lay_out_projections specs sb zb c = Inr (laid, e) \<and>
    contig c (projection_segs laid) \<and> e = c + sum_list (map snd (projection_segs laid)) \<and>
    (\<forall>p \<in> set laid. spans_ok (pl_spans p)) \<and> map pl_name laid = map ps_name specs"
  using assms(1)
proof (induction specs arbitrary: c)
  case Nil
  then show ?case by (simp add: projection_segs_def)
next
  case (Cons s specs)
  obtain rows n where dims: "matrix_dims (ps_shape s) = (rows, n)" by (cases "matrix_dims (ps_shape s)")
  obtain spans where sp: "section_spans (ps_shape s) (ps_bits s)
      (resolve_group_size n (ps_group_size s)) (ps_symmetric s) sb zb = Inr spans" "spans_ok spans"
    using section_spans_ok [OF dims, where bits = "ps_bits s" and symm = "ps_symmetric s" and sb = sb and zb = zb]
      Cons.prems assms(2,3) by (auto simp: spec_ok_def dims)
  have nn: "0 \<le> spans_length spans"
    using sp(2) by (auto simp: spans_ok_def spans_length_segs intro: contig_nonneg)
  obtain laid e where IH: "lay_out_projections specs sb zb (c + spans_length spans) = Inr (laid, e)"
    "contig (c + spans_length spans) (projection_segs laid)"
    "e = c + spans_length spans + sum_list (map snd (projection_segs laid))"
    "\<forall>p \<in> set laid. spans_ok (pl_spans p)" "map pl_name laid = map ps_name specs"
    using Cons.IH [of "c + spans_length spans"] Cons.prems by auto
  show ?case using sp nn IH by (simp add: dims Let_def projection_segs_def pl_length_def)
qed

lemma record_build_ok:
  assumes "\<forall>s \<in> set specs. spec_ok s" "distinct (map ps_name specs)" "0 \<le> sb" "0 \<le> zb"
  shows "\<exists>r. record_build specs a sb zb = Inr r \<and> record_ok r \<and> rl_stride r = align_up (rl_payload_bytes r) a"
  using lay_out_projections_ok [OF assms(1,3,4), of 0] assms(2) align_up_ge
  by (auto simp: record_build_def record_ok_def)

lemma record_ok_payload: "record_ok r \<Longrightarrow> 0 \<le> rl_payload_bytes r"
  by (auto simp: record_ok_def intro: contig_nonneg)

text \<open>Every named section has a byte range of its own inside the payload.\<close>

lemma find_projection_mem:
  "find_projection ps name = Some p \<Longrightarrow> \<exists>i < length ps. ps ! i = p \<and> pl_name p = name"
proof (induction ps)
  case (Cons q ps)
  show ?case
  proof (cases "pl_name q = name")
    case True
    then show ?thesis using Cons.prems by auto
  next
    case False
    then obtain i where "i < length ps" "ps ! i = p" "pl_name p = name" using Cons by auto
    then show ?thesis by (intro exI [of _ "Suc i"]) simp
  qed
qed simp

lemma find_span_mem:
  "find_span sps sec = Some s \<Longrightarrow> \<exists>i < length sps. sps ! i = s \<and> sp_section s = sec"
proof (induction sps)
  case (Cons q sps)
  show ?case
  proof (cases "sp_section q = sec")
    case True
    then show ?thesis using Cons.prems by auto
  next
    case False
    then obtain i where "i < length sps" "sps ! i = s" "sp_section s = sec" using Cons by auto
    then show ?thesis by (intro exI [of _ "Suc i"]) simp
  qed
qed simp

lemma span_range:
  assumes "spans_ok sps" "find_span sps sec = Some s"
  shows "0 \<le> sp_offset s" "0 \<le> sp_length s" "sp_offset s + sp_length s \<le> spans_length sps"
proof -
  obtain i where i: "i < length sps" "sps ! i = s" using find_span_mem [OF assms(2)] by auto
  show "0 \<le> sp_offset s" "0 \<le> sp_length s" "sp_offset s + sp_length s \<le> spans_length sps"
    using contig_bounds [of 0 "span_segs sps" i] assms(1) i
    by (simp_all add: spans_ok_def spans_length_segs) (simp_all add: span_segs_def)
qed

lemma span_disjoint:
  assumes "spans_ok sps" "find_span sps a = Some s" "find_span sps b = Some t" "a \<noteq> b"
  shows "sp_offset s + sp_length s \<le> sp_offset t \<or> sp_offset t + sp_length t \<le> sp_offset s"
proof -
  obtain i where i: "i < length sps" "sps ! i = s" "sp_section s = a" using find_span_mem [OF assms(2)] by auto
  obtain j where j: "j < length sps" "sps ! j = t" "sp_section t = b" using find_span_mem [OF assms(3)] by auto
  have c: "contig 0 (span_segs sps)" using assms(1) by (simp add: spans_ok_def)
  consider "i < j" | "j < i" using i j assms(4) by (metis linorder_neqE_nat)
  then show ?thesis
    using contig_disjoint [OF c, of i j] contig_disjoint [OF c, of j i] i j
    by cases (simp_all add: span_segs_def)
qed

lemma projection_range:
  assumes "record_ok r" "find_projection (rl_projections r) name = Some p"
  shows "0 \<le> pl_offset p" "0 \<le> pl_length p" "pl_offset p + pl_length p \<le> rl_payload_bytes r" "spans_ok (pl_spans p)"
proof -
  obtain i where i: "i < length (rl_projections r)" "rl_projections r ! i = p"
    using find_projection_mem [OF assms(2)] by auto
  show "0 \<le> pl_offset p" "0 \<le> pl_length p" "pl_offset p + pl_length p \<le> rl_payload_bytes r"
    using contig_bounds [of 0 "projection_segs (rl_projections r)" i] assms(1) i
    by (simp_all add: record_ok_def) (simp_all add: projection_segs_def)
  show "spans_ok (pl_spans p)" using assms(1) i by (auto simp: record_ok_def)
qed

lemma projection_disjoint:
  assumes "record_ok r" "find_projection (rl_projections r) a = Some p"
    "find_projection (rl_projections r) b = Some q" "a \<noteq> b"
  shows "pl_offset p + pl_length p \<le> pl_offset q \<or> pl_offset q + pl_length q \<le> pl_offset p"
proof -
  obtain i where i: "i < length (rl_projections r)" "rl_projections r ! i = p" "pl_name p = a"
    using find_projection_mem [OF assms(2)] by auto
  obtain j where j: "j < length (rl_projections r)" "rl_projections r ! j = q" "pl_name q = b"
    using find_projection_mem [OF assms(3)] by auto
  have c: "contig 0 (projection_segs (rl_projections r))" using assms(1) by (simp add: record_ok_def)
  consider "i < j" | "j < i" using i j assms(4) by (metis linorder_neqE_nat)
  then show ?thesis
    using contig_disjoint [OF c, of i j] contig_disjoint [OF c, of j i] i j
    by cases (simp_all add: projection_segs_def)
qed

section \<open>Properties\<close>

text \<open>The group size the format chooses divides the row, so no record ever holds a padded
  group; it is the largest divisor of the row that the requested size admits, and resolving it
  again (writer, validator and decoder all do) gives the same size.\<close>

theorem group_size_best_divisor:
  assumes "0 < n" "0 < g"
  shows "resolve_group_size n g dvd n \<and> 0 < resolve_group_size n g \<and> resolve_group_size n g \<le> max g 1 \<and>
    (\<forall>d. 0 < d \<and> d \<le> g \<and> d dvd n \<longrightarrow> d \<le> resolve_group_size n g) \<and>
    resolve_group_size n (resolve_group_size n g) = resolve_group_size n g"
  using resolve_group_size_spec [OF assms(1), of g] assms resolve_group_size_idem by (auto simp: max_def)

theorem group_size_best_divisor_witness:
  "resolve_group_size 96 64 dvd 96 \<and> 48 \<le> resolve_group_size 96 64"
  using group_size_best_divisor [of 96 64] by simp

text \<open>C21: The float arithmetic of \<open>packed_bytes\<close> is exact: for every integer bit width from 1 to 8 and
  up to 2 to the 49 elements the byte count is the ceiling of the elements over the whole values
  a byte holds, which is the length of what the packer emits.\<close>

theorem packed_size_exact:
  assumes "0 \<le> n" "n \<le> 2 ^ 49" "1 \<le> b" "b \<le> 8"
  shows "packed_bytes n (of_int b) = (n + 8 div b - 1) div (8 div b)"
  using packed_bytes_exact [OF assms] ceil_div_alt [of "8 div b" n] disk_bits_mult(5) [OF assms(3,4)] by simp

theorem packed_size_exact_witness: "packed_bytes 1000 3 = 500"
  using packed_size_exact [of 1000 3] by simp

end
