(* ===== verification/QuantPack.thy ===== *)
theory QuantPack
  imports FormatLaws
begin

unbundle bit_operations_syntax

text \<open>
  The sub-byte packer of \<open>quantizers/rtn.py\<close> on \<open>uint8\<close> words, the group-wise
  quantizer around it, and the kernels' own unpacker. Unpacking inverts packing for every code
  the quantizer emits, and the packed length is the length the planner reserved.
\<close>

section \<open>Strided views\<close>

text \<open>\<open>xs[i::v]\<close> and the assignment \<open>xs[i::v] = ys\<close>.\<close>

definition stride_get :: "nat \<Rightarrow> nat \<Rightarrow> 'a list \<Rightarrow> 'a list" where
  "stride_get i v xs = map (\<lambda>j. xs ! j) (filter (\<lambda>j. i \<le> j \<and> (j - i) mod v = 0) [0 ..< length xs])"

definition stride_set :: "nat \<Rightarrow> nat \<Rightarrow> 'a list \<Rightarrow> 'a list \<Rightarrow> 'a list" where
  "stride_set i v ys xs =
     map (\<lambda>j. if i \<le> j \<and> (j - i) mod v = 0 then ys ! ((j - i) div v) else xs ! j) [0 ..< length xs]"

section \<open>Packing\<close>

definition pack_tensor :: "byte list \<Rightarrow> int \<Rightarrow> byte list result" where
  "pack_tensor codes bits =
     (if 16 \<le> bits \<or> bits \<le> 0 then Inl ValueError
      else
        let vals_per_byte = nat (8 div bits) in
        if vals_per_byte = 0 then Inl ZeroDivisionError
        else
          let r = length codes mod vals_per_byte;
              flat = (if r \<noteq> 0 then codes @ replicate (vals_per_byte - r) 0 else codes) in
          Inr (foldl (\<lambda>packed i. map2 (OR) packed
                   (map (push_bit (i * nat bits)) (stride_get i vals_per_byte flat)))
                 (replicate (length flat div vals_per_byte) 0) [0 ..< vals_per_byte]))"

definition unpack_tensor :: "byte list \<Rightarrow> int \<Rightarrow> nat \<Rightarrow> byte list result" where
  "unpack_tensor packed bits num_elements =
     (if bits = 0 then Inl ZeroDivisionError
      else
        let vals_per_byte = nat (8 div bits); msk = word_of_int (2 ^ nat bits - 1);
            unpacked = foldl (\<lambda>u i. stride_set i vals_per_byte
                (map (\<lambda>b. drop_bit (i * nat bits) b AND msk) packed) u)
              (replicate (length packed * vals_per_byte) 0) [0 ..< vals_per_byte] in
        if length (take num_elements unpacked) = num_elements then Inr (take num_elements unpacked)
        else Inl RuntimeError)"

section \<open>Closed forms\<close>

lemma stride_indices:
  assumes "i < v"
  shows "filter (\<lambda>j. i \<le> j \<and> (j - i) mod v = 0) [0 ..< n * v] = map (\<lambda>k. k * v + i) [0 ..< n]"
proof (induction n)
  case (Suc n)
  have z: "(k + n * v - i) mod v = 0 \<longleftrightarrow> k = i" if "k < v" "i \<le> k + n * v" for k
  proof
    assume "k = i"
    then show "(k + n * v - i) mod v = 0" by simp
  next
    assume m: "(k + n * v - i) mod v = 0"
    have "(k + n * v - i + i) mod v = (0 + i) mod v" using m by (metis mod_add_left_eq)
    then show "k = i" using that assms by simp
  qed
  have last: "filter (\<lambda>j. i \<le> j \<and> (j - i) mod v = 0) [n * v ..< n * v + v] = [n * v + i]"
  proof -
    have "[n * v ..< n * v + v] = map (\<lambda>k. k + n * v) [0 ..< v]" by (simp add: map_add_upt add.commute)
    then have "filter (\<lambda>j. i \<le> j \<and> (j - i) mod v = 0) [n * v ..< n * v + v] =
      map (\<lambda>k. k + n * v) (filter (\<lambda>k. i \<le> k + n * v \<and> (k + n * v - i) mod v = 0) [0 ..< v])"
      by (simp add: filter_map comp_def)
    also have "filter (\<lambda>k. i \<le> k + n * v \<and> (k + n * v - i) mod v = 0) [0 ..< v] = filter (\<lambda>k. k = i) [0 ..< v]"
    proof (intro filter_cong refl)
      fix k assume "k \<in> set [0 ..< v]"
      then show "(i \<le> k + n * v \<and> (k + n * v - i) mod v = 0) = (k = i)"
        using z [of k] by (cases "i \<le> k + n * v") auto
    qed
    also have "\<dots> = [i]"
    proof -
      have "[0 ..< v] = [0 ..< i] @ i # [Suc i ..< v]" using assms by (metis upt_conv_Cons upt_add_eq_append less_imp_add_positive le0 le_add2 add_0)
      moreover have "filter (\<lambda>k. k = i) [0 ..< i] = []" "filter (\<lambda>k. k = i) [Suc i ..< v] = []"
        by (auto simp: filter_empty_conv)
      ultimately show ?thesis by simp
    qed
    finally show ?thesis by simp
  qed
  have "[0 ..< Suc n * v] = [0 ..< n * v] @ [n * v ..< n * v + v]"
    using upt_add_eq_append [OF le0, of "n * v" v] by (simp add: add.commute)
  then show ?case using Suc last by simp
qed simp

lemma stride_get_eq:
  assumes "i < v" "length xs = n * v"
  shows "stride_get i v xs = map (\<lambda>k. xs ! (k * v + i)) [0 ..< n]"
  by (simp add: stride_get_def assms(2) stride_indices [OF assms(1)] comp_def)

lemma stride_set_nth:
  assumes "i < v" "length xs = n * v" "k < n" "m < v"
  shows "stride_set i v ys xs ! (k * v + m) = (if m = i then ys ! k else xs ! (k * v + m))"
proof -
  have l: "k * v + m < length xs"
  proof -
    have "k * v + m < (k + 1) * v" using assms(4) by simp
    also have "\<dots> \<le> n * v" using assms(3) by (intro mult_right_mono) auto
    finally show ?thesis using assms(2) by simp
  qed
  have "(i \<le> k * v + m \<and> (k * v + m - i) mod v = 0) \<longleftrightarrow> m = i"
  proof
    assume a: "i \<le> k * v + m \<and> (k * v + m - i) mod v = 0"
    then have "(k * v + m - i + i) mod v = (0 + i) mod v" by (metis mod_add_left_eq)
    then show "m = i" using a assms by simp
  qed simp
  then show ?thesis using l assms by (simp add: stride_set_def)
qed

lemma stride_set_length [simp]: "length (stride_set i v ys xs) = length xs"
  by (simp add: stride_set_def)

lemma or_fold_nth:
  assumes "\<And>i. length (g i) = n" "length a = n" "k < n"
  shows "length (foldl (\<lambda>p i. map2 (OR) p (g i)) a is) = n \<and>
    foldl (\<lambda>p i. map2 (OR) p (g i)) a is ! k = foldl (\<lambda>w i. w OR g i ! k) (a ! k :: byte) is"
  using assms(2)
  by (induction "is" arbitrary: a) (simp_all add: assms(1,3))

lemma or_fold_length:
  "(\<And>i. length (g i) = n) \<Longrightarrow> length a = n \<Longrightarrow> length (foldl (\<lambda>p i. map2 (OR) p (g i :: byte list)) a is) = n"
  by (induction "is" arbitrary: a) simp_all

lemma set_fold_length: "length (foldl (\<lambda>u i. stride_set i v (g i) u) u is) = length u"
  by (induction "is" arbitrary: u) simp_all

lemma set_fold_nth:
  assumes "length u = n * v" "k < n" "m < v"
  shows "l \<le> v \<Longrightarrow> length (foldl (\<lambda>u i. stride_set i v (g i) u) u [0 ..< l]) = n * v \<and>
    foldl (\<lambda>u i. stride_set i v (g i) u) u [0 ..< l] ! (k * v + m) =
      (if m < l then g m ! k else u ! (k * v + m))"
proof (induction l)
  case (Suc l)
  define u' where "u' = foldl (\<lambda>u i. stride_set i v (g i) u) u [0 ..< l]"
  have IH: "length u' = n * v" "u' ! (k * v + m) = (if m < l then g m ! k else u ! (k * v + m))"
    using Suc by (simp_all add: u'_def)
  have "stride_set l v (g l) u' ! (k * v + m) = (if m = l then g l ! k else u' ! (k * v + m))"
    using Suc.prems IH assms by (intro stride_set_nth) simp_all
  then show ?case using IH by (auto simp flip: u'_def)
qed (simp add: assms)

section \<open>The round trip\<close>

text \<open>Codes that fit in \<open>bits\<close> bits.\<close>

definition codes_fit :: "int \<Rightarrow> byte list \<Rightarrow> bool" where
  "codes_fit bits codes \<longleftrightarrow> (\<forall>c \<in> set codes. uint c < 2 ^ nat bits)"

lemma fit_bit: "uint (c :: byte) < 2 ^ b \<Longrightarrow> bit c t \<Longrightarrow> t < b"
proof (rule ccontr)
  assume c: "uint c < 2 ^ b" "bit c t" "\<not> t < b"
  have "take_bit b (uint c) = uint c" using c(1) by (simp add: take_bit_eq_mod)
  moreover have "bit (uint c) t" using c(2) bit_imp_le_length [OF c(2)] by (simp add: bit_uint_iff)
  ultimately have "bit (take_bit b (uint c)) t" by simp
  then show False using c(3) by (simp add: bit_take_bit_iff)
qed

lemma bit_or_fold: "bit (foldl (\<lambda>w i. w OR h i) a is :: byte) t \<longleftrightarrow> bit a t \<or> (\<exists>i \<in> set is. bit (h i) t)"
  by (induction "is" arbitrary: a) (auto simp: bit_or_iff)

lemma byte_mask_bit: "bit (2 ^ b - 1 :: byte) t \<longleftrightarrow> t < b \<and> t < 8"
proof -
  have "(2 ^ b - 1 :: byte) = mask b" by (simp add: mask_eq_exp_minus_1)
  then show ?thesis by (simp add: bit_mask_iff) auto
qed

lemma byte_field:
  fixes c :: "nat \<Rightarrow> byte"
  assumes "\<And>i. i < v \<Longrightarrow> uint (c i) < 2 ^ b" "m < v" "v * b \<le> 8"
  shows "drop_bit (m * b) (foldl (\<lambda>w i. w OR push_bit (i * b) (c i)) 0 [0 ..< v]) AND (2 ^ b - 1) = c m"
proof (rule bit_word_eqI)
  fix t assume t: "t < LENGTH(8)"
  have room: "m * b + t < 8" if "t < b"
  proof -
    have "m * b + b \<le> v * b" using assms(2) by (metis Suc_leI mult_le_mono1 mult_Suc add.commute)
    then show ?thesis using that assms(3) by linarith
  qed
  have "(\<exists>i \<in> set [0 ..< v]. bit (push_bit (i * b) (c i)) (m * b + t)) \<longleftrightarrow> bit (c m) t" if tb: "t < b"
  proof
    assume "\<exists>i \<in> set [0 ..< v]. bit (push_bit (i * b) (c i)) (m * b + t)"
    then obtain i where i: "i < v" "i * b \<le> m * b + t" "bit (c i) (m * b + t - i * b)"
      by (auto simp: bit_push_bit_iff)
    have "m * b + t - i * b < b" using fit_bit [OF assms(1) [OF i(1)] i(3)] .
    then have lt: "m * b + t < i * b + b" using i(2) by linarith
    have "m = i"
    proof (rule ccontr)
      assume "m \<noteq> i"
      then consider "Suc m \<le> i" | "Suc i \<le> m" by linarith
      then show False
      proof cases
        case 1
        then have "Suc m * b \<le> i * b" by (rule mult_le_mono1)
        then show False using i(2) tb by simp
      next
        case 2
        then have "Suc i * b \<le> m * b" by (rule mult_le_mono1)
        then show False using lt by simp
      qed
    qed
    then show "bit (c m) t" using i(3) by simp
  next
    assume "bit (c m) t"
    then show "\<exists>i \<in> set [0 ..< v]. bit (push_bit (i * b) (c i)) (m * b + t)"
      using room [OF tb] assms(2) by (intro bexI [of _ m]) (auto simp: bit_push_bit_iff)
  qed
  moreover have "t < b" if "bit (c m) t" using fit_bit [OF assms(1) [OF assms(2)] that] .
  ultimately show "bit (drop_bit (m * b) (foldl (\<lambda>w i. w OR push_bit (i * b) (c i)) 0 [0 ..< v]) AND
      (2 ^ b - 1)) t = bit (c m) t"
    using t by (auto simp: bit_and_iff bit_drop_bit_eq bit_or_fold byte_mask_bit)
qed

lemma per_byte:
  assumes "1 \<le> bits" "bits \<le> 8"
  shows "0 < nat (8 div bits)" "nat (8 div bits) * nat bits \<le> 8" "int (nat (8 div bits)) = 8 div bits"
  using int_1_to_8 [OF assms] by auto

lemma pad_length:
  assumes "0 < v"
  shows "length (if length xs mod v \<noteq> 0 then xs @ replicate (v - length xs mod v) x else xs) =
    ((length xs + v - 1) div v) * v"
proof (cases "length xs mod v = 0")
  case True
  then obtain q where q: "length xs = v * q" by auto
  have "v * q + v - 1 = (v - 1) + v * q" using assms by simp
  then have "(v * q + v - 1) div v = q" using assms by (simp only: div_mult_self2) simp
  then show ?thesis using True q by (simp add: mult.commute)
next
  case False
  define q where "q = length xs div v"
  obtain r where r: "length xs mod v = Suc r" using False by (cases "length xs mod v") auto
  have l: "length xs = q * v + Suc r" unfolding q_def r [symmetric] by simp
  have rv: "Suc r < v" using mod_less_divisor [OF assms, of "length xs"] by (simp add: r)
  have "length xs + v - 1 = r + v * (q + 1)" using l by simp
  moreover have "(r + v * (q + 1)) div v = (q + 1) + r div v"
    by (rule div_mult_self2) (use assms in simp)
  ultimately have "(length xs + v - 1) div v = q + 1" using rv by (simp only: div_less Suc_lessD add_0_right)
  moreover have "length xs + (v - Suc r) = (q + 1) * v" using l rv by simp
  ultimately show ?thesis using False by (simp add: r)
qed

text \<open>Unpacking in closed form: code \<open>j\<close> is a bit field of byte \<open>j div v\<close>.\<close>

definition code_at :: "bytes \<Rightarrow> int \<Rightarrow> nat \<Rightarrow> byte" where
  "code_at packed bits j =
     (let v = nat (8 div bits) in
      drop_bit ((j mod v) * nat bits) (packed ! (j div v)) AND word_of_int (2 ^ nat bits - 1))"

lemma unpack_tensor_eq:
  assumes b: "1 \<le> bits" "bits \<le> 8"
  shows "unpack_tensor packed bits n =
    (if n \<le> length packed * nat (8 div bits) then Inr (map (code_at packed bits) [0 ..< n]) else Inl RuntimeError)"
proof -
  define v where "v = nat (8 div bits)"
  have v: "0 < v" using per_byte(1) [OF b] by (simp add: v_def)
  define h where "h = (\<lambda>i. map (\<lambda>w. drop_bit (i * nat bits) w AND word_of_int (2 ^ nat bits - 1)) packed)"
  define u where "u = foldl (\<lambda>u i. stride_set i v (h i) u) (replicate (length packed * v) 0) [0 ..< v]"
  have u: "length u = length packed * v" by (simp add: u_def set_fold_length)
  have "u = map (code_at packed bits) [0 ..< length packed * v]"
  proof (rule nth_equalityI)
    fix j assume "j < length u"
    then have j: "j < length packed * v" "j div v < length packed" using u by (simp_all add: less_mult_imp_div_less)
    have "u ! (j div v * v + j mod v) = h (j mod v) ! (j div v)"
      unfolding u_def
      using set_fold_nth [of "replicate (length packed * v) 0" "length packed" v "j div v" "j mod v" v h] j v by simp
    then show "u ! j = map (code_at packed bits) [0 ..< length packed * v] ! j"
      using j by (simp add: h_def code_at_def Let_def flip: v_def)
  qed (simp add: u)
  moreover have "unpack_tensor packed bits n =
    (if length (take n u) = n then Inr (take n u) else Inl RuntimeError)"
    using b by (simp add: unpack_tensor_def Let_def u_def h_def flip: v_def)
  ultimately show ?thesis by (auto simp: take_map v_def min_def)
qed

lemma code_at_drop:
  assumes b: "1 \<le> bits" "bits \<le> 8" and j: "j < n * nat (8 div bits)" and l: "k + n \<le> length packed"
  shows "code_at (take n (drop k packed)) bits j = code_at packed bits (k * nat (8 div bits) + j)"
proof -
  have "j div nat (8 div bits) < n" using j by (simp add: less_mult_imp_div_less)
  moreover have "(k * nat (8 div bits) + j) div nat (8 div bits) = k + j div nat (8 div bits)"
    using per_byte(1) [OF b] by simp
  ultimately show ?thesis using l by (simp add: code_at_def Let_def)
qed

text \<open>The code at position \<open>j\<close>, 0 in the padding.\<close>

definition code_or_0 :: "byte list \<Rightarrow> nat \<Rightarrow> byte" where
  "code_or_0 codes j = (if j < length codes then codes ! j else 0)"

definition packed_byte :: "byte list \<Rightarrow> int \<Rightarrow> nat \<Rightarrow> byte" where
  "packed_byte codes bits k = (let v = nat (8 div bits) in
     foldl (\<lambda>w i. w OR push_bit (i * nat bits) (code_or_0 codes (k * v + i))) 0 [0 ..< v])"

lemma pack_tensor_eq:
  assumes b: "1 \<le> bits" "bits \<le> 8"
  shows "pack_tensor codes bits = Inr (map (packed_byte codes bits)
    [0 ..< (length codes + nat (8 div bits) - 1) div nat (8 div bits)])"
proof -
  define v where "v = nat (8 div bits)"
  define n where "n = (length codes + v - 1) div v"
  define flat where "flat = (if length codes mod v \<noteq> 0
    then codes @ replicate (v - length codes mod v) 0 else codes)"
  note pb = per_byte [OF b, folded v_def]
  have flat: "length flat = n * v" unfolding flat_def n_def by (rule pad_length [OF pb(1)])
  have flat_nth: "flat ! j = code_or_0 codes j" if "j < length flat" for j
    using that by (auto simp: flat_def nth_append code_or_0_def split: if_splits)
  define packed where "packed = foldl (\<lambda>p i. map2 (OR) p (map (push_bit (i * nat bits)) (stride_get i v flat)))
    (replicate n 0) [0 ..< v]"
  have pack: "pack_tensor codes bits = Inr packed"
    using b pb(1) flat by (simp add: pack_tensor_def Let_def packed_def flat_def flip: v_def)
  have folded: "packed = foldl (\<lambda>p i. map2 (OR) p (if i < v then map (push_bit (i * nat bits)) (stride_get i v flat)
      else replicate n 0)) (replicate n 0) [0 ..< v]"
    unfolding packed_def by (rule foldl_cong) auto
  have len_i: "length (if i < v then map (push_bit (i * nat bits)) (stride_get i v flat) else replicate n 0) = n" for i
    by (simp add: stride_get_eq [OF _ flat])
  have idx: "k * v + m < length flat" if "k < n" "m < v" for k m
  proof -
    have "k * v + m < (k + 1) * v" using that by simp
    also have "\<dots> \<le> n * v" using that by (intro mult_right_mono) auto
    finally show ?thesis using flat by simp
  qed
  have plen: "length packed = n" unfolding folded by (rule or_fold_length [OF len_i]) simp
  have pnth: "packed ! k = packed_byte codes bits k" if k: "k < n" for k
  proof -
    have "packed ! k = foldl (\<lambda>w i. w OR (if i < v then map (push_bit (i * nat bits)) (stride_get i v flat)
      else replicate n 0) ! k) (replicate n 0 ! k) [0 ..< v]"
      unfolding folded using or_fold_nth [OF len_i, where a = "replicate n 0" and k = k and ?is = "[0 ..< v]"] k by simp
    also have "\<dots> = packed_byte codes bits k"
      unfolding packed_byte_def Let_def v_def [symmetric]
      using k by (intro foldl_cong) (auto simp: stride_get_eq [OF _ flat] flat_nth [OF idx])
    finally show ?thesis .
  qed
  have "packed = map (packed_byte codes bits) [0 ..< n]"
    by (rule nth_equalityI) (simp_all add: plen pnth)
  then show ?thesis by (simp add: pack n_def v_def)
qed

text \<open>A run of whole bytes packs on its own.\<close>

lemma pack_tensor_append:
  assumes b: "1 \<le> bits" "bits \<le> 8" and d: "nat (8 div bits) dvd length xs"
  shows "pack_tensor (xs @ ys) bits = bindE (pack_tensor xs bits) (\<lambda>p. bindE (pack_tensor ys bits) (\<lambda>q. Inr (p @ q)))"
proof -
  define v where "v = nat (8 div bits)"
  note v = per_byte(1) [OF b, folded v_def]
  obtain m where m: "length xs = m * v" using d unfolding v_def by (metis dvd_def mult.commute)
  define n where "n = (length ys + v - 1) div v"
  have lx: "(length xs + v - 1) div v = m"
  proof -
    have e: "length xs + v - 1 = (v - 1) + m * v" using v by (simp add: m)
    have "((v - 1) + m * v) div v = m + (v - 1) div v" using v by (intro div_mult_self1) simp
    then show ?thesis unfolding e using v by simp
  qed
  have ly: "(length (xs @ ys) + v - 1) div v = m + n"
  proof -
    have e: "length (xs @ ys) + v - 1 = (length ys + v - 1) + m * v" using v by (simp add: m)
    have "((length ys + v - 1) + m * v) div v = m + (length ys + v - 1) div v" using v by (intro div_mult_self1) simp
    then show ?thesis unfolding e by (simp only: n_def)
  qed
  have px: "packed_byte (xs @ ys) bits k = packed_byte xs bits k" if "k < m" for k
  proof -
    have "k * v + i < length xs" if "i < v" for i
    proof -
      have "k * v + i < (k + 1) * v" using that by simp
      also have "\<dots> \<le> m * v" using \<open>k < m\<close> by (intro mult_right_mono) auto
      finally show ?thesis by (simp add: m)
    qed
    then have "code_or_0 (xs @ ys) (k * v + i) = code_or_0 xs (k * v + i)" if "i < v" for i
      using that by (simp add: code_or_0_def nth_append trans_less_add1)
    then show ?thesis unfolding packed_byte_def Let_def v_def [symmetric]
      by (intro foldl_cong) simp_all
  qed
  have cy: "code_or_0 (xs @ ys) ((m + k) * v + i) = code_or_0 ys (k * v + i)" for k i
    by (simp add: code_or_0_def nth_append m distrib_right add.assoc)
  have py: "packed_byte (xs @ ys) bits (m + k) = packed_byte ys bits k" for k
    unfolding packed_byte_def Let_def v_def [symmetric]
    by (intro foldl_cong) (simp_all add: cy)
  have "map (packed_byte (xs @ ys) bits) [0 ..< m + n] =
    map (packed_byte xs bits) [0 ..< m] @ map (packed_byte ys bits) [0 ..< n]"
    by (rule nth_equalityI) (auto simp: nth_append px py [symmetric])
  then show ?thesis
    unfolding pack_tensor_eq [OF b] bindE_simps v_def [symmetric] lx ly n_def [symmetric] by simp
qed

theorem pack_unpack:
  assumes b: "1 \<le> bits" "bits \<le> 8" and fit: "codes_fit bits codes"
  shows "\<exists>packed. pack_tensor codes bits = Inr packed \<and>
    int (length packed) = ceil_div (int (length codes)) (8 div bits) \<and>
    unpack_tensor packed bits (length codes) = Inr codes"
proof -
  define v where "v = nat (8 div bits)"
  define n where "n = (length codes + v - 1) div v"
  note pb = per_byte [OF b, folded v_def]
  define packed where "packed = map (packed_byte codes bits) [0 ..< n]"
  have pack: "pack_tensor codes bits = Inr packed"
    unfolding pack_tensor_eq [OF b] packed_def n_def v_def ..
  have len: "int n = ceil_div (int (length codes)) (8 div bits)"
    using pb(1) by (simp add: n_def ceil_div_alt of_nat_diff zdiv_int flip: pb(3))
  have "int (length codes) \<le> int (n * v)"
    using ceil_div_ge [of "8 div bits" "int (length codes)"] pb(1,3) by (simp add: len)
  then have le: "length codes \<le> length packed * v" by (simp only: of_nat_le_iff packed_def length_map length_upt diff_zero)
  have fit0: "uint (code_or_0 codes j) < 2 ^ nat bits" for j
    using fit nth_mem [of j codes] by (auto simp: code_or_0_def codes_fit_def)
  have code: "code_at packed bits j = codes ! j" if j: "j < length codes" for j
  proof -
    have k: "j div v < n" using j le pb(1) by (simp add: packed_def less_mult_imp_div_less)
    have "code_at packed bits j = drop_bit (j mod v * nat bits) (foldl (\<lambda>w i. w OR push_bit (i * nat bits)
        (code_or_0 codes (j div v * v + i))) 0 [0 ..< v]) AND (2 ^ nat bits - 1)"
      using k by (simp add: code_at_def packed_def packed_byte_def Let_def flip: v_def)
    also have "\<dots> = code_or_0 codes (j div v * v + j mod v)"
      by (rule byte_field) (use fit0 pb in simp_all)
    finally show ?thesis using j by (simp add: code_or_0_def)
  qed
  have "map (code_at packed bits) [0 ..< length codes] = codes"
    by (rule nth_equalityI) (simp_all add: code)
  then have "unpack_tensor packed bits (length codes) = Inr codes"
    using le by (simp add: unpack_tensor_eq [OF b] flip: v_def)
  then show ?thesis using pack len by (simp add: packed_def)
qed

section \<open>Properties\<close>

text \<open>C25: Packing and unpacking are inverse at every width from 1 to 8 bits, also where the width does
  not divide 8 and bits of each byte stay unused, for any number of codes; the packed length is
  the ceiling of the codes over the codes of a byte.\<close>

theorem pack_round_trip:
  assumes "1 \<le> bits" "bits \<le> 8" "\<forall>c \<in> set codes. uint c < 2 ^ nat bits"
  shows "\<exists>packed. pack_tensor codes bits = Inr packed \<and>
    int (length packed) = (int (length codes) + 8 div bits - 1) div (8 div bits) \<and>
    unpack_tensor packed bits (length codes) = Inr codes"
  using pack_unpack [OF assms(1,2), of codes] assms(3) ceil_div_alt [of "8 div bits"] disk_bits_mult(5) [OF assms(1,2)]
  by (auto simp: codes_fit_def)

theorem pack_round_trip_witness:
  "\<exists>packed. pack_tensor [5, 0, 7] 3 = Inr packed \<and> length packed = 2 \<and> unpack_tensor packed 3 3 = Inr [5, 0, 7]"
proof -
  have l: "length [5, 0, 7 :: byte] = 3" by simp
  obtain packed where "pack_tensor [5, 0, 7] 3 = Inr packed" "int (length packed) = (int 3 + 8 div 3 - 1) div (8 div 3)"
    "unpack_tensor packed 3 3 = Inr [5, 0, 7]"
    using pack_round_trip [of 3 "[5, 0, 7]"] unfolding l by auto
  then show ?thesis by auto
qed

text \<open>C14: \<open>_pack_tensor\<close> accepts every width below 16, but the widths from 9 to 15 divide by
  zero, because no value of that width fits in the byte it packs into.\<close>

theorem pack_wide_raises:
  assumes "9 \<le> bits" "bits < 16"
  shows "pack_tensor codes bits = Inl ZeroDivisionError"
proof -
  have "8 div bits = 0" using assms by simp
  then show ?thesis using assms by (simp add: pack_tensor_def)
qed

theorem pack_wide_raises_witness: "pack_tensor [1] 12 = Inl ZeroDivisionError"
  by (rule pack_wide_raises) simp_all

end
