(* ===== verification/Quantize.thy ===== *)
theory Quantize
  imports QuantPack
begin

text \<open>
  The round-to-nearest quantizer of \<open>quantizers/rtn.py\<close>, the serialisation of its result by
  \<open>package/writer.py\<close> and the decode path of \<open>package/decode.py\<close>. torch is not part of the
  sources: its float32 rounding, its conversion to float16 and its float arithmetic are
  parameters, bundled in records, over finite weights. The packed codes, their bytes and every
  size are concrete.
\<close>

section \<open>The torch operations the code relies on\<close>

text \<open>\<open>rnd32\<close> is the rounding of an exact result to float32, \<open>to_half\<close> the conversion to a
  float16 bit pattern.\<close>

record torch_quant =
  rnd32 :: "rat \<Rightarrow> rat"
  to_half :: "rat \<Rightarrow> 16 word"

text \<open>Arithmetic in the target dtype of a reconstruction, whose values are of type \<open>'f\<close>.\<close>

record 'f torch_deq =
  of_code :: "byte \<Rightarrow> 'f"
  of_half :: "16 word \<Rightarrow> 'f"
  of_pyint :: "int \<Rightarrow> 'f"
  tsub :: "'f \<Rightarrow> 'f \<Rightarrow> 'f"
  tmul :: "'f \<Rightarrow> 'f \<Rightarrow> 'f"

record quantized =
  qz_packed :: bytes
  qz_scales :: "16 word list"
  qz_zeros :: "16 word list option"
  qz_bits :: int
  qz_group_size :: int
  qz_shape :: "int list"

section \<open>Quantizing\<close>

definition clamp :: "rat \<Rightarrow> rat \<Rightarrow> rat \<Rightarrow> rat" where
  "clamp x lo hi = min (max x lo) hi"

text \<open>\<open>max_int = (1 << bits) - 1\<close>\<close>

definition max_int :: "int \<Rightarrow> int" where
  "max_int bits = 2 ^ nat bits - 1"

text \<open>One group: its codes, its scale and its zero point.\<close>

definition quantize_group :: "torch_quant \<Rightarrow> int \<Rightarrow> bool \<Rightarrow> rat list \<Rightarrow> byte list \<times> rat \<times> rat" where
  "quantize_group t bits symmetric ws =
     (let mi = max_int bits; r = rnd32 t in
      if symmetric then
        let w_max = fold max (map abs ws) 0;
            scale = max (r (w_max / (of_int mi / 2))) (r (1 / 10 ^ 8));
            half = of_int (mi div 2);
            q = map (\<lambda>w. r (clamp (of_int (py_round (r (w / scale)))) (- half) half + half)) ws in
        (map (\<lambda>x. word_of_int (py_int x)) q, scale, 0)
      else
        let w_min = fold min (tl ws) (hd ws); w_max = fold max (tl ws) (hd ws);
            scale = max (r (r (w_max - w_min) / of_int mi)) (r (1 / 10 ^ 8));
            zero = of_int (py_round (r (- w_min / scale)));
            q = map (\<lambda>w. clamp (r (of_int (py_round (r (w / scale))) + zero)) 0 (of_int mi)) ws in
        (map (\<lambda>x. word_of_int (py_int x)) q, scale, zero))"

text \<open>\<open>view(-1, n)\<close>\<close>

function chunks :: "nat \<Rightarrow> 'a list \<Rightarrow> 'a list list" where
  "chunks n xs = (if n = 0 \<or> xs = [] then [] else take n xs # chunks n (drop n xs))"
  by pat_completeness auto
termination by (relation "measure (\<lambda>(n, xs). length xs)") auto

declare chunks.simps [simp del]

definition pad_k :: "int \<Rightarrow> int \<Rightarrow> int" where
  "pad_k in_features group_size = (group_size - in_features mod group_size) mod group_size"

text \<open>A weight is its shape and its elements in row-major order.\<close>

definition quantize :: "torch_quant \<Rightarrow> int \<Rightarrow> int \<Rightarrow> bool \<Rightarrow> int list \<Rightarrow> rat list \<Rightarrow> quantized result" where
  "quantize t bits group_size0 symmetric shape weights =
     (if shape = [] then Inl IndexError
      else if last shape \<le> 0 \<or> \<not> last shape dvd int (length weights) then Inl RuntimeError
      else
        let in_features = last shape;
            group_size = (if 0 < group_size0 then group_size0 else in_features);
            pad = nat (pad_k in_features group_size);
            rows = map (\<lambda>row. row @ replicate pad 0) (chunks (nat in_features) weights);
            groups = concat (map (chunks (nat group_size)) rows);
            qs = map (quantize_group t bits symmetric) groups in
        bindE (pack_tensor (concat (map fst qs)) bits) (\<lambda>packed.
        Inr \<lparr>qz_packed = packed, qz_scales = map (\<lambda>g. to_half t (fst (snd g))) qs,
             qz_zeros = (if symmetric then None else Some (map (\<lambda>g. to_half t (snd (snd g))) qs)),
             qz_bits = bits, qz_group_size = group_size0, qz_shape = shape\<rparr>))"

section \<open>Dequantizing\<close>

definition deq_value :: "'f torch_deq \<Rightarrow> int \<Rightarrow> 16 word \<Rightarrow> 16 word option \<Rightarrow> byte \<Rightarrow> 'f" where
  "deq_value t bits scale zero code =
     (case zero of
        Some z \<Rightarrow> tmul t (tsub t (of_code t code) (of_half t z)) (of_half t scale)
      | None \<Rightarrow> tmul t (tsub t (of_code t code) (of_pyint t (max_int bits div 2))) (of_half t scale))"

text \<open>The result is the row-major list of rows, each cut back to \<open>in_features\<close>.\<close>

definition dequantize :: "'f torch_deq \<Rightarrow> quantized \<Rightarrow> 'f list list result" where
  "dequantize t q =
     (let (out_features, in_features) = matrix_dims (qz_shape q);
          group_size = (if 0 < qz_group_size q then qz_group_size q else in_features) in
      if group_size = 0 then Inl ZeroDivisionError
      else
        let padded = in_features + pad_k in_features group_size;
            num_groups = padded div group_size in
        bindE (unpack_tensor (qz_packed q) (qz_bits q) (nat (out_features * padded))) (\<lambda>unpacked.
        let grouped = chunks (nat group_size) unpacked; n = nat (out_features * num_groups) in
        if length (qz_scales q) \<noteq> n \<or> length (case qz_zeros q of None \<Rightarrow> qz_scales q | Some z \<Rightarrow> z) \<noteq> n
        then Inl RuntimeError
        else
          let w_deq = map (\<lambda>i. map (deq_value t (qz_bits q) (qz_scales q ! i)
                  (map_option (\<lambda>z. z ! i) (qz_zeros q))) (grouped ! i)) [0 ..< n] in
          Inr (map (take (nat in_features)) (chunks (nat padded) (concat w_deq)))))"

section \<open>Bytes\<close>

text \<open>float16 values are stored little-endian.\<close>

definition half_bytes :: "16 word \<Rightarrow> bytes" where
  "half_bytes w = [ucast w, ucast (drop_bit 8 w)]"

definition half_of_bytes :: "bytes \<Rightarrow> 16 word" where
  "half_of_bytes b = ucast (b ! 0) OR push_bit 8 (ucast (b ! 1))"

text \<open>\<open>torch.frombuffer\<close> refuses an empty buffer and one of a fractional element count.\<close>

definition frombuffer :: "bytes \<Rightarrow> bytes result" where
  "frombuffer raw = (if raw = [] then Inl ValueError else Inr raw)"

definition halves_of_bytes :: "bytes \<Rightarrow> 16 word list result" where
  "halves_of_bytes raw =
     (if raw = [] \<or> length raw mod 2 \<noteq> 0 then Inl ValueError
      else Inr (map half_of_bytes (chunks 2 raw)))"

definition section_bytes :: "quantized \<Rightarrow> section_kind \<Rightarrow> bytes result" where
  "section_bytes q sec =
     (case sec of
        PACKED \<Rightarrow> Inr (qz_packed q)
      | SCALES \<Rightarrow> Inr (concat (map half_bytes (qz_scales q)))
      | ZEROS \<Rightarrow> (case qz_zeros q of None \<Rightarrow> Inl WriteError | Some z \<Rightarrow> Inr (concat (map half_bytes z))))"

fun sections_to_bytes :: "quantized \<Rightarrow> section_span list \<Rightarrow> bytes result" where
  "sections_to_bytes q [] = Inr []"
| "sections_to_bytes q (s # spans) =
     bindE (section_bytes q (sp_section s)) (\<lambda>raw.
     if int (length raw) \<noteq> sp_length s then Inl WriteError
     else bindE (sections_to_bytes q spans) (\<lambda>rest. Inr (raw @ rest)))"

section \<open>Decoding a record\<close>

text \<open>\<open>{span.section: span for span in spans}\<close>: a later span of the same section wins.\<close>

definition by_section :: "section_span list \<Rightarrow> section_kind \<Rightarrow> section_span option" where
  "by_section spans sec = find_span (rev spans) sec"

definition read_section :: "bytes \<Rightarrow> section_span list \<Rightarrow> int \<Rightarrow> section_kind \<Rightarrow> bytes option result" where
  "read_section payload spans base_offset sec =
     (case by_section spans sec of
        None \<Rightarrow> Inr None
      | Some s \<Rightarrow>
          let start = base_offset + sp_offset s; raw = py_slice payload start (start + sp_length s) in
          if int (length raw) \<noteq> sp_length s then Inl DecodeError else Inr (Some raw))"

definition halvesE :: "bytes option \<Rightarrow> 16 word list option result" where
  "halvesE r = (case r of None \<Rightarrow> Inr None | Some raw \<Rightarrow> bindE (halves_of_bytes raw) (\<lambda>h. Inr (Some h)))"

definition num_elements :: "int list \<Rightarrow> int" where
  "num_elements shape = fold (\<lambda>d total. total * d) shape 1"

text \<open>The quantized branch of \<open>decode_record\<close>; a missing SCALES section fails in
  \<open>dequantize\<close> on \<open>None\<close>.\<close>

definition decode_quantized :: "'f torch_deq \<Rightarrow> bytes \<Rightarrow> int list \<Rightarrow> int \<Rightarrow> int \<Rightarrow> bool \<Rightarrow>
    section_span list \<Rightarrow> int \<Rightarrow> 'f list list result" where
  "decode_quantized t payload shape bits group_size symmetric spans base_offset =
     (if by_section spans PACKED = None then Inl DecodeError
      else
        bindE (read_section payload spans base_offset PACKED) (\<lambda>praw. bindE (frombuffer (the praw)) (\<lambda>p.
        bindE (read_section payload spans base_offset SCALES) (\<lambda>sraw. bindE (halvesE sraw) (\<lambda>s.
        bindE (read_section payload spans base_offset ZEROS) (\<lambda>zraw. bindE (halvesE zraw) (\<lambda>z.
        if \<not> symmetric \<and> z = None then Inl DecodeError
        else case s of None \<Rightarrow> Inl AttributeError
          | Some scales \<Rightarrow> dequantize t
              \<lparr>qz_packed = p, qz_scales = scales, qz_zeros = z, qz_bits = bits,
               qz_group_size = group_size, qz_shape = shape\<rparr>)))))))"

definition decode_record :: "'f torch_deq \<Rightarrow> bytes \<Rightarrow> int list \<Rightarrow> pyfloat \<Rightarrow> int \<Rightarrow> bool \<Rightarrow>
    section_span list option \<Rightarrow> int \<Rightarrow> 'f list list result" where
  "decode_record t payload shape bits group_size symmetric spans base_offset =
     (if 16 \<le> bits then
        let want = num_elements shape * 2;
            raw = py_slice payload base_offset (base_offset + want) in
        if int (length raw) \<noteq> want then Inl DecodeError
        else bindE (halves_of_bytes raw) (\<lambda>h.
          Inr (chunks (nat (snd (matrix_dims shape))) (map (of_half t) h)))
      else
        bindE (case spans of Some sp \<Rightarrow> Inr sp
               | None \<Rightarrow> section_spans shape bits group_size symmetric 2 2) (\<lambda>sps.
        decode_quantized t payload shape (py_int bits) group_size symmetric sps base_offset))"

section \<open>Chunks\<close>

lemma chunks_Nil [simp]: "chunks n [] = []"
  by (simp add: chunks.simps)

lemma chunks_append:
  "0 < n \<Longrightarrow> length xs = n \<Longrightarrow> chunks n (xs @ ys) = xs # chunks n ys"
  by (subst chunks.simps) auto

lemma chunks_concat:
  assumes "0 < n" "\<forall>x \<in> set xss. length x = n"
  shows "chunks n (concat xss) = xss"
  using assms(2) by (induction xss) (simp_all add: chunks_append assms(1))

lemma chunks_split:
  assumes "0 < n" "length xs = k * n"
  shows "concat (chunks n xs) = xs \<and> length (chunks n xs) = k \<and> (\<forall>x \<in> set (chunks n xs). length x = n)"
  using assms(2)
proof (induction k arbitrary: xs)
  case (Suc k)
  then have "chunks n xs = take n xs # chunks n (drop n xs)"
    using assms(1) by (subst chunks.simps) auto
  then show ?case using Suc.IH [of "drop n xs"] Suc.prems by simp
qed simp

lemma chunks_cut:
  assumes "0 < n" "length xs = k * n" "i < k"
  shows "chunks n xs ! i = take n (drop (i * n) xs)"
  using assms(2,3)
proof (induction k arbitrary: xs i)
  case (Suc k)
  have c: "chunks n xs = take n xs # chunks n (drop n xs)"
    using assms(1) Suc.prems by (subst chunks.simps) auto
  show ?case
  proof (cases i)
    case (Suc j)
    then show ?thesis using Suc.IH [of "drop n xs" j] Suc.prems c by (simp add: add.commute)
  qed (simp add: c)
qed simp

lemma length_concat_const: "\<forall>x \<in> set xss. length x = n \<Longrightarrow> length (concat xss) = length xss * n"
  by (induction xss) simp_all

lemma half_round_trip [simp]: "half_of_bytes (half_bytes w) = w"
proof (rule bit_word_eqI)
  fix t assume "t < LENGTH(16)"
  then show "bit (half_of_bytes (half_bytes w)) t = bit w t"
    by (auto simp: half_of_bytes_def half_bytes_def bit_or_iff bit_push_bit_iff bit_ucast_iff bit_drop_bit_eq)
qed

lemma length_half_bytes [simp]: "length (half_bytes w) = 2"
  by (simp add: half_bytes_def)

lemma halves_round_trip: "hs \<noteq> [] \<Longrightarrow> halves_of_bytes (concat (map half_bytes hs)) = Inr hs"
proof -
  assume ne: "hs \<noteq> []"
  have "chunks 2 (concat (map half_bytes hs)) = map half_bytes hs" by (rule chunks_concat) auto
  moreover have "length (concat (map half_bytes hs)) = length hs * 2"
    using length_concat_const [of "map half_bytes hs" 2] by simp
  moreover have "concat (map half_bytes hs) \<noteq> []" using ne by (cases hs) (simp_all add: half_bytes_def)
  ultimately show ?thesis by (simp add: halves_of_bytes_def comp_def)
qed

section \<open>Codes stay in range\<close>

text \<open>float32 is exact on the integers the quantizer adds.\<close>

definition rnd_ok :: "torch_quant \<Rightarrow> bool" where
  "rnd_ok t \<longleftrightarrow> (\<forall>n. \<bar>n\<bar> \<le> 2 ^ 24 \<longrightarrow> rnd32 t (of_int n) = of_int n)"

lemma code_fit:
  assumes "0 \<le> x" "x \<le> of_int (max_int bits)" "1 \<le> bits" "bits \<le> 8"
  shows "uint (word_of_int (py_int x) :: byte) < 2 ^ nat bits"
proof -
  have m: "max_int bits < 256" "max_int bits < 2 ^ nat bits"
    using int_1_to_8 [OF assms(3,4)] by (auto simp: max_int_def)
  have "0 \<le> py_int x" "py_int x \<le> max_int bits" using assms(1,2) by (auto simp: py_int_def floor_le_iff)
  then show ?thesis using m by (simp add: unsigned_of_int take_bit_int_eq_self)
qed

lemma quantize_group_fit:
  assumes b: "1 \<le> bits" "bits \<le> 8" and r: "rnd_ok t"
  shows "codes_fit bits (fst (quantize_group t bits symm ws)) \<and> length (fst (quantize_group t bits symm ws)) = length ws"
proof (cases symm)
  case True
  let ?mi = "max_int bits"
  have mi: "0 \<le> ?mi" "?mi \<le> 255" using int_1_to_8 [OF b] by (auto simp: max_int_def)
  have "0 \<le> rnd32 t (clamp (of_int n) (- of_int (?mi div 2)) (of_int (?mi div 2)) + of_int (?mi div 2)) \<and>
    rnd32 t (clamp (of_int n) (- of_int (?mi div 2)) (of_int (?mi div 2)) + of_int (?mi div 2)) \<le> of_int ?mi" for n
  proof -
    define m where "m = min (max n (- (?mi div 2))) (?mi div 2) + ?mi div 2"
    have e: "clamp (of_int n) (- of_int (?mi div 2)) (of_int (?mi div 2)) + of_int (?mi div 2) = (of_int m :: rat)"
      by (simp add: m_def clamp_def min_def max_def)
    have "0 \<le> m" "m \<le> ?mi" using mi by (auto simp: m_def min_def max_def)
    moreover from this have "rnd32 t (of_int m) = of_int m" using r mi by (simp add: rnd_ok_def)
    ultimately show ?thesis unfolding e by simp
  qed
  then show ?thesis using True by (auto simp: quantize_group_def Let_def codes_fit_def intro!: code_fit [OF _ _ b])
next
  case False
  have "0 \<le> clamp x 0 (of_int (max_int bits)) \<and> clamp x 0 (of_int (max_int bits)) \<le> of_int (max_int bits)" for x
    using int_1_to_8 [OF b] by (auto simp: clamp_def max_int_def)
  then show ?thesis using False by (auto simp: quantize_group_def Let_def codes_fit_def intro!: code_fit [OF _ _ b])
qed

section \<open>The quantizer produces what the planner reserved\<close>

lemma pad_k_dvd: "0 < g \<Longrightarrow> g dvd n \<Longrightarrow> pad_k n g = 0"
  by (simp add: pad_k_def)

lemma matrix_dims_last: "shape \<noteq> [] \<Longrightarrow> snd (matrix_dims shape) = last shape"
  by (cases shape rule: rev_cases) (auto simp: matrix_dims_def)

text \<open>A weight of \<open>rows * n\<close> elements, grouped by a divisor of \<open>n\<close>.\<close>

definition weight_ok :: "int list \<Rightarrow> int \<Rightarrow> int \<Rightarrow> int \<Rightarrow> rat list \<Rightarrow> bool" where
  "weight_ok shape rows n g ws \<longleftrightarrow> shape \<noteq> [] \<and> matrix_dims shape = (rows, n) \<and> 0 < rows \<and> 0 < n \<and>
     0 < g \<and> g dvd n \<and> int (length ws) = rows * n"

lemma quantize_shape:
  assumes w: "weight_ok shape rows n g ws" and b: "1 \<le> bits" "bits \<le> 8" and r: "rnd_ok t"
  obtains codes packed scales zeros where
    "quantize t bits g symm shape ws = Inr \<lparr>qz_packed = packed, qz_scales = scales,
       qz_zeros = (if symm then None else Some zeros), qz_bits = bits, qz_group_size = g, qz_shape = shape\<rparr>"
    "pack_tensor codes bits = Inr packed" "codes_fit bits codes" "int (length codes) = rows * n"
    "int (length scales) = rows * (n div g)" "length zeros = length scales"
proof -
  have last: "last shape = n" using w matrix_dims_last [of shape] by (simp add: weight_ok_def)
  define gs where "gs = concat (map (chunks (nat g)) (chunks (nat n) ws))"
  obtain q where q: "n = g * q" using w by (auto simp: weight_ok_def)
  have q0: "0 < q" using q w by (auto simp: weight_ok_def zero_less_mult_iff)
  have lw: "length ws = nat rows * nat n" 
  proof -
    have "int (length ws) = int (nat rows * nat n)" using w by (simp add: weight_ok_def)
    then show ?thesis by (simp only: of_nat_eq_iff)
  qed
  have rows: "length (chunks (nat n) ws) = nat rows" "\<forall>x \<in> set (chunks (nat n) ws). length x = nat n"
    using chunks_split [OF _ lw] w by (auto simp: weight_ok_def)
  have nq: "nat n = nat q * nat g" using q w by (simp add: weight_ok_def nat_mult_distrib mult.commute)
  have row: "length (chunks (nat g) x) = nat q \<and> (\<forall>y \<in> set (chunks (nat g) x). length y = nat g)"
    if "x \<in> set (chunks (nat n) ws)" for x
    using chunks_split [of "nat g" x "nat q"] rows(2) that nq w by (simp add: weight_ok_def)
  have lgs: "length gs = nat rows * nat q" "\<forall>y \<in> set gs. length y = nat g"
    using row length_concat_const [of "map (chunks (nat g)) (chunks (nat n) ws)" "nat q"] rows(1)
    by (auto simp: gs_def)
  define qs where "qs = map (quantize_group t bits symm) gs"
  define codes where "codes = concat (map fst qs)"
  have fit: "codes_fit bits codes"
    using quantize_group_fit [OF b r, of symm] by (auto simp: codes_def qs_def codes_fit_def)
  have lc: "length codes = (nat rows * nat q) * nat g"
    using length_concat_const [of "map fst qs" "nat g"] quantize_group_fit [OF b r, of symm] lgs
    by (auto simp: codes_def qs_def)
  obtain packed where p: "pack_tensor codes bits = Inr packed" using pack_unpack [OF b fit] by blast
  have "quantize t bits g symm shape ws = Inr \<lparr>qz_packed = packed, qz_scales = map (\<lambda>g. to_half t (fst (snd g))) qs,
       qz_zeros = (if symm then None else Some (map (\<lambda>g. to_half t (snd (snd g))) qs)),
       qz_bits = bits, qz_group_size = g, qz_shape = shape\<rparr>"
    using w p by (simp add: quantize_def last weight_ok_def pad_k_dvd Let_def codes_def qs_def gs_def del: map_map)
  moreover have "int (length codes) = rows * n" using lc w q0 by (simp add: weight_ok_def q)
  moreover have "int (length qs) = rows * (n div g)" using lgs w q0 by (simp add: qs_def weight_ok_def q)
  ultimately show ?thesis using p fit
    by (intro that [of packed "map (\<lambda>g. to_half t (fst (snd g))) qs" "map (\<lambda>g. to_half t (snd (snd g))) qs" codes]) simp_all
qed

lemma resolve_dvd: "0 < g \<Longrightarrow> g dvd n \<Longrightarrow> 0 < n \<Longrightarrow> resolve_group_size n g = g"
  using zdvd_imp_le [of g n] by (auto simp: resolve_group_size_def dvd_eq_mod_eq_0)

lemma half_bytes_length [simp]: "length (concat (map half_bytes hs)) = 2 * length hs"
  using length_concat_const [of "map half_bytes hs" 2] by simp

text \<open>The size check of the writer never fires on a planned tensor.\<close>

lemma quantize_fits:
  assumes w: "weight_ok shape rows n g ws" and b: "1 \<le> bits" "bits \<le> 8" and r: "rnd_ok t"
    and m: "rows * n \<le> 2 ^ 49"
  obtains q spans payload where "quantize t bits g symm shape ws = Inr q"
    "section_spans shape (of_int bits) g symm 2 2 = Inr spans"
    "sections_to_bytes q spans = Inr payload" "int (length payload) = spans_length spans"
    "spans_ok spans"
proof -
  obtain codes packed scales zeros where q:
    "quantize t bits g symm shape ws = Inr \<lparr>qz_packed = packed, qz_scales = scales,
       qz_zeros = (if symm then None else Some zeros), qz_bits = bits, qz_group_size = g, qz_shape = shape\<rparr>"
    "pack_tensor codes bits = Inr packed" "codes_fit bits codes" "int (length codes) = rows * n"
    "int (length scales) = rows * (n div g)" "length zeros = length scales"
    by (rule quantize_shape [OF w b r])
  have d: "matrix_dims shape = (rows, n)" "0 < rows" "0 < n" "0 < g" "g dvd n" using w by (auto simp: weight_ok_def)
  have n: "n \<le> 2 ^ 49" by (rule factor_le [OF d(2,3) m])
  have lp: "int (length packed) = ceil_div (rows * n) (8 div bits)"
    using pack_unpack [OF b q(3)] q(2,4) by auto
  have g: "resolve_group_size n g = g" using d by (intro resolve_dvd)
  have sp: "section_spans shape (of_int bits) g symm 2 2 =
     (let groups = rows * (n div g); packed = ceil_div (rows * n) (8 div bits) in
     Inr ([\<lparr>sp_section = PACKED, sp_offset = 0, sp_length = packed\<rparr>,
           \<lparr>sp_section = SCALES, sp_offset = packed, sp_length = groups * 2\<rparr>] @
          (if symm then [] else [\<lparr>sp_section = ZEROS, sp_offset = packed + groups * 2, sp_length = groups * 2\<rparr>])))"
    using section_spans_exact [OF d(1) _ d(3) n m b, of g symm 2 2] d g by simp
  obtain spans where spans: "section_spans shape (of_int bits) g symm 2 2 = Inr spans" by (simp add: sp Let_def)
  have ok: "spans_ok spans"
    using section_spans_ok [OF d(1), where bits = "of_int bits" and g = g and symm = symm and sb = 2 and zb = 2] d b spans
    by auto
  show ?thesis
  proof (rule that [OF q(1) spans _ _ ok])
    show "sections_to_bytes \<lparr>qz_packed = packed, qz_scales = scales,
       qz_zeros = (if symm then None else Some zeros), qz_bits = bits, qz_group_size = g, qz_shape = shape\<rparr> spans =
       Inr (packed @ concat (map half_bytes scales) @ (if symm then [] else concat (map half_bytes zeros)))"
      using spans q(5,6) lp by (auto simp: sp Let_def section_bytes_def)
    show "int (length (packed @ concat (map half_bytes scales) @ (if symm then [] else concat (map half_bytes zeros)))) =
       spans_length spans"
      using spans q(5,6) lp by (auto simp: sp Let_def spans_length_def)
  qed
qed

section \<open>Decoding inverts writing\<close>

definition grouped_value :: "'f torch_deq \<Rightarrow> quantized \<Rightarrow> nat \<Rightarrow> byte list \<Rightarrow> nat \<Rightarrow> 'f" where
  "grouped_value t q g codes k =
     deq_value t (qz_bits q) (qz_scales q ! (k div g)) (map_option (\<lambda>z. z ! (k div g)) (qz_zeros q)) (codes ! k)"

lemma take_drop_map_upt: "a + n \<le> m \<Longrightarrow> take n (drop a (map f [0 ..< m])) = map (\<lambda>j. f (a + j)) [0 ..< n]"
  by (rule nth_equalityI) simp_all

lemma chunks_map_upt:
  assumes "0 < n" "m = k * n"
  shows "chunks n (map f [0 ..< m]) = map (\<lambda>i. map (\<lambda>j. f (i * n + j)) [0 ..< n]) [0 ..< k]"
proof (rule nth_equalityI)
  have l: "length (map f [0 ..< m]) = k * n" using assms by simp
  show "length (chunks n (map f [0 ..< m])) = length (map (\<lambda>i. map (\<lambda>j. f (i * n + j)) [0 ..< n]) [0 ..< k])"
    using chunks_split [OF assms(1) l] by simp
  fix i assume "i < length (chunks n (map f [0 ..< m]))"
  then have i: "i < k" using chunks_split [OF assms(1) l] by simp
  have "i * n + n \<le> k * n" using i by (metis Suc_leI mult_le_mono1 mult_Suc add.commute)
  then show "chunks n (map f [0 ..< m]) ! i = map (\<lambda>i. map (\<lambda>j. f (i * n + j)) [0 ..< n]) [0 ..< k] ! i"
    using chunks_cut [OF assms(1) l i] i assms(2) by (simp add: take_drop_map_upt)
qed

lemma dequantize_eq:
  assumes d: "matrix_dims (qz_shape q) = (rows, n)" "0 \<le> rows" "0 < n" "qz_group_size q = g" "0 < g" "g dvd n"
    and u: "unpack_tensor (qz_packed q) (qz_bits q) (nat (rows * n)) = Inr codes" "int (length codes) = rows * n"
    and s: "int (length (qz_scales q)) = rows * (n div g)"
      "qz_zeros q = None \<or> (\<exists>z. qz_zeros q = Some z \<and> length z = length (qz_scales q))"
  shows "dequantize t q = Inr (map (\<lambda>i. map (\<lambda>j. grouped_value t q (nat g) codes (i * nat n + j)) [0 ..< nat n]) [0 ..< nat rows])"
proof -
  obtain k where k: "n = g * k" using d(6) by auto
  have k0: "0 < k" using k d by (auto simp: zero_less_mult_iff)
  have nk: "nat n = nat k * nat g" using k d by (simp add: nat_mult_distrib mult.commute)
  have ng: "nat (rows * (n div g)) = nat rows * nat k" using k d k0 by (simp add: nat_mult_distrib)
  have lc: "length codes = (nat rows * nat k) * nat g" 
  proof -
    have "int (length codes) = int ((nat rows * nat k) * nat g)" using u(2) d k k0 by simp
    then show ?thesis by (simp only: of_nat_eq_iff)
  qed
  define f where "f = grouped_value t q (nat g) codes"
  define w where "w = map (\<lambda>i. map (deq_value t (qz_bits q) (qz_scales q ! i)
      (map_option (\<lambda>z. z ! i) (qz_zeros q))) (chunks (nat g) codes ! i)) [0 ..< nat rows * nat k]"
  have codes: "codes = map (\<lambda>i. codes ! i) [0 ..< length codes]" by (simp add: map_nth)
  have ch: "chunks (nat g) codes = map (\<lambda>i. map (\<lambda>j. codes ! (i * nat g + j)) [0 ..< nat g]) [0 ..< nat rows * nat k]"
    using chunks_map_upt [of "nat g" "length codes" "nat rows * nat k" "\<lambda>i. codes ! i"] lc d(5) codes by simp
  have "w = map (\<lambda>i. map (\<lambda>j. f (i * nat g + j)) [0 ..< nat g]) [0 ..< nat rows * nat k]"
    unfolding w_def ch using d(5) by (auto simp: f_def grouped_value_def)
  also have "\<dots> = chunks (nat g) (map f [0 ..< nat rows * nat n])"
    by (rule chunks_map_upt [symmetric]) (use d(5) in \<open>simp_all add: nk\<close>)
  finally have "concat w = map f [0 ..< nat rows * nat n]"
    using chunks_split [of "nat g" "map f [0 ..< nat rows * nat n]" "nat rows * nat k"] d(5) by (simp add: nk)
  then have "chunks (nat n) (concat w) = map (\<lambda>i. map (\<lambda>j. f (i * nat n + j)) [0 ..< nat n]) [0 ..< nat rows]"
    using chunks_map_upt [of "nat n" "nat rows * nat n" "nat rows" f] d(3) by simp
  moreover have "length (qz_scales q) = nat rows * nat k"
    using s(1) ng by (metis nat_int)
  ultimately show ?thesis
    using d u(1) s(2) k k0 unfolding dequantize_def Let_def
    by (auto simp: pad_k_dvd nat_mult_distrib w_def f_def comp_def)
qed

lemma read_planned:
  assumes "by_section spans sec = Some s" "0 \<le> base" "0 \<le> sp_offset s" "int (length raw) = sp_length s"
    and "payload = pre @ raw @ post" "base + sp_offset s = int (length pre)"
  shows "read_section payload spans base sec = Inr (Some raw)"
proof -
  have "py_slice payload (base + sp_offset s) (base + sp_offset s + sp_length s) = raw"
    using assms by (subst py_slice_nat) (auto simp flip: assms(4))
  then show ?thesis using assms by (simp add: read_section_def Let_def)
qed

theorem decode_written:
  assumes w: "weight_ok shape rows n g ws" and b: "1 \<le> bits" "bits \<le> 8" and r: "rnd_ok t"
    and m: "rows * n \<le> 2 ^ 49"
    and q: "quantize t bits g symm shape ws = Inr q"
    and sp: "section_spans shape (of_int bits) g symm 2 2 = Inr spans"
    and p: "sections_to_bytes q spans = Inr payload"
  shows "decode_quantized T (pre @ payload @ post) shape bits g symm spans (int (length pre)) = dequantize T q"
proof -
  obtain codes packed scales zeros where s:
    "quantize t bits g symm shape ws = Inr \<lparr>qz_packed = packed, qz_scales = scales,
       qz_zeros = (if symm then None else Some zeros), qz_bits = bits, qz_group_size = g, qz_shape = shape\<rparr>"
    "pack_tensor codes bits = Inr packed" "codes_fit bits codes" "int (length codes) = rows * n"
    "int (length scales) = rows * (n div g)" "length zeros = length scales"
    by (rule quantize_shape [OF w b r])
  have d: "matrix_dims shape = (rows, n)" "0 < rows" "0 < n" "0 < g" "g dvd n" using w by (auto simp: weight_ok_def)
  have n: "n \<le> 2 ^ 49" by (rule factor_le [OF d(2,3) m])
  have lp: "int (length packed) = ceil_div (rows * n) (8 div bits)"
    using pack_unpack [OF b s(3)] s(2,4) by auto
  have g: "resolve_group_size n g = g" using d by (intro resolve_dvd)
  define a0 where "a0 = \<lparr>sp_section = PACKED, sp_offset = 0, sp_length = int (length packed)\<rparr>"
  define a1 where "a1 = \<lparr>sp_section = SCALES, sp_offset = int (length packed), sp_length = 2 * int (length scales)\<rparr>"
  define a2 where "a2 = \<lparr>sp_section = ZEROS, sp_offset = int (length packed) + 2 * int (length scales), sp_length = 2 * int (length scales)\<rparr>"
  have spans: "spans = [a0, a1] @ (if symm then [] else [a2])"
    using section_spans_exact [OF d(1) _ d(3) n m b, of g symm 2 2] sp d g lp s(5)
    by (simp add: Let_def a0_def a1_def a2_def mult.commute)
  have "0 < rows * (n div g)" using d by (simp add: zdvd_imp_le pos_imp_zdiv_pos_iff)
  then have ne: "scales \<noteq> []" "zeros \<noteq> []" using s(5,6) by auto
  have "0 < rows * n" using d by simp
  moreover have "rows * n \<le> ceil_div (rows * n) (8 div bits) * (8 div bits)"
    using disk_bits_mult(5) [OF b] by (intro ceil_div_ge) simp
  ultimately have np: "packed \<noteq> []" using lp by auto
  have qq: "q = \<lparr>qz_packed = packed, qz_scales = scales,
       qz_zeros = (if symm then None else Some zeros), qz_bits = bits, qz_group_size = g, qz_shape = shape\<rparr>"
    using q s(1) by simp
  have pl: "payload = packed @ concat (map half_bytes scales) @ (if symm then [] else concat (map half_bytes zeros))"
    using p s(6) by (auto simp: qq spans a0_def a1_def a2_def section_bytes_def)
  let ?P = "pre @ payload @ post"
  have "read_section ?P spans (int (length pre)) PACKED = Inr (Some packed)"
    by (rule read_planned [where s = a0 and pre = pre
        and post = "concat (map half_bytes scales) @ (if symm then [] else concat (map half_bytes zeros)) @ post"])
      (auto simp: by_section_def spans a0_def a1_def a2_def pl)
  moreover have "read_section ?P spans (int (length pre)) SCALES = Inr (Some (concat (map half_bytes scales)))"
    by (rule read_planned [where s = a1 and pre = "pre @ packed"
        and post = "(if symm then [] else concat (map half_bytes zeros)) @ post"])
      (auto simp: by_section_def spans a0_def a1_def a2_def pl)
  moreover have "read_section ?P spans (int (length pre)) ZEROS =
    Inr (if symm then None else Some (concat (map half_bytes zeros)))"
  proof (cases symm)
    case True
    then show ?thesis by (simp add: read_section_def by_section_def spans a0_def a1_def)
  next
    case False
    then show ?thesis
      using read_planned [where s = a2 and pre = "pre @ packed @ concat (map half_bytes scales)" and post = post
          and raw = "concat (map half_bytes zeros)" and payload = ?P and base = "int (length pre)" and spans = spans and sec = ZEROS] s(6)
      by (simp add: by_section_def spans a0_def a1_def a2_def pl)
  qed
  moreover have "by_section spans PACKED \<noteq> None" by (auto simp: by_section_def spans a0_def)
  ultimately show ?thesis
    using ne np by (auto simp: decode_quantized_def halvesE_def halves_round_trip frombuffer_def qq)
qed

section \<open>Properties\<close>

text \<open>C26: What the quantizer emits for a planned weight has, section by section, the length the planner
  reserved: the writer's size check never fires and the payload fills its span exactly. The
  hypothesis on the rounding is that float32 represents integers up to 2 to the 24 exactly.\<close>

theorem quantized_fills_span:
  assumes "weight_ok shape rows n g ws" "1 \<le> bits" "bits \<le> 8" "rnd_ok t" "rows * n \<le> 2 ^ 49"
  shows "\<exists>q spans payload. quantize t bits g symm shape ws = Inr q \<and>
    section_spans shape (of_int bits) g symm 2 2 = Inr spans \<and>
    sections_to_bytes q spans = Inr payload \<and> int (length payload) = spans_length spans"
  by (rule quantize_fits [OF assms, where symm = symm]) blast

definition demo_torch :: torch_quant where
  "demo_torch = \<lparr>rnd32 = (\<lambda>x. x), to_half = (\<lambda>x. word_of_int (py_int x))\<rparr>"

lemma demo_weight: "rnd_ok demo_torch" "weight_ok [2, 2] 2 2 2 [1, -1, 1/2, 3]"
  by (simp_all add: rnd_ok_def demo_torch_def weight_ok_def matrix_dims_def)

theorem quantized_fills_span_witness:
  "\<exists>q spans payload. quantize demo_torch 3 2 False [2, 2] [1, -1, 1/2, 3] = Inr q \<and>
    section_spans [2, 2] 3 2 False 2 2 = Inr spans \<and> sections_to_bytes q spans = Inr payload"
  using quantized_fills_span [OF demo_weight(2) _ _ demo_weight(1), of 3 False] by auto

text \<open>C15: Reading back what the writer stored: decoding the written payload, at whatever offset of a
  larger record it stands, gives exactly the dequantization of the quantizer's own result, in
  every arithmetic the target dtype may have.\<close>

theorem decode_inverts_write:
  assumes "weight_ok shape rows n g ws" "1 \<le> bits" "bits \<le> 8" "rnd_ok t" "rows * n \<le> 2 ^ 49"
    and "quantize t bits g symm shape ws = Inr q" "section_spans shape (of_int bits) g symm 2 2 = Inr spans"
    and "sections_to_bytes q spans = Inr payload"
  shows "decode_record T (pre @ payload @ post) shape (of_int bits) g symm (Some spans) (int (length pre)) = dequantize T q"
proof -
  have "\<not> (16::rat) \<le> of_int bits" using assms(3) by linarith
  then show ?thesis using decode_written [OF assms, of T pre post]
    by (simp add: decode_record_def)
qed

definition demo_deq :: "rat torch_deq" where
  "demo_deq = \<lparr>of_code = (\<lambda>b. of_int (uint b)), of_half = (\<lambda>h. of_int (sint h)), of_pyint = of_int,
     tsub = (\<lambda>x y. x - y), tmul = (\<lambda>x y. x * y)\<rparr>"

theorem decode_inverts_write_witness:
  "\<exists>q spans payload. quantize demo_torch 3 2 False [2, 2] [1, -1, 1/2, 3] = Inr q \<and>
    sections_to_bytes q spans = Inr payload \<and>
    decode_record demo_deq ([1, 2] @ payload @ [3]) [2, 2] (of_int 3) 2 False (Some spans) 2 = dequantize demo_deq q"
proof -
  obtain q spans payload where q: "quantize demo_torch 3 2 False [2, 2] [1, -1, 1/2, 3] = Inr q"
    "section_spans [2, 2] (of_int 3) 2 False 2 2 = Inr spans" "sections_to_bytes q spans = Inr payload"
    by (rule quantize_fits [OF demo_weight(2) _ _ demo_weight(1), of 3 False]) auto
  show ?thesis
    using decode_inverts_write [OF demo_weight(2) _ _ demo_weight(1) _ q, of demo_deq "[1, 2]" "[3]"] q by auto
qed

end
