(* ===== verification/Decode.thy ===== *)
theory Decode
  imports Quantize
begin

text \<open>
  Partial decoding, \<open>decode_rows\<close> of \<open>package/decode.py\<close>: reading a row range of a packed
  matrix gives the rows that decoding the whole record gives, for any payload that holds the
  planned sections.
\<close>

section \<open>Row ranges\<close>

definition row_slice_is_byte_aligned :: "int \<Rightarrow> pyfloat \<Rightarrow> bool result" where
  "row_slice_is_byte_aligned in_features bits =
     (if 8 \<le> bits then Inr True
      else if py_int bits = 0 then Inl ZeroDivisionError
      else Inr (in_features mod (8 div py_int bits) = 0))"

definition row_meta :: "bytes \<Rightarrow> section_span list \<Rightarrow> int \<Rightarrow> int \<Rightarrow> int \<Rightarrow> int \<Rightarrow> section_kind \<Rightarrow>
    16 word list option result" where
  "row_meta payload spans base_offset groups_per_row row_start count sec =
     (case by_section spans sec of
        None \<Rightarrow> Inr None
      | Some s \<Rightarrow>
          let stride = groups_per_row * 2; start = base_offset + sp_offset s + row_start * stride;
              raw = py_slice payload start (start + count * stride) in
          if int (length raw) \<noteq> count * stride then Inl DecodeError
          else bindE (halves_of_bytes raw) (\<lambda>h. Inr (Some h)))"

definition decode_rows :: "'f torch_deq \<Rightarrow> bytes \<Rightarrow> int list \<Rightarrow> pyfloat \<Rightarrow> int \<Rightarrow> bool \<Rightarrow> int \<Rightarrow> int \<Rightarrow>
    section_span list option \<Rightarrow> int \<Rightarrow> 'f list list result" where
  "decode_rows t payload shape bits group_size symmetric row_start row_stop spans0 base_offset =
     (let (rows, in_features) = matrix_dims shape in
      if \<not> (0 \<le> row_start \<and> row_start \<le> row_stop \<and> row_stop \<le> rows) then Inl DecodeError
      else if row_start = row_stop then Inr []
      else if 16 \<le> bits then
        let stride = in_features * 2; start = base_offset + row_start * stride;
            raw = py_slice payload start (start + (row_stop - row_start) * stride) in
        bindE (halves_of_bytes raw) (\<lambda>h.
        if int (length h) \<noteq> (row_stop - row_start) * in_features then Inl RuntimeError
        else Inr (chunks (nat in_features) (map (of_half t) h)))
      else
        bindE (row_slice_is_byte_aligned in_features bits) (\<lambda>aligned.
        if \<not> aligned then
          bindE (decode_record t payload shape bits group_size symmetric spans0 base_offset) (\<lambda>whole.
          Inr (py_slice whole row_start row_stop))
        else
          bindE (case spans0 of Some sp \<Rightarrow> Inr sp
                 | None \<Rightarrow> section_spans shape bits group_size symmetric 2 2) (\<lambda>spans.
          let effective_group = (if 0 < group_size then group_size else in_features) in
          if effective_group = 0 then Inl ZeroDivisionError
          else if in_features mod effective_group \<noteq> 0 then Inl DecodeError
          else
            let groups_per_row = in_features div effective_group; count = row_stop - row_start;
                packed_stride = packed_bytes in_features bits in
            case by_section spans PACKED of
              None \<Rightarrow> Inl KeyError
            | Some packed_span \<Rightarrow>
                let packed_start = base_offset + sp_offset packed_span + row_start * packed_stride;
                    raw = py_slice payload packed_start (packed_start + count * packed_stride) in
                bindE (frombuffer raw) (\<lambda>packed.
                if int (length packed) \<noteq> count * packed_stride then Inl DecodeError
                else
                  bindE (row_meta payload spans base_offset groups_per_row row_start count SCALES) (\<lambda>s.
                  bindE (row_meta payload spans base_offset groups_per_row row_start count ZEROS) (\<lambda>z.
                  case s of None \<Rightarrow> Inl AttributeError
                  | Some scales \<Rightarrow> dequantize t
                      \<lparr>qz_packed = packed, qz_scales = scales, qz_zeros = z, qz_bits = py_int bits,
                       qz_group_size = effective_group, qz_shape = [count, in_features]\<rparr>))))))"

section \<open>Closed forms\<close>

definition half_at :: "bytes \<Rightarrow> nat \<Rightarrow> 16 word" where
  "half_at raw i = half_of_bytes (take 2 (drop (i * 2) raw))"

lemma halves_eq:
  assumes "length raw = k * 2" "0 < k"
  shows "halves_of_bytes raw = Inr (map (half_at raw) [0 ..< k])"
proof -
  have "chunks 2 raw = map (\<lambda>i. take 2 (drop (i * 2) raw)) [0 ..< k]"
    using chunks_split [of 2 raw k] chunks_cut [of 2 raw k] assms
    by (intro nth_equalityI) auto
  then show ?thesis using assms by (auto simp: halves_of_bytes_def half_at_def)
qed

lemma half_at_drop:
  "i < n \<Longrightarrow> half_at (take (n * 2) (drop (k * 2) raw)) i = half_at raw (k + i)"
  by (simp add: half_at_def take_drop min_def add.commute distrib_right)

text \<open>The value of element \<open>k\<close> of a record, from its three sections.\<close>

definition stored_value :: "'f torch_deq \<Rightarrow> int \<Rightarrow> nat \<Rightarrow> bytes \<Rightarrow> bytes \<Rightarrow> bytes option \<Rightarrow> nat \<Rightarrow> 'f" where
  "stored_value t bits g praw sraw zraw k =
     deq_value t bits (half_at sraw (k div g)) (map_option (\<lambda>z. half_at z (k div g)) zraw) (code_at praw bits k)"

definition value_matrix :: "(nat \<Rightarrow> 'f) \<Rightarrow> nat \<Rightarrow> nat \<Rightarrow> 'f list list" where
  "value_matrix f rows n = map (\<lambda>i. map (\<lambda>j. f (i * n + j)) [0 ..< n]) [0 ..< rows]"

lemma div_group:
  assumes "k < rows * n" "0 < g" "n = q * (g :: nat)"
  shows "k div g < rows * q"
  using assms by (simp add: less_mult_imp_div_less mult.assoc)

lemma dequantize_sections:
  assumes b: "1 \<le> bits" "bits \<le> 8" and d: "0 < rows" "0 < n" "0 < g" "g dvd n"
    and p: "rows * n \<le> int (length praw) * (8 div bits)"
    and s: "scales = map (half_at sraw) [0 ..< nat (rows * (n div g))]"
    and z: "zeros = map_option (\<lambda>raw. map (half_at raw) [0 ..< nat (rows * (n div g))]) zraw"
    and m: "matrix_dims shape = (rows, n)"
  shows "dequantize t \<lparr>qz_packed = praw, qz_scales = scales, qz_zeros = zeros, qz_bits = bits,
      qz_group_size = g, qz_shape = shape\<rparr> =
    Inr (value_matrix (stored_value t bits (nat g) praw sraw zraw) (nat rows) (nat n))"
proof -
  let ?q = "\<lparr>qz_packed = praw, qz_scales = scales, qz_zeros = zeros, qz_bits = bits,
      qz_group_size = g, qz_shape = shape\<rparr>"
  define codes where "codes = map (code_at praw bits) [0 ..< nat (rows * n)]"
  obtain q where q: "n = g * q" using d(4) by auto
  have q0: "0 < q" using q d by (auto simp: zero_less_mult_iff)
  have "nat (rows * n) \<le> length praw * nat (8 div bits)"
  proof -
    have "int (nat (rows * n)) \<le> int (length praw * nat (8 div bits))"
      using p d per_byte(3) [OF b] by simp
    then show ?thesis by (simp only: of_nat_le_iff)
  qed
  then have u: "unpack_tensor praw bits (nat (rows * n)) = Inr codes"
    by (simp add: unpack_tensor_eq [OF b] codes_def)
  have z': "zeros = None \<or> (\<exists>z. zeros = Some z \<and> length z = length scales)"
    by (cases zraw) (simp_all add: s z)
  have "dequantize t ?q = Inr (map (\<lambda>i. map (\<lambda>j. grouped_value t ?q (nat g) codes (i * nat n + j)) [0 ..< nat n]) [0 ..< nat rows])"
    by (rule dequantize_eq) (use d u m z' q q0 s in \<open>simp_all add: codes_def\<close>)
  moreover have "grouped_value t ?q (nat g) codes (i * nat n + j) =
      stored_value t bits (nat g) praw sraw zraw (i * nat n + j)" if "i < nat rows" "j < nat n" for i j
  proof -
    have "i * nat n + j < (i + 1) * nat n" using that by simp
    also have "\<dots> \<le> nat rows * nat n" using that by (intro mult_right_mono) auto
    finally have k: "i * nat n + j < nat rows * nat n" .
    then have k': "i * nat n + j < nat (rows * n)" using d by (simp add: nat_mult_distrib)
    have nq: "nat n = nat q * nat g" using q d by (simp add: nat_mult_distrib mult.commute)
    have "(i * nat n + j) div nat g < nat rows * nat q"
      using div_group [OF k _ nq] d by simp
    also have "nat rows * nat q = nat (rows * (n div g))" using q d q0 by (simp add: nat_mult_distrib)
    finally show ?thesis using k'
      by (cases zraw) (simp_all add: grouped_value_def stored_value_def codes_def s z)
  qed
  ultimately show ?thesis by (simp add: value_matrix_def)
qed

section \<open>Decoding part of a record\<close>

text \<open>A payload that holds the planned sections of a matrix at \<open>base\<close>.\<close>

definition holds_record :: "bytes \<Rightarrow> int \<Rightarrow> int \<Rightarrow> int \<Rightarrow> int \<Rightarrow> int \<Rightarrow> bool \<Rightarrow> bool" where
  "holds_record payload base rows n g bits symm \<longleftrightarrow> 0 \<le> base \<and>
     base + ceil_div (rows * n) (8 div bits) + (if symm then 2 else 4) * (rows * (n div g)) \<le> int (length payload)"

definition sec_bytes :: "bytes \<Rightarrow> int \<Rightarrow> int \<Rightarrow> bytes" where
  "sec_bytes payload off n = take (nat n) (drop (nat off) payload)"

lemma sec_bytes_slice: "0 \<le> a \<Longrightarrow> 0 \<le> n \<Longrightarrow> py_slice payload a (a + n) = sec_bytes payload a n"
  by (simp add: sec_bytes_def py_slice_nat)

lemma length_sec_bytes:
  "0 \<le> a \<Longrightarrow> 0 \<le> n \<Longrightarrow> a + n \<le> int (length payload) \<Longrightarrow> int (length (sec_bytes payload a n)) = n"
  by (simp add: sec_bytes_def)

lemma sec_bytes_sub:
  assumes "0 \<le> a" "0 \<le> o'" "0 \<le> n'" "o' + n' \<le> n"
  shows "sec_bytes payload (a + o') n' = take (nat n') (drop (nat o') (sec_bytes payload a n))"
proof -
  have "nat (a + o') = nat o' + nat a" using assms by (simp add: nat_add_distrib)
  moreover have "nat n' \<le> nat n - nat o'" using assms by linarith
  ultimately show ?thesis by (simp add: sec_bytes_def drop_take min_absorb1)
qed

lemma value_matrix_slice:
  assumes "a + c \<le> rows"
  shows "take c (drop a (value_matrix f rows n)) = value_matrix (\<lambda>k. f (a * n + k)) c n"
  using assms by (intro nth_equalityI) (simp_all add: value_matrix_def distrib_right add.assoc)

lemma value_matrix_cong:
  assumes "\<And>k. k < rows * n \<Longrightarrow> f k = h k"
  shows "value_matrix f rows n = value_matrix h rows n"
proof -
  have "f (i * n + j) = h (i * n + j)" if "i < rows" "j < n" for i j
  proof (rule assms)
    have "i * n + j < (i + 1) * n" using that by simp
    also have "\<dots> \<le> rows * n" using that by (intro mult_right_mono) auto
    finally show "i * n + j < rows * n" .
  qed
  then show ?thesis by (simp add: value_matrix_def)
qed

lemma planned_spans:
  assumes d: "matrix_dims shape = (rows, n)" "0 < rows" "0 < n" "0 < g" "g dvd n" "rows * n \<le> 2 ^ 49"
    and b: "1 \<le> bits" "bits \<le> 8"
  defines "lp \<equiv> ceil_div (rows * n) (8 div bits)" and "mt \<equiv> rows * (n div g)"
  obtains spans where "section_spans shape (of_int bits) g symm 2 2 = Inr spans"
    "by_section spans PACKED = Some \<lparr>sp_section = PACKED, sp_offset = 0, sp_length = lp\<rparr>"
    "by_section spans SCALES = Some \<lparr>sp_section = SCALES, sp_offset = lp, sp_length = mt * 2\<rparr>"
    "by_section spans ZEROS = (if symm then None else Some \<lparr>sp_section = ZEROS, sp_offset = lp + mt * 2, sp_length = mt * 2\<rparr>)"
    "0 < lp" "0 < mt" "rows * n \<le> lp * (8 div bits)"
proof -
  have n: "n \<le> 2 ^ 49" by (rule factor_le [OF d(2,3,6)])
  have g: "resolve_group_size n g = g" using d by (intro resolve_dvd)
  have le: "rows * n \<le> lp * (8 div bits)"
    unfolding lp_def using disk_bits_mult(5) [OF b] by (intro ceil_div_ge) simp
  have "0 < rows * n" using d by simp
  then have "0 < lp * (8 div bits)" using le by linarith
  then have "0 < lp" using disk_bits_mult(5) [OF b] by (simp add: zero_less_mult_iff)
  moreover have "0 < mt" using d by (simp add: mt_def zdvd_imp_le pos_imp_zdiv_pos_iff)
  ultimately show ?thesis
    using section_spans_exact [OF d(1) _ d(3) n d(6) b, of g symm 2 2] d g le
    by (intro that [of "[\<lparr>sp_section = PACKED, sp_offset = 0, sp_length = lp\<rparr>,
        \<lparr>sp_section = SCALES, sp_offset = lp, sp_length = mt * 2\<rparr>] @ (if symm then [] else
        [\<lparr>sp_section = ZEROS, sp_offset = lp + mt * 2, sp_length = mt * 2\<rparr>])"])
      (simp_all add: Let_def by_section_def lp_def mt_def)
qed

lemma read_section_eq:
  assumes "by_section spans sec = Some s" "start = base + sp_offset s" "0 \<le> start" "0 \<le> sp_length s"
    and "start + sp_length s \<le> int (length payload)"
  shows "read_section payload spans base sec = Inr (Some (sec_bytes payload start (sp_length s)))"
proof -
  have "py_slice payload start (start + sp_length s) = sec_bytes payload start (sp_length s)"
    by (rule sec_bytes_slice [OF assms(3,4)])
  then show ?thesis
    using assms(1,2) length_sec_bytes [OF assms(3-5)] by (simp add: read_section_def Let_def)
qed

lemma row_meta_eq:
  assumes "by_section spans sec = Some s" "start = base + sp_offset s + x * (gr * 2)" "0 \<le> start"
    and "0 \<le> c * (gr * 2)" "start + c * (gr * 2) \<le> int (length payload)"
    and "halves_of_bytes (sec_bytes payload start (c * (gr * 2))) = Inr h"
  shows "row_meta payload spans base gr x c sec = Inr (Some h)"
proof -
  have "py_slice payload start (start + c * (gr * 2)) = sec_bytes payload start (c * (gr * 2))"
    by (rule sec_bytes_slice [OF assms(3,4)])
  then show ?thesis
    using assms(1,6) length_sec_bytes [OF assms(3-5)] by (simp add: row_meta_def Let_def flip: assms(2))
qed

lemma decode_planned:
  assumes d: "matrix_dims shape = (rows, n)" "0 < rows" "0 < n" "0 < g" "g dvd n" "rows * n \<le> 2 ^ 49"
    and b: "1 \<le> bits" "bits \<le> 8"
    and hold: "holds_record payload base rows n g bits symm"
    and sp: "section_spans shape (of_int bits) g symm 2 2 = Inr spans"
  defines "lp \<equiv> ceil_div (rows * n) (8 div bits)" and "mt \<equiv> rows * (n div g)"
  shows "decode_quantized T payload shape bits g symm spans base =
    Inr (value_matrix (stored_value T bits (nat g) (sec_bytes payload base lp)
      (sec_bytes payload (base + lp) (mt * 2))
      (if symm then None else Some (sec_bytes payload (base + lp + mt * 2) (mt * 2)))) (nat rows) (nat n))"
proof -
  obtain sp' where s: "section_spans shape (of_int bits) g symm 2 2 = Inr sp'"
    "by_section sp' PACKED = Some \<lparr>sp_section = PACKED, sp_offset = 0, sp_length = lp\<rparr>"
    "by_section sp' SCALES = Some \<lparr>sp_section = SCALES, sp_offset = lp, sp_length = mt * 2\<rparr>"
    "by_section sp' ZEROS = (if symm then None else Some \<lparr>sp_section = ZEROS, sp_offset = lp + mt * 2, sp_length = mt * 2\<rparr>)"
    "0 < lp" "0 < mt" "rows * n \<le> lp * (8 div bits)"
    unfolding lp_def mt_def by (rule planned_spans [OF d b])
  have eq: "sp' = spans" using s(1) sp by simp
  note s = s(2-7) [unfolded eq]
  have h: "0 \<le> base" "base + lp + (if symm then 2 else 4) * mt \<le> int (length payload)"
    using hold by (simp_all add: holds_record_def lp_def mt_def)
  let ?P = "sec_bytes payload base lp" and ?S = "sec_bytes payload (base + lp) (mt * 2)"
    and ?Z = "sec_bytes payload (base + lp + mt * 2) (mt * 2)"
  have len: "int (length ?P) = lp" "int (length ?S) = mt * 2" "\<not> symm \<Longrightarrow> int (length ?Z) = mt * 2"
    using h s(4,5) by (auto intro!: length_sec_bytes split: if_splits)
  have ne: "?P \<noteq> []" using len(1) s(4) by auto
  have S: "halves_of_bytes ?S = Inr (map (half_at ?S) [0 ..< nat mt])"
    by (rule halves_eq) (use len(2) s(5) in linarith)+
  have Z: "halves_of_bytes ?Z = Inr (map (half_at ?Z) [0 ..< nat mt])" if "\<not> symm"
    by (rule halves_eq) (use len(3) [OF that] s(5) in linarith)+
  have rP: "read_section payload spans base PACKED = Inr (Some ?P)"
    using read_section_eq [OF s(1), of base base payload] h s(4,5) by (simp split: if_splits)
  have rS: "read_section payload spans base SCALES = Inr (Some ?S)"
    using read_section_eq [OF s(2), of "base + lp" base payload] h s(4,5) by (simp split: if_splits)
  have rZ: "read_section payload spans base ZEROS = Inr (if symm then None else Some ?Z)"
  proof (cases symm)
    case True
    then show ?thesis using s(3) by (simp add: read_section_def)
  next
    case False
    then show ?thesis
      using read_section_eq [OF trans [OF s(3) if_not_P [OF False]], of "base + lp + mt * 2" base payload] h s(4,5) by simp
  qed
  have "dequantize T \<lparr>qz_packed = ?P, qz_scales = map (half_at ?S) [0 ..< nat mt],
      qz_zeros = (if symm then None else Some (map (half_at ?Z) [0 ..< nat mt])),
      qz_bits = bits, qz_group_size = g, qz_shape = shape\<rparr> =
    Inr (value_matrix (stored_value T bits (nat g) ?P ?S (if symm then None else Some ?Z)) (nat rows) (nat n))"
    by (rule dequantize_sections [OF b d(2-5)]) (use len(1) s(6) d(1) in \<open>simp_all add: mt_def\<close>)
  then show ?thesis
    using ne S Z s(1) by (cases symm) (simp_all add: decode_quantized_def rP rS rZ halvesE_def frombuffer_def)
qed

lemma decode_rows_planned:
  assumes d: "matrix_dims shape = (rows, n)" "0 < rows" "0 < n" "0 < g" "g dvd n" "rows * n \<le> 2 ^ 49"
    and b: "1 \<le> bits" "bits \<le> 8"
    and hold: "holds_record payload base rows n g bits symm"
    and r: "0 \<le> x" "x < y" "y \<le> rows"
  shows "\<exists>m. decode_record T payload shape (of_int bits) g symm None base = Inr m \<and>
    decode_rows T payload shape (of_int bits) g symm x y None base = Inr (take (nat (y - x)) (drop (nat x) m))"
proof -
  define lp where "lp = ceil_div (rows * n) (8 div bits)"
  define mt where "mt = rows * (n div g)"
  obtain spans where s0: "section_spans shape (of_int bits) g symm 2 2 = Inr spans"
    "by_section spans PACKED = Some \<lparr>sp_section = PACKED, sp_offset = 0, sp_length = lp\<rparr>"
    "by_section spans SCALES = Some \<lparr>sp_section = SCALES, sp_offset = lp, sp_length = mt * 2\<rparr>"
    "by_section spans ZEROS = (if symm then None else Some \<lparr>sp_section = ZEROS, sp_offset = lp + mt * 2, sp_length = mt * 2\<rparr>)"
    "0 < lp" "0 < mt" "rows * n \<le> lp * (8 div bits)"
    unfolding lp_def mt_def by (rule planned_spans [OF d b])
  let ?P = "sec_bytes payload base lp" and ?S = "sec_bytes payload (base + lp) (mt * 2)"
    and ?Z = "sec_bytes payload (base + lp + mt * 2) (mt * 2)"
  define f where "f = stored_value T bits (nat g) ?P ?S (if symm then None else Some ?Z)"
  have lt16: "\<not> (16::rat) \<le> of_int bits" using b(2) by linarith
  have whole: "decode_record T payload shape (of_int bits) g symm None base = Inr (value_matrix f (nat rows) (nat n))"
    unfolding decode_record_def if_not_P [OF lt16] option.case s0(1) bindE_simps py_int_of_int f_def lp_def mt_def
    by (rule decode_planned [OF d b hold s0(1)])
  have slice: "take (nat (y - x)) (drop (nat x) (value_matrix f (nat rows) (nat n))) =
    value_matrix (\<lambda>k. f (nat x * nat n + k)) (nat (y - x)) (nat n)"
    using r by (intro value_matrix_slice) linarith
  have al: "row_slice_is_byte_aligned n (of_int bits) = Inr (bits = 8 \<or> n mod (8 div bits) = 0)"
    using b by (auto simp: row_slice_is_byte_aligned_def)
  have rows_eq: "decode_rows T payload shape (of_int bits) g symm x y None base =
    Inr (take (nat (y - x)) (drop (nat x) (value_matrix f (nat rows) (nat n))))"
  proof (cases "bits = 8 \<or> n mod (8 div bits) = 0")
    case False
    have "py_slice (value_matrix f (nat rows) (nat n)) x (x + (y - x)) =
      take (nat (y - x)) (drop (nat x) (value_matrix f (nat rows) (nat n)))"
      using r by (intro py_slice_nat) simp_all
    then show ?thesis using False r d(1) lt16 al whole
      by (simp add: decode_rows_def Let_def)
  next
    case aligned: True
    define c where "c = y - x"
    define ps where "ps = n div (8 div bits)"
    define gr where "gr = n div g"
    have c: "0 < c" "x + c \<le> rows" using r by (simp_all add: c_def)
    have v: "0 < 8 div bits" using disk_bits_mult(5) [OF b] by simp
    have nv: "n = ps * (8 div bits)" using aligned by (auto simp: ps_def)
    have ps0: "0 < ps" using nv d(3) v by (simp add: zero_less_mult_iff)
    have n49: "n \<le> 2 ^ 49" by (rule factor_le [OF d(2,3,6)])
    have pb: "packed_bytes n (of_int bits) = ps"
      using packed_bytes_exact [OF _ n49 b] d(3) v nv by simp
    have lpe: "lp = rows * ps"
    proof -
      have e: "rows * n = (rows * ps) * (8 div bits)" using nv by (simp only: mult.assoc)
      show ?thesis unfolding lp_def e using v by (rule ceil_div_mult(1))
    qed
    have gr: "n = gr * g" "0 < gr" using d by (simp_all add: gr_def zdvd_imp_le pos_imp_zdiv_pos_iff)
    have mte: "mt = rows * gr" by (simp add: mt_def gr_def)
    have h: "0 \<le> base" "base + lp + (if symm then 2 else 4) * mt \<le> int (length payload)"
      using hold by (simp_all add: holds_record_def lp_def mt_def)
    have xc: "x * ps + c * ps \<le> lp" "x * (gr * 2) + c * (gr * 2) \<le> mt * 2"
      using mult_right_mono [OF c(2), of ps] mult_right_mono [OF c(2), of "gr * 2"] ps0 gr(2)
      by (simp_all add: lpe mte distrib_right)
    have nn: "0 \<le> x * ps" "0 \<le> c * ps" "0 \<le> x * (gr * 2)" "0 \<le> c * (gr * 2)" "0 < c * ps" "0 < c * gr"
      using r c ps0 gr(2) by simp_all
    define P where "P = sec_bytes payload (base + x * ps) (c * ps)"
    define S where "S = sec_bytes payload (base + lp + x * (gr * 2)) (c * (gr * 2))"
    define Z where "Z = sec_bytes payload (base + lp + mt * 2 + x * (gr * 2)) (c * (gr * 2))"
    have lP: "int (length P) = c * ps" unfolding P_def
      using h xc nn s0(6) by (intro length_sec_bytes) (auto split: if_splits)
    have lS: "int (length S) = c * (gr * 2)" unfolding S_def
      using h xc nn s0(5,6) by (intro length_sec_bytes) (auto split: if_splits)
    have lZ: "int (length Z) = c * (gr * 2)" if "\<not> symm" unfolding Z_def
      using h xc nn s0(5,6) that by (intro length_sec_bytes) auto
    have hS: "halves_of_bytes S = Inr (map (half_at S) [0 ..< nat (c * gr)])"
      by (rule halves_eq) (use lS nn(6) in linarith)+
    have hZ: "halves_of_bytes Z = Inr (map (half_at Z) [0 ..< nat (c * gr)])" if "\<not> symm"
      by (rule halves_eq) (use lZ [OF that] nn(6) in linarith)+
    have rP: "py_slice payload (base + x * ps) (base + x * ps + c * ps) = P"
      unfolding P_def using h nn by (intro sec_bytes_slice) simp_all
    have rS: "row_meta payload spans base gr x c SCALES = Inr (Some (map (half_at S) [0 ..< nat (c * gr)]))"
      by (rule row_meta_eq [OF s0(3), where start = "base + lp + x * (gr * 2)"])
        (use h xc nn s0(5,6) hS in \<open>auto simp: S_def split: if_splits\<close>)
    have rZ: "row_meta payload spans base gr x c ZEROS =
      Inr (if symm then None else Some (map (half_at Z) [0 ..< nat (c * gr)]))"
    proof (cases symm)
      case True
      then show ?thesis using s0(4) by (simp add: row_meta_def)
    next
      case False
      have "row_meta payload spans base gr x c ZEROS = Inr (Some (map (half_at Z) [0 ..< nat (c * gr)]))"
        by (rule row_meta_eq [OF trans [OF s0(4) if_not_P [OF False]], where start = "base + lp + mt * 2 + x * (gr * 2)"])
          (use h xc nn s0(5,6) hZ False in \<open>auto simp: Z_def\<close>)
      then show ?thesis using False by simp
    qed
    have neP: "P \<noteq> []" using lP nn(5) by auto
    have dq: "dequantize T \<lparr>qz_packed = P, qz_scales = map (half_at S) [0 ..< nat (c * gr)],
        qz_zeros = (if symm then None else Some (map (half_at Z) [0 ..< nat (c * gr)])),
        qz_bits = bits, qz_group_size = g, qz_shape = [c, n]\<rparr> =
      Inr (value_matrix (stored_value T bits (nat g) P S (if symm then None else Some Z)) (nat c) (nat n))"
      by (rule dequantize_sections [OF b c(1) d(3-5)])
        (use lP in \<open>simp_all add: gr_def matrix_dims_def nv\<close>)
    have "value_matrix (stored_value T bits (nat g) P S (if symm then None else Some Z)) (nat c) (nat n) =
      value_matrix (\<lambda>k. f (nat x * nat n + k)) (nat c) (nat n)"
    proof (rule value_matrix_cong)
      fix k assume k: "k < nat c * nat n"
      have ng: "nat n = nat gr * nat g" using gr d by (simp add: nat_mult_distrib)
      have nps: "nat n = nat ps * nat (8 div bits)" using nv ps0 v by (simp add: nat_mult_distrib)
      have kg: "k div nat g < nat (c * gr)"
        using div_group [OF k _ ng] d(4) c(1) gr(2) by (simp add: nat_mult_distrib)
      have dv: "(nat x * nat n + k) div nat g = nat (x * gr) + k div nat g"
        using ng d(4) r(1) gr(2) by (simp add: nat_mult_distrib mult.assoc [symmetric])
      have "P = take (nat (c * ps)) (drop (nat (x * ps)) ?P)"
        unfolding P_def using h nn xc by (intro sec_bytes_sub) simp_all
      moreover have "nat (x * ps) * nat (8 div bits) + k = nat x * nat n + k"
        using r(1) ps0 by (simp add: nps nat_mult_distrib mult.assoc)
      moreover have "k < nat (c * ps) * nat (8 div bits)"
        using k c(1) ps0 by (simp add: nps nat_mult_distrib mult.assoc)
      moreover have "int (length ?P) = lp" using h s0(5,6) by (intro length_sec_bytes) (auto split: if_splits)
      then have "nat (x * ps) + nat (c * ps) \<le> length ?P" using xc(1) nn by linarith
      ultimately have code: "code_at P bits k = code_at ?P bits (nat x * nat n + k)"
        using code_at_drop [OF b, of k "nat (c * ps)" "nat (x * ps)" ?P] by simp
      have two: "nat (z * (gr * 2)) = nat (z * gr) * 2" for z by (simp add: nat_mult_distrib mult.assoc [symmetric])
      have S: "half_at S (k div nat g) = half_at ?S (nat (x * gr) + k div nat g)"
      proof -
        have "S = take (nat (c * gr) * 2) (drop (nat (x * gr) * 2) ?S)"
          unfolding S_def two [symmetric] using h nn xc s0(5) by (intro sec_bytes_sub) simp_all
        then show ?thesis using half_at_drop [OF kg] by simp
      qed
      have Z: "half_at Z (k div nat g) = half_at ?Z (nat (x * gr) + k div nat g)"
      proof -
        have "Z = take (nat (c * gr) * 2) (drop (nat (x * gr) * 2) ?Z)"
          unfolding Z_def two [symmetric] using h nn xc s0(5,6) by (intro sec_bytes_sub) simp_all
        then show ?thesis using half_at_drop [OF kg] by simp
      qed
      show "stored_value T bits (nat g) P S (if symm then None else Some Z) k = f (nat x * nat n + k)"
        by (simp add: f_def stored_value_def dv code S Z)
    qed
    then show ?thesis
      using aligned r d lt16 al s0(1,2) pb rP rS rZ neP lP dq slice
      unfolding decode_rows_def by (auto simp: Let_def frombuffer_def gr_def c_def dvd_eq_mod_eq_0)
  qed
  show ?thesis using whole rows_eq by blast
qed

section \<open>Properties\<close>

text \<open>C27: Reading only the rows \<open>x\<close> to \<open>y\<close> of a packed matrix gives exactly those rows of the whole
  decoded matrix, on both paths of \<open>decode_rows\<close> (the byte-aligned slice and the fall back to
  the whole record), at every width from 1 to 8 bits.\<close>

theorem row_range_is_slice:
  assumes "matrix_dims shape = (rows, n)" "0 < rows" "0 < n" "0 < g" "g dvd n" "rows * n \<le> 2 ^ 49"
    and "1 \<le> bits" "bits \<le> 8" "holds_record payload base rows n g bits symm"
    and "0 \<le> x" "x < y" "y \<le> rows"
  shows "\<exists>m. decode_record T payload shape (of_int bits) g symm None base = Inr m \<and>
    decode_rows T payload shape (of_int bits) g symm x y None base = Inr (take (nat (y - x)) (drop (nat x) m))"
  by (rule decode_rows_planned [OF assms])

theorem row_range_is_slice_witness:
  "\<exists>m. decode_record demo_deq [0x21, 0x43, 1, 0, 2, 0] [2, 2] (of_int 4) 2 True None 0 = Inr m \<and>
    decode_rows demo_deq [0x21, 0x43, 1, 0, 2, 0] [2, 2] (of_int 4) 2 True 1 2 None 0 = Inr (take 1 (drop 1 m))"
proof -
  have "holds_record [0x21, 0x43, 1, 0, 2, 0] 0 2 2 2 4 True"
    by (simp add: holds_record_def ceil_div_def)
  then show ?thesis
    using row_range_is_slice [of "[2, 2]" 2 2 2 4 "[0x21, 0x43, 1, 0, 2, 0]" 0 True 1 2 demo_deq]
    by (simp add: matrix_dims_def)
qed

end
