(* ===== verification/BankLayout.thy ===== *)
theory BankLayout
  imports FormatLaws
begin

text \<open>
  The expert bank and the PLE table as regions: every expert record, every named section of
  every expert, and every PLE row has a byte range of its own, so all three interpret the
  region contract. The n-gram hash is shown to be 64-bit machine arithmetic and to stay inside
  its head's rows.
\<close>

section \<open>The expert bank\<close>

text \<open>What the planner guarantees of a layout: distinct layers, or explicit records numbered
  in order.\<close>

definition bank_ok :: "expert_layout \<Rightarrow> bool" where
  "bank_ok lay \<longleftrightarrow> record_ok (el_record lay) \<and> 0 \<le> el_num_experts lay \<and> distinct (el_layers lay) \<and>
     (\<forall>k < length (el_records lay). re_record_index (el_records lay ! k) = int k)"

lemma list_index_nth:
  "list_index xs x = Some i \<Longrightarrow> 0 \<le> i \<and> i < int (length xs) \<and> xs ! nat i = x"
  by (induction xs arbitrary: i) (auto split: if_splits simp: nat_add_distrib)

lemma list_index_None: "list_index xs x = None \<longleftrightarrow> x \<notin> set xs"
  by (induction xs) auto

lemma find_entry_mem:
  "find_entry es l e = Inr i \<Longrightarrow>
     \<exists>k < length es. re_layer (es ! k) = l \<and> re_expert (es ! k) = e \<and> re_record_index (es ! k) = i"
proof (induction es)
  case (Cons r es)
  show ?case
  proof (cases "re_layer r = l \<and> re_expert r = e")
    case True
    then show ?thesis using Cons.prems by (intro exI [of _ 0]) simp
  next
    case False
    then obtain k where "k < length es" "re_layer (es ! k) = l" "re_expert (es ! k) = e"
      "re_record_index (es ! k) = i"
      using Cons by auto
    then show ?thesis by (intro exI [of _ "Suc k"]) simp
  qed
qed simp

lemma record_index_range:
  assumes "bank_ok lay" "record_index lay l e = Inr i"
  shows "0 \<le> i \<and> i < num_records lay"
proof (cases "el_records lay = []")
  case True
  obtain p where p: "list_index (el_layers lay) l = Some p" "0 \<le> e" "e < el_num_experts lay"
    "i = p * el_num_experts lay + e"
    using assms(2) True by (auto simp: record_index_def split: option.splits if_splits)
  have q: "0 \<le> p" "p + 1 \<le> int (length (el_layers lay))" using list_index_nth [OF p(1)] by auto
  have "(p + 1) * el_num_experts lay \<le> int (length (el_layers lay)) * el_num_experts lay"
    using q p by (intro mult_right_mono) auto
  then have "i < int (length (el_layers lay)) * el_num_experts lay"
    using p by (simp add: distrib_right)
  then show ?thesis using p q True by (simp add: num_records_def)
next
  case False
  then obtain k where "k < length (el_records lay)" "re_record_index (el_records lay ! k) = i"
    using assms(2) find_entry_mem by (fastforce simp: record_index_def)
  then show ?thesis using assms(1) False by (auto simp: bank_ok_def num_records_def)
qed

lemma mixed_radix:
  assumes "0 \<le> e" "e < n" "0 \<le> e'" "e' < n" "p * n + e = p' * n + (e' :: int)"
  shows "p = p' \<and> e = e'"
proof -
  have "(p * n + e) div n = p" "(p' * n + e') div n = p'" using assms(1-4) by simp_all
  then show ?thesis using assms(5) by auto
qed

lemma record_index_inj:
  assumes ok: "bank_ok lay" and a: "record_index lay l e = Inr i" and b: "record_index lay l' e' = Inr i"
  shows "l = l' \<and> e = e'"
proof (cases "el_records lay = []")
  case True
  obtain p where p: "list_index (el_layers lay) l = Some p" "0 \<le> e" "e < el_num_experts lay"
    "i = p * el_num_experts lay + e"
    using a True by (auto simp: record_index_def split: option.splits if_splits)
  obtain p' where p': "list_index (el_layers lay) l' = Some p'" "0 \<le> e'" "e' < el_num_experts lay"
    "i = p' * el_num_experts lay + e'"
    using b True by (auto simp: record_index_def split: option.splits if_splits)
  have "p = p'" "e = e'" using mixed_radix [of e "el_num_experts lay" e' p p'] p p' by auto
  then show ?thesis using list_index_nth [OF p(1)] list_index_nth [OF p'(1)] by auto
next
  case False
  obtain k where k: "k < length (el_records lay)" "re_layer (el_records lay ! k) = l"
    "re_expert (el_records lay ! k) = e" "re_record_index (el_records lay ! k) = i"
    using a False find_entry_mem by (fastforce simp: record_index_def)
  obtain k' where k': "k' < length (el_records lay)" "re_layer (el_records lay ! k') = l'"
    "re_expert (el_records lay ! k') = e'" "re_record_index (el_records lay ! k') = i"
    using b False find_entry_mem by (fastforce simp: record_index_def)
  have "int k = int k'" using ok k k' by (auto simp: bank_ok_def)
  then show ?thesis using k k' by auto
qed

text \<open>The region of expert records; the item is the \<open>(layer, expert)\<close> pair.\<close>

definition bank_item :: "expert_layout \<Rightarrow> expert_key \<Rightarrow> bool" where
  "bank_item lay k \<longleftrightarrow> (case record_index lay (fst k) (snd k) of Inr i \<Rightarrow> True | Inl e \<Rightarrow> False)"

definition bank_offset :: "expert_layout \<Rightarrow> expert_key \<Rightarrow> int" where
  "bank_offset lay k = (case byte_range lay (fst k) (snd k) of Inr (a, n) \<Rightarrow> a | Inl e \<Rightarrow> 0)"

definition bank_length :: "expert_layout \<Rightarrow> expert_key \<Rightarrow> int" where
  "bank_length lay k = rl_payload_bytes (el_record lay)"

lemma bank_itemE:
  assumes "bank_item lay k"
  obtains i where "record_index lay (fst k) (snd k) = Inr i"
    "bank_offset lay k = i * rl_stride (el_record lay)"
  using assms by (auto simp: bank_item_def bank_offset_def byte_range_def record_offset_def split: sum.splits)

lemma stride_slots:
  assumes "0 \<le> w" "w \<le> s" "i \<noteq> j"
  shows "i * s + w \<le> j * s \<or> j * s + w \<le> (i :: int) * s"
proof -
  have "(i + 1) * s \<le> j * s \<or> (j + 1) * s \<le> i * s"
    using assms by (cases "i < j") (auto intro!: mult_right_mono)
  then show ?thesis using assms by (auto simp: distrib_right)
qed

interpretation bank: region_layout bank_ok bank_item bank_offset bank_length el_total_bytes
proof
  fix lay k assume ok: "bank_ok lay" and it: "bank_item lay k"
  obtain i where i: "record_index lay (fst k) (snd k) = Inr i" "bank_offset lay k = i * rl_stride (el_record lay)"
    by (rule bank_itemE [OF it])
  have r: "0 \<le> i" "i + 1 \<le> num_records lay" using record_index_range [OF ok i(1)] by auto
  have p: "0 \<le> rl_payload_bytes (el_record lay)" "rl_payload_bytes (el_record lay) \<le> rl_stride (el_record lay)"
    using ok record_ok_payload by (auto simp: bank_ok_def record_ok_def)
  have "(i + 1) * rl_stride (el_record lay) \<le> num_records lay * rl_stride (el_record lay)"
    using r p by (intro mult_right_mono) simp_all
  then show "0 \<le> bank_offset lay k \<and> 0 \<le> bank_length lay k \<and>
    bank_offset lay k + bank_length lay k \<le> el_total_bytes lay"
    using i(2) r p by (simp add: bank_length_def el_total_bytes_def distrib_right)
next
  fix lay k k' assume ok: "bank_ok lay" and it: "bank_item lay k" "bank_item lay k'" and ne: "k \<noteq> k'"
  obtain i where i: "record_index lay (fst k) (snd k) = Inr i" "bank_offset lay k = i * rl_stride (el_record lay)"
    by (rule bank_itemE [OF it(1)])
  obtain j where j: "record_index lay (fst k') (snd k') = Inr j" "bank_offset lay k' = j * rl_stride (el_record lay)"
    by (rule bank_itemE [OF it(2)])
  have "i \<noteq> j" using record_index_inj [OF ok i(1), of "fst k'" "snd k'"] j(1) ne by (auto simp: prod_eq_iff)
  then show "bank_offset lay k + bank_length lay k \<le> bank_offset lay k' \<or>
    bank_offset lay k' + bank_length lay k' \<le> bank_offset lay k"
    unfolding i(2) j(2) bank_length_def using ok record_ok_payload
    by (intro stride_slots) (auto simp: bank_ok_def record_ok_def)
qed

text \<open>The finer region of sections: an item is an expert, a projection and a section of it.\<close>

definition sec_find :: "record_layout \<Rightarrow> string \<Rightarrow> section_kind \<Rightarrow> (projection_layout \<times> section_span) option" where
  "sec_find r name sec =
     (case find_projection (rl_projections r) name of None \<Rightarrow> None
      | Some p \<Rightarrow> map_option (Pair p) (find_span (pl_spans p) sec))"

definition sec_item :: "expert_layout \<Rightarrow> expert_key \<times> string \<times> section_kind \<Rightarrow> bool" where
  "sec_item lay x = (case x of (k, name, sec) \<Rightarrow>
     bank_item lay k \<and> sec_find (el_record lay) name sec \<noteq> None)"

definition sec_offset :: "expert_layout \<Rightarrow> expert_key \<times> string \<times> section_kind \<Rightarrow> int" where
  "sec_offset lay x = (case x of (k, name, sec) \<Rightarrow>
     (case record_index lay (fst k) (snd k) of
        Inr i \<Rightarrow> (case section_offset (el_record lay) i name sec of Inr a \<Rightarrow> a | Inl e \<Rightarrow> 0)
      | Inl e \<Rightarrow> 0))"

definition sec_length :: "expert_layout \<Rightarrow> expert_key \<times> string \<times> section_kind \<Rightarrow> int" where
  "sec_length lay x = (case x of (k, name, sec) \<Rightarrow>
     (case sec_find (el_record lay) name sec of Some (p, s) \<Rightarrow> sp_length s | None \<Rightarrow> 0))"

lemma sec_itemE:
  assumes "sec_item lay (k, name, sec)"
  obtains p s where "bank_item lay k" "find_projection (rl_projections (el_record lay)) name = Some p"
    "find_span (pl_spans p) sec = Some s"
    "sec_offset lay (k, name, sec) = bank_offset lay k + pl_offset p + sp_offset s"
    "sec_length lay (k, name, sec) = sp_length s"
proof -
  obtain i where i: "bank_item lay k" "record_index lay (fst k) (snd k) = Inr i"
    "bank_offset lay k = i * rl_stride (el_record lay)"
    using assms by (auto simp: sec_item_def elim: bank_itemE)
  obtain p s where "find_projection (rl_projections (el_record lay)) name = Some p"
    "find_span (pl_spans p) sec = Some s"
    using assms by (auto simp: sec_item_def sec_find_def split: option.splits)
  then show ?thesis using i
    by (intro that [of p s]) (simp_all add: sec_offset_def sec_length_def section_offset_def
        sec_find_def record_offset_def)
qed

lemma section_in_record:
  assumes "record_ok r" "find_projection (rl_projections r) name = Some p" "find_span (pl_spans p) sec = Some s"
  shows "0 \<le> pl_offset p + sp_offset s" "0 \<le> sp_length s"
    "pl_offset p + sp_offset s + sp_length s \<le> pl_offset p + pl_length p"
    "pl_offset p + sp_offset s + sp_length s \<le> rl_payload_bytes r"
  using projection_range [OF assms(1,2)] span_range [OF _ assms(3)] by (auto simp: pl_length_def)

lemma sections_disjoint:
  assumes "record_ok r" "find_projection (rl_projections r) a = Some p" "find_span (pl_spans p) x = Some s"
    "find_projection (rl_projections r) b = Some q" "find_span (pl_spans q) y = Some t" "(a, x) \<noteq> (b, y)"
  shows "pl_offset p + sp_offset s + sp_length s \<le> pl_offset q + sp_offset t \<or>
    pl_offset q + sp_offset t + sp_length t \<le> pl_offset p + sp_offset s"
proof (cases "a = b")
  case True
  then show ?thesis using span_disjoint [OF _ assms(3), of y t] projection_range [OF assms(1,2)] assms by auto
next
  case False
  note sp = projection_range(4) [OF assms(1,2)] projection_range(4) [OF assms(1,4)]
  show ?thesis
    using projection_disjoint [OF assms(1,2,4) False] span_range [OF sp(1) assms(3)] span_range [OF sp(2) assms(5)]
    by (auto simp: pl_length_def)
qed

interpretation sections: region_layout bank_ok sec_item sec_offset sec_length el_total_bytes
proof
  fix lay x assume ok: "bank_ok lay" and it: "sec_item lay x"
  obtain k name sec where x: "x = (k, name, sec)" by (cases x) auto
  obtain p s where i: "bank_item lay k" "find_projection (rl_projections (el_record lay)) name = Some p"
    "find_span (pl_spans p) sec = Some s"
    "sec_offset lay (k, name, sec) = bank_offset lay k + pl_offset p + sp_offset s"
    "sec_length lay (k, name, sec) = sp_length s"
    using it by (auto simp: x elim: sec_itemE)
  have r: "record_ok (el_record lay)" using ok by (simp add: bank_ok_def)
  show "0 \<le> sec_offset lay x \<and> 0 \<le> sec_length lay x \<and> sec_offset lay x + sec_length lay x \<le> el_total_bytes lay"
    using bank.in_bounds [OF ok i(1)] section_in_record [OF r i(2,3)]
    by (simp add: x i(4,5) bank_length_def)
next
  fix lay x y assume ok: "bank_ok lay" and itx: "sec_item lay x" and ity: "sec_item lay y" and ne: "x \<noteq> y"
  obtain k name sec where x: "x = (k, name, sec)" by (cases x) auto
  obtain k' name' sec' where y: "y = (k', name', sec')" by (cases y) auto
  obtain p s where i: "bank_item lay k" "find_projection (rl_projections (el_record lay)) name = Some p"
    "find_span (pl_spans p) sec = Some s"
    "sec_offset lay (k, name, sec) = bank_offset lay k + pl_offset p + sp_offset s"
    "sec_length lay (k, name, sec) = sp_length s"
    using itx by (auto simp: x elim: sec_itemE)
  obtain q t where j: "bank_item lay k'" "find_projection (rl_projections (el_record lay)) name' = Some q"
    "find_span (pl_spans q) sec' = Some t"
    "sec_offset lay (k', name', sec') = bank_offset lay k' + pl_offset q + sp_offset t"
    "sec_length lay (k', name', sec') = sp_length t"
    using ity by (auto simp: y elim: sec_itemE)
  have r: "record_ok (el_record lay)" using ok by (simp add: bank_ok_def)
  note in1 = section_in_record [OF r i(2,3)] and in2 = section_in_record [OF r j(2,3)]
  show "sec_offset lay x + sec_length lay x \<le> sec_offset lay y \<or>
    sec_offset lay y + sec_length lay y \<le> sec_offset lay x"
    unfolding x y i(4,5) j(4,5)
  proof (cases "k = k'")
    case True
    then have "(name, sec) \<noteq> (name', sec')" using ne by (simp add: x y)
    then show "bank_offset lay k + pl_offset p + sp_offset s + sp_length s \<le> bank_offset lay k' + pl_offset q + sp_offset t \<or>
      bank_offset lay k' + pl_offset q + sp_offset t + sp_length t \<le> bank_offset lay k + pl_offset p + sp_offset s"
      using sections_disjoint [OF r i(2,3) j(2,3)] True by auto
  next
    case False
    then show "bank_offset lay k + pl_offset p + sp_offset s + sp_length s \<le> bank_offset lay k' + pl_offset q + sp_offset t \<or>
      bank_offset lay k' + pl_offset q + sp_offset t + sp_length t \<le> bank_offset lay k + pl_offset p + sp_offset s"
      using bank.disjoint [OF ok i(1) j(1) False] in1 in2 by (auto simp: bank_length_def)
  qed
qed

section \<open>Properties\<close>

text \<open>C22: In a bank without explicit records every expert of a planned layer has one byte range,
  and any other request raises \<open>KeyError\<close>; the ranges lie inside the bank, have the payload
  length of the record and never overlap, so an expert is one read and no write touches another
  expert.\<close>

theorem expert_ranges:
  assumes "bank_ok lay" "el_records lay = []"
  shows "if l \<in> set (el_layers lay) \<and> 0 \<le> e \<and> e < el_num_experts lay
    then \<exists>a. byte_range lay l e = Inr (a, rl_payload_bytes (el_record lay)) \<and> 0 \<le> a \<and>
      a + rl_payload_bytes (el_record lay) \<le> el_total_bytes lay \<and>
      (\<forall>l' e' a' n. (l', e') \<noteq> (l, e) \<longrightarrow> byte_range lay l' e' = Inr (a', n) \<longrightarrow>
         a + rl_payload_bytes (el_record lay) \<le> a' \<or> a' + n \<le> a)
    else byte_range lay l e = Inl KeyError"
proof (cases "l \<in> set (el_layers lay) \<and> 0 \<le> e \<and> e < el_num_experts lay")
  case True
  then obtain p where "list_index (el_layers lay) l = Some p"
    using list_index_None [of "el_layers lay" l] by (cases "list_index (el_layers lay) l") auto
  then have "record_index lay l e = Inr (p * el_num_experts lay + e)"
    using True assms(2) by (simp add: record_index_def)
  then have it: "bank_item lay (l, e)" and a: "byte_range lay l e = Inr (bank_offset lay (l, e), bank_length lay (l, e))"
    by (simp_all add: bank_item_def byte_range_def bank_offset_def bank_length_def)
  have other: "bank_item lay (l', e') \<and> a' = bank_offset lay (l', e') \<and> n = bank_length lay (l', e')"
    if "byte_range lay l' e' = Inr (a', n)" for l' e' a' n
    using that by (auto simp: byte_range_def bank_item_def bank_offset_def bank_length_def bindE_Inr_iff)
  show ?thesis unfolding if_P [OF True]
  proof (intro exI [of _ "bank_offset lay (l, e)"] conjI allI impI)
    show "byte_range lay l e = Inr (bank_offset lay (l, e), rl_payload_bytes (el_record lay))"
      using a by (simp add: bank_length_def)
    show "0 \<le> bank_offset lay (l, e)"
      "bank_offset lay (l, e) + rl_payload_bytes (el_record lay) \<le> el_total_bytes lay"
      using bank.in_bounds [OF assms(1) it] by (simp_all add: bank_length_def)
    fix l' e' a' n assume ne: "(l', e') \<noteq> (l, e)" and r: "byte_range lay l' e' = Inr (a', n)"
    show "bank_offset lay (l, e) + rl_payload_bytes (el_record lay) \<le> a' \<or> a' + n \<le> bank_offset lay (l, e)"
      using bank.disjoint [OF assms(1) it, of "(l', e')"] other [OF r] ne by (auto simp: bank_length_def)
  qed
next
  case False
  then show ?thesis using assms(2) list_index_None [of "el_layers lay" l]
    by (auto simp: byte_range_def record_index_def split: option.splits)
qed

definition demo_bank :: expert_layout where
  "demo_bank = \<lparr>el_num_layers = 2, el_num_experts = 3, el_layers = [4, 7],
     el_record = \<lparr>rl_projections = [\<lparr>pl_name = ''up'', pl_shape = [2, 2], pl_bits = 4, pl_group_size = 2,
         pl_symmetric = True, pl_codec_id = ''c'', pl_offset = 0,
         pl_spans = [\<lparr>sp_section = PACKED, sp_offset = 0, sp_length = 2\<rparr>,
                     \<lparr>sp_section = SCALES, sp_offset = 2, sp_length = 4\<rparr>]\<rparr>],
       rl_payload_bytes = 6, rl_stride = 4096, rl_alignment = 4096\<rparr>, el_records = []\<rparr>"

lemma demo_bank_ok: "bank_ok demo_bank"
  by (simp add: demo_bank_def bank_ok_def record_ok_def projection_segs_def pl_length_def spans_length_def
      spans_ok_def span_segs_def)

theorem expert_ranges_witness:
  "\<exists>a. byte_range demo_bank 7 1 = Inr (a, 6) \<and> 0 \<le> a \<and> a + 6 \<le> el_total_bytes demo_bank"
  using expert_ranges [OF demo_bank_ok, of 7 1] by (auto simp: demo_bank_def)

text \<open>C23: The sections of a record built from well-formed projections never overlap, within one expert or
  across experts: two different triples of an expert, a projection name and a section have
  disjoint byte ranges inside the bank, and each lies inside its expert's one range.\<close>

theorem bank_sections_separate:
  assumes "record_build specs a sb zb = Inr (el_record lay)" "\<forall>s \<in> set specs. spec_ok s"
    and "distinct (map ps_name specs)" "0 \<le> sb" "0 \<le> zb"
    and "el_records lay = []" "0 \<le> el_num_experts lay" "distinct (el_layers lay)"
    and "sec_item lay x" "sec_item lay y" "x \<noteq> y"
  shows "(sec_offset lay x + sec_length lay x \<le> sec_offset lay y \<or>
      sec_offset lay y + sec_length lay y \<le> sec_offset lay x) \<and>
    bank_offset lay (fst x) \<le> sec_offset lay x \<and>
    sec_offset lay x + sec_length lay x \<le> bank_offset lay (fst x) + rl_payload_bytes (el_record lay)"
proof -
  have r: "record_ok (el_record lay)" using record_build_ok [OF assms(2-5), of a] assms(1) by auto
  then have ok: "bank_ok lay" using assms(6-8) by (simp add: bank_ok_def)
  obtain k name sec where x: "x = (k, name, sec)" by (cases x) auto
  obtain p s where "find_projection (rl_projections (el_record lay)) name = Some p"
    "find_span (pl_spans p) sec = Some s"
    "sec_offset lay (k, name, sec) = bank_offset lay k + pl_offset p + sp_offset s"
    "sec_length lay (k, name, sec) = sp_length s"
    using assms(9) by (auto simp: x elim: sec_itemE)
  then show ?thesis using sections.disjoint [OF ok assms(9-11)] section_in_record [OF r, of name p sec s] by (simp add: x)
qed

definition demo_specs :: "projection_spec list" where
  "demo_specs = [\<lparr>ps_name = ''up'', ps_shape = [2, 2], ps_bits = 4, ps_group_size = 2, ps_symmetric = True,
     ps_codec_id = ''c''\<rparr>]"

lemma demo_record: "record_build demo_specs 4096 2 2 = Inr (el_record demo_bank)"
proof -
  have "section_spans [2, 2] (of_int 4) 2 True 2 2 = Inr [\<lparr>sp_section = PACKED, sp_offset = 0, sp_length = 2\<rparr>,
      \<lparr>sp_section = SCALES, sp_offset = 2, sp_length = 4\<rparr>]"
    using section_spans_exact [of "[2, 2]" 2 2 4 2 True 2 2]
    by (simp add: matrix_dims_def resolve_group_size_def ceil_div_def)
  then show ?thesis
    by (simp add: record_build_def demo_specs_def demo_bank_def resolve_group_size_def
        spans_length_def align_up_def Let_def matrix_dims_def)
qed

theorem bank_sections_separate_witness:
  "sec_offset demo_bank ((4, 0), ''up'', PACKED) + 2 \<le> sec_offset demo_bank ((7, 2), ''up'', SCALES) \<or>
   sec_offset demo_bank ((7, 2), ''up'', SCALES) + 4 \<le> sec_offset demo_bank ((4, 0), ''up'', PACKED)"
proof -
  have i: "sec_item demo_bank ((4, 0), ''up'', PACKED)" "sec_item demo_bank ((7, 2), ''up'', SCALES)"
    "sec_length demo_bank ((4, 0), ''up'', PACKED) = 2" "sec_length demo_bank ((7, 2), ''up'', SCALES) = 4"
    by (simp_all add: sec_item_def bank_item_def record_index_def sec_find_def sec_length_def demo_bank_def)
  have "\<forall>s \<in> set demo_specs. spec_ok s" "distinct (map ps_name demo_specs)"
    by (simp_all add: demo_specs_def spec_ok_def matrix_dims_def)
  then show ?thesis using bank_sections_separate [OF demo_record _ _ _ _ _ _ _ i(1,2)] i(3,4)
    by (simp add: demo_bank_def)
qed

end
