(* ===== verification/PleLayout.thy ===== *)
theory PleLayout
  imports BankLayout
begin

text \<open>
  Page-packed PLE rows as a region, and the n-gram hash of \<open>PleIndex.row_id\<close>: it computes in
  64-bit two's complement, and its result stays inside the rows of its head.
\<close>

section \<open>Rows\<close>

definition row_ok :: "ple_row_layout \<Rightarrow> bool" where
  "row_ok r \<longleftrightarrow> 0 < pr_payload_bytes r \<and> 1 \<le> pr_rows_per_page r \<and>
     pr_rows_per_page r * pr_payload_bytes r \<le> pr_page_bytes r"

lemma spans_payload_pos:
  assumes "0 < w" "0 \<le> bits" "0 < sb" "0 \<le> zb"
  shows "\<exists>spans. section_spans [1, w] bits g symm sb zb = Inr spans \<and> spans_ok spans \<and> 0 < spans_length spans"
proof -
  have dims: "matrix_dims [1, w] = (1, w)" by (simp add: matrix_dims_def)
  obtain spans where sp: "section_spans [1, w] bits g symm sb zb = Inr spans" "spans_ok spans"
    using section_spans_ok [OF dims, where bits = bits and sb = sb and zb = zb and g = g and symm = symm] assms by auto
  obtain q where q: "py_truediv w (resolve_group_size w g) = Inr q" "1 \<le> \<lceil>q\<rceil>"
    using groups_per_row [OF assms(1)] by blast
  have "0 < \<lceil>q\<rceil> * sb" using q(2) assms(3) by simp
  moreover have "0 \<le> packed_bytes (\<lceil>q\<rceil> * resolve_group_size w g) bits"
    using q(2) assms resolve_group_size_spec(2) [OF assms(1), of g] by (intro packed_bytes_nonneg) simp_all
  moreover have "0 \<le> \<lceil>q\<rceil> * zb" using q(2) assms(4) by simp
  ultimately have "0 < spans_length spans"
    using sp(1) assms(1) q(1) by (auto simp: section_spans_def dims Let_def spans_length_def split: if_splits)
  then show ?thesis using sp by blast
qed

lemma row_build_ok:
  assumes "0 < w" "0 \<le> bits" "0 < sb" "0 \<le> zb"
  shows "\<exists>r. row_build w bits g symm sb zb page codec = Inr r \<and> row_ok r \<and>
    (pr_page_bytes r = page \<or> pr_rows_per_page r = 1 \<and> 4096 dvd pr_page_bytes r \<and> page < pr_payload_bytes r)"
proof -
  obtain spans where sp: "section_spans [1, w] bits (resolve_group_size w g) symm sb zb = Inr spans" "0 < spans_length spans"
    using spans_payload_pos [OF assms] by blast
  have "page div spans_length spans * spans_length spans \<le> page"
    using sp(2) by (metis div_mult_mod_eq le_add_same_cancel1 pos_mod_sign)
  moreover have "1 \<le> page div spans_length spans" if "spans_length spans \<le> page"
    using that sp(2) by (metis div_self int_one_le_iff_zero_less order_less_irrefl pos_imp_zdiv_pos_iff)
  ultimately show ?thesis
    using sp align_up_ge align_up_dvd [of 4096 "spans_length spans"]
    by (auto simp: row_build_def Let_def row_ok_def max_def not_less)
qed

lemma row_offset_slot:
  assumes "row_ok r"
  shows "row_offset r i = (i div pr_rows_per_page r) * pr_page_bytes r + (i mod pr_rows_per_page r) * pr_payload_bytes r"
    and "0 \<le> (i mod pr_rows_per_page r) * pr_payload_bytes r"
    and "(i mod pr_rows_per_page r) * pr_payload_bytes r + pr_payload_bytes r \<le> pr_page_bytes r"
proof -
  have n: "0 < pr_rows_per_page r" using assms by (simp add: row_ok_def)
  have m: "0 \<le> i mod pr_rows_per_page r" "i mod pr_rows_per_page r + 1 \<le> pr_rows_per_page r"
    using pos_mod_bound [OF n, of i] pos_mod_sign [OF n, of i] by linarith+
  have "(i mod pr_rows_per_page r + 1) * pr_payload_bytes r \<le> pr_rows_per_page r * pr_payload_bytes r"
    using m assms by (intro mult_right_mono) (simp_all add: row_ok_def)
  then show "(i mod pr_rows_per_page r) * pr_payload_bytes r + pr_payload_bytes r \<le> pr_page_bytes r"
    using assms by (simp add: row_ok_def distrib_right)
  show "0 \<le> (i mod pr_rows_per_page r) * pr_payload_bytes r"
    using m assms by (simp add: row_ok_def)
qed (simp add: row_offset_def Let_def)

lemma page_pos: "row_ok r \<Longrightarrow> 0 < pr_page_bytes r"
  using row_offset_slot(2,3) [of r 0] by (simp add: row_ok_def)

lemma row_page:
  assumes "row_ok r" "0 \<le> x" "x < pr_payload_bytes r"
  shows "(row_offset r i + x) div pr_page_bytes r = i div pr_rows_per_page r"
proof -
  note s = row_offset_slot [OF assms(1), of i]
  have "0 < pr_page_bytes r" using assms(1) by (rule page_pos)
  then show ?thesis unfolding s(1) using s(2,3) assms
    by (simp add: add.assoc div_pos_pos_trivial)
qed

definition table_ok :: "ple_row_layout \<times> int \<Rightarrow> bool" where
  "table_ok c \<longleftrightarrow> row_ok (fst c)"

definition table_item :: "ple_row_layout \<times> int \<Rightarrow> int \<Rightarrow> bool" where
  "table_item c i \<longleftrightarrow> 0 \<le> i \<and> i < snd c"

definition table_offset :: "ple_row_layout \<times> int \<Rightarrow> int \<Rightarrow> int" where
  "table_offset c i = row_offset (fst c) i"

definition table_length :: "ple_row_layout \<times> int \<Rightarrow> int \<Rightarrow> int" where
  "table_length c i = pr_payload_bytes (fst c)"

definition table_size :: "ple_row_layout \<times> int \<Rightarrow> int" where
  "table_size c = ceil_div (snd c) (pr_rows_per_page (fst c)) * pr_page_bytes (fst c)"

lemma bytes_for_exact:
  assumes "row_ok r" "0 \<le> n" "n \<le> 2 ^ 52"
  shows "bytes_for r n = Inr (table_size (r, n))"
  using assms ceil_fl_div [of n "pr_rows_per_page r"]
  by (simp add: bytes_for_def table_size_def row_ok_def py_truediv_def)

lemma rows_disjoint:
  assumes ok: "row_ok r" and lt: "i < j"
  shows "row_offset r i + pr_payload_bytes r \<le> row_offset r j"
proof -
  let ?n = "pr_rows_per_page r" and ?P = "pr_page_bytes r" and ?p = "pr_payload_bytes r"
  have P: "0 \<le> ?P" using page_pos [OF ok] by simp
  have n: "0 < ?n" using ok by (simp add: row_ok_def)
  have le: "i div ?n \<le> j div ?n" using lt n by (simp add: zdiv_mono1)
  show ?thesis
  proof (cases "i div ?n = j div ?n")
    case True
    then have "i mod ?n < j mod ?n" using lt by (metis add.commute mult_div_mod_eq add_less_cancel_left)
    then have "(i mod ?n + 1) * ?p \<le> (j mod ?n) * ?p"
      using ok by (intro mult_right_mono) (simp_all add: row_ok_def)
    then show ?thesis using True by (simp add: row_offset_slot(1) [OF ok] distrib_right)
  next
    case False
    then have "(i div ?n + 1) * ?P \<le> (j div ?n) * ?P" using le P by (intro mult_right_mono) simp_all
    then show ?thesis using row_offset_slot [OF ok, of i] row_offset_slot [OF ok, of j]
      by (simp add: distrib_right)
  qed
qed

interpretation rows: region_layout table_ok table_item table_offset table_length table_size
proof
  fix c i assume "table_ok c" and it: "table_item c i"
  then have ok: "row_ok (fst c)" by (simp add: table_ok_def)
  note s = row_offset_slot [OF ok, of i]
  let ?n = "pr_rows_per_page (fst c)"
  have n: "0 < ?n" using ok by (simp add: row_ok_def)
  have "i div ?n < ceil_div (snd c) ?n"
  proof -
    have "snd c \<le> ceil_div (snd c) ?n * ?n" using n by (rule ceil_div_ge)
    then have "i < ceil_div (snd c) ?n * ?n" using it by (simp add: table_item_def)
    then show ?thesis by (rule div_less_of_mult [OF n])
  qed
  then have "(i div ?n + 1) * pr_page_bytes (fst c) \<le> table_size c"
    unfolding table_size_def using page_pos [OF ok] by (intro mult_right_mono) simp_all
  moreover have "0 \<le> (i div ?n) * pr_page_bytes (fst c)"
    using it n page_pos [OF ok] by (intro mult_nonneg_nonneg) (simp_all add: table_item_def pos_imp_zdiv_nonneg_iff)
  ultimately show "0 \<le> table_offset c i \<and> 0 \<le> table_length c i \<and> table_offset c i + table_length c i \<le> table_size c"
    using s ok by (simp add: table_offset_def table_length_def distrib_right row_ok_def)
next
  fix c and i j :: int assume "table_ok c" "i \<noteq> j"
  then show "table_offset c i + table_length c i \<le> table_offset c j \<or> table_offset c j + table_length c j \<le> table_offset c i"
    using rows_disjoint [of "fst c" i j] rows_disjoint [of "fst c" j i]
    by (auto simp: table_ok_def table_offset_def table_length_def neq_iff)
qed

section \<open>The n-gram hash\<close>

lemma signed_int64_word: "signed_int64 v = sint (word_of_int v :: 64 word)"
proof -
  have e: "sint (word_of_int v :: 64 word) = (v + 2 ^ 63) mod 2 ^ 64 - 2 ^ 63"
    using int_word_sint [of v, where 'a = 64] by simp
  define w where "w = v mod 2 ^ 64"
  have m: "0 \<le> w" "w < 2 ^ 64" by (simp_all add: w_def)
  have "(v + 2 ^ 63) mod 2 ^ 64 = (w + 2 ^ 63) mod 2 ^ 64" unfolding w_def by (simp add: mod_add_left_eq)
  also have "\<dots> = (if 2 ^ 63 \<le> w then w - 2 ^ 63 else w + 2 ^ 63)"
  proof (cases "2 ^ 63 \<le> w")
    case True
    have "w + 2 ^ 63 = w - 2 ^ 63 + 2 ^ 64" by simp
    then have "(w + 2 ^ 63) mod 2 ^ 64 = (w - 2 ^ 63) mod 2 ^ 64" by (simp only: mod_add_self2)
    also have "\<dots> = w - 2 ^ 63" using True m by simp
    finally show ?thesis using True by simp
  next
    case False
    then show ?thesis using m by simp
  qed
  finally show ?thesis by (simp add: e signed_int64_def Let_def w_def)
qed

text \<open>The hash as machine arithmetic on 64-bit words.\<close>

definition ngram_hash :: "int list \<Rightarrow> int list \<Rightarrow> 64 word" where
  "ngram_hash mults tokens =
     foldl (\<lambda>acc (t, m). xor acc (word_of_int t * word_of_int m)) 0 (zip tokens mults)"

lemma word_of_int_xor: "word_of_int (xor a b) = xor (word_of_int a) (word_of_int b :: 64 word)"
  by transfer simp

lemma hash_tokens_word:
  assumes "length tokens + p \<le> length mults"
  shows "hash_tokens mults tokens (int p) (sint (w :: 64 word)) =
    Inr (sint (foldl (\<lambda>acc (t, m). xor acc (word_of_int t * word_of_int m)) w (zip tokens (drop p mults))))"
  using assms
proof (induction tokens arbitrary: p w)
  case (Cons t ts)
  have p: "p < length mults" using Cons.prems by simp
  have step: "signed_int64 (xor (sint w) (signed_int64 (t * m))) =
      sint (xor w (word_of_int t * word_of_int m))" for m
    by (simp add: signed_int64_word word_of_int_xor)
  have "py_nth mults (int p) = Inr (mults ! p)" using p by (simp add: py_nth_def)
  moreover have "drop p mults = mults ! p # drop (Suc p) mults" using p by (simp add: Cons_nth_drop_Suc)
  moreover have "int p + 1 = int (Suc p)" by simp
  ultimately show ?case using Cons.IH [of "Suc p"] Cons.prems by (simp add: step Let_def add.commute)
qed simp

lemma hash_tokens_ngram:
  "length tokens \<le> length mults \<Longrightarrow> hash_tokens mults tokens 0 0 = Inr (sint (ngram_hash mults tokens))"
  using hash_tokens_word [of tokens 0 mults 0] by (simp add: ngram_hash_def)

text \<open>The head table that \<open>build_ple_index\<close> assembles and the validator checks.\<close>

definition index_ok :: "ple_index \<Rightarrow> bool" where
  "index_ok ix \<longleftrightarrow>
     pi_num_heads ix = int (length (pi_head_offsets ix)) \<and>
     pi_num_heads ix = int (length (pi_head_vocab_sizes ix)) \<and>
     pi_ngram_size ix = int (length (pi_layer_multipliers ix)) \<and>
     0 < pi_heads_per_ngram ix \<and>
     pi_num_heads ix \<le> pi_heads_per_ngram ix * (pi_ngram_size ix - 1) \<and>
     (\<forall>v \<in> set (pi_head_vocab_sizes ix). 0 < v)"

definition ngram_order :: "ple_index \<Rightarrow> int \<Rightarrow> int" where
  "ngram_order ix head = 2 + head div pi_heads_per_ngram ix"

lemma ngram_order_bounds:
  assumes "index_ok ix" "0 \<le> head" "head < pi_num_heads ix"
  shows "2 \<le> ngram_order ix head" "ngram_order ix head \<le> pi_ngram_size ix"
proof -
  have h: "0 < pi_heads_per_ngram ix" "head < (pi_ngram_size ix - 1) * pi_heads_per_ngram ix"
    using assms by (auto simp: index_ok_def mult.commute)
  show "2 \<le> ngram_order ix head" using h assms by (simp add: ngram_order_def pos_imp_zdiv_nonneg_iff)
  show "ngram_order ix head \<le> pi_ngram_size ix"
    using div_less_of_mult [OF h] by (simp add: ngram_order_def)
qed

lemma vocab_pos:
  assumes "index_ok ix" "0 \<le> head" "head < pi_num_heads ix"
  shows "0 < pi_head_vocab_sizes ix ! nat head"
proof -
  have "nat head < length (pi_head_vocab_sizes ix)" using assms unfolding index_ok_def by linarith
  then have "pi_head_vocab_sizes ix ! nat head \<in> set (pi_head_vocab_sizes ix)" by (rule nth_mem)
  then show ?thesis using assms(1) by (simp add: index_ok_def)
qed

lemma row_id_value:
  assumes ix: "index_ok ix" and h: "0 \<le> head" "head < pi_num_heads ix"
    and t: "ngram_order ix head \<le> int (length tokens)"
  shows "row_id ix head tokens = Inr (pi_head_offsets ix ! nat head +
    sint (ngram_hash (pi_layer_multipliers ix) (rev (py_last_n tokens (ngram_order ix head))))
      mod (pi_head_vocab_sizes ix ! nat head))"
proof -
  have v: "0 < pi_head_vocab_sizes ix ! nat head" by (rule vocab_pos [OF ix h])
  have "int (length (py_last_n tokens (ngram_order ix head))) = ngram_order ix head"
    using t ngram_order_bounds [OF ix h] by (simp add: py_last_n_def)
  then have "length (rev (py_last_n tokens (ngram_order ix head))) \<le> length (pi_layer_multipliers ix)"
    using ngram_order_bounds [OF ix h] ix by (simp add: index_ok_def)
  then have "hash_tokens (pi_layer_multipliers ix) (rev (py_last_n tokens (ngram_order ix head))) 0 0 =
    Inr (sint (ngram_hash (pi_layer_multipliers ix) (rev (py_last_n tokens (ngram_order ix head)))))"
    by (rule hash_tokens_ngram)
  then show ?thesis using v ix h t
    by (simp add: row_id_def ngram_order_def Let_def index_ok_def py_nth_def)
qed

lemma row_id_in_head:
  assumes "index_ok ix" "0 \<le> head" "head < pi_num_heads ix" "ngram_order ix head \<le> int (length tokens)"
  shows "\<exists>row. row_id ix head tokens = Inr row \<and> pi_head_offsets ix ! nat head \<le> row \<and>
    row < pi_head_offsets ix ! nat head + pi_head_vocab_sizes ix ! nat head"
proof -
  have v: "0 < pi_head_vocab_sizes ix ! nat head" by (rule vocab_pos [OF assms(1-3)])
  show ?thesis
    using pos_mod_sign [OF v] pos_mod_bound [OF v] row_id_value [OF assms] by auto
qed

lemma row_id_suffix:
  assumes "index_ok ix" "0 \<le> head" "head < pi_num_heads ix" "pi_ngram_size ix \<le> int (length tokens)"
  shows "row_id ix head (history @ tokens) = row_id ix head tokens"
proof -
  have "ngram_order ix head \<le> int (length tokens)" "2 \<le> ngram_order ix head"
    using ngram_order_bounds [OF assms(1-3)] assms(4) by auto
  then have "py_last_n (history @ tokens) (ngram_order ix head) = py_last_n tokens (ngram_order ix head)"
    and "ngram_order ix head \<le> int (length tokens)"
    by (auto simp: py_last_n_def)
  then show ?thesis using row_id_value [OF assms(1-3)] by simp
qed

section \<open>The shard map\<close>

lemma find_shard_mem:
  "find_shard sh x = Inr y \<Longrightarrow> \<exists>s \<in> set sh. sm_logical_first_row s \<le> x \<and>
     x < sm_logical_first_row s + sm_num_rows s \<and> y = sm_physical_first_row s + (x - sm_logical_first_row s)"
  by (induction sh) (auto split: if_splits)

lemma find_shard_total:
  "s \<in> set sh \<Longrightarrow> sm_logical_first_row s \<le> x \<Longrightarrow> x < sm_logical_first_row s + sm_num_rows s \<Longrightarrow>
     \<exists>y. find_shard sh x = Inr y"
  by (induction sh) auto

text \<open>Disjoint physical ranges make the address translation injective.\<close>

definition shards_ok :: "shard_mapping list \<Rightarrow> bool" where
  "shards_ok sh \<longleftrightarrow> (\<forall>s \<in> set sh. \<forall>t \<in> set sh. s \<noteq> t \<longrightarrow>
     sm_physical_first_row s + sm_num_rows s \<le> sm_physical_first_row t \<or>
     sm_physical_first_row t + sm_num_rows t \<le> sm_physical_first_row s)"

lemma find_shard_inj:
  assumes "shards_ok sh" "find_shard sh x = Inr z" "find_shard sh y = Inr z"
  shows "x = y"
proof -
  obtain s where s: "s \<in> set sh" "sm_logical_first_row s \<le> x" "x < sm_logical_first_row s + sm_num_rows s"
    "z = sm_physical_first_row s + (x - sm_logical_first_row s)"
    using find_shard_mem [OF assms(2)] by blast
  obtain t where t: "t \<in> set sh" "sm_logical_first_row t \<le> y" "y < sm_logical_first_row t + sm_num_rows t"
    "z = sm_physical_first_row t + (y - sm_logical_first_row t)"
    using find_shard_mem [OF assms(3)] by blast
  have "s = t"
  proof (rule ccontr)
    assume "s \<noteq> t"
    then have "sm_physical_first_row s + sm_num_rows s \<le> sm_physical_first_row t \<or>
      sm_physical_first_row t + sm_num_rows t \<le> sm_physical_first_row s"
      using assms(1) s(1) t(1) by (simp add: shards_ok_def)
    then show False using s(2-4) t(2-4) by linarith
  qed
  then show ?thesis using s(4) t(4) by simp
qed

section \<open>Properties\<close>

text \<open>C19: A built PLE row layout never lets a row cross a page: every byte of row \<open>i\<close> is on
  the page \<open>i div rows_per_page\<close>. Rows never overlap, and the page has the requested size
  unless a single row is larger, which then has aligned pages of its own.\<close>

theorem row_on_one_page:
  assumes "0 < w" "0 \<le> bits" "0 < sb" "0 \<le> zb" "row_build w bits g symm sb zb page codec = Inr r"
    and "0 \<le> x" "x < pr_payload_bytes r" "i < j"
  shows "(row_offset r i + x) div pr_page_bytes r = i div pr_rows_per_page r \<and>
    row_offset r i + pr_payload_bytes r \<le> row_offset r j \<and>
    (pr_page_bytes r = page \<or> pr_rows_per_page r = 1 \<and> 4096 dvd pr_page_bytes r \<and> page < pr_payload_bytes r)"
proof -
  obtain r' where "row_build w bits g symm sb zb page codec = Inr r'" "row_ok r'"
    "pr_page_bytes r' = page \<or> pr_rows_per_page r' = 1 \<and> 4096 dvd pr_page_bytes r' \<and> page < pr_payload_bytes r'"
    using row_build_ok [OF assms(1-4)] by blast
  then have ok: "row_ok r" and
    p: "pr_page_bytes r = page \<or> pr_rows_per_page r = 1 \<and> 4096 dvd pr_page_bytes r \<and> page < pr_payload_bytes r"
    using assms(5) by simp_all
  show ?thesis using row_page [OF ok assms(6,7)] rows_disjoint [OF ok assms(8)] p by simp
qed

definition demo_row :: ple_row_layout where
  "demo_row = \<lparr>pr_row_width = 4, pr_bits = 4, pr_group_size = 4, pr_symmetric = True,
     pr_codec_id = ''c'', pr_payload_bytes = 4, pr_rows_per_page = 1024, pr_page_bytes = 4096\<rparr>"

lemma demo_row_build: "row_build 4 4 64 True 2 2 4096 ''c'' = Inr demo_row"
proof -
  have "section_spans [1, 4] (of_int 4) 4 True 2 2 = Inr [\<lparr>sp_section = PACKED, sp_offset = 0, sp_length = 2\<rparr>,
      \<lparr>sp_section = SCALES, sp_offset = 2, sp_length = 2\<rparr>]"
    using section_spans_exact [of "[1, 4]" 1 4 4 4 True 2 2]
    by (simp add: matrix_dims_def resolve_group_size_def ceil_div_def)
  then show ?thesis
    by (simp add: row_build_def resolve_group_size_def spans_length_def Let_def demo_row_def)
qed

theorem row_on_one_page_witness:
  "(row_offset demo_row 1023 + 3) div 4096 = 0 \<and> row_offset demo_row 1023 + 4 \<le> row_offset demo_row 1024"
  using row_on_one_page [OF _ _ _ _ demo_row_build, of 3 1023 1024] by (simp add: demo_row_def)

text \<open>C24: \<open>row_id\<close>, written with unbounded Python integers, masks and a sign fix-up, is exactly
  the 64-bit machine hash of the reversed last \<open>n\<close> tokens (the wrapped products of tokens
  and multipliers, xored), reduced modulo the head's table size: the row lies in its head's
  table whatever the sign of the hash, and tokens older than the n-gram do not matter.\<close>

theorem row_id_machine_hash:
  assumes "index_ok ix" "0 \<le> head" "head < pi_num_heads ix" "pi_ngram_size ix \<le> int (length tokens)"
  shows "\<exists>row. row_id ix head (history @ tokens) = Inr row \<and>
    row = pi_head_offsets ix ! nat head +
      sint (foldl (\<lambda>acc (t, m). xor acc (word_of_int t * word_of_int m :: 64 word)) 0
        (zip (rev (py_last_n tokens (2 + head div pi_heads_per_ngram ix))) (pi_layer_multipliers ix)))
      mod (pi_head_vocab_sizes ix ! nat head) \<and>
    pi_head_offsets ix ! nat head \<le> row \<and> row < pi_head_offsets ix ! nat head + pi_head_vocab_sizes ix ! nat head"
proof -
  have t: "ngram_order ix head \<le> int (length tokens)" using ngram_order_bounds [OF assms(1-3)] assms(4) by simp
  show ?thesis
    using row_id_suffix [OF assms] row_id_value [OF assms(1-3) t] row_id_in_head [OF assms(1-3) t]
    by (auto simp: ngram_hash_def ngram_order_def)
qed

definition demo_index :: ple_index where
  "demo_index = \<lparr>pi_ngram_size = 2, pi_num_heads = 1, pi_heads_per_ngram = 1, pi_head_offsets = [100],
     pi_head_vocab_sizes = [7], pi_layer_multipliers = [3, 5], pi_total_rows = 107, pi_physical_rows = 107,
     pi_shards = [\<lparr>sm_shard_index = 1, sm_logical_first_row = 50, sm_physical_first_row = 0, sm_num_rows = 57\<rparr>,
       \<lparr>sm_shard_index = 0, sm_logical_first_row = 0, sm_physical_first_row = 57, sm_num_rows = 50\<rparr>],
     pi_row = demo_row, pi_source_layer = 0\<rparr>"

theorem row_id_machine_hash_witness:
  "\<exists>row. row_id demo_index 0 [9, 9, 11, 12] = Inr row \<and> 100 \<le> row \<and> row < 107"
  using row_id_machine_hash [of demo_index 0 "[11, 12]" "[9, 9]"] by (auto simp: demo_index_def index_ok_def)

text \<open>The logical-to-physical address translation of a shard map with disjoint physical ranges is
  defined on exactly the rows that some shard covers and never maps two logical rows to one
  physical row.\<close>

theorem physical_row_translation:
  assumes "shards_ok (pi_shards ix)"
  shows "((\<exists>y. physical_row_id ix x = Inr y) \<longleftrightarrow>
      (\<exists>s \<in> set (pi_shards ix). sm_logical_first_row s \<le> x \<and> x < sm_logical_first_row s + sm_num_rows s)) \<and>
    (physical_row_id ix x = Inr z \<longrightarrow> physical_row_id ix y = Inr z \<longrightarrow> x = y)"
  using find_shard_inj [OF assms, of x z y] find_shard_mem [of "pi_shards ix" x] find_shard_total [of _ "pi_shards ix" x]
  by (auto simp: physical_row_id_def)

theorem physical_row_translation_witness:
  "\<exists>y. physical_row_id demo_index 3 = Inr y"
proof -
  have "shards_ok (pi_shards demo_index)" by (simp add: demo_index_def shards_ok_def)
  then show ?thesis using physical_row_translation [of demo_index 3 0 0] by (simp add: demo_index_def)
qed

end
