(* ===== verification/PyStr.thy ===== *)
theory PyStr
  imports Prelude
begin

text \<open>
  The string operations the code uses, on ASCII strings: prefix, suffix and substring tests,
  upper case, replacement, splitting, decimal printing and reading of integers. Printing is
  injective, which the journal and the validator rely on when they key checksums by
  \<open>str(index)\<close>.
\<close>

definition is_digit :: "char \<Rightarrow> bool" where
  "is_digit c \<longleftrightarrow> 48 \<le> (of_char c :: nat) \<and> (of_char c :: nat) \<le> 57"

definition ascii_upper :: "char \<Rightarrow> char" where
  "ascii_upper c = (if 97 \<le> (of_char c :: nat) \<and> (of_char c :: nat) \<le> 122
     then char_of ((of_char c :: nat) - 32) else c)"

definition str_upper :: "string \<Rightarrow> string" where
  "str_upper s = map ascii_upper s"

text \<open>\<open>strip()\<close> and \<open>lower()\<close> on ASCII\<close>

definition is_space :: "char \<Rightarrow> bool" where
  "is_space c \<longleftrightarrow> (of_char c :: nat) \<in> {9, 10, 11, 12, 13, 28, 29, 30, 31, 32}"

definition str_strip :: "string \<Rightarrow> string" where
  "str_strip s = rev (dropWhile is_space (rev (dropWhile is_space s)))"

definition str_lower :: "string \<Rightarrow> string" where
  "str_lower s = map (\<lambda>c. if 65 \<le> (of_char c :: nat) \<and> (of_char c :: nat) \<le> 90
     then char_of ((of_char c :: nat) + 32) else c) s"

definition str_startswith :: "string \<Rightarrow> string \<Rightarrow> bool" where
  "str_startswith s p \<longleftrightarrow> take (length p) s = p"

definition str_endswith :: "string \<Rightarrow> string \<Rightarrow> bool" where
  "str_endswith s p \<longleftrightarrow> length p \<le> length s \<and> drop (length s - length p) s = p"

text \<open>\<open>p in s\<close>\<close>

fun str_contains :: "string \<Rightarrow> string \<Rightarrow> bool" where
  "str_contains [] p = (p = [])"
| "str_contains (c # s) p = (str_startswith (c # s) p \<or> str_contains s p)"

text \<open>\<open>s.replace(old, new)\<close> for a nonempty \<open>old\<close>, from the left and without overlaps.\<close>

function str_replace :: "string \<Rightarrow> string \<Rightarrow> string \<Rightarrow> string" where
  "str_replace s old new =
     (if s = [] \<or> old = [] then s
      else if str_startswith s old then new @ str_replace (drop (length old) s) old new
      else hd s # str_replace (tl s) old new)"
  by pat_completeness auto
termination by (relation "measure (\<lambda>(s, old, new). length s)") auto

declare str_replace.simps [simp del]

text \<open>\<open>s.split(c)\<close> for one character.\<close>

fun str_split :: "char \<Rightarrow> string \<Rightarrow> string list" where
  "str_split c [] = [[]]"
| "str_split c (x # s) =
     (if x = c then [] # str_split c s
      else (case str_split c s of [] \<Rightarrow> [[x]] | w # ws \<Rightarrow> (x # w) # ws))"

lemma str_split_nonempty [simp]: "str_split c s \<noteq> []"
  by (cases s) (auto split: list.splits)

section \<open>Decimal numbers\<close>

function nat_digits :: "nat \<Rightarrow> string" where
  "nat_digits n = (if n < 10 then [char_of (48 + n)] else nat_digits (n div 10) @ [char_of (48 + n mod 10)])"
  by pat_completeness auto
termination by (relation "measure id") auto

declare nat_digits.simps [simp del]

definition py_str :: "int \<Rightarrow> string" where
  "py_str i = (if i < 0 then CHR ''-'' # nat_digits (nat (- i)) else nat_digits (nat i))"

text \<open>\<open>int(s)\<close> of a string of digits\<close>

definition dec_value :: "string \<Rightarrow> nat" where
  "dec_value s = foldl (\<lambda>a c. a * 10 + (of_char c - 48)) 0 s"

lemma of_char_digit: "n < 10 \<Longrightarrow> of_char (char_of (48 + n) :: char) = 48 + (n :: nat)"
  by simp

lemma dec_value_digits [simp]: "dec_value (nat_digits n) = n"
proof (induction n rule: nat_digits.induct)
  case (1 n)
  show ?case
  proof (cases "n < 10")
    case True
    then show ?thesis by (simp add: nat_digits.simps [of n] dec_value_def of_char_digit)
  next
    case False
    then have "dec_value (nat_digits n) = dec_value (nat_digits (n div 10)) * 10 + n mod 10"
      by (subst nat_digits.simps) (simp add: dec_value_def of_char_digit)
    then show ?thesis using 1 False by simp
  qed
qed

lemma nat_digits_chars: "c \<in> set (nat_digits n) \<Longrightarrow> is_digit c"
proof (induction n rule: nat_digits.induct)
  case (1 n)
  show ?case
  proof (cases "n < 10")
    case True
    then show ?thesis using "1.prems" by (simp add: nat_digits.simps [of n] is_digit_def of_char_digit)
  next
    case False
    then have "c \<in> set (nat_digits (n div 10)) \<or> c = char_of (48 + n mod 10)"
      using "1.prems" by (auto simp: nat_digits.simps [of n])
    then show ?thesis using 1 False by (auto simp: is_digit_def of_char_digit)
  qed
qed

lemma nat_digits_nonempty [simp]: "nat_digits n \<noteq> []"
  by (subst nat_digits.simps) auto

lemma py_str_inj: "py_str a = py_str b \<Longrightarrow> a = b"
proof -
  assume e: "py_str a = py_str b"
  have minus: "CHR ''-'' \<notin> set (nat_digits n)" for n
    using nat_digits_chars [of "CHR ''-''" n] by (auto simp: is_digit_def)
  have sgn: "a < 0 \<longleftrightarrow> b < 0"
  proof (rule ccontr)
    assume "\<not> (a < 0 \<longleftrightarrow> b < 0)"
    then have "CHR ''-'' \<in> set (nat_digits (nat a)) \<or> CHR ''-'' \<in> set (nat_digits (nat b))"
      using e by (auto simp: py_str_def) (metis list.set_intros(1))+
    then show False using minus by blast
  qed
  have d: "nat_digits x = nat_digits y \<Longrightarrow> x = y" for x y
    using dec_value_digits by metis
  show "a = b" using e sgn d [of "nat a" "nat b"] d [of "nat (- a)" "nat (- b)"]
    by (auto simp: py_str_def split: if_splits)
qed

lemma inj_py_str: "inj py_str"
  by (rule injI) (rule py_str_inj)

lemma py_str_eq [simp]: "py_str a = py_str b \<longleftrightarrow> a = b"
  using py_str_inj by blast

end
