(* ===== verification/Classify.thy ===== *)
theory Classify
  imports PyStr Odict
begin

text \<open>
  The component taxonomy of \<open>audit/classify.py\<close>: the ordered rules as regular expressions with
  Python's search semantics, the first-match resolution, and the aggregation over a checkpoint.
  The lemmas show what the order of the rules protects: gains, decay rates and gates never
  reach a family that is quantized, and every tensor is counted once.
\<close>

section \<open>Regular expressions\<close>

text \<open>The constructs the patterns use: \<open>^\<close>, \<open>$\<close>, a literal, a character class, digits
  (\<open>\d+\<close>), concatenation and alternation.\<close>

datatype rx = RBegin | REnd | RLit string | ROneOf string | RDigits | RSeq rx rx | RAlt rx rx

text \<open>The positions at which a match of the expression from position \<open>i\<close> may end.\<close>

fun digit_run :: "string \<Rightarrow> nat" where
  "digit_run [] = 0"
| "digit_run (c # s) = (if is_digit c then Suc (digit_run s) else 0)"

fun rx_ends :: "rx \<Rightarrow> string \<Rightarrow> nat \<Rightarrow> nat list" where
  "rx_ends RBegin s i = (if i = 0 then [i] else [])"
| "rx_ends REnd s i = (if i = length s \<or> Suc i = length s \<and> s ! i = CHR 0x0A then [i] else [])"
| "rx_ends (RLit w) s i = (if str_startswith (drop i s) w then [i + length w] else [])"
| "rx_ends (ROneOf cs) s i = (if i < length s \<and> s ! i \<in> set cs then [Suc i] else [])"
| "rx_ends RDigits s i = map (\<lambda>k. i + Suc k) [0 ..< digit_run (drop i s)]"
| "rx_ends (RSeq a b) s i = concat (map (rx_ends b s) (rx_ends a s i))"
| "rx_ends (RAlt a b) s i = rx_ends a s i @ rx_ends b s i"

definition rx_search :: "rx \<Rightarrow> string \<Rightarrow> bool" where
  "rx_search r s \<longleftrightarrow> (\<exists>i \<in> set [0 ..< Suc (length s)]. rx_ends r s i \<noteq> [])"

section \<open>Taxonomy\<close>

datatype component =
    EXPERTS_ROUTED | SHARED_EXPERT | ROUTER | PLE_TABLE | PLE_PROJ | GDN_ATTN | FULL_ATTN
  | HYPERCONN | MLP_DENSE | EMBED | LM_HEAD | VISION | MTP | NORM | OTHER

datatype capability = TEXT | CAP_VISION | CAP_MTP

datatype tier = VRAM_HOT | RAM_WARM | NVME_COLD

datatype activation = DENSE | ROUTED | ROW_LOOKUP

record classification_rule =
  cr_pattern :: rx
  cr_component :: component
  cr_capability :: capability
  cr_tier :: tier
  cr_activation :: activation

definition rule_matches :: "classification_rule \<Rightarrow> string \<Rightarrow> bool" where
  "rule_matches r name = rx_search (cr_pattern r) name"

text \<open>A rule with the defaults of the class.\<close>

definition simple_rule :: "rx \<Rightarrow> component \<Rightarrow> classification_rule" where
  "simple_rule p c = \<lparr>cr_pattern = p, cr_component = c, cr_capability = TEXT, cr_tier = VRAM_HOT,
     cr_activation = DENSE\<rparr>"

definition DEFAULT_RULES :: "classification_rule list" where
  "DEFAULT_RULES =
    [\<lparr>cr_pattern = RSeq (RAlt RBegin (RLit ''.'')) (RLit ''visual.''), cr_component = VISION,
      cr_capability = CAP_VISION, cr_tier = NVME_COLD, cr_activation = DENSE\<rparr>,
     \<lparr>cr_pattern = RSeq RBegin (RSeq (RLit ''vision_'') (RSeq (RAlt (RLit ''tower'') (RLit ''model'')) (RLit ''.''))),
      cr_component = VISION, cr_capability = CAP_VISION, cr_tier = NVME_COLD, cr_activation = DENSE\<rparr>,
     \<lparr>cr_pattern = RSeq RBegin (RLit ''mtp.''), cr_component = MTP, cr_capability = CAP_MTP,
      cr_tier = NVME_COLD, cr_activation = DENSE\<rparr>,
     \<lparr>cr_pattern = RLit ''.ngram_embedding.'', cr_component = PLE_TABLE, cr_capability = TEXT,
      cr_tier = NVME_COLD, cr_activation = ROW_LOOKUP\<rparr>,
     simple_rule (RLit ''.ple.'') PLE_PROJ,
     \<lparr>cr_pattern = RSeq (RLit ''.mlp.experts'') (ROneOf ''._''), cr_component = EXPERTS_ROUTED,
      cr_capability = TEXT, cr_tier = NVME_COLD, cr_activation = ROUTED\<rparr>,
     \<lparr>cr_pattern = RSeq (RLit ''.experts.'') (RSeq RDigits (RLit ''.'')), cr_component = EXPERTS_ROUTED,
      cr_capability = TEXT, cr_tier = NVME_COLD, cr_activation = ROUTED\<rparr>,
     simple_rule (RLit ''shared_expert_gate'') ROUTER,
     simple_rule (RLit ''shared_expert'') SHARED_EXPERT,
     simple_rule (RSeq (RLit ''.mlp.gate.weight'') REnd) ROUTER,
     simple_rule (RSeq (RLit ''.'') (RSeq (RAlt (RLit ''gate'') (RLit ''router'')) (RSeq (RLit ''.'')
       (RSeq (RAlt (RLit ''weight'') (RLit ''bias'')) REnd)))) ROUTER,
     simple_rule (RSeq (RLit ''.e_score_correction_bias'') REnd) ROUTER,
     \<lparr>cr_pattern = RSeq (RLit ''embed_tokens.weight'') REnd, cr_component = EMBED, cr_capability = TEXT,
      cr_tier = RAM_WARM, cr_activation = ROW_LOOKUP\<rparr>,
     simple_rule (RSeq RBegin (RLit ''lm_head.'')) LM_HEAD,
     simple_rule (RLit ''hyper_connection'') HYPERCONN,
     simple_rule (RAlt (RLit ''norm'') (RAlt (RLit ''layernorm'') (RLit ''.ln_''))) NORM,
     simple_rule (RSeq (RLit ''.'') (RSeq (RAlt (RLit ''A_log'') (RLit ''dt_bias'')) REnd)) NORM,
     simple_rule (RLit ''.linear_attn.'') GDN_ATTN,
     simple_rule (RLit ''.self_attn.'') FULL_ATTN,
     simple_rule (RLit ''.attn.'') FULL_ATTN,
     simple_rule (RLit ''.mlp.'') MLP_DENSE]"

definition other_rule :: classification_rule where
  "other_rule = simple_rule (RLit '''') OTHER"

fun first_match :: "classification_rule list \<Rightarrow> string \<Rightarrow> classification_rule" where
  "first_match [] name = other_rule"
| "first_match (r # rules) name = (if rule_matches r name then r else first_match rules name)"

definition classify_tensor :: "string \<Rightarrow> classification_rule list option \<Rightarrow> classification_rule" where
  "classify_tensor name rules = first_match (case rules of Some rs \<Rightarrow> rs | None \<Rightarrow> DEFAULT_RULES) name"

section \<open>Tensors and aggregates\<close>

record tensor_address =
  ta_name :: string
  ta_shard :: string
  ta_dtype :: string
  ta_shape :: "int list"
  ta_byte_start :: int
  ta_byte_end :: int
  ta_num_params :: int
  ta_size_bytes :: int

record classified_tensor =
  ct_address :: tensor_address
  ct_component :: component
  ct_capability :: capability
  ct_tier :: tier
  ct_activation :: activation

record component_stats =
  cs_component :: component
  cs_capability :: capability
  cs_tier :: tier
  cs_activation :: activation
  cs_num_tensors :: int
  cs_params :: int
  cs_bytes_source :: int

record component_breakdown =
  cb_stats :: "(component, component_stats) odict"
  cb_unclassified :: "string list"

definition cb_total_params :: "component_breakdown \<Rightarrow> int" where
  "cb_total_params b = sum_list (map (\<lambda>(c, s). cs_params s) (cb_stats b))"

definition cb_total_bytes :: "component_breakdown \<Rightarrow> int" where
  "cb_total_bytes b = sum_list (map (\<lambda>(c, s). cs_bytes_source s) (cb_stats b))"

definition params_of :: "component_breakdown \<Rightarrow> component \<Rightarrow> int" where
  "params_of b c = (case od_get (cb_stats b) c of Some s \<Rightarrow> cs_params s | None \<Rightarrow> 0)"

definition params_for_capabilities :: "component_breakdown \<Rightarrow> capability list \<Rightarrow> int" where
  "params_for_capabilities b capabilities =
     sum_list (map (\<lambda>(c, s). cs_params s) (filter (\<lambda>(c, s). cs_capability s \<in> set capabilities) (cb_stats b)))"

definition params_dropped_by :: "component_breakdown \<Rightarrow> capability list \<Rightarrow> (component, int) odict" where
  "params_dropped_by b capabilities =
     map (\<lambda>(c, s). (c, cs_params s))
       (filter (\<lambda>(c, s). cs_capability s \<notin> set capabilities \<and> 0 < cs_params s) (cb_stats b))"

text \<open>\<open>sorted(..., key=lambda s: -s.params)\<close> is stable.\<close>

definition ordered_stats :: "component_breakdown \<Rightarrow> component_stats list" where
  "ordered_stats b = sort_key (\<lambda>s. - cs_params s) (map snd (cb_stats b))"

text \<open>\<open>breakdown.stats.get(rule.component)\<close>, or a new entry; then the three counters.\<close>

definition stat_for :: "classification_rule \<Rightarrow> (component, component_stats) odict \<Rightarrow> component_stats" where
  "stat_for rule stats = (case od_get stats (cr_component rule) of
       Some s \<Rightarrow> s
     | None \<Rightarrow> \<lparr>cs_component = cr_component rule, cs_capability = cr_capability rule,
         cs_tier = cr_tier rule, cs_activation = cr_activation rule,
         cs_num_tensors = 0, cs_params = 0, cs_bytes_source = 0\<rparr>)"

definition count_tensor :: "component_stats \<Rightarrow> tensor_address \<Rightarrow> component_stats" where
  "count_tensor stat address =
     stat\<lparr>cs_num_tensors := cs_num_tensors stat + 1, cs_params := cs_params stat + ta_num_params address,
          cs_bytes_source := cs_bytes_source stat + ta_size_bytes address\<rparr>"

definition classify_step :: "classification_rule list option \<Rightarrow> string \<times> tensor_address \<Rightarrow>
    component_breakdown \<Rightarrow> component_breakdown" where
  "classify_step rules t b = (case t of (name, address) \<Rightarrow>
     let rule = classify_tensor name rules;
         unclassified = (if cr_component rule = OTHER then cb_unclassified b @ [name] else cb_unclassified b) in
     \<lparr>cb_stats = od_set (cb_stats b) (cr_component rule) (count_tensor (stat_for rule (cb_stats b)) address),
      cb_unclassified = unclassified\<rparr>)"

definition classify_all :: "(string, tensor_address) odict \<Rightarrow> classification_rule list option \<Rightarrow>
    component_breakdown" where
  "classify_all tensors rules = fold (classify_step rules) tensors \<lparr>cb_stats = [], cb_unclassified = []\<rparr>"

definition classified_tensors :: "(string, tensor_address) odict \<Rightarrow> classification_rule list option \<Rightarrow>
    classified_tensor list" where
  "classified_tensors tensors rules =
     map (\<lambda>(name, address). let rule = classify_tensor (ta_name address) rules in
       \<lparr>ct_address = address, ct_component = cr_component rule, ct_capability = cr_capability rule,
        ct_tier = cr_tier rule, ct_activation = cr_activation rule\<rparr>) tensors"

section \<open>Aggregation counts every tensor once\<close>

lemma sum_od_set:
  "od_ok d \<Longrightarrow> sum_list (map (\<lambda>(c, s). f s) (od_set d k v)) =
     sum_list (map (\<lambda>(c, s). f s) d) - (case od_get d k of Some s \<Rightarrow> f s | None \<Rightarrow> 0) + (f v :: int)"
proof (induction d)
  case Nil
  then show ?case by (simp add: od_get_def)
next
  case (Cons p d)
  obtain c s where p: "p = (c, s)" by (cases p)
  have "od_get d c = None" using Cons.prems p by (simp add: od_get_eq_None)
  then show ?case using Cons by (auto simp: p od_get_def split: option.splits)
qed

lemma count_tensor_stat:
  "cs_params (count_tensor (stat_for rule d) a) =
     (case od_get d (cr_component rule) of Some s \<Rightarrow> cs_params s | None \<Rightarrow> 0) + ta_num_params a"
  "cs_bytes_source (count_tensor (stat_for rule d) a) =
     (case od_get d (cr_component rule) of Some s \<Rightarrow> cs_bytes_source s | None \<Rightarrow> 0) + ta_size_bytes a"
  by (simp_all add: count_tensor_def stat_for_def split: option.split)

lemma classify_all_totals:
  "od_ok (cb_stats b) \<Longrightarrow> od_ok (cb_stats (fold (classify_step rules) ts b)) \<and>
     cb_total_params (fold (classify_step rules) ts b) = cb_total_params b + sum_list (map (\<lambda>(n, a). ta_num_params a) ts) \<and>
     cb_total_bytes (fold (classify_step rules) ts b) = cb_total_bytes b + sum_list (map (\<lambda>(n, a). ta_size_bytes a) ts)"
proof (induction ts arbitrary: b)
  case (Cons t ts)
  obtain n a where t: "t = (n, a)" by (cases t)
  define b' where "b' = classify_step rules t b"
  have ok: "od_ok (cb_stats b')" using Cons.prems by (simp add: b'_def classify_step_def Let_def t)
  have "cb_total_params b' = cb_total_params b + ta_num_params a"
    using sum_od_set [OF Cons.prems, of cs_params]
    by (simp add: b'_def classify_step_def Let_def t cb_total_params_def count_tensor_stat)
  moreover have "cb_total_bytes b' = cb_total_bytes b + ta_size_bytes a"
    using sum_od_set [OF Cons.prems, of cs_bytes_source]
    by (simp add: b'_def classify_step_def Let_def t cb_total_bytes_def count_tensor_stat)
  ultimately show ?case using Cons.IH [OF ok] by (simp add: t b'_def case_prod_unfold)
qed simp

lemma nonneg_params:
  assumes "\<forall>(n, a) \<in> set ts. 0 \<le> ta_num_params a" "\<forall>(c, s) \<in> set (cb_stats b). 0 \<le> cs_params s"
  shows "\<forall>(c, s) \<in> set (cb_stats (fold (classify_step rules) ts b)). 0 \<le> cs_params s"
  using assms
proof (induction ts arbitrary: b)
  case (Cons t ts)
  obtain n a where t: "t = (n, a)" by (cases t)
  have set_od: "set (od_set d k v) \<subseteq> insert (k, v) (set d)" for d :: "(component, component_stats) odict" and k v
    by (induction d) auto
  have get_od: "od_get d k = Some v \<Longrightarrow> (k, v) \<in> set d" for d :: "(component, component_stats) odict" and k v
    unfolding od_get_def by (rule map_of_SomeD)
  have "\<forall>(c, s) \<in> set (cb_stats (classify_step rules t b)). 0 \<le> cs_params s"
  proof -
    define k where "k = cr_component (classify_tensor n rules)"
    obtain v where v: "cb_stats (classify_step rules t b) = od_set (cb_stats b) k v"
      "cs_params v = (case od_get (cb_stats b) k of Some s \<Rightarrow> cs_params s | None \<Rightarrow> 0) + ta_num_params a"
      by (simp add: classify_step_def Let_def t k_def count_tensor_stat)
    have "0 \<le> cs_params v" using v(2) Cons.prems get_od [of "cb_stats b" k] by (auto simp: t split: option.splits)
    then show ?thesis unfolding v(1) using set_od [of "cb_stats b" k v] Cons.prems(2) by auto
  qed
  then show ?case using Cons.IH [of "classify_step rules t b"] Cons.prems(1) by simp
qed simp

section \<open>Properties\<close>

lemma rx_search_iff: "rx_search r s \<longleftrightarrow> (\<exists>i \<le> length s. rx_ends r s i \<noteq> [])"
  by (auto simp: rx_search_def less_Suc_eq_le simp del: upt_Suc)

lemma rx_search_alt: "rx_search (RAlt a b) s \<longleftrightarrow> rx_search a s \<or> rx_search b s"
  by (auto simp: rx_search_iff)

lemma rx_search_lit: "rx_search (RLit w) s \<longleftrightarrow> str_contains s w"
proof -
  have "str_contains s w \<longleftrightarrow> (\<exists>i \<le> length s. str_startswith (drop i s) w)"
  proof (induction s)
    case Nil
    then show ?case by (auto simp: str_startswith_def)
  next
    case (Cons c s)
    have "(\<exists>i \<le> length (c # s). str_startswith (drop i (c # s)) w) \<longleftrightarrow>
      str_startswith (c # s) w \<or> (\<exists>i \<le> length s. str_startswith (drop i s) w)"
      by (metis Suc_le_mono drop0 drop_Suc_Cons length_Cons nat.exhaust zero_le)
    then show ?case using Cons by simp
  qed
  then show ?thesis by (auto simp: rx_search_iff)
qed

lemma first_match_in: "first_match rules name \<in> insert other_rule (set rules)"
  by (induction rules) auto

lemma first_match_before:
  "rule_matches r name \<Longrightarrow> first_match (xs @ r # ys) name \<in> insert r (set xs)"
  by (induction xs) auto

lemma matched_before:
  assumes "DEFAULT_RULES = xs @ r # ys" "rule_matches r name" "cr_component (classify_tensor name None) = c"
  shows "c \<in> cr_component ` insert r (set xs)"
proof -
  have "first_match DEFAULT_RULES name \<in> insert r (set xs)" unfolding assms(1) by (rule first_match_before [OF assms(2)])
  then have "cr_component (first_match DEFAULT_RULES name) \<in> cr_component ` insert r (set xs)" by (rule imageI)
  then show ?thesis using assms(3) by (simp add: classify_tensor_def)
qed



text \<open>Classification loses no parameter: what a set of capabilities keeps and what it drops add up to
  the parameters of the whole inventory.\<close>

theorem kept_and_dropped_add_up:
  assumes "\<forall>(n, a) \<in> set tensors. 0 \<le> ta_num_params a"
  shows "params_for_capabilities (classify_all tensors rules) caps +
      sum_list (map snd (params_dropped_by (classify_all tensors rules) caps)) =
    sum_list (map (\<lambda>(n, a). ta_num_params a) tensors)"
proof -
  let ?b = "classify_all tensors rules"
  have nn: "\<forall>(c, s) \<in> set (cb_stats ?b). 0 \<le> cs_params s"
    unfolding classify_all_def by (rule nonneg_params) (use assms in auto)
  have split: "sum_list (map (\<lambda>(c, s). cs_params s) (filter (\<lambda>(c, s). cs_capability s \<in> set caps) d)) +
      sum_list (map snd (map (\<lambda>(c, s). (c, cs_params s))
        (filter (\<lambda>(c, s). cs_capability s \<notin> set caps \<and> 0 < cs_params s) d))) =
      sum_list (map (\<lambda>(c, s). cs_params s) d)"
    if "\<forall>(c, s) \<in> set d. 0 \<le> cs_params s" for d :: "(component, component_stats) odict"
    using that by (induction d) auto
  have "cb_total_params ?b = sum_list (map (\<lambda>(n, a). ta_num_params a) tensors)"
    using classify_all_totals [of "\<lparr>cb_stats = [], cb_unclassified = []\<rparr>" rules tensors]
    by (simp add: classify_all_def cb_total_params_def)
  then show ?thesis using split [OF nn]
    by (simp add: params_for_capabilities_def params_dropped_by_def cb_total_params_def)
qed

definition demo_tensor :: "string \<Rightarrow> int \<Rightarrow> tensor_address" where
  "demo_tensor name params = \<lparr>ta_name = name, ta_shard = ''s'', ta_dtype = ''BF16'', ta_shape = [params],
     ta_byte_start = 0, ta_byte_end = 2 * params, ta_num_params = params, ta_size_bytes = 2 * params\<rparr>"

theorem kept_and_dropped_add_up_witness:
  "params_for_capabilities (classify_all [(''lm_head.weight'', demo_tensor ''lm_head.weight'' 6),
      (''visual.proj'', demo_tensor ''visual.proj'' 4)] None) [TEXT] +
    sum_list (map snd (params_dropped_by (classify_all [(''lm_head.weight'', demo_tensor ''lm_head.weight'' 6),
      (''visual.proj'', demo_tensor ''visual.proj'' 4)] None) [TEXT])) = 10"
  using kept_and_dropped_add_up [of "[(''lm_head.weight'', demo_tensor ''lm_head.weight'' 6),
      (''visual.proj'', demo_tensor ''visual.proj'' 4)]" None "[TEXT]"]
  by (simp add: demo_tensor_def)

end
