(* ===== verification/Package.thy ===== *)
theory Package
  imports PleLayout Classify
begin

text \<open>
  The data that the planner, the writer and the validator exchange: source slices, work items,
  the build plan, the manifest, the checksums and the build journal. Dictionaries keep
  insertion order, as \<open>(key, value) odict\<close>.
\<close>

section \<open>Source slices\<close>

record source_slice =
  ss_tensor :: string
  ss_shard :: string
  ss_projection :: string
  ss_dtype :: string
  ss_shape :: "int list"
  ss_byte_start :: int
  ss_byte_end :: int
  ss_expert_index :: "int option"

definition ss_num_params :: "source_slice \<Rightarrow> int" where
  "ss_num_params s = (if ss_shape s = [] then 0 else prod_list (ss_shape s))"

definition ss_size_bytes :: "source_slice \<Rightarrow> int" where
  "ss_size_bytes s = ss_byte_end s - ss_byte_start s"

record expert_slice =
  es_layer :: int
  es_expert :: int
  es_projections :: "source_slice list"

definition es_num_params :: "expert_slice \<Rightarrow> int" where
  "es_num_params e = sum_list (map ss_num_params (es_projections e))"

definition es_source_bytes :: "expert_slice \<Rightarrow> int" where
  "es_source_bytes e = sum_list (map ss_size_bytes (es_projections e))"

definition es_source_reads :: "expert_slice \<Rightarrow> int" where
  "es_source_reads e = int (length (es_projections e))"

section \<open>Work items\<close>

record dense_work_item =
  dw_address :: tensor_address
  dw_component :: component
  dw_bits :: pyfloat
  dw_group_size :: int
  dw_symmetric :: bool
  dw_codec_id :: string
  dw_packed_bytes :: int
  dw_byte_offset :: int
  dw_spans :: "section_span list"

definition dw_length :: "dense_work_item \<Rightarrow> int" where
  "dw_length i = spans_length (dw_spans i)"

record expert_work_item =
  ew_slice :: expert_slice
  ew_record_index :: int
  ew_bank_offset :: int

definition ew_layer :: "expert_work_item \<Rightarrow> int" where
  "ew_layer i = es_layer (ew_slice i)"

definition ew_expert :: "expert_work_item \<Rightarrow> int" where
  "ew_expert i = es_expert (ew_slice i)"

record ple_shard_item =
  pw_address :: tensor_address
  pw_shard_index :: int
  pw_first_row :: int
  pw_logical_first_row :: int
  pw_num_rows :: int
  pw_byte_offset :: int

record ple_plan =
  pp_source_layer :: int
  pp_ngram_size :: int
  pp_row :: ple_row_layout
  pp_total_rows :: int
  pp_logical_total_rows :: int
  pp_declared_rows :: int
  pp_shards :: "ple_shard_item list"
  pp_index_tensors :: "tensor_address list"

definition pp_total_bytes :: "ple_plan \<Rightarrow> int result" where
  "pp_total_bytes p = bytes_for (pp_row p) (pp_total_rows p)"

section \<open>Manifest\<close>

record codec_spec =
  cd_id :: string
  cd_method :: string
  cd_logical_bits :: pyfloat
  cd_storage_bits :: pyfloat
  cd_group_size :: int
  cd_symmetric :: bool
  cd_scale_dtype :: "string option"
  cd_zero_dtype :: "string option"
  cd_byte_order :: string
  cd_packing_order :: string

record source_provenance =
  sv_repository :: string
  sv_revision :: string
  sv_config_sha256 :: string
  sv_index_sha256 :: "string option"

record region_integrity =
  ri_path :: string
  ri_size_bytes :: int
  ri_sha256 :: "string option"

record item_checksum =
  ic_value :: string
  ic_offset :: "int option"
  ic_length :: int
  ic_first_row :: "int option"
  ic_num_rows :: "int option"

record package_checksums =
  pc_dense :: "(string, item_checksum) odict"
  pc_experts :: "(string, item_checksum) odict"
  pc_ple :: "(string, item_checksum) odict"

record precision_entry_dump =
  pd_bits :: pyfloat
  pd_group_size :: int
  pd_symmetric :: bool
  pd_effective_bits :: pyfloat

record package_manifest =
  pm_package_version :: string
  pm_source_model :: string
  pm_source_revision :: "string option"
  pm_source :: "source_provenance option"
  pm_build_profile :: string
  pm_complete_model :: bool
  pm_features :: "capability list"
  pm_precision_map_name :: string
  pm_precision_map :: "(component, precision_entry_dump) odict"
  pm_codecs :: "(string, codec_spec) odict"
  pm_regions :: "(string, region_integrity) odict"
  pm_totals :: package_totals
  pm_dense :: "dense_entry list"
  pm_expert_layout :: "expert_layout option"
  pm_ple_index :: "ple_index option"
  pm_activated_params_per_token :: int
  pm_expert_params_per_token :: int
  pm_expert_bytes_per_token :: int
  pm_reads_per_token :: int

definition PACKAGE_VERSION :: string where
  "PACKAGE_VERSION = ''1.1''"

definition PAGE_BYTES :: int where
  "PAGE_BYTES = 4096"

section \<open>The build plan\<close>

text \<open>A group size that was reduced (label, row width, requested, actual), a bit width that packs
  wider than it reads.\<close>

datatype plan_warning = GroupReduced string int int int | WidthPadded component pyfloat

record build_plan =
  bp_manifest :: package_manifest
  bp_dense :: "dense_work_item list"
  bp_experts :: "expert_work_item list"
  bp_ple :: "ple_plan option"
  bp_warnings :: "plan_warning list"

definition source_read_bytes :: "build_plan \<Rightarrow> int" where
  "source_read_bytes p =
     sum_list (map (\<lambda>i. ta_size_bytes (dw_address i)) (bp_dense p)) +
     sum_list (map (\<lambda>i. es_source_bytes (ew_slice i)) (bp_experts p)) +
     (case bp_ple p of Some ple \<Rightarrow> sum_list (map (\<lambda>i. ta_size_bytes (pw_address i)) (pp_shards ple)) | None \<Rightarrow> 0) +
     (case bp_ple p of Some ple \<Rightarrow> sum_list (map ta_size_bytes (pp_index_tensors ple)) | None \<Rightarrow> 0)"

definition num_work_items :: "build_plan \<Rightarrow> int" where
  "num_work_items p = int (length (bp_dense p)) + int (length (bp_experts p)) +
     (case bp_ple p of Some ple \<Rightarrow> int (length (pp_shards ple)) | None \<Rightarrow> 0)"

section \<open>The build journal\<close>

record build_journal =
  bj_plan_fingerprint :: string
  bj_dense_done :: "string list"
  bj_expert_done :: "int list"
  bj_ple_done :: "int list"
  bj_dense_checksums :: "(string, item_checksum) odict"
  bj_expert_checksums :: "(string, item_checksum) odict"
  bj_ple_checksums :: "(string, item_checksum) odict"
  bj_finished :: bool

definition empty_journal :: "string \<Rightarrow> build_journal" where
  "empty_journal fingerprint = \<lparr>bj_plan_fingerprint = fingerprint, bj_dense_done = [], bj_expert_done = [],
     bj_ple_done = [], bj_dense_checksums = [], bj_expert_checksums = [], bj_ple_checksums = [],
     bj_finished = False\<rparr>"

definition as_sets :: "build_journal \<Rightarrow> string set \<times> int set \<times> int set" where
  "as_sets j = (set (bj_dense_done j), set (bj_expert_done j), set (bj_ple_done j))"

end
