(* ===== verification/Slicing.thy ===== *)
theory Slicing
  imports Package "HOL-Library.Char_ord" "HOL-Library.List_Lexorder" "HOL-Library.Product_Lexorder"
begin

text \<open>
  \<open>package/slicing.py\<close>: naming the source bytes of one expert, in fused banks and in
  per-expert checkpoints. The slices of a fused bank are shown to tile the bank tensor exactly,
  also in the float arithmetic that derives the element width, and the resolved list is shown
  to hold every layer and expert once, in bank order.
\<close>

section \<open>Names\<close>

text \<open>A search for \<open>pre\<close>, a run of digits, \<open>post\<close>: the number of the first match. The text
  after the digits does not begin with a digit in the patterns used, so the run is maximal.\<close>

fun capture_int :: "string \<Rightarrow> string \<Rightarrow> string \<Rightarrow> int option" where
  "capture_int pre post [] = None"
| "capture_int pre post (c # s) =
     (let rest = drop (length pre) (c # s); n = digit_run rest in
      if str_startswith (c # s) pre \<and> 0 < n \<and> str_startswith (drop n rest) post
      then Some (int (dec_value (take n rest))) else capture_int pre post s)"

definition layer_index :: "string \<Rightarrow> int option" where
  "layer_index name = capture_int ''.layers.'' ''.'' name"

definition name_expert_index :: "string \<Rightarrow> int option" where
  "name_expert_index name = capture_int ''.experts.'' ''.'' name"

definition projection_name :: "string \<Rightarrow> string" where
  "projection_name tensor_name =
     (let parts = str_split (CHR ''.'') tensor_name; leaf = last parts in
      if leaf = ''weight'' then (if 2 \<le> length parts then parts ! (length parts - 2) else leaf)
      else leaf)"

section \<open>One expert of a fused bank\<close>

definition element_bytes :: "tensor_address \<Rightarrow> pyfloat result" where
  "element_bytes a = (if ta_num_params a \<le> 0 then Inl SliceError
     else py_truediv (ta_size_bytes a) (ta_num_params a))"

definition slice_expert_from_bank :: "tensor_address \<Rightarrow> int \<Rightarrow> int \<Rightarrow> source_slice result" where
  "slice_expert_from_bank address expert_index num_experts =
     (if length (ta_shape address) < 2 then Inl SliceError
      else if hd (ta_shape address) \<noteq> num_experts then Inl SliceError
      else if \<not> (0 \<le> expert_index \<and> expert_index < num_experts) then Inl SliceError
      else
        let per_expert_shape = tl (ta_shape address);
            per_expert_params = prod_list per_expert_shape in
        bindE (element_bytes address) (\<lambda>width.
        let per_expert_bytes = py_round (fmul (fof per_expert_params) width) in
        if per_expert_bytes * num_experts \<noteq> ta_size_bytes address then Inl SliceError
        else
          let start = ta_byte_start address + expert_index * per_expert_bytes in
          Inr \<lparr>ss_tensor = ta_name address, ss_shard = ta_shard address,
               ss_projection = projection_name (ta_name address), ss_dtype = ta_dtype address,
               ss_shape = per_expert_shape, ss_byte_start = start,
               ss_byte_end = start + per_expert_bytes, ss_expert_index = Some expert_index\<rparr>))"

section \<open>All experts\<close>

definition PROJECTION_PRIORITY :: "string list" where
  "PROJECTION_PRIORITY = [''gate_up_proj'', ''gate_proj'', ''up_proj'', ''down_proj'']"

definition projection_key :: "source_slice \<Rightarrow> int \<times> string" where
  "projection_key s =
     (case list_index PROJECTION_PRIORITY (ss_projection s) of
        Some i \<Rightarrow> (i, ss_projection s)
      | None \<Rightarrow> (int (length PROJECTION_PRIORITY), ss_projection s))"

definition sort_projections :: "source_slice list \<Rightarrow> source_slice list" where
  "sort_projections slices = sort_key projection_key slices"

text \<open>\<open>d.setdefault(k, []).append(x)\<close>\<close>

definition od_append :: "('k, 'v list) odict \<Rightarrow> 'k \<Rightarrow> 'v \<Rightarrow> ('k, 'v list) odict" where
  "od_append d k x = od_set d k ((case od_get d k of Some xs \<Rightarrow> xs | None \<Rightarrow> []) @ [x])"

definition expert_bank_tensors :: "(string, tensor_address) odict \<Rightarrow> (int, tensor_address list) odict" where
  "expert_bank_tensors tensors =
     fold (\<lambda>(name, address) banks.
       if cr_component (classify_tensor (ta_name address) None) \<noteq> EXPERTS_ROUTED then banks
       else case layer_index (ta_name address) of
         None \<Rightarrow> banks
       | Some layer \<Rightarrow> od_append banks layer address) tensors []"

definition whole_slice :: "tensor_address \<Rightarrow> source_slice" where
  "whole_slice a = \<lparr>ss_tensor = ta_name a, ss_shard = ta_shard a, ss_projection = projection_name (ta_name a),
     ss_dtype = ta_dtype a, ss_shape = ta_shape a, ss_byte_start = ta_byte_start a,
     ss_byte_end = ta_byte_end a, ss_expert_index = None\<rparr>"

definition slice_layer :: "tensor_address list \<Rightarrow> int \<Rightarrow> int \<Rightarrow> int list \<Rightarrow> expert_slice list result" where
  "slice_layer addresses layer num_experts target_experts =
     (let fused = filter (\<lambda>a. name_expert_index (ta_name a) = None) addresses;
          per_expert = fold (\<lambda>a d. case name_expert_index (ta_name a) of
              None \<Rightarrow> d | Some e \<Rightarrow> od_append d e a) addresses [] in
      if fused \<noteq> [] \<and> per_expert \<noteq> [] then Inl SliceError
      else mapE (\<lambda>expert.
        bindE (if fused \<noteq> [] then mapE (\<lambda>a. slice_expert_from_bank a expert num_experts) fused
               else case od_get per_expert expert of
                 None \<Rightarrow> Inl SliceError
               | Some owned \<Rightarrow> if owned = [] then Inl SliceError else Inr (map whole_slice owned)) (\<lambda>slices.
        Inr \<lparr>es_layer = layer, es_expert = expert, es_projections = sort_projections slices\<rparr>)) target_experts)"

definition build_expert_slices :: "(string, tensor_address) odict \<Rightarrow> int \<Rightarrow> int list option \<Rightarrow>
    int list option \<Rightarrow> expert_slice list result" where
  "build_expert_slices tensors num_experts layers experts =
     (let banks = expert_bank_tensors tensors;
          target_layers = (case layers of None \<Rightarrow> sort (od_keys banks)
            | Some ls \<Rightarrow> filter (\<lambda>l. od_in l banks) ls);
          target_experts = (case experts of None \<Rightarrow> [0 .. num_experts - 1] | Some es \<Rightarrow> es) in
      bindE (mapE (\<lambda>layer. bindE (od_index banks layer) (\<lambda>addresses.
          slice_layer addresses layer num_experts target_experts)) target_layers) (\<lambda>out.
      Inr (concat out)))"

section \<open>Shared geometry\<close>

type_synonym signature = "(string \<times> int list \<times> string) list"

definition slice_signature :: "expert_slice \<Rightarrow> signature" where
  "slice_signature e = map (\<lambda>p. (ss_projection p, ss_shape p, ss_dtype p)) (es_projections e)"

fun check_signature :: "expert_slice list \<Rightarrow> signature option \<Rightarrow> signature option result" where
  "check_signature [] sig = Inr sig"
| "check_signature (e # slices) sig =
     (case sig of
        None \<Rightarrow> check_signature slices (Some (slice_signature e))
      | Some s \<Rightarrow> if slice_signature e \<noteq> s then Inl SliceError else check_signature slices sig)"

definition projection_signature :: "expert_slice list \<Rightarrow> signature result" where
  "projection_signature slices =
     bindE (check_signature slices None) (\<lambda>sig. case sig of None \<Rightarrow> Inl SliceError | Some s \<Rightarrow> Inr s)"

section \<open>Laws\<close>

lemma check_signature_some:
  "check_signature slices (Some s) = Inr r \<longleftrightarrow> r = Some s \<and> (\<forall>e \<in> set slices. slice_signature e = s)"
  by (induction slices) auto

lemma projection_signature_iff:
  "projection_signature slices = Inr s \<longleftrightarrow> slices \<noteq> [] \<and> (\<forall>e \<in> set slices. slice_signature e = s)"
proof (cases slices)
  case (Cons e es)
  then show ?thesis
    by (auto simp: projection_signature_def bindE_Inr_iff check_signature_some split: option.splits)
qed (simp add: projection_signature_def)

lemma slice_layer_keys:
  assumes "slice_layer addresses layer n es = Inr out"
  shows "map (\<lambda>s. (es_layer s, es_expert s)) out = map (Pair layer) es"
  by (rule mapE_map) (use assms in \<open>auto simp: slice_layer_def Let_def bindE_Inr_iff split: if_splits\<close>)

lemma build_expert_slices_keys:
  assumes "build_expert_slices tensors n layers experts = Inr out"
  shows "map (\<lambda>s. (es_layer s, es_expert s)) out = concat (map (\<lambda>l. map (Pair l)
      (case experts of None \<Rightarrow> [0 .. n - 1] | Some es \<Rightarrow> es))
    (case layers of None \<Rightarrow> sort (od_keys (expert_bank_tensors tensors))
      | Some ls \<Rightarrow> filter (\<lambda>l. od_in l (expert_bank_tensors tensors)) ls))"
proof -
  let ?f = "\<lambda>layer. bindE (od_index (expert_bank_tensors tensors) layer) (\<lambda>addresses.
    slice_layer addresses layer n (case experts of None \<Rightarrow> [0 .. n - 1] | Some es \<Rightarrow> es))"
  have "map (\<lambda>s. (es_layer s, es_expert s)) (concat outs) =
      concat (map (\<lambda>l. map (Pair l) (case experts of None \<Rightarrow> [0 .. n - 1] | Some es \<Rightarrow> es)) ls)"
    if "mapE ?f ls = Inr outs" for ls outs
    using that
  proof (induction ls arbitrary: outs)
    case (Cons l ls)
    then obtain o1 os where "?f l = Inr o1" "mapE ?f ls = Inr os" "outs = o1 # os" by auto
    then show ?case using Cons.IH slice_layer_keys by (auto simp: bindE_Inr_iff)
  qed simp
  then show ?thesis using assms by (auto simp: build_expert_slices_def Let_def bindE_Inr_iff)
qed

lemma fl_width:
  assumes "0 < p" "0 \<le> w" "w * p \<le> 2 ^ 53"
  shows "py_truediv (w * p) p = Inr (of_int w)"
proof -
  have "w * 1 \<le> w * p" using assms(1,2) by (intro mult_left_mono) simp_all
  then have "\<bar>w\<bar> \<le> 2 ^ 53" using assms(2,3) by linarith
  then have "fl (of_int w :: rat) = of_int w" by (rule fl_of_int)
  then show ?thesis using assms(1) by (simp add: py_truediv_def)
qed

text \<open>Whenever a bank slice is granted, it lies inside the bank tensor, the slices of all
  experts have one size, and they fill the tensor exactly, whatever the float width was.\<close>

theorem bank_slice_sound:
  assumes "slice_expert_from_bank a e n = Inr s" and "0 \<le> ta_size_bytes a"
  shows "n * ss_size_bytes s = ta_size_bytes a \<and> ss_byte_start s = ta_byte_start a + e * ss_size_bytes s \<and>
    ta_byte_start a \<le> ss_byte_start s \<and> ss_byte_start s \<le> ss_byte_end s \<and>
    ss_byte_end s \<le> ta_byte_start a + ta_size_bytes a \<and> ss_shape s = tl (ta_shape a)"
proof -
  obtain b where b: "b * n = ta_size_bytes a" "0 \<le> e" "e < n" "ss_byte_start s = ta_byte_start a + e * b"
    "ss_byte_end s = ta_byte_start a + e * b + b" "ss_shape s = tl (ta_shape a)"
    using assms(1) by (auto simp: slice_expert_from_bank_def Let_def bindE_Inr_iff split: if_splits)
  have "0 \<le> b" using b(1-3) assms(2) by (smt (verit) mult_neg_pos)
  moreover from this have "0 \<le> e * b" "(e + 1) * b \<le> n * b" using b(2,3) by (auto intro: mult_right_mono)
  ultimately show ?thesis using b by (auto simp: ss_size_bytes_def algebra_simps)
qed

definition demo_bank_tensor :: tensor_address where
  "demo_bank_tensor = \<lparr>ta_name = ''model.layers.3.mlp.experts.gate_up_proj'', ta_shard = ''s0'', ta_dtype = ''BF16'',
     ta_shape = [4, 6, 5], ta_byte_start = 100, ta_byte_end = 340, ta_num_params = 120, ta_size_bytes = 240\<rparr>"

lemma bank_slice_sound_witness:
  "\<exists>s. slice_expert_from_bank demo_bank_tensor 2 4 = Inr s \<and> 4 * ss_size_bytes s = 240 \<and>
     ss_byte_start s = 100 + 2 * ss_size_bytes s"
proof -
  have "element_bytes demo_bank_tensor = Inr 2"
    using fl_width [of 120 2] by (simp add: element_bytes_def demo_bank_tensor_def)
  then obtain s where s: "slice_expert_from_bank demo_bank_tensor 2 4 = Inr s" "0 \<le> ta_size_bytes demo_bank_tensor"
    using fl_of_int [of 30] fl_of_int [of 60] py_round_of_int [of 60]
    by (simp add: slice_expert_from_bank_def demo_bank_tensor_def Let_def fmul_def fof_def)
  show ?thesis using bank_slice_sound [OF s] s(1) by (simp add: demo_bank_tensor_def)
qed

text \<open>C35: A bank whose elements have an integral byte width is always sliceable: expert \<open>e\<close> of
  \<open>n\<close> gets the \<open>e\<close>-th of \<open>n\<close> equal consecutive ranges, up to \<open>2 ^ 53\<close> bytes, in spite of the
  float division and rounding that derive the width.\<close>

theorem bank_slices_tile:
  assumes shape: "ta_shape a = n # rest" "rest \<noteq> []" and params: "ta_num_params a = n * prod_list rest"
    and pos: "0 < prod_list rest" "0 < w" and size: "ta_size_bytes a = w * ta_num_params a" "ta_size_bytes a \<le> 2 ^ 53"
    and e: "0 \<le> e" "e < n"
  shows "\<exists>s. slice_expert_from_bank a e n = Inr s \<and>
    ss_byte_start s = ta_byte_start a + e * (w * prod_list rest) \<and>
    ss_byte_end s = ta_byte_start a + (e + 1) * (w * prod_list rest) \<and>
    ss_num_params s = prod_list rest \<and> n * (w * prod_list rest) = ta_size_bytes a"
proof -
  let ?p = "prod_list rest"
  have p: "0 < ta_num_params a" using params pos e by simp
  have width: "element_bytes a = Inr (of_int w)"
    using fl_width [OF p, of w] p size pos by (simp add: element_bytes_def)
  have "1 * (w * ?p) \<le> n * (w * ?p)" using e pos by (intro mult_right_mono) simp_all
  also have "n * (w * ?p) = ta_size_bytes a" using size params by simp
  finally have wp: "w * ?p \<le> 2 ^ 53" using size(2) by linarith
  have "1 * ?p \<le> w * ?p" using pos by (intro mult_right_mono) simp_all
  then have "fof ?p = of_int ?p" unfolding fof_def using wp pos by (intro fl_of_int) linarith
  moreover have "fl (of_int (?p * w)) = of_int (?p * w)" using wp pos by (intro fl_of_int) (simp add: mult.commute)
  ultimately have "py_round (fmul (fof ?p) (of_int w)) = ?p * w"
    unfolding fmul_def by (metis of_int_mult py_round_of_int)
  then have "slice_expert_from_bank a e n = Inr \<lparr>ss_tensor = ta_name a, ss_shard = ta_shard a,
      ss_projection = projection_name (ta_name a), ss_dtype = ta_dtype a, ss_shape = rest,
      ss_byte_start = ta_byte_start a + e * (?p * w), ss_byte_end = ta_byte_start a + e * (?p * w) + ?p * w,
      ss_expert_index = Some e\<rparr>"
    using shape e size params by (simp add: slice_expert_from_bank_def Let_def width)
  then show ?thesis using size params shape by (simp add: ss_num_params_def algebra_simps)
qed

lemma bank_slices_tile_witness:
  "\<exists>s. slice_expert_from_bank demo_bank_tensor 2 4 = Inr s \<and>
    ss_byte_start s = ta_byte_start demo_bank_tensor + 2 * (2 * prod_list [6, 5]) \<and>
    ss_byte_end s = ta_byte_start demo_bank_tensor + (2 + 1) * (2 * prod_list [6, 5]) \<and>
    ss_num_params s = prod_list [6, 5] \<and> 4 * (2 * prod_list [6, 5]) = ta_size_bytes demo_bank_tensor"
  by (rule bank_slices_tile) (simp_all add: demo_bank_tensor_def)

end
