(* ===== verification/Scan.thy ===== *)
theory Scan
  imports Slicing
begin

text \<open>
  \<open>audit/headers.py\<close>: the strict header scan of a checkpoint and its cross-check against the
  published index. The transport (local files, HTTP) is a parameter: the outcome of each
  attempt to read a shard header. A configuration is its integer fields and its optional
  \<open>text_config\<close>; fields of other JSON types are not read by the modelled code.
\<close>

section \<open>Configuration\<close>

datatype model_config = Config (cfg_ints: "(string, int) odict") (cfg_text: "model_config option")

definition text_config :: "model_config \<Rightarrow> model_config" where
  "text_config config = (case cfg_text config of Some t \<Rightarrow> t | None \<Rightarrow> config)"

definition cfg_get :: "model_config \<Rightarrow> string \<Rightarrow> int option" where
  "cfg_get cfg key = od_get (cfg_ints cfg) key"

text \<open>\<open>a or b\<close> and \<open>int(cfg.get(key, 0) or 0)\<close>: zero and \<open>None\<close> are falsy.\<close>

definition or_int :: "int option \<Rightarrow> int option \<Rightarrow> int option" where
  "or_int a b = (case a of None \<Rightarrow> b | Some v \<Rightarrow> if v = 0 then b else a)"

definition cfg_int :: "model_config \<Rightarrow> string \<Rightarrow> int" where
  "cfg_int cfg key = (case cfg_get cfg key of None \<Rightarrow> 0 | Some v \<Rightarrow> v)"

section \<open>The scan\<close>

datatype discrepancy_kind =
  SHARD_UNREADABLE | MISSING_TENSOR | EXTRA_TENSOR | SHARD_MISMATCH | TOTAL_SIZE_MISMATCH

record scan_discrepancy =
  sd_kind :: discrepancy_kind
  sd_subject :: string

record shard_header_scan =
  sc_model_id :: string
  sc_is_local :: bool
  sc_source_revision :: string
  sc_config_sha256 :: string
  sc_index_sha256 :: "string option"
  sc_config :: model_config
  sc_shards :: "string list"
  sc_tensors :: "(string, tensor_address) odict"
  sc_declared_total_bytes :: "int option"
  sc_header_bytes_read :: int
  sc_discrepancies :: "scan_discrepancy list"

definition sc_total_params :: "shard_header_scan \<Rightarrow> int" where
  "sc_total_params s = sum_list (map (\<lambda>(n, t). ta_num_params t) (sc_tensors s))"

definition sc_total_bytes :: "shard_header_scan \<Rightarrow> int" where
  "sc_total_bytes s = sum_list (map (\<lambda>(n, t). ta_size_bytes t) (sc_tensors s))"

definition sc_num_tensors :: "shard_header_scan \<Rightarrow> int" where
  "sc_num_tensors s = int (length (sc_tensors s))"

definition dtype_histogram :: "shard_header_scan \<Rightarrow> (string, int) odict" where
  "dtype_histogram s = sort_key (\<lambda>kv. - snd kv)
     (fold (\<lambda>(n, t) hist. od_set hist (ta_dtype t)
        ((case od_get hist (ta_dtype t) of Some c \<Rightarrow> c | None \<Rightarrow> 0) + 1)) (sc_tensors s) [])"

definition tensors_in_shard :: "shard_header_scan \<Rightarrow> string \<Rightarrow> tensor_address list" where
  "tensors_in_shard s shard = filter (\<lambda>t. ta_shard t = shard) (map snd (sc_tensors s))"

text \<open>One entry of a Safetensors header; absent fields take the defaults of \<open>info.get\<close>.\<close>

record header_info =
  hi_shape :: "int list option"
  hi_dtype :: "string option"
  hi_data_offsets :: "(int \<times> int) option"

type_synonym header = "(string, header_info) odict"

record header_read =
  hr_shard :: string
  hr_header :: header
  hr_header_bytes :: int
  hr_error :: "string option"

text \<open>\<open>_read_header\<close>: \<open>attempt k\<close> is the outcome of the \<open>k\<close>-th parse, \<open>None\<close> for a local
  file that does not exist.\<close>

fun read_attempts :: "string \<Rightarrow> (nat \<Rightarrow> (string + header \<times> int) option) \<Rightarrow> nat list \<Rightarrow>
    string option \<Rightarrow> header_read" where
  "read_attempts shard attempt [] last_error =
     \<lparr>hr_shard = shard, hr_header = [], hr_header_bytes = 0, hr_error = last_error\<rparr>"
| "read_attempts shard attempt (k # ks) last_error =
     (case attempt k of
        None \<Rightarrow> \<lparr>hr_shard = shard, hr_header = [], hr_header_bytes = 0,
                 hr_error = Some ''shard file not found''\<rparr>
      | Some (Inr (header, n)) \<Rightarrow> \<lparr>hr_shard = shard, hr_header = header, hr_header_bytes = n, hr_error = None\<rparr>
      | Some (Inl e) \<Rightarrow> read_attempts shard attempt ks (Some e))"

definition read_header :: "string \<Rightarrow> (nat \<Rightarrow> (string + header \<times> int) option) \<Rightarrow> int \<Rightarrow> header_read" where
  "read_header shard attempt retries = read_attempts shard attempt [0 ..< nat (max 1 retries)] None"

text \<open>\<open>index["weight_map"]\<close> when the index has one, else the listing.\<close>

definition discover_shards :: "(string, string) odict option \<Rightarrow> string list \<Rightarrow> string list result" where
  "discover_shards weight_map repo_files =
     (case weight_map of
        Some wm \<Rightarrow> Inr (sort (remdups (map snd wm)))
      | None \<Rightarrow>
          let shards = sort (filter (\<lambda>f. str_endswith f ''.safetensors'') repo_files) in
          if shards = [] then Inl RuntimeError else Inr shards)"

definition header_address :: "string \<Rightarrow> int \<Rightarrow> string \<Rightarrow> header_info \<Rightarrow> tensor_address" where
  "header_address shard header_bytes name info =
     (let shape = (case hi_shape info of Some s \<Rightarrow> s | None \<Rightarrow> []);
          (first, past) = (case hi_data_offsets info of Some o2 \<Rightarrow> o2 | None \<Rightarrow> (0, 0)) in
      \<lparr>ta_name = name, ta_shard = shard,
       ta_dtype = (case hi_dtype info of Some d \<Rightarrow> d | None \<Rightarrow> ''F16''),
       ta_shape = shape, ta_byte_start = header_bytes + first, ta_byte_end = header_bytes + past,
       ta_num_params = (if shape = [] then 0 else prod_list shape), ta_size_bytes = past - first\<rparr>)"

definition add_header :: "header_read \<Rightarrow> (string, tensor_address) odict \<Rightarrow> (string, tensor_address) odict" where
  "add_header r tensors =
     fold (\<lambda>(name, info) d. if name = ''__metadata__'' then d
        else od_set d name (header_address (hr_shard r) (hr_header_bytes r) name info)) (hr_header r) tensors"

text \<open>The reads in the order in which they complete.\<close>

fun collect_reads :: "header_read list \<Rightarrow> (string, tensor_address) odict \<times> int \<times> string list \<Rightarrow>
    (string, tensor_address) odict \<times> int \<times> string list" where
  "collect_reads [] acc = acc"
| "collect_reads (r # rs) (tensors, n, failures) =
     (if hr_error r \<noteq> None then collect_reads rs (tensors, n, failures @ [hr_shard r])
      else collect_reads rs (add_header r tensors, n + hr_header_bytes r, failures))"

definition verify_scan :: "shard_header_scan \<Rightarrow> (string, string) odict option \<Rightarrow> string list \<Rightarrow>
    scan_discrepancy list" where
  "verify_scan scan weight_map failures =
     map (\<lambda>f. \<lparr>sd_kind = SHARD_UNREADABLE, sd_subject = f\<rparr>) failures @
     (case weight_map of
        None \<Rightarrow> []
      | Some wm \<Rightarrow>
          let observed = od_keys (sc_tensors scan); declared = od_keys wm in
          map (\<lambda>n. \<lparr>sd_kind = MISSING_TENSOR, sd_subject = n\<rparr>)
            (take 20 (sort (filter (\<lambda>n. n \<notin> set observed) declared))) @
          map (\<lambda>n. \<lparr>sd_kind = EXTRA_TENSOR, sd_subject = n\<rparr>)
            (take 20 (sort (filter (\<lambda>n. n \<notin> set declared) observed))) @
          (case find (\<lambda>(n, shard). case od_get (sc_tensors scan) n of
                None \<Rightarrow> False | Some addr \<Rightarrow> ta_shard addr \<noteq> shard) wm of
             None \<Rightarrow> [] | Some (n, shard) \<Rightarrow> [\<lparr>sd_kind = SHARD_MISMATCH, sd_subject = n\<rparr>])) @
     (case sc_declared_total_bytes scan of
        None \<Rightarrow> []
      | Some declared \<Rightarrow>
          if declared \<noteq> 0 \<and> sc_total_bytes scan - declared \<noteq> 0
          then [\<lparr>sd_kind = TOTAL_SIZE_MISMATCH, sd_subject = []\<rparr>] else [])"

text \<open>\<open>scan_checkpoint\<close> after the metadata requests: what they returned is in \<open>base\<close>, a scan
  without tensors.\<close>

definition scan_checkpoint :: "shard_header_scan \<Rightarrow> header_read list \<Rightarrow> (string, string) odict option \<Rightarrow>
    bool \<Rightarrow> shard_header_scan result" where
  "scan_checkpoint base reads weight_map strict =
     (case collect_reads reads ([], 0, []) of (tensors, n, failures) \<Rightarrow>
        if failures \<noteq> [] \<and> strict then Inl RuntimeError
        else let scan = base\<lparr>sc_tensors := tensors, sc_header_bytes_read := n\<rparr> in
          Inr (scan\<lparr>sc_discrepancies := verify_scan scan weight_map failures\<rparr>))"

section \<open>Laws\<close>

lemma header_keys:
  "set (od_keys (add_header r d)) = set (od_keys d) \<union> (set (od_keys (hr_header r)) - {''__metadata__''})"
proof -
  have "set (od_keys (fold (\<lambda>(name, info) d. if name = ''__metadata__'' then d
        else od_set d name (header_address s b name info)) h d)) = set (od_keys d) \<union> (set (od_keys h) - {''__metadata__''})"
    for h s b and d :: "(string, tensor_address) odict"
    by (induction h arbitrary: d) (auto split: if_split_asm)
  then show ?thesis by (simp add: add_header_def)
qed

lemma collect_reads_complete:
  "snd (snd (collect_reads rs (d, n, fs))) = fs @ map hr_shard (filter (\<lambda>r. hr_error r \<noteq> None) rs) \<and>
   set (od_keys (fst (collect_reads rs (d, n, fs)))) = set (od_keys d) \<union>
     (\<Union>r \<in> {r \<in> set rs. hr_error r = None}. set (od_keys (hr_header r)) - {''__metadata__''})"
proof (induction rs arbitrary: d n fs)
  case (Cons r rs)
  show ?case
    using Cons.IH [of d n "fs @ [hr_shard r]"] Cons.IH [of "add_header r d" "n + hr_header_bytes r" fs]
    by (auto simp: header_keys)
qed simp

lemma read_attempts_ok:
  "hr_error (read_attempts shard attempt ks e) = None \<Longrightarrow> ks \<noteq> [] \<or> e \<noteq> None \<Longrightarrow>
     \<exists>k \<in> set ks. \<exists>h n. attempt k = Some (Inr (h, n)) \<and> hr_header (read_attempts shard attempt ks e) = h"
proof (induction ks arbitrary: e)
  case (Cons k ks)
  show ?case
  proof (cases "attempt k")
    case (Some r)
    then show ?thesis using Cons.IH Cons.prems by (cases r) (auto split: prod.splits)
  qed (use Cons.prems in simp)
qed simp


definition demo_scan :: shard_header_scan where
  "demo_scan = \<lparr>sc_model_id = ''m'', sc_is_local = True, sc_source_revision = ''local'', sc_config_sha256 = [],
     sc_index_sha256 = None, sc_config = Config [] None, sc_shards = [''a''], sc_tensors = [],
     sc_declared_total_bytes = None, sc_header_bytes_read = 0, sc_discrepancies = []\<rparr>"

definition demo_reads :: "header_read list" where
  "demo_reads = [\<lparr>hr_shard = ''a'', hr_header = [(''w'', \<lparr>hi_shape = Some [2], hi_dtype = None, hi_data_offsets = Some (0, 4)\<rparr>)],
     hr_header_bytes = 10, hr_error = None\<rparr>]"


end
