(* ===== verification/Budget.thy ===== *)
theory Budget
  imports Scan
begin

text \<open>
  \<open>audit/budget.py\<close>: the precision maps, the geometry recovered from tensor shapes, and the
  four budgets of an audit report, with float expressions in the order of the source.
\<close>

section \<open>Precision\<close>

definition effective_bits :: "pyfloat \<Rightarrow> int \<Rightarrow> bool \<Rightarrow> int \<Rightarrow> int \<Rightarrow> pyfloat" where
  "effective_bits nominal_bits group_size symmetric scale_bits zero_bits =
     (if 16 \<le> nominal_bits then nominal_bits
      else if group_size \<le> 0 then nominal_bits
      else
        let metadata = (if symmetric then scale_bits else scale_bits + zero_bits) in
        fadd nominal_bits (fl (of_int metadata / fof group_size)))"

record precision_entry =
  pe_bits :: pyfloat
  pe_group_size :: int
  pe_symmetric :: bool

definition pe_effective :: "precision_entry \<Rightarrow> pyfloat" where
  "pe_effective e = effective_bits (pe_bits e) (pe_group_size e) (pe_symmetric e) 16 16"

record precision_map =
  pm_name :: string
  pm_entries :: "(component, precision_entry) odict"
  pm_default :: precision_entry

definition entry_for :: "precision_map \<Rightarrow> component \<Rightarrow> precision_entry" where
  "entry_for m c = (case od_get (pm_entries m) c of Some e \<Rightarrow> e | None \<Rightarrow> pm_default m)"

definition bits_for :: "precision_map \<Rightarrow> component \<Rightarrow> pyfloat" where
  "bits_for m c = pe_effective (entry_for m c)"

definition pentry :: "pyfloat \<Rightarrow> int \<Rightarrow> precision_entry" where
  "pentry bits group_size = \<lparr>pe_bits = bits, pe_group_size = group_size, pe_symmetric = False\<rparr>"

definition uniform :: "pyfloat \<Rightarrow> int \<Rightarrow> string \<Rightarrow> precision_map" where
  "uniform bits group_size name =
     \<lparr>pm_name = name, pm_entries = [(ROUTER, pentry 16 (-1)), (NORM, pentry 16 (-1))],
      pm_default = pentry bits group_size\<rparr>"

definition pt_q4e :: precision_map where
  "pt_q4e = \<lparr>pm_name = ''PT-Q4E'',
     pm_entries =
       [(ROUTER, pentry 16 (-1)), (NORM, pentry 16 (-1)), (OTHER, pentry 16 (-1)), (GDN_ATTN, pentry 3 128),
        (FULL_ATTN, pentry 4 128), (HYPERCONN, pentry 4 128), (SHARED_EXPERT, pentry 4 128),
        (PLE_PROJ, pentry 4 128), (LM_HEAD, pentry 6 128), (EMBED, pentry 4 128), (EXPERTS_ROUTED, pentry 4 128),
        (PLE_TABLE, (pentry 3 160)\<lparr>pe_symmetric := True\<rparr>)],
     pm_default = pentry 4 128\<rparr>"

definition pt_q2e :: precision_map where
  "pt_q2e = pt_q4e\<lparr>pm_name := ''PT-Q2E'',
     pm_entries := od_set (pm_entries pt_q4e) EXPERTS_ROUTED (pentry 2 128)\<rparr>"

definition PRECISION_PRESETS :: "(string, precision_map) odict" where
  "PRECISION_PRESETS =
     [(''pt-q4e'', pt_q4e), (''pt-q2e'', pt_q2e), (''bf16'', uniform 16 (-1) ''bf16''),
      (''int8'', uniform 8 128 ''int8''), (''int4'', uniform 4 128 ''int4''), (''int3'', uniform 3 128 ''int3''),
      (''int2'', uniform 2 128 ''int2''), (''ternary'', uniform (fl (158 / 100)) 128 ''ternary'')]"

definition get_precision_preset :: "string \<Rightarrow> precision_map result" where
  "get_precision_preset name = od_index PRECISION_PRESETS (str_lower (str_strip name))"

section \<open>Geometry\<close>

record expert_geometry =
  eg_num_experts :: int
  eg_top_k :: int
  eg_num_expert_layers :: int
  eg_params_per_expert :: int
  eg_tensors_per_expert :: int

definition eg_total_slots :: "expert_geometry \<Rightarrow> int" where
  "eg_total_slots g = eg_num_experts g * eg_num_expert_layers g"

definition activations_per_token :: "expert_geometry \<Rightarrow> int" where
  "activations_per_token g = eg_top_k g * eg_num_expert_layers g"

definition record_bytes :: "expert_geometry \<Rightarrow> pyfloat \<Rightarrow> int" where
  "record_bytes g bits = \<lceil>fl (fmul (fof (eg_params_per_expert g)) bits / 8)\<rceil>"

record ple_geometry =
  pg_row_width :: int
  pg_total_rows :: int
  pg_num_heads :: int

definition pg_params_per_token :: "ple_geometry \<Rightarrow> int" where
  "pg_params_per_token g = pg_num_heads g * pg_row_width g"

definition component_tensors :: "shard_header_scan \<Rightarrow> component \<Rightarrow> tensor_address list" where
  "component_tensors scan c =
     filter (\<lambda>t. cr_component (classify_tensor (ta_name t) None) = c) (map snd (sc_tensors scan))"

definition expert_layers :: "tensor_address list \<Rightarrow> int list" where
  "expert_layers tensors = remdups (List.map_filter (\<lambda>t. layer_index (ta_name t)) tensors)"

definition infer_expert_geometry :: "shard_header_scan \<Rightarrow> expert_geometry option" where
  "infer_expert_geometry scan =
     (let cfg = text_config (sc_config scan);
          num_experts = or_int (cfg_get cfg ''num_experts'')
            (or_int (cfg_get cfg ''n_routed_experts'') (cfg_get cfg ''num_local_experts''));
          top_k = or_int (cfg_get cfg ''num_experts_per_tok'') (cfg_get cfg ''num_experts_per_token'') in
      case (num_experts, top_k) of
        (Some n, Some k) \<Rightarrow>
          if n = 0 \<or> k = 0 then None
          else
            let expert_tensors = component_tensors scan EXPERTS_ROUTED in
            if expert_tensors = [] then None
            else
              let layers = expert_layers expert_tensors;
                  in_layer = (if layers = [] then expert_tensors
                    else filter (\<lambda>t. layer_index (ta_name t) = Some (fold min (tl layers) (hd layers))) expert_tensors);
                  layer_params = sum_list (map ta_num_params in_layer) in
              Some \<lparr>eg_num_experts = n, eg_top_k = k,
                    eg_num_expert_layers = (if layers = [] then 1 else int (length layers)),
                    eg_params_per_expert = layer_params div n, eg_tensors_per_expert = int (length in_layer)\<rparr>
      | _ \<Rightarrow> None)"

definition infer_ple_geometry :: "shard_header_scan \<Rightarrow> ple_geometry option result" where
  "infer_ple_geometry scan =
     (let table_tensors = filter (\<lambda>t. length (ta_shape t) = 2) (component_tensors scan PLE_TABLE) in
      if table_tensors = [] then Inr None
      else
        let row_width = ta_shape (hd table_tensors) ! 1;
            total_rows = sum_list (map (\<lambda>t. ta_shape t ! 0) table_tensors);
            cfg = text_config (sc_config scan);
            embed_dim = the (or_int (cfg_get cfg ''ple_embed_dim'') (or_int (cfg_get cfg ''hidden_size'') (Some row_width))) in
        if row_width = 0 then Inl ZeroDivisionError
        else Inr (Some \<lparr>pg_row_width = row_width, pg_total_rows = total_rows,
                        pg_num_heads = max 1 (embed_dim div row_width)\<rparr>))"

section \<open>Activation\<close>

record activation_budget =
  ab_per_component :: "(component, int) odict"
  ab_features :: "capability list"
  ab_expert_params :: int

definition ab_total :: "activation_budget \<Rightarrow> int" where
  "ab_total b = sum_list (map snd (ab_per_component b))"

definition ab_dense_params :: "activation_budget \<Rightarrow> int" where
  "ab_dense_params b = ab_total b - ab_expert_params b"

definition set_active :: "component \<Rightarrow> int \<Rightarrow> activation_budget \<Rightarrow> activation_budget" where
  "set_active c n b = b\<lparr>ab_per_component := od_set (ab_per_component b) c n\<rparr>"

definition routed_active :: "expert_geometry \<Rightarrow> int \<Rightarrow> int result" where
  "routed_active g params =
     bindE (py_truediv (eg_top_k g) (eg_num_experts g)) (\<lambda>fraction. Inr (py_round (fmul (fof params) fraction)))"

definition activate_component :: "model_config \<Rightarrow> expert_geometry option \<Rightarrow> ple_geometry option \<Rightarrow>
    component \<times> component_stats \<Rightarrow> activation_budget \<Rightarrow> activation_budget result" where
  "activate_component cfg expert ple cs b = (case cs of (component, stat) \<Rightarrow>
     if cs_capability stat \<notin> set (ab_features b) then Inr b
     else (case cs_activation stat of
       DENSE \<Rightarrow> Inr (set_active component (cs_params stat) b)
     | ROUTED \<Rightarrow>
         (case expert of
            None \<Rightarrow> Inr (set_active component (cs_params stat) b)
          | Some g \<Rightarrow> bindE (routed_active g (cs_params stat)) (\<lambda>active.
              Inr ((set_active component active b)\<lparr>ab_expert_params := active\<rparr>)))
     | ROW_LOOKUP \<Rightarrow>
         (case (component, ple) of
            (PLE_TABLE, Some g) \<Rightarrow> Inr (set_active component (pg_params_per_token g) b)
          | (EMBED, _) \<Rightarrow> Inr (set_active component (cfg_int cfg ''hidden_size'') b)
          | _ \<Rightarrow> Inr (set_active component 0 b))))"

definition build_activation_budget :: "shard_header_scan \<Rightarrow> component_breakdown \<Rightarrow> capability list \<Rightarrow>
    expert_geometry option \<Rightarrow> ple_geometry option \<Rightarrow> activation_budget result" where
  "build_activation_budget scan breakdown features expert ple =
     (let expert' = (case expert of Some g \<Rightarrow> Some g | None \<Rightarrow> infer_expert_geometry scan) in
      bindE (case ple of Some g \<Rightarrow> Inr (Some g) | None \<Rightarrow> infer_ple_geometry scan) (\<lambda>ple'.
      foldE (activate_component (text_config (sc_config scan)) expert' ple') (cb_stats breakdown)
        \<lparr>ab_per_component = [], ab_features = features, ab_expert_params = 0\<rparr>))"

section \<open>Storage\<close>

record component_storage =
  st_component :: component
  st_capability :: capability
  st_tier :: tier
  st_params :: int
  st_effective_bits :: pyfloat
  st_packed_bytes :: int

record storage_budget =
  sb_precision_map_name :: string
  sb_entries :: "component_storage list"
  sb_features :: "capability list"

definition sb_total_packed_bytes :: "storage_budget \<Rightarrow> int" where
  "sb_total_packed_bytes b = sum_list (map st_packed_bytes (sb_entries b))"

definition sb_total_params :: "storage_budget \<Rightarrow> int" where
  "sb_total_params b = sum_list (map st_params (sb_entries b))"

definition sb_average_bits :: "storage_budget \<Rightarrow> pyfloat" where
  "sb_average_bits b = (if sb_total_params b = 0 then 0
     else fl (fmul (fof (sb_total_packed_bytes b)) 8 / fof (sb_total_params b)))"

definition bytes_in_tier :: "storage_budget \<Rightarrow> tier \<Rightarrow> int" where
  "bytes_in_tier b t = sum_list (map st_packed_bytes (filter (\<lambda>e. st_tier e = t) (sb_entries b)))"

definition component_storage_of :: "precision_map \<Rightarrow> component_stats \<Rightarrow> component_storage" where
  "component_storage_of m stat =
     (let bits = bits_for m (cs_component stat) in
      \<lparr>st_component = cs_component stat, st_capability = cs_capability stat, st_tier = cs_tier stat,
       st_params = cs_params stat, st_effective_bits = bits,
       st_packed_bytes = \<lceil>fl (fmul (fof (cs_params stat)) bits / 8)\<rceil>\<rparr>)"

definition build_storage_budget :: "component_breakdown \<Rightarrow> precision_map \<Rightarrow> capability list \<Rightarrow> storage_budget" where
  "build_storage_budget breakdown m features =
     \<lparr>sb_precision_map_name = pm_name m,
      sb_entries = map (component_storage_of m)
        (filter (\<lambda>stat. cs_capability stat \<in> set features \<and> cs_params stat \<noteq> 0) (ordered_stats breakdown)),
      sb_features = features\<rparr>"

section \<open>State\<close>

record state_budget =
  sg_kv_bytes_per_token :: int
  sg_indexer_bytes_per_token :: int
  sg_recurrent_state_bytes :: int
  sg_num_full_attn_layers :: int
  sg_num_linear_attn_layers :: int

definition sg_bytes_per_token :: "state_budget \<Rightarrow> int" where
  "sg_bytes_per_token b = sg_kv_bytes_per_token b + sg_indexer_bytes_per_token b"

definition at_context :: "state_budget \<Rightarrow> int \<Rightarrow> int" where
  "at_context b context_length = sg_bytes_per_token b * context_length + sg_recurrent_state_bytes b"

definition attention_layer :: "tensor_address \<Rightarrow> int set \<times> int set \<times> int \<Rightarrow> int set \<times> int set \<times> int" where
  "attention_layer t acc = (case acc of (full, linears, conv_dim) \<Rightarrow>
     if str_startswith (ta_name t) ''mtp.'' then acc
     else case layer_index (ta_name t) of
       None \<Rightarrow> acc
     | Some idx \<Rightarrow>
         if str_contains (ta_name t) ''.self_attn.'' then (insert idx full, linears, conv_dim)
         else if str_contains (ta_name t) ''.linear_attn.'' then
           (full, insert idx linears,
            if str_endswith (ta_name t) ''conv1d.weight'' \<and> ta_shape t \<noteq> [] then max conv_dim (hd (ta_shape t)) else conv_dim)
         else acc)"

definition head_dimension :: "model_config \<Rightarrow> int" where
  "head_dimension cfg =
     (let head_dim = cfg_int cfg ''head_dim'' in
      if head_dim = 0 \<and> cfg_int cfg ''hidden_size'' \<noteq> 0 \<and> cfg_int cfg ''num_attention_heads'' \<noteq> 0
      then cfg_int cfg ''hidden_size'' div cfg_int cfg ''num_attention_heads'' else head_dim)"

definition build_state_budget :: "shard_header_scan \<Rightarrow> int \<Rightarrow> int \<Rightarrow> state_budget" where
  "build_state_budget scan kv_bytes_per_element state_bytes_per_element =
     (let cfg = text_config (sc_config scan);
          (full, linears, conv_dim) = fold (\<lambda>(n, t). attention_layer t) (sc_tensors scan) ({}, {}, 0);
          n_full = int (card full); n_linear = int (card linears);
          kv = n_full * cfg_int cfg ''num_key_value_heads'' * head_dimension cfg * 2 * kv_bytes_per_element;
          indexer = n_full * cfg_int cfg ''indexer_kv_heads'' * cfg_int cfg ''indexer_head_dim'' * kv_bytes_per_element;
          recurrent = n_linear * (cfg_int cfg ''linear_num_value_heads'' * cfg_int cfg ''linear_value_head_dim'' *
              cfg_int cfg ''linear_key_head_dim'' * state_bytes_per_element +
            conv_dim * cfg_int cfg ''linear_conv_kernel_dim'' * state_bytes_per_element) in
      \<lparr>sg_kv_bytes_per_token = kv, sg_indexer_bytes_per_token = indexer, sg_recurrent_state_bytes = recurrent,
       sg_num_full_attn_layers = n_full, sg_num_linear_attn_layers = n_linear\<rparr>)"

section \<open>Roofline\<close>

text \<open>\<open>None\<close> is \<open>inf\<close>.\<close>

record roofline_row =
  rr_hit_rate :: pyfloat
  rr_ssd_bytes_per_token :: int
  rr_tokens_per_second :: "(pyfloat, pyfloat option) odict"

record roofline =
  rf_expert_bits :: pyfloat
  rf_expert_bytes_per_token :: int
  rf_expert_record_bytes :: int
  rf_reads_per_token :: int
  rf_total_expert_slots :: int
  rf_cache_slots :: int
  rf_cache_capacity_fraction :: pyfloat
  rf_rows :: "roofline_row list"
  rf_efficiency_factor :: pyfloat

definition realistic_range :: "roofline \<Rightarrow> pyfloat \<Rightarrow> pyfloat \<Rightarrow> pyfloat option \<times> pyfloat option" where
  "realistic_range r hit_rate bandwidth_gbs =
     (case find (\<lambda>row. abs (fsub (rr_hit_rate row) hit_rate) < fl (1 / 10 ^ 9)) (rf_rows r) of
        None \<Rightarrow> (Some 0, Some 0)
      | Some row \<Rightarrow>
          (case od_get (rr_tokens_per_second row) bandwidth_gbs of
             None \<Rightarrow> (Some (fmul 0 (rf_efficiency_factor r)), Some (fmul 0 (fmul (rf_efficiency_factor r) 2)))
           | Some None \<Rightarrow> (None, None)
           | Some (Some best) \<Rightarrow> (Some (fmul best (rf_efficiency_factor r)),
               Some (fmul best (fmul (rf_efficiency_factor r) 2)))))"

text \<open>\<open>x // y\<close> of positive floats: the exact remainder, then a rounded quotient and its floor,
  corrected upwards.\<close>

definition float_floordiv :: "pyfloat \<Rightarrow> pyfloat \<Rightarrow> pyfloat" where
  "float_floordiv x y =
     (let m = x - y * of_int \<lfloor>x / y\<rfloor>; q = fl (fl (x - m) / y); f = of_int \<lfloor>q\<rfloor> in
      if q = 0 then 0 else if 1 / 2 < fsub q f then fadd f 1 else f)"

definition roofline_row_for :: "int \<Rightarrow> pyfloat list \<Rightarrow> pyfloat \<Rightarrow> roofline_row" where
  "roofline_row_for bytes_per_token bandwidths hit =
     (let miss_bytes = py_int (fmul (fof bytes_per_token) (fsub 1 hit)) in
      \<lparr>rr_hit_rate = hit, rr_ssd_bytes_per_token = miss_bytes,
       rr_tokens_per_second = fold (\<lambda>bw d. od_set d bw
         (if 0 < miss_bytes then Some (fl (fmul bw (10 ^ 9) / fof miss_bytes)) else None)) bandwidths []\<rparr>)"

definition build_roofline :: "activation_budget \<Rightarrow> expert_geometry \<Rightarrow> precision_map \<Rightarrow> pyfloat \<Rightarrow>
    pyfloat list \<Rightarrow> pyfloat list \<Rightarrow> bool \<Rightarrow> roofline" where
  "build_roofline activation g m ram_budget_bytes hit_rates bandwidths packed_records =
     (let bits = bits_for m EXPERTS_ROUTED;
          bytes_per_token = \<lceil>fl (fmul (fof (ab_expert_params activation)) bits / 8)\<rceil>;
          rb = record_bytes g bits;
          reads = activations_per_token g * (if packed_records then 1 else eg_tensors_per_expert g);
          slots = (if rb = 0 then 0 else py_int (float_floordiv ram_budget_bytes (fof rb)));
          total_slots = eg_total_slots g in
      \<lparr>rf_expert_bits = bits, rf_expert_bytes_per_token = bytes_per_token, rf_expert_record_bytes = rb,
       rf_reads_per_token = reads, rf_total_expert_slots = total_slots, rf_cache_slots = slots,
       rf_cache_capacity_fraction = (if total_slots = 0 then 0 else fl (of_int slots / of_int total_slots)),
       rf_rows = map (roofline_row_for bytes_per_token bandwidths) hit_rates, rf_efficiency_factor = 1 / 4\<rparr>)"

section \<open>The report\<close>

record audit_report =
  ar_model_id :: string
  ar_num_tensors :: int
  ar_num_shards :: int
  ar_total_params :: int
  ar_total_source_bytes :: int
  ar_dtype_histogram :: "(string, int) odict"
  ar_discrepancies :: "scan_discrepancy list"
  ar_breakdown :: component_breakdown
  ar_activation :: activation_budget
  ar_storage :: storage_budget
  ar_state :: state_budget
  ar_precision_map :: precision_map
  ar_expert_geometry :: "expert_geometry option"
  ar_ple_geometry :: "ple_geometry option"
  ar_roofline :: "roofline option"

definition enabled_params :: "audit_report \<Rightarrow> int" where
  "enabled_params r = params_for_capabilities (ar_breakdown r) (ab_features (ar_activation r))"

definition lm_core_params :: "audit_report \<Rightarrow> int" where
  "lm_core_params r =
     enabled_params r - sum_list (map (\<lambda>(c, s). cs_params s)
       (filter (\<lambda>(c, s). cs_capability s \<in> set (ab_features (ar_activation r)) \<and>
          cs_tier s = NVME_COLD \<and> cs_activation s = ROW_LOOKUP) (cb_stats (ar_breakdown r))))"

definition ar_dropped_params :: "audit_report \<Rightarrow> (component, int) odict" where
  "ar_dropped_params r = params_dropped_by (ar_breakdown r) (ab_features (ar_activation r))"

definition build_audit_report :: "shard_header_scan \<Rightarrow> precision_map \<Rightarrow> capability list \<Rightarrow> pyfloat \<Rightarrow>
    audit_report result" where
  "build_audit_report scan m features ram_budget_bytes =
     (let breakdown = classify_all (sc_tensors scan) None; expert = infer_expert_geometry scan in
      bindE (infer_ple_geometry scan) (\<lambda>ple.
      bindE (build_activation_budget scan breakdown features expert ple) (\<lambda>activation.
      Inr \<lparr>ar_model_id = sc_model_id scan, ar_num_tensors = sc_num_tensors scan,
           ar_num_shards = int (length (sc_shards scan)), ar_total_params = sc_total_params scan,
           ar_total_source_bytes = sc_total_bytes scan, ar_dtype_histogram = dtype_histogram scan,
           ar_discrepancies = sc_discrepancies scan, ar_breakdown = breakdown, ar_activation = activation,
           ar_storage = build_storage_budget breakdown m features, ar_state = build_state_budget scan 2 4,
           ar_precision_map = m, ar_expert_geometry = expert, ar_ple_geometry = ple,
           ar_roofline = (case expert of
              Some g \<Rightarrow> if 0 < ab_expert_params activation
                then Some (build_roofline activation g m ram_budget_bytes
                  [0, fl (4 / 10), fl (6 / 10), fl (75 / 100), fl (9 / 10)] [3, 5, 7] True) else None
            | None \<Rightarrow> None)\<rparr>)))"

section \<open>The routed fraction is exact\<close>

lemma py_round_near:
  assumes "\<bar>x - of_int a\<bar> < 1 / 2"
  shows "py_round x = a"
proof -
  have "\<bar>of_int (py_round x) - of_int a :: rat\<bar> < 1"
    using py_round_error [of x] assms by linarith
  then have "\<bar>py_round x - a\<bar> < 1" by (metis of_int_1 of_int_abs of_int_diff of_int_less_iff)
  then show ?thesis by simp
qed

lemma fl_abs_error: "0 \<le> x \<Longrightarrow> x \<le> 2 ^ 51 \<Longrightarrow> \<bar>fl x - x\<bar> \<le> 1 / 4"
proof -
  assume x: "0 \<le> x" "x \<le> 2 ^ 51"
  have "\<bar>fl x - x\<bar> \<le> x * 2 powi (- 53)" using fl_error [of x] x by simp
  also have "\<dots> \<le> 2 ^ 51 * 2 powi (- 53)" using x by (intro mult_right_mono) simp_all
  also have "\<dots> = 1 / 4" by (simp add: power_int_minus)
  finally show ?thesis .
qed

text \<open>C38: The parameters that one token activates in the routed experts are exactly
  \<open>params * top_k / num_experts\<close> whenever that is an integer, in spite of the float quotient,
  product and rounding, up to \<open>2 ^ 50\<close> parameters.\<close>

theorem routed_active_exact:
  assumes "0 < eg_num_experts g" "0 \<le> eg_top_k g" "eg_top_k g \<le> eg_num_experts g"
    and "0 \<le> params" "params \<le> 2 ^ 50" "eg_num_experts g dvd params * eg_top_k g"
  shows "routed_active g params = Inr (params * eg_top_k g div eg_num_experts g)"
proof -
  let ?n = "eg_num_experts g" and ?k = "eg_top_k g"
  define A where "A = params * ?k div ?n"
  define q :: rat where "q = of_int ?k / of_int ?n"
  have n: "(0 :: rat) < of_int ?n" using assms(1) by simp
  have "A * ?n = params * ?k" using assms(6) by (simp add: A_def)
  then have "(of_int A :: rat) * of_int ?n = of_int params * of_int ?k" by (metis of_int_mult)
  then have A: "(of_int A :: rat) = of_int params * q" using n by (simp add: q_def field_simps)
  have q: "0 \<le> q" "q \<le> 1" using assms(1-3) by (simp_all add: q_def)
  have p: "(0 :: rat) \<le> of_int params" "(of_int params :: rat) \<le> 2 ^ 50"
    using assms(4,5) by (simp, metis (mono_tags) of_int_le_iff of_int_numeral of_int_power)
  have fo: "fof params = of_int params" unfolding fof_def using assms(4,5) by (intro fl_of_int) simp
  define y where "y = of_int params * fl q"
  have fq: "\<bar>fl q - q\<bar> \<le> 2 powi (- 53)"
    by (rule order_trans [OF fl_error]) (use q in \<open>simp add: mult_left_le_one_le\<close>)
  have "\<bar>y - of_int A\<bar> = of_int params * \<bar>fl q - q\<bar>"
    unfolding y_def A using p(1) by (simp add: abs_mult flip: right_diff_distrib)
  also have "\<dots> \<le> 2 ^ 50 * 2 powi (- 53)" using fq p by (intro mult_mono) simp_all
  also have "\<dots> = 1 / 8" by (simp add: power_int_minus)
  finally have yA: "\<bar>y - of_int A\<bar> \<le> 1 / 8" .
  have A50: "(of_int A :: rat) \<le> 2 ^ 50" unfolding A using p q by (metis mult.right_neutral mult_mono order_trans zero_le_one mult_left_le)
  have y0: "0 \<le> y" using p(1) fl_nonneg [OF q(1)] by (simp add: y_def)
  have "y \<le> of_int A + 1 / 8" using yA by linarith
  also have "\<dots> \<le> 2 ^ 51" using A50 by simp
  finally have y: "0 \<le> y" "y \<le> 2 ^ 51" using y0 by blast+
  have "\<bar>fl y - of_int A\<bar> \<le> 1 / 4 + 1 / 8" using fl_abs_error [OF y] yA by linarith
  then have "py_round (fl y) = A" by (intro py_round_near) linarith
  then show ?thesis using assms(1) by (simp add: routed_active_def py_truediv_def fmul_def fo y_def A_def q_def)
qed

definition demo_geometry :: expert_geometry where
  "demo_geometry = \<lparr>eg_num_experts = 512, eg_top_k = 10, eg_num_expert_layers = 48,
     eg_params_per_expert = 4915200, eg_tensors_per_expert = 2\<rparr>"

theorem routed_active_exact_witness:
  "routed_active demo_geometry 120795955200 = Inr 2359296000"
  using routed_active_exact [of demo_geometry 120795955200] by (simp add: demo_geometry_def)

end
