(* ===== verification/Plan.thy ===== *)
theory Plan
  imports Budget
begin

text \<open>
  \<open>package/plan.py\<close>: the pure planner. From a header scan, a precision map and a feature set it
  computes every address of the package: expert records, PLE rows and the dense blob. The
  laws show that the plan assigns every work item a byte range of its own inside its region,
  which is what the writer needs to resume safely, and that the PLE index it emits is the one
  the runtime's address translation is correct for.
\<close>

section \<open>Codecs\<close>

definition component_value :: "component \<Rightarrow> string" where
  "component_value c = (case c of
     EXPERTS_ROUTED \<Rightarrow> ''experts_routed'' | SHARED_EXPERT \<Rightarrow> ''shared_expert'' | ROUTER \<Rightarrow> ''router''
   | PLE_TABLE \<Rightarrow> ''ple_table'' | PLE_PROJ \<Rightarrow> ''ple_proj'' | GDN_ATTN \<Rightarrow> ''gdn_attn''
   | FULL_ATTN \<Rightarrow> ''full_attn'' | HYPERCONN \<Rightarrow> ''hyperconn'' | MLP_DENSE \<Rightarrow> ''mlp_dense''
   | EMBED \<Rightarrow> ''embed'' | LM_HEAD \<Rightarrow> ''lm_head'' | VISION \<Rightarrow> ''vision'' | MTP \<Rightarrow> ''mtp''
   | NORM \<Rightarrow> ''norm'' | OTHER \<Rightarrow> ''other'')"

definition all_components :: "component list" where
  "all_components = [EXPERTS_ROUTED, SHARED_EXPERT, ROUTER, PLE_TABLE, PLE_PROJ, GDN_ATTN, FULL_ATTN,
     HYPERCONN, MLP_DENSE, EMBED, LM_HEAD, VISION, MTP, NORM, OTHER]"

definition codec_id_for :: "component \<Rightarrow> pyfloat \<Rightarrow> string \<Rightarrow> string" where
  "codec_id_for c bits meth =
     (if 16 \<le> bits then ''raw.f16.v1''
      else if c = PLE_TABLE then ''pt.ple.'' @ meth @ ''.v1''
      else ''pt.scalar.'' @ meth @ ''.v1'')"

definition codec_spec_for :: "component \<Rightarrow> pyfloat \<Rightarrow> int \<Rightarrow> bool \<Rightarrow> string \<Rightarrow> codec_spec" where
  "codec_spec_for c bits group_size symmetric meth =
     (if 16 \<le> bits then
        \<lparr>cd_id = codec_id_for c bits meth, cd_method = ''raw'', cd_logical_bits = 16, cd_storage_bits = 16,
         cd_group_size = -1, cd_symmetric = True, cd_scale_dtype = None, cd_zero_dtype = None,
         cd_byte_order = ''little'', cd_packing_order = ''native-f16''\<rparr>
      else
        \<lparr>cd_id = codec_id_for c bits meth, cd_method = meth, cd_logical_bits = bits,
         cd_storage_bits = storage_bits bits, cd_group_size = group_size, cd_symmetric = symmetric,
         cd_scale_dtype = Some ''float16'', cd_zero_dtype = (if symmetric then None else Some ''float16''),
         cd_byte_order = ''little'', cd_packing_order = ''least-significant-first''\<rparr>)"

section \<open>Group sizes\<close>

definition requested_group_size :: "string \<Rightarrow> precision_map \<Rightarrow> int option" where
  "requested_group_size label m =
     (if str_startswith label ''experts_routed'' then Some (pe_group_size (entry_for m EXPERTS_ROUTED))
      else if label = ''ple_table'' then Some (pe_group_size (entry_for m PLE_TABLE))
      else case find (\<lambda>c. component_value c = label) all_components of
        None \<Rightarrow> None
      | Some c \<Rightarrow> Some (pe_group_size (entry_for m c)))"

definition quantized_shapes :: "dense_work_item list \<Rightarrow> expert_layout option \<Rightarrow> ple_plan option \<Rightarrow>
    (int list \<times> int \<times> string) list" where
  "quantized_shapes dense expert_layout ple_plan =
     map (\<lambda>i. (ta_shape (dw_address i), dw_group_size i, component_value (dw_component i)))
       (filter (\<lambda>i. dw_bits i < 16) dense) @
     (case expert_layout of
        None \<Rightarrow> []
      | Some lay \<Rightarrow> map (\<lambda>p. (pl_shape p, pl_group_size p, ''experts_routed.'' @ pl_name p))
          (filter (\<lambda>p. pl_bits p < 16) (rl_projections (el_record lay)))) @
     (case ple_plan of
        None \<Rightarrow> []
      | Some ple \<Rightarrow> [([1, pr_row_width (pp_row ple)], pr_group_size (pp_row ple), ''ple_table'')])"

text \<open>The loop that asserts divisibility and collects the reductions, by label.\<close>

fun check_groups :: "precision_map \<Rightarrow> (int list \<times> int \<times> string) list \<Rightarrow> (string, int \<times> int \<times> int) odict \<Rightarrow>
    (string, int \<times> int \<times> int) odict result" where
  "check_groups m [] reduced = Inr reduced"
| "check_groups m ((shape, group_size, label) # rest) reduced =
     (let in_features = snd (matrix_dims shape) in
      if 0 < group_size \<and> in_features mod group_size \<noteq> 0 then Inl PlanError
      else check_groups m rest
        (case requested_group_size label m of
           None \<Rightarrow> reduced
         | Some requested \<Rightarrow>
             if requested \<noteq> 0 \<and> group_size < requested \<and> requested < in_features
             then od_set reduced label (in_features, requested, group_size) else reduced))"

text \<open>The width warnings, over the components in the order of their values. The message
  computes \<open>8 // int(bits)\<close>.\<close>

fun width_warnings :: "precision_map \<Rightarrow> component list \<Rightarrow> plan_warning list result" where
  "width_warnings m [] = Inr []"
| "width_warnings m (c # cs) =
     (let bits = pe_bits (entry_for m c) in
      if bits < 16 \<and> \<not> is_dense_bit_width bits then
        if py_int bits = 0 then Inl ZeroDivisionError
        else bindE (width_warnings m cs) (\<lambda>ws. Inr (WidthPadded c bits # ws))
      else width_warnings m cs)"

definition sort_components :: "component list \<Rightarrow> component list" where
  "sort_components cs = sort_key component_value (remdups cs)"

section \<open>The PLE table\<close>

definition ple_shard_index :: "string \<Rightarrow> int result" where
  "ple_shard_index name = (case capture_int ''shard_'' [] name of None \<Rightarrow> Inl PlanError | Some i \<Rightarrow> Inr i)"

text \<open>The source layer of the table: the one of the first table tensor with an index. Its
  starting value is \<open>-1\<close>, and a name without an index sets it to \<open>None\<close>, with which the next
  comparison raises.\<close>

fun ple_source_layer :: "tensor_address list \<Rightarrow> int option \<Rightarrow> int option result" where
  "ple_source_layer [] cur = Inr cur"
| "ple_source_layer (t # ts) cur =
     (case cur of
        None \<Rightarrow> Inl TypeError
      | Some l \<Rightarrow> ple_source_layer ts (if l < 0 then layer_index (ta_name t) else cur))"

definition ple_index_tensors :: "shard_header_scan \<Rightarrow> tensor_address list" where
  "ple_index_tensors scan =
     filter (\<lambda>t. str_startswith (str_upper (ta_dtype t)) ''I'') (component_tensors scan PLE_PROJ)"

definition sort_by_shard :: "tensor_address list \<Rightarrow> tensor_address list result" where
  "sort_by_shard tensors =
     bindE (mapE (\<lambda>a. bindE (ple_shard_index (ta_name a)) (\<lambda>i. Inr (i, a))) tensors) (\<lambda>keyed.
     Inr (map snd (sort_key fst keyed)))"

text \<open>\<open>address.shape[0]\<close>\<close>

definition shape_rows :: "tensor_address \<Rightarrow> int result" where
  "shape_rows a = (case ta_shape a of [] \<Rightarrow> Inl IndexError | n # _ \<Rightarrow> Inr n)"

fun logical_rows :: "tensor_address list \<Rightarrow> int \<Rightarrow> ((tensor_address \<times> int) list \<times> int) result" where
  "logical_rows [] cursor = Inr ([], cursor)"
| "logical_rows (a # as) cursor =
     bindE (shape_rows a) (\<lambda>n. bindE (logical_rows as (cursor + n)) (\<lambda>(rest, total).
     Inr ((a, cursor) # rest, total)))"

definition select_canary :: "'a list \<Rightarrow> 'a list" where
  "select_canary xs =
     map snd (filter (\<lambda>(i, x). i = 0 \<or> i = length xs - 1) (zip [0 ..< length xs] xs))"

fun place_shards :: "ple_row_layout \<Rightarrow> (tensor_address \<times> int) list \<Rightarrow> int \<Rightarrow>
    (ple_shard_item list \<times> int) result" where
  "place_shards row [] cursor = Inr ([], cursor)"
| "place_shards row ((a, logical_first_row) # rest) cursor =
     bindE (shape_rows a) (\<lambda>rows. bindE (ple_shard_index (ta_name a)) (\<lambda>index.
     bindE (place_shards row rest (cursor + rows)) (\<lambda>(items, total).
     Inr (\<lparr>pw_address = a, pw_shard_index = index, pw_first_row = cursor,
           pw_logical_first_row = logical_first_row, pw_num_rows = rows,
           pw_byte_offset = row_offset row cursor\<rparr> # items, total))))"

definition profile_rows :: "string \<Rightarrow> 'a list \<Rightarrow> 'a list" where
  "profile_rows build_profile rows = (if build_profile = ''canary'' then select_canary rows else rows)"

definition lay_out_ple :: "model_config \<Rightarrow> precision_entry \<Rightarrow> string \<Rightarrow> ple_geometry \<Rightarrow> int option \<Rightarrow>
    tensor_address list \<Rightarrow> tensor_address list \<Rightarrow> ple_plan result" where
  "lay_out_ple cfg entry build_profile g source_layer table_tensors index_tensors =
     bindE (sort_by_shard table_tensors) (\<lambda>sorted_tensors.
     bindE (row_build (pg_row_width g) (pe_bits entry) (pe_group_size entry) (pe_symmetric entry) 2 2
              PAGE_BYTES ''pt.ple.rtn.v1'') (\<lambda>row.
     bindE (logical_rows sorted_tensors 0) (\<lambda>(rows, logical_total).
     bindE (place_shards row (profile_rows build_profile rows) 0) (\<lambda>(shards, physical_total).
     let declared = cfg_int cfg ''ngram_vocab_size_base'' * pg_num_heads g in
     bindE (case source_layer of None \<Rightarrow> Inl TypeError | Some l \<Rightarrow> Inr (if 0 \<le> l then l else 0)) (\<lambda>layer.
     Inr \<lparr>pp_source_layer = layer, pp_ngram_size = the (or_int (cfg_get cfg ''ngram_size'') (Some 3)),
          pp_row = row, pp_total_rows = physical_total, pp_logical_total_rows = logical_total,
          pp_declared_rows = (if declared = 0 then logical_total else declared),
          pp_shards = shards, pp_index_tensors = sort_key ta_name index_tensors\<rparr>)))))"

definition plan_ple :: "shard_header_scan \<Rightarrow> precision_map \<Rightarrow> string \<Rightarrow> ple_plan option result" where
  "plan_ple scan m build_profile =
     bindE (infer_ple_geometry scan) (\<lambda>geometry.
     case geometry of
       None \<Rightarrow> Inr None
     | Some g \<Rightarrow>
         let table_tensors = component_tensors scan PLE_TABLE in
         bindE (ple_source_layer table_tensors (Some (-1))) (\<lambda>source_layer.
         if table_tensors = [] then Inr None
         else bindE (lay_out_ple (text_config (sc_config scan)) (entry_for m PLE_TABLE) build_profile g source_layer
                table_tensors (ple_index_tensors scan)) (\<lambda>p. Inr (Some p))))"

section \<open>Experts\<close>

definition select_experts :: "expert_slice list \<Rightarrow> int \<Rightarrow> expert_slice list" where
  "select_experts slices num_experts =
     (let all_layers = sort (remdups (map es_layer slices)) in
      filter (\<lambda>s. (es_layer s = hd all_layers \<or> es_layer s = last all_layers) \<and>
         es_expert s \<in> {0, num_experts div 2 - 1, num_experts - 1}) slices)"

definition expert_record :: "precision_entry \<Rightarrow> signature \<Rightarrow> string \<Rightarrow> int \<Rightarrow> record_layout result" where
  "expert_record entry sig meth alignment =
     record_build (map (\<lambda>(name, shape, dtype).
       \<lparr>ps_name = name, ps_shape = shape, ps_bits = pe_bits entry, ps_group_size = pe_group_size entry,
        ps_symmetric = pe_symmetric entry, ps_codec_id = codec_id_for EXPERTS_ROUTED (pe_bits entry) meth\<rparr>) sig)
       alignment 2 2"

definition record_entries :: "record_layout \<Rightarrow> expert_slice list \<Rightarrow> record_entry list" where
  "record_entries rec slices =
     map (\<lambda>(i, s). \<lparr>re_record_index = int i, re_layer = es_layer s, re_expert = es_expert s,
        re_byte_offset = record_offset rec (int i)\<rparr>) (zip [0 ..< length slices] slices)"

definition expert_items :: "expert_layout \<Rightarrow> expert_slice list \<Rightarrow> expert_work_item list result" where
  "expert_items lay slices =
     mapE (\<lambda>s. bindE (record_index lay (es_layer s) (es_expert s)) (\<lambda>i.
       Inr \<lparr>ew_slice = s, ew_record_index = i, ew_bank_offset = record_offset (el_record lay) i\<rparr>)) slices"

definition expert_layout_for :: "bool \<Rightarrow> expert_slice list \<Rightarrow> int \<Rightarrow> record_layout \<Rightarrow> expert_layout" where
  "expert_layout_for sparse_canary slices num_experts rec =
     (let layers = sort (remdups (map es_layer slices)) in
      \<lparr>el_num_layers = int (length layers), el_num_experts = num_experts, el_layers = layers, el_record = rec,
       el_records = (if sparse_canary then record_entries rec slices else [])\<rparr>)"

definition plan_bank :: "precision_entry \<Rightarrow> int \<Rightarrow> string \<Rightarrow> bool \<Rightarrow> int \<Rightarrow> expert_slice list \<Rightarrow>
    (expert_work_item list \<times> expert_layout option) result" where
  "plan_bank entry alignment meth sparse_canary num_experts slices =
     bindE (projection_signature slices) (\<lambda>sig.
     bindE (expert_record entry sig meth alignment) (\<lambda>rec.
     let lay = expert_layout_for sparse_canary slices num_experts rec in
     bindE (expert_items lay slices) (\<lambda>items. Inr (items, Some lay))))"

definition plan_experts :: "shard_header_scan \<Rightarrow> precision_map \<Rightarrow> int \<Rightarrow> string \<Rightarrow> string \<Rightarrow>
    (expert_work_item list \<times> expert_layout option) result" where
  "plan_experts scan m alignment meth build_profile =
     (case infer_expert_geometry scan of
        None \<Rightarrow> Inr ([], None)
      | Some g \<Rightarrow>
          bindE (build_expert_slices (sc_tensors scan) (eg_num_experts g) None None) (\<lambda>slices.
          if slices = [] then Inr ([], None)
          else
            let sparse_canary = (build_profile = ''canary'') in
            plan_bank (entry_for m EXPERTS_ROUTED) alignment meth sparse_canary (eg_num_experts g)
              (if sparse_canary then select_experts slices (eg_num_experts g) else slices)))"

section \<open>The dense blob\<close>

definition DENSE_ENTRY_ALIGNMENT :: int where
  "DENSE_ENTRY_ALIGNMENT = 64"

definition dense_item :: "precision_map \<Rightarrow> string \<Rightarrow> tensor_address \<Rightarrow> dense_work_item result" where
  "dense_item m meth a =
     (let c = cr_component (classify_tensor (ta_name a) None); entry = entry_for m c;
          group_size = resolve_group_size (snd (matrix_dims (ta_shape a))) (pe_group_size entry) in
      bindE (section_spans (ta_shape a) (pe_bits entry) group_size (pe_symmetric entry) 2 2) (\<lambda>spans.
      Inr \<lparr>dw_address = a, dw_component = c, dw_bits = pe_bits entry, dw_group_size = group_size,
           dw_symmetric = pe_symmetric entry, dw_codec_id = codec_id_for c (pe_bits entry) meth,
           dw_packed_bytes = spans_length spans, dw_byte_offset = 0, dw_spans = spans\<rparr>))"

definition is_dense_tensor :: "capability list \<Rightarrow> ple_plan option \<Rightarrow> tensor_address \<Rightarrow> bool" where
  "is_dense_tensor features ple a =
     (let rule = classify_tensor (ta_name a) None in
      cr_capability rule \<in> set features \<and> cr_component rule \<noteq> EXPERTS_ROUTED \<and> cr_component rule \<noteq> PLE_TABLE \<and>
      \<not> (case ple of None \<Rightarrow> False | Some p \<Rightarrow> ta_name a \<in> set (map ta_name (pp_index_tensors p))))"

definition dropped_params :: "shard_header_scan \<Rightarrow> capability list \<Rightarrow> int" where
  "dropped_params scan features =
     sum_list (map ta_num_params (filter (\<lambda>a. cr_capability (classify_tensor (ta_name a) None) \<notin> set features)
       (map snd (sc_tensors scan))))"

definition representatives :: "dense_work_item list \<Rightarrow> dense_work_item list" where
  "representatives dense =
     map snd (fold (\<lambda>i d. if od_in (dw_component i) d then d else od_set d (dw_component i) i)
       (sort_key (\<lambda>i. ta_name (dw_address i)) dense) [])"

fun place_dense :: "dense_work_item list \<Rightarrow> int \<Rightarrow> dense_work_item list \<times> int" where
  "place_dense [] cursor = ([], cursor)"
| "place_dense (i # is) cursor =
     (case place_dense is (align_up (cursor + dw_length i) DENSE_ENTRY_ALIGNMENT) of (rest, past) \<Rightarrow>
        (i\<lparr>dw_byte_offset := cursor\<rparr> # rest, past))"

definition plan_dense :: "shard_header_scan \<Rightarrow> precision_map \<Rightarrow> capability list \<Rightarrow> string \<Rightarrow> string \<Rightarrow>
    ple_plan option \<Rightarrow> (dense_work_item list \<times> int) result" where
  "plan_dense scan m features meth build_profile ple =
     bindE (mapE (dense_item m meth) (filter (is_dense_tensor features ple) (map snd (sc_tensors scan)))) (\<lambda>all.
     let dense = (if build_profile = ''canary'' then representatives all else all) in
     Inr (place_dense (sort_key (\<lambda>i. ta_name (dw_address i)) dense) 0))"

definition dense_entry_of :: "dense_work_item \<Rightarrow> dense_entry" where
  "dense_entry_of i =
     \<lparr>de_name = ta_name (dw_address i), de_component = component_value (dw_component i),
      de_shape = ta_shape (dw_address i), de_bits = dw_bits i, de_group_size = dw_group_size i,
      de_symmetric = dw_symmetric i, de_codec_id = dw_codec_id i, de_num_params = ta_num_params (dw_address i),
      de_packed_bytes = dw_packed_bytes i, de_byte_offset = dw_byte_offset i, de_spans = dw_spans i\<rparr>"

section \<open>The plan\<close>

text \<open>A later spec with the id of an earlier one replaces it.\<close>

definition plan_codecs :: "precision_map \<Rightarrow> string \<Rightarrow> dense_work_item list \<Rightarrow> expert_layout option \<Rightarrow>
    ple_plan option \<Rightarrow> (string, codec_spec) odict" where
  "plan_codecs m meth dense lay ple =
     (let add = (\<lambda>spec codecs. od_set codecs (cd_id spec) spec);
          expert_entry = entry_for m EXPERTS_ROUTED; ple_entry = entry_for m PLE_TABLE;
          d = fold (\<lambda>i. add (codec_spec_for (dw_component i) (dw_bits i) (dw_group_size i) (dw_symmetric i) meth)) dense [];
          e = (case lay of None \<Rightarrow> d
            | Some l \<Rightarrow> add (codec_spec_for EXPERTS_ROUTED (pe_bits expert_entry) (pe_group_size expert_entry)
                (pe_symmetric expert_entry) meth) d) in
      case ple of None \<Rightarrow> e
      | Some p \<Rightarrow> add (codec_spec_for PLE_TABLE (pe_bits ple_entry) (pr_group_size (pp_row p))
          (pe_symmetric ple_entry) meth) e)"

definition plan_totals :: "shard_header_scan \<Rightarrow> capability list \<Rightarrow> dense_work_item list \<Rightarrow> int \<Rightarrow>
    expert_work_item list \<Rightarrow> expert_layout option \<Rightarrow> ple_plan option \<Rightarrow> package_totals result" where
  "plan_totals scan features dense dense_bytes experts lay ple =
     bindE (case ple of None \<Rightarrow> Inr 0 | Some p \<Rightarrow> pp_total_bytes p) (\<lambda>ple_bytes.
     Inr \<lparr>pt_source_params = sc_total_params scan,
          pt_packaged_params = sum_list (map (\<lambda>i. ta_num_params (dw_address i)) dense) +
            sum_list (map (\<lambda>i. es_num_params (ew_slice i)) experts) +
            (case ple of None \<Rightarrow> 0 | Some p \<Rightarrow> sum_list (map (\<lambda>s. ta_num_params (pw_address s)) (pp_shards p))) +
            (case ple of None \<Rightarrow> 0 | Some p \<Rightarrow> sum_list (map ta_num_params (pp_index_tensors p))),
          pt_dropped_params = dropped_params scan features, pt_dense_bytes = dense_bytes,
          pt_expert_bytes = (case lay of None \<Rightarrow> 0 | Some l \<Rightarrow> el_total_bytes l), pt_ple_bytes = ple_bytes\<rparr>)"

definition precision_dump :: "precision_map \<Rightarrow> component \<Rightarrow> precision_entry_dump" where
  "precision_dump m c = (let e = entry_for m c in
     \<lparr>pd_bits = pe_bits e, pd_group_size = pe_group_size e, pd_symmetric = pe_symmetric e,
      pd_effective_bits = bits_for m c\<rparr>)"

definition plan_warnings :: "precision_map \<Rightarrow> dense_work_item list \<Rightarrow> expert_layout option \<Rightarrow>
    ple_plan option \<Rightarrow> plan_warning list result" where
  "plan_warnings m dense lay ple =
     bindE (check_groups m (quantized_shapes dense lay ple) []) (\<lambda>reduced.
     bindE (width_warnings m (sort_components (map dw_component dense @ [EXPERTS_ROUTED, PLE_TABLE]))) (\<lambda>widths.
     Inr (map (\<lambda>(label, n, requested, group_size). GroupReduced label n requested group_size) (sort_key fst reduced) @
          widths)))"

definition plan_manifest :: "shard_header_scan \<Rightarrow> precision_map \<Rightarrow> capability list \<Rightarrow> string option \<Rightarrow>
    string \<Rightarrow> string \<Rightarrow> bool \<Rightarrow> dense_work_item list \<Rightarrow> expert_layout option \<Rightarrow> ple_plan option \<Rightarrow>
    package_totals \<Rightarrow> activation_budget \<Rightarrow> package_manifest" where
  "plan_manifest scan m features source_revision meth build_profile complete_model dense lay ple totals activation =
     (let revision = (case source_revision of Some r \<Rightarrow> if r = [] then sc_source_revision scan else r
            | None \<Rightarrow> sc_source_revision scan);
          breakdown = classify_all (sc_tensors scan) None in
      \<lparr>pm_package_version = PACKAGE_VERSION, pm_source_model = sc_model_id scan, pm_source_revision = Some revision,
       pm_source = Some \<lparr>sv_repository = sc_model_id scan, sv_revision = revision,
         sv_config_sha256 = sc_config_sha256 scan, sv_index_sha256 = sc_index_sha256 scan\<rparr>,
       pm_build_profile = build_profile, pm_complete_model = complete_model, pm_features = features,
       pm_precision_map_name = pm_name m,
       pm_precision_map = map (\<lambda>(c, s). (c, precision_dump m c)) (cb_stats breakdown),
       pm_codecs = plan_codecs m meth dense lay ple, pm_regions = [], pm_totals = totals,
       pm_dense = map dense_entry_of dense, pm_expert_layout = lay, pm_ple_index = None,
       pm_activated_params_per_token = ab_total activation, pm_expert_params_per_token = ab_expert_params activation,
       pm_expert_bytes_per_token = packed_bytes (ab_expert_params activation) (pe_effective (entry_for m EXPERTS_ROUTED)),
       pm_reads_per_token = (case (lay, infer_expert_geometry scan) of
          (Some l, Some g) \<Rightarrow> int (length (el_layers l)) * eg_top_k g | _ \<Rightarrow> 0)\<rparr>)"

text \<open>The row layout is renamed after the codec of the quantization method.\<close>

definition name_ple_codec :: "string \<Rightarrow> ple_plan \<Rightarrow> ple_plan" where
  "name_ple_codec meth p =
     p\<lparr>pp_row := (pp_row p)\<lparr>pr_codec_id := codec_id_for PLE_TABLE (pr_bits (pp_row p)) meth\<rparr>\<rparr>"

definition slice_to_plan_error :: "'a result \<Rightarrow> 'a result" where
  "slice_to_plan_error r = (case r of Inl e \<Rightarrow> Inl (if e = SliceError then PlanError else e) | Inr x \<Rightarrow> Inr x)"

definition plan_package :: "shard_header_scan \<Rightarrow> precision_map option \<Rightarrow> capability list \<Rightarrow> int \<Rightarrow>
    string option \<Rightarrow> string \<Rightarrow> string \<Rightarrow> bool \<Rightarrow> build_plan result" where
  "plan_package scan precision features expert_alignment source_revision meth build_profile complete_model0 =
     (let m = (case precision of Some p \<Rightarrow> p | None \<Rightarrow> pt_q4e) in
      if build_profile \<noteq> ''canary'' \<and> build_profile \<noteq> ''full'' then Inl PlanError
      else
        let complete_model = (if build_profile = ''canary'' then False else complete_model0) in
        bindE (slice_to_plan_error (plan_experts scan m expert_alignment meth build_profile)) (\<lambda>(experts, lay).
        bindE (plan_ple scan m build_profile) (\<lambda>ple0.
        let ple = map_option (name_ple_codec meth) ple0 in
        bindE (plan_dense scan m features meth build_profile ple) (\<lambda>(dense, dense_bytes).
        bindE (plan_warnings m dense lay ple) (\<lambda>warnings.
        bindE (build_activation_budget scan (classify_all (sc_tensors scan) None) features None None) (\<lambda>activation.
        bindE (plan_totals scan features dense dense_bytes experts lay ple) (\<lambda>totals.
        Inr \<lparr>bp_manifest = plan_manifest scan m features source_revision meth build_profile complete_model
               dense lay ple totals activation,
             bp_dense = dense, bp_experts = experts, bp_ple = ple, bp_warnings = warnings\<rparr>)))))))"

section \<open>The PLE index\<close>

definition build_ple_index :: "ple_plan \<Rightarrow> int \<Rightarrow> int list \<Rightarrow> int list \<Rightarrow> int list \<Rightarrow> ple_index result" where
  "build_ple_index plan ngram_size head_offsets head_vocab_sizes layer_multipliers =
     (if length head_offsets \<noteq> length head_vocab_sizes then Inl PlanError
      else if int (length layer_multipliers) < ngram_size then Inl PlanError
      else
        let num_orders = ngram_size - 1 in
        if num_orders \<le> 0 \<or> int (length head_offsets) mod num_orders \<noteq> 0 then Inl PlanError
        else if head_offsets = [] then Inl IndexError
        else
          let addressable = last head_offsets + last head_vocab_sizes in
          if pp_logical_total_rows plan < addressable then Inl PlanError
          else Inr
            \<lparr>pi_ngram_size = ngram_size, pi_num_heads = int (length head_offsets),
             pi_heads_per_ngram = int (length head_offsets) div num_orders,
             pi_head_offsets = head_offsets, pi_head_vocab_sizes = head_vocab_sizes,
             pi_layer_multipliers = take (nat ngram_size) layer_multipliers,
             pi_total_rows = pp_logical_total_rows plan, pi_physical_rows = pp_total_rows plan,
             pi_shards = map (\<lambda>s. \<lparr>sm_shard_index = pw_shard_index s, sm_logical_first_row = pw_logical_first_row s,
               sm_physical_first_row = pw_first_row s, sm_num_rows = pw_num_rows s\<rparr>) (pp_shards plan),
             pi_row = pp_row plan, pi_source_layer = pp_source_layer plan\<rparr>)"

end
