(* ===== verification/Tiler.thy ===== *)
theory Tiler
  imports Quantize PyStr
begin

text \<open>
  The VRAM budget of \<open>config.py\<close>, the work-unit sizing of \<open>scheduler/budget.py\<close> and the row
  tiling of \<open>scheduler/tiler.py\<close>. Quantizing a matrix tile by tile is shown to give exactly the
  bytes of quantizing it whole, because every tile but the last is a multiple of 64 rows; the
  estimate of a tile is shown to stay within the budget whenever it is above the 64-row floor,
  and below the floor the budget is shown to be exceeded.
\<close>

section \<open>The memory budget\<close>

record memory_budget =
  mb_max_vram_mb :: pyfloat
  mb_runtime_reserve_mb :: pyfloat
  mb_safety_margin_mb :: pyfloat
  mb_max_source_cache_mb :: pyfloat
  mb_max_cpu_staging_mb :: pyfloat

definition default_budget :: memory_budget where
  "default_budget = \<lparr>mb_max_vram_mb = 3584, mb_runtime_reserve_mb = 512, mb_safety_margin_mb = 384,
     mb_max_source_cache_mb = 10240, mb_max_cpu_staging_mb = 2048\<rparr>"

definition usable_vram_mb :: "memory_budget \<Rightarrow> pyfloat" where
  "usable_vram_mb b =
     (if mb_max_vram_mb b \<le> 2048 then
        let reserve = min (mb_runtime_reserve_mb b) (fmul (mb_max_vram_mb b) (fl (15 / 100)));
            margin = min (mb_safety_margin_mb b) (fmul (mb_max_vram_mb b) (fl (10 / 100))) in
        max 256 (fsub (fsub (mb_max_vram_mb b) reserve) margin)
      else max 256 (fsub (fsub (mb_max_vram_mb b) (mb_runtime_reserve_mb b)) (mb_safety_margin_mb b)))"

section \<open>Estimates\<close>

definition group_padding_factor :: "int \<Rightarrow> int \<Rightarrow> pyfloat" where
  "group_padding_factor in_features group_size =
     (if group_size \<le> 0 \<or> in_features \<le> 0 then 1
      else let padded = \<lceil>fl (of_int in_features / of_int group_size)\<rceil> * group_size in
        fl (of_int padded / of_int in_features))"

definition source_dtype_bytes :: "string \<Rightarrow> int" where
  "source_dtype_bytes source_dtype =
     (let normalized = str_replace (str_upper source_dtype) ''TORCH.'' '''' in
      if str_startswith normalized ''F8'' \<or> str_startswith normalized ''FLOAT8'' \<or>
         normalized \<in> set [''I8'', ''U8'', ''INT8'', ''UINT8''] then 1
      else if str_contains normalized ''64'' then 8
      else if str_contains normalized ''32'' then 4
      else 2)"

definition estimate_tensor_vram_requirement ::
  "int list \<Rightarrow> string \<Rightarrow> int \<Rightarrow> pyfloat \<Rightarrow> int \<Rightarrow> pyfloat" where
  "estimate_tensor_vram_requirement shape source_dtype bits workspace_multiplier group_size =
     (if shape = [] then 0
      else
        let n = fold (\<lambda>s total. total * s) shape 1;
            dtype_bytes = source_dtype_bytes source_dtype;
            in_features = (if 1 < length shape then last shape else 1);
            pad_factor = group_padding_factor in_features group_size;
            source_bytes = n * dtype_bytes;
            working_bytes = fmul (fmul (fof source_bytes) pad_factor) workspace_multiplier;
            packed = fadd (fl (of_int (n * bits) / 8)) (fmul (fl (of_int n / 128)) 4);
            total_bytes = fadd (fadd (fof source_bytes) working_bytes) packed in
        fl (total_bytes / (1024 * 1024)))"

text \<open>\<open>round(x, 2)\<close>: the decimal rounding of the exact value, ties to even, as a float.\<close>

definition py_round2 :: "pyfloat \<Rightarrow> pyfloat" where
  "py_round2 x = fl (of_int (py_round (x * 100)) / 100)"

record work_bounds =
  wb_needs_tiling :: bool
  wb_tile_rows :: int
  wb_num_tiles :: int
  wb_estimated_vram_per_tile_mb :: pyfloat
  wb_total_matrix_vram_mb :: pyfloat

definition vram_per_row_mb :: "int \<Rightarrow> string \<Rightarrow> int \<Rightarrow> pyfloat \<Rightarrow> int \<Rightarrow> pyfloat" where
  "vram_per_row_mb in_features source_dtype bits workspace_multiplier group_size =
     (let dtype_bytes = source_dtype_bytes source_dtype;
          pad_factor = group_padding_factor in_features group_size;
          source_bytes_per_row = in_features * dtype_bytes;
          working_bytes_per_row = fmul (fmul (fof source_bytes_per_row) pad_factor) workspace_multiplier;
          packed_bytes_per_row = fadd (fl (of_int (in_features * bits) / 8)) (fmul (fl (of_int in_features / 128)) 4);
          total_bytes_per_row = fadd (fadd (fof source_bytes_per_row) working_bytes_per_row) packed_bytes_per_row in
      fl (total_bytes_per_row / (1024 * 1024)))"

definition raw_tile_rows :: "pyfloat \<Rightarrow> pyfloat \<Rightarrow> int" where
  "raw_tile_rows usable per_row =
     (let target = fmul usable (fl (8 / 10)) in
      max 32 (py_int (fl (target / max (fl (1 / 10 ^ 6)) per_row))))"

definition tile_rows_for :: "int \<Rightarrow> pyfloat \<Rightarrow> pyfloat \<Rightarrow> int" where
  "tile_rows_for out_features usable per_row =
     min out_features (max 64 ((raw_tile_rows usable per_row div 64) * 64))"

definition compute_work_unit_bounds ::
  "int list \<Rightarrow> memory_budget \<Rightarrow> int \<Rightarrow> int \<Rightarrow> string \<Rightarrow> pyfloat \<Rightarrow> work_bounds result" where
  "compute_work_unit_bounds matrix_shape budget bits group_size source_dtype workspace_multiplier =
     (let full = estimate_tensor_vram_requirement matrix_shape source_dtype bits workspace_multiplier group_size;
          usable = usable_vram_mb budget in
      if length matrix_shape \<noteq> 2 then
        Inr \<lparr>wb_needs_tiling = False, wb_tile_rows = (if matrix_shape = [] then 0 else hd matrix_shape),
             wb_num_tiles = 1, wb_estimated_vram_per_tile_mb = py_round2 full,
             wb_total_matrix_vram_mb = py_round2 full\<rparr>
      else
        let out_features = matrix_shape ! 0; in_features = matrix_shape ! 1 in
        if full \<le> usable then
          Inr \<lparr>wb_needs_tiling = False, wb_tile_rows = out_features, wb_num_tiles = 1,
               wb_estimated_vram_per_tile_mb = py_round2 full, wb_total_matrix_vram_mb = py_round2 full\<rparr>
        else
          let per_row = vram_per_row_mb in_features source_dtype bits workspace_multiplier group_size;
              tile_rows = tile_rows_for out_features usable per_row in
          bindE (py_truediv out_features tile_rows) (\<lambda>q.
          Inr \<lparr>wb_needs_tiling = True, wb_tile_rows = tile_rows, wb_num_tiles = \<lceil>q\<rceil>,
               wb_estimated_vram_per_tile_mb = py_round2 (fmul (fof tile_rows) per_row),
               wb_total_matrix_vram_mb = py_round2 full\<rparr>))"

section \<open>Tiled quantization\<close>

text \<open>\<open>weight[r_start:r_end, :]\<close> of a row-major weight, for bounds in order inside the matrix; a
  reversed range has no rows.\<close>

definition row_tile :: "int list \<Rightarrow> rat list \<Rightarrow> int \<Rightarrow> int \<Rightarrow> int list \<times> rat list" where
  "row_tile shape weights r_start r_end =
     (let per_row = prod_list (tl shape) in
      (max 0 (r_end - r_start) # tl shape,
       take (nat ((r_end - r_start) * per_row)) (drop (nat (r_start * per_row)) weights)))"

definition quantize_tiles :: "torch_quant \<Rightarrow> int \<Rightarrow> int \<Rightarrow> bool \<Rightarrow> int list \<Rightarrow> rat list \<Rightarrow> int \<Rightarrow> nat \<Rightarrow>
    quantized list result" where
  "quantize_tiles t bits group_size symmetric shape weights tile_rows num_tiles =
     mapE (\<lambda>i. case row_tile shape weights (int i * tile_rows) (min (hd shape) ((int i + 1) * tile_rows)) of
       (tile_shape, tile) \<Rightarrow> quantize t bits group_size symmetric tile_shape tile) [0 ..< num_tiles]"

text \<open>\<open>torch.cat\<close> over the tiles; a tile without zeros is not appended.\<close>

definition combine_tiles :: "quantized list \<Rightarrow> int \<Rightarrow> int \<Rightarrow> int list \<Rightarrow> quantized" where
  "combine_tiles tiles bits group_size shape =
     (let zero_tiles = List.map_filter qz_zeros tiles in
      \<lparr>qz_packed = concat (map qz_packed tiles), qz_scales = concat (map qz_scales tiles),
       qz_zeros = (if zero_tiles = [] then None else Some (concat zero_tiles)),
       qz_bits = bits, qz_group_size = group_size, qz_shape = shape\<rparr>)"

definition quantize_matrix :: "torch_quant \<Rightarrow> memory_budget \<Rightarrow> pyfloat \<Rightarrow> string \<Rightarrow> int \<Rightarrow> int \<Rightarrow> bool \<Rightarrow>
    int list \<Rightarrow> rat list \<Rightarrow> quantized result" where
  "quantize_matrix t budget workspace_multiplier source_dtype bits group_size symmetric shape weights =
     (if shape = [] then Inl IndexError
      else
        let in_features = (if 1 < length shape then shape ! 1 else 1) in
        bindE (compute_work_unit_bounds [hd shape, in_features] budget bits group_size source_dtype
                 workspace_multiplier) (\<lambda>bounds.
        if \<not> wb_needs_tiling bounds \<or> wb_num_tiles bounds \<le> 1
        then quantize t bits group_size symmetric shape weights
        else if length shape = 1 then Inl IndexError
        else bindE (quantize_tiles t bits group_size symmetric shape weights (wb_tile_rows bounds)
                     (nat (wb_num_tiles bounds))) (\<lambda>tiles.
             Inr (combine_tiles tiles bits group_size shape))))"

section \<open>Tiling is transparent\<close>

lemma chunks_split_append:
  assumes "0 < n" "n dvd length xs"
  shows "chunks n (xs @ ys) = chunks n xs @ chunks n ys"
proof -
  obtain k where "length xs = k * n" using assms(2) by (metis dvd_def mult.commute)
  then show ?thesis
  proof (induction k arbitrary: xs)
    case (Suc k)
    have ne: "xs \<noteq> []" using Suc.prems assms(1) by auto
    have "chunks n (xs @ ys) = take n (xs @ ys) # chunks n (drop n (xs @ ys))"
      using ne assms(1) by (subst chunks.simps) simp
    also have "\<dots> = take n xs # chunks n (drop n xs @ ys)" using Suc.prems by simp
    also have "\<dots> = take n xs # chunks n (drop n xs) @ chunks n ys" using Suc.IH [of "drop n xs"] Suc.prems by simp
    also have "\<dots> = chunks n xs @ chunks n ys" using ne assms(1) by (subst (3) chunks.simps) simp
    finally show ?case .
  qed simp
qed

lemma length_chunks: "0 < n \<Longrightarrow> length (chunks n xs) = (length xs + n - 1) div n"
proof (induction n xs rule: chunks.induct)
  case (1 n xs)
  show ?case
  proof (cases "xs = []")
    case False
    then have "length (chunks n xs) = Suc ((length (drop n xs) + n - 1) div n)"
      using 1 by (subst chunks.simps) simp
    moreover have "length xs + n - 1 = (length xs - 1) + n" using False by (cases xs) simp_all
    moreover have "((length xs - 1) + n) div n = Suc ((length xs - 1) div n)" by (subst div_add_self2) (use "1.prems" in simp_all)
    moreover have "(length (drop n xs) + n - 1) div n = (length xs - 1) div n"
    proof (cases "n \<le> length xs")
      case True
      then have "length (drop n xs) + n - 1 = length xs - 1" by simp
      then show ?thesis by (simp only:)
    next
      case short: False
      then have "length (drop n xs) + n - 1 = n - 1" "(n - 1) div n = 0" "(length xs - 1) div n = 0"
        using "1.prems" by simp_all
      then show ?thesis by (simp only:)
    qed
    ultimately show ?thesis by (simp only:)
  qed (use "1.prems" in simp)
qed

lemma chunks_nth:
  "0 < n \<Longrightarrow> i < length (chunks n xs) \<Longrightarrow> chunks n xs ! i = take n (drop (i * n) xs)"
proof (induction n xs arbitrary: i rule: chunks.induct)
  case (1 n xs)
  have ne: "xs \<noteq> []" using "1.prems" by auto
  have c: "chunks n xs = take n xs # chunks n (drop n xs)" using ne "1.prems"(1) by (subst chunks.simps) simp
  show ?case
  proof (cases i)
    case (Suc j)
    have "chunks n (drop n xs) ! j = take n (drop (j * n) (drop n xs))"
      using "1.IH" [of j] "1.prems" ne c Suc by simp
    then show ?thesis by (simp add: c Suc add.commute)
  qed (simp add: c)
qed

text \<open>The groups of a weight whose rows have \<open>n\<close> elements, quantized.\<close>

definition group_results :: "torch_quant \<Rightarrow> int \<Rightarrow> int \<Rightarrow> bool \<Rightarrow> int \<Rightarrow> rat list \<Rightarrow> (byte list \<times> rat \<times> rat) list" where
  "group_results t bits group_size0 symmetric n ws =
     (let group_size = (if 0 < group_size0 then group_size0 else n) in
      map (quantize_group t bits symmetric) (concat (map (chunks (nat group_size))
        (map (\<lambda>row. row @ replicate (nat (pad_k n group_size)) 0) (chunks (nat n) ws)))))"

definition packed_of :: "byte list \<Rightarrow> int \<Rightarrow> bytes" where
  "packed_of codes bits = map (packed_byte codes bits)
     [0 ..< (length codes + nat (8 div bits) - 1) div nat (8 div bits)]"

definition quantized_of :: "torch_quant \<Rightarrow> int \<Rightarrow> int \<Rightarrow> bool \<Rightarrow> int list \<Rightarrow> rat list \<Rightarrow> quantized" where
  "quantized_of t bits g symm shape ws =
     (let qs = group_results t bits g symm (last shape) ws in
      \<lparr>qz_packed = packed_of (concat (map fst qs)) bits, qz_scales = map (\<lambda>r. to_half t (fst (snd r))) qs,
       qz_zeros = (if symm then None else Some (map (\<lambda>r. to_half t (snd (snd r))) qs)),
       qz_bits = bits, qz_group_size = g, qz_shape = shape\<rparr>)"

lemma quantize_total:
  assumes "1 \<le> bits" "bits \<le> 8" "shape \<noteq> []" "0 < last shape" "last shape dvd int (length ws)"
  shows "quantize t bits g symm shape ws = Inr (quantized_of t bits g symm shape ws)"
  using assms
  by (simp add: quantize_def quantized_of_def group_results_def Let_def pack_tensor_eq packed_of_def)

lemma group_results_append:
  assumes "0 < n" "n dvd int (length xs)"
  shows "group_results t bits g symm n (xs @ ys) = group_results t bits g symm n xs @ group_results t bits g symm n ys"
proof -
  have "nat n dvd length xs" using assms by (simp add: nat_dvd_iff)
  then show ?thesis using chunks_split_append [of "nat n" xs ys] assms(1) by (simp add: group_results_def Let_def)
qed

lemma length_quantize_group: "length (fst (quantize_group t bits symm ws)) = length ws"
  by (simp add: quantize_group_def Let_def)

lemma group_results_codes:
  assumes "0 < n" "length ws = k * nat n"
  shows "length (concat (map fst (group_results t bits g symm n ws))) =
    k * (nat n + nat (pad_k n (if 0 < g then g else n)))"
proof -
  define gs where "gs = (if 0 < g then g else n)"
  have gs: "0 < nat gs" using assms(1) by (simp add: gs_def)
  define rows where "rows = map (\<lambda>row. row @ replicate (nat (pad_k n gs)) (0::rat)) (chunks (nat n) ws)"
  have len: "\<forall>r \<in> set rows. length r = nat n + nat (pad_k n gs)" "length rows = k"
    using chunks_split [of "nat n" ws k] assms by (auto simp: rows_def)
  have c: "length (concat (chunks (nat gs) r)) = length r" for r :: "rat list"
    using gs by (induction "nat gs" r rule: chunks.induct) (subst chunks.simps, auto)
  have "length (concat (map (\<lambda>x. fst (quantize_group t bits symm x)) xs)) = length (concat xs)" for xs
    by (induction xs) (simp_all add: length_quantize_group)
  then have "length (concat (map fst (group_results t bits g symm n ws))) =
      length (concat (concat (map (chunks (nat gs)) rows)))"
    by (simp add: group_results_def Let_def rows_def gs_def comp_def)
  also have "\<dots> = length (concat rows)" by (induction rows) (simp_all add: c)
  also have "\<dots> = k * (nat n + nat (pad_k n gs))" using length_concat_const [OF len(1)] len(2) by simp
  finally show ?thesis by (simp add: gs_def)
qed

lemma values_per_byte_dvd_64: "1 \<le> bits \<Longrightarrow> bits \<le> 8 \<Longrightarrow> nat (8 div bits) dvd 64"
proof -
  assume b: "1 \<le> bits" "bits \<le> 8"
  show ?thesis using int_1_to_8 [OF b] by (elim insertE emptyE) (simp_all add: nat_dvd_iff)
qed

text \<open>The tiles of a weight, each of a multiple of 64 rows but the last, pack to the bytes of the
  whole.\<close>

lemma tiles_concat:
  assumes b: "1 \<le> bits" "bits \<le> 8" and n: "0 < n" and s: "0 < s" "64 * nat n dvd s" and w: "n dvd int (length ws)"
  shows "concat (map (\<lambda>w. packed_of (concat (map fst (group_results t bits g symm n w))) bits) (chunks s ws)) =
      packed_of (concat (map fst (group_results t bits g symm n ws))) bits \<and>
    concat (map (group_results t bits g symm n) (chunks s ws)) = group_results t bits g symm n ws"
  using w
proof (induction "length ws" arbitrary: ws rule: less_induct)
  case less
  let ?R = "group_results t bits g symm n" and ?P = "\<lambda>w. packed_of (concat (map fst (group_results t bits g symm n w))) bits"
  show ?case
  proof (cases "length ws \<le> s")
    case True
    then have "chunks s ws = (if ws = [] then [] else [ws])" using s(1) by (subst chunks.simps) simp
    moreover have "?R [] = []" "?P [] = []" using n per_byte(1) [OF b] by (simp_all add: group_results_def packed_of_def Let_def)
    ultimately show ?thesis by simp
  next
    case False
    define xs ys where "xs = take s ws" and "ys = drop s ws"
    have ws: "ws = xs @ ys" "length xs = s" using False by (simp_all add: xs_def ys_def)
    obtain k where k: "s = k * nat n" "64 dvd k"
      using s(2) by (metis dvd_def mult.commute mult.left_commute dvd_triv_left)
    have nx: "n dvd int (length xs)" using k n ws(2) by simp
    then have ny: "n dvd int (length ys)" using less.prems by (simp add: ws(1) dvd_add_right_iff)
    have IH: "concat (map ?P (chunks s ys)) = ?P ys \<and> concat (map ?R (chunks s ys)) = ?R ys"
      by (rule less.hyps) (use ny s(1) False in \<open>simp_all add: ys_def\<close>)
    have "length (concat (map fst (?R xs))) = k * (nat n + nat (pad_k n (if 0 < g then g else n)))"
      by (rule group_results_codes [OF n]) (simp add: ws(2) k(1))
    then have d: "nat (8 div bits) dvd length (concat (map fst (?R xs)))"
      using values_per_byte_dvd_64 [OF b] k(2) by (metis dvd_mult2 dvd_trans)
    have p: "?P (xs @ ys) = ?P xs @ ?P ys"
      using pack_tensor_append [OF b d, of "concat (map fst (?R ys))"] group_results_append [OF n nx]
      by (simp add: pack_tensor_eq [OF b] packed_of_def)
    have c: "chunks s ws = xs # chunks s ys"
      using s(1) False by (subst chunks.simps) (auto simp: xs_def ys_def)
    show ?thesis unfolding c using IH p group_results_append [OF n nx] by (simp add: ws(1))
  qed
qed

lemma ceil_div_nat: "0 < d \<Longrightarrow> 0 \<le> n \<Longrightarrow> nat (ceil_div n d) = (nat n + nat d - 1) div nat d"
proof -
  assume a: "0 < d" "0 \<le> n"
  have "int ((nat n + nat d - 1) div nat d) = (n + d - 1) div d" using a by (simp add: zdiv_int of_nat_diff)
  then show ?thesis using ceil_div_alt [OF a(1), of n] by (metis nat_int)
qed

lemma length_chunks_ceil:
  assumes "0 < d" "int (length ws) = n"
  shows "length (chunks (nat d) ws) = nat (ceil_div n d)"
proof -
  have "length (chunks (nat d) ws) = (length ws + nat d - 1) div nat d" using assms(1) by (intro length_chunks) simp
  also have "length ws = nat n" using assms(2) by linarith
  also have "(nat n + nat d - 1) div nat d = nat (ceil_div n d)"
    using assms by (intro ceil_div_nat [symmetric]) linarith+
  finally show ?thesis .
qed

lemma row_tile_chunk:
  assumes m: "0 < m" "0 < per" "int (length ws) = m * per" "0 < tr" and i: "int i < ceil_div m tr" and sh: "prod_list sh = per"
  shows "row_tile (m # sh) ws (int i * tr) (min m ((int i + 1) * tr)) =
    ((min m ((int i + 1) * tr) - int i * tr) # sh, chunks (nat (tr * per)) ws ! i)"
    and "int (length (chunks (nat (tr * per)) ws ! i)) = (min m ((int i + 1) * tr) - int i * tr) * per"
    and "i < length (chunks (nat (tr * per)) ws)"
proof -
  have lt: "int i * tr < m"
  proof -
    have "ceil_div m tr * tr < m + tr" by (rule ceil_div_less [OF m(4)])
    moreover have "(int i + 1) * tr \<le> ceil_div m tr * tr" using i m(4) by (intro mult_right_mono) simp_all
    ultimately show ?thesis by (simp add: distrib_right)
  qed
  define r where "r = min m ((int i + 1) * tr) - int i * tr"
  have r: "0 < r" "int i * tr + r \<le> m" "r = tr \<or> int i * tr + r = m" "r \<le> tr"
    using lt m(4) by (auto simp: r_def distrib_right min_def)
  have s: "0 < nat (tr * per)" using m by simp
  have cd: "ceil_div (m * per) (tr * per) = ceil_div m tr" by (rule ceil_div_scale [OF m(4,2)])
  have "length (chunks (nat (tr * per)) ws) = nat (ceil_div (m * per) (tr * per))"
    using m by (intro length_chunks_ceil) simp_all
  then show il: "i < length (chunks (nat (tr * per)) ws)" using i by (simp add: cd)
  have c: "chunks (nat (tr * per)) ws ! i = take (nat (tr * per)) (drop (i * nat (tr * per)) ws)"
    by (rule chunks_nth [OF s il])
  have off: "i * nat (tr * per) = nat (int i * tr * per)" using m by (simp add: nat_mult_distrib mult.assoc)
  have rp: "r * per \<le> tr * per" "(int i * tr + r) * per \<le> m * per" "0 \<le> int i * tr * per"
    using r(2,4) m by (auto intro!: mult_right_mono)
  have len: "length (drop (nat (int i * tr * per)) ws) = nat ((m - int i * tr) * per)"
  proof -
    have e: "(m - int i * tr) * per = m * per - int i * tr * per" by (rule left_diff_distrib)
    show ?thesis using m(3) rp(3) unfolding e length_drop by linarith
  qed
  have tk: "take (nat (tr * per)) (drop (nat (int i * tr * per)) ws) = take (nat (r * per)) (drop (nat (int i * tr * per)) ws)"
  proof (cases "r = tr")
    case False
    then have "m - int i * tr = r" using r(3) by simp
    then show ?thesis using len rp(1) by simp
  qed simp
  show "row_tile (m # sh) ws (int i * tr) (min m ((int i + 1) * tr)) =
    ((min m ((int i + 1) * tr) - int i * tr) # sh, chunks (nat (tr * per)) ws ! i)"
    unfolding r_def [symmetric] c off tk using r(1) by (simp add: row_tile_def Let_def sh flip: r_def)
  have "nat (r * per) \<le> nat ((m - int i * tr) * per)"
    using rp(2) by (simp add: left_diff_distrib distrib_right)
  then have "length (take (nat (r * per)) (drop (nat (int i * tr * per)) ws)) = nat (r * per)"
    using len by (simp only: length_take min_absorb2)
  then show "int (length (chunks (nat (tr * per)) ws ! i)) = (min m ((int i + 1) * tr) - int i * tr) * per"
    unfolding r_def [symmetric] c off tk using r(1) m(2) by simp
qed

lemma quantize_tiles_whole:
  assumes b: "1 \<le> bits" "bits \<le> 8" and sh: "sh \<noteq> []" "0 < last sh" "prod_list sh = per" "0 < per" "last sh dvd per"
    and m: "0 < m" "int (length ws) = m * per" and tr: "0 < tr" "64 dvd tr"
  shows "\<exists>tiles. quantize_tiles t bits g symm (m # sh) ws tr (nat (ceil_div m tr)) = Inr tiles \<and>
    combine_tiles tiles bits g (m # sh) = quantized_of t bits g symm (m # sh) ws"
proof -
  let ?n = "last sh"
  define cs where "cs = chunks (nat (tr * per)) ws"
  define tsh where "tsh i = (min m ((int i + 1) * tr) - int i * tr) # sh" for i
  define tiles where "tiles = map (\<lambda>i. quantized_of t bits g symm (tsh i) (cs ! i)) [0 ..< nat (ceil_div m tr)]"
  have s: "0 < nat (tr * per)" using tr sh by simp
  have lc: "length cs = nat (ceil_div m tr)"
    using length_chunks_ceil [of "tr * per" ws "m * per"] ceil_div_scale [OF tr(1) sh(4), of m] m(2) sh(4) tr(1)
    by (simp add: cs_def)
  have q: "quantize_tiles t bits g symm (m # sh) ws tr (nat (ceil_div m tr)) = Inr tiles"
    unfolding quantize_tiles_def tiles_def
  proof (rule mapE_total)
    fix i assume "i \<in> set [0 ..< nat (ceil_div m tr)]"
    then have i: "int i < ceil_div m tr" by simp
    note rt = row_tile_chunk [OF m(1) sh(4) m(2) tr(1) i sh(3)]
    have "?n dvd int (length (cs ! i))" unfolding cs_def rt(2) using sh(5) by simp
    then have "quantize t bits g symm (tsh i) (cs ! i) = Inr (quantized_of t bits g symm (tsh i) (cs ! i))"
      using sh by (intro quantize_total [OF b]) (simp_all add: tsh_def)
    then show "(case row_tile (m # sh) ws (int i * tr) (min (hd (m # sh)) ((int i + 1) * tr)) of
       (tile_shape, tile) \<Rightarrow> quantize t bits g symm tile_shape tile) = Inr (quantized_of t bits g symm (tsh i) (cs ! i))"
      by (simp add: rt(1) [unfolded cs_def [symmetric]] tsh_def)
  qed
  have tile_map: "map f tiles = map (\<lambda>w. f' w) cs" if "\<And>i. f (quantized_of t bits g symm (tsh i) (cs ! i)) = f' (cs ! i)" for f :: "quantized \<Rightarrow> 'z" and f'
    using lc that by (intro nth_equalityI) (simp_all add: tiles_def)
  have ls: "last (tsh i) = ?n" for i using sh(1) by (simp add: tsh_def)
  have d: "64 * nat ?n dvd nat (tr * per)"
  proof -
    have "64 * ?n dvd tr * per" using tr(2) sh(5) by (rule mult_dvd_mono)
    then have "nat (64 * ?n) dvd nat (tr * per)" using tr sh by (simp add: nat_dvd_iff)
    then show ?thesis using sh(2) by (simp add: nat_mult_distrib)
  qed
  have nw: "?n dvd int (length ws)" using m(2) sh(5) by simp
  note tc = tiles_concat [OF b sh(2) s d nw, of t g symm, folded cs_def]
  let ?R = "group_results t bits g symm ?n"
  have P: "concat (map qz_packed tiles) = packed_of (concat (map fst (?R ws))) bits"
    using tile_map [of qz_packed "\<lambda>w. packed_of (concat (map fst (?R w))) bits"] tc
    by (simp add: quantized_of_def Let_def ls)
  have S: "concat (map qz_scales tiles) = map (\<lambda>r. to_half t (fst (snd r))) (?R ws)"
  proof -
    have "map qz_scales tiles = map (\<lambda>w. map (\<lambda>r. to_half t (fst (snd r))) (?R w)) cs"
      by (rule tile_map) (simp add: quantized_of_def Let_def ls)
    also have "concat \<dots> = map (\<lambda>r. to_half t (fst (snd r))) (concat (map ?R cs))"
      by (simp add: map_concat comp_def)
    finally show ?thesis using tc by simp
  qed
  have "0 < ceil_div m tr * tr" using m(1) ceil_div_ge [OF tr(1), of m] by linarith
  then have "0 < ceil_div m tr" using tr(1) by (simp add: zero_less_mult_iff)
  then have ne: "cs \<noteq> []" using lc by auto
  have mf: "List.map_filter qz_zeros tiles = List.map_filter id (map qz_zeros tiles)"
    by (simp add: List.map_filter_def filter_map comp_def)
  have Z: "(let z = List.map_filter qz_zeros tiles in if z = [] then None else Some (concat z)) =
    (if symm then None else Some (map (\<lambda>r. to_half t (snd (snd r))) (?R ws)))"
  proof (cases symm)
    case True
    have "map qz_zeros tiles = map (\<lambda>w. None) cs" by (rule tile_map) (simp add: quantized_of_def Let_def True)
    then have "List.map_filter qz_zeros tiles = []"
      unfolding mf by (simp add: List.map_filter_def filter_map comp_def)
    then show ?thesis by (simp add: True)
  next
    case False
    define zf where "zf w = map (\<lambda>r. to_half t (snd (snd r))) (?R w)" for w
    have z: "map qz_zeros tiles = map (\<lambda>w. Some (zf w)) cs"
      by (rule tile_map) (simp add: quantized_of_def Let_def ls False zf_def)
    have "List.map_filter qz_zeros tiles = map zf cs"
      unfolding mf z by (simp add: List.map_filter_def filter_map comp_def)
    moreover have "concat (map zf cs) = map (\<lambda>r. to_half t (snd (snd r))) (concat (map ?R cs))"
      unfolding zf_def by (simp add: map_concat comp_def)
    ultimately show ?thesis using ne tc False by simp
  qed
  have "last (m # sh) = ?n" using sh(1) by simp
  then have "combine_tiles tiles bits g (m # sh) = quantized_of t bits g symm (m # sh) ws"
    using P S Z by (simp add: combine_tiles_def quantized_of_def Let_def)
  then show ?thesis using q by blast
qed

section \<open>Properties\<close>

text \<open>C33: Tiling is invisible: whatever the VRAM budget, workspace factor and source dtype, quantizing a
  matrix through the tiler gives exactly the packed bytes, scales and zero points of quantizing
  it whole. Tiles are cut at multiples of 64 rows, so no tile but the last ends inside a byte.\<close>

theorem tiling_transparent:
  assumes "2 \<le> length shape" "\<forall>d \<in> set shape. 0 < d" "int (length ws) = prod_list shape" "hd shape \<le> 2 ^ 52"
    and "1 \<le> bits" "bits \<le> 8"
  shows "quantize_matrix t budget factor dtype bits g symm shape ws = quantize t bits g symm shape ws"
proof -
  obtain m sh where shape: "shape = m # sh" "sh \<noteq> []" using assms(1) by (cases shape) fastforce+
  have prod_pos: "0 < prod_list xs" if "\<forall>d \<in> set xs. 0 < (d :: int)" for xs using that by (induction xs) simp_all
  have dvd_prod: "x dvd prod_list xs" if "x \<in> set xs" for x :: int and xs using that by (induction xs) auto
  have per: "0 < prod_list sh" "last sh dvd prod_list sh" "0 < last sh" "0 < m" "int (length ws) = m * prod_list sh"
    using assms(2,3) shape by (auto intro: prod_pos dvd_prod)
  have ne: "shape \<noteq> []" using shape by simp
  define bounds where "bounds = compute_work_unit_bounds [hd shape, if 1 < length shape then shape ! 1 else 1] budget bits g dtype factor"
  define usable where "usable = usable_vram_mb budget"
  define pr where "pr = vram_per_row_mb (shape ! 1) dtype bits factor g"
  have len: "1 < length shape" using assms(1) by simp
  have q: "quantize t bits g symm shape ws = Inr (quantized_of t bits g symm shape ws)"
    using per shape by (intro quantize_total [OF assms(5,6)]) auto
  show ?thesis
  proof (cases "\<exists>wb. bounds = Inr wb \<and> wb_needs_tiling wb \<and> 1 < wb_num_tiles wb")
    case True
    then obtain wb where wb: "bounds = Inr wb" "wb_needs_tiling wb" "1 < wb_num_tiles wb" by blast
    define tr where "tr = tile_rows_for m usable pr"
    have trp: "0 < tr" using per(4) by (simp add: tr_def tile_rows_for_def)
    have wbv: "wb_tile_rows wb = tr" "wb_num_tiles wb = \<lceil>fl (of_int m / of_int tr)\<rceil>"
      using wb(1,2) len trp shape(1)
      by (auto simp: bounds_def compute_work_unit_bounds_def Let_def py_truediv_def tr_def usable_def pr_def split: if_splits)
    have nt: "wb_num_tiles wb = ceil_div m tr"
      using wbv(2) ceil_fl_div [of m tr] per(4) trp assms(4) shape(1) by simp
    have "tr \<noteq> m" using wb(3) nt trp by (auto simp: ceil_div_exact)
    then have d64: "64 dvd tr"
      by (auto simp: tr_def tile_rows_for_def min_def max_def split: if_splits)
    obtain tiles where tiles: "quantize_tiles t bits g symm (m # sh) ws tr (nat (ceil_div m tr)) = Inr tiles"
      "combine_tiles tiles bits g (m # sh) = quantized_of t bits g symm (m # sh) ws"
      using quantize_tiles_whole [OF assms(5,6) shape(2) per(3) refl per(1,2) per(4,5) trp d64, of t g symm] by blast
    show ?thesis
      using wb(1,2,3) tiles q len unfolding bounds_def
      by (simp add: quantize_matrix_def ne Let_def wbv(1) nt shape(1))
  next
    case False
    have "\<exists>wb. bounds = Inr wb"
    proof -
      have "tile_rows_for (hd shape) usable pr \<noteq> 0" using per(4) shape(1) by (auto simp: tile_rows_for_def min_def)
      then show ?thesis using len
        by (auto simp: bounds_def compute_work_unit_bounds_def Let_def py_truediv_def usable_def pr_def)
    qed
    then show ?thesis using False ne unfolding bounds_def by (auto simp: quantize_matrix_def Let_def)
  qed
qed

theorem tiling_transparent_witness:
  "quantize_matrix demo_torch default_budget (65 / 10) ''float16'' 3 2 False [2, 2] [1, -1, 1/2, 3] =
   quantize demo_torch 3 2 False [2, 2] [1, -1, 1/2, 3]"
  by (rule tiling_transparent) simp_all

lemma fl_le_factor: "0 \<le> x \<Longrightarrow> fl x \<le> x * (101 / 100)"
proof -
  assume x: "0 \<le> x"
  have "fl x - x \<le> \<bar>x\<bar> * 2 powi (- 53)" by (rule order_trans [OF abs_ge_self fl_error])
  also have "\<dots> = x * 2 powi (- 53)" using x by simp
  also have "\<dots> \<le> x * (1 / 100)" using x by (intro mult_left_mono) (simp_all add: power_int_minus field_simps)
  finally show ?thesis by (simp add: algebra_simps)
qed

lemma fl_ge_factor: "0 \<le> x \<Longrightarrow> x * (99 / 100) \<le> fl x"
proof -
  assume x: "0 \<le> x"
  have "- (fl x - x) \<le> \<bar>x\<bar> * 2 powi (- 53)" by (rule order_trans [OF abs_ge_minus_self fl_error])
  also have "\<dots> = x * 2 powi (- 53)" using x by simp
  also have "\<dots> \<le> x * (1 / 100)" using x by (intro mult_left_mono) (simp_all add: power_int_minus field_simps)
  finally show ?thesis by (simp add: algebra_simps)
qed

lemma raw_quotient:
  assumes "0 \<le> u" "0 < r"
  shows "0 \<le> fl (fmul u (fl (8 / 10)) / max (fl (1 / 10 ^ 6)) r)"
    and "fl (fmul u (fl (8 / 10)) / max (fl (1 / 10 ^ 6)) r) * r \<le> u * (825 / 1000)"
proof -
  have e: "fl (8 / 10) \<le> 8 / 10 * (101 / 100)" "0 < fl (8 / 10)"
    by (intro fl_le_factor fl_gt_0; simp)+
  have "u * fl (8 / 10) \<le> u * (8 / 10 * (101 / 100))" using assms(1) e(1) by (rule mult_left_mono [rotated])
  moreover have "0 \<le> u * fl (8 / 10)" using assms(1) e(2) by simp
  ultimately have t: "0 \<le> fmul u (fl (8 / 10))" "fmul u (fl (8 / 10)) \<le> u * (8 / 10 * (101 / 100)) * (101 / 100)"
    using fl_le_factor [of "u * fl (8 / 10)"] fl_nonneg [of "u * fl (8 / 10)"] by (simp_all add: fmul_def)
  let ?q = "fmul u (fl (8 / 10)) / max (fl (1 / 10 ^ 6)) r"
  have m: "0 < max (fl (1 / 10 ^ 6)) r" using assms(2) by (simp add: max_def)
  have q0: "0 \<le> ?q" using t(1) m by simp
  then show "0 \<le> fl ?q" by (rule fl_nonneg)
  have "?q * r \<le> ?q * max (fl (1 / 10 ^ 6)) r" using q0 by (intro mult_left_mono) simp_all
  then have qr: "?q * r \<le> fmul u (fl (8 / 10))" using m by simp
  have "fl ?q * r \<le> ?q * (101 / 100) * r"
    using fl_le_factor [OF q0] assms(2) by (intro mult_right_mono) simp_all
  also have "\<dots> = (?q * r) * (101 / 100)" by (simp only: ac_simps)
  also have "\<dots> \<le> fmul u (fl (8 / 10)) * (101 / 100)" using qr by (rule mult_right_mono) simp
  also have "\<dots> \<le> (u * (8 / 10 * (101 / 100)) * (101 / 100)) * (101 / 100)" using t(2) by (rule mult_right_mono) simp
  also have "\<dots> \<le> u * (825 / 1000)" using assms(1) by simp
  finally show "fl ?q * r \<le> u * (825 / 1000)" .
qed

text \<open>Above the floor of 64 rows the estimate of a tile never exceeds the usable VRAM, with every
  rounding of the float computation accounted for.\<close>

theorem tile_within_budget:
  assumes "0 \<le> usable" "0 < per_row" "64 < tile_rows_for out_features usable per_row"
  shows "fmul (fof (tile_rows_for out_features usable per_row)) per_row \<le> usable"
proof -
  define T where "T = tile_rows_for out_features usable per_row"
  define q where "q = fl (fmul usable (fl (8 / 10)) / max (fl (1 / 10 ^ 6)) per_row)"
  note rq = raw_quotient [OF assms(1,2), folded q_def]
  have raw: "raw_tile_rows usable per_row = max 32 (py_int q)" unfolding raw_tile_rows_def Let_def q_def ..
  have "T \<le> raw_tile_rows usable per_row div 64 * 64" using assms(3) by (auto simp: T_def tile_rows_for_def min_def max_def split: if_splits)
  also have "\<dots> \<le> raw_tile_rows usable per_row" by (metis div_mult_mod_eq le_add_same_cancel1 pos_mod_sign zero_less_numeral)
  finally have "T \<le> raw_tile_rows usable per_row" .
  then have "T \<le> py_int q" using assms(3) by (auto simp: raw T_def max_def split: if_splits)
  then have "of_int T \<le> q" using rq(1) by (auto simp: py_int_def le_floor_iff)
  then have "of_int T * per_row \<le> q * per_row" using assms(2) by (intro mult_right_mono) simp_all
  then have Tr: "of_int T * per_row \<le> usable * (825 / 1000)" using rq(2) by linarith
  have T0: "0 \<le> (of_int T :: rat)" using assms(3) by (simp add: T_def)
  have "fof T * per_row \<le> of_int T * (101 / 100) * per_row"
    unfolding fof_def using fl_le_factor [OF T0] assms(2) by (intro mult_right_mono) simp_all
  moreover have "0 \<le> fof T * per_row" using T0 assms(2) by (simp add: fof_def fl_nonneg)
  ultimately have "fmul (fof T) per_row \<le> of_int T * (101 / 100) * per_row * (101 / 100)"
    unfolding fmul_def using fl_le_factor [of "fof T * per_row"] by linarith
  also have "\<dots> = of_int T * per_row * (10201 / 10000)" by simp
  also have "\<dots> \<le> usable" using Tr assms(1) by simp
  finally show ?thesis by (simp add: T_def)
qed

theorem tile_within_budget_witness:
  "fmul (fof (tile_rows_for 4096 1024 1)) 1 \<le> 1024"
proof (rule tile_within_budget)
  show "64 < tile_rows_for 4096 1024 1" by code_simp
qed simp_all

text \<open>Below the floor the budget is not kept: a row whose cost is above one 63rd of the usable VRAM is
  still tiled 64 rows at a time, and the estimate of that tile exceeds the usable VRAM; no
  error is raised.\<close>

theorem tile_floor_exceeds_budget:
  assumes "0 \<le> usable" "usable \<le> 63 * per_row" "0 < per_row" "64 \<le> out_features"
  shows "tile_rows_for out_features usable per_row = 64 \<and> usable < fmul (fof 64) per_row"
proof -
  define q where "q = fl (fmul usable (fl (8 / 10)) / max (fl (1 / 10 ^ 6)) per_row)"
  note rq = raw_quotient [OF assms(1,3), folded q_def]
  have raw: "raw_tile_rows usable per_row = max 32 (py_int q)" unfolding raw_tile_rows_def Let_def q_def ..
  have "q * per_row \<le> 63 * per_row * (825 / 1000)" using rq(2) assms(2) by linarith
  then have "q * per_row \<le> (63 * (825 / 1000)) * per_row" by (simp only: ac_simps)
  then have "q \<le> 63 * (825 / 1000)" using assms(3) by (simp only: mult_le_cancel_right_pos)
  then have "py_int q < 64" using rq(1) by (simp add: py_int_def floor_less_iff)
  then have "raw_tile_rows usable per_row < 64" "0 \<le> raw_tile_rows usable per_row"
    by (auto simp: raw)
  then have "raw_tile_rows usable per_row div 64 = 0" by simp
  then have "tile_rows_for out_features usable per_row = 64" using assms(4) by (simp add: tile_rows_for_def)
  moreover have "63 * per_row < fmul (fof 64) per_row"
  proof -
    have "fof 64 = 64" using fl_of_int [of 64] by (simp add: fof_def)
    moreover have "64 * per_row * (99 / 100) \<le> fl (64 * per_row)" using assms(3) by (intro fl_ge_factor) simp
    ultimately show ?thesis using assms(3) by (simp add: fmul_def)
  qed
  ultimately show ?thesis using assms(2) by linarith
qed

theorem tile_floor_exceeds_budget_witness:
  "tile_rows_for 4096 256 8 = 64 \<and> 256 < fmul (fof 64) 8"
  by (rule tile_floor_exceeds_budget) simp_all

end
