(* ===== verification/Commit.thy ===== *)
theory Commit
  imports Region
begin

text \<open>
  The commit protocol that the three region writers of \<open>package/writer.py\<close> share: encode a
  batch, write its pieces at their planned addresses, fsync the region, then save the journal
  that names the batch. A disk keeps which bytes are not yet synced; a crash may leave anything
  there and shrink the file to its synced size, and keeps the last saved journal. The locale
  \<open>durable_commit\<close> proves that what the saved journal names is always on disk, whatever
  the point of the crash, and that a resumed run completes the region.
\<close>

section \<open>Operations on a region and their crashes\<close>

datatype 'j wio = WPreallocate int | WWrite int bytes | WFsync | WJournal 'j

record 'j region_disk =
  rd_bytes :: bytes
  rd_synced :: nat
  rd_dirty :: "(int \<times> int) list"
  rd_journal :: "'j option"

definition exec_wio :: "'j wio \<Rightarrow> 'j region_disk \<Rightarrow> 'j region_disk" where
  "exec_wio op d = (case op of
     WPreallocate n \<Rightarrow> d\<lparr>rd_bytes := preallocate (rd_bytes d) n\<rparr>
   | WWrite off data \<Rightarrow>
       (case file_write (rd_bytes d) off data of
          Inl e \<Rightarrow> d
        | Inr f \<Rightarrow> d\<lparr>rd_bytes := f, rd_dirty := (off, int (length data)) # rd_dirty d\<rparr>)
   | WFsync \<Rightarrow> d\<lparr>rd_synced := length (rd_bytes d), rd_dirty := []\<rparr>
   | WJournal j \<Rightarrow> d\<lparr>rd_journal := Some j\<rparr>)"

definition clean_at :: "'j region_disk \<Rightarrow> int \<Rightarrow> bool" where
  "clean_at d p \<longleftrightarrow> 0 \<le> p \<and> p < int (rd_synced d) \<and>
     (\<forall>(off, len) \<in> set (rd_dirty d). \<not> (off \<le> p \<and> p < off + len))"

text \<open>\<open>d'\<close> is a disk that the crash of \<open>d\<close> may leave behind.\<close>

definition crashed :: "'j region_disk \<Rightarrow> 'j region_disk \<Rightarrow> bool" where
  "crashed d d' \<longleftrightarrow> rd_journal d' = rd_journal d \<and> rd_dirty d' = [] \<and>
     rd_synced d' = length (rd_bytes d') \<and> rd_synced d \<le> length (rd_bytes d') \<and>
     length (rd_bytes d') \<le> length (rd_bytes d) \<and>
     (\<forall>p. clean_at d p \<longrightarrow> rd_bytes d' ! nat p = rd_bytes d ! nat p)"

section \<open>The loop\<close>

text \<open>A batch that fails to encode has written the items before the failing one.\<close>

fun commit_batch :: "('i \<Rightarrow> ((int \<times> bytes) list \<times> 'c) result) \<Rightarrow> 'i list \<Rightarrow>
    'j wio list \<times> ('i \<times> 'c) list result" where
  "commit_batch encode [] = ([], Inr [])"
| "commit_batch encode (item # items) =
     (case encode item of
        Inl e \<Rightarrow> ([], Inl e)
      | Inr (pieces, checksum) \<Rightarrow>
          (case commit_batch encode items of (io, r) \<Rightarrow>
             (map (\<lambda>(off, data). WWrite off data) pieces @ io,
              bindE r (\<lambda>committed. Inr ((item, checksum) # committed)))))"

fun commit_loop :: "('i \<Rightarrow> ((int \<times> bytes) list \<times> 'c) result) \<Rightarrow> ('i \<times> 'c \<Rightarrow> 'j \<Rightarrow> 'j) \<Rightarrow>
    'i list list \<Rightarrow> 'j \<Rightarrow> 'j wio list \<times> 'j result" where
  "commit_loop encode mark [] journal = ([], Inr journal)"
| "commit_loop encode mark (batch # rest) journal =
     (case commit_batch encode batch of (io, r) \<Rightarrow>
        (case r of
           Inl e \<Rightarrow> (io, Inl e)
         | Inr committed \<Rightarrow>
             let journal' = fold mark committed journal in
             (case commit_loop encode mark rest journal' of (io', r') \<Rightarrow>
                (io @ [WFsync, WJournal journal'] @ io', r'))))"

text \<open>\<open>_batches\<close>\<close>

function batches :: "nat \<Rightarrow> 'a list \<Rightarrow> 'a list list" where
  "batches n xs = (if n = 0 \<or> xs = [] then [] else take n xs # batches n (drop n xs))"
  by pat_completeness auto
termination by (relation "measure (\<lambda>(n, xs). length xs)") auto

declare batches.simps [simp del]

text \<open>A region writer: skip what the journal names, preallocate, loop.\<close>

definition write_region :: "('i \<Rightarrow> ((int \<times> bytes) list \<times> 'c) result) \<Rightarrow> ('i \<times> 'c \<Rightarrow> 'j \<Rightarrow> 'j) \<Rightarrow>
    ('j \<Rightarrow> 'i \<Rightarrow> bool) \<Rightarrow> 'i list \<Rightarrow> nat \<Rightarrow> int \<Rightarrow> 'j \<Rightarrow> 'j wio list \<times> 'j result" where
  "write_region encode mark is_done items n limit journal =
     (let pending = filter (\<lambda>i. \<not> is_done journal i) items in
      if pending = [] then ([], Inr journal)
      else case commit_loop encode mark (batches n pending) journal of (io, r) \<Rightarrow>
        (WPreallocate limit # io, r))"

lemma batches_Nil [simp]: "batches n [] = []"
  by (simp add: batches.simps)

lemma concat_batches: "0 < n \<Longrightarrow> concat (batches n xs) = xs"
proof (induction n xs rule: batches.induct)
  case (1 n xs)
  then show ?case by (cases "xs = []") (simp_all add: batches.simps [of n xs])
qed

section \<open>What a disk stores\<close>

text \<open>The piece is on disk: synced, clean and equal to the data.\<close>

definition stored :: "'j region_disk \<Rightarrow> int \<times> bytes \<Rightarrow> bool" where
  "stored d piece \<longleftrightarrow> 0 \<le> fst piece \<and>
     (\<forall>k < length (snd piece). clean_at d (fst piece + int k) \<and>
        rd_bytes d ! nat (fst piece + int k) = snd piece ! k)"

text \<open>The piece is in the file, synced or not.\<close>

definition present :: "'j region_disk \<Rightarrow> int \<times> bytes \<Rightarrow> bool" where
  "present d piece \<longleftrightarrow> 0 \<le> fst piece \<and> fst piece + int (length (snd piece)) \<le> int (length (rd_bytes d)) \<and>
     (\<forall>k < length (snd piece). rd_bytes d ! nat (fst piece + int k) = snd piece ! k)"

definition pieces_disjoint :: "int \<times> bytes \<Rightarrow> int \<times> bytes \<Rightarrow> bool" where
  "pieces_disjoint p q \<longleftrightarrow> fst p + int (length (snd p)) \<le> fst q \<or> fst q + int (length (snd q)) \<le> fst p"

definition piece_fits :: "int \<Rightarrow> int \<times> bytes \<Rightarrow> bool" where
  "piece_fits limit p \<longleftrightarrow> 0 \<le> fst p \<and> fst p + int (length (snd p)) \<le> limit"

lemma stored_crash: "stored d p \<Longrightarrow> crashed d d' \<Longrightarrow> stored d' p"
  by (auto simp: stored_def crashed_def clean_at_def)

lemma stored_fsync: "present d p \<Longrightarrow> stored (exec_wio WFsync d) p"
  by (auto simp: stored_def present_def exec_wio_def clean_at_def)

lemma write_step:
  assumes "piece_fits (int (length (rd_bytes d))) (off, data)"
  shows "length (rd_bytes (exec_wio (WWrite off data) d)) = length (rd_bytes d)"
    and "present (exec_wio (WWrite off data) d) (off, data)"
    and "present d p \<Longrightarrow> pieces_disjoint (off, data) p \<Longrightarrow> present (exec_wio (WWrite off data) d) p"
    and "rd_synced d \<le> length (rd_bytes d) \<Longrightarrow> stored d p \<Longrightarrow> pieces_disjoint (off, data) p \<Longrightarrow>
       stored (exec_wio (WWrite off data) d) p"
    and "rd_journal (exec_wio (WWrite off data) d) = rd_journal d"
    and "rd_synced (exec_wio (WWrite off data) d) = rd_synced d"
proof -
  have off: "0 \<le> off" "nat off + length data \<le> length (rd_bytes d)"
    using assms by (auto simp: piece_fits_def)
  obtain k where k: "off = int k" using off(1) nonneg_int_cases by blast
  note w = file_write_in [OF off(1,2)]
  let ?f = "take k (rd_bytes d) @ data @ drop (k + length data) (rd_bytes d)"
  have e: "exec_wio (WWrite off data) d = d\<lparr>rd_bytes := ?f, rd_dirty := (off, int (length data)) # rd_dirty d\<rparr>"
    using w by (simp add: exec_wio_def k)
  have nth: "?f ! q = (if k \<le> q \<and> q < k + length data then data ! (q - k) else rd_bytes d ! q)"
    if "q < length (rd_bytes d)" for q
    using that off(2) by (auto simp: nth_append k)
  have len: "length ?f = length (rd_bytes d)" using off(2) by (simp add: k)
  show "length (rd_bytes (exec_wio (WWrite off data) d)) = length (rd_bytes d)"
    "rd_journal (exec_wio (WWrite off data) d) = rd_journal d"
    "rd_synced (exec_wio (WWrite off data) d) = rd_synced d"
    unfolding e using len by simp_all
  show "present (exec_wio (WWrite off data) d) (off, data)"
    unfolding e present_def
  proof (intro conjI allI impI)
    fix i assume i: "i < length (snd (off, data))"
    have "nat (fst (off, data) + int i) = k + i" by (simp add: k)
    then show "rd_bytes (d\<lparr>rd_bytes := ?f, rd_dirty := (off, int (length data)) # rd_dirty d\<rparr>) ! nat (fst (off, data) + int i) = snd (off, data) ! i"
      using nth [of "k + i"] i off(2) by (simp add: k)
  qed (use off len in \<open>simp_all add: k\<close>)
  have out: "?f ! nat (int m + int i) = rd_bytes d ! nat (int m + int i)"
    if "pieces_disjoint (off, data) (int m, b)" "i < length b" "m + i < length (rd_bytes d)" for m b i
  proof -
    have "nat (int m + int i) = m + i" by simp
    then show ?thesis using that nth [of "m + i"] by (auto simp: pieces_disjoint_def k)
  qed
  show "present (exec_wio (WWrite off data) d) p" if pr: "present d p" and dj: "pieces_disjoint (off, data) p"
  proof -
    obtain m b where p: "p = (int m, b)" using pr by (cases p) (auto simp: present_def elim: nonneg_int_cases)
    show ?thesis
      unfolding e present_def
    proof (intro conjI allI impI)
      fix i assume i: "i < length (snd p)"
      have "m + i < length (rd_bytes d)" using pr i by (simp add: present_def p)
      then show "rd_bytes (d\<lparr>rd_bytes := ?f, rd_dirty := (off, int (length data)) # rd_dirty d\<rparr>) ! nat (fst p + int i) = snd p ! i"
        using out [of m b i] dj pr i by (simp add: p present_def)
    qed (use pr len in \<open>simp_all add: present_def\<close>)
  qed
  show "stored (exec_wio (WWrite off data) d) p"
    if sy: "rd_synced d \<le> length (rd_bytes d)" and st: "stored d p" and dj: "pieces_disjoint (off, data) p"
  proof -
    obtain m b where p: "p = (int m, b)" using st by (cases p) (auto simp: stored_def elim: nonneg_int_cases)
    show ?thesis
      unfolding e stored_def
    proof (intro conjI allI impI)
      fix i assume i: "i < length (snd p)"
      have c: "clean_at d (int m + int i)" "rd_bytes d ! nat (int m + int i) = b ! i"
        using st i by (auto simp: stored_def p)
      then have lt: "m + i < length (rd_bytes d)" using sy by (simp add: clean_at_def)
      show "rd_bytes (d\<lparr>rd_bytes := ?f, rd_dirty := (off, int (length data)) # rd_dirty d\<rparr>) ! nat (fst p + int i) = snd p ! i"
        using out [of m b i] dj i lt c(2) by (simp add: p)
      show "clean_at (d\<lparr>rd_bytes := ?f, rd_dirty := (off, int (length data)) # rd_dirty d\<rparr>) (fst p + int i)"
        using c(1) dj i by (auto simp: clean_at_def p pieces_disjoint_def)
    qed (simp add: p)
  qed
qed

lemma fsync_fields [simp]:
  "rd_bytes (exec_wio WFsync d) = rd_bytes d" "rd_journal (exec_wio WFsync d) = rd_journal d"
  "rd_synced (exec_wio WFsync d) = length (rd_bytes d)"
  by (simp_all add: exec_wio_def)

lemma journal_fields [simp]:
  "rd_bytes (exec_wio (WJournal j) d) = rd_bytes d" "rd_journal (exec_wio (WJournal j) d) = Some j"
  "rd_synced (exec_wio (WJournal j) d) = rd_synced d"
  by (simp_all add: exec_wio_def)

lemma present_fsync: "present d p \<Longrightarrow> present (exec_wio WFsync d) p"
  by (simp add: present_def exec_wio_def)

lemma stored_after_fsync:
  assumes "stored d p" "rd_synced d \<le> length (rd_bytes d)"
  shows "stored (exec_wio WFsync d) p"
proof -
  have "fst p + int k < int (length (rd_bytes d))" if "k < length (snd p)" for k
    using assms that by (fastforce simp: stored_def clean_at_def)
  then show ?thesis using assms(1) by (auto simp: stored_def exec_wio_def clean_at_def)
qed

lemma stored_journal [simp]: "stored (exec_wio (WJournal j) d) p = stored d p"
  by (simp add: stored_def exec_wio_def clean_at_def)

lemma stored_preallocate:
  assumes "stored d p" "rd_synced d \<le> length (rd_bytes d)"
  shows "stored (exec_wio (WPreallocate n) d) p"
proof -
  have "preallocate (rd_bytes d) n ! nat q = rd_bytes d ! nat q" if "clean_at d q" for q
    using that assms(2) by (auto simp: preallocate_def nth_append clean_at_def)
  then show ?thesis using assms(1) by (auto simp: stored_def exec_wio_def clean_at_def)
qed

section \<open>The protocol is crash safe\<close>

locale durable_commit =
  fixes ok :: "'p \<Rightarrow> bool"
    and items :: "'p \<Rightarrow> 'i list"
    and encode :: "'p \<Rightarrow> 'i \<Rightarrow> ((int \<times> bytes) list \<times> 'c) result"
    and limit :: "'p \<Rightarrow> int"
    and mark :: "'i \<times> 'c \<Rightarrow> 'j \<Rightarrow> 'j"
    and is_done :: "'j \<Rightarrow> 'i \<Rightarrow> bool"
  assumes item_fits: "ok c \<Longrightarrow> i \<in> set (items c) \<Longrightarrow> encode c i = Inr (ps, k) \<Longrightarrow> q \<in> set ps \<Longrightarrow>
      piece_fits (limit c) q"
    and own_disjoint: "ok c \<Longrightarrow> i \<in> set (items c) \<Longrightarrow> encode c i = Inr (ps, k) \<Longrightarrow>
      a < b \<Longrightarrow> b < length ps \<Longrightarrow> pieces_disjoint (ps ! a) (ps ! b)"
    and across_disjoint: "ok c \<Longrightarrow> i \<in> set (items c) \<Longrightarrow> i' \<in> set (items c) \<Longrightarrow> i \<noteq> i' \<Longrightarrow>
      encode c i = Inr (ps, k) \<Longrightarrow> encode c i' = Inr (ps', k') \<Longrightarrow> q \<in> set ps \<Longrightarrow> q' \<in> set ps' \<Longrightarrow>
      pieces_disjoint q q'"
    and mark_done: "ok c \<Longrightarrow> i \<in> set (items c) \<Longrightarrow> i' \<in> set (items c) \<Longrightarrow>
      is_done (mark (i, k) j) i' \<longleftrightarrow> i' = i \<or> is_done j i'"
begin

text \<open>Every item the saved journal names is on disk, in a file of the planned length.\<close>

definition item_stored :: "'p \<Rightarrow> 'j region_disk \<Rightarrow> 'i \<Rightarrow> bool" where
  "item_stored c d i \<longleftrightarrow> limit c \<le> int (rd_synced d) \<and>
     (\<exists>ps k. encode c i = Inr (ps, k) \<and> (\<forall>q \<in> set ps. stored d q))"

definition good :: "'p \<Rightarrow> 'j region_disk \<Rightarrow> bool" where
  "good c d \<longleftrightarrow> rd_synced d \<le> length (rd_bytes d) \<and>
     (\<forall>j i. rd_journal d = Some j \<longrightarrow> i \<in> set (items c) \<longrightarrow> is_done j i \<longrightarrow> item_stored c d i)"

lemma good_crash: "good c d \<Longrightarrow> crashed d d' \<Longrightarrow> good c d'"
proof -
  assume g: "good c d" and x: "crashed d d'"
  have "item_stored c d i \<Longrightarrow> item_stored c d' i" for i
    using stored_crash [OF _ x] x by (fastforce simp: item_stored_def crashed_def)
  then show "good c d'" using g x by (simp add: good_def crashed_def)
qed

text \<open>During the loop: the items of \<open>S\<close> are stored, those of \<open>B\<close> written.\<close>

definition during :: "'p \<Rightarrow> 'j region_disk \<Rightarrow> 'i set \<Rightarrow> 'i set \<Rightarrow> bool" where
  "during c d S B \<longleftrightarrow> rd_synced d \<le> length (rd_bytes d) \<and> limit c \<le> int (length (rd_bytes d)) \<and>
     S \<union> B \<subseteq> set (items c) \<and> (\<forall>i \<in> S. item_stored c d i) \<and>
     (\<forall>j i. rd_journal d = Some j \<longrightarrow> i \<in> set (items c) \<longrightarrow> is_done j i \<longrightarrow> i \<in> S) \<and>
     (\<forall>i \<in> B. \<exists>ps k. encode c i = Inr (ps, k) \<and> (\<forall>q \<in> set ps. present d q))"

lemma during_good: "during c d S B \<Longrightarrow> good c d"
  by (auto simp: during_def good_def)

lemma during_fsync:
  assumes "during c d S B"
  shows "during c (exec_wio WFsync d) (S \<union> B) {}"
proof -
  have "item_stored c (exec_wio WFsync d) i" if h: "i \<in> S \<union> B" for i
  proof (cases "i \<in> S")
    case True
    then show ?thesis using assms stored_after_fsync by (fastforce simp: during_def item_stored_def)
  next
    case False
    then obtain ps k where "encode c i = Inr (ps, k)" "\<forall>q \<in> set ps. present d q"
      using assms h by (auto simp: during_def)
    then show ?thesis using assms stored_fsync by (auto simp: during_def item_stored_def)
  qed
  then show ?thesis using assms by (auto simp: during_def)
qed

lemma during_journal:
  assumes "during c d S {}" "\<forall>i \<in> set (items c). is_done j i \<longrightarrow> i \<in> S"
  shows "during c (exec_wio (WJournal j) d) S {}"
  using assms by (auto simp: during_def item_stored_def)

definition safe :: "'p \<Rightarrow> 'j wio list \<Rightarrow> 'j region_disk \<Rightarrow> bool" where
  "safe c io d \<longleftrightarrow> (\<forall>n. good c (fold exec_wio (take n io) d))"

lemma safe_Nil [simp]: "safe c [] d = good c d"
  by (simp add: safe_def)

lemma safe_Cons: "good c d \<Longrightarrow> safe c io (exec_wio op d) \<Longrightarrow> safe c (op # io) d"
  unfolding safe_def
proof
  fix n assume "good c d" "\<forall>n. good c (fold exec_wio (take n io) (exec_wio op d))"
  then show "good c (fold exec_wio (take n (op # io)) d)" by (cases n) simp_all
qed

lemma safe_append:
  assumes "safe c a d" "safe c b (fold exec_wio a d)"
  shows "safe c (a @ b) d"
  unfolding safe_def
proof
  fix n
  show "good c (fold exec_wio (take n (a @ b)) d)"
    using assms by (cases "n \<le> length a") (simp_all add: safe_def)
qed

lemma write_pieces:
  assumes ok: "ok c" and i: "i \<in> set (items c)" "i \<notin> S" "i \<notin> B"
    and e: "encode c i = Inr (ps0 @ ps, k)"
    and d: "during c d S B" "\<forall>q \<in> set ps0. present d q"
  shows "safe c (map (\<lambda>(off, data). WWrite off data) ps) d \<and>
    during c (fold exec_wio (map (\<lambda>(off, data). WWrite off data) ps) d) S (insert i B)"
  using e d
proof (induction ps arbitrary: ps0 d)
  case Nil
  then show ?case using i by (auto simp: during_def good_def)
next
  case (Cons q ps)
  obtain off data where q: "q = (off, data)" by (cases q)
  let ?d = "exec_wio (WWrite off data) d"
  have fit: "piece_fits (int (length (rd_bytes d))) (off, data)"
    using item_fits [OF ok i(1) Cons.prems(1), of q] Cons.prems(2) by (auto simp: during_def piece_fits_def q)
  note w = write_step [OF fit]
  have dj: "pieces_disjoint (off, data) q'" if "i' \<in> S \<union> B" "encode c i' = Inr (ps', k')" "q' \<in> set ps'" for i' ps' k' q'
    using across_disjoint [OF ok i(1) _ _ Cons.prems(1) that(2) _ that(3), of q] that(1) i(2,3) Cons.prems(2)
    by (auto simp: during_def q)
  have dj0: "pieces_disjoint (off, data) q'" if q': "q' \<in> set ps0" for q'
  proof -
    obtain a where a: "a < length ps0" "ps0 ! a = q'" using q' by (auto simp: in_set_conv_nth)
    have "pieces_disjoint q' (off, data)"
      using own_disjoint [OF ok i(1) Cons.prems(1), of a "length ps0"] a by (simp add: nth_append q)
    then show ?thesis by (auto simp: pieces_disjoint_def)
  qed
  have sy: "rd_synced d \<le> length (rd_bytes d)" using Cons.prems(2) by (simp add: during_def)
  have d': "during c ?d S B"
    using Cons.prems(2) w(1,5,6) w(3) w(4) [OF sy] dj
    unfolding during_def item_stored_def by (simp, meson UnI1 UnI2)
  have pr: "\<forall>q' \<in> set (ps0 @ [q]). present ?d q'"
    using Cons.prems(3) w(2,3) dj0 by (auto simp: q)
  have IH: "safe c (map (\<lambda>(off, data). WWrite off data) ps) ?d \<and>
    during c (fold exec_wio (map (\<lambda>(off, data). WWrite off data) ps) ?d) S (insert i B)"
    by (rule Cons.IH [OF _ d' pr]) (use Cons.prems(1) in simp)
  show ?case using IH safe_Cons [OF during_good [OF Cons.prems(2)]] by (simp add: q)
qed

lemma batch_io:
  assumes ok: "ok c"
  shows "set bs \<subseteq> set (items c) \<Longrightarrow> distinct bs \<Longrightarrow> set bs \<inter> (S \<union> B) = {} \<Longrightarrow> during c d S B \<Longrightarrow>
    commit_batch (encode c) bs = (io, r) \<Longrightarrow>
    safe c io d \<and> (\<forall>cs. r = Inr cs \<longrightarrow> map fst cs = bs \<and> during c (fold exec_wio io d) S (B \<union> set bs))"
proof (induction bs arbitrary: d io r B)
  case Nil
  then show ?case by (auto simp: during_good)
next
  case (Cons i bs)
  show ?case
  proof (cases "encode c i")
    case (Inl e)
    then show ?thesis using Cons.prems by (auto simp: during_good)
  next
    case (Inr r1)
    obtain ps k where e: "encode c i = Inr (ps, k)" using Inr by (cases r1) auto
    obtain io' :: "'j wio list" and r' where b: "commit_batch (encode c) bs = (io', r')" by (meson surj_pair)
    let ?w = "map (\<lambda>(off, data). WWrite off data) ps"
    have w: "safe c ?w d" "during c (fold exec_wio ?w d) S (insert i B)"
      using write_pieces [OF ok, of i S B "[]" ps k d] Cons.prems e by auto
    have IH: "safe c io' (fold exec_wio ?w d) \<and> (\<forall>cs. r' = Inr cs \<longrightarrow> map fst cs = bs \<and>
        during c (fold exec_wio io' (fold exec_wio ?w d)) S (insert i B \<union> set bs))"
      using Cons.prems by (intro Cons.IH [OF _ _ _ w(2) b]) auto
    show ?thesis using Cons.prems(5) IH safe_append [OF w(1)]
      by (auto simp: e b)
  qed
qed

lemma fold_mark_done:
  "ok c \<Longrightarrow> fst ` set cs \<subseteq> set (items c) \<Longrightarrow> i \<in> set (items c) \<Longrightarrow>
     is_done (fold mark cs j) i \<longleftrightarrow> i \<in> fst ` set cs \<or> is_done j i"
proof (induction cs arbitrary: j)
  case (Cons x cs)
  obtain a k where x: "x = (a, k)" by (cases x)
  show ?case using Cons.IH [of "mark x j"] Cons.prems mark_done [of c a i k j] by (auto simp: x)
qed simp

lemma loop_io:
  assumes ok: "ok c"
  shows "set (concat bss) \<subseteq> set (items c) \<Longrightarrow> distinct (concat bss) \<Longrightarrow> set (concat bss) \<inter> S = {} \<Longrightarrow>
    during c d S {} \<Longrightarrow> (\<forall>i \<in> set (items c). is_done j i \<longrightarrow> i \<in> S) \<Longrightarrow>
    commit_loop (encode c) mark bss j = (io, r) \<Longrightarrow>
    safe c io d \<and> (\<forall>j'. r = Inr j' \<longrightarrow> during c (fold exec_wio io d) (S \<union> set (concat bss)) {} \<and>
      (\<forall>i \<in> set (items c). is_done j' i \<longleftrightarrow> is_done j i \<or> i \<in> set (concat bss)) \<and>
      (bss \<noteq> [] \<longrightarrow> rd_journal (fold exec_wio io d) = Some j'))"
proof (induction bss arbitrary: d j io r S)
  case Nil
  then show ?case by (auto simp: during_good)
next
  case (Cons bs bss)
  obtain io1 :: "'j wio list" and r1 where b: "commit_batch (encode c) bs = (io1, r1)" by (meson surj_pair)
  have b1: "safe c io1 d \<and> (\<forall>cs. r1 = Inr cs \<longrightarrow> map fst cs = bs \<and> during c (fold exec_wio io1 d) S ({} \<union> set bs))"
    using Cons.prems by (intro batch_io [OF ok _ _ _ Cons.prems(4) b]) auto
  show ?case
  proof (cases r1)
    case (Inl e)
    then show ?thesis using Cons.prems(6) b1 by (auto simp: b)
  next
    case (Inr cs)
    define j1 where "j1 = fold mark cs j"
    obtain io2 r2 where l: "commit_loop (encode c) mark bss j1 = (io2, r2)"
      by (cases "commit_loop (encode c) mark bss j1")
    have cs: "fst ` set cs = set bs" "during c (fold exec_wio io1 d) S (set bs)"
      using b1 Inr by (auto simp flip: set_map)
    have done1: "is_done j1 i \<longleftrightarrow> i \<in> set bs \<or> is_done j i" if "i \<in> set (items c)" for i
      using fold_mark_done [OF ok _ that, of cs j] cs(1) Cons.prems(1) by (simp add: j1_def)
    let ?d1 = "fold exec_wio io1 d" and ?d2 = "exec_wio WFsync (fold exec_wio io1 d)"
    have d2: "during c ?d2 (S \<union> set bs) {}" by (rule during_fsync [OF cs(2)])
    have d3: "during c (exec_wio (WJournal j1) ?d2) (S \<union> set bs) {}"
      by (rule during_journal [OF d2]) (use done1 Cons.prems(5) in blast)
    have IH: "safe c io2 (exec_wio (WJournal j1) ?d2) \<and> (\<forall>j'. r2 = Inr j' \<longrightarrow>
        during c (fold exec_wio io2 (exec_wio (WJournal j1) ?d2)) ((S \<union> set bs) \<union> set (concat bss)) {} \<and>
        (\<forall>i \<in> set (items c). is_done j' i \<longleftrightarrow> is_done j1 i \<or> i \<in> set (concat bss)) \<and>
        (bss \<noteq> [] \<longrightarrow> rd_journal (fold exec_wio io2 (exec_wio (WJournal j1) ?d2)) = Some j'))"
      using Cons.prems done1 by (intro Cons.IH [OF _ _ _ d3 _ l]) auto
    have "safe c ([WFsync, WJournal j1] @ io2) ?d1"
      using IH by (auto intro!: safe_Cons during_good [OF cs(2)] during_good [OF d2])
    then have sf: "safe c (io1 @ [WFsync, WJournal j1] @ io2) d" by (rule safe_append [OF conjunct1 [OF b1]])
    have last: "rd_journal (fold exec_wio io2 (exec_wio (WJournal j1) ?d2)) = Some j'" if "r2 = Inr j'" "bss = []" for j'
      using that l by (auto simp: exec_wio_def)
    have res: "io = io1 @ [WFsync, WJournal j1] @ io2" "r = r2"
      using Cons.prems(6) Inr by (simp_all add: b l flip: j1_def)
    show ?thesis
      using IH sf last done1 unfolding res by (cases "bss = []") (auto simp: Un_assoc)
  qed
qed

definition resumes :: "'p \<Rightarrow> 'j region_disk \<Rightarrow> 'j \<Rightarrow> bool" where
  "resumes c d j \<longleftrightarrow> rd_journal d = Some j \<or> rd_journal d = None \<and> (\<forall>i \<in> set (items c). \<not> is_done j i)"

lemma write_region_io:
  assumes ok: "ok c" and g: "good c d" and j: "resumes c d j" and n: "0 < n" and dist: "distinct (items c)"
    and w: "write_region (encode c) mark is_done (items c) n (limit c) j = (io, r)"
  shows "safe c io d \<and> (\<forall>j'. r = Inr j' \<longrightarrow>
    (\<forall>i \<in> set (items c). is_done j' i \<and> item_stored c (fold exec_wio io d) i) \<and>
    resumes c (fold exec_wio io d) j')"
proof -
  define pending where "pending = filter (\<lambda>i. \<not> is_done j i) (items c)"
  define S where "S = {i \<in> set (items c). is_done j i}"
  have st: "item_stored c d i" if "i \<in> S" for i
    using that g j by (auto simp: S_def good_def resumes_def)
  show ?thesis
  proof (cases "pending = []")
    case True
    then have d: "is_done j i" if "i \<in> set (items c)" for i
      using that by (auto simp: pending_def filter_empty_conv)
    have "io = []" "r = Inr j" using w True by (simp_all add: write_region_def Let_def flip: pending_def)
    then show ?thesis using d st g j by (simp add: S_def)
  next
    case False
    obtain io' :: "'j wio list" and r' where l: "commit_loop (encode c) mark (batches n pending) j = (io', r')"
      by (meson surj_pair)
    have res: "io = WPreallocate (limit c) # io'" "r = r'"
      using w False l by (simp_all add: write_region_def Let_def flip: pending_def)
    let ?d = "exec_wio (WPreallocate (limit c)) d"
    have sy: "rd_synced d \<le> length (rd_bytes d)" using g by (simp add: good_def)
    have pre: "during c ?d S {}"
      unfolding during_def
    proof (intro conjI allI impI ballI)
      show "rd_synced ?d \<le> length (rd_bytes ?d)" "limit c \<le> int (length (rd_bytes ?d))"
        using sy by (simp_all add: exec_wio_def)
      show "S \<union> {} \<subseteq> set (items c)" by (auto simp: S_def)
      show "item_stored c ?d i" if "i \<in> S" for i
        using st [OF that] stored_preallocate [OF _ sy] by (fastforce simp: item_stored_def exec_wio_def)
      show "i \<in> S" if "rd_journal ?d = Some j1" "i \<in> set (items c)" "is_done j1 i" for j1 i
        using that j by (auto simp: S_def resumes_def exec_wio_def)
    qed simp
    have bne: "batches n pending \<noteq> []" using False n by (simp add: batches.simps [of n pending])
    have cb: "concat (batches n pending) = pending" by (rule concat_batches [OF n])
    have "set (concat (batches n pending)) \<subseteq> set (items c)" "distinct (concat (batches n pending))"
      "set (concat (batches n pending)) \<inter> S = {}" "\<forall>i \<in> set (items c). is_done j i \<longrightarrow> i \<in> S"
      unfolding cb using dist by (auto simp: pending_def S_def)
    note lo = loop_io [OF ok this(1-3) pre this(4) l, unfolded cb]
    have "S \<union> set pending = set (items c)" by (auto simp: S_def pending_def)
    note all = this
    show ?thesis
    proof (intro conjI allI impI)
      show "safe c io d" unfolding res by (rule safe_Cons [OF g conjunct1 [OF lo]])
      fix j' assume "r = Inr j'"
      then have f: "during c (fold exec_wio io' ?d) (set (items c)) {}" "rd_journal (fold exec_wio io' ?d) = Some j'"
        "\<forall>i \<in> set (items c). is_done j' i \<longleftrightarrow> is_done j i \<or> i \<in> set pending"
        using lo bne by (simp_all only: res all) blast+
      have io: "fold exec_wio io d = fold exec_wio io' ?d" by (simp add: res)
      show "resumes c (fold exec_wio io d) j'" unfolding io resumes_def using f(2) by simp
      show "\<forall>i \<in> set (items c). is_done j' i \<and> item_stored c (fold exec_wio io d) i"
        unfolding io using f(1,3) by (auto simp: during_def pending_def)
    qed
  qed
qed

text \<open>No operation of a region makes its file longer than planned.\<close>

definition op_fits :: "'p \<Rightarrow> 'j wio \<Rightarrow> bool" where
  "op_fits c op \<longleftrightarrow> (case op of WPreallocate n \<Rightarrow> n \<le> limit c | WWrite off data \<Rightarrow> piece_fits (limit c) (off, data) | _ \<Rightarrow> True)"

lemma ops_fit_batch:
  assumes "ok c" "set bs \<subseteq> set (items c)" "commit_batch (encode c) bs = (io, r)"
  shows "\<forall>op \<in> set io. op_fits c op"
  using assms(2,3)
proof (induction bs arbitrary: io r)
  case (Cons b bs)
  obtain io1 :: "'j wio list" and r1 where b1: "commit_batch (encode c) bs = (io1, r1)" by (meson surj_pair)
  have w: "op_fits c (WWrite off data)" if "encode c b = Inr (ps, k)" "(off, data) \<in> set ps" for ps k off data
    using item_fits [OF assms(1) _ that] Cons.prems(1) by (simp add: op_fits_def)
  show ?case using Cons.prems Cons.IH [OF _ b1] w by (auto simp: b1 split: sum.splits)
qed simp

lemma ops_fit_loop:
  assumes "ok c" "set (concat bss) \<subseteq> set (items c)" "commit_loop (encode c) mark bss j = (io, r)"
  shows "\<forall>op \<in> set io. op_fits c op"
  using assms(2,3)
proof (induction bss arbitrary: j io r)
  case (Cons bs bss)
  obtain io1 :: "'j wio list" and r1 where b: "commit_batch (encode c) bs = (io1, r1)" by (meson surj_pair)
  have w1: "\<forall>op \<in> set io1. op_fits c op" by (rule ops_fit_batch [OF assms(1) _ b]) (use Cons.prems in auto)
  show ?case
  proof (cases r1)
    case (Inl x)
    then show ?thesis using Cons.prems w1 by (auto simp: b)
  next
    case (Inr cs)
    obtain io2 r2 where l: "commit_loop (encode c) mark bss (fold mark cs j) = (io2, r2)" by (meson surj_pair)
    then have "\<forall>op \<in> set io2. op_fits c op" using Cons.IH Cons.prems(1) by simp
    then show ?thesis using Cons.prems Inr w1 by (auto simp: b l Let_def op_fits_def)
  qed
qed simp

lemma ops_fit_region:
  assumes "ok c" "0 < n" "write_region (encode c) mark is_done (items c) n (limit c) j = (io, r)"
  shows "\<forall>op \<in> set io. op_fits c op"
proof (cases "filter (\<lambda>i. \<not> is_done j i) (items c) = []")
  case True
  then show ?thesis using assms(3) by (simp add: write_region_def)
next
  case False
  obtain io' r' where l: "commit_loop (encode c) mark (batches n (filter (\<lambda>i. \<not> is_done j i) (items c))) j = (io', r')"
    by (meson surj_pair)
  have "\<forall>op \<in> set io'. op_fits c op" by (rule ops_fit_loop [OF assms(1) _ l]) (simp add: concat_batches [OF assms(2)])
  then show ?thesis using assms(3) False l by (auto simp: write_region_def Let_def op_fits_def)
qed

lemma ops_fit_length:
  "\<forall>op \<in> set io. op_fits c op \<Longrightarrow> length (rd_bytes (fold exec_wio io d)) \<le> max (length (rd_bytes d)) (nat (limit c))"
proof (induction io arbitrary: d)
  case (Cons op io)
  have "length (rd_bytes (exec_wio op d)) \<le> max (length (rd_bytes d)) (nat (limit c))"
    using Cons.prems by (cases op) (auto simp: exec_wio_def op_fits_def piece_fits_def file_write_def Let_def)
  then show ?case using Cons.IH [of "exec_wio op d"] Cons.prems by auto
qed simp

text \<open>A crash at any point of a run leaves a disk whose journal tells the truth.\<close>

theorem region_crash_safe:
  assumes "ok c" "good c d" "resumes c d j" "0 < n" "distinct (items c)"
    and "write_region (encode c) mark is_done (items c) n (limit c) j = (io, r)"
    and "crashed (fold exec_wio (take k io) d) d'"
  shows "good c d'"
  using write_region_io [OF assms(1-6)] good_crash [OF _ assms(7)] by (simp add: safe_def)

text \<open>A run from such a disk that returns has every item on disk.\<close>

theorem region_complete:
  assumes "ok c" "good c d" "resumes c d j" "0 < n" "distinct (items c)"
    and "write_region (encode c) mark is_done (items c) n (limit c) j = (io, Inr j')"
    and "i \<in> set (items c)"
  shows "is_done j' i \<and> item_stored c (fold exec_wio io d) i"
  using write_region_io [OF assms(1-6)] assms(7) by blast

end

section \<open>Prefixes and journals of a run\<close>

lemma batches_one: "batches 1 xs = map (\<lambda>x. [x]) xs"
proof (induction xs)
  case (Cons x xs)
  then show ?case by (subst batches.simps) simp
qed simp

lemma commit_loop_append:
  "commit_loop e m (as @ bs) j =
     (case commit_loop e m as j of (io, r) \<Rightarrow>
        (case r of Inl x \<Rightarrow> (io, Inl x)
         | Inr j' \<Rightarrow> (case commit_loop e m bs j' of (io', r') \<Rightarrow> (io @ io', r'))))"
proof (induction "as" arbitrary: j)
  case (Cons a "as")
  then show ?case
    by (cases "commit_batch e a :: 'a wio list \<times> _"; cases "snd (commit_batch e a :: 'a wio list \<times> _)")
      (auto simp: Let_def split: prod.splits sum.splits)
qed simp

lemma commit_batch_writes: "commit_batch e bs = (io, r) \<Longrightarrow> WJournal j \<notin> set io"
proof (induction bs arbitrary: io r)
  case (Cons b bs)
  then show ?case by (cases "commit_batch e bs") (auto split: sum.splits prod.splits)
qed simp

text \<open>A mark is made for an item with the checksum of its encoding.\<close>

definition encoded :: "('i \<Rightarrow> ((int \<times> bytes) list \<times> 'c) result) \<Rightarrow> 'i list \<Rightarrow> 'i \<times> 'c \<Rightarrow> bool" where
  "encoded e items ic \<longleftrightarrow> fst ic \<in> set items \<and> (\<exists>ps. e (fst ic) = Inr (ps, snd ic))"

lemma encoded_mono: "encoded e bs ic \<Longrightarrow> set bs \<subseteq> set cs \<Longrightarrow> encoded e cs ic"
  by (auto simp: encoded_def)

lemma commit_batch_encoded: "commit_batch e bs = (io, Inr cs) \<Longrightarrow> ic \<in> set cs \<Longrightarrow> encoded e bs ic"
proof (induction bs arbitrary: io cs)
  case (Cons b bs)
  then show ?case
    by (cases "commit_batch e bs :: 'c wio list \<times> _") (auto simp: encoded_def bindE_Inr_iff split: sum.splits prod.splits)
qed simp

definition marks_of :: "('i \<Rightarrow> ((int \<times> bytes) list \<times> 'c) result) \<Rightarrow> 'i list \<Rightarrow> ('i \<times> 'c \<Rightarrow> 'j \<Rightarrow> 'j) \<Rightarrow> 'j \<Rightarrow> 'j \<Rightarrow> bool" where
  "marks_of e items m j j1 \<longleftrightarrow> (\<exists>cs. j1 = fold m cs j \<and> (\<forall>ic \<in> set cs. encoded e items ic))"

lemma marks_of_refl [simp]: "marks_of e items m j j"
  unfolding marks_of_def by (rule exI [of _ "[]"]) simp

lemma marks_of_fold:
  assumes "marks_of e bs m (fold m cs j) j1" "\<forall>ic \<in> set cs. encoded e as ic"
  shows "marks_of e (as @ bs) m j j1"
proof -
  obtain ds where "j1 = fold m ds (fold m cs j)" "\<forall>ic \<in> set ds. encoded e bs ic"
    using assms(1) by (auto simp: marks_of_def)
  then show ?thesis using assms(2) unfolding marks_of_def
    by (intro exI [of _ "cs @ ds"]) (auto intro: encoded_mono)
qed

lemma commit_loop_journals:
  "commit_loop e m bss j = (io, r) \<Longrightarrow>
     (\<forall>j1. WJournal j1 \<in> set io \<longrightarrow> marks_of e (concat bss) m j j1) \<and> (\<forall>j1. r = Inr j1 \<longrightarrow> marks_of e (concat bss) m j j1)"
proof (induction bss arbitrary: j io r)
  case Nil
  then show ?case by auto
next
  case (Cons bs bss)
  obtain io1 :: "'a wio list" and r1 where b: "commit_batch e bs = (io1, r1)" by (meson surj_pair)
  note nj = commit_batch_writes [OF b]
  show ?case
  proof (cases r1)
    case (Inl x)
    then show ?thesis using Cons.prems nj by (auto simp: b)
  next
    case (Inr cs)
    obtain io2 r2 where l: "commit_loop e m bss (fold m cs j) = (io2, r2)" by (meson surj_pair)
    have res: "io = io1 @ [WFsync, WJournal (fold m cs j)] @ io2" "r = r2"
      using Cons.prems Inr by (simp_all add: b l Let_def)
    have enc: "\<forall>ic \<in> set cs. encoded e bs ic" using commit_batch_encoded [of e bs io1 cs] b Inr by blast
    have "marks_of e (concat (bs # bss)) m j j1" if h: "WJournal j1 \<in> set io2 \<or> r2 = Inr j1" for j1
    proof -
      have "marks_of e (concat bss) m (fold m cs j) j1" using Cons.IH [OF l] h by blast
      from marks_of_fold [OF this enc] show ?thesis by simp
    qed
    moreover have "marks_of e (concat (bs # bss)) m j (fold m cs j)"
      using marks_of_fold [OF marks_of_refl enc, where bs = "concat bss"] by simp
    ultimately show ?thesis using nj by (auto simp: res)
  qed
qed

lemma write_region_journals:
  assumes "write_region e m is_done items n limit j = (io, r)"
  shows "(\<forall>j1. WJournal j1 \<in> set io \<longrightarrow> marks_of e items m j j1) \<and> (\<forall>j1. r = Inr j1 \<longrightarrow> marks_of e items m j j1)"
proof -
  let ?pending = "filter (\<lambda>i. \<not> is_done j i) items"
  obtain io' r' where l: "commit_loop e m (batches n ?pending) j = (io', r')" by (meson surj_pair)
  have sub: "set (concat (batches n ?pending)) \<subseteq> set items"
    by (cases "n = 0") (auto simp: concat_batches batches.simps [of 0])
  have "marks_of e items m j j1" if "marks_of e (concat (batches n ?pending)) m j j1" for j1
    using that encoded_mono [OF _ sub] unfolding marks_of_def by blast
  then show ?thesis using assms commit_loop_journals [OF l]
    by (auto simp: write_region_def Let_def l split: if_splits)
qed

lemma fold_journal:
  "rd_journal (fold exec_wio io d) = rd_journal d \<or> (\<exists>j1. WJournal j1 \<in> set io \<and> rd_journal (fold exec_wio io d) = Some j1)"
proof (induction io arbitrary: d)
  case (Cons op io)
  have "rd_journal (exec_wio op d) = rd_journal d \<or> (\<exists>j1. op = WJournal j1 \<and> rd_journal (exec_wio op d) = Some j1)"
    by (auto simp: exec_wio_def split: wio.splits sum.splits)
  then show ?case using Cons.IH [of "exec_wio op d"] by auto
qed simp

lemma commit_batch_total:
  "\<forall>i \<in> set bs. \<exists>x. e i = Inr x \<Longrightarrow> \<exists>cs. snd (commit_batch e bs :: 'j wio list \<times> _) = Inr cs"
  by (induction bs) (auto split: prod.splits)

lemma commit_loop_total:
  "\<forall>i \<in> set (concat bss). \<exists>x. e i = Inr x \<Longrightarrow> \<exists>j'. snd (commit_loop e m bss (j :: 'j)) = Inr j'"
proof (induction bss arbitrary: j)
  case (Cons bs bss)
  obtain cs where "snd (commit_batch e bs :: 'j wio list \<times> _) = Inr cs"
    using commit_batch_total [of bs e] Cons.prems by auto
  moreover obtain j' where "snd (commit_loop e m bss (fold m cs j)) = Inr j'"
    using Cons.IH Cons.prems by fastforce
  ultimately show ?case
    by (cases "commit_batch e bs :: 'j wio list \<times> _"; cases "commit_loop e m bss (fold m cs j)") (simp add: Let_def)
qed simp

lemma write_region_total:
  assumes "\<forall>i \<in> set items. \<exists>x. e i = Inr x" "0 < n"
  shows "\<exists>io j'. write_region e m is_done items n limit j = (io, Inr j')"
proof -
  let ?pending = "filter (\<lambda>i. \<not> is_done j i) items"
  have "\<forall>i \<in> set (concat (batches n ?pending)). \<exists>x. e i = Inr x"
    unfolding concat_batches [OF assms(2)] using assms(1) by auto
  from commit_loop_total [where m = m and j = j, OF this]
  obtain j' where j': "snd (commit_loop e m (batches n ?pending) j) = Inr j'" ..
  obtain io r where "commit_loop e m (batches n ?pending) j = (io, r)" by (meson surj_pair)
  then show ?thesis using j' by (simp add: write_region_def Let_def)
qed

definition keeps :: "('i \<Rightarrow> ((int \<times> bytes) list \<times> 'c) result) \<Rightarrow> 'i list \<Rightarrow> ('i \<times> 'c \<Rightarrow> 'j \<Rightarrow> 'j) \<Rightarrow> ('j \<Rightarrow> bool) \<Rightarrow> bool" where
  "keeps e items m Q \<longleftrightarrow> (\<forall>i c ps j. Q j \<longrightarrow> i \<in> set items \<longrightarrow> e i = Inr (ps, c) \<longrightarrow> Q (m (i, c) j))"

lemma marks_of_keeps:
  assumes "marks_of e items m j j1" "Q j" "keeps e items m Q"
  shows "Q j1"
proof -
  obtain cs where cs: "j1 = fold m cs j" "\<forall>ic \<in> set cs. encoded e items ic" using assms(1) by (auto simp: marks_of_def)
  have "Q (fold m cs j)" using cs(2) assms(2,3)
    by (induction cs arbitrary: j) (fastforce simp: encoded_def keeps_def)+
  then show ?thesis by (simp add: cs(1))
qed

lemma write_region_keeps:
  assumes "write_region e m is_done items n limit j = (io, r)" "Q j" "keeps e items m Q"
  shows "WJournal j1 \<in> set io \<Longrightarrow> Q j1" and "r = Inr j1 \<Longrightarrow> Q j1"
  using marks_of_keeps [OF _ assms(2,3)] write_region_journals [OF assms(1)] by blast+

end
