(* ===== verification/Integrity.thy ===== *)
theory Integrity
  imports Region
begin

unbundle bit_operations_syntax

text \<open>
  \<open>package/integrity.py\<close>: the table-driven CRC-32C of the pure-Python fallback, which the
  C libraries it prefers compute bit for bit, its hexadecimal form, and the crash behaviour of
  \<open>durable_replace\<close>. The table is shown equal to the bit-serial polynomial division, the
  running CRC of the validator to the CRC of the whole, and a change confined to one byte is
  shown to be detected always.
\<close>

section \<open>CRC-32C\<close>

definition crc_poly :: "32 word" where
  "crc_poly = 0x82F63B78"

definition crc_step :: "32 word \<Rightarrow> 32 word" where
  "crc_step crc = drop_bit 1 crc XOR (if crc AND 1 \<noteq> 0 then crc_poly else 0)"

definition crc32c_table :: "32 word list" where
  "crc32c_table = map (\<lambda>b. (crc_step ^^ 8) (word_of_nat b)) [0 ..< 256]"

definition crc_byte :: "32 word \<Rightarrow> byte \<Rightarrow> 32 word" where
  "crc_byte val b = crc32c_table ! unat ((val XOR ucast b) AND 0xFF) XOR drop_bit 8 val"

definition crc32c :: "bytes \<Rightarrow> 32 word \<Rightarrow> 32 word" where
  "crc32c data crc = foldl crc_byte (crc XOR 0xFFFFFFFF) data XOR 0xFFFFFFFF"

definition hex_digit :: "nat \<Rightarrow> char" where
  "hex_digit n = ''0123456789abcdef'' ! n"

text \<open>\<open>f"{value:08x}"\<close>\<close>

definition hex8 :: "32 word \<Rightarrow> string" where
  "hex8 w = map (\<lambda>i. hex_digit (unat (drop_bit (4 * i) w AND 0xF))) [7, 6, 5, 4, 3, 2, 1, 0]"

definition crc32c_hex :: "bytes \<Rightarrow> string" where
  "crc32c_hex data = hex8 (crc32c data 0)"

section \<open>The table is the polynomial division\<close>

text \<open>The reference: one byte fed bit by bit.\<close>

definition crc_byte_bits :: "32 word \<Rightarrow> byte \<Rightarrow> 32 word" where
  "crc_byte_bits val b = (crc_step ^^ 8) (val XOR ucast b)"

lemma and_1_bit: "(w AND 1 \<noteq> 0) \<longleftrightarrow> bit (w :: 32 word) 0"
  by (simp add: and_one_eq bit_0 odd_iff_mod_2_eq_one)

lemma crc_step_linear: "crc_step (a XOR b) = crc_step a XOR crc_step b"
proof -
  have "drop_bit 1 (a XOR b) = drop_bit 1 a XOR drop_bit 1 b" by simp
  moreover have "bit (a XOR b) 0 \<longleftrightarrow> bit a 0 \<noteq> bit b 0" by (simp add: bit_xor_iff)
  ultimately show ?thesis unfolding crc_step_def and_1_bit
    by (auto simp: xor.assoc xor.left_commute)
qed

lemma crc_steps_linear: "(crc_step ^^ n) (a XOR b) = (crc_step ^^ n) a XOR (crc_step ^^ n) b"
  by (induction n) (simp_all add: crc_step_linear)

lemma ff_mask: "w AND 0xFF = take_bit 8 (w :: 32 word)"
proof -
  have "(0xFF :: 32 word) = mask 8" by (simp add: mask_eq_exp_minus_1)
  then show ?thesis by (simp add: take_bit_eq_mask)
qed

lemma crc_steps_shift: "n \<le> 8 \<Longrightarrow> take_bit 8 w = 0 \<Longrightarrow> (crc_step ^^ n) w = drop_bit n w"
proof (induction n)
  case (Suc n)
  have "bit (take_bit 8 w) n = False" using Suc.prems by simp
  then have "\<not> bit (drop_bit n w) 0" using Suc.prems(1) by (simp add: bit_take_bit_iff bit_drop_bit_eq)
  then have "crc_step (drop_bit n w) = drop_bit 1 (drop_bit n w)"
    unfolding crc_step_def and_1_bit by simp
  then show ?case using Suc by simp
qed simp

lemma split_low_byte: "take_bit 8 w XOR push_bit 8 (drop_bit 8 w) = (w :: 32 word)"
  by (rule bit_word_eqI) (auto simp: bit_xor_iff bit_take_bit_iff bit_push_bit_iff bit_drop_bit_eq)

lemma crc_byte_eq: "crc_byte val b = crc_byte_bits val b"
proof -
  let ?w = "val XOR ucast b"
  have lo: "unat (take_bit 8 ?w) < 256"
    unfolding unsigned_take_bit_eq using take_bit_nat_less_exp [of 8 "unat ?w"] by simp
  have t: "crc32c_table ! unat (take_bit 8 ?w) = (crc_step ^^ 8) (take_bit 8 ?w)"
    using lo by (simp add: crc32c_table_def)
  have hi: "(crc_step ^^ 8) (push_bit 8 (drop_bit 8 ?w)) = drop_bit 8 (push_bit 8 (drop_bit 8 ?w))"
    by (rule crc_steps_shift) (simp_all add: take_bit_push_bit)
  have s: "drop_bit 8 (push_bit 8 (drop_bit 8 ?w)) = drop_bit 8 val"
    by (rule bit_word_eqI) (auto simp: bit_drop_bit_eq bit_push_bit_iff bit_xor_iff bit_ucast_iff
        dest: bit_imp_le_length)
  have "crc_byte_bits val b = (crc_step ^^ 8) (take_bit 8 ?w) XOR (crc_step ^^ 8) (push_bit 8 (drop_bit 8 ?w))"
    unfolding crc_byte_bits_def crc_steps_linear [symmetric] split_low_byte ..
  then show ?thesis unfolding crc_byte_def ff_mask t hi s by simp
qed

lemma crc32c_bits: "crc32c data crc = foldl crc_byte_bits (crc XOR 0xFFFFFFFF) data XOR 0xFFFFFFFF"
proof -
  have "crc_byte = crc_byte_bits" by (simp add: fun_eq_iff crc_byte_eq)
  then show ?thesis by (simp add: crc32c_def)
qed

text \<open>A running CRC is the CRC of the concatenation; an empty update changes nothing.\<close>

lemma crc32c_append: "crc32c (a @ b) crc = crc32c b (crc32c a crc)"
  by (simp add: crc32c_def xor.assoc)

lemma crc32c_Nil [simp]: "crc32c [] crc = crc"
  by (simp add: crc32c_def xor.assoc)

lemma crc32c_concat: "foldl (\<lambda>v row. crc32c row v) crc rows = crc32c (concat rows) crc"
  by (induction rows arbitrary: crc) (simp_all add: crc32c_append)

section \<open>Detection\<close>

text \<open>A step is invertible: the top bit of the polynomial tells whether it was applied.\<close>

lemma crc_step_inj: "inj crc_step"
proof (rule injI)
  fix a b assume e: "crc_step a = crc_step b"
  have top: "bit (crc_step w) 31 \<longleftrightarrow> bit w 0" for w
  proof -
    have p: "bit crc_poly 31" by (simp add: crc_poly_def)
    have "\<not> bit (drop_bit 1 w) 31" by (auto simp: bit_drop_bit_eq dest: bit_imp_le_length)
    then show ?thesis using p unfolding crc_step_def and_1_bit by (auto simp: bit_xor_iff)
  qed
  have b0: "bit a 0 \<longleftrightarrow> bit b 0" using top [of a] top [of b] e by simp
  have "drop_bit 1 a = drop_bit 1 b"
  proof -
    have "crc_step w XOR (if bit w 0 then crc_poly else 0) = drop_bit 1 w" for w
      unfolding crc_step_def and_1_bit by (simp add: xor.assoc)
    then show ?thesis using e b0 by metis
  qed
  then have "bit a n = bit b n" if "n \<noteq> 0" for n
  proof -
    have "bit (drop_bit 1 a) (n - 1) = bit (drop_bit 1 b) (n - 1)" using \<open>drop_bit 1 a = drop_bit 1 b\<close> by simp
    then show ?thesis using that by (simp add: bit_drop_bit_eq)
  qed
  then show "a = b" using b0 by (metis bit_word_eqI)
qed

lemma crc_steps_inj: "(crc_step ^^ n) a = (crc_step ^^ n) b \<Longrightarrow> a = b"
  by (induction n) (auto dest: injD [OF crc_step_inj])

lemma xor_cancel: "(a :: 32 word) XOR k = b XOR k \<longleftrightarrow> a = b"
proof
  assume e: "a XOR k = b XOR k"
  have c: "(w XOR k) XOR k = w" for w by (simp add: xor.assoc)
  show "a = b" using arg_cong [OF e, of "\<lambda>w. w XOR k"] unfolding c .
qed simp

lemma crc_byte_inj_state: "crc_byte v b = crc_byte w b \<Longrightarrow> v = w"
  unfolding crc_byte_eq crc_byte_bits_def by (drule crc_steps_inj) (simp only: xor_cancel)

lemma ucast_byte_inj: "ucast (b :: byte) = (ucast c :: 32 word) \<Longrightarrow> b = c"
proof (rule bit_word_eqI)
  fix n assume e: "ucast b = (ucast c :: 32 word)" and n: "n < LENGTH(8)"
  have "bit (ucast b :: 32 word) n = bit (ucast c :: 32 word) n" using e by simp
  then show "bit b n = bit c n" using n by (simp add: bit_ucast_iff)
qed

lemma crc_byte_inj_data: "crc_byte v b = crc_byte v c \<Longrightarrow> b = c"
proof -
  assume "crc_byte v b = crc_byte v c"
  then have "v XOR ucast b = v XOR ucast c"
    unfolding crc_byte_eq crc_byte_bits_def by (rule crc_steps_inj)
  then have "v XOR (v XOR ucast b) = v XOR (v XOR ucast c)" by simp
  then show ?thesis by (simp add: xor.assoc [symmetric] ucast_byte_inj)
qed

lemma crc_foldl_inj: "foldl crc_byte v data = foldl crc_byte w data \<Longrightarrow> v = w"
  by (induction data arbitrary: v w) (auto dest: crc_byte_inj_state)

lemma crc32c_single_byte:
  assumes "b \<noteq> c"
  shows "crc32c (pre @ b # post) crc \<noteq> crc32c (pre @ c # post) crc"
proof
  assume e: "crc32c (pre @ b # post) crc = crc32c (pre @ c # post) crc"
  let ?s = "foldl crc_byte (crc XOR 0xFFFFFFFF) pre"
  have "foldl crc_byte (crc_byte ?s b) post = foldl crc_byte (crc_byte ?s c) post"
    using e unfolding crc32c_def xor_cancel by simp
  then have "crc_byte ?s b = crc_byte ?s c" by (rule crc_foldl_inj)
  then show False using assms crc_byte_inj_data by blast
qed

text \<open>Comparing the hexadecimal strings compares the checksums.\<close>

lemma hex_digit_inj: "a < 16 \<Longrightarrow> b < 16 \<Longrightarrow> hex_digit a = hex_digit b \<Longrightarrow> a = b"
proof -
  have d: "distinct ''0123456789abcdef''" by simp
  assume "a < 16" "b < 16" "hex_digit a = hex_digit b"
  then show "a = b" using nth_eq_iff_index_eq [OF d, of a b] by (simp add: hex_digit_def)
qed

lemma nibble: "(w :: 32 word) AND 0xF = take_bit 4 w"
proof -
  have "(0xF :: 32 word) = mask 4" by (simp add: mask_eq_exp_minus_1)
  then show ?thesis by (simp add: take_bit_eq_mask)
qed

lemma hex8_inj:
  assumes "hex8 w = hex8 v"
  shows "w = v"
proof -
  have lt: "unat (take_bit 4 (x :: 32 word)) < 16" for x
    unfolding unsigned_take_bit_eq using take_bit_nat_less_exp [of 4 "unat x"] by simp
  have n: "take_bit 4 (drop_bit (4 * i) w) = take_bit 4 (drop_bit (4 * i) v)" if i: "i < 8" for i
  proof -
    have "i \<in> {7, 6, 5, 4, 3, 2, 1, 0}" using i by auto
    then have "hex_digit (unat (take_bit 4 (drop_bit (4 * i) w))) = hex_digit (unat (take_bit 4 (drop_bit (4 * i) v)))"
      using assms unfolding hex8_def nibble by (elim insertE emptyE) simp_all
    then show ?thesis using hex_digit_inj [OF lt lt] by (intro unsigned_word_eqI)
  qed
  show ?thesis
  proof (rule bit_word_eqI)
    fix t assume "t < LENGTH(32)"
    then have "t div 4 < 8" by simp
    then have "bit (take_bit 4 (drop_bit (4 * (t div 4)) w)) (t mod 4) = bit (take_bit 4 (drop_bit (4 * (t div 4)) v)) (t mod 4)"
      using n by simp
    then show "bit w t = bit v t" by (simp add: bit_take_bit_iff bit_drop_bit_eq)
  qed
qed

section \<open>Durable replacement\<close>

text \<open>
  The target and the temporary file beside it. \<open>dr_synced\<close> says that the temporary's bytes are
  on disk. \<open>dr_possible\<close> lists the contents the target may have after a crash (the directory
  is not synced, so a replaced file may come back), \<open>dr_torn\<close> that unsynced bytes were
  moved to the target, after which a crash may leave anything there.
\<close>

record replace_state =
  dr_target :: "bytes option"
  dr_temp :: "bytes option"
  dr_synced :: bool
  dr_possible :: "bytes option list"
  dr_torn :: bool

datatype replace_io = OpenTemp | WriteTemp bytes | FlushTemp | FsyncTemp | ReplaceTarget

definition replace_step :: "replace_io \<Rightarrow> replace_state \<Rightarrow> replace_state" where
  "replace_step op s = (case op of
     OpenTemp \<Rightarrow> s\<lparr>dr_temp := Some [], dr_synced := False\<rparr>
   | WriteTemp data \<Rightarrow> s\<lparr>dr_temp := map_option (\<lambda>b. b @ data) (dr_temp s), dr_synced := False\<rparr>
   | FlushTemp \<Rightarrow> s
   | FsyncTemp \<Rightarrow> s\<lparr>dr_synced := True\<rparr>
   | ReplaceTarget \<Rightarrow> s\<lparr>dr_target := dr_temp s, dr_temp := None,
        dr_possible := dr_temp s # dr_possible s, dr_torn := dr_torn s \<or> \<not> dr_synced s\<rparr>)"

definition durable_replace :: "bytes \<Rightarrow> replace_io list" where
  "durable_replace payload = [OpenTemp, WriteTemp payload, FlushTemp, FsyncTemp, ReplaceTarget]"

text \<open>A crash after any number of steps.\<close>

definition crash_target :: "replace_state \<Rightarrow> bytes option \<Rightarrow> bool" where
  "crash_target s c \<longleftrightarrow> dr_torn s \<or> c \<in> set (dr_possible s)"

definition settled :: "bytes option \<Rightarrow> replace_state" where
  "settled old = \<lparr>dr_target = old, dr_temp = None, dr_synced = False, dr_possible = [old], dr_torn = False\<rparr>"

lemma prefix_of_5:
  "n \<le> 5 \<Longrightarrow> n \<in> {0, 1, 2, 3, 4, 5 :: nat}"
  by auto

lemma durable_replace_crash:
  assumes "crash_target (fold replace_step (take n (durable_replace payload)) (settled old)) c"
  shows "c = old \<or> c = Some payload"
proof -
  define m where "m = min n 5"
  have t: "take n (durable_replace payload) = take m (durable_replace payload)"
    by (simp add: durable_replace_def m_def min_def)
  have "m \<in> {0, 1, 2, 3, 4, 5}" by (rule prefix_of_5) (simp add: m_def)
  then show ?thesis using assms unfolding t
    by (elim insertE emptyE)
      (auto simp: durable_replace_def replace_step_def settled_def crash_target_def eval_nat_numeral)
qed

lemma durable_replace_done: "dr_target (fold replace_step (durable_replace payload) (settled old)) = Some payload"
  by (simp add: durable_replace_def replace_step_def settled_def)

section \<open>Properties\<close>

text \<open>C28: The table-driven checksum is CRC-32C as defined: the polynomial division of the message bit
  by bit (reflected polynomial 0x82F63B78, initial value and final xor of all ones), and
  continuing it over chunks is the checksum of their concatenation.\<close>

theorem crc32c_is_division:
  "foldl (\<lambda>v row. crc32c row v) crc rows =
     foldl (\<lambda>v b. (crc_step ^^ 8) (v XOR ucast b)) (crc XOR 0xFFFFFFFF) (concat rows) XOR 0xFFFFFFFF"
proof -
  have "crc_byte_bits = (\<lambda>v b. (crc_step ^^ 8) (v XOR ucast b))" by (simp add: fun_eq_iff crc_byte_bits_def)
  then show ?thesis unfolding crc32c_concat by (simp only: crc32c_bits)
qed

text \<open>C29: A payload that differs from the recorded one in any single byte always fails the checksum
  comparison, which compares hexadecimal strings.\<close>

theorem crc32c_detects_byte:
  assumes "b \<noteq> c"
  shows "crc32c_hex (pre @ b # post) \<noteq> crc32c_hex (pre @ c # post)"
  using crc32c_single_byte [OF assms, of pre post 0] hex8_inj by (auto simp: crc32c_hex_def)

theorem crc32c_detects_byte_witness: "crc32c_hex [1, 2, 3] \<noteq> crc32c_hex [1, 7, 3]"
  using crc32c_detects_byte [of 2 7 "[1]" "[3]"] by simp

text \<open>C30: A crash during \<open>durable_replace\<close> leaves the old file or the complete new one, never a
  mixture or an empty file, and a call that returns has replaced it.\<close>

theorem durable_replace_atomic:
  "dr_target (fold replace_step (durable_replace payload) (settled old)) = Some payload \<and>
   \<not> dr_torn (fold replace_step (take n (durable_replace payload)) (settled old)) \<and>
   set (dr_possible (fold replace_step (take n (durable_replace payload)) (settled old))) \<subseteq> {old, Some payload}"
proof -
  let ?s = "fold replace_step (take n (durable_replace payload)) (settled old)"
  have c: "crash_target ?s c \<Longrightarrow> c = old \<or> c = Some payload" for c by (rule durable_replace_crash)
  have "\<not> dr_torn ?s"
    using c [of None] c [of "Some []"] c [of "Some [0]"] by (auto simp: crash_target_def)
  then show ?thesis using c durable_replace_done by (auto simp: crash_target_def)
qed

end
