(* ===== verification/Writer.thy ===== *)
theory Writer
  imports Plan Tiler Commit Integrity
begin

text \<open>
  \<open>package/writer.py\<close> with the RTN backend: encoding of work items, the bounded download
  feed, the journal, the three region writers on top of the commit loop, the PLE index, the
  metadata files and \<open>build\<close>. The reader, torch's rounding, SHA-256 and the JSON
  serialisation are parameters; callbacks, timings and the measured VRAM peak are left out.
\<close>

section \<open>Inputs\<close>

text \<open>A tensor: its torch dtype, its shape and its values in row-major order.\<close>

record tensor =
  tn_dtype :: string
  tn_shape :: "int list"
  tn_data :: "rat list"

text \<open>A reader is local when it has a \<open>root_dir\<close>; \<open>get_slice\<close> is then the whole tensor behind
  the memory-mapped handle of a shard.\<close>

record reader =
  rd_is_local :: bool
  rd_read_tensor :: "tensor_address \<Rightarrow> tensor result"
  rd_get_slice :: "string \<Rightarrow> string \<Rightarrow> tensor result"
  rd_asset :: "string \<Rightarrow> bytes option"

text \<open>What \<open>plan_fingerprint\<close> serialises.\<close>

record fingerprint_material =
  fm_source :: string
  fm_source_revision :: "string option"
  fm_features :: "capability list"
  fm_precision :: "(component, precision_entry_dump) odict"
  fm_profile :: string
  fm_complete_model :: bool
  fm_codecs :: "(string, codec_spec) odict"
  fm_dense :: "(string \<times> int \<times> int) list"
  fm_experts :: "expert_layout option"
  fm_ple_rows :: int
  fm_ple_row :: "ple_row_layout option"

record writer =
  wr_plan :: build_plan
  wr_reader :: reader
  wr_budget :: memory_budget
  wr_method :: string
  wr_resume :: bool
  wr_download_workers :: int
  wr_torch :: torch_quant
  wr_sha :: "fingerprint_material \<Rightarrow> string"
  wr_file_sha :: "bytes \<Rightarrow> string"

definition plan_material :: "build_plan \<Rightarrow> fingerprint_material" where
  "plan_material p = (let m = bp_manifest p; ple = bp_ple p in
     \<lparr>fm_source = pm_source_model m, fm_source_revision = pm_source_revision m,
       fm_features = pm_features m, fm_precision = pm_precision_map m, fm_profile = pm_build_profile m,
       fm_complete_model = pm_complete_model m, fm_codecs = sort_key fst (pm_codecs m),
       fm_dense = map (\<lambda>d. (de_name d, de_byte_offset d, de_packed_bytes d)) (pm_dense m),
       fm_experts = pm_expert_layout m, fm_ple_rows = (case ple of None \<Rightarrow> 0 | Some p \<Rightarrow> pp_total_rows p),
       fm_ple_row = map_option pp_row ple\<rparr>)"

definition plan_fingerprint :: "writer \<Rightarrow> string" where
  "plan_fingerprint w = wr_sha w (plan_material (wr_plan w))"

definition writer_init :: "writer \<Rightarrow> writer result" where
  "writer_init w =
     (if wr_download_workers w < 1 then Inl ValueError
      else if \<exists>c \<in> set (map snd (pm_codecs (bp_manifest (wr_plan w)))).
          cd_method c \<noteq> ''raw'' \<and> cd_method c \<noteq> wr_method w then Inl WriteError
      else Inr w)"

section \<open>The journal\<close>

text \<open>\<open>existing\<close> is the journal the file parses to, \<open>None\<close> for a missing or unreadable file.\<close>

definition missing_checksums :: "build_journal \<Rightarrow> bool" where
  "missing_checksums j \<longleftrightarrow>
     \<not> set (bj_dense_done j) \<subseteq> set (od_keys (bj_dense_checksums j)) \<or>
     \<not> set (map py_str (bj_expert_done j)) \<subseteq> set (od_keys (bj_expert_checksums j)) \<or>
     \<not> set (map py_str (bj_ple_done j)) \<subseteq> set (od_keys (bj_ple_checksums j))"

definition load_journal :: "writer \<Rightarrow> build_journal option \<Rightarrow> build_journal result" where
  "load_journal w existing =
     (let fingerprint = plan_fingerprint w in
      case (if wr_resume w then existing else None) of
        None \<Rightarrow> Inr (empty_journal fingerprint)
      | Some j \<Rightarrow>
          if bj_plan_fingerprint j \<noteq> fingerprint then Inl WriteError
          else if missing_checksums j then Inl WriteError
          else Inr j)"

definition ple_shards :: "build_plan \<Rightarrow> ple_shard_item list" where
  "ple_shards p = (case bp_ple p of None \<Rightarrow> [] | Some ple \<Rightarrow> pp_shards ple)"

definition dense_done :: "build_journal \<Rightarrow> dense_work_item \<Rightarrow> bool" where
  "dense_done j i \<longleftrightarrow> ta_name (dw_address i) \<in> set (bj_dense_done j)"

definition expert_done :: "build_journal \<Rightarrow> expert_work_item \<Rightarrow> bool" where
  "expert_done j i \<longleftrightarrow> ew_record_index i \<in> set (bj_expert_done j)"

definition shard_done :: "build_journal \<Rightarrow> ple_shard_item \<Rightarrow> bool" where
  "shard_done j i \<longleftrightarrow> pw_shard_index i \<in> set (bj_ple_done j)"

definition mark_dense :: "dense_work_item \<times> item_checksum \<Rightarrow> build_journal \<Rightarrow> build_journal" where
  "mark_dense ic j = (case ic of (i, c) \<Rightarrow>
     j\<lparr>bj_dense_done := bj_dense_done j @ [ta_name (dw_address i)],
       bj_dense_checksums := od_set (bj_dense_checksums j) (ta_name (dw_address i)) c\<rparr>)"

definition mark_expert :: "expert_work_item \<times> item_checksum \<Rightarrow> build_journal \<Rightarrow> build_journal" where
  "mark_expert ic j = (case ic of (i, c) \<Rightarrow>
     j\<lparr>bj_expert_done := bj_expert_done j @ [ew_record_index i],
       bj_expert_checksums := od_set (bj_expert_checksums j) (py_str (ew_record_index i)) c\<rparr>)"

definition mark_shard :: "ple_shard_item \<times> item_checksum \<Rightarrow> build_journal \<Rightarrow> build_journal" where
  "mark_shard ic j = (case ic of (i, c) \<Rightarrow>
     j\<lparr>bj_ple_done := bj_ple_done j @ [pw_shard_index i],
       bj_ple_checksums := od_set (bj_ple_checksums j) (py_str (pw_shard_index i)) c\<rparr>)"

record resume_status =
  rs_items_completed :: int
  rs_total_items :: int
  rs_source_bytes_completed :: int
  rs_total_source_bytes :: int
  rs_finished :: bool

definition resume_status_of :: "writer \<Rightarrow> build_journal option \<Rightarrow> resume_status result" where
  "resume_status_of w existing =
     bindE (load_journal w existing) (\<lambda>j.
     let plan = wr_plan w;
         d = filter (dense_done j) (bp_dense plan);
         e = filter (expert_done j) (bp_experts plan);
         p = filter (shard_done j) (ple_shards plan) in
     Inr \<lparr>rs_items_completed = int (length d) + int (length e) + int (length p),
          rs_total_items = num_work_items plan,
          rs_source_bytes_completed = sum_list (map (\<lambda>i. ta_size_bytes (dw_address i)) d) +
            sum_list (map (\<lambda>i. es_source_bytes (ew_slice i)) e) +
            sum_list (map (\<lambda>i. ta_size_bytes (pw_address i)) p),
          rs_total_source_bytes = source_read_bytes plan, rs_finished = bj_finished j\<rparr>)"

text \<open>\<open>free\<close> bytes on the volume, \<open>existing\<close> bytes of region files.\<close>

definition preflight_disk_space :: "build_plan \<Rightarrow> int \<Rightarrow> int \<Rightarrow> unit result" where
  "preflight_disk_space plan free existing =
     (let required = py_int (fmul (fof (pt_total_bytes (pm_totals (bp_manifest plan)))) (fl (115 / 100)));
          available = free + existing in
      if available < required then Inl WriteError else Inr ())"

section \<open>Reading\<close>

text \<open>\<open>view[i]\<close> of the leading axis and \<open>.view(*shape)\<close>.\<close>

definition index_axis0 :: "tensor \<Rightarrow> int \<Rightarrow> tensor result" where
  "index_axis0 t i = (case tn_shape t of
     [] \<Rightarrow> Inl IndexError
   | n # rest \<Rightarrow>
       let j = (if i < 0 then i + n else i); per = nat (prod_list rest) in
       if \<not> (0 \<le> j \<and> j < n) then Inl IndexError
       else Inr (t\<lparr>tn_shape := rest, tn_data := take per (drop (nat j * per) (tn_data t))\<rparr>))"

definition reshape :: "tensor \<Rightarrow> int list \<Rightarrow> tensor result" where
  "reshape t shape =
     (if prod_list shape \<noteq> int (length (tn_data t)) then Inl RuntimeError else Inr (t\<lparr>tn_shape := shape\<rparr>))"

definition read_local_slice :: "reader \<Rightarrow> source_slice \<Rightarrow> tensor result" where
  "read_local_slice r source =
     bindE (rd_get_slice r (ss_shard source) (ss_tensor source)) (\<lambda>view.
     bindE (case ss_expert_index source of None \<Rightarrow> Inr view | Some i \<Rightarrow> index_axis0 view i) (\<lambda>data.
     let data' = (if tn_dtype data = ''float8_e4m3fn'' \<or> tn_dtype data = ''float8_e5m2''
       then data\<lparr>tn_dtype := ''float16''\<rparr> else data) in
     reshape data' (ss_shape source)))"

definition slice_address :: "source_slice \<Rightarrow> tensor_address" where
  "slice_address s = \<lparr>ta_name = ss_tensor s, ta_shard = ss_shard s, ta_dtype = ss_dtype s, ta_shape = ss_shape s,
     ta_byte_start = ss_byte_start s, ta_byte_end = ss_byte_end s, ta_num_params = ss_num_params s,
     ta_size_bytes = ss_size_bytes s\<rparr>"

definition read_slice :: "reader \<Rightarrow> source_slice \<Rightarrow> tensor result" where
  "read_slice r source =
     (if rd_is_local r then read_local_slice r source else rd_read_tensor r (slice_address source))"

section \<open>The download feed\<close>

definition SOURCE_STAGING_COPIES :: int where
  "SOURCE_STAGING_COPIES = 2"

definition reservation :: "dense_work_item \<Rightarrow> int" where
  "reservation i = max 1 (ta_size_bytes (dw_address i) * SOURCE_STAGING_COPIES)"

record feed =
  fd_remaining :: "dense_work_item list"
  fd_inflight :: "(dense_work_item \<times> int) list"
  fd_reserved :: int
  fd_peak :: int

fun submit_available :: "int \<Rightarrow> int \<Rightarrow> dense_work_item list \<Rightarrow> (dense_work_item \<times> int) list \<Rightarrow> int \<Rightarrow> int \<Rightarrow>
    feed result" where
  "submit_available limit workers [] inflight reserved peak =
     Inr \<lparr>fd_remaining = [], fd_inflight = inflight, fd_reserved = reserved, fd_peak = peak\<rparr>"
| "submit_available limit workers (item # rest) inflight reserved peak =
     (let stop = \<lparr>fd_remaining = item # rest, fd_inflight = inflight, fd_reserved = reserved, fd_peak = peak\<rparr>;
          r = reservation item in
      if \<not> int (length inflight) < workers then Inr stop
      else if limit < r then Inl WriteError
      else if inflight \<noteq> [] \<and> limit < reserved + r then Inr stop
      else submit_available limit workers rest (inflight @ [(item, r)]) (reserved + r) (max peak (reserved + r)))"

lemma submit_length:
  "submit_available limit workers rest inflight reserved peak = Inr f \<Longrightarrow>
     length (fd_remaining f) + length (fd_inflight f) = length rest + length inflight"
  by (induction limit workers rest inflight reserved peak rule: submit_available.induct)
    (auto simp: Let_def split: if_splits)

text \<open>The items the generator yields, the exception it ends with and the peak reservation. The
  consumer is done with an item before the next download is submitted.\<close>

function feed_loop :: "int \<Rightarrow> int \<Rightarrow> feed \<Rightarrow> dense_work_item list \<times> py_error option \<times> int" where
  "feed_loop limit workers f =
     (case fd_inflight f of
        [] \<Rightarrow> ([], None, fd_peak f)
      | (item, r) # inflight \<Rightarrow>
          (case submit_available limit workers (fd_remaining f) inflight (fd_reserved f - r) (fd_peak f) of
             Inl e \<Rightarrow> ([item], Some e, fd_peak f)
           | Inr f' \<Rightarrow> (case feed_loop limit workers f' of (items, e, peak) \<Rightarrow> (item # items, e, peak))))"
  by pat_completeness auto
termination
  by (relation "measure (\<lambda>(_, _, f). length (fd_remaining f) + length (fd_inflight f))") (auto dest: submit_length)

declare feed_loop.simps [simp del]

definition iter_dense :: "writer \<Rightarrow> dense_work_item list \<Rightarrow> dense_work_item list \<times> py_error option \<times> int" where
  "iter_dense w pending =
     (if rd_is_local (wr_reader w) \<or> wr_download_workers w = 1 then (pending, None, 0)
      else
        let staging_limit = py_int (fmul (fmul (mb_max_cpu_staging_mb (wr_budget w)) 1024) 1024) in
        if staging_limit \<le> 0 then ([], Some WriteError, 0)
        else case submit_available staging_limit (wr_download_workers w) pending [] 0 0 of
          Inl e \<Rightarrow> ([], Some e, 0)
        | Inr f \<Rightarrow> feed_loop staging_limit (wr_download_workers w) f)"

section \<open>Encoding\<close>

text \<open>\<open>_quantize\<close>: at 16 bits and more there is no quantized result.\<close>

definition quantize_weight :: "writer \<Rightarrow> tensor \<Rightarrow> pyfloat \<Rightarrow> int \<Rightarrow> bool \<Rightarrow> quantized option result" where
  "quantize_weight w t bits group_size symmetric =
     (if 16 \<le> bits then Inr None
      else bindE (quantize_matrix (wr_torch w) (wr_budget w) (13 / 2) (tn_dtype t) (py_int bits) group_size symmetric
             (tn_shape t) (map (rnd32 (wr_torch w)) (tn_data t))) (\<lambda>q. Inr (Some q)))"

text \<open>A section of a missing result is an attribute of \<open>None\<close>.\<close>

definition result_sections :: "quantized option \<Rightarrow> section_span list \<Rightarrow> bytes result" where
  "result_sections r spans =
     (case r of Some q \<Rightarrow> sections_to_bytes q spans
      | None \<Rightarrow> if spans = [] then Inr [] else Inl AttributeError)"

definition encode_dense :: "writer \<Rightarrow> dense_work_item \<Rightarrow> tensor \<Rightarrow> bytes result" where
  "encode_dense w item t =
     (if 16 \<le> dw_bits item then
        let raw = concat (map (\<lambda>x. half_bytes (to_half (wr_torch w) x)) (tn_data t)) in
        (case dw_spans item of
           [] \<Rightarrow> Inl IndexError
         | s # _ \<Rightarrow> if int (length raw) \<noteq> sp_length s then Inl WriteError else Inr raw)
      else
        let matrix = (if 2 \<le> length (tn_shape t) then t
          else t\<lparr>tn_shape := [1, int (length (tn_data t))]\<rparr>) in
        bindE (quantize_weight w matrix (dw_bits item) (dw_group_size item) (dw_symmetric item)) (\<lambda>q.
        result_sections q (dw_spans item)))"

definition encode_projection :: "writer \<Rightarrow> record_layout \<Rightarrow> source_slice \<Rightarrow> bytes \<Rightarrow> bytes result" where
  "encode_projection w rec source payload =
     (case find_projection (rl_projections rec) (ss_projection source) of
        None \<Rightarrow> Inl WriteError
      | Some p \<Rightarrow>
          bindE (read_slice (wr_reader w) source) (\<lambda>weight.
          bindE (quantize_weight w weight (pl_bits p) (pl_group_size p) (pl_symmetric p)) (\<lambda>q.
          bindE (result_sections q (pl_spans p)) (\<lambda>raw. Inr (payload @ raw)))))"

definition encode_expert :: "writer \<Rightarrow> record_layout \<Rightarrow> expert_work_item \<Rightarrow> bytes result" where
  "encode_expert w rec item =
     bindE (foldE (encode_projection w rec) (es_projections (ew_slice item)) []) (\<lambda>payload.
     if int (length payload) \<noteq> rl_payload_bytes rec then Inl WriteError else Inr payload)"

text \<open>A column of the shard: one section, cut into one piece per row.\<close>

definition shard_column :: "quantized option \<Rightarrow> int \<Rightarrow> section_span \<Rightarrow> (nat \<Rightarrow> bytes) result" where
  "shard_column r num_rows s =
     (case r of
        None \<Rightarrow> Inl AttributeError
      | Some q \<Rightarrow>
          bindE (section_bytes q (sp_section s)) (\<lambda>raw.
          if int (length raw) \<noteq> num_rows * sp_length s then Inl WriteError
          else Inr (\<lambda>k. take (nat (sp_length s)) (drop (k * nat (sp_length s)) raw))))"

definition encode_ple_shard :: "writer \<Rightarrow> ple_row_layout \<Rightarrow> section_span list \<Rightarrow> ple_shard_item \<Rightarrow> bytes result" where
  "encode_ple_shard w row row_spans shard =
     bindE (rd_read_tensor (wr_reader w) (pw_address shard)) (\<lambda>t.
     bindE (quantize_weight w t (pr_bits row) (pr_group_size row) (pr_symmetric row)) (\<lambda>q.
     bindE (mapE (shard_column q (pw_num_rows shard)) row_spans) (\<lambda>columns.
     let block = concat (map (\<lambda>k. concat (map (\<lambda>column. column k) columns)) [0 ..< nat (pw_num_rows shard)]) in
     if int (length block) \<noteq> pw_num_rows shard * pr_payload_bytes row then Inl WriteError else Inr block)))"

section \<open>Work items as pieces of their region\<close>

text \<open>A seek to a negative address raises before anything of the item is written.\<close>

definition at_offsets :: "(int \<times> bytes) list \<Rightarrow> item_checksum \<Rightarrow> ((int \<times> bytes) list \<times> item_checksum) result" where
  "at_offsets pieces c = (if \<exists>(off, data) \<in> set pieces. off < 0 then Inl OSError else Inr (pieces, c))"

definition dense_pieces :: "writer \<Rightarrow> dense_work_item \<Rightarrow> ((int \<times> bytes) list \<times> item_checksum) result" where
  "dense_pieces w item =
     bindE (rd_read_tensor (wr_reader w) (dw_address item)) (\<lambda>t.
     bindE (encode_dense w item t) (\<lambda>payload.
     at_offsets [(dw_byte_offset item, payload)]
       \<lparr>ic_value = crc32c_hex payload, ic_offset = Some (dw_byte_offset item), ic_length = int (length payload),
        ic_first_row = None, ic_num_rows = None\<rparr>))"

definition expert_pieces :: "writer \<Rightarrow> record_layout \<Rightarrow> expert_work_item \<Rightarrow>
    ((int \<times> bytes) list \<times> item_checksum) result" where
  "expert_pieces w rec item =
     bindE (encode_expert w rec item) (\<lambda>payload.
     at_offsets [(ew_bank_offset item, payload)]
       \<lparr>ic_value = crc32c_hex payload, ic_offset = Some (ew_bank_offset item), ic_length = int (length payload),
        ic_first_row = None, ic_num_rows = None\<rparr>)"

definition row_pieces :: "ple_row_layout \<Rightarrow> ple_shard_item \<Rightarrow> bytes \<Rightarrow> (int \<times> bytes) list" where
  "row_pieces row shard block =
     map (\<lambda>k. (row_offset row (pw_first_row shard + int k),
        py_slice block (int k * pr_payload_bytes row) (int k * pr_payload_bytes row + pr_payload_bytes row)))
       [0 ..< nat (pw_num_rows shard)]"

definition shard_pieces :: "writer \<Rightarrow> ple_plan \<Rightarrow> ple_shard_item \<Rightarrow> ((int \<times> bytes) list \<times> item_checksum) result" where
  "shard_pieces w ple shard =
     (let row = pp_row ple in
      bindE (section_spans [1, pr_row_width row] (pr_bits row) (pr_group_size row) (pr_symmetric row) 2 2) (\<lambda>row_spans.
      bindE (encode_ple_shard w row row_spans shard) (\<lambda>block.
      at_offsets (row_pieces row shard block)
        \<lparr>ic_value = crc32c_hex block, ic_offset = None, ic_length = int (length block),
         ic_first_row = Some (pw_first_row shard), ic_num_rows = Some (pw_num_rows shard)\<rparr>)))"

section \<open>The region writers\<close>

type_synonym region_run = "build_journal wio list \<times> build_journal result"

definition EXPERT_BATCH_ITEMS :: nat where
  "EXPERT_BATCH_ITEMS = 64"

text \<open>The dense loop takes its items from the feed; an exception of the feed ends it.\<close>

definition write_dense :: "writer \<Rightarrow> build_journal \<Rightarrow> region_run" where
  "write_dense w j =
     (let pending = filter (\<lambda>i. \<not> dense_done j i) (bp_dense (wr_plan w)) in
      if pending = [] then ([], Inr j)
      else case iter_dense w pending of (yielded, err, peak) \<Rightarrow>
        (case commit_loop (dense_pieces w) mark_dense (batches 1 yielded) j of (io, r) \<Rightarrow>
           (WPreallocate (pt_dense_bytes (pm_totals (bp_manifest (wr_plan w)))) # io,
            bindE r (\<lambda>j'. case err of None \<Rightarrow> Inr j' | Some e \<Rightarrow> Inl e))))"

definition write_experts :: "writer \<Rightarrow> build_journal \<Rightarrow> region_run" where
  "write_experts w j =
     (case pm_expert_layout (bp_manifest (wr_plan w)) of
        None \<Rightarrow> ([], Inr j)
      | Some lay \<Rightarrow>
          write_region (expert_pieces w (el_record lay)) mark_expert expert_done (bp_experts (wr_plan w))
            EXPERT_BATCH_ITEMS (el_total_bytes lay) j)"

definition write_ple :: "writer \<Rightarrow> build_journal \<Rightarrow> region_run" where
  "write_ple w j =
     (case bp_ple (wr_plan w) of
        None \<Rightarrow> ([], Inr j)
      | Some ple \<Rightarrow>
          if filter (\<lambda>s. \<not> shard_done j s) (pp_shards ple) = [] then ([], Inr j)
          else case pp_total_bytes ple of
            Inl e \<Rightarrow> ([], Inl e)
          | Inr n \<Rightarrow> write_region (shard_pieces w ple) mark_shard shard_done (pp_shards ple) 1 n j)"

text \<open>The first and last numbers of a region writer's result.\<close>

definition io_written :: "'j wio list \<Rightarrow> int" where
  "io_written io = sum_list (map (\<lambda>op. case op of WWrite off data \<Rightarrow> int (length data) | _ \<Rightarrow> 0) io)"

definition skipped_items :: "writer \<Rightarrow> build_journal \<Rightarrow> int" where
  "skipped_items w j = int (length (filter (dense_done j) (bp_dense (wr_plan w)))) +
     (if pm_expert_layout (bp_manifest (wr_plan w)) = None then 0
      else int (length (filter (expert_done j) (bp_experts (wr_plan w))))) +
     int (length (filter (shard_done j) (ple_shards (wr_plan w))))"

section \<open>The PLE index\<close>

datatype ple_index_key = LAYER_MULTIPLIERS | HEADS_OFFSETS | HEADS_VOCAB_SIZES

definition ple_index_key_of :: "string \<Rightarrow> ple_index_key option" where
  "ple_index_key_of name =
     (if str_endswith name ''layer_multipliers'' then Some LAYER_MULTIPLIERS
      else if str_endswith name ''ngram_heads_offsets'' then Some HEADS_OFFSETS
      else if str_endswith name ''ngram_heads_vocab_sizes'' then Some HEADS_VOCAB_SIZES
      else None)"

definition read_index_tensor :: "reader \<Rightarrow> tensor_address \<Rightarrow> (ple_index_key, int list) odict \<Rightarrow>
    (ple_index_key, int list) odict result" where
  "read_index_tensor r a found =
     (case ple_index_key_of (ta_name a) of
        None \<Rightarrow> Inr found
      | Some key \<Rightarrow>
          bindE (rd_read_tensor r a) (\<lambda>t.
          if tn_dtype t \<noteq> ''int64'' then Inl WriteError
          else Inr (od_set found key (map floor (tn_data t)))))"

definition materialize_ple_index :: "writer \<Rightarrow> ple_index option result" where
  "materialize_ple_index w =
     (case bp_ple (wr_plan w) of
        None \<Rightarrow> Inr (pm_ple_index (bp_manifest (wr_plan w)))
      | Some ple \<Rightarrow>
          bindE (foldE (read_index_tensor (wr_reader w)) (pp_index_tensors ple) []) (\<lambda>found.
          case (od_get found HEADS_OFFSETS, od_get found HEADS_VOCAB_SIZES, od_get found LAYER_MULTIPLIERS) of
            (Some offsets, Some vocab_sizes, Some multipliers) \<Rightarrow>
              bindE (build_ple_index ple (pp_ngram_size ple) offsets vocab_sizes multipliers) (\<lambda>ix. Inr (Some ix))
          | _ \<Rightarrow> Inl WriteError))"

end
