(* ===== verification/Build.thy ===== *)
theory Build
  imports Writer
begin

text \<open>
  \<open>PackageWriter.build\<close>: the three region files, the journal and the metadata files as one
  package directory, and the build as the list of operations it performs on it together with
  its outcome. A JSON document is the value it serialises, and replacing a file is one step,
  which the atomicity of \<open>durable_replace\<close> in \<open>Integrity\<close> justifies.
\<close>

section \<open>The package directory\<close>

datatype region = DENSE_REGION | EXPERT_REGION | PLE_REGION

datatype meta_file =
    AssetFile string bytes | ExpertLayoutFile expert_layout | PleIndexFile ple_index
  | ChecksumsFile package_checksums | ManifestFile package_manifest

record region_file =
  rf_bytes :: bytes
  rf_synced :: nat
  rf_dirty :: "(int \<times> int) list"

record package_disk =
  pk_file :: "region \<Rightarrow> region_file option"
  pk_journal :: "build_journal option"
  pk_meta :: "meta_file list"

definition region_view :: "region \<Rightarrow> package_disk \<Rightarrow> build_journal region_disk" where
  "region_view r pk =
     (case pk_file pk r of
        None \<Rightarrow> \<lparr>rd_bytes = [], rd_synced = 0, rd_dirty = [], rd_journal = pk_journal pk\<rparr>
      | Some f \<Rightarrow> \<lparr>rd_bytes = rf_bytes f, rd_synced = rf_synced f, rd_dirty = rf_dirty f,
                   rd_journal = pk_journal pk\<rparr>)"

definition set_view :: "region \<Rightarrow> build_journal region_disk \<Rightarrow> package_disk \<Rightarrow> package_disk" where
  "set_view r d pk = pk\<lparr>pk_file := (pk_file pk)(r \<mapsto>
     \<lparr>rf_bytes = rd_bytes d, rf_synced = rd_synced d, rf_dirty = rd_dirty d\<rparr>), pk_journal := rd_journal d\<rparr>"

datatype package_io = RegionIO region "build_journal wio" | JournalIO build_journal | MetaIO meta_file

definition exec_pkg :: "package_io \<Rightarrow> package_disk \<Rightarrow> package_disk" where
  "exec_pkg op pk = (case op of
     RegionIO r wio \<Rightarrow> set_view r (exec_wio wio (region_view r pk)) pk
   | JournalIO j \<Rightarrow> pk\<lparr>pk_journal := Some j\<rparr>
   | MetaIO f \<Rightarrow> pk\<lparr>pk_meta := pk_meta pk @ [f]\<rparr>)"

section \<open>Regions in order\<close>

fun run_regions :: "(region \<times> (build_journal \<Rightarrow> region_run)) list \<Rightarrow> build_journal \<Rightarrow>
    package_io list \<times> build_journal result" where
  "run_regions [] j = ([], Inr j)"
| "run_regions ((r, f) # rest) j =
     (case f j of (io, res) \<Rightarrow>
        (case res of
           Inl e \<Rightarrow> (map (RegionIO r) io, Inl e)
         | Inr j' \<Rightarrow> (case run_regions rest j' of (io', res') \<Rightarrow> (map (RegionIO r) io @ io', res'))))"

definition region_writers :: "writer \<Rightarrow> (region \<times> (build_journal \<Rightarrow> region_run)) list" where
  "region_writers w = [(DENSE_REGION, write_dense w), (EXPERT_REGION, write_experts w), (PLE_REGION, write_ple w)]"

section \<open>Metadata\<close>

definition TOKENIZER_ASSETS :: "string list" where
  "TOKENIZER_ASSETS = [''tokenizer.json'', ''tokenizer_config.json'', ''vocab.json'', ''merges.txt'',
     ''special_tokens_map.json'', ''added_tokens.json'', ''chat_template.jinja'']"

definition copy_runtime_assets :: "reader \<Rightarrow> meta_file list result" where
  "copy_runtime_assets r =
     (case rd_asset r ''config.json'' of
        None \<Rightarrow> Inl WriteError
      | Some payload \<Rightarrow> Inr (AssetFile ''config.json'' payload #
          List.map_filter (\<lambda>n. map_option (AssetFile n) (rd_asset r n)) (''generation_config.json'' # TOKENIZER_ASSETS)))"

definition region_path :: "region \<Rightarrow> string" where
  "region_path r = (case r of DENSE_REGION \<Rightarrow> ''dense/blob.bin'' | EXPERT_REGION \<Rightarrow> ''experts/bank.bin''
     | PLE_REGION \<Rightarrow> ''ple/table.bin'')"

definition region_name :: "region \<Rightarrow> string" where
  "region_name r = (case r of DENSE_REGION \<Rightarrow> ''dense'' | EXPERT_REGION \<Rightarrow> ''experts'' | PLE_REGION \<Rightarrow> ''ple'')"

definition region_entry :: "writer \<Rightarrow> package_disk \<Rightarrow> region \<Rightarrow> (string \<times> region_integrity) option" where
  "region_entry w pk r = map_option (\<lambda>f. (region_name r,
     \<lparr>ri_path = region_path r, ri_size_bytes = int (length (rf_bytes f)), ri_sha256 = Some (wr_file_sha w (rf_bytes f))\<rparr>))
     (pk_file pk r)"

definition final_manifest :: "writer \<Rightarrow> package_disk \<Rightarrow> ple_index option \<Rightarrow> package_manifest" where
  "final_manifest w pk ix =
     (bp_manifest (wr_plan w))\<lparr>pm_ple_index := ix,
        pm_regions := List.map_filter (region_entry w pk) [DENSE_REGION, EXPERT_REGION, PLE_REGION]\<rparr>"

definition write_metadata :: "writer \<Rightarrow> package_disk \<Rightarrow> ple_index option \<Rightarrow> build_journal \<Rightarrow>
    meta_file list \<times> unit result" where
  "write_metadata w pk ix j =
     (case copy_runtime_assets (wr_reader w) of
        Inl e \<Rightarrow> ([], Inl e)
      | Inr assets \<Rightarrow>
          let layout = (case pm_expert_layout (bp_manifest (wr_plan w)) of None \<Rightarrow> [] | Some l \<Rightarrow> [ExpertLayoutFile l]);
              checksums = ChecksumsFile \<lparr>pc_dense = bj_dense_checksums j, pc_experts = bj_expert_checksums j,
                pc_ple = bj_ple_checksums j\<rparr>;
              manifest = ManifestFile (final_manifest w pk ix) in
          (case ix of
             Some i \<Rightarrow> (assets @ layout @ [PleIndexFile i, checksums, manifest], Inr ())
           | None \<Rightarrow> if bp_ple (wr_plan w) \<noteq> None then (assets @ layout, Inl WriteError)
                    else (assets @ layout @ [checksums, manifest], Inr ())))"

section \<open>The build\<close>

record build_outcome =
  bo_finished :: bool
  bo_items_written :: int
  bo_items_skipped :: int
  bo_bytes_written :: int
  bo_peak_inflight_source_bytes :: int
  bo_download_workers :: int

definition peak_inflight :: "writer \<Rightarrow> build_journal \<Rightarrow> int" where
  "peak_inflight w j =
     (let pending = filter (\<lambda>i. \<not> dense_done j i) (bp_dense (wr_plan w)) in
      if pending = [] then 0 else snd (snd (iter_dense w pending)))"

definition package_written :: "package_io list \<Rightarrow> int" where
  "package_written io = sum_list (map (\<lambda>op. case op of RegionIO r wio \<Rightarrow> io_written [wio] | _ \<Rightarrow> 0) io)"

definition region_sizes :: "package_disk \<Rightarrow> int" where
  "region_sizes pk = sum_list (map (\<lambda>r. case pk_file pk r of None \<Rightarrow> 0 | Some f \<Rightarrow> int (length (rf_bytes f)))
     [DENSE_REGION, EXPERT_REGION, PLE_REGION])"

definition finish_build :: "writer \<Rightarrow> package_disk \<Rightarrow> ple_index option \<Rightarrow> build_journal \<Rightarrow> package_io list \<Rightarrow>
    build_journal \<Rightarrow> package_io list \<times> build_outcome result" where
  "finish_build w pk ix j0 io j =
     (case write_metadata w (fold exec_pkg io pk) ix j of (metas, r) \<Rightarrow>
        (case r of
           Inl e \<Rightarrow> (io @ map MetaIO metas, Inl e)
         | Inr _ \<Rightarrow>
             (io @ map MetaIO metas @ [JournalIO (j\<lparr>bj_finished := True\<rparr>)],
              Inr \<lparr>bo_finished = True, bo_items_written = num_work_items (wr_plan w) - skipped_items w j0,
                   bo_items_skipped = skipped_items w j0, bo_bytes_written = package_written io,
                   bo_peak_inflight_source_bytes = peak_inflight w j0,
                   bo_download_workers = (if rd_is_local (wr_reader w) then 1 else wr_download_workers w)\<rparr>)))"

definition build :: "writer \<Rightarrow> int \<Rightarrow> package_disk \<Rightarrow> package_io list \<times> build_outcome result" where
  "build w free pk =
     (case bindE (preflight_disk_space (wr_plan w) free (region_sizes pk)) (\<lambda>_.
           bindE (load_journal w (pk_journal pk)) (\<lambda>j.
           bindE (materialize_ple_index w) (\<lambda>ix. Inr (j, ix)))) of
        Inl e \<Rightarrow> ([], Inl e)
      | Inr (j, ix) \<Rightarrow>
          (case run_regions (region_writers w) j of (io, r) \<Rightarrow>
             (case r of Inl e \<Rightarrow> (io, Inl e) | Inr j' \<Rightarrow> finish_build w pk ix j io j')))"

end
