(* ===== verification/WriterLaws.thy ===== *)
theory WriterLaws
  imports Build
begin

text \<open>
  The writer's encoders fill exactly the planned ranges, so all three regions interpret the
  commit protocol; the download feed respects its staging bound and yields every item.
\<close>

section \<open>Payload lengths\<close>

lemma sections_to_bytes_length: "sections_to_bytes q spans = Inr raw \<Longrightarrow> int (length raw) = spans_length spans"
proof (induction spans arbitrary: raw)
  case (Cons s spans)
  then show ?case by (auto simp: bindE_Inr_iff spans_length_def split: if_splits)
qed (simp add: spans_length_def)

lemma result_sections_length: "result_sections r spans = Inr raw \<Longrightarrow> int (length raw) = spans_length spans"
  by (auto simp: result_sections_def sections_to_bytes_length spans_length_def split: option.splits if_splits)

lemma encode_dense_length:
  assumes "encode_dense w i t = Inr raw" "16 \<le> dw_bits i \<longrightarrow> length (dw_spans i) = 1"
  shows "int (length raw) = dw_length i"
proof (cases "16 \<le> dw_bits i")
  case True
  then obtain s where "dw_spans i = [s]" using assms(2) by (auto simp: length_Suc_conv)
  then show ?thesis using assms(1) True by (auto simp: encode_dense_def Let_def dw_length_def spans_length_def split: if_splits)
next
  case False
  then show ?thesis using assms(1) by (auto simp: encode_dense_def dw_length_def bindE_Inr_iff result_sections_length)
qed

lemma at_offsets_iff: "at_offsets ps c = Inr x \<longleftrightarrow> x = (ps, c) \<and> (\<forall>(off, data) \<in> set ps. 0 \<le> off)"
  unfolding at_offsets_def by (auto simp: case_prod_unfold not_le)

lemma dense_piecesD:
  assumes "dense_pieces w i = Inr (ps, c)" "16 \<le> dw_bits i \<longrightarrow> length (dw_spans i) = 1"
  obtains payload where "ps = [(dw_byte_offset i, payload)]" "int (length payload) = dw_length i"
    "ic_value c = crc32c_hex payload" "ic_length c = dw_length i"
  using assms encode_dense_length by (auto simp: dense_pieces_def bindE_Inr_iff at_offsets_iff)

lemma expert_piecesD:
  assumes "expert_pieces w rec i = Inr (ps, c)"
  obtains payload where "ps = [(ew_bank_offset i, payload)]" "int (length payload) = rl_payload_bytes rec"
    "ic_value c = crc32c_hex payload" "ic_length c = rl_payload_bytes rec"
  using assms by (auto simp: expert_pieces_def encode_expert_def bindE_Inr_iff at_offsets_iff split: if_splits)

lemma shard_piecesD:
  assumes "shard_pieces w ple s = Inr (ps, c)"
  obtains block where "ps = row_pieces (pp_row ple) s block"
    "int (length block) = pw_num_rows s * pr_payload_bytes (pp_row ple)" "ic_value c = crc32c_hex block"
  using assms by (auto simp: shard_pieces_def encode_ple_shard_def bindE_Inr_iff at_offsets_iff Let_def split: if_splits)

lemma row_piece:
  assumes "int (length block) = pw_num_rows s * p" "0 \<le> p" "p = pr_payload_bytes row" "k < nat (pw_num_rows s)"
  shows "row_pieces row s block ! k = (row_offset row (pw_first_row s + int k), take (nat p) (drop (k * nat p) block))"
    and "length (take (nat p) (drop (k * nat p) block)) = nat p"
proof -
  have m: "nat (int k * p) = k * nat p" by (simp add: nat_mult_distrib)
  then show "row_pieces row s block ! k = (row_offset row (pw_first_row s + int k), take (nat p) (drop (k * nat p) block))"
    using assms by (simp add: row_pieces_def py_slice_nat)
  have "(int k + 1) * p \<le> pw_num_rows s * p" using assms by (intro mult_right_mono) simp_all
  then have "int k * p + p \<le> int (length block)" using assms(1) by (simp add: distrib_right)
  moreover have "int (k * nat p) = int k * p" using assms(2) by simp
  ultimately have "k * nat p + nat p \<le> length block" using assms(2) by linarith
  then show "length (take (nat p) (drop (k * nat p) block)) = nat p" by simp
qed

section \<open>Regions that commit durably\<close>

definition dense_region_ok :: "writer \<Rightarrow> bool" where
  "dense_region_ok w \<longleftrightarrow> (let items = bp_dense (wr_plan w) in
     distinct (map (\<lambda>i. ta_name (dw_address i)) items) \<and>
     (\<forall>i \<in> set items. 0 \<le> dw_byte_offset i \<and> 0 \<le> dw_length i \<and>
        dw_byte_offset i + dw_length i \<le> pt_dense_bytes (pm_totals (bp_manifest (wr_plan w))) \<and>
        (16 \<le> dw_bits i \<longrightarrow> length (dw_spans i) = 1)) \<and>
     (\<forall>x y. x < y \<longrightarrow> y < length items \<longrightarrow>
        dw_byte_offset (items ! x) + dw_length (items ! x) \<le> dw_byte_offset (items ! y)))"

definition dense_limit :: "writer \<Rightarrow> int" where
  "dense_limit w = pt_dense_bytes (pm_totals (bp_manifest (wr_plan w)))"

definition dense_items :: "writer \<Rightarrow> dense_work_item list" where
  "dense_items w = bp_dense (wr_plan w)"

lemma dense_disjoint:
  assumes "dense_region_ok w" "i \<in> set (dense_items w)" "i' \<in> set (dense_items w)" "i \<noteq> i'"
  shows "dw_byte_offset i + dw_length i \<le> dw_byte_offset i' \<or> dw_byte_offset i' + dw_length i' \<le> dw_byte_offset i"
proof -
  obtain x y where "x < length (dense_items w)" "dense_items w ! x = i" "y < length (dense_items w)" "dense_items w ! y = i'"
    using assms(2,3) by (auto simp: in_set_conv_nth)
  then show ?thesis using assms(1,4)
    by (cases x y rule: linorder_cases) (auto simp: dense_region_ok_def Let_def dense_items_def)
qed

interpretation dense: durable_commit dense_region_ok dense_items dense_pieces dense_limit mark_dense dense_done
proof
  fix w i ps k q
  assume ok: "dense_region_ok w" and i: "i \<in> set (dense_items w)" and e: "dense_pieces w i = Inr (ps, k)"
  have b: "16 \<le> dw_bits i \<longrightarrow> length (dw_spans i) = 1" "0 \<le> dw_byte_offset i"
    "dw_byte_offset i + dw_length i \<le> dense_limit w"
    using ok i by (auto simp: dense_region_ok_def Let_def dense_items_def dense_limit_def)
  obtain p where p: "ps = [(dw_byte_offset i, p)]" "int (length p) = dw_length i"
    by (rule dense_piecesD [OF e b(1)])
  show "piece_fits (dense_limit w) q" if "q \<in> set ps" using that b p by (simp add: piece_fits_def)
  show "pieces_disjoint (ps ! a) (ps ! b')" if "a < b'" "b' < length ps" for a b' using that p by simp
  fix i' ps' k' q'
  assume i': "i' \<in> set (dense_items w)" and ne: "i \<noteq> i'" and e': "dense_pieces w i' = Inr (ps', k')"
    and q: "q \<in> set ps" "q' \<in> set ps'"
  have b': "16 \<le> dw_bits i' \<longrightarrow> length (dw_spans i') = 1"
    using ok i' by (auto simp: dense_region_ok_def Let_def dense_items_def)
  obtain p' where p': "ps' = [(dw_byte_offset i', p')]" "int (length p') = dw_length i'"
    by (rule dense_piecesD [OF e' b'])
  show "pieces_disjoint q q'" using dense_disjoint [OF ok i i' ne] p p' q by (simp add: pieces_disjoint_def)
next
  fix w i i' k j
  assume "dense_region_ok w" "i \<in> set (dense_items w)" "i' \<in> set (dense_items w)"
  then show "dense_done (mark_dense (i, k) j) i' \<longleftrightarrow> i' = i \<or> dense_done j i'"
    by (auto simp: dense_done_def mark_dense_def dense_region_ok_def Let_def dense_items_def distinct_map dest: inj_onD)
qed

definition bank_layout :: "writer \<Rightarrow> expert_layout" where
  "bank_layout w = the (pm_expert_layout (bp_manifest (wr_plan w)))"

definition expert_region_ok :: "writer \<Rightarrow> bool" where
  "expert_region_ok w \<longleftrightarrow> pm_expert_layout (bp_manifest (wr_plan w)) \<noteq> None \<and> record_ok (el_record (bank_layout w)) \<and>
     distinct (map ew_record_index (bp_experts (wr_plan w))) \<and>
     (\<forall>i \<in> set (bp_experts (wr_plan w)). 0 \<le> ew_record_index i \<and> ew_record_index i < num_records (bank_layout w) \<and>
        ew_bank_offset i = ew_record_index i * rl_stride (el_record (bank_layout w)))"

definition expert_work :: "writer \<Rightarrow> expert_work_item list" where
  "expert_work w = bp_experts (wr_plan w)"

definition bank_pieces :: "writer \<Rightarrow> expert_work_item \<Rightarrow> ((int \<times> bytes) list \<times> item_checksum) result" where
  "bank_pieces w = expert_pieces w (el_record (bank_layout w))"

definition bank_limit :: "writer \<Rightarrow> int" where
  "bank_limit w = el_total_bytes (bank_layout w)"

interpretation experts: durable_commit expert_region_ok expert_work bank_pieces bank_limit mark_expert expert_done
proof
  fix w i ps k q
  assume ok: "expert_region_ok w" and i: "i \<in> set (expert_work w)" and e: "bank_pieces w i = Inr (ps, k)"
  let ?r = "el_record (bank_layout w)"
  have r: "0 \<le> rl_payload_bytes ?r" "rl_payload_bytes ?r \<le> rl_stride ?r"
    using ok record_ok_payload by (auto simp: expert_region_ok_def record_ok_def)
  have b: "0 \<le> ew_record_index i" "ew_record_index i + 1 \<le> num_records (bank_layout w)"
    "ew_bank_offset i = ew_record_index i * rl_stride ?r"
    using ok i by (auto simp: expert_region_ok_def expert_work_def)
  have lim: "(ew_record_index i + 1) * rl_stride ?r \<le> num_records (bank_layout w) * rl_stride ?r"
    using b r by (intro mult_right_mono) simp_all
  obtain p where p: "ps = [(ew_bank_offset i, p)]" "int (length p) = rl_payload_bytes ?r"
    by (rule expert_piecesD [OF e [unfolded bank_pieces_def]])
  show "piece_fits (bank_limit w) q" if "q \<in> set ps"
    using that b r lim p by (simp add: piece_fits_def bank_limit_def el_total_bytes_def distrib_right)
  show "pieces_disjoint (ps ! a) (ps ! b')" if "a < b'" "b' < length ps" for a b' using that p by simp
  fix i' ps' k' q'
  assume i': "i' \<in> set (expert_work w)" and ne: "i \<noteq> i'" and e': "bank_pieces w i' = Inr (ps', k')"
    and q: "q \<in> set ps" "q' \<in> set ps'"
  obtain p' where p': "ps' = [(ew_bank_offset i', p')]" "int (length p') = rl_payload_bytes ?r"
    by (rule expert_piecesD [OF e' [unfolded bank_pieces_def]])
  have "ew_record_index i \<noteq> ew_record_index i'"
    using ok i i' ne by (auto simp: expert_region_ok_def expert_work_def distinct_map dest: inj_onD)
  moreover have "ew_bank_offset i' = ew_record_index i' * rl_stride ?r"
    using ok i' by (auto simp: expert_region_ok_def expert_work_def)
  ultimately show "pieces_disjoint q q'"
    using stride_slots [OF r, of "ew_record_index i" "ew_record_index i'"] b(3) p p' q by (simp add: pieces_disjoint_def)
next
  fix w i i' k j
  assume "expert_region_ok w" "i \<in> set (expert_work w)" "i' \<in> set (expert_work w)"
  then show "expert_done (mark_expert (i, k) j) i' \<longleftrightarrow> i' = i \<or> expert_done j i'"
    by (auto simp: expert_done_def mark_expert_def expert_region_ok_def expert_work_def distinct_map dest: inj_onD)
qed

definition ple_of :: "writer \<Rightarrow> ple_plan" where
  "ple_of w = the (bp_ple (wr_plan w))"

definition ple_region_ok :: "writer \<Rightarrow> bool" where
  "ple_region_ok w \<longleftrightarrow> bp_ple (wr_plan w) \<noteq> None \<and> row_ok (pp_row (ple_of w)) \<and>
     contig 0 (map (\<lambda>s. (pw_first_row s, pw_num_rows s)) (pp_shards (ple_of w))) \<and>
     pp_total_rows (ple_of w) = sum_list (map pw_num_rows (pp_shards (ple_of w))) \<and>
     pp_total_rows (ple_of w) \<le> 2 ^ 52 \<and> distinct (map pw_shard_index (pp_shards (ple_of w)))"

definition ple_work :: "writer \<Rightarrow> ple_shard_item list" where
  "ple_work w = pp_shards (ple_of w)"

definition table_pieces :: "writer \<Rightarrow> ple_shard_item \<Rightarrow> ((int \<times> bytes) list \<times> item_checksum) result" where
  "table_pieces w = shard_pieces w (ple_of w)"

definition table_limit :: "writer \<Rightarrow> int" where
  "table_limit w = table_size (pp_row (ple_of w), pp_total_rows (ple_of w))"

lemma shard_bounds:
  assumes "ple_region_ok w" "s \<in> set (ple_work w)"
  shows "0 \<le> pw_first_row s \<and> 0 \<le> pw_num_rows s \<and> pw_first_row s + pw_num_rows s \<le> pp_total_rows (ple_of w)"
proof -
  let ?segs = "map (\<lambda>s. (pw_first_row s, pw_num_rows s)) (pp_shards (ple_of w))"
  have c: "contig 0 ?segs" using assms(1) by (simp add: ple_region_ok_def)
  have t: "pp_total_rows (ple_of w) = sum_list (map snd ?segs)" using assms(1) by (simp add: ple_region_ok_def comp_def)
  obtain i where "i < length (pp_shards (ple_of w))" "pp_shards (ple_of w) ! i = s"
    using assms(2) by (auto simp: ple_work_def in_set_conv_nth)
  then show ?thesis using contig_bounds [OF c, of i] unfolding t by simp
qed

lemma shard_rows_disjoint:
  assumes "ple_region_ok w" "s \<in> set (ple_work w)" "s' \<in> set (ple_work w)" "s \<noteq> s'"
  shows "pw_first_row s + pw_num_rows s \<le> pw_first_row s' \<or> pw_first_row s' + pw_num_rows s' \<le> pw_first_row s"
proof -
  let ?segs = "map (\<lambda>s. (pw_first_row s, pw_num_rows s)) (pp_shards (ple_of w))"
  have c: "contig 0 ?segs" using assms(1) by (simp add: ple_region_ok_def)
  obtain x where "x < length (pp_shards (ple_of w))" "pp_shards (ple_of w) ! x = s"
    using assms(2) by (auto simp: ple_work_def in_set_conv_nth)
  moreover obtain y where "y < length (pp_shards (ple_of w))" "pp_shards (ple_of w) ! y = s'"
    using assms(3) by (auto simp: ple_work_def in_set_conv_nth)
  ultimately show ?thesis using assms(4) contig_disjoint [OF c, of x y] contig_disjoint [OF c, of y x]
    by (cases x y rule: linorder_cases) auto
qed

lemma table_piecesD:
  assumes ok: "ple_region_ok w" and e: "table_pieces w s = Inr (ps, c)" and q: "q \<in> set ps"
  obtains r where "pw_first_row s \<le> r" "r < pw_first_row s + pw_num_rows s" "fst q = row_offset (pp_row (ple_of w)) r"
    "int (length (snd q)) = pr_payload_bytes (pp_row (ple_of w))"
proof -
  let ?p = "pr_payload_bytes (pp_row (ple_of w))"
  have p: "0 \<le> ?p" using ok by (simp add: ple_region_ok_def row_ok_def)
  obtain block where b: "ps = row_pieces (pp_row (ple_of w)) s block" "int (length block) = pw_num_rows s * ?p"
    by (rule shard_piecesD [OF e [unfolded table_pieces_def]])
  have len: "length ps = nat (pw_num_rows s)" by (simp add: b row_pieces_def)
  obtain k where k: "k < nat (pw_num_rows s)" "q = ps ! k" using q len by (auto simp: in_set_conv_nth)
  show ?thesis
    by (rule that [of "pw_first_row s + int k"])
      (use k(1) p row_piece [OF b(2) p refl k(1)] in \<open>simp_all add: k(2) b(1)\<close>)
qed

lemma rows_apart:
  assumes "row_ok r" "i \<noteq> j" "fst q = row_offset r i" "fst q' = row_offset r j"
    and "int (length (snd q)) = pr_payload_bytes r" "int (length (snd q')) = pr_payload_bytes r"
  shows "pieces_disjoint q q'"
  using rows_disjoint [OF assms(1), of i j] rows_disjoint [OF assms(1), of j i] assms(2-)
  by (cases i j rule: linorder_cases) (simp_all add: pieces_disjoint_def)

interpretation shards: durable_commit ple_region_ok ple_work table_pieces table_limit mark_shard shard_done
proof
  fix w i ps k
  assume ok: "ple_region_ok w" and i: "i \<in> set (ple_work w)" and e: "table_pieces w i = Inr (ps, k)"
  let ?r = "pp_row (ple_of w)"
  have r: "row_ok ?r" "0 \<le> pr_payload_bytes ?r" using ok by (auto simp: ple_region_ok_def row_ok_def)
  note bnd = shard_bounds [OF ok i]
  show "piece_fits (table_limit w) q" if q: "q \<in> set ps" for q
  proof -
    obtain x where x: "pw_first_row i \<le> x" "x < pw_first_row i + pw_num_rows i" "fst q = row_offset ?r x"
      "int (length (snd q)) = pr_payload_bytes ?r"
      by (rule table_piecesD [OF ok e q])
    have "table_ok (?r, pp_total_rows (ple_of w))" "table_item (?r, pp_total_rows (ple_of w)) x"
      using r(1) x bnd by (auto simp: table_ok_def table_item_def)
    then show ?thesis using rows.in_bounds [of "(?r, pp_total_rows (ple_of w))" x] x(3,4)
      by (simp add: piece_fits_def table_limit_def table_offset_def table_length_def)
  qed
  show "pieces_disjoint (ps ! a) (ps ! b)" if "a < b" "b < length ps" for a b
  proof -
    obtain block where blk: "ps = row_pieces ?r i block" "int (length block) = pw_num_rows i * pr_payload_bytes ?r"
      by (rule shard_piecesD [OF e [unfolded table_pieces_def]])
    have l: "a < nat (pw_num_rows i)" "b < nat (pw_num_rows i)" using that by (simp_all add: blk row_pieces_def)
    show ?thesis
      by (rule rows_apart [OF r(1), of "pw_first_row i + int a" "pw_first_row i + int b"])
        (use that r(2) row_piece [OF blk(2) r(2) refl l(1)] row_piece [OF blk(2) r(2) refl l(2)] in \<open>simp_all add: blk(1)\<close>)
  qed
  fix i' ps' k' q q'
  assume i': "i' \<in> set (ple_work w)" and ne: "i \<noteq> i'" and e': "table_pieces w i' = Inr (ps', k')"
    and q: "q \<in> set ps" "q' \<in> set ps'"
  obtain x where x: "pw_first_row i \<le> x" "x < pw_first_row i + pw_num_rows i" "fst q = row_offset ?r x"
    "int (length (snd q)) = pr_payload_bytes ?r"
    by (rule table_piecesD [OF ok e q(1)])
  obtain x' where x': "pw_first_row i' \<le> x'" "x' < pw_first_row i' + pw_num_rows i'" "fst q' = row_offset ?r x'"
    "int (length (snd q')) = pr_payload_bytes ?r"
    by (rule table_piecesD [OF ok e' q(2)])
  have "x \<noteq> x'" using shard_rows_disjoint [OF ok i i' ne] x(1,2) x'(1,2) by linarith
  then show "pieces_disjoint q q'" using rows_apart [OF r(1) _ x(3) x'(3) x(4) x'(4)] by blast
next
  fix w i i' k j
  assume "ple_region_ok w" "i \<in> set (ple_work w)" "i' \<in> set (ple_work w)"
  then show "shard_done (mark_shard (i, k) j) i' \<longleftrightarrow> i' = i \<or> shard_done j i'"
    by (auto simp: shard_done_def mark_shard_def ple_region_ok_def ple_work_def distinct_map dest: inj_onD)
qed

section \<open>The download feed\<close>

definition feed_ok :: "int \<Rightarrow> int \<Rightarrow> feed \<Rightarrow> bool" where
  "feed_ok limit workers f \<longleftrightarrow> fd_reserved f = sum_list (map snd (fd_inflight f)) \<and> fd_reserved f \<le> limit \<and>
     fd_peak f \<le> limit \<and> int (length (fd_inflight f)) \<le> workers \<and> (\<forall>(i, r) \<in> set (fd_inflight f). r = reservation i) \<and>
     (fd_inflight f = [] \<longrightarrow> fd_remaining f = [])"

lemma reservation_pos: "1 \<le> reservation i"
  by (simp add: reservation_def)

lemma submit_available_ok:
  "submit_available limit workers rest inflight reserved peak = Inr f \<Longrightarrow> reserved = sum_list (map snd inflight) \<Longrightarrow>
     reserved \<le> limit \<Longrightarrow> peak \<le> limit \<Longrightarrow> int (length inflight) \<le> workers \<Longrightarrow> 1 \<le> workers \<Longrightarrow>
     \<forall>(i, r) \<in> set inflight. r = reservation i \<Longrightarrow>
     feed_ok limit workers f \<and> map fst (fd_inflight f) @ fd_remaining f = map fst inflight @ rest"
proof (induction limit workers rest inflight reserved peak rule: submit_available.induct)
  case (2 limit workers item rest inflight reserved peak)
  let ?r = "reservation item"
  show ?case
  proof (cases "int (length inflight) < workers \<and> \<not> limit < ?r \<and> \<not> (inflight \<noteq> [] \<and> limit < reserved + ?r)")
    case True
    have "submit_available limit workers rest (inflight @ [(item, ?r)]) (reserved + ?r) (max peak (reserved + ?r)) = Inr f"
      using "2.prems"(1) True by (simp add: Let_def split: if_splits)
    moreover have "reserved + ?r \<le> limit" using True "2.prems"(2) by (cases "inflight = []") auto
    ultimately show ?thesis using "2.IH" [of "\<lparr>fd_remaining = item # rest, fd_inflight = inflight, fd_reserved = reserved, fd_peak = peak\<rparr>" ?r]
        True "2.prems" by auto
  next
    case False
    then have "f = \<lparr>fd_remaining = item # rest, fd_inflight = inflight, fd_reserved = reserved, fd_peak = peak\<rparr> \<and> inflight \<noteq> []"
      using "2.prems"(1,6) by (auto simp: Let_def split: if_splits)
    then show ?thesis using "2.prems" by (auto simp: feed_ok_def)
  qed
qed (auto simp: feed_ok_def)

lemma submit_available_total:
  "\<forall>i \<in> set rest. reservation i \<le> limit \<Longrightarrow> \<exists>f. submit_available limit workers rest inflight reserved peak = Inr f"
  by (induction limit workers rest inflight reserved peak rule: submit_available.induct) (auto simp: Let_def)

lemma submit_remaining:
  "submit_available limit workers rest inflight reserved peak = Inr f \<Longrightarrow> set (fd_remaining f) \<subseteq> set rest"
  by (induction limit workers rest inflight reserved peak rule: submit_available.induct)
    (auto simp: Let_def split: if_splits)

lemma feed_loop_ok:
  "feed_ok limit workers f \<Longrightarrow> 1 \<le> workers \<Longrightarrow> feed_loop limit workers f = (ys, e, peak) \<Longrightarrow>
     peak \<le> limit \<and> (\<exists>zs. map fst (fd_inflight f) @ fd_remaining f = ys @ zs \<and> (e = None \<longrightarrow> zs = [])) \<and>
     ((\<forall>i \<in> set (fd_remaining f). reservation i \<le> limit) \<longrightarrow> e = None)"
proof (induction limit workers f arbitrary: ys e peak rule: feed_loop.induct)
  case (1 limit workers f)
  show ?case
  proof (cases "fd_inflight f")
    case Nil
    then show ?thesis using "1.prems" by (subst (asm) feed_loop.simps) (auto simp: feed_ok_def)
  next
    case (Cons x inflight)
    obtain item r where x: "x = (item, r)" by (cases x)
    note c = Cons [unfolded x]
    let ?sub = "submit_available limit workers (fd_remaining f) inflight (fd_reserved f - r) (fd_peak f)"
    show ?thesis
    proof (cases ?sub)
      case (Inl err)
      then have "ys = [item]" "e = Some err" "peak = fd_peak f" using "1.prems"(3) c
        by (subst (asm) feed_loop.simps, simp)+
      then show ?thesis using "1.prems"(1) c Inl submit_available_total [of "fd_remaining f" limit workers inflight "fd_reserved f - r" "fd_peak f"]
        by (auto simp: feed_ok_def)
    next
      case (Inr f')
      have res: "fd_reserved f - r = sum_list (map snd inflight)" "fd_reserved f - r \<le> limit" "fd_peak f \<le> limit"
        "int (length inflight) \<le> workers" "\<forall>(i, r) \<in> set inflight. r = reservation i"
        using "1.prems"(1) c reservation_pos [of item] by (auto simp: feed_ok_def)
      have f': "feed_ok limit workers f'" "map fst (fd_inflight f') @ fd_remaining f' = map fst inflight @ fd_remaining f"
        using submit_available_ok [OF Inr res(1-4) "1.prems"(2) res(5)] by auto
      obtain ys' where y: "feed_loop limit workers f' = (ys', e, peak)" "ys = item # ys'"
        using "1.prems"(3) c Inr by (subst (asm) feed_loop.simps) (auto split: prod.splits)
      note IH = "1.IH" [OF c refl Inr f'(1) "1.prems"(2) y(1)]
      have "set (fd_remaining f') \<subseteq> set (fd_remaining f)" by (rule submit_remaining [OF Inr])
      then show ?thesis using IH f'(2) y(2) by (auto simp: c)
    qed
  qed
qed

end
