(* ===== verification/BuildLaws.thy ===== *)
theory BuildLaws
  imports WriterLaws
begin

text \<open>
  The build as a whole: at every step of a build, and after a crash at any step, the journal
  on disk names only items whose bytes are on disk, in all three regions at once; a build that
  returns has stored every item.
\<close>

section \<open>Views of a package\<close>

lemma view_region_io: "region_view r (exec_pkg (RegionIO r op) pk) = exec_wio op (region_view r pk)"
  by (simp add: region_view_def exec_pkg_def set_view_def)

lemma view_fold: "region_view r (fold exec_pkg (map (RegionIO r) io) pk) = fold exec_wio io (region_view r pk)"
  by (induction io arbitrary: pk) (simp_all add: view_region_io)

lemma file_other: "r \<noteq> s \<Longrightarrow> pk_file (fold exec_pkg (map (RegionIO r) io) pk) s = pk_file pk s"
  by (induction io arbitrary: pk) (simp_all add: exec_pkg_def set_view_def)

lemma view_journal [simp]: "rd_journal (region_view r pk) = pk_journal pk"
  by (simp add: region_view_def split: option.split)

lemma pkg_journal_fold: "pk_journal (fold exec_pkg (map (RegionIO r) io) pk) = rd_journal (fold exec_wio io (region_view r pk))"
  by (simp flip: view_fold)

definition same_file :: "'j region_disk \<Rightarrow> 'j region_disk \<Rightarrow> bool" where
  "same_file d d' \<longleftrightarrow> rd_bytes d' = rd_bytes d \<and> rd_synced d' = rd_synced d \<and> rd_dirty d' = rd_dirty d"

lemma same_file_view: "pk_file pk' r = pk_file pk r \<Longrightarrow> same_file (region_view r pk) (region_view r pk')"
  by (simp add: same_file_def region_view_def split: option.split)

section \<open>A region inside a package\<close>

text \<open>\<open>run\<close> performs the operations of the commit loop of its region, or the first of them.\<close>

locale package_region = durable_commit ok items encode limit mark is_done
  for ok :: "writer \<Rightarrow> bool"
    and items :: "writer \<Rightarrow> 'i list"
    and encode :: "writer \<Rightarrow> 'i \<Rightarrow> ((int \<times> bytes) list \<times> item_checksum) result"
    and limit :: "writer \<Rightarrow> int"
    and mark :: "'i \<times> item_checksum \<Rightarrow> build_journal \<Rightarrow> build_journal"
    and is_done :: "build_journal \<Rightarrow> 'i \<Rightarrow> bool" +
  fixes run :: "writer \<Rightarrow> build_journal \<Rightarrow> region_run"
    and batch :: nat
    and reg :: region
  assumes batch_pos: "0 < batch"
    and items_distinct: "ok w \<Longrightarrow> distinct (items w)"
    and run_io: "ok w \<Longrightarrow> run w j = (io, res) \<Longrightarrow>
      \<exists>full r. write_region (encode w) mark is_done (items w) batch (limit w) j = (full, r) \<and>
        io = take (length io) full \<and> (\<forall>j'. res = Inr j' \<longrightarrow> io = full \<and> r = Inr j')"
begin

definition region_good :: "writer \<Rightarrow> package_disk \<Rightarrow> bool" where
  "region_good w pk \<longleftrightarrow> good w (region_view reg pk)"

definition held :: "writer \<Rightarrow> package_disk \<Rightarrow> build_journal \<Rightarrow> bool" where
  "held w pk j \<longleftrightarrow> (\<forall>i \<in> set (items w). is_done j i \<longrightarrow> item_stored w (region_view reg pk) i)"

lemma item_stored_same: "same_file d d' \<Longrightarrow> item_stored w d' i = item_stored w d i"
  by (simp add: same_file_def item_stored_def stored_def clean_at_def)

text \<open>Operations on other regions.\<close>

lemma good_frame:
  assumes "region_good w pk" "held w pk j" "pk_file pk' reg = pk_file pk reg"
    and "pk_journal pk' = pk_journal pk \<or> (\<exists>j1. pk_journal pk' = Some j1 \<and> (\<forall>i. is_done j1 i = is_done j i))"
  shows "region_good w pk'"
proof -
  note sf = same_file_view [OF assms(3)]
  show ?thesis
    using assms(1,2,4) sf unfolding region_good_def good_def held_def item_stored_same [OF sf]
    by (auto simp: same_file_def)
qed

lemma held_frame:
  assumes "held w pk j" "pk_file pk' reg = pk_file pk reg" "\<forall>i. is_done j' i = is_done j i"
  shows "held w pk' j'"
  using assms(1,3) unfolding held_def item_stored_same [OF same_file_view [OF assms(2)]] by simp

lemma held_start: "region_good w pk \<Longrightarrow> resumes w (region_view reg pk) j \<Longrightarrow> held w pk j"
  by (auto simp: region_good_def good_def held_def resumes_def)

text \<open>Operations of the region itself.\<close>

lemma own_step:
  assumes ok: "ok w" and g: "region_good w pk" and r: "resumes w (region_view reg pk) j" and run: "run w j = (io, res)"
  shows "region_good w (fold exec_pkg (map (RegionIO reg) (take k io)) pk)"
    and "res = Inr j' \<Longrightarrow> held w (fold exec_pkg (map (RegionIO reg) io) pk) j' \<and> (\<forall>i \<in> set (items w). is_done j' i) \<and>
      ((io = [] \<and> j' = j) \<or> pk_journal (fold exec_pkg (map (RegionIO reg) io) pk) = Some j')"
proof -
  obtain full rr where f: "write_region (encode w) mark is_done (items w) batch (limit w) j = (full, rr)"
    "io = take (length io) full" "\<And>j'. res = Inr j' \<Longrightarrow> io = full \<and> rr = Inr j'"
    using run_io [OF ok run] by blast
  note wr = write_region_io [OF ok g [unfolded region_good_def] r batch_pos items_distinct [OF ok] f(1)]
  have "take k io = take (min k (length io)) full" using f(2) by (metis min.commute take_take)
  then show "region_good w (fold exec_pkg (map (RegionIO reg) (take k io)) pk)"
    using wr by (simp add: region_good_def view_fold safe_def)
  assume j': "res = Inr j'"
  then have full: "io = full" "rr = Inr j'" using f(3) by auto
  have all: "\<forall>i \<in> set (items w). is_done j' i \<and> item_stored w (fold exec_wio io (region_view reg pk)) i"
    "resumes w (fold exec_wio io (region_view reg pk)) j'"
    using wr full by auto
  have "(io = [] \<and> j' = j) \<or> rd_journal (fold exec_wio io (region_view reg pk)) = Some j'"
  proof (cases "items w = []")
    case True
    then show ?thesis using f(1) full by (simp add: write_region_def)
  next
    case False
    then have "\<not> (\<forall>i \<in> set (items w). \<not> is_done j' i)" using all(1) by (cases "items w") simp_all
    then show ?thesis using all(2) by (auto simp: resumes_def)
  qed
  then show "held w (fold exec_pkg (map (RegionIO reg) io) pk) j' \<and> (\<forall>i \<in> set (items w). is_done j' i) \<and>
      ((io = [] \<and> j' = j) \<or> pk_journal (fold exec_pkg (map (RegionIO reg) io) pk) = Some j')"
    using all(1) by (simp add: held_def view_fold pkg_journal_fold)
qed

lemma run_length:
  assumes "ok w" "run w j = (io, res)"
  shows "length (rd_bytes (fold exec_wio io d)) \<le> max (length (rd_bytes d)) (nat (limit w))"
proof -
  obtain full rr where f: "write_region (encode w) mark is_done (items w) batch (limit w) j = (full, rr)"
    "io = take (length io) full"
    using run_io [OF assms] by blast
  have "\<forall>op \<in> set io. op_fits w op"
    using ops_fit_region [OF assms(1) batch_pos f(1)] f(2) by (metis in_set_takeD)
  then show ?thesis by (rule ops_fit_length)
qed

text \<open>What every mark keeps, every journal that the region writes keeps.\<close>

lemma run_keeps:
  assumes "ok w" "run w j = (io, res)" "Q j" "keeps (encode w) (items w) mark Q"
  shows "WJournal j1 \<in> set io \<Longrightarrow> Q j1" and "res = Inr j1 \<Longrightarrow> Q j1"
proof -
  obtain full rr where f: "write_region (encode w) mark is_done (items w) batch (limit w) j = (full, rr)"
    "io = take (length io) full" "\<And>j'. res = Inr j' \<Longrightarrow> io = full \<and> rr = Inr j'"
    using run_io [OF assms(1,2)] by blast
  note keep = write_region_keeps [where Q = Q, OF f(1) assms(3,4)]
  show "Q j1" if "WJournal j1 \<in> set io"
  proof -
    have "WJournal j1 \<in> set full" using that f(2) by (metis in_set_takeD)
    then show ?thesis by (rule keep(1))
  qed
  show "Q j1" if "res = Inr j1" using keep(2) f(3) [OF that] by blast
qed

lemma run_journals:
  assumes "ok w" "run w j = (io, res)" "\<And>ic j1 x. P (mark ic j1) x = P j1 x"
  shows "WJournal j1 \<in> set io \<Longrightarrow> P j1 x = P j x" and "res = Inr j' \<Longrightarrow> P j' x = P j x"
proof -
  have k: "keeps (encode w) (items w) mark (\<lambda>j1. P j1 x = P j x)" by (simp add: keeps_def assms(3))
  show "P j1 x = P j x" if "WJournal j1 \<in> set io" by (rule run_keeps(1) [OF assms(1,2) _ k that]) simp
  show "P j' x = P j x" if "res = Inr j'" by (rule run_keeps(2) [OF assms(1,2) _ k that]) simp
qed

end

section \<open>The three regions\<close>

lemma region_take: "write_region e m d is n l j = (io, r) \<Longrightarrow>
    \<exists>full r'. write_region e m d is n l j = (full, r') \<and> io = take (length io) full \<and> (\<forall>j'. r = Inr j' \<longrightarrow> io = full \<and> r' = Inr j')"
  by auto

definition dense_ok :: "writer \<Rightarrow> bool" where
  "dense_ok w \<longleftrightarrow> dense_region_ok w \<and> 1 \<le> wr_download_workers w"

lemma iter_dense_prefix:
  assumes "iter_dense w pending = (ys, e, peak)" "1 \<le> wr_download_workers w"
  shows "(\<exists>zs. pending = ys @ zs \<and> (e = None \<longrightarrow> zs = [])) \<and>
    (\<not> rd_is_local (wr_reader w) \<and> wr_download_workers w \<noteq> 1 \<longrightarrow>
       0 < py_int (fmul (fmul (mb_max_cpu_staging_mb (wr_budget w)) 1024) 1024) \<longrightarrow>
       peak \<le> py_int (fmul (fmul (mb_max_cpu_staging_mb (wr_budget w)) 1024) 1024) \<and>
       ((\<forall>i \<in> set pending. reservation i \<le> py_int (fmul (fmul (mb_max_cpu_staging_mb (wr_budget w)) 1024) 1024)) \<longrightarrow> e = None))"
proof -
  define limit where "limit = py_int (fmul (fmul (mb_max_cpu_staging_mb (wr_budget w)) 1024) 1024)"
  show ?thesis
  proof (cases "(rd_is_local (wr_reader w) \<or> wr_download_workers w = 1) \<or> limit \<le> 0")
    case True
    then show ?thesis using assms(1) by (auto simp: iter_dense_def Let_def limit_def split: if_splits)
  next
    case False
    show ?thesis
    proof (cases "submit_available limit (wr_download_workers w) pending [] 0 0")
      case (Inl x)
      then show ?thesis using assms(1) False submit_available_total [of pending limit "wr_download_workers w" "[]" 0 0]
        by (auto simp: iter_dense_def Let_def simp flip: limit_def)
    next
      case (Inr f)
      have f: "feed_ok limit (wr_download_workers w) f" "map fst (fd_inflight f) @ fd_remaining f = pending"
        using submit_available_ok [OF Inr] False assms(2) by auto
      have l: "feed_loop limit (wr_download_workers w) f = (ys, e, peak)"
        using assms(1) False Inr by (simp add: iter_dense_def Let_def flip: limit_def)
      show ?thesis using feed_loop_ok [OF f(1) assms(2) l] submit_remaining [OF Inr] f(2)
        unfolding limit_def [symmetric] by auto
    qed
  qed
qed

lemma write_dense_run:
  assumes "dense_ok w" "write_dense w j = (io, res)"
  shows "\<exists>full r. write_region (dense_pieces w) mark_dense dense_done (dense_items w) 1 (dense_limit w) j = (full, r) \<and>
    io = take (length io) full \<and> (\<forall>j'. res = Inr j' \<longrightarrow> io = full \<and> r = Inr j')"
proof -
  define pending where "pending = filter (\<lambda>i. \<not> dense_done j i) (bp_dense (wr_plan w))"
  show ?thesis
  proof (cases "pending = []")
    case True
    then show ?thesis using assms(2) by (auto simp: write_dense_def write_region_def dense_items_def Let_def simp flip: pending_def)
  next
    case False
    obtain ys e peak where it: "iter_dense w pending = (ys, e, peak)" by (cases "iter_dense w pending") auto
    obtain zs where zs: "pending = ys @ zs" "e = None \<longrightarrow> zs = []"
      using iter_dense_prefix [OF it] assms(1) by (auto simp: dense_ok_def)
    obtain io1 r1 where c1: "commit_loop (dense_pieces w) mark_dense (batches 1 ys) j = (io1, r1)" by (meson surj_pair)
    have res: "io = WPreallocate (dense_limit w) # io1" "res = bindE r1 (\<lambda>j'. case e of None \<Rightarrow> Inr j' | Some x \<Rightarrow> Inl x)"
      using assms(2) False by (simp_all add: write_dense_def Let_def it c1 dense_limit_def del: One_nat_def flip: pending_def)
    have "\<exists>io2 r2. commit_loop (dense_pieces w) mark_dense (batches 1 pending) j = (io1 @ io2, r2) \<and>
      (zs = [] \<longrightarrow> io2 = [] \<and> r2 = r1)"
    proof (cases r1)
      case (Inl x)
      then show ?thesis using c1 by (simp add: zs(1) batches_one commit_loop_append del: One_nat_def)
    next
      case (Inr j1)
      obtain io2 r2 where l2: "commit_loop (dense_pieces w) mark_dense (batches 1 zs) j1 = (io2, r2)" by (meson surj_pair)
      show ?thesis
      proof (intro exI conjI)
        show "commit_loop (dense_pieces w) mark_dense (batches 1 pending) j = (io1 @ io2, r2)"
          using c1 l2 Inr by (simp add: zs(1) batches_one commit_loop_append del: One_nat_def)
        show "zs = [] \<longrightarrow> io2 = [] \<and> r2 = r1" using l2 Inr by auto
      qed
    qed
    then obtain io2 r2 where full: "commit_loop (dense_pieces w) mark_dense (batches 1 pending) j = (io1 @ io2, r2)"
      "zs = [] \<Longrightarrow> io2 = [] \<and> r2 = r1" by blast
    have w: "write_region (dense_pieces w) mark_dense dense_done (dense_items w) 1 (dense_limit w) j =
        (WPreallocate (dense_limit w) # io1 @ io2, r2)"
      using False full(1) by (simp add: write_region_def dense_items_def Let_def del: One_nat_def flip: pending_def)
    show ?thesis
    proof (intro exI conjI)
      show "write_region (dense_pieces w) mark_dense dense_done (dense_items w) 1 (dense_limit w) j =
        (WPreallocate (dense_limit w) # io1 @ io2, r2)" by (rule w)
      show "io = take (length io) (WPreallocate (dense_limit w) # io1 @ io2)" by (simp add: res)
      show "\<forall>j'. res = Inr j' \<longrightarrow> io = WPreallocate (dense_limit w) # io1 @ io2 \<and> r2 = Inr j'"
        using res zs(2) full(2) by (auto simp: bindE_Inr_iff split: option.splits)
    qed
  qed
qed

lemma write_experts_run:
  assumes "expert_region_ok w" "write_experts w j = (io, res)"
  shows "\<exists>full r. write_region (bank_pieces w) mark_expert expert_done (expert_work w) EXPERT_BATCH_ITEMS (bank_limit w) j = (full, r) \<and>
    io = take (length io) full \<and> (\<forall>j'. res = Inr j' \<longrightarrow> io = full \<and> r = Inr j')"
proof -
  obtain lay where "pm_expert_layout (bp_manifest (wr_plan w)) = Some lay" using assms(1) by (auto simp: expert_region_ok_def)
  then have "write_experts w j = write_region (bank_pieces w) mark_expert expert_done (expert_work w) EXPERT_BATCH_ITEMS (bank_limit w) j"
    by (simp add: write_experts_def bank_pieces_def expert_work_def bank_limit_def bank_layout_def)
  from this [symmetric] show ?thesis unfolding assms(2) by (rule region_take)
qed

lemma table_bytes:
  assumes "ple_region_ok w" "bp_ple (wr_plan w) = Some ple"
  shows "pp_total_bytes ple = Inr (table_limit w)"
proof -
  have rows: "pp_total_rows ple = sum_list (map snd (map (\<lambda>s. (pw_first_row s, pw_num_rows s)) (pp_shards ple)))"
    "contig 0 (map (\<lambda>s. (pw_first_row s, pw_num_rows s)) (pp_shards ple))"
    using assms by (simp_all add: ple_region_ok_def ple_of_def comp_def)
  have "0 \<le> pp_total_rows ple" unfolding rows(1) by (rule contig_nonneg [OF rows(2)])
  then show ?thesis
    using assms by (simp add: pp_total_bytes_def ple_region_ok_def ple_of_def table_limit_def bytes_for_exact)
qed

lemma write_ple_run:
  assumes "ple_region_ok w" "write_ple w j = (io, res)"
  shows "\<exists>full r. write_region (table_pieces w) mark_shard shard_done (ple_work w) 1 (table_limit w) j = (full, r) \<and>
    io = take (length io) full \<and> (\<forall>j'. res = Inr j' \<longrightarrow> io = full \<and> r = Inr j')"
proof -
  obtain ple where p: "bp_ple (wr_plan w) = Some ple" using assms(1) by (auto simp: ple_region_ok_def)
  have "pp_total_bytes ple = Inr (table_limit w)" by (rule table_bytes [OF assms(1) p])
  then have "write_ple w j = write_region (table_pieces w) mark_shard shard_done (ple_work w) 1 (table_limit w) j"
    by (simp add: write_ple_def p table_pieces_def ple_work_def ple_of_def write_region_def)
  from this [symmetric] show ?thesis unfolding assms(2) by (rule region_take)
qed

interpretation dense_region: package_region dense_ok dense_items dense_pieces dense_limit mark_dense dense_done
  write_dense 1 DENSE_REGION
proof
  fix w i ps k q assume a: "dense_ok w" "i \<in> set (dense_items w)" "dense_pieces w i = Inr (ps, k)"
  then have ok: "dense_region_ok w" by (simp add: dense_ok_def)
  show "piece_fits (dense_limit w) q" if "q \<in> set ps" by (rule dense.item_fits [OF ok a(2,3) that])
  show "pieces_disjoint (ps ! x) (ps ! y)" if "x < y" "y < length ps" for x y
    by (rule dense.own_disjoint [OF ok a(2,3) that])
  show "pieces_disjoint q q'" if "i' \<in> set (dense_items w)" "i \<noteq> i'" "dense_pieces w i' = Inr (ps', k')" "q \<in> set ps" "q' \<in> set ps'"
    for i' ps' k' q' using dense.across_disjoint [OF ok a(2) that(1,2) a(3) that(3-5)] .
next
  show "dense_done (mark_dense (i, k) j) i' \<longleftrightarrow> i' = i \<or> dense_done j i'"
    if "dense_ok w" "i \<in> set (dense_items w)" "i' \<in> set (dense_items w)" for w i i' k j
    using that by (intro dense.mark_done [of w]) (simp_all add: dense_ok_def)
  show "0 < (1 :: nat)" by simp
  show "distinct (dense_items w)" if "dense_ok w" for w
    using that by (auto simp: dense_ok_def dense_region_ok_def dense_items_def Let_def distinct_map)
qed (rule write_dense_run)

interpretation bank_region: package_region expert_region_ok expert_work bank_pieces bank_limit mark_expert expert_done
  write_experts EXPERT_BATCH_ITEMS EXPERT_REGION
proof
  show "0 < EXPERT_BATCH_ITEMS" by (simp add: EXPERT_BATCH_ITEMS_def)
  show "distinct (expert_work w)" if "expert_region_ok w" for w
    using that by (auto simp: expert_region_ok_def expert_work_def distinct_map)
qed (rule write_experts_run)

interpretation table_region: package_region ple_region_ok ple_work table_pieces table_limit mark_shard shard_done
  write_ple 1 PLE_REGION
proof
  show "0 < (1 :: nat)" by simp
  show "distinct (ple_work w)" if "ple_region_ok w" for w
    using that by (auto simp: ple_region_ok_def ple_work_def distinct_map)
qed (rule write_ple_run)

section \<open>All regions at once\<close>

text \<open>A plan without experts or PLE table has no such region.\<close>

definition writer_ok :: "writer \<Rightarrow> bool" where
  "writer_ok w \<longleftrightarrow> dense_ok w \<and>
     (if pm_expert_layout (bp_manifest (wr_plan w)) = None then bp_experts (wr_plan w) = [] else expert_region_ok w) \<and>
     (bp_ple (wr_plan w) \<noteq> None \<longrightarrow> ple_region_ok w)"

definition has_bank :: "writer \<Rightarrow> bool" where
  "has_bank w \<longleftrightarrow> pm_expert_layout (bp_manifest (wr_plan w)) \<noteq> None"

definition has_ple :: "writer \<Rightarrow> bool" where
  "has_ple w \<longleftrightarrow> bp_ple (wr_plan w) \<noteq> None"

definition package_good :: "writer \<Rightarrow> package_disk \<Rightarrow> bool" where
  "package_good w pk \<longleftrightarrow> dense_region.region_good w pk \<and> (has_bank w \<longrightarrow> bank_region.region_good w pk) \<and>
     (has_ple w \<longrightarrow> table_region.region_good w pk)"

definition package_held :: "writer \<Rightarrow> package_disk \<Rightarrow> build_journal \<Rightarrow> bool" where
  "package_held w pk j \<longleftrightarrow> dense_region.held w pk j \<and> (has_bank w \<longrightarrow> bank_region.held w pk j) \<and>
     (has_ple w \<longrightarrow> table_region.held w pk j)"

definition fresh_or_saved :: "package_disk \<Rightarrow> build_journal \<Rightarrow> bool" where
  "fresh_or_saved pk j \<longleftrightarrow> pk_journal pk = Some j \<or>
     pk_journal pk = None \<and> bj_dense_done j = [] \<and> bj_expert_done j = [] \<and> bj_ple_done j = []"

lemma fresh_resumes:
  assumes "fresh_or_saved pk j"
  shows "dense.resumes w (region_view r pk) j" "experts.resumes w (region_view r pk) j" "shards.resumes w (region_view r pk) j"
  using assms
  by (auto simp: fresh_or_saved_def dense.resumes_def experts.resumes_def shards.resumes_def dense_done_def expert_done_def shard_done_def)

lemma mark_other [simp]:
  "expert_done (mark_dense dc j) i = expert_done j i" "shard_done (mark_dense dc j) s = shard_done j s"
  "dense_done (mark_expert ec j) d = dense_done j d" "shard_done (mark_expert ec j) s = shard_done j s"
  "dense_done (mark_shard sc j) d = dense_done j d" "expert_done (mark_shard sc j) i = expert_done j i"
  by (simp_all add: mark_dense_def mark_expert_def mark_shard_def dense_done_def expert_done_def shard_done_def split: prod.split)

lemma prefix_journal:
  "pk_journal (fold exec_pkg (map (RegionIO r) (take k io)) pk) = pk_journal pk \<or>
     (\<exists>j1. WJournal j1 \<in> set io \<and> pk_journal (fold exec_pkg (map (RegionIO r) (take k io)) pk) = Some j1)"
  using fold_journal [of "take k io" "region_view r pk"] by (auto simp: pkg_journal_fold dest: in_set_takeD)

text \<open>The state between two regions.\<close>

definition between :: "writer \<Rightarrow> package_disk \<Rightarrow> build_journal \<Rightarrow> bool" where
  "between w pk j \<longleftrightarrow> package_good w pk \<and> package_held w pk j \<and> fresh_or_saved pk j"

lemma between_start:
  assumes "package_good w pk" "fresh_or_saved pk j"
  shows "between w pk j"
  using assms fresh_resumes [OF assms(2)] dense_region.held_start bank_region.held_start table_region.held_start
  by (auto simp: between_def package_good_def package_held_def)

lemma whole_run: "fold exec_pkg (map (RegionIO r) io) pk = fold exec_pkg (map (RegionIO r) (take (length io) io)) pk"
  by simp

lemma dense_step:
  assumes ok: "writer_ok w" and b: "between w pk j" and run: "write_dense w j = (io, res)"
  shows "package_good w (fold exec_pkg (map (RegionIO DENSE_REGION) (take k io)) pk)"
    and "res = Inr j' \<Longrightarrow> between w (fold exec_pkg (map (RegionIO DENSE_REGION) io) pk) j' \<and>
      (\<forall>i \<in> set (dense_items w). dense_done j' i)"
proof -
  have d: "dense_ok w" using ok by (simp add: writer_ok_def)
  have g: "package_good w pk" "package_held w pk j" "fresh_or_saved pk j" using b by (auto simp: between_def)
  note own = dense_region.own_step [OF d conjunct1 [OF g(1) [unfolded package_good_def]] fresh_resumes(1) [OF g(3)] run]
  note je = dense_region.run_journals [OF d run, where P = expert_done, OF mark_other(1)]
  note js = dense_region.run_journals [OF d run, where P = shard_done, OF mark_other(2)]
  have frame: "package_good w (fold exec_pkg (map (RegionIO DENSE_REGION) (take k io)) pk)" for k
    unfolding package_good_def
  proof (intro conjI impI)
    let ?pk = "fold exec_pkg (map (RegionIO DENSE_REGION) (take k io)) pk"
    show "dense_region.region_good w ?pk" by (rule own(1))
    show "bank_region.region_good w ?pk" if "has_bank w"
      by (rule bank_region.good_frame [of w pk j])
        (use that g prefix_journal [of DENSE_REGION k io pk] je(1) in \<open>auto simp: package_good_def package_held_def file_other\<close>)
    show "table_region.region_good w ?pk" if "has_ple w"
      by (rule table_region.good_frame [of w pk j])
        (use that g prefix_journal [of DENSE_REGION k io pk] js(1) in \<open>auto simp: package_good_def package_held_def file_other\<close>)
  qed
  then show "package_good w (fold exec_pkg (map (RegionIO DENSE_REGION) (take k io)) pk)" .
  assume r: "res = Inr j'"
  let ?pk = "fold exec_pkg (map (RegionIO DENSE_REGION) io) pk"
  have "package_good w ?pk" using frame [of "length io"] by simp
  moreover have "package_held w ?pk j'"
    using own(2) [OF r] g(2) je(2) [OF r] js(2) [OF r]
    by (auto simp: package_held_def file_other intro: bank_region.held_frame table_region.held_frame)
  moreover have "fresh_or_saved ?pk j'" using own(2) [OF r] g(3) by (auto simp: fresh_or_saved_def)
  ultimately show "between w ?pk j' \<and> (\<forall>i \<in> set (dense_items w). dense_done j' i)"
    using own(2) [OF r] by (simp add: between_def)
qed

lemma expert_step:
  assumes ok: "writer_ok w" and b: "between w pk j" and run: "write_experts w j = (io, res)"
  shows "package_good w (fold exec_pkg (map (RegionIO EXPERT_REGION) (take k io)) pk)"
    and "res = Inr j' \<Longrightarrow> between w (fold exec_pkg (map (RegionIO EXPERT_REGION) io) pk) j' \<and>
      (\<forall>i \<in> set (bp_experts (wr_plan w)). expert_done j' i) \<and> (\<forall>d. dense_done j' d = dense_done j d)"
proof -
  have g: "package_good w pk" "package_held w pk j" "fresh_or_saved pk j" using b by (auto simp: between_def)
  have "(package_good w (fold exec_pkg (map (RegionIO EXPERT_REGION) (take k io)) pk)) \<and>
    (res = Inr j' \<longrightarrow> between w (fold exec_pkg (map (RegionIO EXPERT_REGION) io) pk) j' \<and>
      (\<forall>i \<in> set (bp_experts (wr_plan w)). expert_done j' i) \<and> (\<forall>d. dense_done j' d = dense_done j d))"
  proof (cases "has_bank w")
    case False
    then show ?thesis using run b ok by (auto simp: write_experts_def has_bank_def writer_ok_def between_def)
  next
    case True
    have e: "expert_region_ok w" using ok True by (auto simp: writer_ok_def has_bank_def split: if_splits)
    have gb: "bank_region.region_good w pk" using g(1) True by (simp add: package_good_def)
    note own = bank_region.own_step [OF e gb fresh_resumes(2) [OF g(3)] run]
    note jd = bank_region.run_journals [OF e run, where P = dense_done, OF mark_other(3)]
    note js = bank_region.run_journals [OF e run, where P = shard_done, OF mark_other(4)]
    have frame: "package_good w (fold exec_pkg (map (RegionIO EXPERT_REGION) (take k io)) pk)" for k
      unfolding package_good_def
    proof (intro conjI impI)
      let ?pk = "fold exec_pkg (map (RegionIO EXPERT_REGION) (take k io)) pk"
      show "bank_region.region_good w ?pk" by (rule own(1))
      show "dense_region.region_good w ?pk"
        by (rule dense_region.good_frame [of w pk j])
          (use g prefix_journal [of EXPERT_REGION k io pk] jd(1) in \<open>auto simp: package_good_def package_held_def file_other\<close>)
      show "table_region.region_good w ?pk" if "has_ple w"
        by (rule table_region.good_frame [of w pk j])
          (use that g prefix_journal [of EXPERT_REGION k io pk] js(1) in \<open>auto simp: package_good_def package_held_def file_other\<close>)
    qed
    show ?thesis
    proof (intro conjI impI)
      assume r: "res = Inr j'"
      let ?pk = "fold exec_pkg (map (RegionIO EXPERT_REGION) io) pk"
      have "package_good w ?pk" using frame [of "length io"] by simp
      moreover have "package_held w ?pk j'"
        using own(2) [OF r] g(2) jd(2) [OF r] js(2) [OF r]
        by (auto simp: package_held_def file_other intro: dense_region.held_frame table_region.held_frame)
      moreover have "fresh_or_saved ?pk j'" using own(2) [OF r] g(3) by (auto simp: fresh_or_saved_def)
      ultimately show "between w ?pk j'" by (simp add: between_def)
      show "\<forall>i \<in> set (bp_experts (wr_plan w)). expert_done j' i" using own(2) [OF r] by (simp add: expert_work_def)
      show "\<forall>d. dense_done j' d = dense_done j d" using jd(2) [OF r] by simp
    qed (rule frame)
  qed
  then show "package_good w (fold exec_pkg (map (RegionIO EXPERT_REGION) (take k io)) pk)"
    "res = Inr j' \<Longrightarrow> between w (fold exec_pkg (map (RegionIO EXPERT_REGION) io) pk) j' \<and>
      (\<forall>i \<in> set (bp_experts (wr_plan w)). expert_done j' i) \<and> (\<forall>d. dense_done j' d = dense_done j d)"
    by blast+
qed

lemma ple_step:
  assumes ok: "writer_ok w" and b: "between w pk j" and run: "write_ple w j = (io, res)"
  shows "package_good w (fold exec_pkg (map (RegionIO PLE_REGION) (take k io)) pk)"
    and "res = Inr j' \<Longrightarrow> between w (fold exec_pkg (map (RegionIO PLE_REGION) io) pk) j' \<and>
      (\<forall>s \<in> set (ple_shards (wr_plan w)). shard_done j' s) \<and> (\<forall>d. dense_done j' d = dense_done j d) \<and>
      (\<forall>i. expert_done j' i = expert_done j i)"
proof -
  have g: "package_good w pk" "package_held w pk j" "fresh_or_saved pk j" using b by (auto simp: between_def)
  have "(package_good w (fold exec_pkg (map (RegionIO PLE_REGION) (take k io)) pk)) \<and>
    (res = Inr j' \<longrightarrow> between w (fold exec_pkg (map (RegionIO PLE_REGION) io) pk) j' \<and>
      (\<forall>s \<in> set (ple_shards (wr_plan w)). shard_done j' s) \<and> (\<forall>d. dense_done j' d = dense_done j d) \<and>
      (\<forall>i. expert_done j' i = expert_done j i))"
  proof (cases "has_ple w")
    case False
    then show ?thesis using run b by (auto simp: write_ple_def has_ple_def between_def ple_shards_def)
  next
    case True
    have e: "ple_region_ok w" using ok True by (auto simp: writer_ok_def has_ple_def)
    have gt: "table_region.region_good w pk" using g(1) True by (simp add: package_good_def)
    note own = table_region.own_step [OF e gt fresh_resumes(3) [OF g(3)] run]
    note jd = table_region.run_journals [OF e run, where P = dense_done, OF mark_other(5)]
    note je = table_region.run_journals [OF e run, where P = expert_done, OF mark_other(6)]
    have frame: "package_good w (fold exec_pkg (map (RegionIO PLE_REGION) (take k io)) pk)" for k
      unfolding package_good_def
    proof (intro conjI impI)
      let ?pk = "fold exec_pkg (map (RegionIO PLE_REGION) (take k io)) pk"
      show "table_region.region_good w ?pk" by (rule own(1))
      show "dense_region.region_good w ?pk"
        by (rule dense_region.good_frame [of w pk j])
          (use g prefix_journal [of PLE_REGION k io pk] jd(1) in \<open>auto simp: package_good_def package_held_def file_other\<close>)
      show "bank_region.region_good w ?pk" if "has_bank w"
        by (rule bank_region.good_frame [of w pk j])
          (use that g prefix_journal [of PLE_REGION k io pk] je(1) in \<open>auto simp: package_good_def package_held_def file_other\<close>)
    qed
    show ?thesis
    proof (intro conjI impI)
      assume r: "res = Inr j'"
      let ?pk = "fold exec_pkg (map (RegionIO PLE_REGION) io) pk"
      have "package_good w ?pk" using frame [of "length io"] by simp
      moreover have "package_held w ?pk j'"
        using own(2) [OF r] g(2) jd(2) [OF r] je(2) [OF r]
        by (auto simp: package_held_def file_other intro: dense_region.held_frame bank_region.held_frame)
      moreover have "fresh_or_saved ?pk j'" using own(2) [OF r] g(3) by (auto simp: fresh_or_saved_def)
      ultimately show "between w ?pk j'" by (simp add: between_def)
      show "\<forall>s \<in> set (ple_shards (wr_plan w)). shard_done j' s"
        using own(2) [OF r] True by (auto simp: ple_work_def ple_of_def ple_shards_def has_ple_def)
      show "\<forall>d. dense_done j' d = dense_done j d" "\<forall>i. expert_done j' i = expert_done j i"
        using jd(2) [OF r] je(2) [OF r] by simp_all
    qed (rule frame)
  qed
  then show "package_good w (fold exec_pkg (map (RegionIO PLE_REGION) (take k io)) pk)"
    "res = Inr j' \<Longrightarrow> between w (fold exec_pkg (map (RegionIO PLE_REGION) io) pk) j' \<and>
      (\<forall>s \<in> set (ple_shards (wr_plan w)). shard_done j' s) \<and> (\<forall>d. dense_done j' d = dense_done j d) \<and>
      (\<forall>i. expert_done j' i = expert_done j i)"
    by blast+
qed

section \<open>The build\<close>

lemma run_regions_three:
  "run_regions (region_writers w) j =
     (case write_dense w j of (io1, r1) \<Rightarrow> (case r1 of Inl e \<Rightarrow> (map (RegionIO DENSE_REGION) io1, Inl e) | Inr j1 \<Rightarrow>
     (case write_experts w j1 of (io2, r2) \<Rightarrow> (case r2 of
        Inl e \<Rightarrow> (map (RegionIO DENSE_REGION) io1 @ map (RegionIO EXPERT_REGION) io2, Inl e) | Inr j2 \<Rightarrow>
     (case write_ple w j2 of (io3, r3) \<Rightarrow>
        (map (RegionIO DENSE_REGION) io1 @ map (RegionIO EXPERT_REGION) io2 @ map (RegionIO PLE_REGION) io3, r3))))))"
  by (auto simp: region_writers_def split: prod.splits sum.splits)

lemma take_append_map:
  "fold exec_pkg (take k (map (RegionIO r) io @ rest)) pk =
     (if k \<le> length io then fold exec_pkg (map (RegionIO r) (take k io)) pk
      else fold exec_pkg (take (k - length io) rest) (fold exec_pkg (map (RegionIO r) io) pk))"
  by (simp add: take_map)

lemma regions_step:
  assumes ok: "writer_ok w" and b: "between w pk j" and run: "run_regions (region_writers w) j = (io, res)"
  shows "package_good w (fold exec_pkg (take k io) pk)"
    and "res = Inr j' \<Longrightarrow> between w (fold exec_pkg io pk) j' \<and> (\<forall>i \<in> set (bp_dense (wr_plan w)). dense_done j' i) \<and>
      (\<forall>i \<in> set (bp_experts (wr_plan w)). expert_done j' i) \<and> (\<forall>s \<in> set (ple_shards (wr_plan w)). shard_done j' s)"
proof -
  obtain io1 r1 where d: "write_dense w j = (io1, r1)" by (meson surj_pair)
  note s1 = dense_step [OF ok b d]
  have "package_good w (fold exec_pkg (take k io) pk) \<and> (res = Inr j' \<longrightarrow>
    between w (fold exec_pkg io pk) j' \<and> (\<forall>i \<in> set (bp_dense (wr_plan w)). dense_done j' i) \<and>
      (\<forall>i \<in> set (bp_experts (wr_plan w)). expert_done j' i) \<and> (\<forall>s \<in> set (ple_shards (wr_plan w)). shard_done j' s))"
  proof (cases r1)
    case (Inl e)
    then show ?thesis using run s1(1) by (auto simp: run_regions_three d take_map)
  next
    case (Inr j1)
    obtain io2 r2 where e: "write_experts w j1 = (io2, r2)" by (meson surj_pair)
    note b1 = s1(2) [OF Inr]
    note s2 = expert_step [OF ok conjunct1 [OF b1] e]
    show ?thesis
    proof (cases r2)
      case (Inl x)
      then have "io = map (RegionIO DENSE_REGION) io1 @ map (RegionIO EXPERT_REGION) io2" "res = Inl x"
        using run by (simp_all add: run_regions_three d Inr e)
      then show ?thesis using s1(1) s2(1) by (simp only: take_append_map) (simp add: take_map)
    next
      case j2: (Inr j2)
      obtain io3 r3 where p: "write_ple w j2 = (io3, r3)" by (meson surj_pair)
      note b2 = s2(2) [OF j2]
      note s3 = ple_step [OF ok conjunct1 [OF b2] p]
      have io: "io = map (RegionIO DENSE_REGION) io1 @ map (RegionIO EXPERT_REGION) io2 @ map (RegionIO PLE_REGION) io3"
        "res = r3" using run by (simp_all add: run_regions_three d Inr e j2 p)
      have "package_good w (fold exec_pkg (take k io) pk)"
        unfolding io(1) take_append_map using s1(1) s2(1) s3(1) by (simp add: take_map)
      moreover have "between w (fold exec_pkg io pk) j' \<and> (\<forall>i \<in> set (bp_dense (wr_plan w)). dense_done j' i) \<and>
        (\<forall>i \<in> set (bp_experts (wr_plan w)). expert_done j' i) \<and> (\<forall>s \<in> set (ple_shards (wr_plan w)). shard_done j' s)"
        if "res = Inr j'"
        using s3(2) [of j'] that b1 b2 by (simp add: io dense_items_def)
      ultimately show ?thesis by blast
    qed
  qed
  then show "package_good w (fold exec_pkg (take k io) pk)"
    "res = Inr j' \<Longrightarrow> between w (fold exec_pkg io pk) j' \<and> (\<forall>i \<in> set (bp_dense (wr_plan w)). dense_done j' i) \<and>
      (\<forall>i \<in> set (bp_experts (wr_plan w)). expert_done j' i) \<and> (\<forall>s \<in> set (ple_shards (wr_plan w)). shard_done j' s)"
    by blast+
qed

lemma meta_fields [simp]:
  "pk_file (fold exec_pkg (map MetaIO ms) pk) = pk_file pk" "pk_journal (fold exec_pkg (map MetaIO ms) pk) = pk_journal pk"
  by (induction ms arbitrary: pk) (simp_all add: exec_pkg_def)

lemma view_same: "pk_file pk' = pk_file pk \<Longrightarrow> pk_journal pk' = pk_journal pk \<Longrightarrow> region_view r pk' = region_view r pk"
  by (auto simp: region_view_def split: option.splits)

lemma good_same: "pk_file pk' = pk_file pk \<Longrightarrow> pk_journal pk' = pk_journal pk \<Longrightarrow> package_good w pk' = package_good w pk"
  using view_same [of pk' pk]
  by (simp add: package_good_def dense_region.region_good_def bank_region.region_good_def table_region.region_good_def)

lemma finished_done [simp]:
  "dense_done (j\<lparr>bj_finished := True\<rparr>) i = dense_done j i" "expert_done (j\<lparr>bj_finished := True\<rparr>) e = expert_done j e"
  "shard_done (j\<lparr>bj_finished := True\<rparr>) s = shard_done j s"
  by (simp_all add: dense_done_def expert_done_def shard_done_def)

lemma good_finish:
  assumes b: "between w pk j" and pk': "pk_file pk' = pk_file pk" "pk_journal pk' = Some (j\<lparr>bj_finished := True\<rparr>)"
  shows "package_good w pk' \<and> package_held w pk' (j\<lparr>bj_finished := True\<rparr>)"
proof -
  have fd: "pk_file pk' r = pk_file pk r" for r using pk'(1) by simp
  have b': "package_good w pk" "package_held w pk j" using b by (auto simp: between_def)
  have "package_good w pk'"
    unfolding package_good_def
  proof (intro conjI impI)
    show "dense_region.region_good w pk'"
      by (rule dense_region.good_frame [OF _ _ fd]) (use b' pk'(2) in \<open>auto simp: package_good_def package_held_def\<close>)
    show "bank_region.region_good w pk'" if "has_bank w"
      by (rule bank_region.good_frame [OF _ _ fd]) (use that b' pk'(2) in \<open>auto simp: package_good_def package_held_def\<close>)
    show "table_region.region_good w pk'" if "has_ple w"
      by (rule table_region.good_frame [OF _ _ fd]) (use that b' pk'(2) in \<open>auto simp: package_good_def package_held_def\<close>)
  qed
  moreover have "package_held w pk' (j\<lparr>bj_finished := True\<rparr>)"
    using b'(2) by (auto simp: package_held_def fd intro: dense_region.held_frame bank_region.held_frame table_region.held_frame)
  ultimately show ?thesis ..
qed

lemma build_parts:
  assumes "build w free pk = (io, r)"
  obtains (early) "io = []" "\<forall>out. r \<noteq> Inr out"
  | (stopped) j ix e where "load_journal w (pk_journal pk) = Inr j" "materialize_ple_index w = Inr ix"
      "run_regions (region_writers w) j = (io, Inl e)" "r = Inl e"
  | (ran) j ix rio j' ms where "load_journal w (pk_journal pk) = Inr j" "materialize_ple_index w = Inr ix"
      "run_regions (region_writers w) j = (rio, Inr j')"
      "io = rio @ map MetaIO ms \<and> (\<forall>out. r \<noteq> Inr out) \<or>
       io = rio @ map MetaIO ms @ [JournalIO (j'\<lparr>bj_finished := True\<rparr>)]"
  using assms
proof -
  let ?start = "bindE (preflight_disk_space (wr_plan w) free (region_sizes pk)) (\<lambda>_.
           bindE (load_journal w (pk_journal pk)) (\<lambda>j. bindE (materialize_ple_index w) (\<lambda>ix. Inr (j, ix))))"
  show thesis
  proof (cases ?start)
    case (Inl e)
    then show thesis using assms early by (auto simp: build_def)
  next
    case (Inr x)
    then obtain j ix where s: "load_journal w (pk_journal pk) = Inr j" "materialize_ple_index w = Inr ix" "x = (j, ix)"
      by (auto simp: bindE_Inr_iff)
    obtain rio res where rr: "run_regions (region_writers w) j = (rio, res)" by (meson surj_pair)
    have b: "build w free pk = (case res of Inl e \<Rightarrow> (rio, Inl e) | Inr j' \<Rightarrow> finish_build w pk ix j rio j')"
      unfolding build_def Inr s(3) by (simp add: rr)
    show thesis
    proof (cases res)
      case (Inl e)
      then show thesis using stopped [OF s(1,2)] rr b assms by simp
    next
      case j': (Inr j')
      obtain ms m where "write_metadata w (fold exec_pkg rio pk) ix j' = (ms, m)" by (meson surj_pair)
      then have "io = rio @ map MetaIO ms \<and> (\<forall>out. r \<noteq> Inr out) \<or>
          io = rio @ map MetaIO ms @ [JournalIO (j'\<lparr>bj_finished := True\<rparr>)]"
        using b j' assms by (auto simp: finish_build_def split: sum.splits)
      then show thesis using ran [OF s(1,2)] rr j' by simp
    qed
  qed
qed

lemma load_fresh_or_saved:
  assumes "load_journal w (pk_journal pk) = Inr j" "wr_resume w \<or> pk_journal pk = None"
  shows "fresh_or_saved pk j"
  using assms by (auto simp: load_journal_def fresh_or_saved_def empty_journal_def Let_def split: option.splits if_splits)

lemma build_prefix_good:
  assumes ok: "writer_ok w" and g: "package_good w pk" and res: "wr_resume w \<or> pk_journal pk = None"
    and b: "build w free pk = (io, r)"
  shows "package_good w (fold exec_pkg (take k io) pk)"
  using b
proof (cases rule: build_parts)
  case early
  then show ?thesis using g by simp
next
  case (stopped j ix e)
  then show ?thesis using regions_step(1) [OF ok between_start [OF g load_fresh_or_saved [OF _ res]]] by blast
next
  case (ran j ix rio j' ms)
  have bt: "between w pk j" by (rule between_start [OF g load_fresh_or_saved [OF ran(1) res]])
  note st = regions_step [OF ok bt ran(3)]
  let ?pk = "fold exec_pkg rio pk"
  have fin: "between w ?pk j'" using st(2) by blast
  have meta: "package_good w (fold exec_pkg (map MetaIO xs) ?pk)" for xs
    using fin good_same [of "fold exec_pkg (map MetaIO xs) ?pk" ?pk] by (simp add: between_def)
  have all: "package_good w (fold exec_pkg (map MetaIO ms @ [JournalIO (j'\<lparr>bj_finished := True\<rparr>)]) ?pk)"
    using good_finish [OF fin] by (simp add: exec_pkg_def)
  show ?thesis
  proof (cases "k \<le> length rio")
    case True
    then have "take k io = take k rio" using ran(4) by auto
    then show ?thesis using st(1) by simp
  next
    case False
    then obtain n where k: "k = length rio + n" using le_Suc_ex nat_le_linear by blast
    show ?thesis
    proof (cases "n \<le> length ms")
      case True
      then have "take k io = rio @ map MetaIO (take n ms)" using ran(4) by (auto simp: k take_map)
      then show ?thesis using meta by simp
    next
      case False
      then have "take k io = io" using ran(4) by (auto simp: k)
      then show ?thesis using ran(4) meta [of ms] all by auto
    qed
  qed
qed

end
