(* ===== verification/PlanLaws.thy ===== *)
theory PlanLaws
  imports Plan
begin

text \<open>
  What the planner guarantees: dense addresses are aligned, ordered and disjoint inside the
  blob; every expert has its own record; PLE shards tile the table; and the PLE index it emits
  satisfies the conditions of the address translation.
\<close>

section \<open>Well-formed inputs\<close>

definition tensor_ok :: "tensor_address \<Rightarrow> bool" where
  "tensor_ok a \<longleftrightarrow> (\<forall>d \<in> set (ta_shape a). 0 \<le> d) \<and> 0 \<le> fst (matrix_dims (ta_shape a)) \<and> 0 < snd (matrix_dims (ta_shape a))"

definition scan_ok :: "shard_header_scan \<Rightarrow> bool" where
  "scan_ok scan \<longleftrightarrow> od_ok (sc_tensors scan) \<and>
     (\<forall>(n, a) \<in> set (sc_tensors scan). ta_name a = n \<and> tensor_ok a)"

definition map_ok :: "precision_map \<Rightarrow> bool" where
  "map_ok m \<longleftrightarrow> (\<forall>c \<in> set all_components. 0 \<le> pe_bits (entry_for m c))"

lemma all_components [simp]: "c \<in> set all_components"
  by (cases c) (simp_all add: all_components_def)

lemma map_ok_bits: "map_ok m \<Longrightarrow> 0 \<le> pe_bits (entry_for m c)"
  by (simp add: map_ok_def)

lemma scan_names: "scan_ok scan \<Longrightarrow> map ta_name (map snd (sc_tensors scan)) = od_keys (sc_tensors scan)"
  by (auto simp: scan_ok_def od_keys_def)

lemma scan_tensor_ok: "scan_ok scan \<Longrightarrow> a \<in> set (map snd (sc_tensors scan)) \<Longrightarrow> tensor_ok a"
  by (auto simp: scan_ok_def)

section \<open>The dense blob\<close>

abbreviation dw_name :: "dense_work_item \<Rightarrow> string" where
  "dw_name i \<equiv> ta_name (dw_address i)"

fun blob_ok :: "int \<Rightarrow> dense_work_item list \<Rightarrow> int \<Rightarrow> bool" where
  "blob_ok c [] e \<longleftrightarrow> c \<le> e"
| "blob_ok c (i # is) e \<longleftrightarrow> c \<le> dw_byte_offset i \<and> 64 dvd dw_byte_offset i \<and> 0 \<le> dw_length i \<and>
     blob_ok (dw_byte_offset i + dw_length i) is e"

lemma blob_ok_weaken: "blob_ok c is e \<Longrightarrow> c' \<le> c \<Longrightarrow> blob_ok c' is e"
  by (cases "is") auto

lemma blob_ok_end: "blob_ok c is e \<Longrightarrow> c \<le> e"
  by (induction c "is" e rule: blob_ok.induct) auto

lemma blob_ok_bounds:
  "blob_ok c is e \<Longrightarrow> i \<in> set is \<Longrightarrow>
     c \<le> dw_byte_offset i \<and> 64 dvd dw_byte_offset i \<and> 0 \<le> dw_length i \<and> dw_byte_offset i + dw_length i \<le> e"
proof (induction c "is" e rule: blob_ok.induct)
  case (2 c x xs e)
  then show ?case using blob_ok_end [of "dw_byte_offset x + dw_length x" xs e] by auto
qed simp

lemma blob_ok_disjoint:
  "blob_ok c is e \<Longrightarrow> x < y \<Longrightarrow> y < length is \<Longrightarrow>
     dw_byte_offset (is ! x) + dw_length (is ! x) \<le> dw_byte_offset (is ! y)"
proof (induction c "is" e arbitrary: x y rule: blob_ok.induct)
  case (2 c z zs e)
  obtain y' where y: "y = Suc y'" using 2 by (cases y) auto
  show ?case
  proof (cases x)
    case 0
    then show ?thesis using "2.prems" y blob_ok_bounds [of "dw_byte_offset z + dw_length z" zs e "zs ! y'"] by auto
  next
    case (Suc x')
    then show ?thesis using 2 y by auto
  qed
qed simp

lemma dw_length_offset [simp]: "dw_length (i\<lparr>dw_byte_offset := c\<rparr>) = dw_length i"
  by (simp add: dw_length_def)

lemma place_dense_ok:
  "place_dense is c = (out, e) \<Longrightarrow> \<forall>i \<in> set is. 0 \<le> dw_length i \<Longrightarrow> 64 dvd c \<Longrightarrow>
     blob_ok c out e \<and> list_all2 (\<lambda>i j. \<exists>o1. j = i\<lparr>dw_byte_offset := o1\<rparr>) is out"
proof (induction "is" arbitrary: c out)
  case (Cons i "is")
  let ?c = "align_up (c + dw_length i) 64"
  obtain out' where p: "place_dense is ?c = (out', e)" "out = i\<lparr>dw_byte_offset := c\<rparr> # out'"
    using Cons.prems(1) by (auto simp: DENSE_ENTRY_ALIGNMENT_def split: prod.splits)
  have "blob_ok ?c out' e \<and> list_all2 (\<lambda>i j. \<exists>o1. j = i\<lparr>dw_byte_offset := o1\<rparr>) is out'"
    using Cons.prems(2) by (intro Cons.IH [OF p(1)]) (simp_all add: align_up_dvd)
  then show ?case using Cons.prems(2,3) align_up_ge [of "c + dw_length i" 64]
    by (auto simp: p(2) intro: blob_ok_weaken)
qed simp

lemma representatives_ok:
  assumes "distinct (map dw_name xs)"
  shows "distinct (map dw_name (representatives xs)) \<and> set (representatives xs) \<subseteq> set xs"
proof -
  let ?step = "\<lambda>i d. if od_in (dw_component i) d then d else od_set d (dw_component i) i"
  have fold: "distinct (map dw_name (map snd (fold ?step ys d) )) \<and> set (map snd (fold ?step ys d)) \<subseteq> set (map snd d) \<union> set ys"
    if "distinct (map dw_name ys)" "distinct (map dw_name (map snd d))" "set (map dw_name (map snd d)) \<inter> set (map dw_name ys) = {}"
    for ys and d :: "(component, dense_work_item) odict"
    using that
  proof (induction ys arbitrary: d)
    case (Cons y ys)
    show ?case
    proof (cases "od_in (dw_component y) d")
      case True
      then show ?thesis using Cons.IH [of d] Cons.prems by auto
    next
      case False
      then have s: "od_set d (dw_component y) y = d @ [(dw_component y, y)]" by (rule od_set_new)
      have "distinct (map dw_name (map snd (d @ [(dw_component y, y)])))"
        "set (map dw_name (map snd (d @ [(dw_component y, y)]))) \<inter> set (map dw_name ys) = {}"
        using Cons.prems by auto
      then show ?thesis using Cons.IH [of "d @ [(dw_component y, y)]"] Cons.prems(1) False s by auto
    qed
  qed simp
  have "distinct (map dw_name (sort_key dw_name xs))" using assms by (simp add: distinct_map)
  from fold [OF this, of "[]"] show ?thesis unfolding representatives_def by auto
qed

lemma dense_item_ok:
  assumes "dense_item m meth a = Inr i" "tensor_ok a" "map_ok m"
  shows "dw_address i = a \<and> spans_ok (dw_spans i) \<and> 0 \<le> dw_length i \<and> dw_packed_bytes i = dw_length i \<and>
    (16 \<le> dw_bits i \<longrightarrow> length (dw_spans i) = 1)"
proof -
  obtain rows n where d: "matrix_dims (ta_shape a) = (rows, n)" by (cases "matrix_dims (ta_shape a)")
  define c where "c = cr_component (classify_tensor (ta_name a) None)"
  define g where "g = resolve_group_size n (pe_group_size (entry_for m c))"
  obtain spans where s: "section_spans (ta_shape a) (pe_bits (entry_for m c)) g (pe_symmetric (entry_for m c)) 2 2 = Inr spans"
    "dw_address i = a" "dw_spans i = spans" "dw_packed_bytes i = spans_length spans" "dw_bits i = pe_bits (entry_for m c)"
    using assms(1) by (auto simp: dense_item_def Let_def bindE_Inr_iff d c_def g_def)
  have "spans_ok spans"
    using section_spans_ok [OF d, where bits = "pe_bits (entry_for m c)" and g = g and symm = "pe_symmetric (entry_for m c)" and sb = 2 and zb = 2]
      s(1) assms(2) map_ok_bits [OF assms(3)] by (auto simp: tensor_ok_def d)
  moreover from this have "0 \<le> spans_length spans"
    by (auto simp: spans_ok_def spans_length_segs intro: contig_nonneg)
  moreover have "length spans = 1" if "16 \<le> pe_bits (entry_for m c)"
    using s(1) that by (auto simp: section_spans_def d)
  ultimately show ?thesis using s by (simp add: dw_length_def)
qed

lemma plan_dense_ok:
  assumes p: "plan_dense scan m features meth profile ple = Inr (dense, n)" and scan: "scan_ok scan" and m: "map_ok m"
  shows "blob_ok 0 dense n" "sorted (map dw_name dense)" "distinct (map dw_name dense)"
    "\<forall>i \<in> set dense. spans_ok (dw_spans i) \<and> (16 \<le> dw_bits i \<longrightarrow> length (dw_spans i) = 1) \<and>
       dw_address i \<in> set (map snd (sc_tensors scan)) \<and> is_dense_tensor features ple (dw_address i)"
    "profile \<noteq> ''canary'' \<Longrightarrow>
       set (map dw_address dense) = set (filter (is_dense_tensor features ple) (map snd (sc_tensors scan)))"
proof -
  let ?as = "filter (is_dense_tensor features ple) (map snd (sc_tensors scan))"
  obtain all where all: "mapE (dense_item m meth) ?as = Inr all"
    and out: "place_dense (sort_key dw_name (if profile = ''canary'' then representatives all else all)) 0 = (dense, n)"
    using p by (auto simp: plan_dense_def Let_def bindE_Inr_iff)
  define sel where "sel = sort_key dw_name (if profile = ''canary'' then representatives all else all)"
  have it: "dw_address i \<in> set ?as \<and> spans_ok (dw_spans i) \<and> 0 \<le> dw_length i \<and>
      (16 \<le> dw_bits i \<longrightarrow> length (dw_spans i) = 1)" if i: "i \<in> set all" for i
  proof -
    obtain a where a: "a \<in> set ?as" "dense_item m meth a = Inr i" using mapE_mem [OF all i] by blast
    have "tensor_ok a" using a(1) scan_tensor_ok [OF scan] by simp
    then show ?thesis using dense_item_ok [OF a(2) _ m] a(1) by simp
  qed
  have "dw_address y = a" if "dense_item m meth a = Inr y" for a y
    using that by (auto simp: dense_item_def Let_def bindE_Inr_iff)
  then have addr: "map dw_address all = ?as"
    using mapE_map [OF all, of dw_address "\<lambda>a. a"] by simp
  have "distinct (map ta_name (map snd (sc_tensors scan)))" using scan scan_names [OF scan] by (simp add: scan_ok_def od_ok_def)
  then have "distinct (map ta_name ?as)" by (rule distinct_map_filter)
  moreover have names: "map dw_name is = map ta_name (map dw_address is)" for "is" by simp
  ultimately have dist: "distinct (map dw_name all)" by (simp only: names addr)
  have rep: "distinct (map dw_name (representatives all))" "set (representatives all) \<subseteq> set all"
    using representatives_ok [OF dist] by auto
  have sub: "set sel \<subseteq> set all" using rep(2) by (auto simp: sel_def)
  have dsel: "distinct (map dw_name sel)" using rep(1) dist by (auto simp: sel_def distinct_map)
  have ssel: "sorted (map dw_name sel)" by (simp add: sel_def)
  have pl: "blob_ok 0 dense n" "list_all2 (\<lambda>i j. \<exists>o1. j = i\<lparr>dw_byte_offset := o1\<rparr>) sel dense"
    using place_dense_ok [OF out [folded sel_def]] sub it by auto
  show "blob_ok 0 dense n" by (rule pl(1))
  have same: "map dw_address dense = map dw_address sel"
    using pl(2) by (auto simp: list_all2_conv_all_nth intro!: nth_equalityI)
  then have "map dw_name dense = map dw_name sel" by (simp only: names)
  then show "sorted (map dw_name dense)" "distinct (map dw_name dense)" using ssel dsel by simp_all
  show "\<forall>i \<in> set dense. spans_ok (dw_spans i) \<and> (16 \<le> dw_bits i \<longrightarrow> length (dw_spans i) = 1) \<and>
       dw_address i \<in> set (map snd (sc_tensors scan)) \<and> is_dense_tensor features ple (dw_address i)"
  proof
    fix j assume "j \<in> set dense"
    then obtain k where k: "k < length dense" "dense ! k = j" by (auto simp: in_set_conv_nth)
    moreover have "length sel = length dense" using pl(2) by (rule list_all2_lengthD)
    then have "sel ! k \<in> set all" using k(1) sub by auto
    ultimately obtain o1 where "j = (sel ! k)\<lparr>dw_byte_offset := o1\<rparr>" "sel ! k \<in> set all"
      using list_all2_nthD2 [OF pl(2) k(1)] by auto
    then show "spans_ok (dw_spans j) \<and> (16 \<le> dw_bits j \<longrightarrow> length (dw_spans j) = 1) \<and>
       dw_address j \<in> set (map snd (sc_tensors scan)) \<and> is_dense_tensor features ple (dw_address j)"
      using it [of "sel ! k"] by simp
  qed
  show "set (map dw_address dense) = set ?as" if "profile \<noteq> ''canary''"
  proof -
    have "set sel = set all" using that by (simp add: sel_def)
    then have "set (map dw_address dense) = dw_address ` set all" unfolding same by simp
    then show ?thesis by (simp only: addr flip: set_map)
  qed
qed

section \<open>Experts\<close>

definition signature_ok :: "signature \<Rightarrow> bool" where
  "signature_ok sig \<longleftrightarrow> distinct (map fst sig) \<and>
     (\<forall>(name, shape, dtype) \<in> set sig. 0 \<le> fst (matrix_dims shape) \<and> 0 < snd (matrix_dims shape))"

lemma bank_tensors_ok: "od_ok (expert_bank_tensors tensors)"
proof -
  have "od_ok (fold (\<lambda>(name, address) banks.
       if cr_component (classify_tensor (ta_name address) None) \<noteq> EXPERTS_ROUTED then banks
       else case layer_index (ta_name address) of None \<Rightarrow> banks | Some layer \<Rightarrow> od_append banks layer address) ts d)"
    if "od_ok d" for ts d
    using that by (induction ts arbitrary: d) (auto simp: od_append_def split: option.split)
  from this [of "[]" tensors] show ?thesis unfolding expert_bank_tensors_def by simp
qed

lemma all_slices_distinct:
  assumes "build_expert_slices tensors n None None = Inr out"
  shows "distinct (map (\<lambda>s. (es_layer s, es_expert s)) out)" and "out \<noteq> [] \<Longrightarrow> 0 < n"
proof -
  let ?ls = "sort (od_keys (expert_bank_tensors tensors))"
  have k: "map (\<lambda>s. (es_layer s, es_expert s)) out = List.product ?ls [0 .. n - 1]"
    using build_expert_slices_keys [OF assms] by (simp add: product_concat_map)
  show "distinct (map (\<lambda>s. (es_layer s, es_expert s)) out)"
    unfolding k using bank_tensors_ok [of tensors] by (intro distinct_product) (simp_all add: od_ok_def)
  show "0 < n" if "out \<noteq> []"
  proof (rule ccontr)
    assume "\<not> 0 < n"
    then have "map (\<lambda>s. (es_layer s, es_expert s)) out = []" unfolding k by (simp add: product_concat_map)
    then show False using that by simp
  qed
qed

lemma expert_record_ok:
  assumes "expert_record entry sig meth a = Inr r" "signature_ok sig" "0 \<le> pe_bits entry"
  shows "record_ok r"
proof -
  let ?specs = "map (\<lambda>(name, shape, dtype).
       \<lparr>ps_name = name, ps_shape = shape, ps_bits = pe_bits entry, ps_group_size = pe_group_size entry,
        ps_symmetric = pe_symmetric entry, ps_codec_id = codec_id_for EXPERTS_ROUTED (pe_bits entry) meth\<rparr>) sig"
  have names: "map ps_name ?specs = map fst sig" by (induction sig) auto
  have "distinct (map ps_name ?specs)" unfolding names using assms(2) by (simp add: signature_ok_def)
  moreover have "\<forall>s \<in> set ?specs. spec_ok s" using assms(2,3) by (auto simp: signature_ok_def spec_ok_def)
  ultimately show ?thesis using record_build_ok [of ?specs 2 2 a] assms(1) by (auto simp: expert_record_def)
qed

lemma record_entries_index: "k < length slices \<Longrightarrow> re_record_index (record_entries rec slices ! k) = int k"
  by (simp add: record_entries_def)

lemma expert_items_ok:
  assumes "expert_items lay slices = Inr items" "bank_ok lay"
    and "distinct (map (\<lambda>s. (es_layer s, es_expert s)) slices)"
  shows "distinct (map ew_record_index items) \<and> (\<forall>i \<in> set items. ew_slice i \<in> set slices \<and>
    0 \<le> ew_record_index i \<and> ew_record_index i < num_records lay \<and>
    record_index lay (ew_layer i) (ew_expert i) = Inr (ew_record_index i) \<and>
    ew_bank_offset i = ew_record_index i * rl_stride (el_record lay))"
proof -
  have each: "ew_slice i = s \<and> record_index lay (ew_layer i) (ew_expert i) = Inr (ew_record_index i) \<and>
      0 \<le> ew_record_index i \<and> ew_record_index i < num_records lay \<and>
      ew_bank_offset i = ew_record_index i * rl_stride (el_record lay)"
    if "bindE (record_index lay (es_layer s) (es_expert s)) (\<lambda>i.
       Inr \<lparr>ew_slice = s, ew_record_index = i, ew_bank_offset = record_offset (el_record lay) i\<rparr>) = Inr i" for s i
    using that record_index_range [OF assms(2)]
    by (auto simp: bindE_Inr_iff ew_layer_def ew_expert_def record_offset_def)
  note m = assms(1) [unfolded expert_items_def]
  have slices: "map ew_slice items = map (\<lambda>s. s) slices" by (rule mapE_map [OF m]) (simp add: each)
  have all: "\<forall>i \<in> set items. ew_slice i \<in> set slices \<and>
    0 \<le> ew_record_index i \<and> ew_record_index i < num_records lay \<and>
    record_index lay (ew_layer i) (ew_expert i) = Inr (ew_record_index i) \<and>
    ew_bank_offset i = ew_record_index i * rl_stride (el_record lay)"
  proof
    fix i assume "i \<in> set items"
    from mapE_mem [OF m this] obtain s where s: "s \<in> set slices"
      "bindE (record_index lay (es_layer s) (es_expert s)) (\<lambda>i.
         Inr \<lparr>ew_slice = s, ew_record_index = i, ew_bank_offset = record_offset (el_record lay) i\<rparr>) = Inr i" ..
    then show "ew_slice i \<in> set slices \<and> 0 \<le> ew_record_index i \<and> ew_record_index i < num_records lay \<and>
      record_index lay (ew_layer i) (ew_expert i) = Inr (ew_record_index i) \<and>
      ew_bank_offset i = ew_record_index i * rl_stride (el_record lay)"
      using each [OF s(2)] by simp
  qed
  have keys: "map (\<lambda>i. (ew_layer i, ew_expert i)) items = map (\<lambda>s. (es_layer s, es_expert s)) slices"
  proof -
    have "map (\<lambda>i. (ew_layer i, ew_expert i)) items = map (\<lambda>s. (es_layer s, es_expert s)) (map ew_slice items)"
      unfolding map_map comp_def ew_layer_def ew_expert_def ..
    then show ?thesis by (simp only: slices list.map_ident)
  qed
  have "inj_on ew_record_index (set items)"
  proof (rule inj_onI)
    fix i j assume ij: "i \<in> set items" "j \<in> set items" "ew_record_index i = ew_record_index j"
    have "(ew_layer i, ew_expert i) = (ew_layer j, ew_expert j)"
      using record_index_inj [OF assms(2), of "ew_layer i" "ew_expert i" "ew_record_index i" "ew_layer j" "ew_expert j"]
        all ij by auto
    moreover have "distinct (map (\<lambda>i. (ew_layer i, ew_expert i)) items)" unfolding keys by (rule assms(3))
    ultimately show "i = j" using ij by (auto simp: distinct_map inj_on_def)
  qed
  moreover have "distinct items" using assms(3) keys by (metis distinct_map)
  ultimately show ?thesis using all by (simp add: distinct_map)
qed

lemma expert_layout_ok:
  "record_ok rec \<Longrightarrow> 0 < n \<Longrightarrow> bank_ok (expert_layout_for sparse slices n rec)"
  by (auto simp: bank_ok_def expert_layout_for_def Let_def record_entries_def)

lemma plan_bank_ok:
  assumes p: "plan_bank entry alignment meth sparse n slices = Inr (items, Some lay)" and e: "0 \<le> pe_bits entry" "0 < n"
    and sig: "\<forall>s \<in> set slices. signature_ok (slice_signature s)"
    and d: "distinct (map (\<lambda>s. (es_layer s, es_expert s)) slices)"
  shows "bank_ok lay \<and> distinct (map ew_record_index items) \<and> (\<forall>i \<in> set items. ew_slice i \<in> set slices \<and>
    0 \<le> ew_record_index i \<and> ew_record_index i < num_records lay \<and>
    record_index lay (ew_layer i) (ew_expert i) = Inr (ew_record_index i) \<and>
    ew_bank_offset i = ew_record_index i * rl_stride (el_record lay))"
proof -
  obtain s rec where r: "projection_signature slices = Inr s" "expert_record entry s meth alignment = Inr rec"
    and it: "expert_items lay slices = Inr items" and lay: "lay = expert_layout_for sparse slices n rec"
    using p by (auto simp: plan_bank_def Let_def bindE_Inr_iff)
  have "slices \<noteq> []" "slice_signature (hd slices) = s" using r(1) by (auto simp: projection_signature_iff)
  then have "signature_ok s" using sig by auto
  then have "bank_ok lay" unfolding lay using expert_record_ok [OF r(2) _ e(1)] e(2) by (intro expert_layout_ok)
  then show ?thesis using expert_items_ok [OF it _ d] by blast
qed

lemma plan_experts_ok:
  assumes p: "plan_experts scan m alignment meth profile = Inr (items, Some lay)" and m: "map_ok m"
    and sig: "\<And>g slices s. infer_expert_geometry scan = Some g \<Longrightarrow>
      build_expert_slices (sc_tensors scan) (eg_num_experts g) None None = Inr slices \<Longrightarrow> s \<in> set slices \<Longrightarrow>
      signature_ok (slice_signature s)"
  shows "bank_ok lay \<and> distinct (map ew_record_index items) \<and> (\<forall>i \<in> set items.
    0 \<le> ew_record_index i \<and> ew_record_index i < num_records lay \<and>
    record_index lay (ew_layer i) (ew_expert i) = Inr (ew_record_index i) \<and>
    ew_bank_offset i = ew_record_index i * rl_stride (el_record lay))"
proof -
  obtain g slices where g: "infer_expert_geometry scan = Some g"
    and all: "build_expert_slices (sc_tensors scan) (eg_num_experts g) None None = Inr slices" "slices \<noteq> []"
    and b: "plan_bank (entry_for m EXPERTS_ROUTED) alignment meth (profile = ''canary'') (eg_num_experts g)
      (if profile = ''canary'' then select_experts slices (eg_num_experts g) else slices) = Inr (items, Some lay)"
    using p by (auto simp: plan_experts_def Let_def bindE_Inr_iff split: option.splits if_split_asm)
  let ?sel = "if profile = ''canary'' then select_experts slices (eg_num_experts g) else slices"
  have n: "0 < eg_num_experts g" using all_slices_distinct(2) [OF all] .
  have sub: "set ?sel \<subseteq> set slices" by (auto simp: select_experts_def Let_def)
  have "distinct (map (\<lambda>s. (es_layer s, es_expert s)) ?sel)"
    using all_slices_distinct(1) [OF all(1)] by (simp add: select_experts_def Let_def distinct_map_filter)
  moreover have "\<forall>s \<in> set ?sel. signature_ok (slice_signature s)" using sub sig [OF g all(1)] by blast
  ultimately show ?thesis using plan_bank_ok [OF b map_ok_bits [OF m] n] by blast
qed

section \<open>PLE shards\<close>

definition shard_segs :: "ple_shard_item list \<Rightarrow> (int \<times> int) list" where
  "shard_segs shards = map (\<lambda>s. (pw_first_row s, pw_num_rows s)) shards"

lemma shape_rows_tensor: "tensor_ok a \<Longrightarrow> shape_rows a = Inr n \<Longrightarrow> 0 \<le> n"
  by (auto simp: tensor_ok_def shape_rows_def split: list.splits)

lemma place_shards_ok:
  "place_shards row rs c = Inr (items, e) \<Longrightarrow> \<forall>(a, l) \<in> set rs. tensor_ok a \<Longrightarrow>
     contig c (shard_segs items) \<and> e = c + sum_list (map snd (shard_segs items)) \<and>
     map pw_address items = map fst rs \<and> map pw_logical_first_row items = map snd rs"
proof (induction row rs c arbitrary: items e rule: place_shards.induct)
  case (2 row a l rest c)
  obtain n i its e' where s: "shape_rows a = Inr n" "ple_shard_index (ta_name a) = Inr i"
    "place_shards row rest (c + n) = Inr (its, e')"
    "items = \<lparr>pw_address = a, pw_shard_index = i, pw_first_row = c, pw_logical_first_row = l, pw_num_rows = n,
       pw_byte_offset = row_offset row c\<rparr> # its" "e = e'"
    using "2.prems"(1) by (auto simp: bindE_Inr_iff)
  have "0 \<le> n" using "2.prems"(2) s(1) shape_rows_tensor by auto
  then show ?case using "2.IH" [OF s(3)] "2.prems"(2) s(4,5) by (auto simp: shard_segs_def)
qed (simp add: shard_segs_def)

text \<open>In a full build the physical rows are the logical rows.\<close>

lemma place_shards_logical:
  "logical_rows as c = Inr (rs, total1) \<Longrightarrow> place_shards row rs c = Inr (items, total2) \<Longrightarrow>
     total1 = total2 \<and> (\<forall>s \<in> set items. pw_first_row s = pw_logical_first_row s)"
proof (induction "as" c arbitrary: rs total1 items total2 rule: logical_rows.induct)
  case (2 a as c)
  obtain n rs' t' where l: "shape_rows a = Inr n" "logical_rows as (c + n) = Inr (rs', t')" "rs = (a, c) # rs'" "total1 = t'"
    using "2.prems"(1) by (auto simp: bindE_Inr_iff)
  obtain i its e' where p: "place_shards row rs' (c + n) = Inr (its, e')"
    "items = \<lparr>pw_address = a, pw_shard_index = i, pw_first_row = c, pw_logical_first_row = c, pw_num_rows = n,
       pw_byte_offset = row_offset row c\<rparr> # its" "total2 = e'"
    using "2.prems"(2) l(1,3) by (auto simp: bindE_Inr_iff)
  show ?case using "2.IH" [OF l(2) p(1)] l(4) p(2,3) by simp
qed auto

lemma logical_rows_addresses: "logical_rows as c = Inr (rs, n) \<Longrightarrow> map fst rs = as"
  by (induction "as" c arbitrary: rs n rule: logical_rows.induct) (auto simp: bindE_Inr_iff)

lemma sort_by_shard_set:
  assumes "sort_by_shard ts = Inr out"
  shows "set out = set ts"
proof -
  obtain keyed where k: "mapE (\<lambda>a. bindE (ple_shard_index (ta_name a)) (\<lambda>i. Inr (i, a))) ts = Inr keyed"
    "out = map snd (sort_key fst keyed)"
    using assms by (auto simp: sort_by_shard_def bindE_Inr_iff)
  have "map snd keyed = map (\<lambda>a. a) ts" by (rule mapE_map [OF k(1)]) (auto simp: bindE_Inr_iff)
  then have "snd ` set keyed = set ts" by (metis list.map_ident set_map)
  then show ?thesis by (simp add: k(2))
qed

lemma select_canary_subset: "set (select_canary xs) \<subseteq> set xs"
  by (auto simp: select_canary_def dest: set_zip_rightD)

lemma plan_ple_ok:
  assumes p: "plan_ple scan m profile = Inr (Some ple)" and scan: "scan_ok scan"
  shows "contig 0 (shard_segs (pp_shards ple))" "pp_total_rows ple = sum_list (map snd (shard_segs (pp_shards ple)))"
    "profile \<noteq> ''canary'' \<Longrightarrow> pp_logical_total_rows ple = pp_total_rows ple \<and>
       (\<forall>s \<in> set (pp_shards ple). pw_first_row s = pw_logical_first_row s)"
    "\<exists>w. row_build w (pe_bits (entry_for m PLE_TABLE)) (pe_group_size (entry_for m PLE_TABLE))
       (pe_symmetric (entry_for m PLE_TABLE)) 2 2 PAGE_BYTES ''pt.ple.rtn.v1'' = Inr (pp_row ple)"
proof -
  obtain g layer where o1: "lay_out_ple (text_config (sc_config scan)) (entry_for m PLE_TABLE) profile g layer
      (component_tensors scan PLE_TABLE) (ple_index_tensors scan) = Inr ple"
    using p by (auto simp: plan_ple_def Let_def bindE_Inr_iff split: option.splits if_split_asm)
  obtain sorted_tensors rows where g:
    "row_build (pg_row_width g) (pe_bits (entry_for m PLE_TABLE)) (pe_group_size (entry_for m PLE_TABLE))
       (pe_symmetric (entry_for m PLE_TABLE)) 2 2 PAGE_BYTES ''pt.ple.rtn.v1'' = Inr (pp_row ple)" and
    s: "sort_by_shard (component_tensors scan PLE_TABLE) = Inr sorted_tensors" and
    l: "logical_rows sorted_tensors 0 = Inr (rows, pp_logical_total_rows ple)" and
    pl: "place_shards (pp_row ple) (profile_rows profile rows) 0 = Inr (pp_shards ple, pp_total_rows ple)"
    using o1 by (auto simp: lay_out_ple_def Let_def bindE_Inr_iff)
  show "\<exists>w. row_build w (pe_bits (entry_for m PLE_TABLE)) (pe_group_size (entry_for m PLE_TABLE))
       (pe_symmetric (entry_for m PLE_TABLE)) 2 2 PAGE_BYTES ''pt.ple.rtn.v1'' = Inr (pp_row ple)" using g by blast
  have "set (map fst rows) \<subseteq> set (map snd (sc_tensors scan))"
    using logical_rows_addresses [OF l] sort_by_shard_set [OF s] by (auto simp: component_tensors_def)
  then have "\<forall>(a, l) \<in> set rows. tensor_ok a" using scan_tensor_ok [OF scan] by fastforce
  then have "\<forall>(a, l) \<in> set (profile_rows profile rows). tensor_ok a"
    using select_canary_subset [of rows] by (auto simp: profile_rows_def)
  note pk = place_shards_ok [OF pl this]
  show "contig 0 (shard_segs (pp_shards ple))" "pp_total_rows ple = sum_list (map snd (shard_segs (pp_shards ple)))"
    using pk by simp_all
  show "pp_logical_total_rows ple = pp_total_rows ple \<and> (\<forall>s \<in> set (pp_shards ple). pw_first_row s = pw_logical_first_row s)"
    if "profile \<noteq> ''canary''"
    using place_shards_logical [OF l] pl that by (simp add: profile_rows_def)
qed

lemma contig_covers:
  "contig c segs \<Longrightarrow> c \<le> x \<Longrightarrow> x < c + sum_list (map snd segs) \<Longrightarrow> \<exists>(off, len) \<in> set segs. off \<le> x \<and> x < off + len"
proof (induction c segs rule: contig.induct)
  case (2 c off len segs)
  then show ?case by (cases "x < c + len") (auto simp: algebra_simps)
qed simp

section \<open>The PLE index\<close>

lemma build_ple_index_ok:
  assumes b: "build_ple_index p ng offs vocs mults = Inr ix" and v: "\<forall>x \<in> set vocs. 0 < x"
    and c: "contig 0 (shard_segs (pp_shards p))"
  shows "index_ok ix" "shards_ok (pi_shards ix)"
proof -
  have f: "length offs = length vocs" "ng \<le> int (length mults)" "0 < ng - 1" "int (length offs) mod (ng - 1) = 0" "offs \<noteq> []"
    and ix: "pi_num_heads ix = int (length offs)" "pi_head_offsets ix = offs" "pi_head_vocab_sizes ix = vocs"
      "pi_heads_per_ngram ix = int (length offs) div (ng - 1)" "pi_ngram_size ix = ng"
      "pi_layer_multipliers ix = take (nat ng) mults" "pi_shards ix = map (\<lambda>s. \<lparr>sm_shard_index = pw_shard_index s,
        sm_logical_first_row = pw_logical_first_row s, sm_physical_first_row = pw_first_row s,
        sm_num_rows = pw_num_rows s\<rparr>) (pp_shards p)"
    using b by (auto simp: build_ple_index_def Let_def split: if_splits)
  have q: "int (length offs) div (ng - 1) * (ng - 1) = int (length offs)" using f(4) by auto
  have "0 < int (length offs) div (ng - 1)"
  proof (rule ccontr)
    assume "\<not> 0 < int (length offs) div (ng - 1)"
    then have "int (length offs) div (ng - 1) = 0" using f(3) by (simp add: pos_imp_zdiv_nonneg_iff order_antisym)
    then show False using q f(5) by simp
  qed
  then show "index_ok ix" using f q v by (simp add: index_ok_def ix)
  show "shards_ok (pi_shards ix)"
    unfolding shards_ok_def
  proof (intro ballI impI)
    fix s t assume st: "s \<in> set (pi_shards ix)" "t \<in> set (pi_shards ix)" "s \<noteq> t"
    obtain i where i: "i < length (pp_shards p)" "s = pi_shards ix ! i" using st(1) by (auto simp: ix in_set_conv_nth)
    obtain j where j: "j < length (pp_shards p)" "t = pi_shards ix ! j" using st(2) by (auto simp: ix in_set_conv_nth)
    have "i \<noteq> j" using st(3) i j by blast
    then show "sm_physical_first_row s + sm_num_rows s \<le> sm_physical_first_row t \<or>
        sm_physical_first_row t + sm_num_rows t \<le> sm_physical_first_row s"
      using contig_disjoint [OF c, of i j] contig_disjoint [OF c, of j i] i j
      by (cases "i < j") (auto simp: ix shard_segs_def)
  qed
qed

lemma full_translation:
  assumes b: "build_ple_index p ng offs vocs mults = Inr ix" and c: "contig 0 (shard_segs (pp_shards p))"
    and t: "pp_total_rows p = sum_list (map snd (shard_segs (pp_shards p)))"
    and full: "\<forall>s \<in> set (pp_shards p). pw_first_row s = pw_logical_first_row s"
    and x: "0 \<le> x" "x < pp_total_rows p"
  shows "physical_row_id ix x = Inr x"
proof -
  have ix: "pi_shards ix = map (\<lambda>s. \<lparr>sm_shard_index = pw_shard_index s, sm_logical_first_row = pw_logical_first_row s,
      sm_physical_first_row = pw_first_row s, sm_num_rows = pw_num_rows s\<rparr>) (pp_shards p)"
    using b by (auto simp: build_ple_index_def Let_def split: if_splits)
  obtain s where s: "s \<in> set (pp_shards p)" "pw_first_row s \<le> x" "x < pw_first_row s + pw_num_rows s"
    using contig_covers [OF c x(1)] x(2) t by (auto simp: shard_segs_def)
  then obtain y where y: "find_shard (pi_shards ix) x = Inr y"
    using full find_shard_total [of "\<lparr>sm_shard_index = pw_shard_index s, sm_logical_first_row = pw_logical_first_row s,
      sm_physical_first_row = pw_first_row s, sm_num_rows = pw_num_rows s\<rparr>" "pi_shards ix" x] by (auto simp: ix)
  have "y = x" using find_shard_mem [OF y] full by (auto simp: ix)
  then show ?thesis using y by (simp add: physical_row_id_def)
qed

section \<open>Properties\<close>

definition plan_map :: "precision_map option \<Rightarrow> precision_map" where
  "plan_map precision = (case precision of Some p \<Rightarrow> p | None \<Rightarrow> pt_q4e)"

lemma plan_package_parts:
  assumes "plan_package scan precision features alignment revision meth profile whole = Inr plan"
  obtains experts lay ple0 where
    "plan_experts scan (plan_map precision) alignment meth profile = Inr (experts, lay)"
    "plan_ple scan (plan_map precision) profile = Inr ple0"
    "bp_ple plan = map_option (name_ple_codec meth) ple0" "bp_experts plan = experts"
    "pm_expert_layout (bp_manifest plan) = lay"
    "plan_dense scan (plan_map precision) features meth profile (bp_ple plan) =
       Inr (bp_dense plan, pt_dense_bytes (pm_totals (bp_manifest plan)))"
    "pm_dense (bp_manifest plan) = map dense_entry_of (bp_dense plan)"
    "pt_expert_bytes (pm_totals (bp_manifest plan)) = (case lay of None \<Rightarrow> 0 | Some l \<Rightarrow> el_total_bytes l)"
    "case bp_ple plan of None \<Rightarrow> pt_ple_bytes (pm_totals (bp_manifest plan)) = 0
       | Some p \<Rightarrow> pp_total_bytes p = Inr (pt_ple_bytes (pm_totals (bp_manifest plan)))"
  using assms
  by (auto simp: plan_package_def plan_map_def slice_to_plan_error_def Let_def bindE_Inr_iff plan_manifest_def plan_totals_def
      split: sum.splits if_split_asm option.splits)

lemma name_ple_codec_fields [simp]:
  "pp_shards (name_ple_codec meth p) = pp_shards p" "pp_total_rows (name_ple_codec meth p) = pp_total_rows p"
  "pp_logical_total_rows (name_ple_codec meth p) = pp_logical_total_rows p"
  "pr_payload_bytes (pp_row (name_ple_codec meth p)) = pr_payload_bytes (pp_row p)"
  "pr_rows_per_page (pp_row (name_ple_codec meth p)) = pr_rows_per_page (pp_row p)"
  "pr_page_bytes (pp_row (name_ple_codec meth p)) = pr_page_bytes (pp_row p)"
  by (simp_all add: name_ple_codec_def)


definition demo_tensor_at :: "string \<Rightarrow> int list \<Rightarrow> string \<times> tensor_address" where
  "demo_tensor_at name shape = (name, \<lparr>ta_name = name, ta_shard = ''s'', ta_dtype = ''BF16'', ta_shape = shape,
     ta_byte_start = 0, ta_byte_end = 2 * prod_list shape, ta_num_params = prod_list shape,
     ta_size_bytes = 2 * prod_list shape\<rparr>)"

definition demo_checkpoint :: shard_header_scan where
  "demo_checkpoint = demo_scan\<lparr>sc_tensors := [demo_tensor_at ''lm_head.w'' [4, 8],
     demo_tensor_at ''a.layers.0.ngram_embedding.shard_1'' [3, 8],
     demo_tensor_at ''a.layers.0.ngram_embedding.shard_0'' [5, 8]]\<rparr>"

lemma demo_checkpoint_ok: "scan_ok demo_checkpoint" "map_ok (plan_map None)"
  by code_simp+

definition demo_dense :: shard_header_scan where
  "demo_dense = demo_scan\<lparr>sc_tensors := [demo_tensor_at ''lm_head.w'' [4, 8], demo_tensor_at ''lm_head.b'' [8]]\<rparr>"

definition demo_plan :: build_plan where
  "demo_plan = projr (plan_package demo_dense None [TEXT] 4096 None ''rtn'' ''full'' True)"

lemma demo_plan: "plan_package demo_dense None [TEXT] 4096 None ''rtn'' ''full'' True = Inr demo_plan"
proof -
  have e: "plan_experts demo_dense pt_q4e 4096 ''rtn'' ''full'' = Inr ([], None)"
    "plan_ple demo_dense pt_q4e ''full'' = Inr None" by code_simp+
  have "case plan_dense demo_dense pt_q4e [TEXT] ''rtn'' ''full'' None of Inr x \<Rightarrow>
      (case plan_warnings pt_q4e (fst x) None None of Inr _ \<Rightarrow> True | Inl _ \<Rightarrow> False) | Inl _ \<Rightarrow> False"
    by code_simp
  then obtain dense n ws where d: "plan_dense demo_dense pt_q4e [TEXT] ''rtn'' ''full'' None = Inr (dense, n)"
    "plan_warnings pt_q4e dense None None = Inr ws"
    by (auto split: sum.splits)
  have "case build_activation_budget demo_dense (classify_all (sc_tensors demo_dense) None) [TEXT] None None of
      Inr _ \<Rightarrow> True | Inl _ \<Rightarrow> False" by code_simp
  then obtain a where "build_activation_budget demo_dense (classify_all (sc_tensors demo_dense) None) [TEXT] None None = Inr a"
    by (auto split: sum.splits)
  then show ?thesis unfolding demo_plan_def using e d
    by (simp add: plan_package_def slice_to_plan_error_def plan_totals_def)
qed



definition demo_ple_plan :: ple_plan where
  "demo_ple_plan = the (projr (plan_ple demo_checkpoint pt_q4e ''full''))"

definition demo_built_index :: ple_index where
  "demo_built_index = projr (build_ple_index demo_ple_plan 3 [0, 4] [4, 4] [3, 5, 7])"


end
