(* ===== verification/Recovery.thy ===== *)
theory Recovery
  imports BuildLaws PlanLaws
begin

text \<open>
  Interrupted builds. A build may be killed at any operation and the machine may crash then;
  the next attempt starts from what is on disk. Whatever the history, the journal on disk names
  only items whose bytes are on disk under the checksum it records, and an attempt that is not
  interrupted finishes the package.
\<close>

section \<open>Crashes\<close>

text \<open>A crash keeps the last saved journal; each region is left as \<open>crashed\<close> allows. Metadata
  files may be lost.\<close>

definition package_crashed :: "package_disk \<Rightarrow> package_disk \<Rightarrow> bool" where
  "package_crashed pk pk' \<longleftrightarrow> pk_journal pk' = pk_journal pk \<and> (\<forall>r. crashed (region_view r pk) (region_view r pk'))"

lemma good_package_crash:
  assumes "package_good w pk" "package_crashed pk pk'"
  shows "package_good w pk'"
  using assms dense_region.good_crash experts.good_crash shards.good_crash
  unfolding package_good_def package_crashed_def dense_region.region_good_def bank_region.region_good_def
    table_region.region_good_def by blast

section \<open>Journals of the plan\<close>

definition dense_checked :: "writer \<Rightarrow> build_journal \<Rightarrow> bool" where
  "dense_checked w j \<longleftrightarrow> (\<forall>i \<in> set (dense_items w). dense_done j i \<longrightarrow> (\<exists>ps c. dense_pieces w i = Inr (ps, c) \<and>
     od_get (bj_dense_checksums j) (ta_name (dw_address i)) = Some c))"

definition experts_checked :: "writer \<Rightarrow> build_journal \<Rightarrow> bool" where
  "experts_checked w j \<longleftrightarrow> (\<forall>i \<in> set (expert_work w). expert_done j i \<longrightarrow> (\<exists>ps c. bank_pieces w i = Inr (ps, c) \<and>
     od_get (bj_expert_checksums j) (py_str (ew_record_index i)) = Some c))"

definition shards_checked :: "writer \<Rightarrow> build_journal \<Rightarrow> bool" where
  "shards_checked w j \<longleftrightarrow> (\<forall>s \<in> set (ple_work w). shard_done j s \<longrightarrow> (\<exists>ps c. table_pieces w s = Inr (ps, c) \<and>
     od_get (bj_ple_checksums j) (py_str (pw_shard_index s)) = Some c))"

definition journal_current :: "writer \<Rightarrow> build_journal \<Rightarrow> bool" where
  "journal_current w j \<longleftrightarrow> bj_plan_fingerprint j = plan_fingerprint w \<and> \<not> missing_checksums j \<and> dense_checked w j \<and>
     (has_bank w \<longrightarrow> experts_checked w j) \<and> (has_ple w \<longrightarrow> shards_checked w j)"

lemma journal_current_empty: "journal_current w (empty_journal (plan_fingerprint w))"
  by (simp add: journal_current_def empty_journal_def missing_checksums_def dense_checked_def experts_checked_def
      shards_checked_def dense_done_def expert_done_def shard_done_def)

lemma journal_current_finish: "journal_current w j \<Longrightarrow> journal_current w (j\<lparr>bj_finished := True\<rparr>)"
  by (simp add: journal_current_def missing_checksums_def dense_checked_def experts_checked_def shards_checked_def)

lemma keeps_dense:
  assumes "dense_ok w"
  shows "keeps (dense_pieces w) (dense_items w) mark_dense (journal_current w)"
  unfolding keeps_def
proof (intro allI impI)
  fix i c ps j assume j: "journal_current w j" and i: "i \<in> set (dense_items w)" "dense_pieces w i = Inr (ps, c)"
  have "i' = i" if "i' \<in> set (dense_items w)" "ta_name (dw_address i') = ta_name (dw_address i)" for i'
    using assms i(1) that by (auto simp: dense_ok_def dense_region_ok_def Let_def dense_items_def distinct_map dest: inj_onD)
  then show "journal_current w (mark_dense (i, c) j)"
    using j i by (auto simp: journal_current_def mark_dense_def missing_checksums_def dense_checked_def experts_checked_def
      shards_checked_def dense_done_def expert_done_def shard_done_def od_get_set)
qed

lemma keeps_experts:
  assumes "expert_region_ok w"
  shows "keeps (bank_pieces w) (expert_work w) mark_expert (journal_current w)"
  unfolding keeps_def
proof (intro allI impI)
  fix i c ps j assume j: "journal_current w j" and i: "i \<in> set (expert_work w)" "bank_pieces w i = Inr (ps, c)"
  have "i' = i" if "i' \<in> set (expert_work w)" "ew_record_index i' = ew_record_index i" for i'
    using assms i(1) that by (auto simp: expert_region_ok_def expert_work_def distinct_map dest: inj_onD)
  then show "journal_current w (mark_expert (i, c) j)"
    using j i by (auto simp: journal_current_def mark_expert_def missing_checksums_def dense_checked_def experts_checked_def
      shards_checked_def dense_done_def expert_done_def shard_done_def od_get_set)
qed

lemma keeps_shards:
  assumes "ple_region_ok w"
  shows "keeps (table_pieces w) (ple_work w) mark_shard (journal_current w)"
  unfolding keeps_def
proof (intro allI impI)
  fix i c ps j assume j: "journal_current w j" and i: "i \<in> set (ple_work w)" "table_pieces w i = Inr (ps, c)"
  have "i' = i" if "i' \<in> set (ple_work w)" "pw_shard_index i' = pw_shard_index i" for i'
    using assms i(1) that by (auto simp: ple_region_ok_def ple_work_def distinct_map dest: inj_onD)
  then show "journal_current w (mark_shard (i, c) j)"
    using j i by (auto simp: journal_current_def mark_shard_def missing_checksums_def dense_checked_def experts_checked_def
      shards_checked_def dense_done_def expert_done_def shard_done_def od_get_set)
qed

section \<open>Journals of a build\<close>

definition saves :: "package_io list \<Rightarrow> build_journal \<Rightarrow> bool" where
  "saves io j \<longleftrightarrow> JournalIO j \<in> set io \<or> (\<exists>r. RegionIO r (WJournal j) \<in> set io)"

lemma package_journal:
  "pk_journal (fold exec_pkg io pk) = pk_journal pk \<or> (\<exists>j. saves io j \<and> pk_journal (fold exec_pkg io pk) = Some j)"
proof (induction io arbitrary: pk)
  case (Cons op io)
  have "pk_journal (exec_pkg op pk) = pk_journal pk \<or> (\<exists>j. saves [op] j \<and> pk_journal (exec_pkg op pk) = Some j)"
    by (cases op) (auto simp: exec_pkg_def set_view_def saves_def exec_wio_def split: wio.splits sum.splits)
  then show ?case using Cons.IH [of "exec_pkg op pk"] by (auto simp: saves_def)
qed simp

lemma saves_take: "saves (take k io) j \<Longrightarrow> saves io j"
  by (auto simp: saves_def dest: in_set_takeD)

text \<open>What holds of the empty journal and is kept by every mark.\<close>

definition journal_inv :: "writer \<Rightarrow> (build_journal \<Rightarrow> bool) \<Rightarrow> bool" where
  "journal_inv w Q \<longleftrightarrow> Q (empty_journal (plan_fingerprint w)) \<and> (\<forall>j. Q j \<longrightarrow> Q (j\<lparr>bj_finished := True\<rparr>)) \<and>
     keeps (dense_pieces w) (dense_items w) mark_dense Q \<and>
     (has_bank w \<longrightarrow> keeps (bank_pieces w) (expert_work w) mark_expert Q) \<and>
     (has_ple w \<longrightarrow> keeps (table_pieces w) (ple_work w) mark_shard Q)"

lemma journal_inv_current: "writer_ok w \<Longrightarrow> journal_inv w (journal_current w)"
  using journal_current_empty journal_current_finish keeps_dense keeps_experts keeps_shards
  by (auto simp: journal_inv_def writer_ok_def has_bank_def has_ple_def)

lemma write_dense_keeps:
  assumes "writer_ok w" "Q j" "journal_inv w Q" "write_dense w j = (io, res)"
  shows "WJournal j1 \<in> set io \<Longrightarrow> Q j1" "res = Inr j1 \<Longrightarrow> Q j1"
  using dense_region.run_keeps [where Q = Q, OF _ assms(4,2)] assms(1,3) by (auto simp: writer_ok_def journal_inv_def)

lemma write_experts_keeps:
  assumes "writer_ok w" "Q j" "journal_inv w Q" "write_experts w j = (io, res)"
  shows "WJournal j1 \<in> set io \<Longrightarrow> Q j1" "res = Inr j1 \<Longrightarrow> Q j1"
proof -
  have "(WJournal j1 \<in> set io \<longrightarrow> Q j1) \<and> (res = Inr j1 \<longrightarrow> Q j1)"
  proof (cases "pm_expert_layout (bp_manifest (wr_plan w)) = None")
    case True
    then show ?thesis using assms by (auto simp: write_experts_def)
  next
    case False
    then have "expert_region_ok w" "has_bank w" using assms(1) by (simp_all add: writer_ok_def has_bank_def)
    then show ?thesis using bank_region.run_keeps [where Q = Q, OF _ assms(4,2)] assms(3) by (simp add: journal_inv_def)
  qed
  then show "WJournal j1 \<in> set io \<Longrightarrow> Q j1" "res = Inr j1 \<Longrightarrow> Q j1" by blast+
qed

lemma write_ple_keeps:
  assumes "writer_ok w" "Q j" "journal_inv w Q" "write_ple w j = (io, res)"
  shows "WJournal j1 \<in> set io \<Longrightarrow> Q j1" "res = Inr j1 \<Longrightarrow> Q j1"
proof -
  have "(WJournal j1 \<in> set io \<longrightarrow> Q j1) \<and> (res = Inr j1 \<longrightarrow> Q j1)"
  proof (cases "bp_ple (wr_plan w) = None")
    case True
    then show ?thesis using assms by (auto simp: write_ple_def)
  next
    case False
    then have "ple_region_ok w" "has_ple w" using assms(1) by (simp_all add: writer_ok_def has_ple_def)
    then show ?thesis using table_region.run_keeps [where Q = Q, OF _ assms(4,2)] assms(3) by (simp add: journal_inv_def)
  qed
  then show "WJournal j1 \<in> set io \<Longrightarrow> Q j1" "res = Inr j1 \<Longrightarrow> Q j1" by blast+
qed

lemma regions_keep:
  assumes ok: "writer_ok w" and inv: "journal_inv w Q" and j: "Q j" and run: "run_regions (region_writers w) j = (io, res)"
  shows "saves io j1 \<Longrightarrow> Q j1" and "res = Inr j1 \<Longrightarrow> Q j1"
proof -
  have "(saves io j1 \<longrightarrow> Q j1) \<and> (res = Inr j1 \<longrightarrow> Q j1)"
  proof (cases "write_dense w j")
    case (Pair io1 r1)
    note d = write_dense_keeps [where Q = Q, OF ok j inv Pair]
    show ?thesis
    proof (cases r1)
      case (Inl e)
      then show ?thesis using run d(1) by (auto simp: run_regions_three Pair saves_def)
    next
      case (Inr k1)
      obtain io2 r2 where e: "write_experts w k1 = (io2, r2)" by (meson surj_pair)
      note e' = write_experts_keeps [where Q = Q, OF ok d(2) [OF Inr] inv e]
      show ?thesis
      proof (cases r2)
        case (Inl x)
        then show ?thesis using run d(1) e'(1) by (auto simp: run_regions_three Pair Inr e saves_def)
      next
        case k2: (Inr k2)
        obtain io3 r3 where p: "write_ple w k2 = (io3, r3)" by (meson surj_pair)
        show ?thesis using run d(1) e'(1) write_ple_keeps [where Q = Q, OF ok e'(2) [OF k2] inv p]
          by (auto simp: run_regions_three Pair Inr e k2 p saves_def)
      qed
    qed
  qed
  then show "saves io j1 \<Longrightarrow> Q j1" "res = Inr j1 \<Longrightarrow> Q j1" by blast+
qed

lemma load_keeps:
  assumes "journal_inv w Q" "load_journal w existing = Inr j" "\<And>j. existing = Some j \<Longrightarrow> Q j"
  shows "Q j"
  using assms
  by (auto simp: load_journal_def journal_inv_def Let_def split: option.splits if_splits)

lemma build_keeps:
  assumes ok: "writer_ok w" and inv: "journal_inv w Q" and g: "\<And>j. pk_journal pk = Some j \<Longrightarrow> Q j"
    and b: "build w free pk = (io, r)" and j: "pk_journal (fold exec_pkg (take k io) pk) = Some j1"
  shows "Q j1"
proof -
  have "Q j1" if s: "saves io j1"
    using b
  proof (cases rule: build_parts)
    case early
    then show ?thesis using s by (simp add: saves_def)
  next
    case (stopped j ix e)
    show ?thesis by (rule regions_keep(1) [where Q = Q, OF ok inv load_keeps [where Q = Q, OF inv stopped(1) g] stopped(3) s])
  next
    case (ran j ix rio j' ms)
    have jc: "Q j" by (rule load_keeps [where Q = Q, OF inv ran(1) g])
    note rc = regions_keep [where Q = Q, OF ok inv jc ran(3)]
    have "saves rio j1 \<or> j1 = j'\<lparr>bj_finished := True\<rparr>" using s ran(4) by (auto simp: saves_def)
    then show ?thesis using rc(1) rc(2) [OF refl] inv by (auto simp: journal_inv_def)
  qed
  then show ?thesis using package_journal [of "take k io" pk] saves_take [of k io j1] g j by auto
qed

section \<open>Any history of attempts\<close>

definition fresh_package :: "package_disk \<Rightarrow> bool" where
  "fresh_package pk \<longleftrightarrow> pk_journal pk = None \<and>
     (\<forall>r. rd_synced (region_view r pk) \<le> length (rd_bytes (region_view r pk)))"

text \<open>An attempt is killed after any of its operations, with or without a crash of the machine.\<close>

inductive interrupted :: "writer \<Rightarrow> package_disk \<Rightarrow> bool" for w where
  fresh: "fresh_package pk \<Longrightarrow> interrupted w pk"
| killed: "interrupted w pk \<Longrightarrow> interrupted w (fold exec_pkg (take k (fst (build w free pk))) pk)"
| crash: "interrupted w pk \<Longrightarrow> package_crashed pk pk' \<Longrightarrow> interrupted w pk'"

lemma fresh_good: "fresh_package pk \<Longrightarrow> package_good w pk"
  by (simp add: package_good_def dense_region.region_good_def bank_region.region_good_def table_region.region_good_def
      dense_region.good_def experts.good_def shards.good_def fresh_package_def)

lemma interrupted_ok:
  assumes "interrupted w pk" and ok: "writer_ok w" "wr_resume w"
  shows "package_good w pk \<and> (\<forall>j. pk_journal pk = Some j \<longrightarrow> journal_current w j)"
  using assms(1)
proof (induction rule: interrupted.induct)
  case (fresh pk)
  then show ?case using fresh_good by (auto simp: fresh_package_def)
next
  case (killed pk k free)
  obtain io r where b: "build w free pk = (io, r)" by (meson surj_pair)
  show ?case using build_prefix_good [OF ok(1) conjunct1 [OF killed.IH] _ b] build_keeps [where Q = "journal_current w", OF ok(1) journal_inv_current [OF ok(1)] _ b] killed.IH ok(2)
    by (auto simp: b)
next
  case (crash pk pk')
  then show ?case using good_package_crash by (auto simp: package_crashed_def)
qed

definition recorded :: "build_journal region_disk \<Rightarrow> ((int \<times> bytes) list \<times> item_checksum) result \<Rightarrow>
    item_checksum option \<Rightarrow> bool" where
  "recorded d e checksum \<longleftrightarrow> (\<exists>ps c. e = Inr (ps, c) \<and> (\<forall>q \<in> set ps. stored d q) \<and> checksum = Some c)"

lemma recorded_iff:
  "recorded d e ck \<longleftrightarrow> (\<exists>ps c. e = Inr (ps, c) \<and> (\<forall>q \<in> set ps. stored d q)) \<and> (\<exists>ps c. e = Inr (ps, c) \<and> ck = Some c)"
  by (auto simp: recorded_def)

lemma held_recorded:
  assumes ok: "writer_ok w" and h: "package_held w pk j" and c: "journal_current w j"
  shows "(\<forall>i \<in> set (bp_dense (wr_plan w)). dense_done j i \<longrightarrow>
      recorded (region_view DENSE_REGION pk) (dense_pieces w i) (od_get (bj_dense_checksums j) (ta_name (dw_address i)))) \<and>
    (\<forall>i \<in> set (bp_experts (wr_plan w)). expert_done j i \<longrightarrow>
      recorded (region_view EXPERT_REGION pk) (bank_pieces w i) (od_get (bj_expert_checksums j) (py_str (ew_record_index i)))) \<and>
    (\<forall>s \<in> set (ple_shards (wr_plan w)). shard_done j s \<longrightarrow>
      recorded (region_view PLE_REGION pk) (table_pieces w s) (od_get (bj_ple_checksums j) (py_str (pw_shard_index s))))"
    (is "?d \<and> ?e \<and> ?p")
proof (intro conjI)
  show ?d using h c
    by (auto simp: package_held_def dense_region.held_def dense_region.item_stored_def journal_current_def dense_checked_def
        recorded_iff dense_items_def)
  show ?e
  proof (cases "has_bank w")
    case True
    then show ?thesis using h c
      by (auto simp: package_held_def bank_region.held_def experts.item_stored_def journal_current_def experts_checked_def
        recorded_iff expert_work_def)
  next
    case False
    then show ?thesis using ok by (simp add: has_bank_def writer_ok_def)
  qed
  show ?p
  proof (cases "has_ple w")
    case True
    then show ?thesis using h c
      by (auto simp: package_held_def table_region.held_def shards.item_stored_def journal_current_def shards_checked_def
        recorded_iff ple_work_def ple_shards_def ple_of_def has_ple_def)
  next
    case False
    then show ?thesis by (simp add: has_ple_def ple_shards_def)
  qed
qed

lemma good_held:
  assumes "package_good w pk" "pk_journal pk = Some j"
  shows "package_held w pk j"
  using between_start [OF assms(1), of j] assms(2) by (simp add: between_def fresh_or_saved_def)

text \<open>C3: However often a build is killed and the machine crashes, at whatever operations, the
  journal on disk is of this plan, and every dense tensor, expert record and PLE shard it names is
  on disk: synced, not touched since, equal to its encoding, and under the checksum the journal records.\<close>

theorem interrupted_build_truthful:
  assumes "interrupted w pk" "writer_ok w" "wr_resume w" "pk_journal pk = Some j"
  shows "bj_plan_fingerprint j = plan_fingerprint w \<and>
    (\<forall>i \<in> set (bp_dense (wr_plan w)). dense_done j i \<longrightarrow>
      recorded (region_view DENSE_REGION pk) (dense_pieces w i) (od_get (bj_dense_checksums j) (ta_name (dw_address i)))) \<and>
    (\<forall>i \<in> set (bp_experts (wr_plan w)). expert_done j i \<longrightarrow>
      recorded (region_view EXPERT_REGION pk) (bank_pieces w i) (od_get (bj_expert_checksums j) (py_str (ew_record_index i)))) \<and>
    (\<forall>s \<in> set (ple_shards (wr_plan w)). shard_done j s \<longrightarrow>
      recorded (region_view PLE_REGION pk) (table_pieces w s) (od_get (bj_ple_checksums j) (py_str (pw_shard_index s))))"
proof -
  note io = interrupted_ok [OF assms(1-3)]
  have c: "journal_current w j" using io assms(4) by blast
  show ?thesis using held_recorded [OF assms(2) good_held [OF conjunct1 [OF io] assms(4)] c] c
    by (simp add: journal_current_def)
qed

section \<open>An attempt that is not interrupted\<close>

definition staging_limit :: "writer \<Rightarrow> int" where
  "staging_limit w = py_int (fmul (fmul (mb_max_cpu_staging_mb (wr_budget w)) 1024) 1024)"

text \<open>Every pending download fits the staging memory, or there is only one at a time.\<close>

definition feed_fits :: "writer \<Rightarrow> bool" where
  "feed_fits w \<longleftrightarrow> rd_is_local (wr_reader w) \<or> wr_download_workers w = 1 \<or>
     0 < staging_limit w \<and> (\<forall>i \<in> set (bp_dense (wr_plan w)). reservation i \<le> staging_limit w)"

text \<open>Every source can be read and every item encoded.\<close>

definition encodable :: "writer \<Rightarrow> bool" where
  "encodable w \<longleftrightarrow> (\<forall>i \<in> set (bp_dense (wr_plan w)). \<not> isl (dense_pieces w i)) \<and>
     (\<forall>i \<in> set (bp_experts (wr_plan w)). \<not> isl (bank_pieces w i)) \<and>
     (\<forall>s \<in> set (ple_shards (wr_plan w)). \<not> isl (table_pieces w s))"

definition ready :: "writer \<Rightarrow> int \<Rightarrow> package_disk \<Rightarrow> bool" where
  "ready w free pk \<longleftrightarrow> \<not> isl (preflight_disk_space (wr_plan w) free (region_sizes pk)) \<and>
     \<not> isl (materialize_ple_index w) \<and> rd_asset (wr_reader w) ''config.json'' \<noteq> None \<and> feed_fits w \<and> encodable w"

lemma not_isl: "\<not> isl e \<longleftrightarrow> (\<exists>x. e = Inr x)"
  by (cases e) simp_all

text \<open>C17: The bounded feed of concurrent downloads terminates, yields the pending tensors in order, each once, and
  never reserves more than the staging limit; when every tensor fits the limit it yields all of them.\<close>

theorem feed_bounded_complete:
  assumes "iter_dense w pending = (yielded, err, peak)" "1 \<le> wr_download_workers w"
    and "\<not> rd_is_local (wr_reader w)" "wr_download_workers w \<noteq> 1" "0 < staging_limit w"
  shows "peak \<le> staging_limit w \<and> (\<exists>rest. pending = yielded @ rest \<and> (err = None \<longrightarrow> rest = [])) \<and>
    ((\<forall>i \<in> set pending. reservation i \<le> staging_limit w) \<longrightarrow> err = None)"
  using iter_dense_prefix [OF assms(1,2)] assms(3-5) by (simp add: staging_limit_def)

lemma iter_dense_all:
  assumes "feed_fits w" "1 \<le> wr_download_workers w" "set pending \<subseteq> set (bp_dense (wr_plan w))"
  shows "\<exists>peak. iter_dense w pending = (pending, None, peak)"
proof (cases "rd_is_local (wr_reader w) \<or> wr_download_workers w = 1")
  case True
  then show ?thesis by (simp add: iter_dense_def)
next
  case False
  obtain ys e peak where it: "iter_dense w pending = (ys, e, peak)" by (cases "iter_dense w pending") auto
  have "\<forall>i \<in> set pending. reservation i \<le> staging_limit w" "0 < staging_limit w"
    using False assms(1,3) by (auto simp: feed_fits_def)
  then have "e = None \<and> (\<exists>rest. pending = ys @ rest \<and> (e = None \<longrightarrow> rest = []))"
    using iter_dense_prefix [OF it assms(2)] False by (auto simp: staging_limit_def)
  then show ?thesis using it by auto
qed

lemma write_dense_total:
  assumes "dense_ok w" "feed_fits w" "\<forall>i \<in> set (bp_dense (wr_plan w)). \<not> isl (dense_pieces w i)"
  shows "\<exists>io j'. write_dense w j = (io, Inr j')"
proof (cases "filter (\<lambda>i. \<not> dense_done j i) (bp_dense (wr_plan w)) = []")
  case True
  then show ?thesis by (simp add: write_dense_def)
next
  case False
  define pending where "pending = filter (\<lambda>i. \<not> dense_done j i) (bp_dense (wr_plan w))"
  have ne: "pending \<noteq> []" using False unfolding pending_def .
  have "\<exists>peak. iter_dense w pending = (pending, None, peak)"
    by (rule iter_dense_all [OF assms(2)]) (use assms(1) in \<open>auto simp: dense_ok_def pending_def\<close>)
  then obtain peak where it: "iter_dense w pending = (pending, None, peak)" ..
  have "\<forall>i \<in> set (concat (batches 1 pending)). \<exists>x. dense_pieces w i = Inr x"
    using assms(3) by (auto simp: concat_batches pending_def not_isl)
  from commit_loop_total [where m = mark_dense and j = j, OF this]
  obtain j' where j': "snd (commit_loop (dense_pieces w) mark_dense (batches 1 pending) j) = Inr j'" ..
  obtain io r where c: "commit_loop (dense_pieces w) mark_dense (batches 1 pending) j = (io, r)" by (meson surj_pair)
  show ?thesis using j' c ne by (simp add: write_dense_def Let_def it del: One_nat_def flip: pending_def)
qed

lemma write_experts_total:
  assumes "\<forall>i \<in> set (bp_experts (wr_plan w)). \<not> isl (bank_pieces w i)"
  shows "\<exists>io j'. write_experts w j = (io, Inr j')"
proof (cases "pm_expert_layout (bp_manifest (wr_plan w))")
  case None
  then show ?thesis by (simp add: write_experts_def)
next
  case (Some lay)
  have "\<forall>i \<in> set (bp_experts (wr_plan w)). \<exists>x. expert_pieces w (el_record lay) i = Inr x"
    using assms by (simp add: not_isl bank_pieces_def bank_layout_def Some)
  from write_region_total [OF this, of EXPERT_BATCH_ITEMS]
  show ?thesis by (simp add: write_experts_def Some EXPERT_BATCH_ITEMS_def)
qed

lemma write_ple_total:
  assumes "has_ple w \<longrightarrow> ple_region_ok w" "\<forall>s \<in> set (ple_shards (wr_plan w)). \<not> isl (table_pieces w s)"
  shows "\<exists>io j'. write_ple w j = (io, Inr j')"
proof (cases "bp_ple (wr_plan w)")
  case None
  then show ?thesis by (simp add: write_ple_def)
next
  case (Some ple)
  have "ple_region_ok w" using assms(1) Some by (simp add: has_ple_def)
  then have b: "pp_total_bytes ple = Inr (table_limit w)"
    using table_bytes [of w ple] Some by simp
  have "\<forall>s \<in> set (pp_shards ple). \<exists>x. shard_pieces w ple s = Inr x"
    using assms(2) by (simp add: not_isl table_pieces_def ple_of_def ple_shards_def Some)
  from write_region_total [OF this, of 1]
  have total: "\<exists>io j'. write_region (shard_pieces w ple) m d (pp_shards ple) (Suc 0) n j = (io, Inr j')" for m d n
    by simp
  show ?thesis by (auto simp: write_ple_def Some b total)
qed

lemma regions_total:
  assumes ok: "writer_ok w" and fits: "feed_fits w" and enc: "encodable w"
  shows "\<exists>io j'. run_regions (region_writers w) j = (io, Inr j')"
proof -
  have d: "dense_ok w" and p: "has_ple w \<longrightarrow> ple_region_ok w" using ok by (simp_all add: writer_ok_def has_ple_def)
  obtain io1 j1 where w1: "write_dense w j = (io1, Inr j1)"
    using write_dense_total [OF d fits] enc unfolding encodable_def by blast
  obtain io2 j2 where w2: "write_experts w j1 = (io2, Inr j2)"
    using write_experts_total enc unfolding encodable_def by blast
  obtain io3 j3 where w3: "write_ple w j2 = (io3, Inr j3)"
    using write_ple_total [OF p] enc unfolding encodable_def by blast
  show ?thesis by (simp add: run_regions_three w1 w2 w3)
qed

lemma write_metadata_total:
  assumes "rd_asset (wr_reader w) ''config.json'' \<noteq> None" "bp_ple (wr_plan w) = None \<or> ix \<noteq> None"
  shows "\<exists>ms. write_metadata w pk ix j = (ms, Inr ()) \<and> ManifestFile (final_manifest w pk ix) \<in> set ms \<and>
    ChecksumsFile \<lparr>pc_dense = bj_dense_checksums j, pc_experts = bj_expert_checksums j, pc_ple = bj_ple_checksums j\<rparr> \<in> set ms"
proof -
  obtain c where "rd_asset (wr_reader w) ''config.json'' = Some c" using assms(1) by auto
  then show ?thesis using assms(2)
    by (cases ix) (auto simp: write_metadata_def copy_runtime_assets_def Let_def)
qed

lemma materialized: "materialize_ple_index w = Inr ix \<Longrightarrow> bp_ple (wr_plan w) = None \<or> ix \<noteq> None"
  by (cases "bp_ple (wr_plan w)") (fastforce simp: materialize_ple_index_def bindE_Inr_iff split: option.split_asm)+

lemma load_current_total:
  assumes "\<And>j. existing = Some j \<Longrightarrow> journal_current w j"
  shows "\<exists>j. load_journal w existing = Inr j"
  using assms by (auto simp: load_journal_def journal_current_def Let_def split: option.splits)

lemma meta_fold: "pk_meta (fold exec_pkg (map MetaIO ms) pk) = pk_meta pk @ ms"
  by (induction ms arbitrary: pk) (simp_all add: exec_pkg_def)

lemma build_returns:
  assumes g: "package_good w pk" "\<And>j. pk_journal pk = Some j \<Longrightarrow> journal_current w j"
    and ok: "writer_ok w" "wr_resume w" "ready w free pk"
  obtains rio out j j' ix ms where "journal_current w j" "between w pk j" "run_regions (region_writers w) j = (rio, Inr j')"
    "build w free pk = (rio @ map MetaIO ms @ [JournalIO (j'\<lparr>bj_finished := True\<rparr>)], Inr out)" "bo_finished out"
    "ManifestFile (final_manifest w (fold exec_pkg rio pk) ix) \<in> set ms"
    "ChecksumsFile \<lparr>pc_dense = bj_dense_checksums j', pc_experts = bj_expert_checksums j', pc_ple = bj_ple_checksums j'\<rparr> \<in> set ms"
proof -
  obtain j where j: "load_journal w (pk_journal pk) = Inr j" using load_current_total g(2) by metis
  have jc: "journal_current w j" by (rule load_keeps [where Q = "journal_current w", OF journal_inv_current [OF ok(1)] j g(2)])
  obtain ix where ix: "materialize_ple_index w = Inr ix" using ok(3) by (auto simp: ready_def not_isl)
  have pre: "preflight_disk_space (wr_plan w) free (region_sizes pk) = Inr ()"
    using ok(3) by (auto simp: ready_def not_isl)
  obtain rio j' where run: "run_regions (region_writers w) j = (rio, Inr j')"
    using regions_total [OF ok(1)] ok(3) unfolding ready_def by blast
  let ?pk = "fold exec_pkg rio pk"
  obtain ms where ms: "write_metadata w ?pk ix j' = (ms, Inr ())" "ManifestFile (final_manifest w ?pk ix) \<in> set ms"
    "ChecksumsFile \<lparr>pc_dense = bj_dense_checksums j', pc_experts = bj_expert_checksums j', pc_ple = bj_ple_checksums j'\<rparr> \<in> set ms"
    using write_metadata_total [of w ix ?pk j'] ok(3) materialized [OF ix] by (auto simp: ready_def)
  obtain out where b: "build w free pk = (rio @ map MetaIO ms @ [JournalIO (j'\<lparr>bj_finished := True\<rparr>)], Inr out)" "bo_finished out"
    by (simp add: build_def pre j ix run finish_build_def ms(1))
  have bt: "between w pk j" using between_start [OF g(1)] load_fresh_or_saved [OF j] ok(2) by blast
  show thesis by (rule that [OF jc bt run b ms(2,3)])
qed

lemma finished_package:
  assumes ok: "writer_ok w" and jc: "journal_current w j" and bt: "between w pk j"
    and run: "run_regions (region_writers w) j = (rio, Inr j')"
    and pk': "pk_file pk' = pk_file (fold exec_pkg rio pk)" "pk_journal pk' = Some (j'\<lparr>bj_finished := True\<rparr>)"
  shows "(\<forall>i \<in> set (bp_dense (wr_plan w)). dense_done j' i \<and> recorded (region_view DENSE_REGION pk') (dense_pieces w i)
       (od_get (bj_dense_checksums j') (ta_name (dw_address i)))) \<and>
    (\<forall>i \<in> set (bp_experts (wr_plan w)). expert_done j' i \<and> recorded (region_view EXPERT_REGION pk') (bank_pieces w i)
       (od_get (bj_expert_checksums j') (py_str (ew_record_index i)))) \<and>
    (\<forall>s \<in> set (ple_shards (wr_plan w)). shard_done j' s \<and> recorded (region_view PLE_REGION pk') (table_pieces w s)
       (od_get (bj_ple_checksums j') (py_str (pw_shard_index s))))"
proof -
  note st = regions_step(2) [OF ok bt run refl]
  have held: "package_held w pk' (j'\<lparr>bj_finished := True\<rparr>)" using good_finish [OF conjunct1 [OF st] pk'] ..
  have cur: "journal_current w (j'\<lparr>bj_finished := True\<rparr>)"
    by (rule journal_current_finish [OF regions_keep(2) [where Q = "journal_current w", OF ok journal_inv_current [OF ok] jc run refl]])
  show ?thesis using held_recorded [OF ok held cur] st by simp
qed

text \<open>C5: From whatever a history of killed attempts and crashes left behind, an attempt that is not interrupted
  returns and finishes the package, when its sources can be read and the disk has room: every dense tensor, every
  expert and every PLE shard is recorded on disk, the journal is marked finished, and the manifest and the
  checksums of exactly this journal are written.\<close>

theorem resumed_build_completes:
  assumes "interrupted w pk" "writer_ok w" "wr_resume w" "ready w free pk"
  shows "\<exists>io out j ix. build w free pk = (io, Inr out) \<and> bo_finished out \<and>
    pk_journal (fold exec_pkg io pk) = Some j \<and> bj_finished j \<and>
    (\<forall>i \<in> set (bp_dense (wr_plan w)). recorded (region_view DENSE_REGION (fold exec_pkg io pk)) (dense_pieces w i)
       (od_get (bj_dense_checksums j) (ta_name (dw_address i)))) \<and>
    (\<forall>i \<in> set (bp_experts (wr_plan w)). recorded (region_view EXPERT_REGION (fold exec_pkg io pk)) (bank_pieces w i)
       (od_get (bj_expert_checksums j) (py_str (ew_record_index i)))) \<and>
    (\<forall>s \<in> set (ple_shards (wr_plan w)). recorded (region_view PLE_REGION (fold exec_pkg io pk)) (table_pieces w s)
       (od_get (bj_ple_checksums j) (py_str (pw_shard_index s)))) \<and>
    ManifestFile (final_manifest w (fold exec_pkg io pk) ix) \<in> set (pk_meta (fold exec_pkg io pk)) \<and>
    ChecksumsFile \<lparr>pc_dense = bj_dense_checksums j, pc_experts = bj_expert_checksums j, pc_ple = bj_ple_checksums j\<rparr>
      \<in> set (pk_meta (fold exec_pkg io pk))"
proof -
  note io = interrupted_ok [OF assms(1-3)]
  have cur: "\<And>j. pk_journal pk = Some j \<Longrightarrow> journal_current w j" using io by blast
  obtain rio out j j' ix ms where r: "journal_current w j" "between w pk j" "run_regions (region_writers w) j = (rio, Inr j')"
    "build w free pk = (rio @ map MetaIO ms @ [JournalIO (j'\<lparr>bj_finished := True\<rparr>)], Inr out)" "bo_finished out"
    "ManifestFile (final_manifest w (fold exec_pkg rio pk) ix) \<in> set ms"
    "ChecksumsFile \<lparr>pc_dense = bj_dense_checksums j', pc_experts = bj_expert_checksums j', pc_ple = bj_ple_checksums j'\<rparr> \<in> set ms"
    by (rule build_returns [OF conjunct1 [OF io] cur assms(2-4)])
  let ?f = "j'\<lparr>bj_finished := True\<rparr>" and ?pk = "fold exec_pkg rio pk"
  let ?io = "rio @ map MetaIO ms @ [JournalIO ?f]"
  have same: "pk_file (fold exec_pkg ?io pk) = pk_file ?pk" "pk_journal (fold exec_pkg ?io pk) = Some ?f"
    "pk_meta (fold exec_pkg ?io pk) = pk_meta ?pk @ ms"
    by (simp_all add: exec_pkg_def meta_fold)
  have man: "final_manifest w (fold exec_pkg ?io pk) ix = final_manifest w ?pk ix"
    unfolding final_manifest_def region_entry_def same(1) ..
  show ?thesis
  proof (intro exI conjI)
    show "build w free pk = (?io, Inr out)" "bo_finished out" by (fact r)+
    show "pk_journal (fold exec_pkg ?io pk) = Some ?f" by (fact same(2))
    show "ManifestFile (final_manifest w (fold exec_pkg ?io pk) ix) \<in> set (pk_meta (fold exec_pkg ?io pk))"
      unfolding man same(3) using r(6) by simp
    show "ChecksumsFile \<lparr>pc_dense = bj_dense_checksums ?f, pc_experts = bj_expert_checksums ?f,
      pc_ple = bj_ple_checksums ?f\<rparr> \<in> set (pk_meta (fold exec_pkg ?io pk))" unfolding same(3) using r(7) by simp
  qed (use finished_package [OF assms(2) r(1-3) same(1,2)] in simp_all)
qed

section \<open>Plans of another layout\<close>

text \<open>C16: The output directory of one plan is never resumed under another: when the fingerprint hash does not
  collide, a journal left by any history of a writer is refused, before any operation on the disk, by a writer whose
  plan has other dense addresses, another expert layout, another row layout, other codecs or another source.\<close>

theorem changed_layout_refused:
  assumes "interrupted w pk" "writer_ok w" "wr_resume w" "pk_journal pk = Some j"
    and "wr_resume w'" "wr_sha w' = wr_sha w"
    and "inj_on (wr_sha w) {plan_material (wr_plan w), plan_material (wr_plan w')}"
    and "map (\<lambda>d. (de_name d, de_byte_offset d, de_packed_bytes d)) (pm_dense (bp_manifest (wr_plan w'))) \<noteq>
        map (\<lambda>d. (de_name d, de_byte_offset d, de_packed_bytes d)) (pm_dense (bp_manifest (wr_plan w))) \<or>
      pm_expert_layout (bp_manifest (wr_plan w')) \<noteq> pm_expert_layout (bp_manifest (wr_plan w)) \<or>
      map_option pp_row (bp_ple (wr_plan w')) \<noteq> map_option pp_row (bp_ple (wr_plan w)) \<or>
      sort_key fst (pm_codecs (bp_manifest (wr_plan w'))) \<noteq> sort_key fst (pm_codecs (bp_manifest (wr_plan w))) \<or>
      pm_source_revision (bp_manifest (wr_plan w')) \<noteq> pm_source_revision (bp_manifest (wr_plan w))"
  shows "build w' free pk = ([], Inl WriteError)"
proof -
  have "journal_current w j" using interrupted_ok [OF assms(1-3)] assms(4) by blast
  then have "bj_plan_fingerprint j = plan_fingerprint w" by (simp add: journal_current_def)
  moreover have "plan_fingerprint w' \<noteq> plan_fingerprint w"
    using assms(8) inj_onD [OF assms(7), of "plan_material (wr_plan w')" "plan_material (wr_plan w)"]
    unfolding plan_fingerprint_def assms(6) by (auto simp: plan_material_def Let_def)
  ultimately have "load_journal w' (pk_journal pk) = Inl WriteError"
    using assms(4,5) by (simp add: load_journal_def)
  then show ?thesis
    by (cases "preflight_disk_space (wr_plan w') free (region_sizes pk)")
      (auto simp: build_def preflight_disk_space_def Let_def split: if_splits)
qed

section \<open>From the planner to the writer\<close>

text \<open>What a checkpoint must provide: regular expert tensors, and PLE tables with distinct shard numbers.\<close>

definition experts_regular :: "shard_header_scan \<Rightarrow> bool" where
  "experts_regular scan \<longleftrightarrow> (case infer_expert_geometry scan of None \<Rightarrow> True
     | Some g \<Rightarrow> (case build_expert_slices (sc_tensors scan) (eg_num_experts g) None None of
         Inl _ \<Rightarrow> True | Inr slices \<Rightarrow> \<forall>s \<in> set slices. signature_ok (slice_signature s)))"

definition shards_regular :: "build_plan \<Rightarrow> bool" where
  "shards_regular plan \<longleftrightarrow> (case bp_ple plan of None \<Rightarrow> True
     | Some p \<Rightarrow> distinct (map pw_shard_index (pp_shards p)) \<and> pp_total_rows p \<le> 2 ^ 52 \<and> 0 < pr_row_width (pp_row p))"

lemma row_build_fields:
  assumes "row_build w bits g symm sb zb page codec = Inr r" "0 < w" "0 \<le> bits" "0 < sb" "0 \<le> zb"
  shows "row_ok r"
  using row_build_ok [OF assms(2-5), of g symm page codec] assms(1) by auto

lemma row_build_width: "row_build w bits g symm sb zb page codec = Inr r \<Longrightarrow> pr_row_width r = w"
  by (auto simp: row_build_def Let_def bindE_Inr_iff split: if_splits)

lemma no_layout_no_experts: "plan_experts scan m alignment meth profile = Inr (items, None) \<Longrightarrow> items = []"
  by (auto simp: plan_experts_def plan_bank_def Let_def bindE_Inr_iff split: option.splits if_splits)

lemma planned_ok:
  assumes plan: "plan_package scan precision features alignment revision meth profile whole = Inr (wr_plan w)"
    and ok: "scan_ok scan" "map_ok (plan_map precision)" "experts_regular scan" "shards_regular (wr_plan w)"
    and workers: "1 \<le> wr_download_workers w"
  shows "writer_ok w"
proof -
  obtain experts lay ple0 where
    e: "plan_experts scan (plan_map precision) alignment meth profile = Inr (experts, lay)"
    "bp_experts (wr_plan w) = experts" "pm_expert_layout (bp_manifest (wr_plan w)) = lay" and
    p: "plan_ple scan (plan_map precision) profile = Inr ple0" "bp_ple (wr_plan w) = map_option (name_ple_codec meth) ple0" and
    d: "plan_dense scan (plan_map precision) features meth profile (bp_ple (wr_plan w)) =
       Inr (bp_dense (wr_plan w), pt_dense_bytes (pm_totals (bp_manifest (wr_plan w))))"
    by (rule plan_package_parts [OF plan])
  note dk = plan_dense_ok [OF d ok(1,2)]
  have "dense_region_ok w" using dk(3,4) blob_ok_bounds [OF dk(1)] blob_ok_disjoint [OF dk(1)]
    by (auto simp: dense_region_ok_def Let_def)
  moreover have "if lay = None then experts = [] else expert_region_ok w"
  proof (cases lay)
    case None
    then show ?thesis using no_layout_no_experts e(1) by simp
  next
    case (Some l)
    have sig: "signature_ok (slice_signature s)" if "infer_expert_geometry scan = Some g"
      "build_expert_slices (sc_tensors scan) (eg_num_experts g) None None = Inr slices" "s \<in> set slices" for g slices s
      using ok(3) that by (simp add: experts_regular_def)
    have "bank_ok l \<and> distinct (map ew_record_index experts) \<and> (\<forall>i \<in> set experts. 0 \<le> ew_record_index i \<and>
        ew_record_index i < num_records l \<and> record_index l (ew_layer i) (ew_expert i) = Inr (ew_record_index i) \<and>
        ew_bank_offset i = ew_record_index i * rl_stride (el_record l))"
      by (rule plan_experts_ok [OF e(1) [unfolded Some] ok(2) sig])
    then show ?thesis using Some e(2,3) by (simp add: expert_region_ok_def bank_layout_def bank_ok_def)
  qed
  moreover have "ple_region_ok w" if h: "bp_ple (wr_plan w) \<noteq> None"
  proof -
    obtain p0 where p0: "ple0 = Some p0" using h p(2) by auto
    have bp: "bp_ple (wr_plan w) = Some (name_ple_codec meth p0)" using p(2) p0 by simp
    note pk = plan_ple_ok [OF p(1) [unfolded p0] ok(1)]
    obtain rw where rw: "row_build rw (pe_bits (entry_for (plan_map precision) PLE_TABLE))
       (pe_group_size (entry_for (plan_map precision) PLE_TABLE)) (pe_symmetric (entry_for (plan_map precision) PLE_TABLE))
       2 2 PAGE_BYTES ''pt.ple.rtn.v1'' = Inr (pp_row p0)" using pk(4) by blast
    have "pr_row_width (pp_row (name_ple_codec meth p0)) = pr_row_width (pp_row p0)" by (simp add: name_ple_codec_def)
    then have "0 < rw" using row_build_width [OF rw] ok(4) by (simp add: shards_regular_def bp)
    then have "row_ok (pp_row p0)" using row_build_fields [OF rw] map_ok_bits [OF ok(2)] by simp
    then have "row_ok (pp_row (name_ple_codec meth p0))" by (simp add: row_ok_def)
    then show ?thesis using pk(1,2) ok(4) by (simp add: ple_region_ok_def ple_of_def bp shards_regular_def shard_segs_def comp_def)
  qed
  ultimately show ?thesis using workers e(2,3) by (simp add: writer_ok_def dense_ok_def)
qed


section \<open>A small package\<close>

text \<open>Two raw tensors, two experts and a PLE table of two rows, read from a local checkpoint.\<close>

definition demo_address :: "string \<Rightarrow> int list \<Rightarrow> tensor_address" where
  "demo_address name shape = snd (demo_tensor_at name shape)"

definition demo_dense_item :: "string \<Rightarrow> int \<Rightarrow> dense_work_item" where
  "demo_dense_item name off = \<lparr>dw_address = demo_address name [2], dw_component = NORM, dw_bits = 16, dw_group_size = 2,
     dw_symmetric = False, dw_codec_id = ''raw.f16.v1'', dw_packed_bytes = 4, dw_byte_offset = off,
     dw_spans = [\<lparr>sp_section = PACKED, sp_offset = 0, sp_length = 4\<rparr>]\<rparr>"

definition demo_spans :: "section_span list" where
  "demo_spans = [\<lparr>sp_section = PACKED, sp_offset = 0, sp_length = 2\<rparr>, \<lparr>sp_section = SCALES, sp_offset = 2, sp_length = 2\<rparr>]"

definition demo_records :: expert_layout where
  "demo_records = \<lparr>el_num_layers = 1, el_num_experts = 2, el_layers = [0],
     el_record = \<lparr>rl_projections = [\<lparr>pl_name = ''p'', pl_shape = [1, 2], pl_bits = 8, pl_group_size = 2, pl_symmetric = True,
       pl_codec_id = ''pt.scalar.rtn.v1'', pl_offset = 0, pl_spans = demo_spans\<rparr>],
       rl_payload_bytes = 4, rl_stride = 4096, rl_alignment = 4096\<rparr>, el_records = []\<rparr>"

definition demo_expert :: "int \<Rightarrow> expert_work_item" where
  "demo_expert e = \<lparr>ew_slice = \<lparr>es_layer = 0, es_expert = e, es_projections = [\<lparr>ss_tensor = ''b'', ss_shard = ''s'',
       ss_projection = ''p'', ss_dtype = ''BF16'', ss_shape = [1, 2], ss_byte_start = e * 4, ss_byte_end = e * 4 + 4,
       ss_expert_index = Some e\<rparr>]\<rparr>, ew_record_index = e, ew_bank_offset = e * 4096\<rparr>"

definition demo_table :: ple_plan where
  "demo_table = \<lparr>pp_source_layer = 0, pp_ngram_size = 2, pp_row = \<lparr>pr_row_width = 2, pr_bits = 8, pr_group_size = 2,
       pr_symmetric = True, pr_codec_id = ''pt.ple.rtn.v1'', pr_payload_bytes = 4, pr_rows_per_page = 1024, pr_page_bytes = 4096\<rparr>,
     pp_total_rows = 2, pp_logical_total_rows = 2, pp_declared_rows = 2,
     pp_shards = [\<lparr>pw_address = demo_address ''t'' [2, 2], pw_shard_index = 0, pw_first_row = 0, pw_logical_first_row = 0,
       pw_num_rows = 2, pw_byte_offset = 0\<rparr>],
     pp_index_tensors = [demo_address ''layer_multipliers'' [2], demo_address ''ngram_heads_offsets'' [1],
       demo_address ''ngram_heads_vocab_sizes'' [1]]\<rparr>"

definition demo_manifest :: package_manifest where
  "demo_manifest = \<lparr>pm_package_version = PACKAGE_VERSION, pm_source_model = ''m'', pm_source_revision = None, pm_source = None,
     pm_build_profile = ''full'', pm_complete_model = True, pm_features = [TEXT], pm_precision_map_name = ''x'',
     pm_precision_map = [], pm_codecs = [], pm_regions = [],
     pm_totals = \<lparr>pt_source_params = 0, pt_packaged_params = 0, pt_dropped_params = 0, pt_dense_bytes = 128,
       pt_expert_bytes = 8192, pt_ple_bytes = 4096\<rparr>,
     pm_dense = [], pm_expert_layout = Some demo_records, pm_ple_index = None, pm_activated_params_per_token = 0,
     pm_expert_params_per_token = 0, pm_expert_bytes_per_token = 0, pm_reads_per_token = 0\<rparr>"

definition demo_reader :: reader where
  "demo_reader = \<lparr>rd_is_local = True,
     rd_read_tensor = (\<lambda>a. Inr \<lparr>tn_dtype = (if ta_num_params a = 4 \<or> ta_name a = ''n'' \<or> ta_name a = ''o'' then ''float16'' else ''int64''),
       tn_shape = ta_shape a, tn_data = replicate (nat (ta_num_params a)) 1\<rparr>),
     rd_get_slice = (\<lambda>_ _. Inr \<lparr>tn_dtype = ''float16'', tn_shape = [2, 1, 2], tn_data = [1, 2, 3, 4]\<rparr>),
     rd_asset = (\<lambda>_. Some [])\<rparr>"

definition demo_writer :: writer where
  "demo_writer = \<lparr>wr_plan = \<lparr>bp_manifest = demo_manifest, bp_dense = [demo_dense_item ''n'' 0, demo_dense_item ''o'' 64],
       bp_experts = [demo_expert 0, demo_expert 1], bp_ple = Some demo_table, bp_warnings = []\<rparr>,
     wr_reader = demo_reader, wr_budget = default_budget, wr_method = ''rtn'', wr_resume = True, wr_download_workers = 4,
     wr_torch = demo_torch, wr_sha = (\<lambda>m. fm_profile m), wr_file_sha = (\<lambda>_. [])\<rparr>"

definition demo_fresh :: package_disk where
  "demo_fresh = \<lparr>pk_file = (\<lambda>_. None), pk_journal = None, pk_meta = []\<rparr>"

lemma demo_interrupted: "interrupted demo_writer demo_fresh"
  by (rule interrupted.fresh) (simp add: fresh_package_def demo_fresh_def region_view_def)

lemma two_items: "(\<forall>x y. x < y \<longrightarrow> y < length [a, b] \<longrightarrow> P x y) \<longleftrightarrow> P 0 (1 :: nat)"
  by (auto simp: less_Suc_eq)

lemma demo_writer_ok: "writer_ok demo_writer"
proof -
  have "dense_ok demo_writer"
    unfolding dense_ok_def dense_region_ok_def Let_def demo_writer_def writer.simps build_plan.simps two_items
    by (simp add: demo_dense_item_def demo_address_def demo_tensor_at_def demo_manifest_def dw_length_def spans_length_def)
  moreover have "expert_region_ok demo_writer" by code_simp
  moreover have "ple_region_ok demo_writer" by code_simp
  ultimately show ?thesis by (simp add: writer_ok_def demo_writer_def demo_manifest_def)
qed

lemma pieces_total:
  "rd_read_tensor (wr_reader w) (dw_address i) = Inr t \<Longrightarrow> \<not> isl (encode_dense w i t) \<Longrightarrow> 0 \<le> dw_byte_offset i \<Longrightarrow>
     \<not> isl (dense_pieces w i)"
  "\<not> isl (encode_expert w rec e) \<Longrightarrow> 0 \<le> ew_bank_offset e \<Longrightarrow> \<not> isl (expert_pieces w rec e)"
  by (auto simp: dense_pieces_def expert_pieces_def at_offsets_def not_isl)

lemma demo_writer_fields [simp]:
  "bp_dense (wr_plan demo_writer) = [demo_dense_item ''n'' 0, demo_dense_item ''o'' 64]"
  "bp_experts (wr_plan demo_writer) = [demo_expert 0, demo_expert 1]" "ple_shards (wr_plan demo_writer) = pp_shards demo_table"
  "ple_of demo_writer = demo_table" "bank_layout demo_writer = demo_records" "wr_reader demo_writer = demo_reader"
  "wr_resume demo_writer"
  by (simp_all add: demo_writer_def demo_manifest_def ple_shards_def ple_of_def bank_layout_def)

lemma row_offset_nonneg: "row_ok r \<Longrightarrow> 0 \<le> i \<Longrightarrow> 0 \<le> row_offset r i"
  using row_offset_slot(1,2) [of r i] page_pos [of r] by (simp add: row_ok_def pos_imp_zdiv_nonneg_iff)

lemma shard_pieces_total:
  assumes "section_spans [1, pr_row_width (pp_row p)] (pr_bits (pp_row p)) (pr_group_size (pp_row p)) (pr_symmetric (pp_row p)) 2 2 = Inr spans"
    and "\<not> isl (encode_ple_shard w (pp_row p) spans s)" "row_ok (pp_row p)" "0 \<le> pw_first_row s"
  shows "\<not> isl (shard_pieces w p s)"
proof -
  have "0 \<le> row_offset (pp_row p) (pw_first_row s + int k)" for k
    using row_offset_nonneg [OF assms(3), of "pw_first_row s + int k"] assms(4) by simp
  then show ?thesis using assms(1,2)
    by (auto simp: shard_pieces_def Let_def at_offsets_def row_pieces_def not_isl not_less)
qed

lemma demo_ready: "ready demo_writer 100000 demo_fresh"
proof -
  have d: "\<not> isl (dense_pieces demo_writer i)" if "i \<in> set (bp_dense (wr_plan demo_writer))" for i
    using that by (intro pieces_total(1))
      (auto simp: demo_reader_def demo_dense_item_def demo_address_def demo_tensor_at_def encode_dense_def half_bytes_def
        Let_def numeral_2_eq_2)
  have "\<not> isl (encode_expert demo_writer (el_record demo_records) (demo_expert 0))"
    "\<not> isl (encode_expert demo_writer (el_record demo_records) (demo_expert 1))" by code_simp+
  then have e: "\<not> isl (bank_pieces demo_writer i)" if "i \<in> set (bp_experts (wr_plan demo_writer))" for i
    using that pieces_total(2) [of demo_writer "el_record demo_records" "demo_expert 0"]
      pieces_total(2) [of demo_writer "el_record demo_records" "demo_expert 1"]
    by (auto simp: bank_pieces_def demo_expert_def)
  have spans: "section_spans [1, 2] 8 2 True 2 2 = Inr demo_spans" by code_simp
  have "\<not> isl (encode_ple_shard demo_writer (pp_row demo_table) demo_spans (hd (pp_shards demo_table)))" by code_simp
  then have "\<not> isl (shard_pieces demo_writer demo_table (hd (pp_shards demo_table)))"
    by (rule shard_pieces_total [rotated]) (simp_all add: demo_table_def spans row_ok_def)
  then have s: "\<not> isl (table_pieces demo_writer i)" if "i \<in> set (ple_shards (wr_plan demo_writer))" for i
    using that by (auto simp: table_pieces_def demo_table_def)
  have "\<not> isl (preflight_disk_space (wr_plan demo_writer) 100000 0)" by code_simp
  moreover have "\<not> isl (materialize_ple_index demo_writer)" by code_simp
  moreover have "region_sizes demo_fresh = 0" by (simp add: region_sizes_def demo_fresh_def)
  ultimately show ?thesis using d e s
    by (auto simp: ready_def encodable_def feed_fits_def demo_reader_def)
qed

section \<open>The properties at the small package\<close>

lemma demo_built:
  obtains pk j where "interrupted demo_writer pk" "pk_journal pk = Some j" "dense_done j (demo_dense_item ''n'' 0)"
    "expert_done j (demo_expert 1)"
proof -
  note io = interrupted_ok [OF demo_interrupted demo_writer_ok demo_writer_fields(7)]
  have cur: "\<And>j. pk_journal demo_fresh = Some j \<Longrightarrow> journal_current demo_writer j" using io by blast
  obtain rio out j j' ix ms where r: "journal_current demo_writer j" "between demo_writer demo_fresh j"
    "run_regions (region_writers demo_writer) j = (rio, Inr j')"
    "build demo_writer 100000 demo_fresh = (rio @ map MetaIO ms @ [JournalIO (j'\<lparr>bj_finished := True\<rparr>)], Inr out)"
    by (rule build_returns [OF conjunct1 [OF io] cur demo_writer_ok demo_writer_fields(7) demo_ready])
  let ?io = "rio @ map MetaIO ms @ [JournalIO (j'\<lparr>bj_finished := True\<rparr>)]"
  have "interrupted demo_writer (fold exec_pkg (take (length ?io) (fst (build demo_writer 100000 demo_fresh))) demo_fresh)"
    by (rule interrupted.killed [OF demo_interrupted])
  then have i: "interrupted demo_writer (fold exec_pkg ?io demo_fresh)" by (simp add: r(4))
  note st = regions_step(2) [OF demo_writer_ok r(2,3) refl]
  show thesis by (rule that [OF i, of "j'\<lparr>bj_finished := True\<rparr>"]) (use st in \<open>simp_all add: exec_pkg_def\<close>)
qed

theorem interrupted_build_truthful_witness:
  "\<exists>pk j. interrupted demo_writer pk \<and> pk_journal pk = Some j \<and>
     recorded (region_view EXPERT_REGION pk) (bank_pieces demo_writer (demo_expert 1)) (od_get (bj_expert_checksums j) ''1'')"
proof -
  obtain pk j where d: "interrupted demo_writer pk" "pk_journal pk = Some j" "expert_done j (demo_expert 1)"
    by (rule demo_built)
  have "py_str (ew_record_index (demo_expert 1)) = ''1''" by code_simp
  then show ?thesis using interrupted_build_truthful [OF d(1) demo_writer_ok demo_writer_fields(7) d(2)] d by auto
qed

theorem resumed_build_completes_witness:
  "\<exists>io out j. build demo_writer 100000 demo_fresh = (io, Inr out) \<and> pk_journal (fold exec_pkg io demo_fresh) = Some j \<and>
     bj_finished j \<and> recorded (region_view DENSE_REGION (fold exec_pkg io demo_fresh)) (dense_pieces demo_writer (demo_dense_item ''o'' 64))
       (od_get (bj_dense_checksums j) (ta_name (dw_address (demo_dense_item ''o'' 64))))"
  using resumed_build_completes [OF demo_interrupted demo_writer_ok demo_writer_fields(7) demo_ready] by auto

definition demo_moved :: writer where
  "demo_moved = demo_writer\<lparr>wr_plan := (wr_plan demo_writer)\<lparr>bp_manifest := demo_manifest\<lparr>pm_build_profile := ''canary'',
     pm_expert_layout := None\<rparr>\<rparr>\<rparr>"

theorem changed_layout_refused_witness:
  "\<exists>pk j. interrupted demo_writer pk \<and> pk_journal pk = Some j \<and> build demo_moved 100000 pk = ([], Inl WriteError)"
proof -
  obtain pk j where d: "interrupted demo_writer pk" "pk_journal pk = Some j" by (rule demo_built)
  have "build demo_moved 100000 pk = ([], Inl WriteError)"
  proof (rule changed_layout_refused [OF d(1) demo_writer_ok demo_writer_fields(7) d(2)])
    show "wr_resume demo_moved" "wr_sha demo_moved = wr_sha demo_writer" by (simp_all add: demo_moved_def)
    show "inj_on (wr_sha demo_writer) {plan_material (wr_plan demo_writer), plan_material (wr_plan demo_moved)}"
      by (simp add: inj_on_def) (simp add: plan_material_def Let_def demo_moved_def demo_writer_def demo_manifest_def)
  qed (simp add: demo_moved_def demo_writer_def demo_manifest_def)
  then show ?thesis using d by blast
qed

definition demo_remote :: writer where
  "demo_remote = demo_writer\<lparr>wr_reader := demo_reader\<lparr>rd_is_local := False\<rparr>\<rparr>"

theorem feed_bounded_complete_witness:
  "case iter_dense demo_remote (bp_dense (wr_plan demo_writer)) of (yielded, err, peak) \<Rightarrow>
     yielded = bp_dense (wr_plan demo_writer) \<and> err = None \<and> peak \<le> staging_limit demo_remote"
proof -
  obtain yielded err peak where it: "iter_dense demo_remote (bp_dense (wr_plan demo_writer)) = (yielded, err, peak)"
    by (cases "iter_dense demo_remote (bp_dense (wr_plan demo_writer))") auto
  have lim: "staging_limit demo_remote = 2147483648" by code_simp
  have "\<forall>i \<in> set (bp_dense (wr_plan demo_writer)). reservation i \<le> staging_limit demo_remote"
    by (simp add: lim reservation_def demo_dense_item_def demo_address_def demo_tensor_at_def SOURCE_STAGING_COPIES_def)
  moreover have "1 \<le> wr_download_workers demo_remote" "\<not> rd_is_local (wr_reader demo_remote)"
    "wr_download_workers demo_remote \<noteq> 1" "0 < staging_limit demo_remote"
    by (simp_all add: lim) (simp_all add: demo_remote_def demo_writer_def)
  ultimately show ?thesis unfolding it using feed_bounded_complete [OF it] by auto
qed

definition demo_planned :: writer where
  "demo_planned = demo_writer\<lparr>wr_plan := demo_plan\<rparr>"


end
