(* ===== verification/Built.thy ===== *)
theory Built
  imports Recovery
begin

text \<open>
  What a build that returns leaves in the package directory: a journal that names exactly the
  items of the plan, every item in its region, regions of the planned length, and the metadata
  files of this journal.
\<close>

section \<open>The journal names nothing else\<close>

definition exact :: "string set \<Rightarrow> string list \<Rightarrow> (string, item_checksum) odict \<Rightarrow> bool" where
  "exact names marked checksums \<longleftrightarrow> set marked \<subseteq> names \<and> set (od_keys checksums) \<subseteq> set marked \<and> od_ok checksums"

lemma exact_mark: "exact names marked cs \<Longrightarrow> n \<in> names \<Longrightarrow> exact names (marked @ [n]) (od_set cs n c)"
  by (auto simp: exact_def)

definition dense_names :: "writer \<Rightarrow> string set" where
  "dense_names w = dw_name ` set (bp_dense (wr_plan w))"

definition expert_names :: "writer \<Rightarrow> string set" where
  "expert_names w = (\<lambda>i. py_str (ew_record_index i)) ` set (bp_experts (wr_plan w))"

definition shard_names :: "writer \<Rightarrow> string set" where
  "shard_names w = (\<lambda>s. py_str (pw_shard_index s)) ` set (ple_shards (wr_plan w))"

definition journal_exact :: "writer \<Rightarrow> build_journal \<Rightarrow> bool" where
  "journal_exact w j \<longleftrightarrow> exact (dense_names w) (bj_dense_done j) (bj_dense_checksums j) \<and>
     exact (expert_names w) (map py_str (bj_expert_done j)) (bj_expert_checksums j) \<and>
     exact (shard_names w) (map py_str (bj_ple_done j)) (bj_ple_checksums j)"

lemma journal_inv_exact: "journal_inv w (journal_exact w)"
  by (auto simp: journal_inv_def keeps_def journal_exact_def empty_journal_def mark_dense_def mark_expert_def mark_shard_def
      dense_items_def expert_work_def ple_work_def ple_of_def ple_shards_def has_ple_def
      dense_names_def expert_names_def shard_names_def exact_def)

lemma interrupted_inv:
  assumes "interrupted w pk" and ok: "writer_ok w" and inv: "journal_inv w Q"
  shows "pk_journal pk = Some j \<Longrightarrow> Q j"
  using assms(1)
proof (induction arbitrary: j rule: interrupted.induct)
  case (fresh pk)
  then show ?case by (simp add: fresh_package_def)
next
  case (killed pk k free)
  obtain io r where b: "build w free pk = (io, r)" by (meson surj_pair)
  show ?case using build_keeps [where Q = Q, OF ok inv killed.IH b] killed.prems by (simp add: b)
next
  case (crash pk pk')
  then show ?case by (simp add: package_crashed_def)
qed

section \<open>A build that returns\<close>

lemma build_returned:
  assumes "build w free pk = (io, Inr out)"
  obtains j ix rio j' ms where "load_journal w (pk_journal pk) = Inr j" "materialize_ple_index w = Inr ix"
    "run_regions (region_writers w) j = (rio, Inr j')" "write_metadata w (fold exec_pkg rio pk) ix j' = (ms, Inr ())"
    "io = rio @ map MetaIO ms @ [JournalIO (j'\<lparr>bj_finished := True\<rparr>)]"
proof -
  let ?start = "bindE (preflight_disk_space (wr_plan w) free (region_sizes pk)) (\<lambda>_.
           bindE (load_journal w (pk_journal pk)) (\<lambda>j. bindE (materialize_ple_index w) (\<lambda>ix. Inr (j, ix))))"
  obtain x where x: "?start = Inr x" using assms by (cases ?start) (auto simp: build_def)
  then obtain j ix where s: "load_journal w (pk_journal pk) = Inr j" "materialize_ple_index w = Inr ix" "x = (j, ix)"
    by (auto simp: bindE_Inr_iff)
  obtain rio res where rr: "run_regions (region_writers w) j = (rio, res)" by (meson surj_pair)
  have b: "build w free pk = (case res of Inl e \<Rightarrow> (rio, Inl e) | Inr j' \<Rightarrow> finish_build w pk ix j rio j')"
    unfolding build_def x s(3) by (simp add: rr)
  obtain j' where j': "res = Inr j'" using b assms by (cases res) auto
  obtain ms m where m: "write_metadata w (fold exec_pkg rio pk) ix j' = (ms, m)" by (meson surj_pair)
  have f: "finish_build w pk ix j rio j' = (io, Inr out)" using b assms j' by simp
  have u: "m = Inr ()" using f m by (cases m) (auto simp: finish_build_def)
  show thesis by (rule that [OF s(1,2) rr [unfolded j'] m [unfolded u]])
      (use f m u in \<open>auto simp: finish_build_def\<close>)
qed

text \<open>The planned length of a region, and plans without an empty region.\<close>

definition region_limit :: "writer \<Rightarrow> region \<Rightarrow> int" where
  "region_limit w r = (let t = pm_totals (bp_manifest (wr_plan w)) in
     case r of DENSE_REGION \<Rightarrow> pt_dense_bytes t | EXPERT_REGION \<Rightarrow> pt_expert_bytes t | PLE_REGION \<Rightarrow> pt_ple_bytes t)"

definition totals_ok :: "writer \<Rightarrow> bool" where
  "totals_ok w \<longleftrightarrow> pt_expert_bytes (pm_totals (bp_manifest (wr_plan w))) = (if has_bank w then bank_limit w else 0) \<and>
     pt_ple_bytes (pm_totals (bp_manifest (wr_plan w))) = (if has_ple w then table_limit w else 0) \<and>
     (pt_dense_bytes (pm_totals (bp_manifest (wr_plan w))) \<noteq> 0 \<longrightarrow> bp_dense (wr_plan w) \<noteq> []) \<and>
     (pt_expert_bytes (pm_totals (bp_manifest (wr_plan w))) \<noteq> 0 \<longrightarrow> bp_experts (wr_plan w) \<noteq> []) \<and>
     (pt_ple_bytes (pm_totals (bp_manifest (wr_plan w))) \<noteq> 0 \<longrightarrow> ple_shards (wr_plan w) \<noteq> [])"

definition no_empty_region :: "build_plan \<Rightarrow> bool" where
  "no_empty_region p \<longleftrightarrow> (let t = pm_totals (bp_manifest p) in
     (bp_dense p \<noteq> [] \<longrightarrow> pt_dense_bytes t \<noteq> 0) \<and> (pm_expert_layout (bp_manifest p) \<noteq> None \<longrightarrow> pt_expert_bytes t \<noteq> 0) \<and>
     (bp_ple p \<noteq> None \<longrightarrow> pt_ple_bytes t \<noteq> 0))"

text \<open>Region files that the plan has, none longer than planned.\<close>

definition regions_fit :: "writer \<Rightarrow> package_disk \<Rightarrow> bool" where
  "regions_fit w pk \<longleftrightarrow> (\<forall>r f. pk_file pk r = Some f \<longrightarrow> 0 < region_limit w r \<and> int (length (rf_bytes f)) \<le> region_limit w r)"

lemma view_length: "regions_fit w pk \<Longrightarrow> int (length (rd_bytes (region_view r pk))) \<le> max 0 (region_limit w r)"
  by (auto simp: regions_fit_def region_view_def split: option.split)

lemma regions_fit_run:
  assumes "regions_fit w pk" "0 < region_limit w r \<or> io = []"
    and "\<And>d. length (rd_bytes (fold exec_wio io d)) \<le> max (length (rd_bytes d)) (nat (region_limit w r))"
  shows "regions_fit w (fold exec_pkg (map (RegionIO r) io) pk)"
  unfolding regions_fit_def
proof (intro allI impI)
  fix s f assume f: "pk_file (fold exec_pkg (map (RegionIO r) io) pk) s = Some f"
  show "0 < region_limit w s \<and> int (length (rf_bytes f)) \<le> region_limit w s"
  proof (cases "s = r \<and> io \<noteq> []")
    case True
    have "rf_bytes f = rd_bytes (region_view r (fold exec_pkg (map (RegionIO r) io) pk))"
      using f True by (simp add: region_view_def)
    then have "length (rf_bytes f) \<le> max (length (rd_bytes (region_view r pk))) (nat (region_limit w r))"
      using assms(3) by (simp add: view_fold)
    then show ?thesis using True assms(2) view_length [OF assms(1), of r] by auto
  next
    case False
    then have "pk_file pk s = Some f" using f file_other [of r s io pk] by (cases "io = []") auto
    then show ?thesis using assms(1) by (simp add: regions_fit_def)
  qed
qed

lemma regions_fit_all:
  assumes ok: "writer_ok w" and t: "totals_ok w" and ne: "no_empty_region (wr_plan w)" and fit: "regions_fit w pk"
    and pos: "\<And>r. 0 \<le> region_limit w r" and run: "run_regions (region_writers w) j = (io, Inr j')"
  shows "regions_fit w (fold exec_pkg io pk)"
proof -
  obtain io1 j1 io2 j2 io3 where r: "write_dense w j = (io1, Inr j1)" "write_experts w j1 = (io2, Inr j2)"
    "write_ple w j2 = (io3, Inr j')"
    "io = map (RegionIO DENSE_REGION) io1 @ map (RegionIO EXPERT_REGION) io2 @ map (RegionIO PLE_REGION) io3"
    using run by (auto simp: run_regions_three split: prod.splits sum.splits)
  have d: "dense_ok w" using ok by (simp add: writer_ok_def)
  have dl: "region_limit w DENSE_REGION = dense_limit w" by (simp add: region_limit_def dense_limit_def)
  have f1: "regions_fit w (fold exec_pkg (map (RegionIO DENSE_REGION) io1) pk)"
  proof (rule regions_fit_run [OF fit])
    show "0 < region_limit w DENSE_REGION \<or> io1 = []"
      using ne pos [of DENSE_REGION] r(1) by (auto simp: no_empty_region_def Let_def region_limit_def write_dense_def)
    show "length (rd_bytes (fold exec_wio io1 x)) \<le> max (length (rd_bytes x)) (nat (region_limit w DENSE_REGION))" for x :: "build_journal region_disk"
      unfolding dl by (rule dense_region.run_length [OF d r(1)])
  qed
  have f2: "regions_fit w (fold exec_pkg (map (RegionIO EXPERT_REGION) io2) pk1)" if "regions_fit w pk1" for pk1
  proof (cases "has_bank w")
    case True
    then have e: "expert_region_ok w" and el: "region_limit w EXPERT_REGION = bank_limit w"
      using ok t by (auto simp: writer_ok_def has_bank_def totals_ok_def region_limit_def)
    show ?thesis
    proof (rule regions_fit_run [OF that])
      show "0 < region_limit w EXPERT_REGION \<or> io2 = []"
        using ne pos [of EXPERT_REGION] True by (auto simp: no_empty_region_def Let_def region_limit_def has_bank_def)
      show "length (rd_bytes (fold exec_wio io2 x)) \<le> max (length (rd_bytes x)) (nat (region_limit w EXPERT_REGION))" for x :: "build_journal region_disk"
        unfolding el by (rule bank_region.run_length [OF e r(2)])
    qed
  next
    case False
    then show ?thesis using that r(2) by (simp add: write_experts_def has_bank_def)
  qed
  have f3: "regions_fit w (fold exec_pkg (map (RegionIO PLE_REGION) io3) pk2)" if "regions_fit w pk2" for pk2
  proof (cases "has_ple w")
    case True
    then have e: "ple_region_ok w" and el: "region_limit w PLE_REGION = table_limit w"
      using ok t by (auto simp: writer_ok_def has_ple_def totals_ok_def region_limit_def)
    show ?thesis
    proof (rule regions_fit_run [OF that])
      show "0 < region_limit w PLE_REGION \<or> io3 = []"
        using ne pos [of PLE_REGION] True by (auto simp: no_empty_region_def Let_def region_limit_def has_ple_def)
      show "length (rd_bytes (fold exec_wio io3 x)) \<le> max (length (rd_bytes x)) (nat (region_limit w PLE_REGION))" for x :: "build_journal region_disk"
        unfolding el by (rule table_region.run_length [OF e r(3)])
    qed
  next
    case False
    then show ?thesis using that r(3) by (simp add: write_ple_def has_ple_def)
  qed
  show ?thesis unfolding r(4) using f1 f2 f3 by simp
qed

section \<open>The finished package\<close>

definition all_marked :: "writer \<Rightarrow> build_journal \<Rightarrow> bool" where
  "all_marked w j \<longleftrightarrow> (\<forall>i \<in> set (bp_dense (wr_plan w)). dense_done j i) \<and>
     (\<forall>i \<in> set (bp_experts (wr_plan w)). expert_done j i) \<and> (\<forall>s \<in> set (ple_shards (wr_plan w)). shard_done j s)"

definition finished :: "writer \<Rightarrow> package_disk \<Rightarrow> build_journal \<Rightarrow> ple_index option \<Rightarrow> bool" where
  "finished w pk j ix \<longleftrightarrow> pk_journal pk = Some j \<and> bj_finished j \<and> journal_exact w j \<and> journal_current w j \<and>
     package_good w pk \<and> package_held w pk j \<and> all_marked w j \<and> regions_fit w pk \<and> materialize_ple_index w = Inr ix \<and>
     (\<exists>old ms. pk_meta pk = old @ ms \<and> write_metadata w pk ix j = (ms, Inr ()))"

lemma returned_finished:
  assumes int: "interrupted w pk" and ok: "writer_ok w" "wr_resume w" and t: "totals_ok w" "no_empty_region (wr_plan w)"
    and fit: "regions_fit w pk" "\<And>r. 0 \<le> region_limit w r" and b: "build w free pk = (io, Inr out)"
  shows "\<exists>j ix. finished w (fold exec_pkg io pk) j ix"
proof -
  note io = interrupted_ok [OF int ok]
  obtain j ix rio j' ms where r: "load_journal w (pk_journal pk) = Inr j" "materialize_ple_index w = Inr ix"
    "run_regions (region_writers w) j = (rio, Inr j')" "write_metadata w (fold exec_pkg rio pk) ix j' = (ms, Inr ())"
    "io = rio @ map MetaIO ms @ [JournalIO (j'\<lparr>bj_finished := True\<rparr>)]"
    by (rule build_returned [OF b])
  let ?f = "j'\<lparr>bj_finished := True\<rparr>" and ?pk = "fold exec_pkg rio pk" and ?last = "fold exec_pkg io pk"
  have inv: "Q ?f" if q: "journal_inv w Q" for Q
  proof -
    have "Q j" by (rule load_keeps [where Q = Q, OF q r(1)]) (rule interrupted_inv [OF int ok(1) q])
    then have "Q j'" using regions_keep(2) [where Q = Q, OF ok(1) q _ r(3) refl] by blast
    then show ?thesis using q by (simp add: journal_inv_def)
  qed
  have bt: "between w pk j" using between_start [OF conjunct1 [OF io]] load_fresh_or_saved [OF r(1)] ok(2) by blast
  note st = regions_step(2) [OF ok(1) bt r(3) refl]
  have same: "pk_file ?last = pk_file ?pk" "pk_journal ?last = Some ?f" "pk_meta ?last = pk_meta ?pk @ ms"
    by (simp_all add: r(5) exec_pkg_def meta_fold)
  have m: "write_metadata w ?last ix ?f = write_metadata w ?pk ix j'"
    unfolding write_metadata_def final_manifest_def region_entry_def same(1)
    by (cases "copy_runtime_assets (wr_reader w)"; cases ix) simp_all
  have held: "package_good w ?last \<and> package_held w ?last ?f" by (rule good_finish [OF conjunct1 [OF st] same(1,2)])
  have "regions_fit w ?last"
    using regions_fit_all [OF ok(1) t fit(1) fit(2) r(3)] unfolding regions_fit_def same(1) .
  moreover have "all_marked w ?f" using st by (simp add: all_marked_def)
  ultimately show ?thesis
    using inv [OF journal_inv_exact] inv [OF journal_inv_current [OF ok(1)]] held same r(2,4) m
    unfolding finished_def by (intro exI [of _ ?f] exI [of _ ix]) auto
qed

text \<open>A region with an item on disk has its planned length.\<close>

lemma stored_length:
  assumes "regions_fit w pk" "0 < region_limit w r" "region_limit w r \<le> int (rd_synced (region_view r pk))"
    and "rd_synced (region_view r pk) \<le> length (rd_bytes (region_view r pk))"
  shows "\<exists>f. pk_file pk r = Some f \<and> int (length (rf_bytes f)) = region_limit w r"
proof (cases "pk_file pk r")
  case None
  then show ?thesis using assms(2,3) by (simp add: region_view_def)
next
  case (Some f)
  then show ?thesis using assms by (force simp: regions_fit_def region_view_def)
qed

lemma finished_region:
  assumes f: "finished w pk j ix" and ok: "writer_ok w" and t: "totals_ok w" and pos: "0 < region_limit w r"
  shows "\<exists>f. pk_file pk r = Some f \<and> int (length (rf_bytes f)) = region_limit w r"
proof -
  note g = f [unfolded finished_def package_good_def package_held_def all_marked_def]
  have fit: "regions_fit w pk" using g by blast
  show ?thesis
  proof (cases r)
    case DENSE_REGION
    then obtain i where i: "i \<in> set (bp_dense (wr_plan w))"
      using t pos by (cases "bp_dense (wr_plan w)") (auto simp: totals_ok_def region_limit_def)
    have "dense_region.item_stored w (region_view DENSE_REGION pk) i"
      using g i by (auto simp: dense_region.held_def dense_items_def)
    then show ?thesis using stored_length [OF fit, of r] pos g DENSE_REGION
      by (simp add: dense_region.item_stored_def dense_region.region_good_def dense_region.good_def dense_limit_def region_limit_def)
  next
    case EXPERT_REGION
    then have b: "has_bank w" "region_limit w r = bank_limit w" using t pos by (auto simp: totals_ok_def region_limit_def split: if_splits)
    obtain i where i: "i \<in> set (bp_experts (wr_plan w))"
      using t pos EXPERT_REGION by (cases "bp_experts (wr_plan w)") (auto simp: totals_ok_def region_limit_def)
    have "experts.item_stored w (region_view EXPERT_REGION pk) i"
      using g i b by (auto simp: bank_region.held_def expert_work_def)
    then show ?thesis using stored_length [OF fit, of r] pos g EXPERT_REGION b
      by (simp add: experts.item_stored_def bank_region.region_good_def experts.good_def)
  next
    case PLE_REGION
    then have b: "has_ple w" "region_limit w r = table_limit w" using t pos by (auto simp: totals_ok_def region_limit_def split: if_splits)
    obtain i where i: "i \<in> set (ple_shards (wr_plan w))"
      using t pos PLE_REGION by (cases "ple_shards (wr_plan w)") (auto simp: totals_ok_def region_limit_def)
    then have "shards.item_stored w (region_view PLE_REGION pk) i"
      using g b by (auto simp: table_region.held_def ple_work_def ple_of_def ple_shards_def has_ple_def)
    then show ?thesis using stored_length [OF fit, of r] pos g PLE_REGION b
      by (simp add: shards.item_stored_def table_region.region_good_def shards.good_def)
  qed
qed

end
