(* ===== verification/Validator.thy ===== *)
theory Validator
  imports Build "HOL-Library.List_Lexorder" "HOL-Library.Product_Lexorder"
begin

text \<open>
  \<open>package/validator.py\<close>: the checks of a finished package against its own metadata. The
  package directory is the parsed metadata files and the region files by path; SHA-256 and the
  canonical JSON hash are parameters. An error message is a constructor with its label; an
  exception that the code does not catch is an \<open>Inl\<close> of the whole validation.
\<close>

section \<open>Reports\<close>

datatype validation_mode = FAST | FULL

datatype validation_error =
    UnsupportedMode | NoPackage | MissingFiles | InvalidMetadata
  | UnsupportedVersion | NoProvenance | RevisionDisagrees | ConfigHashMismatch | JournalUnfinished
  | RegionUnexpected string | RegionMissing string | RegionFileMissing string | RegionSizeMismatch string
  | RegionNoHash string | RegionHashMismatch string
  | SpanOutside string | SpanOverlaps string
  | LayoutForEmptyRegion | NoExpertLayout | StrideUnaligned | PayloadExceedsStride | BankSizeMismatch
  | IndexForEmptyRegion | NoPleIndex | SidecarMissing | SidecarDisagrees | SidecarInvalid
  | HeadDimensions | MultiplierCount | HeadVocabNotPositive | HeadOffsetsNotMonotonic | HeadOutOfBounds int
  | TableSizeMismatch | RowGeometryInvalid | RowsOverrunPage | ChecksumNoRows string
  | RowsNotCovered | RowGap | LogicalRowsNotCovered
  | UnknownCodec string | LossyCodec string | ByteOrder string
  | NoVocabSize | VocabularyRows string | TokenIdsExceed string
  | DenseCoverage | DenseChecksumsDisagree | ExpertJournalCoverage | ExpertChecksumCoverage | ExpertChecksumsDisagree
  | PleCoverage | PleChecksumsDisagree
  | DenseNoOffset string | DenseShort string | DenseMismatch string
  | ExpertNoOffset string | ExpertShort string | ExpertMismatch string
  | ShardShort string | ShardMismatch string | PayloadsUnreadable | DecodeFailed string

record validation_report =
  vr_is_valid :: bool
  vr_mode :: validation_mode
  vr_items_checked :: int
  vr_bytes_checked :: int
  vr_errors :: "validation_error list"
  vr_no_generation_config :: bool

section \<open>The package directory\<close>

text \<open>JSON values of the model configuration; booleans are the integers 0 and 1.\<close>

datatype json_value = JInt int | JList "json_value list" | JOther

datatype json_config = JsonConfig (jc_values: "(string, json_value) odict") (jc_text: "json_config option")

definition json_text_config :: "json_config \<Rightarrow> json_config" where
  "json_text_config config = (case jc_text config of Some t \<Rightarrow> t | None \<Rightarrow> config)"

text \<open>A metadata file is absent, does not parse, or is the value it parses to.\<close>

record package_dir =
  vd_is_dir :: bool
  vd_manifest :: "package_manifest result option"
  vd_checksums :: "package_checksums result option"
  vd_journal :: "build_journal result option"
  vd_config :: "json_config result option"
  vd_sidecar :: "ple_index result option"
  vd_file :: "string \<Rightarrow> bytes option"
  vd_generation :: bool

record hashes =
  vh_config :: "json_config \<Rightarrow> string"
  vh_file :: "bytes \<Rightarrow> string"

definition open_region :: "package_dir \<Rightarrow> package_manifest \<Rightarrow> string \<Rightarrow> bytes result" where
  "open_region d m name =
     bindE (od_index (pm_regions m) name) (\<lambda>region.
     case vd_file d (ri_path region) of None \<Rightarrow> Inl FileNotFoundError | Some f \<Rightarrow> Inr f)"

definition read_exact :: "bytes \<Rightarrow> int \<Rightarrow> int \<Rightarrow> bytes result" where
  "read_exact f offset len =
     bindE (file_read f offset len) (\<lambda>payload.
     if int (length payload) \<noteq> len then Inl ValueError else Inr payload)"

section \<open>Spans\<close>

type_synonym labelled_span = "int \<times> int \<times> string"

fun scan_spans :: "int \<Rightarrow> int \<Rightarrow> labelled_span list \<Rightarrow> validation_error list" where
  "scan_spans limit previous_end [] = []"
| "scan_spans limit previous_end ((start, e, label) # spans) =
     (if start < 0 \<or> e < start \<or> limit < e then [SpanOutside label] else []) @
     (if start < previous_end then [SpanOverlaps label] else []) @
     scan_spans limit (max previous_end e) spans"

definition check_non_overlapping :: "labelled_span list \<Rightarrow> int \<Rightarrow> validation_error list" where
  "check_non_overlapping spans limit = scan_spans limit 0 (sort spans)"

section \<open>Layouts\<close>

definition validate_dense_layout :: "package_manifest \<Rightarrow> validation_error list" where
  "validate_dense_layout m = check_non_overlapping
     (map (\<lambda>item. (de_byte_offset item, de_byte_offset item + de_length item, ''dense tensor '' @ de_name item)) (pm_dense m))
     (pt_dense_bytes (pm_totals m))"

definition validate_expert_layout :: "package_manifest \<Rightarrow> validation_error list" where
  "validate_expert_layout m =
     (if pt_expert_bytes (pm_totals m) = 0 then
        (case pm_expert_layout m of None \<Rightarrow> [] | Some _ \<Rightarrow> [LayoutForEmptyRegion])
      else case pm_expert_layout m of
        None \<Rightarrow> [NoExpertLayout]
      | Some lay \<Rightarrow>
          let rec = el_record lay in
          (if rl_alignment rec \<le> 0 \<or> rl_stride rec mod rl_alignment rec \<noteq> 0 then [StrideUnaligned] else []) @
          (if rl_stride rec < rl_payload_bytes rec then [PayloadExceedsStride] else []) @
          (if el_total_bytes lay \<noteq> pt_expert_bytes (pm_totals m) then [BankSizeMismatch] else []) @
          check_non_overlapping (map (\<lambda>p. (pl_offset p, pl_offset p + pl_length p, pl_name p)) (rl_projections rec))
            (rl_payload_bytes rec))"

definition sidecar_errors :: "package_dir \<Rightarrow> ple_index \<Rightarrow> validation_error list" where
  "sidecar_errors d ix =
     (case vd_sidecar d of
        None \<Rightarrow> [SidecarMissing]
      | Some (Inl _) \<Rightarrow> [SidecarInvalid]
      | Some (Inr sidecar) \<Rightarrow> if sidecar \<noteq> ix then [SidecarDisagrees] else [])"

definition head_errors :: "ple_index \<Rightarrow> validation_error list" where
  "head_errors ix =
     (if pi_num_heads ix \<noteq> int (length (pi_head_offsets ix)) \<or> pi_num_heads ix \<noteq> int (length (pi_head_vocab_sizes ix))
      then [HeadDimensions] else []) @
     (if int (length (pi_layer_multipliers ix)) \<noteq> pi_ngram_size ix then [MultiplierCount] else []) @
     (if \<exists>size \<in> set (pi_head_vocab_sizes ix). size \<le> 0 then [HeadVocabNotPositive] else []) @
     (if pi_head_offsets ix \<noteq> sort (pi_head_offsets ix) then [HeadOffsetsNotMonotonic] else []) @
     concat (map (\<lambda>(head, offset, size).
         if offset < 0 \<or> pi_total_rows ix < offset + size then [HeadOutOfBounds (int head)] else [])
       (zip [0 ..< length (pi_head_offsets ix)] (zip (pi_head_offsets ix) (pi_head_vocab_sizes ix))))"

definition row_errors :: "ple_row_layout \<Rightarrow> validation_error list" where
  "row_errors row =
     (if pr_payload_bytes row \<le> 0 \<or> pr_rows_per_page row \<le> 0 then [RowGeometryInvalid]
      else if pr_page_bytes row < pr_rows_per_page row * pr_payload_bytes row then [RowsOverrunPage] else [])"

definition checksum_ranges :: "(string, item_checksum) odict \<Rightarrow> labelled_span list" where
  "checksum_ranges ple = List.map_filter (\<lambda>(shard, c).
     case (ic_first_row c, ic_num_rows c) of
       (Some first, Some n) \<Rightarrow> Some (first, first + n, ''PLE source shard '' @ shard)
     | _ \<Rightarrow> None) ple"

definition checksum_row_errors :: "(string, item_checksum) odict \<Rightarrow> validation_error list" where
  "checksum_row_errors ple = concat (map (\<lambda>(shard, c).
     case (ic_first_row c, ic_num_rows c) of (Some _, Some _) \<Rightarrow> [] | _ \<Rightarrow> [ChecksumNoRows shard]) ple)"

definition covers :: "labelled_span list \<Rightarrow> int \<Rightarrow> bool" where
  "covers ordered limit \<longleftrightarrow> fst (hd ordered) = 0 \<and> fst (snd (last ordered)) = limit"

definition has_gap :: "labelled_span list \<Rightarrow> bool" where
  "has_gap ordered \<longleftrightarrow> (\<exists>(previous, current) \<in> set (zip ordered (tl ordered)). fst (snd previous) \<noteq> fst current)"

definition shard_ranges :: "(shard_mapping \<Rightarrow> int) \<Rightarrow> string \<Rightarrow> ple_index \<Rightarrow> labelled_span list" where
  "shard_ranges first label ix = map (\<lambda>s. (first s, first s + sm_num_rows s, label @ py_str (sm_shard_index s))) (pi_shards ix)"

definition ple_range_errors :: "package_manifest \<Rightarrow> (string, item_checksum) odict \<Rightarrow> ple_index \<Rightarrow> validation_error list" where
  "ple_range_errors m ple ix =
     (let ranges = checksum_ranges ple; ordered = sort ranges;
          logical = shard_ranges sm_logical_first_row ''PLE logical shard '' ix;
          physical = shard_ranges sm_physical_first_row ''PLE physical shard '' ix in
      checksum_row_errors ple @
      check_non_overlapping ranges (pi_physical_rows ix) @
      (if pm_complete_model m \<and> ranges \<noteq> [] then
         (if \<not> covers ordered (pi_physical_rows ix) then [RowsNotCovered] else []) @
         (if has_gap ordered then [RowGap] else []) else []) @
      check_non_overlapping logical (pi_total_rows ix) @
      check_non_overlapping physical (pi_physical_rows ix) @
      (if pm_complete_model m \<and> logical \<noteq> [] \<and> \<not> covers (sort logical) (pi_total_rows ix)
       then [LogicalRowsNotCovered] else []))"

definition validate_ple_layout :: "package_dir \<Rightarrow> package_manifest \<Rightarrow> package_checksums \<Rightarrow> validation_error list result" where
  "validate_ple_layout d m cs =
     (if pt_ple_bytes (pm_totals m) = 0 then
        Inr (case pm_ple_index m of None \<Rightarrow> [] | Some _ \<Rightarrow> [IndexForEmptyRegion])
      else case pm_ple_index m of
        None \<Rightarrow> Inr [NoPleIndex]
      | Some ix \<Rightarrow>
          bindE (pi_total_bytes ix) (\<lambda>total_bytes.
          Inr (sidecar_errors d ix @ head_errors ix @
            (if total_bytes \<noteq> pt_ple_bytes (pm_totals m) then [TableSizeMismatch] else []) @
            row_errors (pi_row ix) @ ple_range_errors m (pc_ple cs) ix)))"

section \<open>Codecs, vocabulary, journal\<close>

definition codec_references :: "package_manifest \<Rightarrow> (string \<times> string \<times> pyfloat) list" where
  "codec_references m =
     map (\<lambda>item. (de_name item, de_codec_id item, de_bits item)) (pm_dense m) @
     (case pm_expert_layout m of None \<Rightarrow> []
      | Some lay \<Rightarrow> map (\<lambda>p. (''expert.'' @ pl_name p, pl_codec_id p, pl_bits p)) (rl_projections (el_record lay))) @
     (case pm_ple_index m of None \<Rightarrow> []
      | Some ix \<Rightarrow> [(''ple.rows'', pr_codec_id (pi_row ix), pr_bits (pi_row ix))])"

definition codec_errors :: "(string, codec_spec) odict \<Rightarrow> string \<times> string \<times> pyfloat \<Rightarrow> validation_error list" where
  "codec_errors codecs ref = (case ref of (label, codec_id, bits) \<Rightarrow>
     (case od_get codecs codec_id of
        None \<Rightarrow> [UnknownCodec label]
      | Some codec \<Rightarrow>
          (if 16 \<le> bits \<and> cd_method codec \<noteq> ''raw'' then [LossyCodec label] else []) @
          (if cd_byte_order codec \<noteq> ''little'' then [ByteOrder codec_id] else [])))"

definition validate_codecs :: "package_manifest \<Rightarrow> validation_error list" where
  "validate_codecs m = concat (map (codec_errors (pm_codecs m)) (codec_references m))"

definition token_ids :: "json_value \<Rightarrow> json_value list" where
  "token_ids v = (case v of JList vs \<Rightarrow> vs | _ \<Rightarrow> [v])"

definition bad_token_id :: "int \<Rightarrow> json_value \<Rightarrow> bool" where
  "bad_token_id vocab_size v = (case v of JInt i \<Rightarrow> \<not> (0 \<le> i \<and> i < vocab_size) | _ \<Rightarrow> False)"

definition validate_vocabulary :: "package_manifest \<Rightarrow> json_config \<Rightarrow> validation_error list" where
  "validate_vocabulary m config =
     (let text = jc_values (json_text_config config) in
      case od_get text ''vocab_size'' of
        Some (JInt vocab_size) \<Rightarrow>
          if vocab_size \<le> 0 then [NoVocabSize]
          else
            concat (map (\<lambda>item.
                if (str_endswith (de_name item) ''embed_tokens.weight'' \<or> str_endswith (de_name item) ''lm_head.weight'') \<and>
                   (de_shape item = [] \<or> hd (de_shape item) \<noteq> vocab_size)
                then [VocabularyRows (de_name item)] else []) (pm_dense m)) @
            concat (map (\<lambda>(key, v).
                if str_endswith key ''token_id'' \<and> (\<exists>i \<in> set (token_ids v). bad_token_id vocab_size i)
                then [TokenIdsExceed key] else []) text)
      | _ \<Rightarrow> [NoVocabSize])"

text \<open>\<open>==\<close> of dictionaries does not see the order.\<close>

definition od_same :: "('k, 'v) odict \<Rightarrow> ('k, 'v) odict \<Rightarrow> bool" where
  "od_same d e \<longleftrightarrow> set (od_keys d) = set (od_keys e) \<and> (\<forall>k \<in> set (od_keys d). od_get d k = od_get e k)"

definition expected_experts :: "package_manifest \<Rightarrow> string set" where
  "expected_experts m = (case pm_expert_layout m of None \<Rightarrow> {} | Some lay \<Rightarrow> set (map py_str [0 .. num_records lay - 1]))"

definition validate_journal :: "package_manifest \<Rightarrow> package_checksums \<Rightarrow> build_journal \<Rightarrow> validation_error list" where
  "validate_journal m cs j =
     (let names = set (map de_name (pm_dense m)) in
      (if set (bj_dense_done j) \<noteq> names \<or> set (od_keys (pc_dense cs)) \<noteq> names then [DenseCoverage] else []) @
      (if \<not> od_same (bj_dense_checksums j) (pc_dense cs) then [DenseChecksumsDisagree] else []) @
      (if set (map py_str (bj_expert_done j)) \<noteq> expected_experts m then [ExpertJournalCoverage] else []) @
      (if set (od_keys (pc_experts cs)) \<noteq> expected_experts m then [ExpertChecksumCoverage] else []) @
      (if \<not> od_same (bj_expert_checksums j) (pc_experts cs) then [ExpertChecksumsDisagree] else []) @
      (if set (od_keys (bj_ple_checksums j)) \<noteq> set (od_keys (pc_ple cs)) then [PleCoverage] else []) @
      (if \<not> od_same (bj_ple_checksums j) (pc_ple cs) then [PleChecksumsDisagree] else []))"

section \<open>Item checksums\<close>

text \<open>The number of items and bytes checked so far, and the errors.\<close>

type_synonym check_state = "int \<times> int \<times> validation_error list"

text \<open>An item that is one run of bytes.\<close>

definition check_run :: "(string \<Rightarrow> validation_error) \<Rightarrow> (string \<Rightarrow> validation_error) \<Rightarrow> (string \<Rightarrow> validation_error) \<Rightarrow>
    bytes \<Rightarrow> string \<times> item_checksum \<Rightarrow> check_state \<Rightarrow> check_state result" where
  "check_run no_offset short mismatch f entry st = (case (entry, st) of ((name, c), (items, byte_count, errors)) \<Rightarrow>
     (case ic_offset c of
        None \<Rightarrow> Inr (items, byte_count, errors @ [no_offset name])
      | Some off \<Rightarrow>
          bindE (file_read f off (ic_length c)) (\<lambda>payload.
          if int (length payload) \<noteq> ic_length c then Inr (items, byte_count, errors @ [short name])
          else Inr (items + 1, byte_count + int (length payload),
            errors @ (if crc32c_hex payload \<noteq> ic_value c then [mismatch name] else [])))))"

text \<open>A PLE shard, row by row, until a row is short.\<close>

fun check_rows :: "ple_row_layout \<Rightarrow> bytes \<Rightarrow> string \<Rightarrow> int list \<Rightarrow> 32 word \<Rightarrow> int \<Rightarrow>
    (32 word \<times> int \<times> validation_error list) result" where
  "check_rows row f shard [] crc n = Inr (crc, n, [])"
| "check_rows row f shard (rid # ids) crc n =
     (if pr_rows_per_page row = 0 then Inl ZeroDivisionError
      else bindE (file_read f (row_offset row rid) (pr_payload_bytes row)) (\<lambda>payload.
        if int (length payload) \<noteq> pr_payload_bytes row then Inr (crc, n, [ShardShort shard])
        else check_rows row f shard ids (crc32c payload crc) (n + int (length payload))))"

definition check_shard :: "ple_row_layout \<Rightarrow> bytes \<Rightarrow> string \<times> item_checksum \<Rightarrow> check_state \<Rightarrow> check_state result" where
  "check_shard row f entry st = (case (entry, st) of ((shard, c), (items, byte_count, errors)) \<Rightarrow>
     (case (ic_first_row c, ic_num_rows c) of
        (Some first, Some num) \<Rightarrow>
          bindE (check_rows row f shard [first .. first + num - 1] 0 0) (\<lambda>(crc, n, short).
          Inr (items + 1, byte_count + n, errors @ short @
            (if hex8 crc \<noteq> ic_value c \<or> n \<noteq> ic_length c then [ShardMismatch shard] else [])))
      | _ \<Rightarrow> Inr st))"

definition validate_item_checksums :: "package_dir \<Rightarrow> package_manifest \<Rightarrow> package_checksums \<Rightarrow> check_state result" where
  "validate_item_checksums d m cs =
     bindE (if pt_dense_bytes (pm_totals m) = 0 then Inr (0, 0, [])
            else bindE (open_region d m ''dense'') (\<lambda>f.
              foldE (check_run DenseNoOffset DenseShort DenseMismatch f) (pc_dense cs) (0, 0, []))) (\<lambda>s1.
     bindE (if pt_expert_bytes (pm_totals m) = 0 then Inr s1
            else bindE (open_region d m ''experts'') (\<lambda>f.
              foldE (check_run ExpertNoOffset ExpertShort ExpertMismatch f) (pc_experts cs) s1)) (\<lambda>s2.
     case pm_ple_index m of
       None \<Rightarrow> Inr s2
     | Some ix \<Rightarrow>
         if pt_ple_bytes (pm_totals m) = 0 then Inr s2
         else bindE (open_region d m ''ple'') (\<lambda>f. foldE (check_shard (pi_row ix) f) (pc_ple cs) s2)))"

section \<open>Representative decodes\<close>

text \<open>The value of a float16 bit pattern; \<open>None\<close> for infinities and NaN.\<close>

definition half_value :: "16 word \<Rightarrow> rat option" where
  "half_value w =
     (let s = (if bit w 15 then - 1 else 1); e = uint (drop_bit 10 w AND 31); m = uint (w AND 1023) in
      if e = 31 then None
      else if e = 0 then Some (s * of_int m / 2 ^ 24)
      else Some (s * (1 + of_int m / 1024) * 2 powi (e - 15)))"

text \<open>\<open>np.frombuffer(b, dtype="<f2")\<close>\<close>

fun halves :: "bytes \<Rightarrow> 16 word list result" where
  "halves [] = Inr []"
| "halves [b] = Inl ValueError"
| "halves (lo # hi # rest) = bindE (halves rest) (\<lambda>hs. Inr ((ucast lo OR push_bit 8 (ucast hi)) # hs))"

definition all_finite :: "16 word list \<Rightarrow> bool" where
  "all_finite hs \<longleftrightarrow> (\<forall>h \<in> set hs. half_value h \<noteq> None)"

definition half_exists :: "(rat \<Rightarrow> bool) \<Rightarrow> 16 word list \<Rightarrow> bool" where
  "half_exists P hs \<longleftrightarrow> (\<exists>h \<in> set hs. case half_value h of None \<Rightarrow> False | Some x \<Rightarrow> P x)"

text \<open>The dictionary of sections keeps the last span of a section.\<close>

definition section_of :: "bytes \<Rightarrow> section_span list \<Rightarrow> section_kind \<Rightarrow> bytes option" where
  "section_of payload spans sec =
     map_option (\<lambda>s. py_slice payload (sp_offset s) (sp_offset s + sp_length s)) (find_span (rev spans) sec)"

definition packed_codes :: "bytes \<Rightarrow> int \<Rightarrow> byte list" where
  "packed_codes sample bits = concat (map (\<lambda>i. map (\<lambda>b. drop_bit (i * nat bits) b AND mask (nat bits)) sample)
     [0 ..< nat (8 div bits)])"

text \<open>\<open>True\<close> when the sections look sound.\<close>

definition decode_sanity :: "bytes \<Rightarrow> section_span list \<Rightarrow> pyfloat \<Rightarrow> string \<Rightarrow> bool result" where
  "decode_sanity payload spans bits codec_id =
     (if str_startswith codec_id ''raw.f16'' then
        bindE (halves (take 4096 payload)) (\<lambda>values. Inr (values \<noteq> [] \<and> all_finite values))
      else
        let packed = (case section_of payload spans PACKED of None \<Rightarrow> [] | Some b \<Rightarrow> b);
            scales_raw = (case section_of payload spans SCALES of None \<Rightarrow> [] | Some b \<Rightarrow> b) in
        if packed = [] \<or> scales_raw = [] then Inr False
        else bindE (halves scales_raw) (\<lambda>scales.
          if scales = [] \<or> \<not> all_finite scales \<or> half_exists (\<lambda>x. x \<le> 0) scales then Inr False
          else
            let integer_bits = py_int bits in
            if integer_bits \<le> 0 \<or> 8 < integer_bits then Inr False
            else
              let max_code = 2 ^ nat integer_bits - 1; codes = packed_codes (take 4096 packed) integer_bits in
              if codes = [] \<or> (\<exists>c \<in> set codes. max_code < uint c) then Inr False
              else (case section_of payload spans ZEROS of
                None \<Rightarrow> Inr True
              | Some zeros_raw \<Rightarrow>
                  if zeros_raw = [] then Inr True
                  else bindE (halves zeros_raw) (\<lambda>zeros.
                    Inr (all_finite zeros \<and> \<not> half_exists (\<lambda>x. x < 0) zeros \<and> \<not> half_exists (\<lambda>x. of_int max_code < x) zeros)))))"

text \<open>One payload per codec: the codecs seen so far and the errors.\<close>

type_synonym decode_state = "string list \<times> validation_error list"

definition check_decode :: "bytes result \<Rightarrow> string \<times> string \<times> int \<times> int \<times> section_span list \<times> pyfloat \<Rightarrow> decode_state \<Rightarrow>
    decode_state result" where
  "check_decode region item st = (case (item, st) of ((label, codec_id, offset, len, spans, bits), (seen, errors)) \<Rightarrow>
     (if codec_id \<in> set seen then Inr st
      else
        bindE region (\<lambda>f.
        bindE (read_exact f offset len) (\<lambda>payload.
        bindE (decode_sanity payload spans bits codec_id) (\<lambda>fine.
        Inr (seen @ [codec_id], errors @ (if fine then [] else [DecodeFailed label])))))))"

definition validate_representative_decodes :: "package_dir \<Rightarrow> package_manifest \<Rightarrow> validation_error list result" where
  "validate_representative_decodes d m =
     (let dense_region = (if pt_dense_bytes (pm_totals m) = 0 then Inl AttributeError else open_region d m ''dense'') in
      bindE (if pt_dense_bytes (pm_totals m) \<noteq> 0 then bindE (od_index (pm_regions m) ''dense'') (\<lambda>_. Inr ()) else Inr ()) (\<lambda>_.
      bindE (foldE (check_decode dense_region) (map (\<lambda>i. (de_name i, de_codec_id i, de_byte_offset i, de_length i, de_spans i, de_bits i))
        (pm_dense m)) ([], [])) (\<lambda>s1.
      bindE (case pm_expert_layout m of
          None \<Rightarrow> Inr s1
        | Some lay \<Rightarrow>
            if pt_expert_bytes (pm_totals m) = 0 then Inr s1
            else bindE (od_index (pm_regions m) ''experts'') (\<lambda>_.
              foldE (check_decode (open_region d m ''experts''))
                (map (\<lambda>p. (''expert.'' @ pl_name p, pl_codec_id p, pl_offset p, pl_length p, pl_spans p, pl_bits p))
                  (rl_projections (el_record lay))) s1)) (\<lambda>s2.
      bindE (case pm_ple_index m of
          None \<Rightarrow> Inr s2
        | Some ix \<Rightarrow>
            let row = pi_row ix in
            if pt_ple_bytes (pm_totals m) = 0 \<or> pr_codec_id row \<in> set (fst s2) then Inr s2
            else bindE (open_region d m ''ple'') (\<lambda>f.
              bindE (read_exact f 0 (pr_payload_bytes row)) (\<lambda>payload.
              bindE (section_spans [1, pr_row_width row] (pr_bits row) (pr_group_size row) (pr_symmetric row) 2 2) (\<lambda>spans.
              bindE (decode_sanity payload spans (pr_bits row) (pr_codec_id row)) (\<lambda>fine.
              Inr (fst s2, snd s2 @ (if fine then [] else [DecodeFailed ''PLE row'']))))))) (\<lambda>s3.
      Inr (snd s3))))))"

section \<open>Validation\<close>

definition provenance_errors :: "hashes \<Rightarrow> package_manifest \<Rightarrow> json_config \<Rightarrow> validation_error list" where
  "provenance_errors h m config =
     (if pm_package_version m \<noteq> PACKAGE_VERSION then [UnsupportedVersion] else []) @
     (case pm_source m of
        None \<Rightarrow> [NoProvenance]
      | Some s \<Rightarrow>
          (if sv_revision s = [] then [NoProvenance]
           else if pm_source_revision m \<noteq> Some (sv_revision s) then [RevisionDisagrees] else []) @
          (if vh_config h config \<noteq> sv_config_sha256 s then [ConfigHashMismatch] else []))"

definition region_errors :: "package_dir \<Rightarrow> package_manifest \<Rightarrow> string \<times> int \<Rightarrow> validation_error list" where
  "region_errors d m expectation = (case expectation of (name, expected_size) \<Rightarrow>
     (if expected_size = 0 then (if od_in name (pm_regions m) then [RegionUnexpected name] else [])
      else case od_get (pm_regions m) name of
        None \<Rightarrow> [RegionMissing name]
      | Some region \<Rightarrow>
          (case vd_file d (ri_path region) of
             None \<Rightarrow> [RegionFileMissing name]
           | Some f \<Rightarrow>
               (if ri_size_bytes region \<noteq> expected_size \<or> int (length f) \<noteq> expected_size then [RegionSizeMismatch name] else []) @
               (if ri_sha256 region = None \<or> ri_sha256 region = Some [] then [RegionNoHash name] else []))))"

definition expected_regions :: "package_manifest \<Rightarrow> (string \<times> int) list" where
  "expected_regions m = [(''dense'', pt_dense_bytes (pm_totals m)), (''experts'', pt_expert_bytes (pm_totals m)),
     (''ple'', pt_ple_bytes (pm_totals m))]"

definition check_region_hash :: "hashes \<Rightarrow> package_dir \<Rightarrow> string \<times> region_integrity \<Rightarrow> int \<times> validation_error list \<Rightarrow>
    int \<times> validation_error list" where
  "check_region_hash h d entry st = (case (entry, st) of ((name, region), (byte_count, errors)) \<Rightarrow>
     (case vd_file d (ri_path region) of
        None \<Rightarrow> st
      | Some f \<Rightarrow> (byte_count + int (length f),
          errors @ (if ri_sha256 region \<noteq> Some (vh_file h f) then [RegionHashMismatch name] else []))))"

definition rejected :: "validation_mode \<Rightarrow> validation_error \<Rightarrow> validation_report" where
  "rejected mode e = \<lparr>vr_is_valid = False, vr_mode = mode, vr_items_checked = 0, vr_bytes_checked = 0, vr_errors = [e],
     vr_no_generation_config = False\<rparr>"

text \<open>The checks of a package whose metadata parses. An \<open>OSError\<close> of the item checks is reported
  and discards their findings; any other exception leaves the validator.\<close>

definition item_findings :: "package_dir \<Rightarrow> package_manifest \<Rightarrow> package_checksums \<Rightarrow> check_state result" where
  "item_findings d m cs =
     (case validate_item_checksums d m cs of
        Inl e \<Rightarrow> if e = OSError \<or> e = FileNotFoundError then Inr (0, 0, [PayloadsUnreadable]) else Inl e
      | Inr s \<Rightarrow> Inr s)"

definition validate_parsed :: "hashes \<Rightarrow> package_dir \<Rightarrow> validation_mode \<Rightarrow> package_manifest \<Rightarrow> package_checksums \<Rightarrow>
    build_journal \<Rightarrow> json_config \<Rightarrow> validation_report result" where
  "validate_parsed h d mode m cs j config =
     bindE (validate_ple_layout d m cs) (\<lambda>ple_errors.
     bindE (item_findings d m cs) (\<lambda>(items, byte_count, item_errors).
     let hashed = fold (check_region_hash h d) (pm_regions m) (byte_count, []) in
     bindE (if mode = FULL then bindE (validate_representative_decodes d m) (\<lambda>es. Inr (fst hashed, snd hashed @ es))
            else Inr (byte_count, [])) (\<lambda>(checked_bytes, full_errors).
     let errors = provenance_errors h m config @ (if \<not> bj_finished j then [JournalUnfinished] else []) @
           concat (map (region_errors d m) (expected_regions m)) @
           validate_dense_layout m @ validate_expert_layout m @ ple_errors @ validate_codecs m @
           validate_vocabulary m config @ validate_journal m cs j @ item_errors @ full_errors in
     Inr \<lparr>vr_is_valid = (errors = []), vr_mode = mode, vr_items_checked = items, vr_bytes_checked = checked_bytes,
       vr_errors = errors, vr_no_generation_config = \<not> vd_generation d\<rparr>)))"

definition validate :: "hashes \<Rightarrow> package_dir \<Rightarrow> validation_mode option \<Rightarrow> validation_report result" where
  "validate h d mode0 =
     (case mode0 of
        None \<Rightarrow> Inr (rejected FAST UnsupportedMode)
      | Some mode \<Rightarrow>
          if \<not> vd_is_dir d then Inr (rejected mode NoPackage)
          else case (vd_manifest d, vd_checksums d, vd_journal d, vd_config d) of
            (Some rm, Some rc, Some rj, Some rconfig) \<Rightarrow>
              (case bindE rm (\<lambda>m. bindE rc (\<lambda>cs. bindE rj (\<lambda>j. bindE rconfig (\<lambda>config. Inr (m, cs, j, config))))) of
                 Inl _ \<Rightarrow> Inr (rejected mode InvalidMetadata)
               | Inr (m, cs, j, config) \<Rightarrow> validate_parsed h d mode m cs j config)
          | _ \<Rightarrow> Inr (rejected mode MissingFiles))"

end
