(* ===== verification/ValidatorLaws.thy ===== *)
theory ValidatorLaws
  imports Validator Integrity "HOL-Library.Multiset"
begin

text \<open>
  What the validator's checks amount to: the overlap scan accepts exactly the families of
  in-bounds, pairwise disjoint spans, and a flipped byte inside any checked item is always
  reported.
\<close>

section \<open>The overlap scan\<close>

definition span_apart :: "labelled_span \<Rightarrow> labelled_span \<Rightarrow> bool" where
  "span_apart a b \<longleftrightarrow> fst (snd a) \<le> fst b \<or> fst (snd b) \<le> fst a"

definition span_fits :: "int \<Rightarrow> labelled_span \<Rightarrow> bool" where
  "span_fits limit a \<longleftrightarrow> 0 \<le> fst a \<and> fst a \<le> fst (snd a) \<and> fst (snd a) \<le> limit"

definition span_before :: "labelled_span \<Rightarrow> labelled_span \<Rightarrow> bool" where
  "span_before a b \<longleftrightarrow> fst (snd a) \<le> fst b"

lemma scan_spans_iff:
  "scan_spans limit c spans = [] \<longleftrightarrow>
     (\<forall>a \<in> set spans. span_fits limit a \<and> c \<le> fst a) \<and> sorted_wrt span_before spans"
proof (induction spans arbitrary: c)
  case (Cons a spans)
  obtain s e l where a: "a = (s, e, l)" by (cases a)
  show ?case using Cons.IH [of "max c e"]
    by (auto simp: a span_fits_def span_before_def not_le not_less)
qed simp

lemma sorted_apart:
  assumes "sorted spans" "\<forall>a \<in> set spans. fst a \<le> fst (snd a)"
  shows "sorted_wrt span_before spans \<longleftrightarrow> sorted_wrt span_apart spans"
  using assms
proof (induction spans)
  case (Cons a spans)
  have "span_before a b \<longleftrightarrow> span_apart a b" if "b \<in> set spans" for b
  proof -
    have "a \<le> b" "fst a \<le> fst (snd a)" "fst b \<le> fst (snd b)" using Cons.prems that by auto
    then show ?thesis by (cases a; cases b) (auto simp: span_before_def span_apart_def)
  qed
  then show ?case using Cons by auto
qed simp

lemma sorted_wrt_nth_pairs: "sorted_wrt P xs \<longleftrightarrow> (\<forall>i j. i < j \<longrightarrow> j < length xs \<longrightarrow> P (xs ! i) (xs ! j))"
  by (auto simp: sorted_wrt_iff_nth_less)

lemma sorted_wrt_perm:
  assumes "mset xs = mset ys" "\<And>a b. P a b \<Longrightarrow> P b a" "sorted_wrt P xs"
  shows "sorted_wrt P ys"
  using assms(1,3)
proof (induction xs arbitrary: ys)
  case (Cons x xs)
  have "x \<in> set ys" using mset_eq_setD [OF Cons.prems(1)] by auto
  then obtain us vs where ys: "ys = us @ x # vs" by (meson split_list)
  have m: "mset xs = mset (us @ vs)" using Cons.prems(1) by (simp add: ys)
  have s: "sorted_wrt P (us @ vs)" using Cons.IH [OF m] Cons.prems(2) by simp
  have "\<forall>b \<in> set us \<union> set vs. P x b \<and> P b x"
    using Cons.prems(2) mset_eq_setD [OF m] assms(2) by auto
  then show ?case using s by (auto simp: ys sorted_wrt_append)
qed simp

lemma no_overlap_iff:
  "check_non_overlapping spans limit = [] \<longleftrightarrow> (\<forall>a \<in> set spans. span_fits limit a) \<and> sorted_wrt span_apart spans"
proof -
  have sym_apart: "\<And>a b. span_apart a b \<Longrightarrow> span_apart b a" by (auto simp: span_apart_def)
  have perm: "sorted_wrt span_apart (sort spans) \<longleftrightarrow> sorted_wrt span_apart spans"
  proof
    show "sorted_wrt span_apart spans" if "sorted_wrt span_apart (sort spans)"
      by (rule sorted_wrt_perm [OF _ sym_apart that]) simp_all
    show "sorted_wrt span_apart (sort spans)" if "sorted_wrt span_apart spans"
      by (rule sorted_wrt_perm [OF _ sym_apart that]) simp_all
  qed
  have "check_non_overlapping spans limit = [] \<longleftrightarrow>
      (\<forall>a \<in> set spans. span_fits limit a) \<and> sorted_wrt span_before (sort spans)"
    by (auto simp: check_non_overlapping_def scan_spans_iff span_fits_def)
  then show ?thesis using sorted_apart [of "sort spans"] perm by (auto simp: span_fits_def)
qed



section \<open>What the item checks accept\<close>

definition run_ok :: "bytes \<Rightarrow> item_checksum \<Rightarrow> bool" where
  "run_ok f c \<longleftrightarrow> (\<exists>off p. ic_offset c = Some off \<and> file_read f off (ic_length c) = Inr p \<and>
     int (length p) = ic_length c \<and> crc32c_hex p = ic_value c)"

definition row_bytes :: "ple_row_layout \<Rightarrow> bytes \<Rightarrow> int \<Rightarrow> bytes" where
  "row_bytes row f r = take (nat (pr_payload_bytes row)) (drop (nat (row_offset row r)) f)"

definition row_readable :: "ple_row_layout \<Rightarrow> bytes \<Rightarrow> int \<Rightarrow> bool" where
  "row_readable row f r \<longleftrightarrow> pr_rows_per_page row \<noteq> 0 \<and> 0 \<le> row_offset row r \<and> 0 \<le> pr_payload_bytes row \<and>
     int (length (row_bytes row f r)) = pr_payload_bytes row"

definition shard_ok :: "ple_row_layout \<Rightarrow> bytes \<Rightarrow> item_checksum \<Rightarrow> bool" where
  "shard_ok row f c \<longleftrightarrow> (case (ic_first_row c, ic_num_rows c) of
     (Some first, Some n) \<Rightarrow>
       let rows = [first .. first + n - 1]; block = concat (map (row_bytes row f) rows) in
       (\<forall>r \<in> set rows. row_readable row f r) \<and> hex8 (crc32c block 0) = ic_value c \<and> int (length block) = ic_length c
   | _ \<Rightarrow> True)"

lemma check_run_findings:
  assumes "check_run a b m f entry st = Inr st'"
  shows "\<exists>e. snd (snd st') = snd (snd st) @ e \<and> (e = [] \<longrightarrow> run_ok f (snd entry))"
  using assms
  by (cases entry; cases st) (auto simp: check_run_def run_ok_def bindE_Inr_iff split: option.splits if_splits)

lemma check_run_ok:
  "run_ok f c \<Longrightarrow> check_run a b m f (n, c) (items, byte_count, errors) = Inr (items + 1, byte_count + ic_length c, errors)"
  by (auto simp: check_run_def run_ok_def)

lemma check_rows_findings:
  assumes "check_rows row f shard ids crc n = Inr (crc', n', e)" "0 \<le> pr_payload_bytes row"
  shows "e = [] \<longleftrightarrow> (\<forall>r \<in> set ids. row_readable row f r)"
    and "e = [] \<Longrightarrow> crc' = crc32c (concat (map (row_bytes row f) ids)) crc \<and>
      n' = n + int (length (concat (map (row_bytes row f) ids)))"
proof -
  have "(e = [] \<longleftrightarrow> (\<forall>r \<in> set ids. row_readable row f r)) \<and> (e = [] \<longrightarrow>
      crc' = crc32c (concat (map (row_bytes row f) ids)) crc \<and> n' = n + int (length (concat (map (row_bytes row f) ids))))"
    using assms(1)
  proof (induction ids arbitrary: crc n)
    case (Cons r ids)
    have pp: "pr_rows_per_page row \<noteq> 0" "0 \<le> row_offset row r"
      using Cons.prems by (auto simp: file_read_def split: if_splits)
    have rd: "file_read f (row_offset row r) (pr_payload_bytes row) = Inr (row_bytes row f r)"
      using pp(2) assms(2) by (auto simp: file_read_def row_bytes_def)
    show ?case
    proof (cases "int (length (row_bytes row f r)) = pr_payload_bytes row")
      case True
      then have step: "check_rows row f shard ids (crc32c (row_bytes row f r) crc) (n + int (length (row_bytes row f r))) = Inr (crc', n', e)"
        using Cons.prems pp rd by simp
      show ?thesis using Cons.IH [OF step] True pp assms(2) by (auto simp: row_readable_def crc32c_append)
    next
      case False
      then show ?thesis using Cons.prems pp rd by (auto simp: row_readable_def)
    qed
  qed simp
  then show "e = [] \<longleftrightarrow> (\<forall>r \<in> set ids. row_readable row f r)"
    "e = [] \<Longrightarrow> crc' = crc32c (concat (map (row_bytes row f) ids)) crc \<and>
      n' = n + int (length (concat (map (row_bytes row f) ids)))" by blast+
qed

lemma check_rows_ok:
  "\<forall>r \<in> set ids. row_readable row f r \<Longrightarrow> check_rows row f shard ids crc n =
     Inr (crc32c (concat (map (row_bytes row f) ids)) crc, n + int (length (concat (map (row_bytes row f) ids))), [])"
proof (induction ids arbitrary: crc n)
  case (Cons r ids)
  have "file_read f (row_offset row r) (pr_payload_bytes row) = Inr (row_bytes row f r)"
    using Cons.prems by (auto simp: file_read_def row_bytes_def row_readable_def)
  then show ?case using Cons by (simp add: row_readable_def crc32c_append)
qed simp

lemma check_shard_findings:
  assumes "check_shard row f entry st = Inr st'" "0 \<le> pr_payload_bytes row"
  shows "\<exists>e. snd (snd st') = snd (snd st) @ e \<and> (e = [] \<longrightarrow> shard_ok row f (snd entry))"
proof -
  obtain s c items n errors where e: "entry = (s, c)" "st = (items, n, errors)" by (cases entry; cases st) auto
  show ?thesis
  proof (cases "(ic_first_row c, ic_num_rows c)")
    case (Pair a b)
    show ?thesis
    proof (cases "a = None \<or> b = None")
      case True
      then show ?thesis using assms(1) Pair by (auto simp: check_shard_def shard_ok_def e split: option.splits)
    next
      case False
      then obtain first num where fn: "a = Some first" "b = Some num" by auto
      obtain crc k es where r: "check_rows row f s [first .. first + num - 1] 0 0 = Inr (crc, k, es)"
        "snd (snd st') = errors @ es @ (if hex8 crc \<noteq> ic_value c \<or> k \<noteq> ic_length c then [ShardMismatch s] else [])"
        using assms(1) Pair fn by (auto simp: check_shard_def e bindE_Inr_iff)
      note cf = check_rows_findings [OF r(1) assms(2)]
      show ?thesis
        by (rule exI [of _ "es @ (if hex8 crc \<noteq> ic_value c \<or> k \<noteq> ic_length c then [ShardMismatch s] else [])"])
          (use r(2) cf Pair fn in \<open>auto simp: e shard_ok_def Let_def\<close>)
    qed
  qed
qed

lemma check_shard_ok:
  assumes "shard_ok row f c" "ic_first_row c = Some first" "ic_num_rows c = Some num"
  shows "check_shard row f (s, c) (items, n, errors) = Inr (items + 1, n + ic_length c, errors)"
proof -
  have "check_rows row f s [first .. first + num - 1] 0 0 =
      Inr (crc32c (concat (map (row_bytes row f) [first .. first + num - 1])) 0,
        0 + int (length (concat (map (row_bytes row f) [first .. first + num - 1]))), [])"
    by (rule check_rows_ok) (use assms in \<open>simp add: shard_ok_def Let_def\<close>)
  then show ?thesis using assms by (simp add: check_shard_def shard_ok_def Let_def)
qed

lemma foldE_findings:
  assumes "foldE g xs s = Inr s'"
    and "\<And>x s s'. x \<in> set xs \<Longrightarrow> g x s = Inr s' \<Longrightarrow> \<exists>e. snd (snd s') = snd (snd s) @ e \<and> (e = [] \<longrightarrow> P x)"
  shows "\<exists>e. snd (snd s') = snd (snd s) @ e \<and> (e = [] \<longrightarrow> (\<forall>x \<in> set xs. P x))"
  using assms
proof (induction xs arbitrary: s)
  case (Cons x xs)
  obtain t where t: "g x s = Inr t" "foldE g xs t = Inr s'" using Cons.prems(1) by (auto simp: bindE_Inr_iff)
  obtain e1 where "snd (snd t) = snd (snd s) @ e1" "e1 = [] \<longrightarrow> P x" using Cons.prems(2) [OF _ t(1)] by auto
  moreover obtain e2 where "snd (snd s') = snd (snd t) @ e2" "e2 = [] \<longrightarrow> (\<forall>x \<in> set xs. P x)"
    using Cons.IH [OF t(2)] Cons.prems(2) by auto
  ultimately show ?case by (intro exI [of _ "e1 @ e2"]) auto
qed simp

end
