(* ===== verification/Corruption.thy ===== *)
theory Corruption
  imports ValidatorLaws
begin

text \<open>
  Corruption of a package on disk: when a package validates and one byte of an item that the
  checksums cover is changed, no later validation accepts it.
\<close>

section \<open>One byte of a file\<close>

definition flipped :: "bytes \<Rightarrow> bytes \<Rightarrow> nat \<Rightarrow> bool" where
  "flipped f f' k \<longleftrightarrow> (\<exists>pre b c post. f = pre @ b # post \<and> f' = pre @ c # post \<and> b \<noteq> c \<and> k = length pre)"

text \<open>A window that holds the byte changes in it, one that does not is the same.\<close>

lemma flipped_length: "flipped f f' k \<Longrightarrow> length f' = length f"
  by (auto simp: flipped_def)

lemma flipped_inside:
  assumes "flipped f f' k" "o' \<le> k" "k < o' + n"
  shows "flipped (take n (drop o' f)) (take n (drop o' f')) (k - o')"
proof -
  obtain pre b c post where f: "f = pre @ b # post" "f' = pre @ c # post" "b \<noteq> c" "k = length pre"
    using assms(1) by (auto simp: flipped_def)
  obtain m where m: "n - (length pre - o') = Suc m" using assms(2,3) f(4) by (cases "n - (length pre - o')") auto
  have "length pre - o' \<le> n" using m by simp
  then have w: "take n (drop o' (pre @ x # post)) = drop o' pre @ x # take m post" for x
    using assms(2) f(4) m by simp
  show ?thesis unfolding f(1,2) w flipped_def using f(3,4) assms(2)
    by (intro exI [of _ "drop o' pre"] exI [of _ b] exI [of _ c] exI [of _ "take m post"]) simp
qed

lemma flipped_outside:
  assumes "flipped f f' k" "k < o' \<or> o' + n \<le> k"
  shows "take n (drop o' f') = take n (drop o' f)"
proof -
  obtain pre b c post where f: "f = pre @ b # post" "f' = pre @ c # post" "k = length pre"
    using assms(1) by (auto simp: flipped_def)
  show ?thesis using assms(2) unfolding f(1,2)
  proof
    assume "k < o'"
    then obtain m where "o' - length pre = Suc m" using f(3) by (cases "o' - length pre") auto
    then show "take n (drop o' (pre @ c # post)) = take n (drop o' (pre @ b # post))" by simp
  next
    assume "o' + n \<le> k"
    then have "n - (length pre - o') = 0" using f(3) by simp
    then show "take n (drop o' (pre @ c # post)) = take n (drop o' (pre @ b # post))"
      using f(3) \<open>o' + n \<le> k\<close> by simp
  qed
qed

lemma flipped_frame: "flipped p p' k \<Longrightarrow> \<exists>k'. flipped (u @ p @ v) (u @ p' @ v) k'"
  unfolding flipped_def by (metis append.assoc append_Cons)

lemma flipped_crc: "flipped p p' k \<Longrightarrow> hex8 (crc32c p 0) \<noteq> hex8 (crc32c p' 0)"
  using crc32c_single_byte hex8_inj unfolding flipped_def by blast

section \<open>One byte of an item\<close>

definition in_run :: "item_checksum \<Rightarrow> nat \<Rightarrow> bool" where
  "in_run c k \<longleftrightarrow> (case ic_offset c of None \<Rightarrow> False | Some off \<Rightarrow> off \<le> int k \<and> int k < off + ic_length c)"

definition in_shard :: "ple_row_layout \<Rightarrow> item_checksum \<Rightarrow> nat \<Rightarrow> bool" where
  "in_shard row c k \<longleftrightarrow> (case (ic_first_row c, ic_num_rows c) of
     (Some first, Some n) \<Rightarrow> \<exists>r \<in> set [first .. first + n - 1].
        row_offset row r \<le> int k \<and> int k < row_offset row r + pr_payload_bytes row
   | _ \<Rightarrow> False)"

lemma run_flipped:
  assumes "run_ok f c" "flipped f f' k" "in_run c k"
  shows "\<not> run_ok f' c"
proof
  assume ok': "run_ok f' c"
  obtain off where off: "ic_offset c = Some off" "off \<le> int k" "int k < off + ic_length c"
    using assms(3) by (auto simp: in_run_def split: option.splits)
  have pos: "0 \<le> off" "0 \<le> ic_length c" using assms(1) off(1) by (auto simp: run_ok_def file_read_def split: if_splits)
  have "crc32c_hex (take (nat (ic_length c)) (drop (nat off) f)) = ic_value c"
    "crc32c_hex (take (nat (ic_length c)) (drop (nat off) f')) = ic_value c"
    using assms(1) ok' off(1) pos by (auto simp: run_ok_def file_read_def)
  moreover have "flipped (take (nat (ic_length c)) (drop (nat off) f)) (take (nat (ic_length c)) (drop (nat off) f')) (k - nat off)"
    by (rule flipped_inside [OF assms(2)]) (use off pos in linarith)+
  ultimately show False using flipped_crc unfolding crc32c_hex_def by metis
qed

lemma row_flipped:
  assumes "row_ok row" "flipped f f' k" "0 \<le> row_offset row r" "row_offset row r \<le> int k" "int k < row_offset row r + pr_payload_bytes row"
  shows "\<exists>k'. flipped (row_bytes row f r) (row_bytes row f' r) k'"
proof -
  have "nat (row_offset row r) \<le> k" "k < nat (row_offset row r) + nat (pr_payload_bytes row)" using assms(3-5) by linarith+
  then show ?thesis using flipped_inside [OF assms(2)] unfolding row_bytes_def by blast
qed

lemma other_row:
  assumes "row_ok row" "flipped f f' k" "0 \<le> row_offset row r" "row_offset row r \<le> int k" "int k < row_offset row r + pr_payload_bytes row"
    and "s \<noteq> r" "0 \<le> row_offset row s"
  shows "row_bytes row f' s = row_bytes row f s"
proof -
  have "row_offset row s + pr_payload_bytes row \<le> row_offset row r \<or> row_offset row r + pr_payload_bytes row \<le> row_offset row s"
    using rows_disjoint [OF assms(1)] assms(6) by (meson linorder_neqE)
  then show ?thesis unfolding row_bytes_def
    by (intro flipped_outside [OF assms(2)]) (use assms(3-5,7) in linarith)
qed

lemma shard_flipped:
  assumes "row_ok row" "shard_ok row f c" "flipped f f' k" "in_shard row c k"
  shows "\<not> shard_ok row f' c"
proof
  assume ok': "shard_ok row f' c"
  obtain first n r where i: "ic_first_row c = Some first" "ic_num_rows c = Some n" "r \<in> set [first .. first + n - 1]"
    "row_offset row r \<le> int k" "int k < row_offset row r + pr_payload_bytes row"
    using assms(4) by (auto simp: in_shard_def split: option.splits)
  have rd: "\<forall>s \<in> set [first .. first + n - 1]. 0 \<le> row_offset row s"
    using assms(2) i(1,2) by (simp add: shard_ok_def Let_def row_readable_def)
  obtain us vs where uv: "[first .. first + n - 1] = us @ r # vs" using i(3) by (meson split_list)
  have dist: "distinct (us @ r # vs)" unfolding uv [symmetric] by simp
  have same: "map (row_bytes row f') xs = map (row_bytes row f) xs" if "set xs \<subseteq> set us \<union> set vs" for xs
  proof (rule map_cong [OF refl])
    fix s assume "s \<in> set xs"
    then have "s \<noteq> r" "s \<in> set [first .. first + n - 1]" using that dist unfolding uv by auto
    then show "row_bytes row f' s = row_bytes row f s"
      using rd i(3) by (intro other_row [OF assms(1,3) _ i(4,5)]) auto
  qed
  obtain k' where "flipped (row_bytes row f r) (row_bytes row f' r) k'"
    using row_flipped [OF assms(1,3) _ i(4,5)] rd i(3) by blast
  then obtain k2 where "flipped (concat (map (row_bytes row f) us) @ row_bytes row f r @ concat (map (row_bytes row f) vs))
      (concat (map (row_bytes row f) us) @ row_bytes row f' r @ concat (map (row_bytes row f) vs)) k2"
    using flipped_frame by blast
  then have "flipped (concat (map (row_bytes row f) [first .. first + n - 1]))
      (concat (map (row_bytes row f') [first .. first + n - 1])) k2"
    unfolding uv using same [of us] same [of vs] by (simp del: map_eq_conv)
  then show False using flipped_crc assms(2) ok' i(1,2) by (fastforce simp: shard_ok_def Let_def)
qed

section \<open>What an accepted package has\<close>

definition items_ok :: "package_dir \<Rightarrow> package_manifest \<Rightarrow> package_checksums \<Rightarrow> bool" where
  "items_ok d m cs \<longleftrightarrow>
     (pt_dense_bytes (pm_totals m) \<noteq> 0 \<longrightarrow> (\<exists>f. open_region d m ''dense'' = Inr f \<and> (\<forall>c \<in> set (pc_dense cs). run_ok f (snd c)))) \<and>
     (pt_expert_bytes (pm_totals m) \<noteq> 0 \<longrightarrow> (\<exists>f. open_region d m ''experts'' = Inr f \<and> (\<forall>c \<in> set (pc_experts cs). run_ok f (snd c)))) \<and>
     (\<forall>ix. pm_ple_index m = Some ix \<longrightarrow> pt_ple_bytes (pm_totals m) \<noteq> 0 \<longrightarrow>
        (\<exists>f. open_region d m ''ple'' = Inr f \<and> (\<forall>c \<in> set (pc_ple cs). shard_ok (pi_row ix) f (snd c))))"

lemma runs_findings:
  assumes "foldE (check_run a b m f) cs s = Inr s'"
  shows "\<exists>e. snd (snd s') = snd (snd s) @ e \<and> (e = [] \<longrightarrow> (\<forall>c \<in> set cs. run_ok f (snd c)))"
  using foldE_findings [OF assms, where P = "\<lambda>c. run_ok f (snd c)"] check_run_findings by blast

lemma items_accepted:
  assumes "validate_item_checksums d m cs = Inr (items, n, [])"
    and "\<And>ix. pm_ple_index m = Some ix \<Longrightarrow> pt_ple_bytes (pm_totals m) \<noteq> 0 \<Longrightarrow> row_ok (pi_row ix)"
  shows "items_ok d m cs"
proof -
  let ?m = "pm_totals m"
  obtain s1 s2 where
    s1: "(if pt_dense_bytes ?m = 0 then Inr (0, 0, [])
            else bindE (open_region d m ''dense'') (\<lambda>f.
              foldE (check_run DenseNoOffset DenseShort DenseMismatch f) (pc_dense cs) (0, 0, []))) = Inr s1" and
    s2: "(if pt_expert_bytes ?m = 0 then Inr s1
            else bindE (open_region d m ''experts'') (\<lambda>f.
              foldE (check_run ExpertNoOffset ExpertShort ExpertMismatch f) (pc_experts cs) s1)) = Inr s2" and
    s3: "(case pm_ple_index m of None \<Rightarrow> Inr s2 | Some ix \<Rightarrow>
         if pt_ple_bytes ?m = 0 then Inr s2
         else bindE (open_region d m ''ple'') (\<lambda>f. foldE (check_shard (pi_row ix) f) (pc_ple cs) s2)) = Inr (items, n, [])"
    using assms(1) unfolding validate_item_checksums_def bindE_Inr_iff by blast
  have d: "\<exists>e. snd (snd s1) = e \<and> (e = [] \<longrightarrow> pt_dense_bytes ?m \<noteq> 0 \<longrightarrow>
      (\<exists>f. open_region d m ''dense'' = Inr f \<and> (\<forall>c \<in> set (pc_dense cs). run_ok f (snd c))))"
  proof (cases "pt_dense_bytes ?m = 0")
    case False
    then obtain f where f: "open_region d m ''dense'' = Inr f"
      "foldE (check_run DenseNoOffset DenseShort DenseMismatch f) (pc_dense cs) (0, 0, []) = Inr s1"
      using s1 by (auto simp: bindE_Inr_iff)
    show ?thesis using runs_findings [OF f(2)] f(1) by auto
  qed simp
  have e: "\<exists>e. snd (snd s2) = snd (snd s1) @ e \<and> (e = [] \<longrightarrow> pt_expert_bytes ?m \<noteq> 0 \<longrightarrow>
      (\<exists>f. open_region d m ''experts'' = Inr f \<and> (\<forall>c \<in> set (pc_experts cs). run_ok f (snd c))))"
  proof (cases "pt_expert_bytes ?m = 0")
    case False
    then obtain f where f: "open_region d m ''experts'' = Inr f"
      "foldE (check_run ExpertNoOffset ExpertShort ExpertMismatch f) (pc_experts cs) s1 = Inr s2"
      using s2 by (auto simp: bindE_Inr_iff)
    show ?thesis using runs_findings [OF f(2)] f(1) by auto
  qed (use s2 in simp)
  have p: "\<exists>e. [] = snd (snd s2) @ e \<and> (e = [] \<longrightarrow> (\<forall>ix. pm_ple_index m = Some ix \<longrightarrow> pt_ple_bytes ?m \<noteq> 0 \<longrightarrow>
      (\<exists>f. open_region d m ''ple'' = Inr f \<and> (\<forall>c \<in> set (pc_ple cs). shard_ok (pi_row ix) f (snd c)))))"
  proof (cases "pm_ple_index m = None \<or> pt_ple_bytes ?m = 0")
    case True
    then show ?thesis using s3 by (auto split: option.splits if_splits)
  next
    case False
    then obtain ix f where ix: "pm_ple_index m = Some ix" "pt_ple_bytes ?m \<noteq> 0" "open_region d m ''ple'' = Inr f"
      "foldE (check_shard (pi_row ix) f) (pc_ple cs) s2 = Inr (items, n, [])"
      using s3 by (auto simp: bindE_Inr_iff)
    have "0 \<le> pr_payload_bytes (pi_row ix)" using assms(2) [OF ix(1,2)] by (simp add: row_ok_def)
    then obtain e where "[] = snd (snd s2) @ e" "e = [] \<longrightarrow> (\<forall>c \<in> set (pc_ple cs). shard_ok (pi_row ix) f (snd c))"
      using foldE_findings [OF ix(4), where P = "\<lambda>c. shard_ok (pi_row ix) f (snd c)"] check_shard_findings by fastforce
    then show ?thesis using ix by auto
  qed
  show ?thesis using d e p unfolding items_ok_def by auto
qed

definition accepted :: "validation_report result \<Rightarrow> bool" where
  "accepted r \<longleftrightarrow> (\<exists>report. r = Inr report \<and> vr_is_valid report)"

lemma accepted_parts:
  assumes "accepted (validate h d mode)" "vd_manifest d = Some (Inr m)" "vd_checksums d = Some (Inr cs)"
  shows "items_ok d m cs" and "\<And>ix. pm_ple_index m = Some ix \<Longrightarrow> pt_ple_bytes (pm_totals m) \<noteq> 0 \<Longrightarrow> row_ok (pi_row ix)"
proof -
  obtain report md where v: "validate h d mode = Inr report" "vr_is_valid report" "mode = Some md"
    using assms(1) by (cases mode) (auto simp: accepted_def validate_def rejected_def)
  obtain j config where p: "validate_parsed h d md m cs j config = Inr report"
    using v assms(2,3) by (auto simp: validate_def rejected_def bindE_def split: if_splits option.splits sum.splits)
  obtain pe items n es where i: "validate_ple_layout d m cs = Inr pe" "item_findings d m cs = Inr (items, n, es)"
      "pe = []" "es = []"
    using p v(2) by (auto simp: validate_parsed_def Let_def bindE_Inr_iff)
  show row: "row_ok (pi_row ix)" if "pm_ple_index m = Some ix" "pt_ple_bytes (pm_totals m) \<noteq> 0" for ix
    using i(1,3) that by (auto simp: validate_ple_layout_def row_errors_def row_ok_def bindE_Inr_iff split: if_splits)
  have "validate_item_checksums d m cs = Inr (items, n, [])"
    using i(2,4) by (auto simp: item_findings_def split: sum.splits if_splits)
  from items_accepted [OF this row] show "items_ok d m cs" by blast
qed

section \<open>The property\<close>

text \<open>The byte \<open>k\<close> of the file at \<open>path\<close> belongs to an item with a checksum.\<close>

definition covered_by :: "package_manifest \<Rightarrow> string \<Rightarrow> string \<Rightarrow> bool" where
  "covered_by m name path \<longleftrightarrow> (\<exists>region. od_get (pm_regions m) name = Some region \<and> ri_path region = path)"

definition checked_byte :: "package_manifest \<Rightarrow> package_checksums \<Rightarrow> string \<Rightarrow> nat \<Rightarrow> bool" where
  "checked_byte m cs path k \<longleftrightarrow>
     pt_dense_bytes (pm_totals m) \<noteq> 0 \<and> covered_by m ''dense'' path \<and> (\<exists>c \<in> set (pc_dense cs). in_run (snd c) k) \<or>
     pt_expert_bytes (pm_totals m) \<noteq> 0 \<and> covered_by m ''experts'' path \<and> (\<exists>c \<in> set (pc_experts cs). in_run (snd c) k) \<or>
     pt_ple_bytes (pm_totals m) \<noteq> 0 \<and> covered_by m ''ple'' path \<and>
       (\<exists>ix c. pm_ple_index m = Some ix \<and> c \<in> set (pc_ple cs) \<and> in_shard (pi_row ix) (snd c) k)"

lemma open_covered:
  "covered_by m name path \<Longrightarrow> open_region d m name = (case vd_file d path of None \<Rightarrow> Inl FileNotFoundError | Some f \<Rightarrow> Inr f)"
  by (auto simp: covered_by_def open_region_def od_index_def)

text \<open>C4: When a package is accepted, in either mode, and a single byte of a dense tensor, an expert or a row of a
  PLE shard then changes, no validation in either mode accepts it again.\<close>

theorem corruption_reported:
  assumes "accepted (validate h d mode)" "vd_manifest d = Some (Inr m)" "vd_checksums d = Some (Inr cs)"
    and "vd_file d path = Some (pre @ b # post)" "b \<noteq> c" "checked_byte m cs path (length pre)"
  shows "\<not> accepted (validate h (d\<lparr>vd_file := (vd_file d)(path \<mapsto> pre @ c # post)\<rparr>) mode')"
proof
  let ?d = "d\<lparr>vd_file := (vd_file d)(path \<mapsto> pre @ c # post)\<rparr>"
  assume "accepted (validate h ?d mode')"
  then have ok': "items_ok ?d m cs" by (rule accepted_parts) (simp_all add: assms(2,3))
  note ok = accepted_parts [OF assms(1-3)]
  have fl: "flipped (pre @ b # post) (pre @ c # post) (length pre)" using assms(5) by (auto simp: flipped_def)
  note op = open_covered [of m _ path d] open_covered [of m _ path ?d]
  consider (dense) e where "pt_dense_bytes (pm_totals m) \<noteq> 0" "covered_by m ''dense'' path" "e \<in> set (pc_dense cs)" "in_run (snd e) (length pre)"
    | (expert) e where "pt_expert_bytes (pm_totals m) \<noteq> 0" "covered_by m ''experts'' path" "e \<in> set (pc_experts cs)" "in_run (snd e) (length pre)"
    | (ple) ix e where "pt_ple_bytes (pm_totals m) \<noteq> 0" "covered_by m ''ple'' path" "pm_ple_index m = Some ix" "e \<in> set (pc_ple cs)"
        "in_shard (pi_row ix) (snd e) (length pre)"
    using assms(6) unfolding checked_byte_def by blast
  then show False
  proof cases
    case dense
    then have "run_ok (pre @ b # post) (snd e)" "run_ok (pre @ c # post) (snd e)"
      using ok(1) ok' op assms(4) by (auto simp: items_ok_def)
    then show False using run_flipped [OF _ fl dense(4)] by blast
  next
    case expert
    then have "run_ok (pre @ b # post) (snd e)" "run_ok (pre @ c # post) (snd e)"
      using ok(1) ok' op assms(4) by (auto simp: items_ok_def)
    then show False using run_flipped [OF _ fl expert(4)] by blast
  next
    case ple
    then have "shard_ok (pi_row ix) (pre @ b # post) (snd e)" "shard_ok (pi_row ix) (pre @ c # post) (snd e)"
      using ok(1) ok' op assms(4) by (auto simp: items_ok_def)
    then show False using shard_flipped [OF ok(2) [OF ple(3,1)] _ fl ple(5)] by blast
  qed
qed

section \<open>A package of one tensor\<close>

definition one_bytes :: bytes where
  "one_bytes = [1, 60, 2, 60]"

definition one_checksums :: package_checksums where
  "one_checksums = \<lparr>pc_dense = [(''w'', \<lparr>ic_value = crc32c_hex one_bytes, ic_offset = Some 0, ic_length = 4,
     ic_first_row = None, ic_num_rows = None\<rparr>)], pc_experts = [], pc_ple = []\<rparr>"

definition one_manifest :: package_manifest where
  "one_manifest = \<lparr>pm_package_version = PACKAGE_VERSION, pm_source_model = ''m'', pm_source_revision = Some ''r'',
     pm_source = Some \<lparr>sv_repository = ''m'', sv_revision = ''r'', sv_config_sha256 = ''h'', sv_index_sha256 = None\<rparr>,
     pm_build_profile = ''full'', pm_complete_model = True, pm_features = [TEXT], pm_precision_map_name = ''x'',
     pm_precision_map = [],
     pm_codecs = [(''raw.f16.v1'', \<lparr>cd_id = ''raw.f16.v1'', cd_method = ''raw'', cd_logical_bits = 16, cd_storage_bits = 16,
       cd_group_size = 1, cd_symmetric = True, cd_scale_dtype = None, cd_zero_dtype = None, cd_byte_order = ''little'',
       cd_packing_order = ''x''\<rparr>)],
     pm_regions = [(''dense'', \<lparr>ri_path = ''dense/blob.bin'', ri_size_bytes = 4, ri_sha256 = Some ''s''\<rparr>)],
     pm_totals = \<lparr>pt_source_params = 2, pt_packaged_params = 2, pt_dropped_params = 0, pt_dense_bytes = 4,
       pt_expert_bytes = 0, pt_ple_bytes = 0\<rparr>,
     pm_dense = [\<lparr>de_name = ''w'', de_component = ''norm'', de_shape = [2], de_bits = 16, de_group_size = 2,
       de_symmetric = False, de_codec_id = ''raw.f16.v1'', de_num_params = 2, de_packed_bytes = 4, de_byte_offset = 0,
       de_spans = [\<lparr>sp_section = PACKED, sp_offset = 0, sp_length = 4\<rparr>]\<rparr>],
     pm_expert_layout = None, pm_ple_index = None, pm_activated_params_per_token = 0,
     pm_expert_params_per_token = 0, pm_expert_bytes_per_token = 0, pm_reads_per_token = 0\<rparr>"

definition one_package :: package_dir where
  "one_package = \<lparr>vd_is_dir = True, vd_manifest = Some (Inr one_manifest), vd_checksums = Some (Inr one_checksums),
     vd_journal = Some (Inr \<lparr>bj_plan_fingerprint = ''f'', bj_dense_done = [''w''], bj_expert_done = [], bj_ple_done = [],
       bj_dense_checksums = pc_dense one_checksums, bj_expert_checksums = [], bj_ple_checksums = [], bj_finished = True\<rparr>),
     vd_config = Some (Inr (JsonConfig [(''vocab_size'', JInt 8)] None)), vd_sidecar = None,
     vd_file = [''dense/blob.bin'' \<mapsto> one_bytes], vd_generation = True\<rparr>"

definition one_hashes :: hashes where
  "one_hashes = \<lparr>vh_config = (\<lambda>_. ''h''), vh_file = (\<lambda>_. ''s'')\<rparr>"

lemma one_accepted: "accepted (validate one_hashes one_package (Some FAST))"
proof -
  have items: "item_findings one_package one_manifest one_checksums = Inr (1, 4, [])"
    by (simp add: item_findings_def validate_item_checksums_def open_region_def one_package_def one_manifest_def
        one_checksums_def od_index_def od_get_def check_run_def file_read_def one_bytes_def)
  have "validate_parsed one_hashes one_package FAST one_manifest one_checksums
      \<lparr>bj_plan_fingerprint = ''f'', bj_dense_done = [''w''], bj_expert_done = [], bj_ple_done = [],
       bj_dense_checksums = pc_dense one_checksums, bj_expert_checksums = [], bj_ple_checksums = [], bj_finished = True\<rparr>
      (JsonConfig [(''vocab_size'', JInt 8)] None) =
    Inr \<lparr>vr_is_valid = True, vr_mode = FAST, vr_items_checked = 1, vr_bytes_checked = 4, vr_errors = [], vr_no_generation_config = False\<rparr>"
    unfolding validate_parsed_def items
    by (simp add: validate_ple_layout_def provenance_errors_def region_errors_def expected_regions_def validate_dense_layout_def
        validate_expert_layout_def validate_codecs_def codec_references_def codec_errors_def validate_vocabulary_def
        validate_journal_def od_same_def expected_experts_def json_text_config_def check_non_overlapping_def
        one_manifest_def one_checksums_def one_package_def one_hashes_def Let_def de_length_def spans_length_def
        str_endswith_def bad_token_id_def token_ids_def od_in_def od_get_def od_keys_def one_bytes_def)
  then show ?thesis by (simp add: accepted_def validate_def one_package_def)
qed

theorem corruption_reported_witness:
  "\<not> accepted (validate one_hashes (one_package\<lparr>vd_file := [''dense/blob.bin'' \<mapsto> [1, 60, 3, 60]]\<rparr>) (Some FULL))"
proof -
  have "checked_byte one_manifest one_checksums ''dense/blob.bin'' (length [1, 60 :: byte])"
    by (simp add: checked_byte_def covered_by_def in_run_def one_manifest_def one_checksums_def od_get_def)
  then show ?thesis
    using corruption_reported [OF one_accepted, of one_manifest one_checksums "''dense/blob.bin''" "[1, 60]" 2 "[60]" 3 "Some FULL"]
    by (simp add: one_package_def one_bytes_def)
qed

end
