(* ===== verification/PlanChecks.thy ===== *)
theory PlanChecks
  imports PlanLaws ValidatorLaws
begin

text \<open>
  The layout checks of the validator on the layouts of the planner: the dense blob, the expert
  bank, the PLE index and the codec table of a plan pass them.
\<close>

section \<open>Consecutive spans\<close>

definition span_of :: "('a \<Rightarrow> int) \<Rightarrow> ('a \<Rightarrow> int) \<Rightarrow> ('a \<Rightarrow> string) \<Rightarrow> 'a \<Rightarrow> labelled_span" where
  "span_of first len label x = (first x, first x + len x, label x)"

lemma contig_sorted:
  "contig c (map (\<lambda>x. (first x, len x)) xs) \<Longrightarrow>
     sorted_wrt (\<lambda>x y. first x + len x \<le> first y) xs \<and>
     (\<forall>x \<in> set xs. c \<le> first x \<and> 0 \<le> len x \<and> first x + len x \<le> c + sum_list (map len xs))"
proof (induction xs arbitrary: c)
  case (Cons x xs)
  then have x: "first x = c" "0 \<le> len x" and IH: "sorted_wrt (\<lambda>x y. first x + len x \<le> first y) xs"
    "\<forall>y \<in> set xs. c + len x \<le> first y \<and> 0 \<le> len y \<and> first y + len y \<le> c + len x + sum_list (map len xs)"
    using Cons.IH [of "c + len x"] by auto
  have "0 \<le> sum_list (map len xs)" using IH(2) by (intro sum_list_nonneg) auto
  then show ?case using x IH by (auto simp: algebra_simps)
qed simp

lemma contig_no_overlap:
  assumes "contig 0 (map (\<lambda>x. (first x, len x)) xs)" "sum_list (map len xs) \<le> limit"
  shows "check_non_overlapping (map (span_of first len label) xs) limit = []"
  unfolding no_overlap_iff sorted_wrt_map using contig_sorted [OF assms(1)] assms(2)
  by (auto simp: span_fits_def span_apart_def span_of_def elim!: sorted_wrt_mono_rel [rotated])

definition strip :: "labelled_span \<Rightarrow> int \<times> int" where
  "strip a = (fst a, fst (snd a))"

lemma strip_sort:
  assumes "sorted (map strip L)"
  shows "map strip (sort L) = map strip L"
proof -
  have mono: "strip a \<le> strip b" if "a \<le> b" for a b
    using that by (cases a; cases b) (auto simp: strip_def)
  have "sorted (map strip (sort L))"
    unfolding sorted_map by (rule sorted_wrt_mono_rel [where P = "(\<le>)"]) (use mono sorted_sort [of L] in blast)+
  moreover have "mset (map strip (sort L)) = mset (map strip L)" by simp
  ultimately show ?thesis using assms by (metis properties_for_sort sorted_sort_id)
qed

lemma contig_strip_sorted:
  assumes "contig 0 (map (\<lambda>x. (first x, len x)) xs)"
  shows "sorted (map strip (map (span_of first len label) xs))"
proof -
  have "sorted_wrt (\<lambda>x y. first x + len x \<le> first y) xs" "\<forall>x \<in> set xs. 0 \<le> len x" using contig_sorted [OF assms] by auto
  then have "sorted_wrt (\<lambda>x y. strip (span_of first len label x) \<le> strip (span_of first len label y)) xs"
    by (induction xs) (fastforce simp: strip_def span_of_def)+
  then show ?thesis by (simp add: sorted_map comp_def)
qed

lemma covers_strip: "L \<noteq> [] \<Longrightarrow> map strip L = map strip M \<Longrightarrow> covers L n = covers M n"
proof -
  assume L: "L \<noteq> []" and e: "map strip L = map strip M"
  then have "M \<noteq> []" by auto
  then have "strip (hd L) = strip (hd M)" "strip (last L) = strip (last M)"
    using L e by (metis hd_map last_map)+
  then show ?thesis by (simp add: covers_def strip_def)
qed

lemma has_gap_strip: "map strip L = map strip M \<Longrightarrow> has_gap L = has_gap M"
proof -
  have g: "has_gap L \<longleftrightarrow> (\<exists>(p, q) \<in> set (zip (map strip L) (tl (map strip L))). snd p \<noteq> fst q)" for L :: "labelled_span list"
    unfolding has_gap_def map_tl [symmetric] zip_map_map by (simp add: strip_def split_beta)
  show "map strip L = map strip M \<Longrightarrow> has_gap L = has_gap M" unfolding g by simp
qed

lemma contig_covers_all:
  assumes "contig c (map (\<lambda>x. (first x, len x)) xs)" "xs \<noteq> []"
  shows "fst (hd (map (span_of first len label) xs)) = c"
    "fst (snd (last (map (span_of first len label) xs))) = c + sum_list (map len xs)"
    "\<not> has_gap (map (span_of first len label) xs)"
proof -
  have "fst (hd (map (span_of first len label) xs)) = c \<and>
    fst (snd (last (map (span_of first len label) xs))) = c + sum_list (map len xs) \<and>
    \<not> has_gap (map (span_of first len label) xs)"
    using assms
  proof (induction xs arbitrary: c)
    case (Cons x xs)
    show ?case
    proof (cases xs)
      case Nil
      then show ?thesis using Cons.prems by (simp add: span_of_def has_gap_def)
    next
      case (Cons y ys)
      then show ?thesis using Cons.IH [of "c + len x"] Cons.prems by (auto simp: span_of_def has_gap_def)
    qed
  qed simp
  then show "fst (hd (map (span_of first len label) xs)) = c"
    "fst (snd (last (map (span_of first len label) xs))) = c + sum_list (map len xs)"
    "\<not> has_gap (map (span_of first len label) xs)" by blast+
qed

lemma sort_ne: "sort xs = [] \<longleftrightarrow> xs = []"
  using length_sort [where xs = xs] by (metis length_0_conv)

text \<open>Spans in any order are judged by their sorted list.\<close>

lemma sort_mset: "mset xs = mset ys \<Longrightarrow> sort xs = sort ys"
  by (rule properties_for_sort) simp_all

lemma contig_accepted:
  assumes c: "contig 0 (map (\<lambda>x. (first x, len x)) xs)" and m: "mset L = mset (map (span_of first len label) xs)"
    and n: "sum_list (map len xs) = n"
  shows "check_non_overlapping L n = []" and "L \<noteq> [] \<Longrightarrow> covers (sort L) n" and "\<not> has_gap (sort L)"
proof -
  let ?M = "map (span_of first len label) xs"
  have s: "sort L = sort ?M" by (rule sort_mset [OF m])
  show "check_non_overlapping L n = []"
    using contig_no_overlap [OF c, of n label] n by (simp add: check_non_overlapping_def s)
  have st: "map strip (sort ?M) = map strip ?M" by (rule strip_sort [OF contig_strip_sorted [OF c]])
  show "covers (sort L) n" if "L \<noteq> []"
  proof -
    have "length L = length xs" using arg_cong [OF m, of size] by simp
    then have "xs \<noteq> []" using that by auto
    then have "covers ?M n" using contig_covers_all [OF c] n by (simp add: covers_def)
    moreover have "covers (sort ?M) n = covers ?M n" by (rule covers_strip [OF _ st]) (use \<open>xs \<noteq> []\<close> in \<open>simp add: sort_ne\<close>)
    ultimately show ?thesis by (simp add: s)
  qed
  show "\<not> has_gap (sort L)"
    using has_gap_strip [OF st] contig_covers_all(3) [OF c] by (cases "xs = []") (auto simp: s has_gap_def)
qed

section \<open>The manifest of a plan\<close>

lemma plan_manifest_parts:
  assumes "plan_package scan precision features alignment revision meth profile whole = Inr plan"
  obtains s where "pm_package_version (bp_manifest plan) = PACKAGE_VERSION" "pm_ple_index (bp_manifest plan) = None"
    "pm_source (bp_manifest plan) = Some s" "pm_source_revision (bp_manifest plan) = Some (sv_revision s)"
    "sv_config_sha256 s = sc_config_sha256 scan"
    "pm_codecs (bp_manifest plan) = plan_codecs (plan_map precision) meth (bp_dense plan) (pm_expert_layout (bp_manifest plan)) (bp_ple plan)"
    "pm_complete_model (bp_manifest plan) \<Longrightarrow> profile \<noteq> ''canary''"
proof -
  let ?m = "plan_map precision" and ?whole = "if profile = ''canary'' then False else whole"
  obtain dense lay ple totals activation where
    m: "bp_manifest plan = plan_manifest scan ?m features revision meth profile ?whole dense lay ple totals activation" and
    d: "bp_dense plan = dense" "bp_ple plan = ple"
    using assms unfolding plan_package_def plan_map_def [symmetric] Let_def
    by (auto simp: bindE_Inr_iff split: if_split_asm)
  have "pm_source_revision (bp_manifest plan) = Some (sv_revision (the (pm_source (bp_manifest plan))))"
    "sv_config_sha256 (the (pm_source (bp_manifest plan))) = sc_config_sha256 scan"
    "pm_source (bp_manifest plan) = Some (the (pm_source (bp_manifest plan)))"
    unfolding m plan_manifest_def Let_def by simp_all
  then show thesis
    by (intro that) (auto simp: m d plan_manifest_def Let_def split: if_split_asm)
qed

section \<open>The dense blob\<close>

lemma plan_dense_parts:
  assumes "plan_dense scan m features meth profile ple = Inr (dense, n)"
  obtains all sel where "mapE (dense_item m meth) (filter (is_dense_tensor features ple) (map snd (sc_tensors scan))) = Inr all"
    "set sel \<subseteq> set all" "place_dense sel 0 = (dense, n)"
proof -
  obtain all where a: "mapE (dense_item m meth) (filter (is_dense_tensor features ple) (map snd (sc_tensors scan))) = Inr all"
    "place_dense (sort_key dw_name (if profile = ''canary'' then representatives all else all)) 0 = (dense, n)"
    using assms by (auto simp: plan_dense_def Let_def bindE_Inr_iff)
  have "set (representatives all) \<subseteq> set all"
  proof -
    have "set (map snd (fold (\<lambda>i d. if od_in (dw_component i) d then d else od_set d (dw_component i) i) ys d)) \<subseteq> set (map snd d) \<union> set ys"
      for ys and d :: "(component, dense_work_item) odict"
    proof (induction ys arbitrary: d)
      case (Cons y ys)
      show ?case
      proof (cases "od_in (dw_component y) d")
        case True
        then show ?thesis using Cons.IH [of d] by auto
      next
        case False
        then show ?thesis using Cons.IH [of "od_set d (dw_component y) y"] od_set_new [OF False, of y] by auto
      qed
    qed simp
    from this [of "sort_key dw_name all" "[]"] show ?thesis by (simp add: representatives_def)
  qed
  then have "set (sort_key dw_name (if profile = ''canary'' then representatives all else all)) \<subseteq> set all" by simp
  then show thesis by (rule that [OF a(1) _ a(2)])
qed

lemma place_dense_items:
  "place_dense sel c = (out, e) \<Longrightarrow> j \<in> set out \<Longrightarrow> \<exists>i \<in> set sel. \<exists>off. j = i\<lparr>dw_byte_offset := off\<rparr>"
proof (induction sel arbitrary: c out)
  case (Cons i sel)
  then show ?case by (fastforce split: prod.splits)
qed simp

lemma place_dense_none: "place_dense sel c = ([], e) \<Longrightarrow> sel = [] \<and> e = c"
  by (cases sel) (auto split: prod.splits)

lemma planned_dense_item:
  assumes "plan_dense scan m features meth profile ple = Inr (dense, n)" "scan_ok scan" "map_ok m" "j \<in> set dense"
  shows "dw_packed_bytes j = dw_length j \<and> (\<exists>c. dw_component j = c \<and> dw_bits j = pe_bits (entry_for m c) \<and>
    dw_codec_id j = codec_id_for c (dw_bits j) meth)"
proof -
  obtain all sel where a: "mapE (dense_item m meth) (filter (is_dense_tensor features ple) (map snd (sc_tensors scan))) = Inr all"
    "set sel \<subseteq> set all" "place_dense sel 0 = (dense, n)" by (rule plan_dense_parts [OF assms(1)])
  obtain i off where i: "i \<in> set all" "j = i\<lparr>dw_byte_offset := off\<rparr>" using place_dense_items [OF a(3) assms(4)] a(2) by blast
  obtain x where x: "x \<in> set (map snd (sc_tensors scan))" "dense_item m meth x = Inr i" using mapE_mem [OF a(1) i(1)] by auto
  have "tensor_ok x" by (rule scan_tensor_ok [OF assms(2) x(1)])
  then have "dw_packed_bytes i = dw_length i" using dense_item_ok [OF x(2) _ assms(3)] by simp
  moreover have "dw_bits i = pe_bits (entry_for m (dw_component i)) \<and> dw_codec_id i = codec_id_for (dw_component i) (dw_bits i) meth"
    using x(2) by (auto simp: dense_item_def Let_def bindE_Inr_iff)
  ultimately show ?thesis by (simp add: i(2))
qed

lemma planned_dense_layout:
  assumes p: "plan_package scan precision features alignment revision meth profile whole = Inr plan"
    and ok: "scan_ok scan" "map_ok (plan_map precision)"
    and m: "pm_dense m = pm_dense (bp_manifest plan)" "pm_totals m = pm_totals (bp_manifest plan)"
  shows "validate_dense_layout m = []"
proof -
  obtain experts lay ple0 where d: "plan_dense scan (plan_map precision) features meth profile (bp_ple plan) =
       Inr (bp_dense plan, pt_dense_bytes (pm_totals (bp_manifest plan)))"
    and e: "pm_dense (bp_manifest plan) = map dense_entry_of (bp_dense plan)"
    by (rule plan_package_parts [OF p])
  note blob = plan_dense_ok(1) [OF d ok]
  have len: "de_length (dense_entry_of i) = dw_length i" if "i \<in> set (bp_dense plan)" for i
    using planned_dense_item [OF d ok that] by (simp add: de_length_def dense_entry_of_def dw_length_def)
  have "sorted_wrt (\<lambda>x y. dw_byte_offset x + dw_length x \<le> dw_byte_offset y) (bp_dense plan)"
    unfolding sorted_wrt_iff_nth_less using blob_ok_disjoint [OF blob] by blast
  then have "sorted_wrt (\<lambda>x y. span_apart
      (dw_byte_offset x, dw_byte_offset x + de_length (dense_entry_of x), ''dense tensor '' @ dw_name x)
      (dw_byte_offset y, dw_byte_offset y + de_length (dense_entry_of y), ''dense tensor '' @ dw_name y)) (bp_dense plan)"
    by (rule sorted_wrt_mono_rel [rotated]) (simp add: span_apart_def len)
  moreover have "\<forall>i \<in> set (bp_dense plan). span_fits (pt_dense_bytes (pm_totals (bp_manifest plan)))
      (dw_byte_offset i, dw_byte_offset i + de_length (dense_entry_of i), ''dense tensor '' @ dw_name i)"
    using blob_ok_bounds [OF blob] by (auto simp: span_fits_def len)
  ultimately show ?thesis
    unfolding validate_dense_layout_def m e no_overlap_iff by (simp add: sorted_wrt_map dense_entry_of_def comp_def)
qed

section \<open>Codecs\<close>

definition codec_sound :: "(string, codec_spec) odict \<Rightarrow> bool" where
  "codec_sound d \<longleftrightarrow> (\<forall>k c. od_get d k = Some c \<longrightarrow> cd_byte_order c = ''little'' \<and> (k = ''raw.f16.v1'' \<longrightarrow> cd_method c = ''raw''))"

lemma codec_id_raw: "codec_id_for c bits meth = ''raw.f16.v1'' \<longleftrightarrow> 16 \<le> bits"
  by (simp add: codec_id_for_def)

lemma codec_sound_add:
  "codec_sound d \<Longrightarrow> codec_sound (od_set d (cd_id (codec_spec_for c bits g s meth)) (codec_spec_for c bits g s meth))"
  by (auto simp: codec_sound_def od_get_set codec_spec_for_def codec_id_raw)

lemma codec_add_id: "cd_id (codec_spec_for c bits g s meth) = codec_id_for c bits meth"
  by (simp add: codec_spec_for_def)

lemma fold_codecs:
  "codec_sound d \<Longrightarrow>
     codec_sound (fold (\<lambda>i d. od_set d (cd_id (codec_spec_for (dw_component i) (dw_bits i) (dw_group_size i) (dw_symmetric i) meth))
        (codec_spec_for (dw_component i) (dw_bits i) (dw_group_size i) (dw_symmetric i) meth)) items d) \<and>
     set (od_keys (fold (\<lambda>i d. od_set d (cd_id (codec_spec_for (dw_component i) (dw_bits i) (dw_group_size i) (dw_symmetric i) meth))
        (codec_spec_for (dw_component i) (dw_bits i) (dw_group_size i) (dw_symmetric i) meth)) items d)) =
       set (od_keys d) \<union> (\<lambda>i. codec_id_for (dw_component i) (dw_bits i) meth) ` set items"
proof (induction items arbitrary: d)
  case (Cons i items)
  then show ?case using codec_sound_add by (auto simp: codec_add_id)
qed simp

lemma codec_fine:
  "codec_sound d \<Longrightarrow> codec_id_for c bits meth \<in> set (od_keys d) \<Longrightarrow> codec_errors d (label, codec_id_for c bits meth, bits) = []"
  using codec_id_raw [of c bits meth] od_in_get [of "codec_id_for c bits meth" d]
  by (auto simp: codec_errors_def codec_sound_def)

lemma lay_out_codecs:
  "lay_out_projections specs sb zb c = Inr (ps, e) \<Longrightarrow> p \<in> set ps \<Longrightarrow>
     \<exists>s \<in> set specs. pl_codec_id p = ps_codec_id s \<and> pl_bits p = ps_bits s"
proof (induction specs arbitrary: c ps)
  case (Cons s specs)
  then show ?case by (fastforce simp: Let_def bindE_Inr_iff)
qed simp

lemma record_build_fields:
  "record_build specs a sb zb = Inr r \<Longrightarrow> rl_alignment r = a \<and> rl_stride r = align_up (rl_payload_bytes r) a \<and>
     (\<exists>e. lay_out_projections specs sb zb 0 = Inr (rl_projections r, e))"
  by (auto simp: record_build_def bindE_Inr_iff)

lemma planned_record:
  assumes "plan_experts scan m alignment meth profile = Inr (items, Some lay)"
  obtains specs where "record_build specs alignment 2 2 = Inr (el_record lay)"
    "\<forall>s \<in> set specs. ps_bits s = pe_bits (entry_for m EXPERTS_ROUTED) \<and>
       ps_codec_id s = codec_id_for EXPERTS_ROUTED (pe_bits (entry_for m EXPERTS_ROUTED)) meth"
proof -
  obtain sparse n slices where b: "plan_bank (entry_for m EXPERTS_ROUTED) alignment meth sparse n slices = Inr (items, Some lay)"
    using assms by (auto simp: plan_experts_def Let_def bindE_Inr_iff split: option.splits if_split_asm)
  obtain sig rec where r: "expert_record (entry_for m EXPERTS_ROUTED) sig meth alignment = Inr rec"
    "lay = expert_layout_for sparse slices n rec"
    using b by (auto simp: plan_bank_def Let_def bindE_Inr_iff)
  show thesis
    by (rule that) (use r in \<open>simp add: expert_record_def expert_layout_for_def Let_def\<close>, auto)
qed

lemma row_build_bits: "row_build w bits g symm sb zb page codec = Inr r \<Longrightarrow> pr_bits r = bits"
  by (auto simp: row_build_def Let_def bindE_Inr_iff split: if_splits)

lemma planned_codecs:
  assumes p: "plan_package scan precision features alignment revision meth profile whole = Inr plan"
    and ok: "scan_ok scan" "map_ok (plan_map precision)"
    and m: "pm_dense m = pm_dense (bp_manifest plan)" "pm_codecs m = pm_codecs (bp_manifest plan)"
      "pm_expert_layout m = pm_expert_layout (bp_manifest plan)"
      "\<And>ix. pm_ple_index m = Some ix \<Longrightarrow> \<exists>q. bp_ple plan = Some q \<and> pi_row ix = pp_row q"
  shows "validate_codecs m = []"
proof -
  let ?m = "plan_map precision"
  obtain experts lay ple0 where ex: "plan_experts scan ?m alignment meth profile = Inr (experts, lay)"
    and lay: "pm_expert_layout (bp_manifest plan) = lay"
    and d: "plan_dense scan ?m features meth profile (bp_ple plan) = Inr (bp_dense plan, pt_dense_bytes (pm_totals (bp_manifest plan)))"
    and e: "pm_dense (bp_manifest plan) = map dense_entry_of (bp_dense plan)"
    and ple: "plan_ple scan ?m profile = Inr ple0" "bp_ple plan = map_option (name_ple_codec meth) ple0"
    by (rule plan_package_parts [OF p])
  obtain s where cs: "pm_codecs (bp_manifest plan) = plan_codecs ?m meth (bp_dense plan) lay (bp_ple plan)"
    by (rule plan_manifest_parts [OF p]) (simp only: lay)
  let ?dense = "fold (\<lambda>i d. od_set d (cd_id (codec_spec_for (dw_component i) (dw_bits i) (dw_group_size i) (dw_symmetric i) meth))
        (codec_spec_for (dw_component i) (dw_bits i) (dw_group_size i) (dw_symmetric i) meth)) (bp_dense plan) []"
  have s0: "codec_sound []" by (simp add: codec_sound_def od_get_def)
  note fd = fold_codecs [OF s0, where items = "bp_dense plan" and meth = meth]
  have sound: "codec_sound (plan_codecs ?m meth (bp_dense plan) lay (bp_ple plan))"
    using fd codec_sound_add unfolding plan_codecs_def Let_def by (auto split: option.split)
  have keys: "(\<lambda>i. codec_id_for (dw_component i) (dw_bits i) meth) ` set (bp_dense plan) \<subseteq> set (od_keys (pm_codecs m))"
    "lay \<noteq> None \<Longrightarrow> codec_id_for EXPERTS_ROUTED (pe_bits (entry_for ?m EXPERTS_ROUTED)) meth \<in> set (od_keys (pm_codecs m))"
    "bp_ple plan \<noteq> None \<Longrightarrow> codec_id_for PLE_TABLE (pe_bits (entry_for ?m PLE_TABLE)) meth \<in> set (od_keys (pm_codecs m))"
    using fd unfolding m(2) cs plan_codecs_def Let_def by (auto simp: codec_add_id split: option.split)
  have sm: "codec_sound (pm_codecs m)" unfolding m(2) cs by (rule sound)
  have "codec_errors (pm_codecs m) (de_name x, de_codec_id x, de_bits x) = []" if x: "x \<in> set (pm_dense m)" for x
  proof -
    obtain i where i: "i \<in> set (bp_dense plan)" "x = dense_entry_of i" using x by (auto simp: m(1) e)
    have "dw_codec_id i = codec_id_for (dw_component i) (dw_bits i) meth" using planned_dense_item [OF d ok i(1)] by auto
    then show ?thesis using codec_fine [OF sm, of "dw_component i" "dw_bits i" meth] keys(1) i by (auto simp: dense_entry_of_def)
  qed
  moreover have "codec_errors (pm_codecs m) (''expert.'' @ pl_name q, pl_codec_id q, pl_bits q) = []"
    if q: "pm_expert_layout m = Some l" "q \<in> set (rl_projections (el_record l))" for l q
  proof -
    have l: "lay = Some l" using q(1) by (simp add: m(3) lay)
    obtain specs where sp: "record_build specs alignment 2 2 = Inr (el_record l)"
      "\<forall>s \<in> set specs. ps_bits s = pe_bits (entry_for ?m EXPERTS_ROUTED) \<and>
         ps_codec_id s = codec_id_for EXPERTS_ROUTED (pe_bits (entry_for ?m EXPERTS_ROUTED)) meth"
      by (rule planned_record [OF ex [unfolded l]])
    obtain c where "lay_out_projections specs 2 2 0 = Inr (rl_projections (el_record l), c)"
      using record_build_fields [OF sp(1)] by blast
    from lay_out_codecs [OF this q(2)] have "pl_bits q = pe_bits (entry_for ?m EXPERTS_ROUTED)"
      "pl_codec_id q = codec_id_for EXPERTS_ROUTED (pl_bits q) meth" using sp(2) by auto
    then show ?thesis using codec_fine [OF sm] keys(2) l by auto
  qed
  moreover have "codec_errors (pm_codecs m) (''ple.rows'', pr_codec_id (pi_row ix), pr_bits (pi_row ix)) = []"
    if ix: "pm_ple_index m = Some ix" for ix
  proof -
    obtain q p0 where q: "bp_ple plan = Some q" "pi_row ix = pp_row q" "ple0 = Some p0" "q = name_ple_codec meth p0"
      using m(4) [OF ix] ple(2) by auto
    obtain w where "row_build w (pe_bits (entry_for ?m PLE_TABLE)) (pe_group_size (entry_for ?m PLE_TABLE))
       (pe_symmetric (entry_for ?m PLE_TABLE)) 2 2 PAGE_BYTES ''pt.ple.rtn.v1'' = Inr (pp_row p0)"
      using plan_ple_ok(4) [OF ple(1) [unfolded q(3)] ok(1)] by blast
    then have "pr_bits (pp_row p0) = pe_bits (entry_for ?m PLE_TABLE)" by (rule row_build_bits)
    then show ?thesis using codec_fine [OF sm] keys(3) q by (simp add: name_ple_codec_def)
  qed
  ultimately show ?thesis
    by (cases "pm_expert_layout m"; cases "pm_ple_index m") (auto simp: validate_codecs_def codec_references_def)
qed

section \<open>The expert bank\<close>

lemma planned_expert_layout:
  assumes p: "plan_package scan precision features alignment revision meth profile whole = Inr plan"
    and bank: "\<And>l. pm_expert_layout (bp_manifest plan) = Some l \<Longrightarrow> record_ok (el_record l)" "0 < alignment"
    and ne: "pm_expert_layout (bp_manifest plan) \<noteq> None \<Longrightarrow> pt_expert_bytes (pm_totals (bp_manifest plan)) \<noteq> 0"
    and m: "pm_expert_layout m = pm_expert_layout (bp_manifest plan)" "pm_totals m = pm_totals (bp_manifest plan)"
  shows "validate_expert_layout m = []"
proof (cases "pm_expert_layout (bp_manifest plan)")
  case None
  have "pt_expert_bytes (pm_totals (bp_manifest plan)) = 0"
    by (rule plan_package_parts [OF p]) (simp add: None)
  then show ?thesis by (simp add: validate_expert_layout_def m None)
next
  case (Some l)
  obtain experts lay ple0 where ex: "plan_experts scan (plan_map precision) alignment meth profile = Inr (experts, lay)"
    and lay: "pm_expert_layout (bp_manifest plan) = lay"
    and t: "pt_expert_bytes (pm_totals (bp_manifest plan)) = (case lay of None \<Rightarrow> 0 | Some l \<Rightarrow> el_total_bytes l)"
    by (rule plan_package_parts [OF p])
  have l: "lay = Some l" using lay Some by simp
  obtain specs where sp: "record_build specs alignment 2 2 = Inr (el_record l)" by (rule planned_record [OF ex [unfolded l]])
  have r: "rl_alignment (el_record l) = alignment" "rl_stride (el_record l) = align_up (rl_payload_bytes (el_record l)) alignment"
    using record_build_fields [OF sp] by simp_all
  have ok: "record_ok (el_record l)" by (rule bank(1) [OF Some])
  have "contig 0 (map (\<lambda>p. (pl_offset p, pl_length p)) (rl_projections (el_record l)))"
    "sum_list (map pl_length (rl_projections (el_record l))) = rl_payload_bytes (el_record l)"
    using ok by (simp_all add: record_ok_def projection_segs_def comp_def)
  then have "check_non_overlapping (map (\<lambda>p. (pl_offset p, pl_offset p + pl_length p, pl_name p)) (rl_projections (el_record l)))
      (rl_payload_bytes (el_record l)) = []"
    using contig_no_overlap [of pl_offset pl_length "rl_projections (el_record l)" "rl_payload_bytes (el_record l)" pl_name]
    by (simp add: span_of_def [abs_def])
  moreover have "rl_stride (el_record l) mod alignment = 0"
    unfolding r(2) using align_up_dvd [of alignment "rl_payload_bytes (el_record l)"] bank(2) by (simp add: mod_eq_0_iff_dvd)
  moreover have "rl_payload_bytes (el_record l) \<le> rl_stride (el_record l)" using ok by (simp add: record_ok_def)
  ultimately show ?thesis using ne Some bank(2) t l r(1) by (simp add: validate_expert_layout_def m Let_def)
qed

text \<open>Every record of the bank belongs to an expert of the plan.\<close>

lemma planned_expert_count:
  assumes "plan_experts scan m alignment meth profile = Inr (items, Some lay)"
  shows "int (length items) = num_records lay"
proof -
  obtain g slices where "infer_expert_geometry scan = Some g"
    and g: "build_expert_slices (sc_tensors scan) (eg_num_experts g) None None = Inr slices" "slices \<noteq> []"
    and b: "plan_bank (entry_for m EXPERTS_ROUTED) alignment meth (profile = ''canary'') (eg_num_experts g)
      (if profile = ''canary'' then select_experts slices (eg_num_experts g) else slices) = Inr (items, Some lay)"
    using assms by (auto simp: plan_experts_def Let_def bindE_Inr_iff split: option.splits if_split_asm)
  let ?sel = "if profile = ''canary'' then select_experts slices (eg_num_experts g) else slices"
  obtain rec where r: "lay = expert_layout_for (profile = ''canary'') ?sel (eg_num_experts g) rec" "expert_items lay ?sel = Inr items"
    "?sel \<noteq> []"
    using b by (auto simp: plan_bank_def Let_def bindE_Inr_iff projection_signature_iff)
  have len: "length items = length ?sel" using r(2) unfolding expert_items_def by (rule mapE_length)
  show ?thesis
  proof (cases "profile = ''canary''")
    case True
    then have "length (el_records lay) = length ?sel" by (simp add: r(1) expert_layout_for_def Let_def record_entries_def)
    moreover from this have "el_records lay \<noteq> []" using r(3) by auto
    ultimately show ?thesis by (simp add: num_records_def len)
  next
    case False
    let ?ls = "sort (od_keys (expert_bank_tensors (sc_tensors scan)))" and ?n = "eg_num_experts g"
    have k: "map (\<lambda>s. (es_layer s, es_expert s)) slices = List.product ?ls [0 .. ?n - 1]"
      using build_expert_slices_keys [OF g(1)] by (simp add: product_concat_map)
    have n: "0 < ?n" using all_slices_distinct(2) [OF g] .
    have "length slices = length ?ls * nat ?n" using arg_cong [OF k, of length] by simp
    moreover have "set (map es_layer slices) = set ?ls"
    proof -
      have "map es_layer slices = map fst (map (\<lambda>s. (es_layer s, es_expert s)) slices)" by simp
      then have "set (map es_layer slices) = fst ` set (List.product ?ls [0 .. ?n - 1])" unfolding k by (metis set_map)
      then show ?thesis using n by (auto simp: image_iff intro: exI [of _ 0])
    qed
    then have "length (sort (remdups (map es_layer slices))) = card (set ?ls)" by (simp add: length_remdups_card_conv)
    moreover have "card (set ?ls) = length ?ls" using bank_tensors_ok by (intro distinct_card) (simp add: od_ok_def)
    ultimately show ?thesis using False n by (simp add: num_records_def r(1) expert_layout_for_def Let_def len)
  qed
qed

lemma covering_indices:
  assumes "distinct xs" "int (length xs) = n" "\<forall>x \<in> set xs. 0 \<le> x \<and> x < n"
  shows "set xs = set [0 .. n - 1]"
proof -
  have "set xs \<subseteq> {0 .. n - 1}" using assms(3) by auto
  moreover have "card (set xs) = card {0 .. n - 1}" using assms(1,2) by (simp add: distinct_card)
  ultimately show ?thesis using card_subset_eq [of "{0 .. n - 1}" "set xs"] by simp
qed

section \<open>The PLE index\<close>

lemma place_shards_spans:
  "place_shards row rs c = Inr (items, e) \<Longrightarrow> list_all2 (\<lambda>(a, l) s. pw_logical_first_row s = l \<and> shape_rows a = Inr (pw_num_rows s)) rs items"
  by (induction row rs c arbitrary: items e rule: place_shards.induct) (fastforce simp: bindE_Inr_iff)+

lemma logical_rows_contig:
  "logical_rows as c = Inr (rs, t) \<Longrightarrow> \<forall>a \<in> set as. tensor_ok a \<Longrightarrow>
     contig c (map (\<lambda>r. (snd r, projr (shape_rows (fst r)))) rs) \<and> t = c + sum_list (map (\<lambda>r. projr (shape_rows (fst r))) rs)"
proof (induction "as" c arbitrary: rs t rule: logical_rows.induct)
  case (2 a as c)
  obtain n rs' where l: "shape_rows a = Inr n" "logical_rows as (c + n) = Inr (rs', t)" "rs = (a, c) # rs'"
    using "2.prems"(1) by (auto simp: bindE_Inr_iff)
  have "0 \<le> n" using "2.prems"(2) l(1) shape_rows_tensor by auto
  then show ?case using "2.IH" [OF l(2)] "2.prems"(2) l by auto
qed simp

lemma sublist_canary:
  assumes "sorted_wrt P xs"
  shows "sorted_wrt P (select_canary xs)"
proof -
  have "map snd (zip [0 ..< length xs] xs) = xs" by simp
  then have "sorted_wrt (\<lambda>x y. P (snd x) (snd y)) (zip [0 ..< length xs] xs)" using assms by (metis sorted_wrt_map)
  then show ?thesis by (simp add: select_canary_def sorted_wrt_map sorted_wrt_filter)
qed

lemma planned_shards:
  assumes p: "plan_ple scan m profile = Inr (Some ple)" and scan: "scan_ok scan"
  shows "check_non_overlapping (map (span_of pw_logical_first_row pw_num_rows label) (pp_shards ple)) (pp_logical_total_rows ple) = []"
proof -
  obtain g layer where o1: "lay_out_ple (text_config (sc_config scan)) (entry_for m PLE_TABLE) profile g layer
      (component_tensors scan PLE_TABLE) (ple_index_tensors scan) = Inr ple"
    using p by (auto simp: plan_ple_def Let_def bindE_Inr_iff split: option.splits if_split_asm)
  obtain sorted_tensors rows where
    s: "sort_by_shard (component_tensors scan PLE_TABLE) = Inr sorted_tensors" and
    l: "logical_rows sorted_tensors 0 = Inr (rows, pp_logical_total_rows ple)" and
    pl: "place_shards (pp_row ple) (profile_rows profile rows) 0 = Inr (pp_shards ple, pp_total_rows ple)"
    using o1 by (auto simp: lay_out_ple_def Let_def bindE_Inr_iff)
  have "set sorted_tensors \<subseteq> set (map snd (sc_tensors scan))"
    using sort_by_shard_set [OF s] by (auto simp: component_tensors_def)
  then have ok: "\<forall>a \<in> set sorted_tensors. tensor_ok a" using scan_tensor_ok [OF scan] by blast
  let ?len = "\<lambda>r. projr (shape_rows (fst r))"
  have c: "contig 0 (map (\<lambda>r. (snd r, ?len r)) rows)" "pp_logical_total_rows ple = sum_list (map ?len rows)"
    using logical_rows_contig [OF l ok] by simp_all
  note cs = contig_sorted [OF c(1)]
  let ?sel = "profile_rows profile rows"
  have sel: "sorted_wrt (\<lambda>x y. snd x + ?len x \<le> snd y) ?sel" "set ?sel \<subseteq> set rows"
    using cs sublist_canary select_canary_subset [of rows] by (auto simp: profile_rows_def)
  have a2: "list_all2 (\<lambda>r s. pw_logical_first_row s = snd r \<and> pw_num_rows s = ?len r) ?sel (pp_shards ple)"
    using place_shards_spans [OF pl] by (rule list_all2_mono) auto
  have sorted: "sorted_wrt (\<lambda>x y. pw_logical_first_row x + pw_num_rows x \<le> pw_logical_first_row y) (pp_shards ple)"
    using sel(1) a2 unfolding sorted_wrt_iff_nth_less list_all2_conv_all_nth by simp
  have bounds: "0 \<le> pw_logical_first_row x \<and> 0 \<le> pw_num_rows x \<and>
      pw_logical_first_row x + pw_num_rows x \<le> pp_logical_total_rows ple" if x: "x \<in> set (pp_shards ple)" for x
  proof -
    obtain k where k: "k < length (pp_shards ple)" "x = pp_shards ple ! k" using x by (auto simp: in_set_conv_nth)
    then have "?sel ! k \<in> set rows" "pw_logical_first_row x = snd (?sel ! k)" "pw_num_rows x = ?len (?sel ! k)"
      using a2 sel(2) by (auto simp: list_all2_conv_all_nth)
    then show ?thesis using cs c(2) by simp
  qed
  show ?thesis unfolding no_overlap_iff sorted_wrt_map
    using sorted bounds by (auto simp: span_fits_def span_apart_def span_of_def elim!: sorted_wrt_mono_rel [rotated])
qed

text \<open>The checksums of the shards carry the rows of the plan.\<close>

definition shard_label :: "ple_shard_item \<Rightarrow> string" where
  "shard_label s = ''PLE source shard '' @ py_str (pw_shard_index s)"

definition rows_of_plan :: "ple_plan \<Rightarrow> (string, item_checksum) odict \<Rightarrow> bool" where
  "rows_of_plan q ple \<longleftrightarrow> checksum_row_errors ple = [] \<and>
     mset (checksum_ranges ple) = mset (map (span_of pw_first_row pw_num_rows shard_label) (pp_shards q))"

lemma built_index:
  assumes "build_ple_index q ng offs vocs mults = Inr ix"
  shows "pi_total_rows ix = pp_logical_total_rows q" "pi_physical_rows ix = pp_total_rows q" "pi_row ix = pp_row q"
    "shard_ranges sm_logical_first_row label ix =
       map (span_of pw_logical_first_row pw_num_rows (\<lambda>s. label @ py_str (pw_shard_index s))) (pp_shards q)"
    "shard_ranges sm_physical_first_row label ix =
       map (span_of pw_first_row pw_num_rows (\<lambda>s. label @ py_str (pw_shard_index s))) (pp_shards q)"
  using assms by (auto simp: build_ple_index_def Let_def shard_ranges_def span_of_def split: if_splits)

lemma planned_ranges:
  assumes plan: "plan_ple scan m0 profile = Inr (Some q0)" and scan: "scan_ok scan"
    and q: "pp_shards q = pp_shards q0" "pp_total_rows q = pp_total_rows q0" "pp_logical_total_rows q = pp_logical_total_rows q0"
    and ix: "build_ple_index q ng offs vocs mults = Inr ix" and rows: "rows_of_plan q ple"
    and whole: "pm_complete_model m \<Longrightarrow> profile \<noteq> ''canary''"
  shows "ple_range_errors m ple ix = []"
proof -
  note b = built_index [OF ix]
  note pk = plan_ple_ok [OF plan scan]
  have c: "contig 0 (map (\<lambda>s. (pw_first_row s, pw_num_rows s)) (pp_shards q))" "sum_list (map pw_num_rows (pp_shards q)) = pp_total_rows q"
    using pk(1,2) by (simp_all add: shard_segs_def q comp_def)
  have r: "mset (checksum_ranges ple) = mset (map (span_of pw_first_row pw_num_rows shard_label) (pp_shards q))"
    "checksum_row_errors ple = []" using rows by (simp_all add: rows_of_plan_def)
  note ca = contig_accepted [OF c(1) r(1) c(2)]
  have physical: "check_non_overlapping (shard_ranges sm_physical_first_row l ix) (pi_physical_rows ix) = []" for l
    unfolding b(2,5) by (rule contig_no_overlap [OF c(1)]) (simp add: c(2))
  have logical: "check_non_overlapping (shard_ranges sm_logical_first_row l ix) (pi_total_rows ix) = []" for l
    unfolding b(1,4) q by (rule planned_shards [OF plan scan])
  have full: "covers (sort (shard_ranges sm_logical_first_row l ix)) (pi_total_rows ix)"
    if "pm_complete_model m" "shard_ranges sm_logical_first_row l ix \<noteq> []" for l
  proof -
    have lg: "pp_logical_total_rows q = pp_total_rows q" "\<forall>s \<in> set (pp_shards q). pw_first_row s = pw_logical_first_row s"
      using pk(3) [OF whole [OF that(1)]] by (simp_all add: q)
    have e: "map (\<lambda>s. (pw_logical_first_row s, pw_num_rows s)) (pp_shards q) = map (\<lambda>s. (pw_first_row s, pw_num_rows s)) (pp_shards q)"
      using lg(2) by simp
    have "contig 0 (map (\<lambda>s. (pw_logical_first_row s, pw_num_rows s)) (pp_shards q))" unfolding e by (rule c(1))
    from contig_accepted(2) [OF this refl c(2)] show ?thesis using that(2) unfolding b(1,4) lg(1) .
  qed
  show ?thesis
    unfolding ple_range_errors_def Let_def using ca physical logical full r(2) by (auto simp: b(2))
qed

lemma planned_ple_layout:
  assumes "ple_range_errors m (pc_ple cs) ix = []" "head_errors ix = []" "row_ok (pi_row ix)"
    and "vd_sidecar d = Some (Inr ix)" "pm_ple_index m = Some ix"
    and "pt_ple_bytes (pm_totals m) \<noteq> 0" "pi_total_bytes ix = Inr (pt_ple_bytes (pm_totals m))"
  shows "validate_ple_layout d m cs = Inr []"
  using assms by (simp add: validate_ple_layout_def sidecar_errors_def row_errors_def row_ok_def)

end
