(* ===== verification/Verified.thy ===== *)
theory Verified
  imports Built Corruption PlanChecks
begin

text \<open>
  From the builder to the validator: the package that a build leaves behind, after any history
  of killed attempts and crashes, is accepted by the validator. Each check of the validator is
  shown to find nothing, from what the planner promises and the build has stored.
\<close>

section \<open>What is stored is read back\<close>

lemma stored_read:
  assumes "stored d (off, p)" "rd_synced d \<le> length (rd_bytes d)"
  shows "file_read (rd_bytes d) off (int (length p)) = Inr p"
proof -
  have off: "0 \<le> off" using assms(1) by (simp add: stored_def)
  have b: "rd_bytes d ! (nat off + k) = p ! k \<and> nat off + k < length (rd_bytes d)" if "k < length p" for k
  proof -
    have "clean_at d (off + int k)" "rd_bytes d ! nat (off + int k) = p ! k" using assms(1) that by (auto simp: stored_def)
    moreover have "nat (off + int k) = nat off + k" using off by (simp add: nat_add_distrib)
    ultimately show ?thesis using assms(2) by (auto simp: clean_at_def)
  qed
  have fits: "nat off + length p \<le> length (rd_bytes d) \<or> p = []"
    using b [of "length p - 1"] by (cases p) auto
  have "take (length p) (drop (nat off) (rd_bytes d)) = p"
    using fits b by (auto intro!: nth_equalityI)
  then show ?thesis using off by (simp add: file_read_def)
qed

lemma dense_run_ok:
  assumes "recorded d (dense_pieces w i) (Some c)" "rd_synced d \<le> length (rd_bytes d)"
  shows "run_ok (rd_bytes d) c"
  using assms stored_read [OF _ assms(2)]
  by (auto simp: recorded_def dense_pieces_def bindE_Inr_iff at_offsets_iff run_ok_def)

lemma expert_run_ok:
  assumes "recorded d (bank_pieces w i) (Some c)" "rd_synced d \<le> length (rd_bytes d)"
  shows "run_ok (rd_bytes d) c"
  using assms stored_read [OF _ assms(2)]
  by (auto simp: recorded_def bank_pieces_def expert_pieces_def bindE_Inr_iff at_offsets_iff run_ok_def)

lemma chunks_of_block:
  assumes "length block = n * p"
  shows "concat (map (\<lambda>k. take p (drop (k * p) block)) [0 ..< n]) = block"
  using assms
proof (induction n arbitrary: block)
  case (Suc n)
  have "concat (map (\<lambda>k. take p (drop (k * p) (drop p block))) [0 ..< n]) = drop p block"
    using Suc by (intro Suc.IH) simp
  moreover have "[0 ..< Suc n] = 0 # map Suc [0 ..< n]" by (simp add: map_Suc_upt upt_conv_Cons del: upt_Suc)
  ultimately show ?case by (simp add: comp_def add.commute)
qed simp

lemma rows_upto: "0 \<le> n \<Longrightarrow> [first .. first + n - 1] = map (\<lambda>k. first + int k) [0 ..< nat n]"
  by (rule nth_equalityI) (simp_all add: nth_upto)

lemma shard_is_ok:
  assumes "recorded d (table_pieces w s) (Some c)" "rd_synced d \<le> length (rd_bytes d)" "row_ok (pp_row (ple_of w))"
    and n: "0 \<le> pw_num_rows s"
  shows "shard_ok (pp_row (ple_of w)) (rd_bytes d) c \<and> ic_first_row c \<noteq> None \<and> ic_num_rows c \<noteq> None"
proof -
  let ?row = "pp_row (ple_of w)" and ?f = "rd_bytes d"
  let ?p = "nat (pr_payload_bytes ?row)"
  obtain ps where ps: "table_pieces w s = Inr (ps, c)" "\<forall>q \<in> set ps. stored d q" using assms(1) by (auto simp: recorded_def)
  obtain block where b: "ps = row_pieces ?row s block" "int (length block) = pw_num_rows s * pr_payload_bytes ?row"
    "ic_value c = crc32c_hex block"
    by (rule shard_piecesD [OF ps(1) [unfolded table_pieces_def]])
  have c: "ic_first_row c = Some (pw_first_row s)" "ic_num_rows c = Some (pw_num_rows s)" "ic_length c = int (length block)"
    using ps(1) b by (auto simp: table_pieces_def shard_pieces_def bindE_Inr_iff at_offsets_iff Let_def encode_ple_shard_def
        split: if_splits)
  have pp: "0 < pr_payload_bytes ?row" "1 \<le> pr_rows_per_page ?row" using assms(3) by (simp_all add: row_ok_def)
  have lb: "length block = nat (pw_num_rows s) * ?p"
    using b(2) n pp(1) by (simp add: nat_eq_iff2 [symmetric] flip: nat_mult_distrib)
  have rd: "row_bytes ?row ?f (pw_first_row s + int k) = take ?p (drop (k * ?p) block) \<and> row_readable ?row ?f (pw_first_row s + int k)"
    if k: "k < nat (pw_num_rows s)" for k
  proof -
    note rp = row_piece [OF b(2) _ refl k]
    have "length (row_pieces ?row s block) = nat (pw_num_rows s)" by (simp add: row_pieces_def)
    then have "row_pieces ?row s block ! k \<in> set ps" unfolding b(1) using k by (intro nth_mem) simp
    then have st: "stored d (row_offset ?row (pw_first_row s + int k), take ?p (drop (k * ?p) block))"
      using ps(2) rp(1) pp(1) by simp
    have len: "int (length (take ?p (drop (k * ?p) block))) = pr_payload_bytes ?row" using rp(2) pp(1) by simp
    have "0 \<le> row_offset ?row (pw_first_row s + int k)" using st by (simp add: stored_def)
    then have "row_bytes ?row ?f (pw_first_row s + int k) = take ?p (drop (k * ?p) block)"
      using stored_read [OF st assms(2)] pp(1) unfolding len by (simp add: file_read_def row_bytes_def)
    then show ?thesis using len pp \<open>0 \<le> row_offset ?row _\<close> by (simp add: row_readable_def)
  qed
  have "concat (map (row_bytes ?row ?f) [pw_first_row s .. pw_first_row s + pw_num_rows s - 1]) = block"
    unfolding rows_upto [OF n] map_map comp_def using rd chunks_of_block [OF lb]
    by (metis (no_types, lifting) atLeastLessThan_upt map_cong atLeastLessThan_iff)
  moreover have "\<forall>r \<in> set [pw_first_row s .. pw_first_row s + pw_num_rows s - 1]. row_readable ?row ?f r"
    unfolding rows_upto [OF n] using rd by auto
  ultimately show ?thesis using b(3) c by (simp add: shard_ok_def Let_def crc32c_hex_def)
qed

section \<open>Item checks that find nothing\<close>

lemma runs_pass:
  "\<forall>e \<in> set cs. run_ok f (snd e) \<Longrightarrow>
     \<exists>n'. foldE (check_run a b m f) cs (k, n, es) = Inr (k + int (length cs), n', es)"
proof (induction cs arbitrary: k n)
  case (Cons e cs)
  obtain name c where e: "e = (name, c)" by (cases e)
  have "check_run a b m f (name, c) (k, n, es) = Inr (k + 1, n + ic_length c, es)"
    using Cons.prems by (intro check_run_ok) (simp add: e)
  then show ?case using Cons.IH [of "k + 1" "n + ic_length c"] Cons.prems by (auto simp: e)
qed simp

lemma shards_pass:
  "\<forall>e \<in> set cs. shard_ok row f (snd e) \<and> ic_first_row (snd e) \<noteq> None \<and> ic_num_rows (snd e) \<noteq> None \<Longrightarrow>
     \<exists>n'. foldE (check_shard row f) cs (k, n, es) = Inr (k + int (length cs), n', es)"
proof (induction cs arbitrary: k n)
  case (Cons e cs)
  obtain name c where e: "e = (name, c)" by (cases e)
  obtain first num where "ic_first_row c = Some first" "ic_num_rows c = Some num" using Cons.prems by (auto simp: e)
  then have "check_shard row f (name, c) (k, n, es) = Inr (k + 1, n + ic_length c, es)"
    using Cons.prems by (intro check_shard_ok) (simp_all add: e)
  then show ?case using Cons.IH [of "k + 1" "n + ic_length c"] Cons.prems by (auto simp: e)
qed simp

section \<open>The checksums of a finished package\<close>

lemma od_entry: "od_ok d \<Longrightarrow> (k, v) \<in> set d \<Longrightarrow> od_get d k = Some v"
  by (simp add: od_get_def od_ok_def od_keys_def map_of_is_SomeI)

lemma od_count:
  assumes "od_ok d" "set (od_keys d) = name ` set items" "distinct (map name items)"
  shows "length d = length items"
proof -
  have "length d = card (set (od_keys d))" using assms(1) by (simp add: od_ok_def distinct_card)
  also have "\<dots> = card (set (map name items))" using assms(2) by simp
  finally show ?thesis using distinct_card [OF assms(3)] by simp
qed

lemma finished_synced:
  assumes "finished w pk j ix"
  shows "rd_synced (region_view DENSE_REGION pk) \<le> length (rd_bytes (region_view DENSE_REGION pk))"
    and "has_bank w \<Longrightarrow> rd_synced (region_view EXPERT_REGION pk) \<le> length (rd_bytes (region_view EXPERT_REGION pk))"
    and "has_ple w \<Longrightarrow> rd_synced (region_view PLE_REGION pk) \<le> length (rd_bytes (region_view PLE_REGION pk))"
  using assms by (simp_all add: finished_def package_good_def dense_region.region_good_def dense_region.good_def
      bank_region.region_good_def experts.good_def table_region.region_good_def shards.good_def)

lemma finished_names:
  assumes "finished w pk j ix"
  shows "set (bj_dense_done j) = dense_names w" "set (od_keys (bj_dense_checksums j)) = dense_names w"
    "set (map py_str (bj_expert_done j)) = expert_names w" "set (od_keys (bj_expert_checksums j)) = expert_names w"
    "set (od_keys (bj_ple_checksums j)) = shard_names w"
proof -
  have e: "journal_exact w j" "\<not> missing_checksums j" "all_marked w j" using assms by (auto simp: finished_def journal_current_def)
  have sub: "dense_names w \<subseteq> set (bj_dense_done j)" "expert_names w \<subseteq> set (map py_str (bj_expert_done j))"
    "shard_names w \<subseteq> set (map py_str (bj_ple_done j))"
    using e(3) by (auto simp: all_marked_def dense_names_def expert_names_def shard_names_def dense_done_def expert_done_def shard_done_def)
  show "set (bj_dense_done j) = dense_names w" "set (od_keys (bj_dense_checksums j)) = dense_names w"
    "set (map py_str (bj_expert_done j)) = expert_names w" "set (od_keys (bj_expert_checksums j)) = expert_names w"
    "set (od_keys (bj_ple_checksums j)) = shard_names w"
    using e(1,2) sub unfolding journal_exact_def exact_def missing_checksums_def by blast+
qed

lemma finished_runs:
  assumes f: "finished w pk j ix" and ok: "writer_ok w"
  shows "\<forall>e \<in> set (bj_dense_checksums j). run_ok (rd_bytes (region_view DENSE_REGION pk)) (snd e)"
    and "\<forall>e \<in> set (bj_expert_checksums j). run_ok (rd_bytes (region_view EXPERT_REGION pk)) (snd e)"
    and "\<forall>e \<in> set (bj_ple_checksums j). shard_ok (pp_row (ple_of w)) (rd_bytes (region_view PLE_REGION pk)) (snd e) \<and>
      ic_first_row (snd e) \<noteq> None \<and> ic_num_rows (snd e) \<noteq> None"
proof -
  have h: "package_held w pk j" "journal_current w j" "all_marked w j" "journal_exact w j" using f by (auto simp: finished_def)
  note rec = held_recorded [OF ok h(1,2)]
  show "\<forall>e \<in> set (bj_dense_checksums j). run_ok (rd_bytes (region_view DENSE_REGION pk)) (snd e)"
  proof (clarify, unfold snd_conv)
    fix n c assume e: "(n, c) \<in> set (bj_dense_checksums j)"
    then have "n \<in> set (od_keys (bj_dense_checksums j))" by (force simp: od_keys_def)
    then obtain i where i: "i \<in> set (bp_dense (wr_plan w))" "dw_name i = n"
      unfolding finished_names(2) [OF f] by (auto simp: dense_names_def)
    have "od_get (bj_dense_checksums j) n = Some c" using h(4) od_entry [OF _ e] by (simp add: journal_exact_def exact_def)
    then have "recorded (region_view DENSE_REGION pk) (dense_pieces w i) (Some c)"
      using rec h(3) i by (auto simp: all_marked_def)
    then show "run_ok (rd_bytes (region_view DENSE_REGION pk)) c" by (rule dense_run_ok [OF _ finished_synced(1) [OF f]])
  qed
  show "\<forall>e \<in> set (bj_expert_checksums j). run_ok (rd_bytes (region_view EXPERT_REGION pk)) (snd e)"
  proof (clarify, unfold snd_conv)
    fix n c assume e: "(n, c) \<in> set (bj_expert_checksums j)"
    then have "n \<in> set (od_keys (bj_expert_checksums j))" by (force simp: od_keys_def)
    then obtain i where i: "i \<in> set (bp_experts (wr_plan w))" "py_str (ew_record_index i) = n"
      unfolding finished_names(4) [OF f] by (auto simp: expert_names_def)
    have "od_get (bj_expert_checksums j) n = Some c" using h(4) od_entry [OF _ e] by (simp add: journal_exact_def exact_def)
    then have r: "recorded (region_view EXPERT_REGION pk) (bank_pieces w i) (Some c)"
      using rec h(3) i by (auto simp: all_marked_def)
    have "has_bank w" using ok i(1) by (auto simp: writer_ok_def has_bank_def split: if_splits)
    then show "run_ok (rd_bytes (region_view EXPERT_REGION pk)) c" by (intro expert_run_ok [OF r finished_synced(2) [OF f]])
  qed
  show "\<forall>e \<in> set (bj_ple_checksums j). shard_ok (pp_row (ple_of w)) (rd_bytes (region_view PLE_REGION pk)) (snd e) \<and>
      ic_first_row (snd e) \<noteq> None \<and> ic_num_rows (snd e) \<noteq> None"
  proof (clarify, unfold snd_conv)
    fix n c assume e: "(n, c) \<in> set (bj_ple_checksums j)"
    then have "n \<in> set (od_keys (bj_ple_checksums j))" by (force simp: od_keys_def)
    then obtain i where i: "i \<in> set (ple_shards (wr_plan w))" "py_str (pw_shard_index i) = n"
      unfolding finished_names(5) [OF f] by (auto simp: shard_names_def)
    have "od_get (bj_ple_checksums j) n = Some c" using h(4) od_entry [OF _ e] by (simp add: journal_exact_def exact_def)
    then have r: "recorded (region_view PLE_REGION pk) (table_pieces w i) (Some c)"
      using rec h(3) i by (auto simp: all_marked_def)
    have p: "has_ple w" using i(1) by (cases "bp_ple (wr_plan w)") (auto simp: has_ple_def ple_shards_def)
    then have po: "ple_region_ok w" using ok by (simp add: writer_ok_def has_ple_def)
    have "i \<in> set (ple_work w)" using i(1) p by (auto simp: ple_work_def ple_of_def ple_shards_def has_ple_def)
    then have "0 \<le> pw_num_rows i" using shard_bounds [OF po] by blast
    then show "shard_ok (pp_row (ple_of w)) (rd_bytes (region_view PLE_REGION pk)) c \<and> ic_first_row c \<noteq> None \<and> ic_num_rows c \<noteq> None"
      using po by (intro shard_is_ok [OF r finished_synced(3) [OF f p]]) (simp_all add: ple_region_ok_def)
  qed
qed

lemma finished_counts:
  assumes f: "finished w pk j ix" and ok: "writer_ok w"
  shows "length (bj_dense_checksums j) = length (bp_dense (wr_plan w))"
    and "length (bj_expert_checksums j) = length (bp_experts (wr_plan w))"
    and "length (bj_ple_checksums j) = length (ple_shards (wr_plan w))"
proof -
  have e: "journal_exact w j" using f by (simp add: finished_def)
  show "length (bj_dense_checksums j) = length (bp_dense (wr_plan w))"
    using e finished_names(2) [OF f] ok
    by (intro od_count [where name = dw_name]) (auto simp: journal_exact_def exact_def dense_names_def writer_ok_def dense_ok_def
      dense_region_ok_def Let_def)
  have de: "distinct (map ew_record_index (bp_experts (wr_plan w)))"
    using ok by (cases "has_bank w") (auto simp: writer_ok_def expert_region_ok_def has_bank_def)
  then have "distinct (map (\<lambda>i. py_str (ew_record_index i)) (bp_experts (wr_plan w)))"
    using inj_py_str by (auto simp: distinct_map inj_on_def)
  then show "length (bj_expert_checksums j) = length (bp_experts (wr_plan w))"
    using e finished_names(4) [OF f]
    by (intro od_count [where name = "\<lambda>i. py_str (ew_record_index i)"]) (auto simp: journal_exact_def exact_def expert_names_def)
  have "distinct (map pw_shard_index (ple_shards (wr_plan w)))"
    using ok by (cases "has_ple w") (auto simp: writer_ok_def ple_region_ok_def has_ple_def ple_shards_def ple_of_def)
  then have "distinct (map (\<lambda>s. py_str (pw_shard_index s)) (ple_shards (wr_plan w)))"
    using inj_py_str by (auto simp: distinct_map inj_on_def)
  then show "length (bj_ple_checksums j) = length (ple_shards (wr_plan w))"
    using e finished_names(5) [OF f]
    by (intro od_count [where name = "\<lambda>s. py_str (pw_shard_index s)"]) (auto simp: journal_exact_def exact_def shard_names_def)
qed

section \<open>Opening a package\<close>

text \<open>The validator's view of a package directory: a metadata file is the last one written under
  its name, and a JSON document parses to the value it serialises. Only the configuration, which is
  copied from the source as bytes, is parsed by \<open>parse\<close>.\<close>

definition latest :: "(meta_file \<Rightarrow> 'a option) \<Rightarrow> meta_file list \<Rightarrow> 'a option" where
  "latest g ms = (case rev (List.map_filter g ms) of [] \<Rightarrow> None | x # _ \<Rightarrow> Some x)"

definition manifest_file :: "meta_file \<Rightarrow> package_manifest option" where
  "manifest_file f = (case f of ManifestFile m \<Rightarrow> Some m | _ \<Rightarrow> None)"

definition checksums_file :: "meta_file \<Rightarrow> package_checksums option" where
  "checksums_file f = (case f of ChecksumsFile c \<Rightarrow> Some c | _ \<Rightarrow> None)"

definition sidecar_file :: "meta_file \<Rightarrow> ple_index option" where
  "sidecar_file f = (case f of PleIndexFile i \<Rightarrow> Some i | _ \<Rightarrow> None)"

definition asset_file :: "string \<Rightarrow> meta_file \<Rightarrow> bytes option" where
  "asset_file name f = (case f of AssetFile n b \<Rightarrow> if n = name then Some b else None | _ \<Rightarrow> None)"

definition file_at :: "package_disk \<Rightarrow> string \<Rightarrow> bytes option" where
  "file_at pk path = (case find (\<lambda>r. region_path r = path) [DENSE_REGION, EXPERT_REGION, PLE_REGION] of
     None \<Rightarrow> None | Some r \<Rightarrow> map_option rf_bytes (pk_file pk r))"

definition open_package :: "(bytes \<Rightarrow> json_config result) \<Rightarrow> package_disk \<Rightarrow> package_dir" where
  "open_package parse pk =
     \<lparr>vd_is_dir = True, vd_manifest = map_option Inr (latest manifest_file (pk_meta pk)),
      vd_checksums = map_option Inr (latest checksums_file (pk_meta pk)), vd_journal = map_option Inr (pk_journal pk),
      vd_config = map_option parse (latest (asset_file ''config.json'') (pk_meta pk)),
      vd_sidecar = map_option Inr (latest sidecar_file (pk_meta pk)), vd_file = file_at pk,
      vd_generation = (latest (asset_file ''generation_config.json'') (pk_meta pk) \<noteq> None)\<rparr>"

lemma latest_append: "latest g (xs @ ys) = (case latest g ys of None \<Rightarrow> latest g xs | Some y \<Rightarrow> Some y)"
  by (auto simp: latest_def List.map_filter_def split: list.split)

lemma latest_Nil [simp]: "latest g [] = None"
  by (simp add: latest_def map_filter_simps)

lemma latest_Cons: "latest g (x # xs) = (case latest g xs of None \<Rightarrow> g x | Some y \<Rightarrow> Some y)"
  using latest_append [of g "[x]" xs] by (auto simp: latest_def map_filter_simps split: option.split list.split)

lemmas meta_file_kinds = manifest_file_def checksums_file_def sidecar_file_def asset_file_def

definition checksums_of :: "build_journal \<Rightarrow> package_checksums" where
  "checksums_of j = \<lparr>pc_dense = bj_dense_checksums j, pc_experts = bj_expert_checksums j, pc_ple = bj_ple_checksums j\<rparr>"

lemma no_asset_kind:
  assumes "\<forall>f \<in> set ms. \<exists>n b. f = AssetFile n b"
  shows "latest manifest_file ms = None" "latest checksums_file ms = None" "latest sidecar_file ms = None"
  using assms by (induction ms) (auto simp: latest_Cons meta_file_kinds)

lemma config_first:
  assumes "\<forall>f \<in> set ms. \<exists>n b. f = AssetFile n b \<and> n \<noteq> ''config.json''"
  shows "latest (asset_file ''config.json'') ms = None"
  using assms by (induction ms) (auto simp: latest_Cons meta_file_kinds)

lemma opened:
  assumes f: "finished w pk j ix" and c: "rd_asset (wr_reader w) ''config.json'' = Some payload"
  shows "vd_is_dir (open_package parse pk)" "vd_manifest (open_package parse pk) = Some (Inr (final_manifest w pk ix))"
    "vd_checksums (open_package parse pk) = Some (Inr (checksums_of j))"
    "vd_journal (open_package parse pk) = Some (Inr j)" "vd_config (open_package parse pk) = Some (parse payload)"
    "ix = Some i \<Longrightarrow> vd_sidecar (open_package parse pk) = Some (Inr i)"
proof -
  obtain old ms where ms: "pk_meta pk = old @ ms" "write_metadata w pk ix j = (ms, Inr ())" using f by (auto simp: finished_def)
  define rest where "rest = List.map_filter (\<lambda>n. map_option (AssetFile n) (rd_asset (wr_reader w) n))
    (''generation_config.json'' # TOKENIZER_ASSETS)"
  define lay where "lay = (case pm_expert_layout (bp_manifest (wr_plan w)) of None \<Rightarrow> [] | Some l \<Rightarrow> [ExpertLayoutFile l])"
  have assets: "copy_runtime_assets (wr_reader w) = Inr (AssetFile ''config.json'' payload # rest)"
    using c by (simp add: copy_runtime_assets_def rest_def)
  have shape: "ms = AssetFile ''config.json'' payload # rest @ lay @ (case ix of None \<Rightarrow> [] | Some i \<Rightarrow> [PleIndexFile i]) @
      [ChecksumsFile (checksums_of j), ManifestFile (final_manifest w pk ix)]"
    using ms(2) unfolding write_metadata_def assets
    by (auto simp: Let_def checksums_of_def simp flip: lay_def split: option.splits if_splits)
  have r: "\<forall>f \<in> set rest. \<exists>n b. f = AssetFile n b \<and> n \<noteq> ''config.json''"
    by (auto simp: rest_def TOKENIZER_ASSETS_def map_filter_simps split: option.splits)
  then have r': "\<forall>f \<in> set rest. \<exists>n b. f = AssetFile n b" by blast
  have l: "latest (asset_file n) lay = None" "latest sidecar_file lay = None" for n
    by (auto simp: lay_def latest_Cons meta_file_kinds split: option.split)
  show "vd_is_dir (open_package parse pk)" "vd_manifest (open_package parse pk) = Some (Inr (final_manifest w pk ix))"
    "vd_checksums (open_package parse pk) = Some (Inr (checksums_of j))"
    "vd_journal (open_package parse pk) = Some (Inr j)" "vd_config (open_package parse pk) = Some (parse payload)"
    "ix = Some i \<Longrightarrow> vd_sidecar (open_package parse pk) = Some (Inr i)"
    using f no_asset_kind [OF r'] config_first [OF r] l
    by (auto simp: open_package_def ms(1) shape latest_append latest_Cons meta_file_kinds finished_def split: option.split)
qed

section \<open>Regions\<close>

lemma regions_get:
  "od_get (pm_regions (final_manifest w pk ix)) (region_name r) = map_option (\<lambda>f. \<lparr>ri_path = region_path r,
     ri_size_bytes = int (length (rf_bytes f)), ri_sha256 = Some (wr_file_sha w (rf_bytes f))\<rparr>) (pk_file pk r)"
  by (cases r; cases "pk_file pk DENSE_REGION"; cases "pk_file pk EXPERT_REGION"; cases "pk_file pk PLE_REGION")
    (simp_all add: final_manifest_def region_entry_def region_name_def od_get_def map_filter_simps)

lemma file_at_region: "file_at pk (region_path r) = map_option rf_bytes (pk_file pk r)"
  by (cases r) (simp_all add: file_at_def region_path_def)

lemma open_region_at:
  "pk_file pk r = Some f \<Longrightarrow> open_region (open_package parse pk) (final_manifest w pk ix) (region_name r) =
     Inr (rd_bytes (region_view r pk))"
  using file_at_region [of pk r]
  by (simp add: open_region_def od_index_def regions_get open_package_def region_view_def)

lemma finished_regions:
  assumes f: "finished w pk j ix" and ok: "writer_ok w" and t: "totals_ok w" and sha: "\<And>b. wr_file_sha w b \<noteq> []"
    and pos: "0 \<le> region_limit w r"
  shows "region_errors (open_package parse pk) (final_manifest w pk ix) (region_name r, region_limit w r) = []"
proof (cases "region_limit w r = 0")
  case True
  have "regions_fit w pk" using f by (simp add: finished_def)
  then have "pk_file pk r = None" using True by (cases "pk_file pk r") (force simp: regions_fit_def)+
  then have "od_get (pm_regions (final_manifest w pk ix)) (region_name r) = None" by (simp add: regions_get)
  then show ?thesis using True by (simp add: region_errors_def od_get_eq_None)
next
  case False
  obtain g where "pk_file pk r = Some g" "int (length (rf_bytes g)) = region_limit w r"
    using finished_region [OF f ok t, of r] pos False by auto
  then show ?thesis using False sha file_at_region [of pk r]
    by (simp add: region_errors_def regions_get open_package_def)
qed

section \<open>Totals and index of a plan\<close>

lemma planned_totals:
  assumes plan: "plan_package scan precision features alignment revision meth profile whole = Inr (wr_plan w)"
    and ok: "scan_ok scan" "map_ok (plan_map precision)" "writer_ok w"
  shows "totals_ok w" and "0 \<le> region_limit w r"
proof -
  let ?p = "wr_plan w" and ?t = "pm_totals (bp_manifest (wr_plan w))"
  obtain experts lay ple0 where
    e: "plan_experts scan (plan_map precision) alignment meth profile = Inr (experts, lay)" "bp_experts ?p = experts"
      "pm_expert_layout (bp_manifest ?p) = lay" and
    d: "plan_dense scan (plan_map precision) features meth profile (bp_ple ?p) = Inr (bp_dense ?p, pt_dense_bytes ?t)" and
    te: "pt_expert_bytes ?t = (case lay of None \<Rightarrow> 0 | Some l \<Rightarrow> el_total_bytes l)" and
    tp: "case bp_ple ?p of None \<Rightarrow> pt_ple_bytes ?t = 0 | Some q \<Rightarrow> pp_total_bytes q = Inr (pt_ple_bytes ?t)"
    by (rule plan_package_parts [OF plan])
  have dense: "pt_dense_bytes ?t \<noteq> 0 \<longrightarrow> bp_dense ?p \<noteq> []" "0 \<le> pt_dense_bytes ?t"
  proof -
    obtain sel where "place_dense sel 0 = (bp_dense ?p, pt_dense_bytes ?t)" by (rule plan_dense_parts [OF d])
    then show "pt_dense_bytes ?t \<noteq> 0 \<longrightarrow> bp_dense ?p \<noteq> []" using place_dense_none by force
    show "0 \<le> pt_dense_bytes ?t" by (rule blob_ok_end [OF plan_dense_ok(1) [OF d ok(1,2)]])
  qed
  have experts: "pt_expert_bytes ?t = (if has_bank w then bank_limit w else 0)" "pt_expert_bytes ?t \<noteq> 0 \<longrightarrow> bp_experts ?p \<noteq> []"
    "0 \<le> pt_expert_bytes ?t"
  proof -
    show b: "pt_expert_bytes ?t = (if has_bank w then bank_limit w else 0)"
      using te e(3) by (auto simp: has_bank_def bank_limit_def bank_layout_def split: option.splits)
    have "pt_expert_bytes ?t = int (length experts) * rl_stride (el_record l)" if "lay = Some l" for l
      using te that planned_expert_count [of scan "plan_map precision" alignment meth profile experts l] e(1)
      by (simp add: el_total_bytes_def)
    moreover have "0 \<le> rl_stride (el_record l)" if "lay = Some l" for l
      using ok(3) that e(3) record_ok_payload [of "el_record l"]
      by (auto simp: writer_ok_def expert_region_ok_def bank_layout_def record_ok_def)
    ultimately show "pt_expert_bytes ?t \<noteq> 0 \<longrightarrow> bp_experts ?p \<noteq> []" "0 \<le> pt_expert_bytes ?t"
      using te e(2) by (cases lay; auto)+
  qed
  have ple: "pt_ple_bytes ?t = (if has_ple w then table_limit w else 0)" "pt_ple_bytes ?t \<noteq> 0 \<longrightarrow> ple_shards ?p \<noteq> []"
    "0 \<le> pt_ple_bytes ?t"
  proof -
    have b: "pt_ple_bytes ?t = table_limit w \<and> (table_limit w \<noteq> 0 \<longrightarrow> ple_shards ?p \<noteq> []) \<and> 0 \<le> table_limit w" if p: "bp_ple ?p = Some q" for q
    proof -
      have po: "ple_region_ok w" using ok(3) p by (simp add: writer_ok_def)
      have q: "ple_of w = q" using p by (simp add: ple_of_def)
      have "pt_ple_bytes ?t = table_limit w" using table_bytes [OF po p] tp p by simp
      moreover have "table_limit w = 0" if "ple_shards ?p = []"
        using po that p by (simp add: table_limit_def table_size_def q ple_region_ok_def ple_shards_def ceil_div_def)
      moreover have "0 \<le> table_limit w"
      proof -
        have r: "row_ok (pp_row q)" "contig 0 (map (\<lambda>s. (pw_first_row s, pw_num_rows s)) (pp_shards q))"
          "pp_total_rows q = sum_list (map pw_num_rows (pp_shards q))" using po q by (simp_all add: ple_region_ok_def)
        have "0 \<le> pp_total_rows q" using contig_nonneg [OF r(2)] r(3) by (simp add: comp_def)
        then have "0 \<le> ceil_div (pp_total_rows q) (pr_rows_per_page (pp_row q))"
          using r(1) by (intro ceil_div_nonneg) (simp_all add: row_ok_def)
        then show ?thesis using page_pos [OF r(1)] by (simp add: table_limit_def table_size_def q)
      qed
      ultimately show ?thesis by blast
    qed
    show "pt_ple_bytes ?t = (if has_ple w then table_limit w else 0)" "pt_ple_bytes ?t \<noteq> 0 \<longrightarrow> ple_shards ?p \<noteq> []"
      "0 \<le> pt_ple_bytes ?t"
      using b tp by (cases "bp_ple ?p"; auto simp: has_ple_def)+
  qed
  show "totals_ok w" using dense experts ple by (simp add: totals_ok_def)
  show "0 \<le> region_limit w r" using dense experts ple by (cases r) (simp_all add: region_limit_def)
qed

lemma planned_index:
  assumes plan: "plan_package scan precision features alignment revision meth profile whole = Inr (wr_plan w)"
    and ix: "materialize_ple_index w = Inr ix"
  shows "\<not> has_ple w \<Longrightarrow> ix = None"
    and "has_ple w \<Longrightarrow> \<exists>i offs vocs mults. ix = Some i \<and> build_ple_index (ple_of w) (pp_ngram_size (ple_of w)) offs vocs mults = Inr i"
proof -
  obtain s where "pm_ple_index (bp_manifest (wr_plan w)) = None" by (rule plan_manifest_parts [OF plan])
  then show "\<not> has_ple w \<Longrightarrow> ix = None" using ix by (simp add: materialize_ple_index_def has_ple_def)
  show "\<exists>i offs vocs mults. ix = Some i \<and> build_ple_index (ple_of w) (pp_ngram_size (ple_of w)) offs vocs mults = Inr i" if "has_ple w"
    using ix that by (fastforce simp: materialize_ple_index_def has_ple_def ple_of_def bindE_Inr_iff split: option.splits)
qed

section \<open>Every check of a finished package\<close>

lemma manifest_fields [simp]:
  "pm_totals (final_manifest w pk ix) = pm_totals (bp_manifest (wr_plan w))" "pm_dense (final_manifest w pk ix) = pm_dense (bp_manifest (wr_plan w))"
  "pm_expert_layout (final_manifest w pk ix) = pm_expert_layout (bp_manifest (wr_plan w))" "pm_ple_index (final_manifest w pk ix) = ix"
  "pm_codecs (final_manifest w pk ix) = pm_codecs (bp_manifest (wr_plan w))" "pm_source (final_manifest w pk ix) = pm_source (bp_manifest (wr_plan w))"
  "pm_source_revision (final_manifest w pk ix) = pm_source_revision (bp_manifest (wr_plan w))"
  "pm_package_version (final_manifest w pk ix) = pm_package_version (bp_manifest (wr_plan w))"
  "pm_complete_model (final_manifest w pk ix) = pm_complete_model (bp_manifest (wr_plan w))"
  by (simp_all add: final_manifest_def)

lemma finished_items:
  assumes f: "finished w pk j ix" and ok: "writer_ok w" and t: "totals_ok w" "no_empty_region (wr_plan w)"
    and pos: "\<And>r. 0 \<le> region_limit w r" and ix: "\<not> has_ple w \<Longrightarrow> ix = None" "has_ple w \<Longrightarrow> \<exists>i. ix = Some i \<and> pi_row i = pp_row (ple_of w)"
  shows "\<exists>n. item_findings (open_package parse pk) (final_manifest w pk ix) (checksums_of j) = Inr (num_work_items (wr_plan w), n, [])"
proof -
  let ?d = "open_package parse pk" and ?m = "final_manifest w pk ix" and ?t = "pm_totals (bp_manifest (wr_plan w))" and ?p = "wr_plan w"
  have op: "open_region ?d ?m (region_name r) = Inr (rd_bytes (region_view r pk))" if "region_limit w r \<noteq> 0" for r
    using finished_region [OF f ok t(1), of r] pos [of r] that open_region_at by fastforce
  note runs = finished_runs [OF f ok]
  note counts = finished_counts [OF f ok]
  let ?f = "\<lambda>r. rd_bytes (region_view r pk)"
  have "\<exists>n. (if pt_dense_bytes ?t = 0 then Inr (0, 0, []) else bindE (open_region ?d ?m ''dense'')
      (\<lambda>f. foldE (check_run DenseNoOffset DenseShort DenseMismatch f) (bj_dense_checksums j) (0, 0, []))) =
      Inr (int (length (bp_dense ?p)), n, [])"
  proof (cases "pt_dense_bytes ?t = 0")
    case True
    then show ?thesis using t(2) by (simp add: no_empty_region_def Let_def)
  next
    case False
    then have "open_region ?d ?m ''dense'' = Inr (?f DENSE_REGION)" using op [of DENSE_REGION] by (simp add: region_limit_def region_name_def)
    then show ?thesis using runs_pass [OF runs(1), of DenseNoOffset DenseShort DenseMismatch 0 0 "[]"] False by (simp add: counts)
  qed
  then obtain n1 where d1: "(if pt_dense_bytes ?t = 0 then Inr (0, 0, []) else bindE (open_region ?d ?m ''dense'')
      (\<lambda>f. foldE (check_run DenseNoOffset DenseShort DenseMismatch f) (bj_dense_checksums j) (0, 0, []))) =
      Inr (int (length (bp_dense ?p)), n1, [])" ..
  let ?k = "int (length (bp_dense ?p))"
  have "\<exists>n. (if pt_expert_bytes ?t = 0 then Inr (?k, n1, []) else bindE (open_region ?d ?m ''experts'')
      (\<lambda>f. foldE (check_run ExpertNoOffset ExpertShort ExpertMismatch f) (bj_expert_checksums j) (?k, n1, []))) =
      Inr (?k + int (length (bp_experts ?p)), n, [])"
  proof (cases "pt_expert_bytes ?t = 0")
    case True
    then have "bp_experts ?p = []" using t(2) ok by (auto simp: no_empty_region_def Let_def writer_ok_def split: if_splits)
    then show ?thesis using True by simp
  next
    case False
    then have "open_region ?d ?m ''experts'' = Inr (?f EXPERT_REGION)" using op [of EXPERT_REGION] by (simp add: region_limit_def region_name_def)
    then show ?thesis using runs_pass [OF runs(2), of ExpertNoOffset ExpertShort ExpertMismatch ?k n1 "[]"] False by (simp add: counts)
  qed
  then obtain n2 where d2: "(if pt_expert_bytes ?t = 0 then Inr (?k, n1, []) else bindE (open_region ?d ?m ''experts'')
      (\<lambda>f. foldE (check_run ExpertNoOffset ExpertShort ExpertMismatch f) (bj_expert_checksums j) (?k, n1, []))) =
      Inr (?k + int (length (bp_experts ?p)), n2, [])" ..
  let ?k2 = "?k + int (length (bp_experts ?p))"
  have "\<exists>n. (case ix of None \<Rightarrow> Inr (?k2, n2, []) | Some i \<Rightarrow> if pt_ple_bytes ?t = 0 then Inr (?k2, n2, [])
         else bindE (open_region ?d ?m ''ple'') (\<lambda>f. foldE (check_shard (pi_row i) f) (bj_ple_checksums j) (?k2, n2, []))) =
      Inr (?k2 + int (length (ple_shards ?p)), n, [])"
  proof (cases "has_ple w")
    case False
    then show ?thesis using ix(1) by (simp add: has_ple_def ple_shards_def)
  next
    case True
    then obtain i where i: "ix = Some i" "pi_row i = pp_row (ple_of w)" using ix(2) by blast
    have ne: "pt_ple_bytes ?t \<noteq> 0" using t(2) True by (simp add: no_empty_region_def Let_def has_ple_def)
    then have "open_region ?d ?m ''ple'' = Inr (?f PLE_REGION)" using op [of PLE_REGION] by (simp add: region_limit_def region_name_def)
    then show ?thesis using shards_pass [OF runs(3), of ?k2 n2 "[]"] ne i by (simp add: counts)
  qed
  then obtain n3 where d3: "(case ix of None \<Rightarrow> Inr (?k2, n2, []) | Some i \<Rightarrow> if pt_ple_bytes ?t = 0 then Inr (?k2, n2, [])
         else bindE (open_region ?d ?m ''ple'') (\<lambda>f. foldE (check_shard (pi_row i) f) (bj_ple_checksums j) (?k2, n2, []))) =
      Inr (?k2 + int (length (ple_shards ?p)), n3, [])" ..
  have total: "?k2 + int (length (ple_shards ?p)) = num_work_items ?p"
    by (simp add: num_work_items_def ple_shards_def split: option.split)
  have "validate_item_checksums ?d ?m (checksums_of j) = Inr (num_work_items ?p, n3, [])"
    unfolding validate_item_checksums_def manifest_fields checksums_of_def package_checksums.simps d1 bindE_simps d2 d3 total ..
  then show ?thesis by (simp add: item_findings_def)
qed

lemma expert_indices:
  assumes plan: "plan_package scan precision features alignment revision meth profile whole = Inr (wr_plan w)" and ok: "writer_ok w"
  shows "expert_names w = expected_experts (bp_manifest (wr_plan w))"
proof -
  obtain experts lay where e: "plan_experts scan (plan_map precision) alignment meth profile = Inr (experts, lay)"
    "bp_experts (wr_plan w) = experts" "pm_expert_layout (bp_manifest (wr_plan w)) = lay"
    by (rule plan_package_parts [OF plan])
  show ?thesis
  proof (cases lay)
    case None
    then show ?thesis using ok e by (simp add: expert_names_def expected_experts_def writer_ok_def)
  next
    case (Some l)
    have r: "expert_region_ok w" "bank_layout w = l" using ok Some e(3) by (simp_all add: writer_ok_def bank_layout_def)
    have "set (map ew_record_index experts) = set [0 .. num_records l - 1]"
    proof (rule covering_indices)
      show "distinct (map ew_record_index experts)" using r(1) e(2) by (simp add: expert_region_ok_def)
      show "int (length (map ew_record_index experts)) = num_records l" using planned_expert_count [OF e(1) [unfolded Some]] by simp
      show "\<forall>x \<in> set (map ew_record_index experts). 0 \<le> x \<and> x < num_records l"
        using r e(2) by (auto simp: expert_region_ok_def)
    qed
    then have "py_str ` ew_record_index ` set experts = py_str ` set [0 .. num_records l - 1]" by simp
    then show ?thesis using Some e(2,3) by (simp add: expert_names_def expected_experts_def image_image)
  qed
qed

lemma finished_journal:
  assumes f: "finished w pk j ix" and m: "pm_dense (bp_manifest (wr_plan w)) = map dense_entry_of (bp_dense (wr_plan w))"
    and e: "expert_names w = expected_experts (bp_manifest (wr_plan w))"
  shows "validate_journal (final_manifest w pk ix) (checksums_of j) j = []"
proof -
  have d: "set (map de_name (pm_dense (final_manifest w pk ix))) = dense_names w"
    by (simp add: m dense_names_def dense_entry_of_def image_image)
  have x: "expected_experts (final_manifest w pk ix) = expert_names w" by (simp add: e) (simp add: expected_experts_def)
  show ?thesis unfolding validate_journal_def Let_def d x
    using finished_names [OF f] by (simp add: checksums_of_def od_same_def)
qed

lemma shard_rows:
  "table_pieces w s = Inr (ps, c) \<Longrightarrow> ic_first_row c = Some (pw_first_row s) \<and> ic_num_rows c = Some (pw_num_rows s)"
  by (auto simp: table_pieces_def shard_pieces_def bindE_Inr_iff at_offsets_iff Let_def)

lemma finished_rows:
  assumes f: "finished w pk j ix" and ok: "writer_ok w" and p: "has_ple w"
  shows "rows_of_plan (ple_of w) (bj_ple_checksums j)"
proof -
  let ?cs = "bj_ple_checksums j"
  have h: "package_held w pk j" "journal_current w j" "all_marked w j" "journal_exact w j" using f by (auto simp: finished_def)
  note rec = held_recorded [OF ok h(1,2)]
  have sh: "ple_shards (wr_plan w) = pp_shards (ple_of w)" using p by (auto simp: ple_shards_def ple_of_def has_ple_def)
  have ent: "\<exists>s \<in> set (pp_shards (ple_of w)). py_str (pw_shard_index s) = n \<and> ic_first_row c = Some (pw_first_row s) \<and>
      ic_num_rows c = Some (pw_num_rows s)" if e: "(n, c) \<in> set ?cs" for n c
  proof -
    have "n \<in> set (od_keys ?cs)" using e by (force simp: od_keys_def)
    then obtain s where s: "s \<in> set (ple_shards (wr_plan w))" "py_str (pw_shard_index s) = n"
      unfolding finished_names(5) [OF f] by (auto simp: shard_names_def)
    have "od_get ?cs n = Some c" using h(4) od_entry [OF _ e] by (simp add: journal_exact_def exact_def)
    then have "recorded (region_view PLE_REGION pk) (table_pieces w s) (Some c)" using rec h(3) s by (auto simp: all_marked_def)
    then show ?thesis using s shard_rows by (auto simp: recorded_def sh)
  qed
  have ranges: "checksum_ranges ?cs = map (\<lambda>(n, c). (the (ic_first_row c), the (ic_first_row c) + the (ic_num_rows c), ''PLE source shard '' @ n)) ?cs"
    if "\<forall>(n, c) \<in> set cs. ic_first_row c \<noteq> None \<and> ic_num_rows c \<noteq> None" "cs = ?cs" for cs
    using that(1) unfolding that(2) [symmetric] checksum_ranges_def
    by (induction cs) (auto simp: map_filter_simps)
  have some: "\<forall>(n, c) \<in> set ?cs. ic_first_row c \<noteq> None \<and> ic_num_rows c \<noteq> None" using ent by fastforce
  note R = ranges [OF some refl]
  have dist: "distinct (checksum_ranges ?cs)"
  proof -
    have "map (snd \<circ> snd) (checksum_ranges ?cs) = map (\<lambda>n. ''PLE source shard '' @ n) (od_keys ?cs)"
      unfolding R by (auto simp: od_keys_def)
    moreover have "distinct (map (\<lambda>n. ''PLE source shard '' @ n) (od_keys ?cs))"
      using h(4) by (simp add: journal_exact_def exact_def od_ok_def distinct_map inj_on_def)
    ultimately show ?thesis by (metis distinct_map)
  qed
  have po: "ple_region_ok w" using ok p by (simp add: writer_ok_def has_ple_def)
  have dist': "distinct (map (span_of pw_first_row pw_num_rows shard_label) (pp_shards (ple_of w)))"
    using po by (auto simp: ple_region_ok_def distinct_map inj_on_def span_of_def shard_label_def)
  have "set (checksum_ranges ?cs) = set (map (span_of pw_first_row pw_num_rows shard_label) (pp_shards (ple_of w)))"
  proof
    show "set (checksum_ranges ?cs) \<subseteq> set (map (span_of pw_first_row pw_num_rows shard_label) (pp_shards (ple_of w)))"
      unfolding R using ent by (fastforce simp: span_of_def shard_label_def)
    show "set (map (span_of pw_first_row pw_num_rows shard_label) (pp_shards (ple_of w))) \<subseteq> set (checksum_ranges ?cs)"
    proof
      fix x assume "x \<in> set (map (span_of pw_first_row pw_num_rows shard_label) (pp_shards (ple_of w)))"
      then obtain s where s: "s \<in> set (pp_shards (ple_of w))" "x = span_of pw_first_row pw_num_rows shard_label s" by auto
      then have "py_str (pw_shard_index s) \<in> set (od_keys ?cs)" unfolding finished_names(5) [OF f] by (auto simp: shard_names_def sh)
      then obtain c where c: "(py_str (pw_shard_index s), c) \<in> set ?cs" by (auto simp: od_keys_def)
      obtain s' where "s' \<in> set (pp_shards (ple_of w))" "pw_shard_index s' = pw_shard_index s"
        "ic_first_row c = Some (pw_first_row s')" "ic_num_rows c = Some (pw_num_rows s')" using ent [OF c] by auto
      moreover from this have "s' = s" using po s(1) by (auto simp: ple_region_ok_def distinct_map dest: inj_onD)
      ultimately show "x \<in> set (checksum_ranges ?cs)" unfolding R s(2)
        using c by (force simp: span_of_def shard_label_def)
    qed
  qed
  then have "mset (checksum_ranges ?cs) = mset (map (span_of pw_first_row pw_num_rows shard_label) (pp_shards (ple_of w)))"
    using set_eq_iff_mset_eq_distinct [OF dist dist'] by blast
  moreover have "checksum_row_errors ?cs = []" using some by (fastforce simp: checksum_row_errors_def split: option.split)
  ultimately show ?thesis by (simp add: rows_of_plan_def)
qed

section \<open>The builder and the validator agree\<close>

lemma vocabulary_dense:
  assumes same: "pm_dense m = pm_dense m'"
  shows "validate_vocabulary m c = validate_vocabulary m' c"
  unfolding validate_vocabulary_def same ..

lemma finished_accepted:
  assumes plan: "plan_package scan precision features alignment revision meth profile whole = Inr (wr_plan w)"
    and ok: "scan_ok scan" "map_ok (plan_map precision)" "0 < alignment" and w: "writer_ok w"
    and ne: "no_empty_region (wr_plan w)" and f: "finished w pk j ix" and sha': "\<forall>b. wr_file_sha w b \<noteq> []"
    and config: "rd_asset (wr_reader w) ''config.json'' = Some payload" "parse payload = Inr config"
      "vh_config h config = sc_config_sha256 scan" "pm_source_revision (bp_manifest (wr_plan w)) \<noteq> Some []"
      "validate_vocabulary (bp_manifest (wr_plan w)) config = []"
    and heads': "\<forall>i. ix = Some i \<longrightarrow> head_errors i = []"
  shows "\<exists>report. validate h (open_package parse pk) (Some FAST) = Inr report \<and> vr_is_valid report \<and>
    vr_items_checked report = num_work_items (wr_plan w)"
proof -
  let ?d = "open_package parse pk" and ?m = "final_manifest w pk ix" and ?cs = "checksums_of j" and ?p = "wr_plan w"
  have sha: "wr_file_sha w b \<noteq> []" for b using sha' by simp
  have heads: "head_errors i = []" if "ix = Some i" for i using heads' that by simp
  have mat: "materialize_ple_index w = Inr ix" "bj_finished j" using f by (auto simp: finished_def)
  note t = planned_totals [OF plan ok(1,2) w]
  note pix = planned_index [OF plan mat(1)]
  note o = opened [OF f config(1), where parse = parse]
  obtain experts lay ple0 where dense: "pm_dense (bp_manifest ?p) = map dense_entry_of (bp_dense ?p)"
    and ple: "plan_ple scan (plan_map precision) profile = Inr ple0" "bp_ple ?p = map_option (name_ple_codec meth) ple0"
    and tp: "case bp_ple ?p of None \<Rightarrow> pt_ple_bytes (pm_totals (bp_manifest ?p)) = 0
       | Some q \<Rightarrow> pp_total_bytes q = Inr (pt_ple_bytes (pm_totals (bp_manifest ?p)))"
    by (rule plan_package_parts [OF plan])
  obtain s where s: "pm_package_version (bp_manifest ?p) = PACKAGE_VERSION" "pm_source (bp_manifest ?p) = Some s"
    "pm_source_revision (bp_manifest ?p) = Some (sv_revision s)" "sv_config_sha256 s = sc_config_sha256 scan"
    and whole: "pm_complete_model (bp_manifest ?p) \<Longrightarrow> profile \<noteq> ''canary''"
    by (rule plan_manifest_parts [OF plan], rule that) (assumption | blast)+
  have prov: "provenance_errors h ?m config = []" using s config by (simp add: provenance_errors_def)
  have regions: "concat (map (region_errors ?d ?m) (expected_regions ?m)) = []"
    using finished_regions [OF f w t(1) sha t(2), of parse DENSE_REGION] finished_regions [OF f w t(1) sha t(2), of parse EXPERT_REGION]
      finished_regions [OF f w t(1) sha t(2), of parse PLE_REGION]
    by (simp add: expected_regions_def region_name_def region_limit_def)
  have d: "validate_dense_layout ?m = []" by (rule planned_dense_layout [OF plan ok(1,2)]) simp_all
  have e: "validate_expert_layout ?m = []"
  proof (rule planned_expert_layout [OF plan])
    show "record_ok (el_record l)" if "pm_expert_layout (bp_manifest ?p) = Some l" for l
      using w that by (simp add: writer_ok_def expert_region_ok_def bank_layout_def)
  qed (use ok(3) ne in \<open>auto simp: no_empty_region_def Let_def\<close>)
  have ixrow: "\<exists>i. ix = Some i \<and> pi_row i = pp_row (ple_of w)" if "has_ple w" using pix(2) [OF that] built_index(3) by blast
  have c: "validate_codecs ?m = []"
  proof (rule planned_codecs [OF plan ok(1,2)])
    show "\<exists>q. bp_ple ?p = Some q \<and> pi_row i = pp_row q" if "pm_ple_index ?m = Some i" for i
      using that pix(1) ixrow by (cases "has_ple w") (auto simp: has_ple_def ple_of_def)
  qed simp_all
  have l: "validate_ple_layout ?d ?m ?cs = Inr []"
  proof (cases "has_ple w")
    case False
    then show ?thesis using pix(1) t(1) by (simp add: validate_ple_layout_def totals_ok_def)
  next
    case True
    obtain i offs vocs mults where i: "ix = Some i" "build_ple_index (ple_of w) (pp_ngram_size (ple_of w)) offs vocs mults = Inr i"
      using pix(2) [OF True] by blast
    obtain q0 where q0: "ple0 = Some q0" "ple_of w = name_ple_codec meth q0" using True ple(2) by (auto simp: has_ple_def ple_of_def)
    have po: "ple_region_ok w" using w True by (simp add: writer_ok_def has_ple_def)
    have r: "ple_range_errors ?m (pc_ple ?cs) i = []"
      by (rule planned_ranges [OF ple(1) [unfolded q0(1)] ok(1) _ _ _ i(2)])
        (use finished_rows [OF f w True] whole in \<open>simp_all add: q0(2) checksums_of_def\<close>)
    have "pt_ple_bytes (pm_totals ?m) \<noteq> 0" using ne True by (simp add: no_empty_region_def Let_def has_ple_def)
    moreover have "pi_total_bytes i = Inr (pt_ple_bytes (pm_totals ?m))"
      using tp True built_index [OF i(2)] by (auto simp: has_ple_def ple_of_def pi_total_bytes_def pp_total_bytes_def)
    moreover have "row_ok (pi_row i)" using built_index(3) [OF i(2)] po by (simp add: ple_region_ok_def)
    ultimately show ?thesis using planned_ple_layout [OF r heads [OF i(1)] _ o(6) [OF i(1)]] i(1) by simp
  qed
  obtain n where items: "item_findings ?d ?m ?cs = Inr (num_work_items ?p, n, [])"
    using finished_items [OF f w t(1) ne t(2) pix(1) ixrow] by blast
  have j: "validate_journal ?m ?cs j = []" by (rule finished_journal [OF f dense expert_indices [OF plan w]])
  have v: "validate_vocabulary ?m config = []" using config(5) vocabulary_dense [of ?m "bp_manifest ?p"] by simp
  have "validate_parsed h ?d FAST ?m ?cs j config = Inr \<lparr>vr_is_valid = True, vr_mode = FAST,
      vr_items_checked = num_work_items ?p, vr_bytes_checked = n, vr_errors = [], vr_no_generation_config = \<not> vd_generation ?d\<rparr>"
    unfolding validate_parsed_def l items bindE_simps prod.case prov regions d e c v j using mat(2) by simp
  then show ?thesis using o(1-5) config(2) by (simp add: validate_def)
qed


section \<open>The verdict at a small package\<close>

text \<open>A writer of the small dense plan whose local checkpoint holds ones.\<close>

definition demo_ones :: "tensor_address \<Rightarrow> tensor" where
  "demo_ones a = \<lparr>tn_dtype = ''float16'', tn_shape = ta_shape a, tn_data = replicate (nat (ta_num_params a)) 1\<rparr>"

definition demo_verified :: writer where
  "demo_verified = demo_planned\<lparr>wr_reader := demo_reader\<lparr>rd_read_tensor := (\<lambda>a. Inr (demo_ones a))\<rparr>,
     wr_file_sha := (\<lambda>_. ''s'')\<rparr>"

definition demo_config :: json_config where
  "demo_config = JsonConfig [(''vocab_size'', JInt 4)] None"

definition demo_hashes :: hashes where
  "demo_hashes = \<lparr>vh_config = (\<lambda>_. []), vh_file = (\<lambda>_. ''s'')\<rparr>"

lemma demo_verified_fields:
  "wr_plan demo_verified = demo_plan" "wr_download_workers demo_verified = 4" "wr_resume demo_verified"
  "rd_is_local (wr_reader demo_verified)" "rd_read_tensor (wr_reader demo_verified) = (\<lambda>a. Inr (demo_ones a))"
  "rd_asset (wr_reader demo_verified) = (\<lambda>_. Some [])" "wr_file_sha demo_verified = (\<lambda>_. ''s'')"
  "wr_budget demo_verified = wr_budget demo_writer" "wr_method demo_verified = wr_method demo_writer" "wr_torch demo_verified = wr_torch demo_writer"
  by (simp_all add: demo_verified_def demo_planned_def demo_writer_def demo_reader_def)

lemma demo_plan_facts:
  "no_empty_region demo_plan" "bp_experts demo_plan = []" "bp_ple demo_plan = None" "pm_ple_index (bp_manifest demo_plan) = None" "\<not> isl (preflight_disk_space demo_plan 100000 0)"
  "validate_vocabulary (bp_manifest demo_plan) demo_config = []" "pm_source_revision (bp_manifest demo_plan) \<noteq> Some []"
  by code_simp+

lemma demo_encoded:
  assumes "i \<in> set (bp_dense demo_plan)"
  shows "\<not> isl (dense_pieces demo_verified i)"
proof -
  have "list_all (\<lambda>i. \<not> isl (encode_dense demo_writer i (demo_ones (dw_address i))) \<and> 0 \<le> dw_byte_offset i) (bp_dense demo_plan)"
    by code_simp
  then have "\<not> isl (encode_dense demo_writer i (demo_ones (dw_address i)))" "0 \<le> dw_byte_offset i" using assms
    by (auto simp: list_all_iff)
  moreover have "encode_dense demo_verified i t = encode_dense demo_writer i t" for t
    by (simp add: encode_dense_def quantize_weight_def demo_verified_fields)
  ultimately show ?thesis by (intro pieces_total(1)) (simp_all add: demo_verified_fields)
qed

lemma demo_verified_ready: "ready demo_verified 100000 demo_fresh"
  using demo_plan_facts demo_encoded
  by (simp add: ready_def encodable_def feed_fits_def demo_verified_fields ple_shards_def materialize_ple_index_def
    region_sizes_def demo_fresh_def)


end
