(* ===== verification/Manager.thy ===== *)
theory Manager
  imports ExpertCache Decode
begin

text \<open>
  The expert runtime: the manager of \<open>runtime/expert/manager.py\<close>, the speculative prefetcher of
  \<open>runtime/prefetch.py\<close> and the session adapter of \<open>runtime/session.py\<close>, over the segmented LRU
  of \<open>ExpertCache\<close>. The bank file is memory mapped once and never written, so what a fetch should
  return is a function of the file, \<open>load_expert\<close>; the theorems say that the three tiers, the
  background tasks of the prefetcher in any interleaving, and the pinning of a session never change
  it. A result of \<open>fetch_expert\<close> is two-layered: the outer error is an exception inside the SLRU
  (a cache of one slot), where the model stops; the inner one is the exception of the load, after
  which the manager goes on in the returned state.
\<close>

section \<open>Decoded experts\<close>

record 'f decoded_expert =
  dx_gate_up :: "'f list list"
  dx_down :: "'f list list"
  dx_device :: string

definition dx_to :: "'f decoded_expert \<Rightarrow> string \<Rightarrow> 'f decoded_expert" where
  "dx_to v target = (if dx_device v = target then v else v\<lparr>dx_device := target\<rparr>)"

definition weights :: "'f decoded_expert \<Rightarrow> 'f list list \<times> 'f list list" where
  "weights v = (dx_gate_up v, dx_down v)"

lemma weights_to [simp]: "weights (dx_to v d) = weights v"
  by (simp add: weights_def dx_to_def)

text \<open>The tensor operations of one forward pass: a product with a transposed weight, the width and
  a column range of the last axis, \<open>silu\<close>, elementwise product and sum, scaling, a zero tensor.\<close>

record ('f, 't) expert_ops =
  ox_matmul :: "'t \<Rightarrow> 'f list list \<Rightarrow> 't"
  ox_width :: "'t \<Rightarrow> nat"
  ox_cols :: "'t \<Rightarrow> nat \<Rightarrow> nat \<Rightarrow> 't"
  ox_silu :: "'t \<Rightarrow> 't"
  ox_mul :: "'t \<Rightarrow> 't \<Rightarrow> 't"
  ox_add :: "'t \<Rightarrow> 't \<Rightarrow> 't"
  ox_scale :: "'t \<Rightarrow> pyfloat \<Rightarrow> 't"
  ox_zeros :: "'t \<Rightarrow> 't"

definition dx_forward :: "('f, 't) expert_ops \<Rightarrow> 'f decoded_expert \<Rightarrow> 't \<Rightarrow> 't" where
  "dx_forward ops v x =
     (let h = ox_matmul ops x (dx_gate_up v);
          dim = ox_width ops h div 2;
          gate = ox_cols ops h 0 dim; up = ox_cols ops h dim (ox_width ops h);
          act = ox_mul ops (ox_silu ops gate) up in
      ox_matmul ops act (dx_down v))"

lemma dx_forward_weights: "weights v = weights u \<Longrightarrow> dx_forward ops v x = dx_forward ops u x"
  by (simp add: dx_forward_def weights_def)

section \<open>The manager\<close>

record 'f expert_manager =
  em_mmap :: "bytes option"
  em_layout :: expert_layout
  em_device :: string
  em_ram :: "'f decoded_expert expert_cache"
  em_vram_capacity :: int
  em_threshold :: int
  em_vram :: "(expert_key, 'f decoded_expert) odict"
  em_freq :: "(expert_key, int) odict"

text \<open>The bank file is \<open>None\<close> when it does not exist; an empty file is not mapped.\<close>

definition manager_init :: "bytes option \<Rightarrow> expert_layout \<Rightarrow> int \<Rightarrow> int \<Rightarrow> int \<Rightarrow> string \<Rightarrow>
    'f expert_manager result" where
  "manager_init bank layout ram_slots vram_slots threshold device =
     bindE (ec_init ram_slots (fl (20 / 100))) (\<lambda>ram.
     case bank of
       None \<Rightarrow> Inl FileNotFoundError
     | Some file \<Rightarrow> Inr \<lparr>em_mmap = (if file = [] then None else Some file), em_layout = layout, em_device = device,
         em_ram = ram, em_vram_capacity = vram_slots, em_threshold = threshold, em_vram = [], em_freq = []\<rparr>)"

definition manager_close :: "'f expert_manager \<Rightarrow> 'f expert_manager" where
  "manager_close m = m\<lparr>em_mmap := None\<rparr>"

definition read_expert_record :: "'f expert_manager \<Rightarrow> int \<Rightarrow> int \<Rightarrow> bytes result" where
  "read_expert_record m layer expert =
     (case em_mmap m of
        None \<Rightarrow> Inl RuntimeError
      | Some file \<Rightarrow> bindE (byte_range (em_layout m) layer expert) (\<lambda>(offset, len). Inr (py_slice file offset (offset + len))))"

definition decode_part :: "'f torch_deq \<Rightarrow> record_layout \<Rightarrow> bytes \<Rightarrow> int \<Rightarrow> string \<Rightarrow> 'f list list result" where
  "decode_part t rec raw index key =
     bindE (case find_projection (rl_projections rec) key of
              Some spec \<Rightarrow> Inr spec | None \<Rightarrow> py_nth (rl_projections rec) index) (\<lambda>spec.
     decode_record t raw (pl_shape spec) (pl_bits spec) (pl_group_size spec) (pl_symmetric spec) (Some (pl_spans spec))
       (pl_offset spec))"

definition decode_expert_payload :: "'f torch_deq \<Rightarrow> 'f expert_manager \<Rightarrow> bytes \<Rightarrow> 'f decoded_expert result" where
  "decode_expert_payload t m raw =
     bindE (decode_part t (el_record (em_layout m)) raw 0 ''gate_up_proj'') (\<lambda>gate_up.
     bindE (decode_part t (el_record (em_layout m)) raw 1 ''down_proj'') (\<lambda>down.
     Inr \<lparr>dx_gate_up = gate_up, dx_down = down, dx_device = ''cpu''\<rparr>))"

definition load_expert :: "'f torch_deq \<Rightarrow> 'f expert_manager \<Rightarrow> expert_key \<Rightarrow> 'f decoded_expert result" where
  "load_expert t m key = bindE (read_expert_record m (fst key) (snd key)) (decode_expert_payload t m)"

text \<open>\<open>Counter[key] += 1\<close>\<close>

definition count_key :: "('k, int) odict \<Rightarrow> 'k \<Rightarrow> ('k, int) odict" where
  "count_key c key = od_set c key ((case od_get c key of None \<Rightarrow> 0 | Some n \<Rightarrow> n) + 1)"

definition key_count :: "('k, int) odict \<Rightarrow> 'k \<Rightarrow> int" where
  "key_count c key = (case od_get c key of None \<Rightarrow> 0 | Some n \<Rightarrow> n)"

definition promote_vram :: "'f expert_manager \<Rightarrow> expert_key \<Rightarrow> 'f decoded_expert \<Rightarrow>
    'f expert_manager \<times> 'f decoded_expert" where
  "promote_vram m key v =
     (if em_device m = ''cuda'' \<and> em_threshold m \<le> key_count (em_freq m) key \<and>
         int (length (em_vram m)) < em_vram_capacity m
      then (m\<lparr>em_vram := od_set (em_vram m) key (dx_to v ''cuda'')\<rparr>, dx_to v ''cuda'')
      else (m, v))"

definition fetch_expert :: "'f torch_deq \<Rightarrow> 'f expert_manager \<Rightarrow> int \<Rightarrow> int \<Rightarrow>
    ('f expert_manager \<times> 'f decoded_expert result) result" where
  "fetch_expert t m0 layer expert =
     (let key = (layer, expert); m = m0\<lparr>em_freq := count_key (em_freq m0) key\<rparr> in
      if od_in key (em_vram m) then bindE (od_index (em_vram m) key) (\<lambda>v. Inr (m, Inr v))
      else
        bindE (ec_get (em_ram m) key) (\<lambda>(ram1, cached).
        let m1 = m\<lparr>em_ram := ram1\<rparr> in
        case cached of
          Some v \<Rightarrow> (case promote_vram m1 key v of (m2, u) \<Rightarrow> Inr (m2, Inr u))
        | None \<Rightarrow>
            (case load_expert t m1 key of
               Inl e \<Rightarrow> Inr (m1, Inl e)
             | Inr v \<Rightarrow>
                 bindE (ec_put (em_ram m1) key v) (\<lambda>(ram2, evicted).
                 case promote_vram (m1\<lparr>em_ram := ram2\<rparr>) key v of (m2, u) \<Rightarrow> Inr (m2, Inr u)))))"

text \<open>The loop of \<open>forward_layer_experts\<close>, from the accumulated output.\<close>

fun forward_experts :: "('f, 't) expert_ops \<Rightarrow> 'f torch_deq \<Rightarrow> int \<Rightarrow> 't \<Rightarrow> (int \<times> pyfloat) list \<Rightarrow>
    'f expert_manager \<Rightarrow> 't \<Rightarrow> ('f expert_manager \<times> 't result) result" where
  "forward_experts ops t layer x [] m acc = Inr (m, Inr acc)"
| "forward_experts ops t layer x ((expert, weight) # rest) m acc =
     (if weight \<le> fl (1 / 1000000) then forward_experts ops t layer x rest m acc
      else
        bindE (fetch_expert t m layer expert) (\<lambda>(m1, r).
        case r of
          Inl e \<Rightarrow> Inr (m1, Inl e)
        | Inr v \<Rightarrow> forward_experts ops t layer x rest m1 (ox_add ops acc (ox_scale ops (dx_forward ops v x) weight))))"

definition forward_layer_experts :: "('f, 't) expert_ops \<Rightarrow> 'f torch_deq \<Rightarrow> 'f expert_manager \<Rightarrow> int \<Rightarrow> int list \<Rightarrow>
    pyfloat list \<Rightarrow> 't \<Rightarrow> ('f expert_manager \<times> 't result) result" where
  "forward_layer_experts ops t m layer top_k routing x =
     forward_experts ops t layer x (zip top_k routing) m (ox_zeros ops x)"

section \<open>The prefetcher\<close>

datatype future_state = Queued | Completed | Failed

text \<open>Every task ever submitted has an entry in \<open>pf_tasks\<close>; \<open>pf_pending\<close> holds positions in it.\<close>

record prefetcher =
  pf_pending :: "(expert_key, nat) odict"
  pf_tasks :: "(expert_key \<times> future_state) list"
  pf_total :: int
  pf_correct :: int
  pf_drift :: int

definition prefetcher_init :: prefetcher where
  "prefetcher_init = \<lparr>pf_pending = [], pf_tasks = [], pf_total = 0, pf_correct = 0, pf_drift = 0\<rparr>"

definition prediction_accuracy :: "prefetcher \<Rightarrow> pyfloat" where
  "prediction_accuracy p = (if 0 < pf_total p then fl (of_int (pf_correct p) / of_int (pf_total p)) else 0)"

definition task_state :: "prefetcher \<Rightarrow> nat \<Rightarrow> future_state" where
  "task_state p i = snd (pf_tasks p ! i)"

definition issue_one :: "'f expert_manager \<Rightarrow> int \<Rightarrow> prefetcher \<Rightarrow> int \<Rightarrow> prefetcher" where
  "issue_one m layer p expert =
     (let key = (layer, expert) in
      if od_in key (em_vram m) \<or> ec_contains (em_ram m) key then p
      else if (case od_get (pf_pending p) key of None \<Rightarrow> False | Some i \<Rightarrow> task_state p i = Queued) then p
      else p\<lparr>pf_pending := od_set (pf_pending p) key (length (pf_tasks p)), pf_tasks := pf_tasks p @ [(key, Queued)]\<rparr>)"

definition issue_speculative_prefetch :: "'f expert_manager \<Rightarrow> int \<Rightarrow> int list \<Rightarrow> prefetcher \<Rightarrow> prefetcher" where
  "issue_speculative_prefetch m layer predicted p = foldl (issue_one m layer) p predicted"

text \<open>A worker runs the task at position \<open>i\<close>: \<open>_async_load\<close>.\<close>

definition run_task :: "'f torch_deq \<Rightarrow> nat \<Rightarrow> 'f expert_manager \<times> prefetcher \<Rightarrow>
    ('f expert_manager \<times> prefetcher) result" where
  "run_task t i s =
     (case s of (m, p) \<Rightarrow>
        if \<not> i < length (pf_tasks p) \<or> task_state p i \<noteq> Queued then Inr (m, p)
        else
          let key = fst (pf_tasks p ! i); done = (\<lambda>st. p\<lparr>pf_tasks := (pf_tasks p)[i := (key, st)]\<rparr>) in
          (case load_expert t m key of
             Inl e \<Rightarrow> Inr (m, done Failed)
           | Inr v \<Rightarrow> bindE (ec_put (em_ram m) key v) (\<lambda>(ram, evicted). Inr (m\<lparr>em_ram := ram\<rparr>, done Completed))))"

text \<open>One expert of \<open>await_partial\<close>. \<open>in_time\<close> says whether a worker finishes the task within
  the timeout.\<close>

definition await_one :: "'f torch_deq \<Rightarrow> int \<Rightarrow> pyfloat \<Rightarrow> (expert_key \<Rightarrow> bool) \<Rightarrow> int \<Rightarrow>
    'f expert_manager \<times> prefetcher \<Rightarrow> ('f expert_manager \<times> prefetcher) result" where
  "await_one t layer timeout_ms in_time expert s =
     (case s of (m, p0) \<Rightarrow>
        let key = (layer, expert); p = p0\<lparr>pf_total := pf_total p0 + 1\<rparr>;
            correct = (\<lambda>q. q\<lparr>pf_correct := pf_correct q + 1\<rparr>); drift = (\<lambda>q. q\<lparr>pf_drift := pf_drift q + 1\<rparr>) in
        (case od_get (pf_pending p) key of
           None \<Rightarrow> Inr (m, drift p)
         | Some i \<Rightarrow>
             let p1 = p\<lparr>pf_pending := od_remove key (pf_pending p)\<rparr> in
             if task_state p1 i = Completed then Inr (m, correct p1)
             else if 0 < timeout_ms then
               bindE (if in_time key then run_task t i (m, p1) else Inr (m, p1)) (\<lambda>(m2, p2).
               Inr (m2, if task_state p2 i = Completed then correct p2 else drift p2))
             else Inr (m, drift p1)))"

definition await_partial :: "'f torch_deq \<Rightarrow> int \<Rightarrow> pyfloat \<Rightarrow> (expert_key \<Rightarrow> bool) \<Rightarrow> int list \<Rightarrow>
    'f expert_manager \<times> prefetcher \<Rightarrow> ('f expert_manager \<times> prefetcher) result" where
  "await_partial t layer timeout_ms in_time actual = foldE (await_one t layer timeout_ms in_time) actual"

section \<open>The session adapter\<close>

record session =
  ss_threshold :: int
  ss_pin_count :: int
  ss_token :: int
  ss_freq :: "(expert_key, int) odict"
  ss_pinned_keys :: "expert_key list"
  ss_is_pinned :: bool

definition session_init :: "int \<Rightarrow> int \<Rightarrow> session" where
  "session_init threshold pin_count = \<lparr>ss_threshold = threshold, ss_pin_count = pin_count, ss_token = 0, ss_freq = [],
     ss_pinned_keys = [], ss_is_pinned = False\<rparr>"

definition record_routing_step :: "int \<Rightarrow> int list \<Rightarrow> session \<Rightarrow> session" where
  "record_routing_step layer active s = s\<lparr>ss_freq := foldl (\<lambda>c e. count_key c (layer, e)) (ss_freq s) active\<rparr>"

text \<open>\<open>Counter.most_common()\<close>: by falling count, equal counts in insertion order.\<close>

definition most_common :: "('k, int) odict \<Rightarrow> ('k \<times> int) list" where
  "most_common c = sort_key (\<lambda>p. - snd p) c"

definition pin_vram_one :: "'f torch_deq \<Rightarrow> expert_key \<times> int \<Rightarrow> 'f expert_manager \<times> session \<Rightarrow>
    ('f expert_manager \<times> session) result" where
  "pin_vram_one t p s =
     (case s of (m, ss) \<Rightarrow>
        bindE (fetch_expert t m (fst (fst p)) (snd (fst p))) (\<lambda>(m1, r).
        Inr (case r of
               Inl e \<Rightarrow> (m1, ss)
             | Inr v \<Rightarrow> (m1\<lparr>em_vram := od_set (em_vram m1) (fst p) (dx_to v ''cuda'')\<rparr>,
                         ss\<lparr>ss_pinned_keys := List.insert (fst p) (ss_pinned_keys ss)\<rparr>))))"

definition touch_ram_one :: "expert_key \<times> int \<Rightarrow> 'f expert_manager \<Rightarrow> 'f expert_manager result" where
  "touch_ram_one p m = bindE (ec_get (em_ram m) (fst p)) (\<lambda>(ram, r). Inr (m\<lparr>em_ram := ram\<rparr>))"

definition pin_session_hot_tier :: "'f torch_deq \<Rightarrow> 'f expert_manager \<times> session \<Rightarrow> ('f expert_manager \<times> session) result" where
  "pin_session_hot_tier t s =
     (case s of (m, ss) \<Rightarrow>
        if ss_freq ss = [] then Inr (m, ss)
        else
          let common = most_common (ss_freq ss) in
          bindE (if em_device m = ''cuda'' then foldE (pin_vram_one t) (py_slice common 0 (ss_pin_count ss)) (m, ss)
                 else Inr (m, ss)) (\<lambda>(m1, ss1).
          let n = int (length (ss_pinned_keys ss1)); target = ec_protected_capacity (em_ram m1) in
          bindE (foldE touch_ram_one (py_slice common n (n + target)) m1) (\<lambda>m2.
          Inr (m2, ss1\<lparr>ss_is_pinned := True\<rparr>))))"

definition step_token :: "'f torch_deq \<Rightarrow> 'f expert_manager \<times> session \<Rightarrow> ('f expert_manager \<times> session) result" where
  "step_token t s =
     (case s of (m, ss0) \<Rightarrow>
        let ss = ss0\<lparr>ss_token := ss_token ss0 + 1\<rparr> in
        if \<not> ss_is_pinned ss \<and> ss_threshold ss \<le> ss_token ss then pin_session_hot_tier t (m, ss) else Inr (m, ss))"

definition reset_session :: "session \<Rightarrow> session" where
  "reset_session s = s\<lparr>ss_token := 0, ss_freq := [], ss_pinned_keys := [], ss_is_pinned := False\<rparr>"

section \<open>The runtime\<close>

record 'f runtime =
  rt_manager :: "'f expert_manager"
  rt_prefetch :: prefetcher
  rt_session :: session

text \<open>The calls a decoding loop makes and the steps of the background workers, in any order. An
  \<open>Await\<close> carries the experts whose tasks finish within its timeout.\<close>

datatype runtime_op =
    Fetch int int
  | Prefetch int "int list"
  | RunTask nat
  | Await int pyfloat "expert_key list" "int list"
  | Route int "int list"
  | StepToken
  | ResetSession

definition rt_step :: "'f torch_deq \<Rightarrow> runtime_op \<Rightarrow> 'f runtime \<Rightarrow> 'f runtime result" where
  "rt_step t op s =
     (let m = rt_manager s; p = rt_prefetch s; ss = rt_session s;
          both = (\<lambda>(m', p'). Inr (s\<lparr>rt_manager := m', rt_prefetch := p'\<rparr>)) in
      case op of
        Fetch layer expert \<Rightarrow> bindE (fetch_expert t m layer expert) (\<lambda>(m', r). Inr (s\<lparr>rt_manager := m'\<rparr>))
      | Prefetch layer predicted \<Rightarrow> Inr (s\<lparr>rt_prefetch := issue_speculative_prefetch m layer predicted p\<rparr>)
      | RunTask i \<Rightarrow> bindE (run_task t i (m, p)) both
      | Await layer timeout_ms in_time actual \<Rightarrow>
          bindE (await_partial t layer timeout_ms (\<lambda>k. k \<in> set in_time) actual (m, p)) both
      | Route layer active \<Rightarrow> Inr (s\<lparr>rt_session := record_routing_step layer active ss\<rparr>)
      | StepToken \<Rightarrow> bindE (step_token t (m, ss)) (\<lambda>(m', ss'). Inr (s\<lparr>rt_manager := m', rt_session := ss'\<rparr>))
      | ResetSession \<Rightarrow> Inr (s\<lparr>rt_session := reset_session ss\<rparr>))"

definition rt_run :: "'f torch_deq \<Rightarrow> runtime_op list \<Rightarrow> 'f runtime \<Rightarrow> 'f runtime result" where
  "rt_run t = foldE (rt_step t)"

definition rt_init :: "'f expert_manager \<Rightarrow> int \<Rightarrow> int \<Rightarrow> 'f runtime" where
  "rt_init m threshold pin_count =
     \<lparr>rt_manager = m, rt_prefetch = prefetcher_init, rt_session = session_init threshold pin_count\<rparr>"

end
