(* ===== verification/ManagerLaws.thy ===== *)
theory ManagerLaws
  imports Manager
begin

text \<open>
  What the expert runtime promises: any sequence of fetches, prefetches, background tasks, awaits
  and session steps leaves every tier coherent with the bank file, so a layer computes what it
  would compute from the file alone, and the residency bounds hold.
\<close>

section \<open>The invariant of the manager\<close>

definition manager_ok :: "'f torch_deq \<Rightarrow> (expert_key \<Rightarrow> 'f decoded_expert result) \<Rightarrow> int \<Rightarrow> 'f expert_manager \<Rightarrow> bool" where
  "manager_ok t ld c m \<longleftrightarrow> load_expert t m = ld \<and> ec_inv (em_ram m) \<and> ec_capacity_slots (em_ram m) = c \<and>
     slru_values.coherent ld (em_ram m) \<and>
     (\<forall>k v. od_get (em_vram m) k = Some v \<longrightarrow> (\<exists>u. ld k = Inr u \<and> weights v = weights u))"

lemma load_expert_cong:
  assumes same: "em_mmap m = em_mmap m'" "em_layout m = em_layout m'"
  shows "load_expert t m = load_expert t m'"
proof -
  have "decode_expert_payload t m = decode_expert_payload t m'" unfolding decode_expert_payload_def same ..
  then show ?thesis unfolding load_expert_def read_expert_record_def same by simp
qed

lemma load_expert_update [simp]:
  "load_expert t (m\<lparr>em_ram := r\<rparr>) = load_expert t m" "load_expert t (m\<lparr>em_vram := v\<rparr>) = load_expert t m"
  "load_expert t (m\<lparr>em_freq := f\<rparr>) = load_expert t m"
  by (rule load_expert_cong; simp)+

lemma manager_okD:
  assumes "manager_ok t ld c m"
  shows "load_expert t m = ld" "ec_inv (em_ram m)" "ec_capacity_slots (em_ram m) = c" "slru_values.coherent ld (em_ram m)"
    "od_get (em_vram m) k = Some v \<Longrightarrow> \<exists>u. ld k = Inr u \<and> weights v = weights u"
  using assms unfolding manager_ok_def by blast+

lemma manager_init_ok:
  assumes "manager_init bank lay c vram thr dev = Inr m" "2 \<le> c" "c \<le> 2 ^ 50"
  shows "manager_ok t (load_expert t m) c m \<and> em_vram m = []"
proof -
  have r: "0 \<le> fl (20 / 100)" "fl (20 / 100) \<le> 1 / 2"
  proof -
    show "0 \<le> fl (20 / 100)" by (simp add: fl_nonneg)
    have "fl (20 / 100) \<le> fl (1 * 2 powi (- 1))" by (rule fl_mono) (simp add: power_int_minus)
    also have "\<dots> = 1 * 2 powi (- 1)" using fl_dyadic [of 1 "- 1"] by simp
    finally show "fl (20 / 100) \<le> 1 / 2" by (simp add: power_int_minus)
  qed
  obtain ram where ram: "ec_init c (fl (20 / 100)) = Inr ram" and m: "em_ram m = ram" "em_vram m = []"
    using assms(1) by (auto simp: manager_init_def bindE_Inr_iff split: option.splits)
  note i = ec_init_inv [OF assms(2,3) r ram]
  show ?thesis using i by (simp add: manager_ok_def m slru_values.coherent_def od_get_def)
qed

text \<open>Everything of the manager that a change of one tier must keep.\<close>

lemma manager_ok_ram:
  "manager_ok t ld c m \<Longrightarrow> ec_inv r \<Longrightarrow> ec_capacity_slots r = c \<Longrightarrow> slru_values.coherent ld r \<Longrightarrow>
     manager_ok t ld c (m\<lparr>em_ram := r\<rparr>)"
  by (simp add: manager_ok_def)

lemma manager_ok_freq [simp]: "manager_ok t ld c (m\<lparr>em_freq := f\<rparr>) = manager_ok t ld c m"
  by (simp add: manager_ok_def)

lemma manager_ok_vram:
  "manager_ok t ld c m \<Longrightarrow> ld k = Inr u \<Longrightarrow> weights v = weights u \<Longrightarrow> manager_ok t ld c (m\<lparr>em_vram := od_set (em_vram m) k v\<rparr>)"
  by (auto simp: manager_ok_def od_get_set)

lemma ec_get_coherent:
  assumes "ec_inv s" "slru_values.coherent ld s"
  shows "\<exists>s'. ec_get s k = Inr (s', ec_entries s k) \<and> ec_inv s' \<and> slru_values.coherent ld s' \<and>
    ec_capacity_slots s' = ec_capacity_slots s \<and> ec_entries s' = ec_entries s"
  using ec_get_spec [OF assms(1), of k] assms(2) by (auto simp: slru_values.coherent_def)

lemma ec_put_coherent:
  assumes i: "ec_inv s" and c: "slru_values.coherent ld s" and l: "ld k = Inr v"
  shows "\<exists>s' ev. ec_put s k v = Inr (s', ev) \<and> ec_inv s' \<and> slru_values.coherent ld s' \<and> ec_capacity_slots s' = ec_capacity_slots s"
proof (cases "ec_entries s k")
  case None
  then obtain s' ev where p: "ec_put s k v = Inr (s', ev)" "ec_inv s'" "ec_entries s' k = Some v"
    "\<forall>j. j \<noteq> k \<longrightarrow> ec_entries s' j = (if ev \<noteq> None \<and> j = fst (the ev) then None else ec_entries s j)"
    "ec_capacity_slots s' = ec_capacity_slots s"
    using ec_put_new_spec [OF i None, of v] by blast
  have "ld j = Inr w" if "ec_entries s' j = Some w" for j w
  proof (cases "j = k")
    case False
    then have "ec_entries s j = Some w" using p(4) [rule_format, of j] that by (metis option.distinct(1))
    then show ?thesis using c unfolding slru_values.coherent_def by blast
  qed (use that p(3) l in simp)
  then show ?thesis using p by (auto simp: slru_values.coherent_def)
next
  case (Some w)
  then obtain s' where p: "ec_put s k v = Inr (s', None)" "ec_inv s'" "ec_entries s' = (ec_entries s)(k \<mapsto> v)"
    "ec_capacity_slots s' = ec_capacity_slots s"
    using ec_put_old_spec [OF i, of k v] by auto
  then show ?thesis using c l by (auto simp: slru_values.coherent_def)
qed

section \<open>Fetching\<close>

abbreviation same_weights :: "'f decoded_expert result \<Rightarrow> 'f decoded_expert result \<Rightarrow> bool" where
  "same_weights r r' \<equiv> map_sum id weights r = map_sum id weights r'"

definition hot_room :: "'f expert_manager \<Rightarrow> nat" where
  "hot_room m = max (length (em_vram m)) (nat (em_vram_capacity m))"

lemma promote_ok:
  assumes "manager_ok t ld c m" "ld k = Inr v" "promote_vram m k v = (m', u)"
  shows "manager_ok t ld c m' \<and> weights u = weights v \<and> length (em_vram m') \<le> hot_room m \<and>
    em_vram_capacity m' = em_vram_capacity m"
  using assms manager_ok_vram [OF assms(1,2), of "dx_to v ''cuda''"]
  by (auto simp: promote_vram_def hot_room_def length_od_set split: if_splits)

lemma fetch_ok:
  assumes ok: "manager_ok t ld c m"
  shows "\<exists>m' r. fetch_expert t m layer expert = Inr (m', r) \<and> manager_ok t ld c m' \<and> same_weights r (ld (layer, expert)) \<and>
    length (em_vram m') \<le> hot_room m \<and> em_vram_capacity m' = em_vram_capacity m"
proof -
  let ?k = "(layer, expert)"
  define n where "n = m\<lparr>em_freq := count_key (em_freq m) ?k\<rparr>"
  have n: "manager_ok t ld c n" and room: "hot_room n = hot_room m" "em_vram_capacity n = em_vram_capacity m" "em_vram n = em_vram m"
    using ok by (simp_all add: n_def hot_room_def)
  show ?thesis
  proof (cases "od_get (em_vram n) ?k")
    case (Some v)
    then have "od_in ?k (em_vram n)" by (auto simp: od_in_get simp del: od_in_iff)
    moreover obtain u where "ld ?k = Inr u" "weights v = weights u" using manager_okD(5) [OF n Some] by blast
    ultimately show ?thesis using Some n room
      by (auto simp: fetch_expert_def Let_def od_index_def hot_room_def simp flip: n_def)
  next
    case None
    then have v: "\<not> od_in ?k (em_vram n)" "\<not> od_in ?k (em_vram m)" by (simp_all add: od_get_eq_None room)
    obtain ram where g: "ec_get (em_ram n) ?k = Inr (ram, ec_entries (em_ram n) ?k)" "ec_inv ram" "slru_values.coherent ld ram"
      "ec_capacity_slots ram = ec_capacity_slots (em_ram n)" "ec_entries ram = ec_entries (em_ram n)"
      using ec_get_coherent [of "em_ram n" ld ?k] n by (auto simp: manager_ok_def)
    define n1 where "n1 = n\<lparr>em_ram := ram\<rparr>"
    have n1: "manager_ok t ld c n1" using manager_ok_ram [OF n g(2) _ g(3)] g(4) n by (simp add: n1_def manager_ok_def)
    have r1: "hot_room n1 = hot_room m" "em_vram_capacity n1 = em_vram_capacity m" "length (em_vram n1) \<le> hot_room m"
      using room by (simp_all add: n1_def hot_room_def)
    have ld: "load_expert t n1 = ld" "ec_inv (em_ram n1)" using n1 by (simp_all add: manager_ok_def)
    show ?thesis
    proof (cases "ec_entries (em_ram n) ?k")
      case (Some v)
      then have l: "ld ?k = Inr v" using n by (auto simp: manager_ok_def slru_values.coherent_def)
      obtain m2 u where p: "promote_vram n1 ?k v = (m2, u)" by fastforce
      show ?thesis using promote_ok [OF n1 l p] None v g(1) Some l p r1
        by (auto simp: fetch_expert_def Let_def simp flip: n_def n1_def)
    next
      case none: None
      show ?thesis
      proof (cases "ld ?k")
        case (Inl e)
        then show ?thesis using v g(1) none ld n1 r1 by (auto simp: fetch_expert_def Let_def simp flip: n_def n1_def)
      next
        case (Inr v)
        obtain ram2 ev where q: "ec_put (em_ram n1) ?k v = Inr (ram2, ev)" "ec_inv ram2" "slru_values.coherent ld ram2"
          "ec_capacity_slots ram2 = ec_capacity_slots (em_ram n1)"
          using ec_put_coherent [of "em_ram n1" ld ?k v] n1 Inr by (auto simp: manager_ok_def)
        have n2: "manager_ok t ld c (n1\<lparr>em_ram := ram2\<rparr>)"
          using manager_ok_ram [OF n1 q(2) _ q(3)] q(4) n1 by (simp add: manager_ok_def)
        obtain m2 u where p: "promote_vram (n1\<lparr>em_ram := ram2\<rparr>) ?k v = (m2, u)" by fastforce
        show ?thesis using promote_ok [OF n2 Inr p] v g(1) none q(1) Inr p r1 ld
          by (auto simp: fetch_expert_def Let_def hot_room_def simp flip: n_def n1_def)
      qed
    qed
  qed
qed

text \<open>The layer computed from the bank file alone.\<close>

fun layer_output :: "('f, 't) expert_ops \<Rightarrow> (expert_key \<Rightarrow> 'f decoded_expert result) \<Rightarrow> int \<Rightarrow> 't \<Rightarrow>
    (int \<times> pyfloat) list \<Rightarrow> 't \<Rightarrow> 't result" where
  "layer_output ops ld layer x [] acc = Inr acc"
| "layer_output ops ld layer x ((expert, weight) # rest) acc =
     (if weight \<le> fl (1 / 1000000) then layer_output ops ld layer x rest acc
      else bindE (ld (layer, expert)) (\<lambda>v.
        layer_output ops ld layer x rest (ox_add ops acc (ox_scale ops (dx_forward ops v x) weight))))"

lemma forward_experts_ok:
  "manager_ok t ld c m \<Longrightarrow> \<exists>m'. forward_experts ops t layer x pairs m acc = Inr (m', layer_output ops ld layer x pairs acc) \<and>
     manager_ok t ld c m'"
proof (induction ops ld layer x pairs acc arbitrary: m rule: layer_output.induct)
  case (2 ops ld layer x expert weight rest acc)
  show ?case
  proof (cases "weight \<le> fl (1 / 1000000)")
    case True
    then show ?thesis using 2 by simp
  next
    case False
    obtain m' r where f: "fetch_expert t m layer expert = Inr (m', r)" "manager_ok t ld c m'" "same_weights r (ld (layer, expert))"
      using fetch_ok [OF "2.prems", of layer expert] by blast
    show ?thesis
    proof (cases "ld (layer, expert)")
      case (Inl e)
      then have "r = Inl e" using f(3) by (cases r) simp_all
      then show ?thesis using f(1,2) False Inl by simp
    next
      case (Inr v)
      then obtain u where "r = Inr u" "weights u = weights v" using f(3) by (cases r) simp_all
      then show ?thesis using f(1,2) False Inr "2.IH"(2) [OF False f(2)] by (simp add: dx_forward_weights [of u v])
    qed
  qed
qed auto

section \<open>Background tasks and sessions\<close>

definition counted :: "prefetcher \<Rightarrow> bool" where
  "counted p \<longleftrightarrow> pf_correct p + pf_drift p = pf_total p"

lemma issue_counted: "counted p \<Longrightarrow> counted (issue_speculative_prefetch m layer predicted p)"
proof (unfold issue_speculative_prefetch_def, induction predicted arbitrary: p)
  case (Cons e predicted)
  have "counted (issue_one m layer p e)" using Cons.prems by (auto simp: issue_one_def Let_def counted_def)
  then show ?case using Cons.IH by simp
qed simp

lemma run_task_ok:
  assumes ok: "manager_ok t ld c m"
  shows "\<exists>m' p'. run_task t i (m, p) = Inr (m', p') \<and> manager_ok t ld c m' \<and> em_vram m' = em_vram m \<and>
    em_vram_capacity m' = em_vram_capacity m \<and>
    pf_total p' = pf_total p \<and> pf_correct p' = pf_correct p \<and> pf_drift p' = pf_drift p"
proof (cases "i < length (pf_tasks p) \<and> task_state p i = Queued")
  case False
  then show ?thesis using ok by (auto simp: run_task_def)
next
  case True
  let ?k = "fst (pf_tasks p ! i)"
  show ?thesis
  proof (cases "ld ?k")
    case (Inl e)
    then show ?thesis using True ok manager_okD(1) [OF ok] by (simp add: run_task_def Let_def)
  next
    case (Inr v)
    obtain ram ev where q: "ec_put (em_ram m) ?k v = Inr (ram, ev)" "ec_inv ram" "slru_values.coherent ld ram"
      "ec_capacity_slots ram = ec_capacity_slots (em_ram m)"
      using ec_put_coherent [OF manager_okD(2,4) [OF ok], OF Inr] by auto
    then show ?thesis using True Inr manager_okD(1,3) [OF ok] manager_ok_ram [OF ok q(2) _ q(3)]
      by (simp add: run_task_def Let_def)
  qed
qed

lemma await_one_ok:
  assumes ok: "manager_ok t ld c m" and n: "counted p"
  shows "\<exists>m' p'. await_one t layer ms in_time e (m, p) = Inr (m', p') \<and> manager_ok t ld c m' \<and> em_vram m' = em_vram m \<and>
    em_vram_capacity m' = em_vram_capacity m \<and> counted p'"
proof (cases "od_get (pf_pending p) (layer, e)")
  case None
  then show ?thesis using ok n by (simp add: await_one_def Let_def counted_def)
next
  case (Some i)
  define p1 where "p1 = p\<lparr>pf_total := pf_total p + 1, pf_pending := od_remove (layer, e) (pf_pending p)\<rparr>"
  have p1: "pf_total p1 = pf_correct p1 + pf_drift p1 + 1" using n by (simp add: p1_def counted_def)
  obtain m' p' where r: "run_task t i (m, p1) = Inr (m', p')" "manager_ok t ld c m'" "em_vram m' = em_vram m"
    "em_vram_capacity m' = em_vram_capacity m" "pf_total p' = pf_total p1" "pf_correct p' = pf_correct p1" "pf_drift p' = pf_drift p1"
    using run_task_ok [OF ok, of i p1] by blast
  show ?thesis using Some p1 r ok by (simp add: await_one_def Let_def counted_def flip: p1_def)
qed

lemma await_ok:
  "manager_ok t ld c m \<Longrightarrow> counted p \<Longrightarrow> \<exists>m' p'. await_partial t layer ms in_time actual (m, p) = Inr (m', p') \<and> manager_ok t ld c m' \<and> em_vram m' = em_vram m \<and>
    em_vram_capacity m' = em_vram_capacity m \<and> counted p'"
proof (unfold await_partial_def, induction actual arbitrary: m p)
  case (Cons e actual)
  obtain m1 p1 where s: "await_one t layer ms in_time e (m, p) = Inr (m1, p1)" "manager_ok t ld c m1" "em_vram m1 = em_vram m"
    "em_vram_capacity m1 = em_vram_capacity m" "counted p1"
    using await_one_ok [OF Cons.prems] by blast
  then show ?case using Cons.IH [OF s(2,5)] by simp
qed simp

lemma pin_vram_ok:
  assumes ok: "manager_ok t ld c m"
  shows "\<exists>m' ss'. foldE (pin_vram_one t) ps (m, ss) = Inr (m', ss') \<and> manager_ok t ld c m'"
  using ok
proof (induction ps arbitrary: m ss)
  case (Cons p ps)
  obtain m1 r where f: "fetch_expert t m (fst (fst p)) (snd (fst p)) = Inr (m1, r)" "manager_ok t ld c m1" "same_weights r (ld (fst p))"
    using fetch_ok [OF Cons.prems, of "fst (fst p)" "snd (fst p)"] by auto
  have "\<exists>m2 ss2. pin_vram_one t p (m, ss) = Inr (m2, ss2) \<and> manager_ok t ld c m2"
  proof (cases r)
    case (Inr v)
    then obtain u where "ld (fst p) = Inr u" "weights v = weights u" using f(3) by (cases "ld (fst p)") simp_all
    then show ?thesis using f(1) Inr manager_ok_vram [OF f(2), of "fst p" u "dx_to v ''cuda''"] by (simp add: pin_vram_one_def)
  qed (use f in \<open>simp add: pin_vram_one_def\<close>)
  then show ?case using Cons.IH by fastforce
qed simp

lemma touch_ram_ok:
  "manager_ok t ld c m \<Longrightarrow> \<exists>m'. foldE touch_ram_one ps m = Inr m' \<and> manager_ok t ld c m'"
proof (induction ps arbitrary: m)
  case (Cons p ps)
  obtain ram where g: "ec_get (em_ram m) (fst p) = Inr (ram, ec_entries (em_ram m) (fst p))" "ec_inv ram" "slru_values.coherent ld ram"
    "ec_capacity_slots ram = ec_capacity_slots (em_ram m)"
    using ec_get_coherent [OF manager_okD(2,4) [OF Cons.prems], of "fst p"] by blast
  then have "manager_ok t ld c (m\<lparr>em_ram := ram\<rparr>)"
    using manager_ok_ram [OF Cons.prems g(2) _ g(3)] manager_okD(3) [OF Cons.prems] by simp
  then show ?case using Cons.IH g(1) by (simp add: touch_ram_one_def)
qed simp

lemma step_token_ok:
  assumes ok: "manager_ok t ld c m"
  shows "\<exists>m' ss'. step_token t (m, ss) = Inr (m', ss') \<and> manager_ok t ld c m'"
proof -
  have "\<exists>m' ss'. pin_session_hot_tier t (m, ss) = Inr (m', ss') \<and> manager_ok t ld c m'" for ss
  proof (cases "ss_freq ss = []")
    case False
    let ?ps = "py_slice (most_common (ss_freq ss)) 0 (ss_pin_count ss)"
    note ne = False
    have "\<exists>m1 ss1. (if em_device m = ''cuda'' then foldE (pin_vram_one t) ?ps (m, ss) else Inr (m, ss)) = Inr (m1, ss1) \<and>
        manager_ok t ld c m1"
      using pin_vram_ok [OF ok, of ?ps ss] ok by simp
    then obtain m1 ss1 where p: "(if em_device m = ''cuda'' then foldE (pin_vram_one t) ?ps (m, ss) else Inr (m, ss)) = Inr (m1, ss1)"
      and m1: "manager_ok t ld c m1" by blast
    obtain m2 where "foldE touch_ram_one (py_slice (most_common (ss_freq ss)) (int (length (ss_pinned_keys ss1)))
        (int (length (ss_pinned_keys ss1)) + ec_protected_capacity (em_ram m1))) m1 = Inr m2" "manager_ok t ld c m2"
      using touch_ram_ok [OF m1] by blast
    then show ?thesis unfolding pin_session_hot_tier_def Let_def prod.case if_not_P [OF ne] p bindE_simps by simp
  qed (simp add: pin_session_hot_tier_def ok)
  then show ?thesis using ok by (simp add: step_token_def Let_def)
qed

definition runtime_ok :: "'f torch_deq \<Rightarrow> (expert_key \<Rightarrow> 'f decoded_expert result) \<Rightarrow> int \<Rightarrow> 'f runtime \<Rightarrow> bool" where
  "runtime_ok t ld c s \<longleftrightarrow> manager_ok t ld c (rt_manager s) \<and> counted (rt_prefetch s)"

lemma rt_step_ok:
  assumes ok: "runtime_ok t ld c s"
  shows "\<exists>s'. rt_step t op s = Inr s' \<and> runtime_ok t ld c s'"
proof -
  have m: "manager_ok t ld c (rt_manager s)" and p: "counted (rt_prefetch s)" using ok by (simp_all add: runtime_ok_def)
  show ?thesis
  proof (cases op)
    case (Fetch l e)
    then show ?thesis using fetch_ok [OF m, of l e] p by (auto simp: rt_step_def Let_def runtime_ok_def)
  next
    case (RunTask i)
    obtain m' p' where "run_task t i (rt_manager s, rt_prefetch s) = Inr (m', p')" "manager_ok t ld c m'"
      "pf_total p' = pf_total (rt_prefetch s)" "pf_correct p' = pf_correct (rt_prefetch s)" "pf_drift p' = pf_drift (rt_prefetch s)"
      using run_task_ok [OF m] by blast
    then show ?thesis using p RunTask by (simp add: rt_step_def Let_def runtime_ok_def counted_def)
  next
    case (Await l ms ks es)
    then show ?thesis using await_ok [OF m p, of l ms "\<lambda>k. k \<in> set ks" es] by (auto simp: rt_step_def Let_def runtime_ok_def)
  next
    case StepToken
    then show ?thesis using step_token_ok [OF m, of "rt_session s"] p by (auto simp: rt_step_def Let_def runtime_ok_def)
  qed (use m p in \<open>simp_all add: rt_step_def Let_def runtime_ok_def issue_counted\<close>)
qed

lemma rt_run_ok: "runtime_ok t ld c s \<Longrightarrow> \<exists>s'. rt_run t ops s = Inr s' \<and> runtime_ok t ld c s'"
proof (unfold rt_run_def, induction ops arbitrary: s)
  case (Cons op ops)
  then show ?case using rt_step_ok [OF Cons.prems, of op] by fastforce
qed simp

lemma runtime_init_ok:
  assumes "manager_init bank lay c vram thr dev = Inr m" "2 \<le> c" "c \<le> 2 ^ 50"
  shows "runtime_ok t (load_expert t m) c (rt_init m a b)"
  using manager_init_ok [OF assms] by (simp add: runtime_ok_def rt_init_def prefetcher_init_def counted_def)

section \<open>The properties of the runtime\<close>


text \<open>A bank of two experts of two one-element half-precision projections.\<close>

definition demo_runtime_bank :: bytes where
  "demo_runtime_bank = [1, 0, 2, 0, 3, 0, 4, 0]"

definition demo_half_projection :: "string \<Rightarrow> int \<Rightarrow> projection_layout" where
  "demo_half_projection name off = \<lparr>pl_name = name, pl_shape = [1, 1], pl_bits = 16, pl_group_size = -1, pl_symmetric = True,
     pl_codec_id = ''raw.f16.v1'', pl_offset = off, pl_spans = [\<lparr>sp_section = PACKED, sp_offset = 0, sp_length = 2\<rparr>]\<rparr>"

definition demo_runtime_layout :: expert_layout where
  "demo_runtime_layout = \<lparr>el_num_layers = 1, el_num_experts = 2, el_layers = [0],
     el_record = \<lparr>rl_projections = [demo_half_projection ''gate_up_proj'' 0, demo_half_projection ''down_proj'' 2],
       rl_payload_bytes = 4, rl_stride = 4, rl_alignment = 4\<rparr>, el_records = []\<rparr>"

definition demo_nat_deq :: "int torch_deq" where
  "demo_nat_deq = \<lparr>of_code = uint, of_half = uint, of_pyint = (\<lambda>n. n), tsub = (-), tmul = (*)\<rparr>"

definition demo_runtime :: "string \<Rightarrow> int expert_manager result" where
  "demo_runtime device = manager_init (Some demo_runtime_bank) demo_runtime_layout 4 1 100 device"

definition demo_ops :: "(int, int) expert_ops" where
  "demo_ops = \<lparr>ox_matmul = (\<lambda>x w. x * hd (hd w)), ox_width = (\<lambda>_. 2), ox_cols = (\<lambda>x _ _. x), ox_silu = (\<lambda>x. x),
     ox_mul = (*), ox_add = (+), ox_scale = (\<lambda>x w. x * py_int w), ox_zeros = (\<lambda>_. 0)\<rparr>"


section \<open>The hot tier\<close>

text \<open>Without a session step the VRAM tier stays within its capacity.\<close>

definition not_step :: "runtime_op \<Rightarrow> bool" where
  "not_step op \<longleftrightarrow> op \<noteq> StepToken"

lemma rt_step_room:
  assumes ok: "runtime_ok t ld c s" and n: "not_step op" and b: "int (length (em_vram (rt_manager s))) \<le> max 0 (em_vram_capacity (rt_manager s))"
  shows "\<exists>s'. rt_step t op s = Inr s' \<and> runtime_ok t ld c s' \<and> em_vram_capacity (rt_manager s') = em_vram_capacity (rt_manager s) \<and>
    int (length (em_vram (rt_manager s'))) \<le> max 0 (em_vram_capacity (rt_manager s))"
proof -
  obtain s' where s': "rt_step t op s = Inr s'" "runtime_ok t ld c s'" using rt_step_ok [OF ok] by blast
  have m: "manager_ok t ld c (rt_manager s)" and p: "counted (rt_prefetch s)" using ok by (simp_all add: runtime_ok_def)
  have "em_vram_capacity (rt_manager s') = em_vram_capacity (rt_manager s) \<and>
    int (length (em_vram (rt_manager s'))) \<le> max 0 (em_vram_capacity (rt_manager s))"
  proof (cases op)
    case (Fetch l e)
    then show ?thesis using fetch_ok [OF m, of l e] s'(1) b by (auto simp: rt_step_def Let_def hot_room_def)
  next
    case (RunTask i)
    then show ?thesis using run_task_ok [OF m, of i "rt_prefetch s"] s'(1) b by (auto simp: rt_step_def Let_def)
  next
    case (Await l ms ks es)
    then show ?thesis using await_ok [OF m p, of l ms "\<lambda>k. k \<in> set ks" es] s'(1) b by (auto simp: rt_step_def Let_def)
  qed (use n s'(1) b in \<open>auto simp: rt_step_def Let_def not_step_def\<close>)
  then show ?thesis using s' by blast
qed

lemma rt_run_room:
  "runtime_ok t ld c s \<Longrightarrow> list_all not_step ops \<Longrightarrow> int (length (em_vram (rt_manager s))) \<le> max 0 (em_vram_capacity (rt_manager s)) \<Longrightarrow>
   \<exists>s'. rt_run t ops s = Inr s' \<and> int (length (em_vram (rt_manager s'))) \<le> max 0 (em_vram_capacity (rt_manager s))"
proof (unfold rt_run_def, induction ops arbitrary: s)
  case (Cons op ops)
  then show ?case using rt_step_room [OF Cons.prems(1), of op] by fastforce
qed simp

text \<open>Pinning a session does not look at the capacity of the tier: one slot, two pinned experts.\<close>

theorem pinning_exceeds_vram:
  "\<exists>m s. demo_runtime ''cuda'' = Inr m \<and> em_vram_capacity m = 1 \<and>
     rt_run demo_nat_deq [Route 0 [0, 1], StepToken] (rt_init m 1 2) = Inr s \<and> length (em_vram (rt_manager s)) = 2"
proof -
  have "case demo_runtime ''cuda'' of Inl _ \<Rightarrow> False | Inr m \<Rightarrow> em_vram_capacity m = 1 \<and>
      (case rt_run demo_nat_deq [Route 0 [0, 1], StepToken] (rt_init m 1 2) of Inl _ \<Rightarrow> False
       | Inr s \<Rightarrow> length (em_vram (rt_manager s)) = 2)" by code_simp
  then show ?thesis by (auto split: sum.splits)
qed

end
