(* ===== verification/PleStore.thy ===== *)
theory PleStore
  imports ExpertCache Decode
begin

text \<open>
  The PLE runtime: the hasher of \<open>runtime/ple/hash.py\<close> and the row store of \<open>runtime/ple/store.py\<close>.
  The table file is mapped once and never written; the row cache is the LRU \<open>row_lookup\<close> and
  \<open>row_insert\<close> of \<open>ExpertCache\<close>, and the interpretation \<open>row_values\<close> of \<open>value_cache\<close> gives its
  transparency. A fetch that raises leaves the store as it was.
\<close>

section \<open>The hasher\<close>

definition hash_single_head :: "ple_index \<Rightarrow> int \<Rightarrow> int list \<Rightarrow> int result" where
  "hash_single_head ix head tokens = row_id ix head tokens"

definition pad_history :: "ple_index \<Rightarrow> int list \<Rightarrow> int list" where
  "pad_history ix tokens =
     (if int (length tokens) < pi_ngram_size ix
      then replicate (nat (pi_ngram_size ix - int (length tokens))) 0 @ tokens else tokens)"

definition hash_all_heads :: "ple_index \<Rightarrow> int list \<Rightarrow> int list result" where
  "hash_all_heads ix tokens = mapE (\<lambda>h. row_id ix (int h) (pad_history ix tokens)) [0 ..< nat (pi_num_heads ix)]"

definition hash_sequence_batched :: "ple_index \<Rightarrow> int list \<Rightarrow> int list list result" where
  "hash_sequence_batched ix tokens = mapE (\<lambda>i. hash_all_heads ix (take (i + 1) tokens)) [0 ..< length tokens]"

section \<open>The row store\<close>

record 'f row_store =
  rs_index :: ple_index
  rs_capacity :: int
  rs_cache :: "(int, 'f list) odict"
  rs_mmap :: "bytes option"

definition store_init :: "bytes option \<Rightarrow> ple_index \<Rightarrow> int \<Rightarrow> 'f row_store result" where
  "store_init table ix capacity =
     (case table of
        None \<Rightarrow> Inl FileNotFoundError
      | Some file \<Rightarrow> Inr \<lparr>rs_index = ix, rs_capacity = capacity, rs_cache = [],
          rs_mmap = (if file = [] then None else Some file)\<rparr>)"

definition store_close :: "'f row_store \<Rightarrow> 'f row_store" where
  "store_close s = s\<lparr>rs_mmap := None\<rparr>"

definition read_row_raw :: "'f row_store \<Rightarrow> int \<Rightarrow> bytes result" where
  "read_row_raw s row =
     (case rs_mmap s of
        None \<Rightarrow> Inl RuntimeError
      | Some file \<Rightarrow>
          let lay = pi_row (rs_index s) in
          if pr_rows_per_page lay = 0 then Inl ZeroDivisionError
          else let off = row_offset lay row in Inr (py_slice file off (off + pr_payload_bytes lay)))"

definition decode_row :: "'f torch_deq \<Rightarrow> 'f row_store \<Rightarrow> bytes \<Rightarrow> 'f list result" where
  "decode_row t s raw =
     (let lay = pi_row (rs_index s) in
      bindE (decode_record t raw [pr_row_width lay] (pr_bits lay) (pr_group_size lay) (pr_symmetric lay) None 0) (\<lambda>rows.
      Inr (concat rows)))"

definition load_row :: "'f torch_deq \<Rightarrow> 'f row_store \<Rightarrow> int \<Rightarrow> 'f list result" where
  "load_row t s row =
     bindE (if pi_shards (rs_index s) \<noteq> [] then physical_row_id (rs_index s) row else Inr row) (\<lambda>physical.
     bindE (read_row_raw s physical) (decode_row t s))"

definition fetch_row :: "'f torch_deq \<Rightarrow> 'f row_store \<Rightarrow> int \<Rightarrow> ('f row_store \<times> 'f list) result" where
  "fetch_row t s row =
     bindE (row_lookup (rs_capacity s, rs_cache s) row) (\<lambda>((_, cache), hit).
     case hit of
       Some v \<Rightarrow> Inr (s\<lparr>rs_cache := cache\<rparr>, v)
     | None \<Rightarrow>
         bindE (load_row t s row) (\<lambda>v.
         bindE (row_insert (rs_capacity s, rs_cache s) row v) (\<lambda>(_, cache).
         Inr (s\<lparr>rs_cache := cache\<rparr>, v))))"

text \<open>\<open>[self.fetch_row(r) for r in row_ids]\<close>: the rows before the one that raises stay cached.\<close>

fun fetch_rows :: "'f torch_deq \<Rightarrow> 'f row_store \<Rightarrow> int list \<Rightarrow> 'f row_store \<times> 'f list list result" where
  "fetch_rows t s [] = (s, Inr [])"
| "fetch_rows t s (row # rows) =
     (case fetch_row t s row of
        Inl e \<Rightarrow> (s, Inl e)
      | Inr (s1, v) \<Rightarrow> (case fetch_rows t s1 rows of (s2, r) \<Rightarrow> (s2, bindE r (\<lambda>vs. Inr (v # vs)))))"

text \<open>\<open>torch.stack\<close> needs at least one tensor, and all of one size.\<close>

definition torch_stack :: "'f list list \<Rightarrow> 'f list list result" where
  "torch_stack vs =
     (case vs of [] \<Rightarrow> Inl RuntimeError
      | v # rest \<Rightarrow> if \<forall>u \<in> set rest. length u = length v then Inr vs else Inl RuntimeError)"

definition fetch_step_embedding :: "'f torch_deq \<Rightarrow> 'f row_store \<Rightarrow> int list \<Rightarrow> 'f row_store \<times> 'f list list result" where
  "fetch_step_embedding t s history =
     (case hash_all_heads (rs_index s) history of
        Inl e \<Rightarrow> (s, Inl e)
      | Inr rows \<Rightarrow> (case fetch_rows t s rows of (s1, r) \<Rightarrow> (s1, bindE r torch_stack)))"

section \<open>The cache is transparent\<close>

definition row_store_ok :: "'f torch_deq \<Rightarrow> (int \<Rightarrow> 'f list result) \<Rightarrow> ple_index \<Rightarrow> int \<Rightarrow> 'f row_store \<Rightarrow> bool" where
  "row_store_ok t ld ix c s \<longleftrightarrow> load_row t s = ld \<and> rs_index s = ix \<and> rs_capacity s = c \<and>
     row_cache_inv (c, rs_cache s) \<and> row_values.coherent ld (c, rs_cache s)"

lemma load_row_cong:
  assumes same: "rs_index s = rs_index s'" "rs_mmap s = rs_mmap s'"
  shows "load_row t s = load_row t s'"
proof -
  have "read_row_raw s = read_row_raw s'" "decode_row t s = decode_row t s'"
    unfolding read_row_raw_def [abs_def] decode_row_def [abs_def] same by (rule refl)+
  then show ?thesis unfolding load_row_def [abs_def] same by simp
qed

lemma load_row_cache [simp]: "load_row t (s\<lparr>rs_cache := d\<rparr>) = load_row t s"
  by (rule load_row_cong) simp_all

lemma store_init_ok:
  "store_init table ix c = Inr s \<Longrightarrow> 1 \<le> c \<Longrightarrow> row_store_ok t (load_row t s) ix c s"
  by (auto simp: store_init_def row_store_ok_def row_cache_inv_def row_values.coherent_def od_get_def split: option.splits)

lemma row_lookup_capacity: "row_lookup p k = Inr (p', r) \<Longrightarrow> fst p' = fst p"
  by (auto simp: row_lookup_def bindE_Inr_iff split: if_splits)

lemma row_insert_capacity: "row_insert p k v = Inr p' \<Longrightarrow> fst p' = fst p"
  by (auto simp: row_insert_def bindE_Inr_iff split: if_splits)

text \<open>\<open>fetch_row\<close> is the generic cached fetch of the locale over the row LRU.\<close>

lemma row_lookup_miss: "row_lookup p k = Inr (p', None) \<Longrightarrow> p' = p"
  by (auto simp: row_lookup_def bindE_Inr_iff split: if_splits)

lemma fetch_row_cached:
  assumes "row_cache_inv (rs_capacity s, rs_cache s)"
  shows "fetch_row t s row = bindE (row_values.cached_fetch (load_row t s) (rs_capacity s, rs_cache s) row) (\<lambda>((_, cache), v).
    Inr (s\<lparr>rs_cache := cache\<rparr>, v))"
proof -
  obtain p' r where g: "row_lookup (rs_capacity s, rs_cache s) row = Inr (p', r)"
    using row_values.lookup_ok [OF assms, of row] by blast
  show ?thesis
  proof (cases r)
    case None
    then have "p' = (rs_capacity s, rs_cache s)" using row_lookup_miss [OF g [unfolded None]] by simp
    then show ?thesis using g None
      by (cases "load_row t s row"; cases "row_insert (rs_capacity s, rs_cache s) row (projr (load_row t s row))")
        (auto simp: fetch_row_def row_values.cached_fetch_def)
  qed (use g in \<open>simp add: fetch_row_def row_values.cached_fetch_def split: prod.split\<close>)
qed

lemma fetch_row_ok:
  assumes ok: "row_store_ok t ld ix c s"
  shows "case ld row of Inl e \<Rightarrow> fetch_row t s row = Inl e
    | Inr v \<Rightarrow> \<exists>s'. fetch_row t s row = Inr (s', v) \<and> row_store_ok t ld ix c s'"
proof -
  let ?p = "(c, rs_cache s)"
  have l: "load_row t s = ld" "rs_index s = ix" "rs_capacity s = c" and i: "row_cache_inv ?p" "row_values.coherent ld ?p"
    using ok by (simp_all add: row_store_ok_def)
  note f = fetch_row_cached [of s, unfolded l(3), OF i(1), of t row, unfolded l(1)]
  show ?thesis
  proof (cases "ld row")
    case (Inl e)
    then show ?thesis using row_values.fetch_error [OF i Inl] f by simp
  next
    case (Inr v)
    obtain p' where p': "row_values.cached_fetch ld ?p row = Inr (p', v)" "row_cache_inv p'" "row_values.coherent ld p'"
      using row_values.fetch_transparent [OF i Inr] by blast
    have "fst p' = c" using p'(1) l(3) row_lookup_capacity row_insert_capacity
      by (fastforce simp: row_values.cached_fetch_def bindE_Inr_iff split: option.splits)
    then have "row_store_ok t ld ix c (s\<lparr>rs_cache := snd p'\<rparr>)" using p' l by (cases p') (simp add: row_store_ok_def)
    then show ?thesis using Inr f p'(1) by (cases p') simp
  qed
qed

lemma fetch_rows_ok:
  "row_store_ok t ld ix c s \<Longrightarrow> \<exists>s'. fetch_rows t s rows = (s', mapE ld rows) \<and> row_store_ok t ld ix c s'"
proof (induction rows arbitrary: s)
  case (Cons row rows)
  then show ?case using fetch_row_ok [OF Cons.prems, of row] by (cases "ld row") (fastforce split: prod.splits)+
qed simp

lemma fetch_step_ok:
  assumes "row_store_ok t ld ix c s"
  shows "\<exists>s'. fetch_step_embedding t s history =
      (s', bindE (bindE (hash_all_heads ix history) (mapE ld)) torch_stack) \<and> row_store_ok t ld ix c s'"
proof (cases "hash_all_heads ix history")
  case (Inr rows)
  then show ?thesis using fetch_rows_ok [OF assms, of rows] assms
    by (auto simp: fetch_step_embedding_def row_store_ok_def)
qed (use assms in \<open>simp add: fetch_step_embedding_def row_store_ok_def\<close>)

fun run_steps :: "'f torch_deq \<Rightarrow> 'f row_store \<Rightarrow> int list list \<Rightarrow> 'f row_store" where
  "run_steps t s [] = s"
| "run_steps t s (history # rest) = run_steps t (fst (fetch_step_embedding t s history)) rest"

lemma run_steps_ok: "row_store_ok t ld ix c s \<Longrightarrow> row_store_ok t ld ix c (run_steps t s histories)"
proof (induction histories arbitrary: s)
  case (Cons h hs)
  obtain s' where "fst (fetch_step_embedding t s h) = s'" "row_store_ok t ld ix c s'"
    using fetch_step_ok [OF Cons.prems, of h] by auto
  then show ?case using Cons.IH by simp
qed simp

text \<open>C37: After any number of steps, failed ones included, a step embedding is the rows its heads hash to, each decoded
  straight from the table file, and the cache holds at most its capacity.\<close>

theorem embedding_from_table:
  assumes "store_init table ix capacity = Inr s" "1 \<le> capacity"
  shows "snd (fetch_step_embedding t (run_steps t s histories) history) =
      bindE (bindE (hash_all_heads ix history) (mapE (load_row t s))) torch_stack \<and>
    int (length (rs_cache (run_steps t s histories))) \<le> capacity"
proof -
  have ok: "row_store_ok t (load_row t s) ix capacity (run_steps t s histories)"
    by (rule run_steps_ok [OF store_init_ok [OF assms]])
  show ?thesis using fetch_step_ok [OF ok, of history] ok by (auto simp: row_store_ok_def row_cache_inv_def)
qed

text \<open>A table of two half-precision rows under one head.\<close>

definition demo_row_index :: ple_index where
  "demo_row_index = \<lparr>pi_ngram_size = 2, pi_num_heads = 1, pi_heads_per_ngram = 1, pi_head_offsets = [0],
     pi_head_vocab_sizes = [2], pi_layer_multipliers = [3, 5], pi_total_rows = 2, pi_physical_rows = 2, pi_shards = [],
     pi_row = \<lparr>pr_row_width = 1, pr_bits = 16, pr_group_size = 1, pr_symmetric = True, pr_codec_id = ''raw.f16.v1'',
       pr_payload_bytes = 2, pr_rows_per_page = 2, pr_page_bytes = 4\<rparr>, pi_source_layer = 0\<rparr>"

definition demo_row_deq :: "int torch_deq" where
  "demo_row_deq = \<lparr>of_code = uint, of_half = uint, of_pyint = (\<lambda>n. n), tsub = (-), tmul = (*)\<rparr>"

theorem embedding_from_table_witness:
  "\<exists>s. store_init (Some [7, 0, 9, 0]) demo_row_index 1 = Inr s \<and>
     snd (fetch_step_embedding demo_row_deq (run_steps demo_row_deq s [[4], [1, 2], [4]]) [1, 2]) = Inr [[9 :: int]]"
proof -
  have "case store_init (Some [7, 0, 9, 0]) demo_row_index 1 of Inl _ \<Rightarrow> False
    | Inr s \<Rightarrow> bindE (bindE (hash_all_heads demo_row_index [1, 2]) (mapE (load_row demo_row_deq s))) torch_stack = Inr [[9]]"
    by code_simp
  then obtain s where s: "store_init (Some [7, 0, 9, 0]) demo_row_index 1 = Inr s"
    "bindE (bindE (hash_all_heads demo_row_index [1, 2]) (mapE (load_row demo_row_deq s))) torch_stack = Inr [[9]]"
    by (auto simp: store_init_def)
  then show ?thesis using embedding_from_table [OF s(1), of demo_row_deq "[[4], [1, 2], [4]]" "[1, 2]"] by auto
qed

end
