(* ===== verification/Engine.thy ===== *)
theory Engine
  imports Verified ManagerLaws PleStore
begin

text \<open>
  The engine of \<open>runtime/engine.py\<close> over a package directory, and its reads of a package that the
  builder has finished: every dense tensor, expert record and PLE row it reads is byte for byte what
  the writer's encoder produced for that item, whatever killed attempts and crashes went before.
\<close>

section \<open>The dense reader\<close>

record dense_reader =
  dr_entries :: "(string, dense_entry) odict"
  dr_mmap :: "bytes option"

definition dense_reader_init :: "package_manifest \<Rightarrow> bytes option \<Rightarrow> dense_reader result" where
  "dense_reader_init m blob =
     (case blob of
        None \<Rightarrow> Inl FileNotFoundError
      | Some file \<Rightarrow> Inr \<lparr>dr_entries = foldl (\<lambda>d e. od_set d (de_name e) e) [] (pm_dense m),
          dr_mmap = (if file = [] then None else Some file)\<rparr>)"

definition get_tensor_bytes :: "dense_reader \<Rightarrow> string \<Rightarrow> bytes result" where
  "get_tensor_bytes r name =
     bindE (od_index (dr_entries r) name) (\<lambda>entry.
     case dr_mmap r of
       None \<Rightarrow> Inl TypeError
     | Some file \<Rightarrow> Inr (py_slice file (de_byte_offset entry) (de_byte_offset entry + de_length entry)))"

definition dense_reader_close :: "dense_reader \<Rightarrow> dense_reader" where
  "dense_reader_close r = r\<lparr>dr_mmap := None\<rparr>"

section \<open>The engine\<close>

record 'f engine =
  en_manifest :: package_manifest
  en_dense :: dense_reader
  en_ple :: "'f row_store option"
  en_experts :: "'f runtime option"

definition engine_open :: "package_dir \<Rightarrow> int \<Rightarrow> int \<Rightarrow> string \<Rightarrow> 'f engine result" where
  "engine_open d ram_slots vram_slots device =
     bindE (case vd_manifest d of None \<Rightarrow> Inl FileNotFoundError | Some m \<Rightarrow> m) (\<lambda>m.
     bindE (dense_reader_init m (vd_file d ''dense/blob.bin'')) (\<lambda>dense.
     bindE (case (vd_file d ''ple/table.bin'', vd_sidecar d) of
              (Some table, Some sidecar) \<Rightarrow>
                bindE sidecar (\<lambda>ix. bindE (store_init (Some table) ix 65536) (\<lambda>s. Inr (Some s)))
            | _ \<Rightarrow> Inr None) (\<lambda>ple.
     bindE (case (vd_file d ''experts/bank.bin'', pm_expert_layout m) of
              (Some bank, Some layout) \<Rightarrow>
                bindE (manager_init (Some bank) layout ram_slots vram_slots 8 device) (\<lambda>mg. Inr (Some (rt_init mg 64 64)))
            | _ \<Rightarrow> Inr None) (\<lambda>experts.
     Inr \<lparr>en_manifest = m, en_dense = dense, en_ple = ple, en_experts = experts\<rparr>))))"

definition engine_close :: "'f engine \<Rightarrow> 'f engine" where
  "engine_close e = e\<lparr>en_dense := dense_reader_close (en_dense e), en_ple := map_option store_close (en_ple e),
     en_experts := map_option (\<lambda>rt. rt\<lparr>rt_manager := manager_close (rt_manager rt)\<rparr>) (en_experts e)\<rparr>"

record memory_profile =
  mp_source_model :: string
  mp_dense_vram_bytes :: int
  mp_ram_resident :: int
  mp_vram_resident :: int
  mp_ram_capacity :: int
  mp_hit_rate :: pyfloat

definition get_memory_profile :: "'f engine \<Rightarrow> memory_profile" where
  "get_memory_profile e =
     \<lparr>mp_source_model = pm_source_model (en_manifest e), mp_dense_vram_bytes = pt_dense_bytes (pm_totals (en_manifest e)),
      mp_ram_resident = (case en_experts e of None \<Rightarrow> 0 | Some rt \<Rightarrow> total_resident (em_ram (rt_manager rt))),
      mp_vram_resident = (case en_experts e of None \<Rightarrow> 0 | Some rt \<Rightarrow> int (length (em_vram (rt_manager rt)))),
      mp_ram_capacity = (case en_experts e of None \<Rightarrow> 0 | Some rt \<Rightarrow> ec_capacity_slots (em_ram (rt_manager rt))),
      mp_hit_rate = (case en_experts e of None \<Rightarrow> 0
        | Some rt \<Rightarrow> let c = em_ram (rt_manager rt) in
            if 0 < ec_hits c + ec_misses c then fl (of_int (ec_hits c) / of_int (ec_hits c + ec_misses c)) else 0)\<rparr>"

section \<open>Reading what is stored\<close>

lemma stored_slice:
  assumes "stored d (off, p)" "rd_synced d \<le> length (rd_bytes d)" "int (length p) = n"
  shows "py_slice (rd_bytes d) off (off + n) = p"
  using stored_read [OF assms(1,2)] assms(1,3) py_slice_nat [of off n "rd_bytes d"]
  by (auto simp: stored_def file_read_def)

lemma entries_of:
  assumes "distinct (map de_name es)" "e \<in> set es"
  shows "od_index (foldl (\<lambda>d e. od_set d (de_name e) e) [] es) (de_name e) = Inr e"
proof -
  have "od_get (foldl (\<lambda>d e. od_set d (de_name e) e) d es) (de_name e) = Some e"
    if "distinct (map de_name es)" "e \<in> set es" for d es
    using that
  proof (induction es rule: rev_induct)
    case (snoc x es)
    then have "x = e \<or> e \<in> set es \<and> de_name e \<noteq> de_name x" by (auto simp: image_iff)
    then show ?case using snoc by (auto simp: od_get_set)
  qed simp
  then show ?thesis using assms by (simp add: od_index_def)
qed

lemma held_dense:
  assumes h: "recorded d (dense_pieces w i) c" "rd_synced d \<le> length (rd_bytes d)" and b: "16 \<le> dw_bits i \<longrightarrow> length (dw_spans i) = 1"
  shows "\<exists>x payload. rd_read_tensor (wr_reader w) (dw_address i) = Inr x \<and> encode_dense w i x = Inr payload \<and>
    py_slice (rd_bytes d) (dw_byte_offset i) (dw_byte_offset i + dw_length i) = payload"
proof -
  obtain ps k where ps: "dense_pieces w i = Inr (ps, k)" "\<forall>q \<in> set ps. stored d q" using h(1) by (auto simp: recorded_def)
  then obtain x payload where x: "rd_read_tensor (wr_reader w) (dw_address i) = Inr x" "encode_dense w i x = Inr payload"
    "ps = [(dw_byte_offset i, payload)]" by (auto simp: dense_pieces_def bindE_Inr_iff at_offsets_iff)
  then show ?thesis using stored_slice [OF _ h(2)] ps(2) encode_dense_length [OF x(2) b] by auto
qed

lemma held_expert:
  assumes h: "recorded d (bank_pieces w i) c" "rd_synced d \<le> length (rd_bytes d)"
  shows "\<exists>payload. encode_expert w (el_record (bank_layout w)) i = Inr payload \<and>
    py_slice (rd_bytes d) (ew_bank_offset i) (ew_bank_offset i + rl_payload_bytes (el_record (bank_layout w))) = payload"
proof -
  obtain ps k where ps: "bank_pieces w i = Inr (ps, k)" "\<forall>q \<in> set ps. stored d q" using h(1) by (auto simp: recorded_def)
  then obtain payload where x: "encode_expert w (el_record (bank_layout w)) i = Inr payload" "ps = [(ew_bank_offset i, payload)]"
    by (auto simp: bank_pieces_def expert_pieces_def bindE_Inr_iff at_offsets_iff)
  moreover from x(1) have "int (length payload) = rl_payload_bytes (el_record (bank_layout w))"
    by (auto simp: encode_expert_def bindE_Inr_iff split: if_splits)
  ultimately show ?thesis using stored_slice [OF _ h(2)] ps(2) by auto
qed

lemma held_rows:
  assumes h: "recorded d (table_pieces w s) c" "rd_synced d \<le> length (rd_bytes d)" and r: "row_ok (pp_row (ple_of w))"
    and k: "k < nat (pw_num_rows s)"
  shows "\<exists>spans block. section_spans [1, pr_row_width (pp_row (ple_of w))] (pr_bits (pp_row (ple_of w)))
      (pr_group_size (pp_row (ple_of w))) (pr_symmetric (pp_row (ple_of w))) 2 2 = Inr spans \<and>
    encode_ple_shard w (pp_row (ple_of w)) spans s = Inr block \<and>
    py_slice (rd_bytes d) (row_offset (pp_row (ple_of w)) (pw_first_row s + int k))
      (row_offset (pp_row (ple_of w)) (pw_first_row s + int k) + pr_payload_bytes (pp_row (ple_of w))) =
    take (nat (pr_payload_bytes (pp_row (ple_of w)))) (drop (k * nat (pr_payload_bytes (pp_row (ple_of w)))) block)"
proof -
  let ?row = "pp_row (ple_of w)"
  let ?p = "nat (pr_payload_bytes ?row)"
  obtain ps c' where ps: "table_pieces w s = Inr (ps, c')" "\<forall>q \<in> set ps. stored d q" using h(1) by (auto simp: recorded_def)
  then obtain spans block where b: "encode_ple_shard w ?row spans s = Inr block" "ps = row_pieces ?row s block"
    and sp: "section_spans [1, pr_row_width ?row] (pr_bits ?row) (pr_group_size ?row) (pr_symmetric ?row) 2 2 = Inr spans"
    by (auto simp: table_pieces_def shard_pieces_def bindE_Inr_iff at_offsets_iff Let_def)
  have len: "int (length block) = pw_num_rows s * pr_payload_bytes ?row"
    using b(1) by (auto simp: encode_ple_shard_def bindE_Inr_iff Let_def split: if_splits)
  have pp: "0 < pr_payload_bytes ?row" using r by (simp add: row_ok_def)
  note rp = row_piece [OF len _ refl k]
  have "length (row_pieces ?row s block) = nat (pw_num_rows s)" by (simp add: row_pieces_def)
  then have "row_pieces ?row s block ! k \<in> set ps" unfolding b(2) using k by (intro nth_mem) simp
  then have "stored d (row_offset ?row (pw_first_row s + int k), take ?p (drop (k * ?p) block))"
    using ps(2) rp(1) pp by simp
  from stored_slice [OF this h(2), of "pr_payload_bytes ?row"] show ?thesis using rp(2) pp b(1) sp by auto
qed

section \<open>The engine over a finished package\<close>

text \<open>Where the engine reads item \<open>i\<close> of a package, and what the writer encoded for it.\<close>

definition reads_dense :: "writer \<Rightarrow> 'f engine \<Rightarrow> dense_work_item \<Rightarrow> bool" where
  "reads_dense w e i \<longleftrightarrow> (\<exists>x payload. rd_read_tensor (wr_reader w) (dw_address i) = Inr x \<and> encode_dense w i x = Inr payload \<and>
     get_tensor_bytes (en_dense e) (ta_name (dw_address i)) = Inr payload)"

definition reads_expert :: "writer \<Rightarrow> 'f engine \<Rightarrow> expert_work_item \<Rightarrow> bool" where
  "reads_expert w e i \<longleftrightarrow> (\<exists>rt payload. en_experts e = Some rt \<and> encode_expert w (el_record (bank_layout w)) i = Inr payload \<and>
     read_expert_record (rt_manager rt) (es_layer (ew_slice i)) (es_expert (ew_slice i)) = Inr payload)"

definition reads_shard :: "writer \<Rightarrow> 'f engine \<Rightarrow> ple_shard_item \<Rightarrow> bool" where
  "reads_shard w e s \<longleftrightarrow> (\<forall>k. k < nat (pw_num_rows s) \<longrightarrow>
     (\<exists>st spans block. en_ple e = Some st \<and>
        section_spans [1, pr_row_width (pp_row (ple_of w))] (pr_bits (pp_row (ple_of w)))
          (pr_group_size (pp_row (ple_of w))) (pr_symmetric (pp_row (ple_of w))) 2 2 = Inr spans \<and>
        encode_ple_shard w (pp_row (ple_of w)) spans s = Inr block \<and>
        read_row_raw st (pw_first_row s + int k) =
          Inr (take (nat (pr_payload_bytes (pp_row (ple_of w)))) (drop (k * nat (pr_payload_bytes (pp_row (ple_of w)))) block))))"

lemma nonempty_file: "int (length f) = n \<Longrightarrow> 0 < n \<Longrightarrow> f \<noteq> []"
  by auto

lemma finished_file:
  assumes f: "finished w pk j ix" and w: "writer_ok w" and t: "totals_ok w" "0 \<le> region_limit w r"
  shows "vd_file (open_package parse pk) (region_path r) =
    (if region_limit w r = 0 then None else Some (rd_bytes (region_view r pk)))"
    and "region_limit w r \<noteq> 0 \<Longrightarrow> rd_bytes (region_view r pk) \<noteq> []"
proof -
  have fit: "regions_fit w pk" using f by (simp add: finished_def)
  have e: "vd_file (open_package parse pk) (region_path r) = map_option rf_bytes (pk_file pk r)"
    using file_at_region [of pk r] by (simp add: open_package_def)
  have none: "pk_file pk r = None" if "region_limit w r = 0"
    using fit that by (cases "pk_file pk r") (force simp: regions_fit_def)+
  have some: "\<exists>g. pk_file pk r = Some g \<and> int (length (rf_bytes g)) = region_limit w r" if "region_limit w r \<noteq> 0"
    using finished_region [OF f w t(1), of r] t(2) that by simp
  show "vd_file (open_package parse pk) (region_path r) =
      (if region_limit w r = 0 then None else Some (rd_bytes (region_view r pk)))"
    using none some e by (cases "region_limit w r = 0") (auto simp: region_view_def)
  show "region_limit w r \<noteq> 0 \<Longrightarrow> rd_bytes (region_view r pk) \<noteq> []"
    using some t(2) by (auto simp: region_view_def)
qed

lemma finished_view_synced:
  assumes "finished w pk j ix" "r = EXPERT_REGION \<longrightarrow> has_bank w" "r = PLE_REGION \<longrightarrow> has_ple w"
  shows "rd_synced (region_view r pk) \<le> length (rd_bytes (region_view r pk))"
  using assms by (cases r) (auto simp: finished_def package_good_def dense_region.region_good_def bank_region.region_good_def
      table_region.region_good_def dense_region.good_def experts.good_def shards.good_def)

lemma finished_recorded:
  assumes f: "finished w pk j ix" and w: "writer_ok w"
  shows "i \<in> set (bp_dense (wr_plan w)) \<Longrightarrow> \<exists>c. recorded (region_view DENSE_REGION pk) (dense_pieces w i) c"
    "x \<in> set (bp_experts (wr_plan w)) \<Longrightarrow> \<exists>c. recorded (region_view EXPERT_REGION pk) (bank_pieces w x) c"
    "s \<in> set (ple_shards (wr_plan w)) \<Longrightarrow> \<exists>c. recorded (region_view PLE_REGION pk) (table_pieces w s) c"
proof -
  have h: "package_held w pk j" "journal_current w j" "all_marked w j" using f by (auto simp: finished_def)
  note rec = held_recorded [OF w h(1,2)]
  show "i \<in> set (bp_dense (wr_plan w)) \<Longrightarrow> \<exists>c. recorded (region_view DENSE_REGION pk) (dense_pieces w i) c"
    "x \<in> set (bp_experts (wr_plan w)) \<Longrightarrow> \<exists>c. recorded (region_view EXPERT_REGION pk) (bank_pieces w x) c"
    "s \<in> set (ple_shards (wr_plan w)) \<Longrightarrow> \<exists>c. recorded (region_view PLE_REGION pk) (table_pieces w s) c"
    using rec h(3) unfolding all_marked_def by blast+
qed

lemma engine_dense:
  assumes f: "finished w pk j ix" and w: "writer_ok w" and t: "totals_ok w" "0 \<le> region_limit w DENSE_REGION"
    and plan: "pm_dense (bp_manifest (wr_plan w)) = map dense_entry_of (bp_dense (wr_plan w))"
    and len: "\<forall>i \<in> set (bp_dense (wr_plan w)). dw_packed_bytes i = dw_length i" and ne: "region_limit w DENSE_REGION \<noteq> 0"
  shows "\<exists>r. dense_reader_init (final_manifest w pk ix) (vd_file (open_package parse pk) ''dense/blob.bin'') = Inr r \<and>
    (\<forall>i \<in> set (bp_dense (wr_plan w)). \<exists>x payload. rd_read_tensor (wr_reader w) (dw_address i) = Inr x \<and>
       encode_dense w i x = Inr payload \<and> get_tensor_bytes r (ta_name (dw_address i)) = Inr payload)"
proof -
  let ?v = "region_view DENSE_REGION pk"
  let ?r = "\<lparr>dr_entries = foldl (\<lambda>d e. od_set d (de_name e) e) [] (map dense_entry_of (bp_dense (wr_plan w))),
    dr_mmap = Some (rd_bytes ?v)\<rparr>"
  have b: "vd_file (open_package parse pk) ''dense/blob.bin'' = Some (rd_bytes ?v)" "rd_bytes ?v \<noteq> []"
    using finished_file(1) [OF f w t, of parse] finished_file(2) [OF f w t] ne by (simp_all add: region_path_def)
  have ok: "dense_region_ok w" using w by (simp add: writer_ok_def dense_ok_def)
  have "\<exists>x payload. rd_read_tensor (wr_reader w) (dw_address i) = Inr x \<and>
      encode_dense w i x = Inr payload \<and> get_tensor_bytes ?r (ta_name (dw_address i)) = Inr payload"
    if i: "i \<in> set (bp_dense (wr_plan w))" for i
  proof -
    obtain c where c: "recorded ?v (dense_pieces w i) c" using finished_recorded(1) [OF f w i] by blast
    have s: "16 \<le> dw_bits i \<longrightarrow> length (dw_spans i) = 1" "distinct (map (\<lambda>i. ta_name (dw_address i)) (bp_dense (wr_plan w)))"
      using ok i by (simp_all add: dense_region_ok_def Let_def)
    have "distinct (map de_name (map dense_entry_of (bp_dense (wr_plan w))))" using s(2) by (simp add: comp_def dense_entry_of_def)
    from entries_of [OF this, of "dense_entry_of i"]
    have "od_index (dr_entries ?r) (ta_name (dw_address i)) = Inr (dense_entry_of i)" using i by (simp add: dense_entry_of_def)
    moreover have "de_length (dense_entry_of i) = dw_length i" "de_byte_offset (dense_entry_of i) = dw_byte_offset i"
      using len i by (simp_all add: de_length_def dense_entry_of_def dw_length_def)
    ultimately show ?thesis using held_dense [OF c _ s(1)] finished_view_synced [OF f, of DENSE_REGION]
      by (simp add: get_tensor_bytes_def)
  qed
  then show ?thesis using b by (intro exI [of _ ?r]) (simp add: dense_reader_init_def plan)
qed

lemma engine_experts:
  assumes f: "finished w pk j ix" and w: "writer_ok w" and t: "totals_ok w" "0 \<le> region_limit w EXPERT_REGION"
    and ne: "has_bank w \<longrightarrow> region_limit w EXPERT_REGION \<noteq> 0" and slots: "0 < ram"
    and ix: "\<forall>i \<in> set (bp_experts (wr_plan w)). record_index (bank_layout w) (es_layer (ew_slice i)) (es_expert (ew_slice i)) = Inr (ew_record_index i)"
  shows "\<exists>r :: 'f runtime option. (case (vd_file (open_package parse pk) ''experts/bank.bin'', pm_expert_layout (final_manifest w pk ix)) of
        (Some bank, Some layout) \<Rightarrow>
          bindE (manager_init (Some bank) layout ram vram 8 device) (\<lambda>mg. Inr (Some (rt_init mg 64 64)))
      | _ \<Rightarrow> Inr None) = Inr r \<and>
    (\<forall>i \<in> set (bp_experts (wr_plan w)). \<exists>rt payload. r = Some rt \<and> encode_expert w (el_record (bank_layout w)) i = Inr payload \<and>
       read_expert_record (rt_manager rt) (es_layer (ew_slice i)) (es_expert (ew_slice i)) = Inr payload)"
proof (cases "has_bank w")
  case False
  then show ?thesis using w by (auto simp: has_bank_def writer_ok_def split: option.splits)
next
  case True
  let ?v = "region_view EXPERT_REGION pk" and ?lay = "bank_layout w"
  have lay: "pm_expert_layout (bp_manifest (wr_plan w)) = Some ?lay" using True by (auto simp: has_bank_def bank_layout_def)
  have b: "vd_file (open_package parse pk) ''experts/bank.bin'' = Some (rd_bytes ?v)" "rd_bytes ?v \<noteq> []"
    using finished_file(1) [OF f w t, of parse] finished_file(2) [OF f w t] ne True by (simp_all add: region_path_def)
  obtain mg :: "'f expert_manager" where mg: "manager_init (Some (rd_bytes ?v)) ?lay ram vram 8 device = Inr mg" "em_mmap mg = Some (rd_bytes ?v)" "em_layout mg = ?lay"
    using slots b(2) by (simp add: manager_init_def ec_init_def Let_def)
  have ok: "expert_region_ok w" using w True by (simp add: writer_ok_def has_bank_def)
  have "\<exists>payload. encode_expert w (el_record ?lay) i = Inr payload \<and>
      read_expert_record mg (es_layer (ew_slice i)) (es_expert (ew_slice i)) = Inr payload" if i: "i \<in> set (bp_experts (wr_plan w))" for i
  proof -
    obtain c where c: "recorded ?v (bank_pieces w i) c" using finished_recorded(2) [OF f w i] by blast
    have "ew_bank_offset i = record_offset (el_record ?lay) (ew_record_index i)"
      using ok i by (simp add: expert_region_ok_def record_offset_def)
    moreover have "record_index ?lay (es_layer (ew_slice i)) (es_expert (ew_slice i)) = Inr (ew_record_index i)" using ix i by blast
    ultimately show ?thesis using held_expert [OF c] finished_view_synced [OF f, of EXPERT_REGION] True mg
      by (simp add: read_expert_record_def byte_range_def)
  qed
  then show ?thesis using b mg lay by (simp add: rt_init_def)
qed

lemma engine_rows:
  assumes f: "finished w pk j ix" and w: "writer_ok w" and t: "totals_ok w" "0 \<le> region_limit w PLE_REGION"
    and ne: "has_ple w \<longrightarrow> region_limit w PLE_REGION \<noteq> 0"
    and side: "has_ple w \<longrightarrow> (\<exists>i. vd_sidecar (open_package parse pk) = Some (Inr i) \<and> pi_row i = pp_row (ple_of w))"
  shows "\<exists>r :: 'f row_store option. (case (vd_file (open_package parse pk) ''ple/table.bin'', vd_sidecar (open_package parse pk)) of
        (Some table, Some sidecar) \<Rightarrow>
          bindE sidecar (\<lambda>ix. bindE (store_init (Some table) ix 65536) (\<lambda>s. Inr (Some s)))
      | _ \<Rightarrow> Inr None) = Inr r \<and>
    (\<forall>s \<in> set (ple_shards (wr_plan w)). \<forall>k. k < nat (pw_num_rows s) \<longrightarrow>
     (\<exists>st spans block. r = Some st \<and>
        section_spans [1, pr_row_width (pp_row (ple_of w))] (pr_bits (pp_row (ple_of w)))
          (pr_group_size (pp_row (ple_of w))) (pr_symmetric (pp_row (ple_of w))) 2 2 = Inr spans \<and>
        encode_ple_shard w (pp_row (ple_of w)) spans s = Inr block \<and>
        read_row_raw st (pw_first_row s + int k) =
          Inr (take (nat (pr_payload_bytes (pp_row (ple_of w)))) (drop (k * nat (pr_payload_bytes (pp_row (ple_of w)))) block))))"
proof (cases "has_ple w")
  case False
  then have "region_limit w PLE_REGION = 0" "ple_shards (wr_plan w) = []"
    using t(1) by (auto simp: totals_ok_def region_limit_def has_ple_def ple_shards_def)
  then show ?thesis using finished_file(1) [OF f w t, of parse] by (simp add: region_path_def)
next
  case True
  let ?v = "region_view PLE_REGION pk" and ?row = "pp_row (ple_of w)"
  have b: "vd_file (open_package parse pk) ''ple/table.bin'' = Some (rd_bytes ?v)" "rd_bytes ?v \<noteq> []"
    using finished_file(1) [OF f w t, of parse] finished_file(2) [OF f w t] ne True by (simp_all add: region_path_def)
  obtain i where i: "vd_sidecar (open_package parse pk) = Some (Inr i)" "pi_row i = ?row" using side True by blast
  let ?st = "\<lparr>rs_index = i, rs_capacity = 65536, rs_cache = [], rs_mmap = Some (rd_bytes ?v)\<rparr> :: 'f row_store"
  have ro: "row_ok ?row" using w True by (simp add: writer_ok_def has_ple_def ple_region_ok_def)
  then have p: "pr_rows_per_page ?row \<noteq> 0" by (simp add: row_ok_def)
  have "\<exists>spans block. section_spans [1, pr_row_width ?row] (pr_bits ?row) (pr_group_size ?row) (pr_symmetric ?row) 2 2 = Inr spans \<and>
      encode_ple_shard w ?row spans s = Inr block \<and> read_row_raw ?st (pw_first_row s + int k) =
        Inr (take (nat (pr_payload_bytes ?row)) (drop (k * nat (pr_payload_bytes ?row)) block))"
    if s: "s \<in> set (ple_shards (wr_plan w))" and k: "k < nat (pw_num_rows s)" for s k
  proof -
    obtain c where c: "recorded ?v (table_pieces w s) c" using finished_recorded(3) [OF f w s] by blast
    show ?thesis using held_rows [OF c _ ro k] finished_view_synced [OF f, of PLE_REGION] True p i(2)
      by (simp add: read_row_raw_def Let_def)
  qed
  then show ?thesis using b i by (simp add: store_init_def)
qed

lemma planned_record_index:
  assumes "plan_experts scan m alignment meth profile = Inr (experts, Some lay)" "i \<in> set experts"
  shows "record_index lay (es_layer (ew_slice i)) (es_expert (ew_slice i)) = Inr (ew_record_index i)"
proof -
  obtain slices where "expert_items lay slices = Inr experts"
    using assms(1) by (auto simp: plan_experts_def plan_bank_def bindE_Inr_iff Let_def split: option.splits if_splits)
  from mapE_mem [OF this [unfolded expert_items_def] assms(2)] show ?thesis by (auto simp: bindE_Inr_iff)
qed

lemma finished_engine:
  assumes plan: "plan_package scan precision features alignment revision meth profile whole = Inr (wr_plan w)"
    and ok: "scan_ok scan" "map_ok (plan_map precision)" and w: "writer_ok w" and ne: "no_empty_region (wr_plan w)"
    and f: "finished w pk j ix" and config: "rd_asset (wr_reader w) ''config.json'' = Some payload"
    and dense: "bp_dense (wr_plan w) \<noteq> []" and slots: "0 < ram"
  shows "\<exists>e :: 'f engine. engine_open (open_package parse pk) ram vram device = Inr e \<and>
    (\<forall>i \<in> set (bp_dense (wr_plan w)). reads_dense w e i) \<and> (\<forall>i \<in> set (bp_experts (wr_plan w)). reads_expert w e i) \<and>
    (\<forall>s \<in> set (ple_shards (wr_plan w)). reads_shard w e s)"
proof -
  let ?d = "open_package parse pk" and ?m = "final_manifest w pk ix" and ?p = "wr_plan w"
  note t = planned_totals [OF plan ok w]
  note o = opened [OF f config, where parse = parse]
  have mat: "materialize_ple_index w = Inr ix" using f by (simp add: finished_def)
  note pix = planned_index [OF plan mat]
  obtain experts lay ple0 where e: "plan_experts scan (plan_map precision) alignment meth profile = Inr (experts, lay)"
      "bp_experts ?p = experts" "pm_expert_layout (bp_manifest ?p) = lay" and
    d: "plan_dense scan (plan_map precision) features meth profile (bp_ple ?p) = Inr (bp_dense ?p, pt_dense_bytes (pm_totals (bp_manifest ?p)))" and
    me: "pm_dense (bp_manifest ?p) = map dense_entry_of (bp_dense ?p)"
    by (rule plan_package_parts [OF plan])
  have limits: "region_limit w DENSE_REGION \<noteq> 0" "has_bank w \<longrightarrow> region_limit w EXPERT_REGION \<noteq> 0"
    "has_ple w \<longrightarrow> region_limit w PLE_REGION \<noteq> 0"
    using ne dense by (simp_all add: no_empty_region_def Let_def region_limit_def has_bank_def has_ple_def)
  have len: "\<forall>i \<in> set (bp_dense ?p). dw_packed_bytes i = dw_length i" using planned_dense_item [OF d ok] by blast
  obtain r where r: "dense_reader_init ?m (vd_file ?d ''dense/blob.bin'') = Inr r"
    "\<forall>i \<in> set (bp_dense ?p). \<exists>x b. rd_read_tensor (wr_reader w) (dw_address i) = Inr x \<and> encode_dense w i x = Inr b \<and>
       get_tensor_bytes r (ta_name (dw_address i)) = Inr b"
    using engine_dense [OF f w t me len limits(1), of parse] by blast
  have ri: "\<forall>i \<in> set (bp_experts ?p). record_index (bank_layout w) (es_layer (ew_slice i)) (es_expert (ew_slice i)) = Inr (ew_record_index i)"
  proof (cases lay)
    case None
    then show ?thesis using w e(3) by (simp add: writer_ok_def)
  next
    case (Some l)
    then show ?thesis using planned_record_index e by (simp add: bank_layout_def)
  qed
  obtain mx where mx: "(case (vd_file ?d ''experts/bank.bin'', pm_expert_layout ?m) of
        (Some bank, Some layout) \<Rightarrow>
          bindE (manager_init (Some bank) layout ram vram 8 device) (\<lambda>mg. Inr (Some (rt_init mg 64 64)))
      | _ \<Rightarrow> Inr None) = Inr (mx :: 'f runtime option)"
    "\<forall>i \<in> set (bp_experts ?p). \<exists>rt payload. mx = Some rt \<and> encode_expert w (el_record (bank_layout w)) i = Inr payload \<and>
       read_expert_record (rt_manager rt) (es_layer (ew_slice i)) (es_expert (ew_slice i)) = Inr payload"
    using engine_experts [where 'f = 'f, where parse = parse and vram = vram and device = device, OF f w t limits(2) slots ri] by (elim exE conjE) (rule that)
  have side: "has_ple w \<longrightarrow> (\<exists>i. vd_sidecar ?d = Some (Inr i) \<and> pi_row i = pp_row (ple_of w))"
    using pix(2) o(6) built_index(3) by blast
  obtain px where px: "(case (vd_file ?d ''ple/table.bin'', vd_sidecar ?d) of
        (Some table, Some sidecar) \<Rightarrow>
          bindE sidecar (\<lambda>ix. bindE (store_init (Some table) ix 65536) (\<lambda>s. Inr (Some s)))
      | _ \<Rightarrow> Inr None) = Inr (px :: 'f row_store option)" and
    rows: "\<forall>s \<in> set (ple_shards ?p). \<forall>k. k < nat (pw_num_rows s) \<longrightarrow>
     (\<exists>st spans block. px = Some st \<and>
        section_spans [1, pr_row_width (pp_row (ple_of w))] (pr_bits (pp_row (ple_of w)))
          (pr_group_size (pp_row (ple_of w))) (pr_symmetric (pp_row (ple_of w))) 2 2 = Inr spans \<and>
        encode_ple_shard w (pp_row (ple_of w)) spans s = Inr block \<and>
        read_row_raw st (pw_first_row s + int k) =
          Inr (take (nat (pr_payload_bytes (pp_row (ple_of w)))) (drop (k * nat (pr_payload_bytes (pp_row (ple_of w)))) block)))"
    using engine_rows [where 'f = 'f, OF f w t limits(3) side] by (elim exE conjE) (rule that)
  let ?e = "\<lparr>en_manifest = ?m, en_dense = r, en_ple = px, en_experts = mx\<rparr>"
  have "engine_open ?d ram vram device = Inr ?e"
    unfolding engine_open_def o(2) option.case bindE_simps r(1) px mx(1) ..
  moreover have "\<forall>i \<in> set (bp_dense ?p). reads_dense w ?e i" using r(2) by (simp add: reads_dense_def)
  moreover have "\<forall>i \<in> set (bp_experts ?p). reads_expert w ?e i" using mx(2) by (simp add: reads_expert_def)
  moreover have "\<forall>s \<in> set (ple_shards ?p). reads_shard w ?e s" using rows by (simp add: reads_shard_def)
  ultimately show ?thesis by blast
qed

text \<open>C2: From the builder to the runtime: after any history of killed attempts and crashes, when an attempt to
  build a planned package returns, the engine opens the directory, and what it reads for every dense tensor, every
  expert and every PLE row is byte for byte what the writer's encoder produced for that item.\<close>

theorem engine_reads_built:
  assumes "plan_package scan precision features alignment revision meth profile whole = Inr (wr_plan w)"
    and "scan_ok scan" "map_ok (plan_map precision)" "experts_regular scan" "shards_regular (wr_plan w)"
    and "no_empty_region (wr_plan w)" "bp_dense (wr_plan w) \<noteq> []" "1 \<le> wr_download_workers w" "wr_resume w"
    and "interrupted w pk" "regions_fit w pk" "build w free pk = (io, Inr out)"
    and "rd_asset (wr_reader w) ''config.json'' = Some payload" "0 < ram_slots"
  shows "\<exists>e :: 'f engine. engine_open (open_package parse (fold exec_pkg io pk)) ram_slots vram_slots device = Inr e \<and>
    (\<forall>i \<in> set (bp_dense (wr_plan w)). reads_dense w e i) \<and> (\<forall>i \<in> set (bp_experts (wr_plan w)). reads_expert w e i) \<and>
    (\<forall>s \<in> set (ple_shards (wr_plan w)). reads_shard w e s)"
proof -
  have w: "writer_ok w" by (rule planned_ok [OF assms(1-5,8)])
  note t = planned_totals [OF assms(1-3) w]
  obtain j ix where f: "finished w (fold exec_pkg io pk) j ix"
    using returned_finished [OF assms(10) w assms(9) t(1) assms(6,11) t(2) assms(12)] by blast
  show ?thesis by (rule finished_engine [OF assms(1-3) w assms(6) f assms(13,7,14)])
qed

theorem engine_reads_built_witness:
  "\<exists>io out (e :: rat engine). build demo_verified 100000 demo_fresh = (io, Inr out) \<and>
     engine_open (open_package (\<lambda>_. Inr demo_config) (fold exec_pkg io demo_fresh)) 4 1 ''cpu'' = Inr e \<and>
     (\<forall>i \<in> set (bp_dense demo_plan). reads_dense demo_verified e i)"
proof -
  have plan: "plan_package demo_dense None [TEXT] 4096 None ''rtn'' ''full'' True = Inr (wr_plan demo_verified)"
    using demo_plan by (simp add: demo_verified_fields)
  have d: "scan_ok demo_dense" "experts_regular demo_dense" "bp_dense demo_plan \<noteq> []" by code_simp+
  have sh: "shards_regular (wr_plan demo_verified)" by (simp add: demo_verified_fields demo_plan_facts shards_regular_def)
  have n: "1 \<le> wr_download_workers demo_verified" "no_empty_region (wr_plan demo_verified)" "bp_dense (wr_plan demo_verified) \<noteq> []"
    "rd_asset (wr_reader demo_verified) ''config.json'' = Some []" "regions_fit demo_verified demo_fresh"
    using d(3) by (simp_all add: demo_verified_fields demo_plan_facts regions_fit_def demo_fresh_def)
  note w = planned_ok [OF plan d(1) demo_checkpoint_ok(2) d(2) sh n(1)]
  have i: "interrupted demo_verified demo_fresh"
    by (rule interrupted.fresh) (simp add: fresh_package_def demo_fresh_def region_view_def)
  note io = interrupted_ok [OF i w demo_verified_fields(3)]
  have cur: "\<And>j. pk_journal demo_fresh = Some j \<Longrightarrow> journal_current demo_verified j" using io by blast
  obtain io out where b: "build demo_verified 100000 demo_fresh = (io, Inr out)"
    by (rule build_returns [OF conjunct1 [OF io] cur w demo_verified_fields(3) demo_verified_ready])
  obtain e :: "rat engine" where
    "engine_open (open_package (\<lambda>_. Inr demo_config) (fold exec_pkg io demo_fresh)) 4 1 ''cpu'' = Inr e"
    "\<forall>i \<in> set (bp_dense (wr_plan demo_verified)). reads_dense demo_verified e i"
    using engine_reads_built [where 'f = rat and parse = "\<lambda>_. Inr demo_config" and ram_slots = 4 and vram_slots = 1 and device = "''cpu''",
      OF plan d(1) demo_checkpoint_ok(2) d(2) sh n(2,3,1) demo_verified_fields(3) i n(5) b n(4)] by auto
  then show ?thesis using b by (auto simp: demo_verified_fields)
qed

end
