(* ===== verification/MemCache.thy ===== *)
theory MemCache
  imports Odict
begin

text \<open>
  The two-tier memory cache of \<open>domainslice/fast_cache.py\<close>: an LRU of experts in VRAM, whose
  tensors are views into one pre-allocated arena, over an LRU of experts in host RAM, optionally
  quantized. Views alias: what an entry of the VRAM tier holds is what its arena slot holds when it
  is read, so the arena is an explicit store. \<open>'w\<close> is a pair of projection tensors in the target
  dtype, \<open>'q\<close> a quantized pair; the calls of one cache use one dtype and one pair of shapes. Streams,
  pinning of host memory and device transfers move values without changing them.
\<close>

section \<open>The arena\<close>

record 'w arena =
  ar_capacity :: int
  ar_pool :: "nat \<Rightarrow> 'w option"
  ar_free :: "nat list"
  ar_key_to_slot :: "(expert_key, nat) odict"
  ar_slot_to_key :: "(nat, expert_key) odict"

definition arena_init :: "int \<Rightarrow> 'w arena" where
  "arena_init capacity =
     (let c = max 1 capacity in
      \<lparr>ar_capacity = c, ar_pool = (\<lambda>_. None), ar_free = rev [0 ..< nat c], ar_key_to_slot = [], ar_slot_to_key = []\<rparr>)"

definition free_slot :: "'w arena \<Rightarrow> expert_key \<Rightarrow> 'w arena \<times> nat option" where
  "free_slot a key =
     (case od_get (ar_key_to_slot a) key of
        None \<Rightarrow> (a, None)
      | Some slot \<Rightarrow> (a\<lparr>ar_key_to_slot := od_remove key (ar_key_to_slot a), ar_slot_to_key := od_remove slot (ar_slot_to_key a),
                       ar_free := ar_free a @ [slot]\<rparr>, Some slot))"

text \<open>With no free slot the oldest allocation is recycled, whoever still holds a view of it. The pop
  of an empty list and \<open>next\<close> of an empty iterator raise.\<close>

definition allocate_slot :: "'w arena \<Rightarrow> expert_key \<Rightarrow> ('w arena \<times> nat) result" where
  "allocate_slot a key =
     (case od_get (ar_key_to_slot a) key of
        Some slot \<Rightarrow> Inr (a, slot)
      | None \<Rightarrow>
          bindE (if ar_free a = [] then
                   (case ar_key_to_slot a of [] \<Rightarrow> Inl RuntimeError | p # _ \<Rightarrow> Inr (fst (free_slot a (fst p))))
                 else Inr a) (\<lambda>a1.
          if ar_free a1 = [] then Inl IndexError
          else
            let slot = last (ar_free a1) in
            Inr (a1\<lparr>ar_free := butlast (ar_free a1), ar_key_to_slot := od_set (ar_key_to_slot a1) key slot,
                    ar_slot_to_key := od_set (ar_slot_to_key a1) slot key\<rparr>, slot)))"

definition arena_reset :: "'w arena \<Rightarrow> 'w arena" where
  "arena_reset a = a\<lparr>ar_free := rev [0 ..< nat (ar_capacity a)], ar_key_to_slot := [], ar_slot_to_key := []\<rparr>"

section \<open>The cache\<close>

datatype 'w vram_entry = Owned 'w | View nat

datatype ('w, 'q) ram_entry = Plain 'w | Packed 'q

record ('w, 'q) mem_cache =
  mc_vram_capacity :: int
  mc_ram_capacity :: int
  mc_quantize :: bool
  mc_use_arena :: bool
  mc_vram :: "(expert_key, 'w vram_entry) odict"
  mc_ram :: "(expert_key, ('w, 'q) ram_entry) odict"
  mc_vram_hits :: int
  mc_ram_hits :: int
  mc_disk_faults :: int
  mc_arena :: "'w arena option"

text \<open>The RTN quantizer: into a quantized pair, into a fresh tensor, into an arena view.\<close>

record ('w, 'q) mem_ops =
  mo_quantize :: "'w \<Rightarrow> 'q"
  mo_dequantize :: "'q \<Rightarrow> 'w"
  mo_dequantize_to :: "'q \<Rightarrow> 'w"

definition mem_init :: "int \<Rightarrow> int \<Rightarrow> bool \<Rightarrow> bool \<Rightarrow> ('w, 'q) mem_cache" where
  "mem_init vram_capacity ram_capacity quantize use_arena =
     \<lparr>mc_vram_capacity = max 0 vram_capacity,
      mc_ram_capacity = (if quantize \<and> ram_capacity = 384 then 1024 else max 1 ram_capacity),
      mc_quantize = quantize, mc_use_arena = use_arena, mc_vram = [], mc_ram = [],
      mc_vram_hits = 0, mc_ram_hits = 0, mc_disk_faults = 0, mc_arena = None\<rparr>"

text \<open>\<open>fits\<close>: the pre-allocation of the arena does not run out of memory.\<close>

definition ensure_arena :: "bool \<Rightarrow> bool \<Rightarrow> ('w, 'q) mem_cache \<Rightarrow> ('w, 'q) mem_cache" where
  "ensure_arena cuda fits s =
     (if mc_arena s = None \<and> mc_use_arena s \<and> cuda \<and> 0 < mc_vram_capacity s
      then if fits then s\<lparr>mc_arena := Some (arena_init (mc_vram_capacity s))\<rparr> else s\<lparr>mc_use_arena := False\<rparr>
      else s)"

definition mem_clear :: "('w, 'q) mem_cache \<Rightarrow> ('w, 'q) mem_cache" where
  "mem_clear s = s\<lparr>mc_vram := [], mc_ram := [], mc_arena := map_option arena_reset (mc_arena s)\<rparr>"

definition evict_oldest_vram :: "('w, 'q) mem_cache \<Rightarrow> ('w, 'q) mem_cache result" where
  "evict_oldest_vram s =
     (if mc_vram_capacity s \<le> int (length (mc_vram s)) then
        bindE (popitem_first (mc_vram s)) (\<lambda>((old_key, old), d).
        Inr (s\<lparr>mc_vram := d,
               mc_arena := (case (mc_arena s, old) of (Some a, View slot) \<Rightarrow> Some (fst (free_slot a old_key)) | (a, _) \<Rightarrow> a)\<rparr>))
      else Inr s)"

text \<open>The steps every insertion into VRAM shares: evict, set up the arena, and either fill a slot and
  keep a view of it, or keep a tensor. The two values are what the two cases compute.\<close>

definition vram_insert :: "bool \<Rightarrow> expert_key \<Rightarrow> 'w \<Rightarrow> 'w \<Rightarrow> ('w, 'q) mem_cache \<Rightarrow> (('w, 'q) mem_cache \<times> 'w) result" where
  "vram_insert fits key into_view fresh s0 =
     bindE (evict_oldest_vram s0) (\<lambda>s1.
     let s = ensure_arena True fits s1 in
     case mc_arena s of
       Some a \<Rightarrow>
         bindE (allocate_slot a key) (\<lambda>(a1, slot).
         Inr (s\<lparr>mc_arena := Some (a1\<lparr>ar_pool := (ar_pool a1)(slot \<mapsto> into_view)\<rparr>),
                mc_vram := od_set (mc_vram s) key (View slot)\<rparr>, into_view))
     | None \<Rightarrow> Inr (s\<lparr>mc_vram := od_set (mc_vram s) key (Owned fresh)\<rparr>, fresh))"

definition ram_insert :: "expert_key \<Rightarrow> ('w, 'q) ram_entry \<Rightarrow> ('w, 'q) mem_cache \<Rightarrow> ('w, 'q) mem_cache result" where
  "ram_insert key e s =
     bindE (if mc_ram_capacity s \<le> int (length (mc_ram s)) then bindE (popitem_first (mc_ram s)) (\<lambda>(old, d). Inr d)
            else Inr (mc_ram s)) (\<lambda>d.
     Inr (s\<lparr>mc_ram := od_set d key e\<rparr>))"

definition from_ram :: "('w, 'q) mem_ops \<Rightarrow> ('w, 'q) ram_entry \<Rightarrow> 'w \<times> 'w" where
  "from_ram ops e = (case e of Plain w \<Rightarrow> (w, w) | Packed q \<Rightarrow> (mo_dequantize_to ops q, mo_dequantize ops q))"

fun prefetch_batch :: "('w, 'q) mem_ops \<Rightarrow> bool \<Rightarrow> bool \<Rightarrow> int \<Rightarrow> int list \<Rightarrow> ('w, 'q) mem_cache \<Rightarrow>
    ('w, 'q) mem_cache result" where
  "prefetch_batch ops cuda fits layer [] s = Inr s"
| "prefetch_batch ops cuda fits layer (expert # experts) s =
     (if \<not> cuda \<or> mc_vram_capacity s \<le> 0 then Inr s
      else if od_in (layer, expert) (mc_vram s) then prefetch_batch ops cuda fits layer experts s
      else
        (case od_get (mc_ram s) (layer, expert) of
           None \<Rightarrow> prefetch_batch ops cuda fits layer experts s
         | Some e \<Rightarrow> bindE (vram_insert fits (layer, expert) (fst (from_ram ops e)) (snd (from_ram ops e)) s) (\<lambda>(s1, w).
             prefetch_batch ops cuda fits layer experts s1)))"

datatype tier_hit = VramHit | RamHit | DiskHit

text \<open>Reading a VRAM entry: a view reads its slot.\<close>

definition view_value :: "('w, 'q) mem_cache \<Rightarrow> 'w vram_entry \<Rightarrow> 'w option" where
  "view_value s e = (case e of Owned w \<Rightarrow> Some w
     | View slot \<Rightarrow> (case mc_arena s of None \<Rightarrow> None | Some a \<Rightarrow> ar_pool a slot))"

definition get_from_ram :: "('w, 'q) mem_ops \<Rightarrow> bool \<Rightarrow> bool \<Rightarrow> expert_key \<Rightarrow> ('w, 'q) ram_entry \<Rightarrow> ('w, 'q) mem_cache \<Rightarrow>
    (('w, 'q) mem_cache \<times> 'w option \<times> tier_hit) result" where
  "get_from_ram ops cuda fits key e s0 =
     bindE (move_to_end key (mc_ram s0)) (\<lambda>d.
     let s = s0\<lparr>mc_ram_hits := mc_ram_hits s0 + 1, mc_ram := d\<rparr> in
     if cuda \<and> 0 < mc_vram_capacity s then
       bindE (vram_insert fits key (fst (from_ram ops e)) (snd (from_ram ops e)) s) (\<lambda>(s1, w). Inr (s1, Some w, RamHit))
     else Inr (s, Some (snd (from_ram ops e)), RamHit))"

definition stage_loaded :: "('w, 'q) mem_ops \<Rightarrow> bool \<Rightarrow> bool \<Rightarrow> expert_key \<Rightarrow> 'w \<Rightarrow> ('w, 'q) mem_cache \<Rightarrow>
    (('w, 'q) mem_cache \<times> 'w option \<times> tier_hit) result" where
  "stage_loaded ops cuda fits key w s =
     bindE (ram_insert key (if mc_quantize s then Packed (mo_quantize ops w) else Plain w) s) (\<lambda>s1.
     if cuda \<and> 0 < mc_vram_capacity s1 then
       bindE (vram_insert fits key w w s1) (\<lambda>(s2, v). Inr (s2, Some v, DiskHit))
     else Inr (s1, Some w, DiskHit))"

text \<open>\<open>load\<close> resolves and materializes the page of the expert and reads its tensors; a failed load
  leaves the tiers as they are.\<close>

definition get_or_load :: "('w, 'q) mem_ops \<Rightarrow> (expert_key \<Rightarrow> 'w result) \<Rightarrow> bool \<Rightarrow> bool \<Rightarrow> expert_key \<Rightarrow> ('w, 'q) mem_cache \<Rightarrow>
    (('w, 'q) mem_cache \<times> ('w option \<times> tier_hit) result) result" where
  "get_or_load ops load cuda fits key s =
     (let ok = (\<lambda>(s1, v, t). Inr (s1, Inr (v, t))) in
      case (if cuda then od_get (mc_vram s) key else None) of
        Some e \<Rightarrow>
          bindE (move_to_end key (mc_vram s)) (\<lambda>d.
          Inr (s\<lparr>mc_vram_hits := mc_vram_hits s + 1, mc_vram := d\<rparr>, Inr (view_value s e, VramHit)))
      | None \<Rightarrow>
          (case od_get (mc_ram s) key of
             Some e \<Rightarrow> bindE (get_from_ram ops cuda fits key e s) ok
           | None \<Rightarrow>
               let s1 = s\<lparr>mc_disk_faults := mc_disk_faults s + 1\<rparr> in
               (case load key of
                  Inl err \<Rightarrow> Inr (s1, Inl err)
                | Inr w \<Rightarrow> bindE (stage_loaded ops cuda fits key w s1) ok)))"

end
