(* ===== verification/MemCacheLaws.thy ===== *)
theory MemCacheLaws
  imports MemCache
begin

text \<open>
  Views into the arena never alias: every VRAM entry owns its slot, so what the cache returns for an
  expert is what was loaded for it, or its dequantization, under any sequence of lookups, prefetches
  and clears, and both tiers keep their capacities.
\<close>

declare split_paired_All [simp del] split_paired_Ex [simp del]

section \<open>Slots\<close>

definition slots_ok :: "'w arena \<Rightarrow> bool" where
  "slots_ok a \<longleftrightarrow> od_ok (ar_key_to_slot a) \<and> distinct (ar_free a) \<and> (\<forall>s \<in> set (ar_free a). int s < ar_capacity a) \<and>
     (\<forall>k s. od_get (ar_key_to_slot a) k = Some s \<longrightarrow> int s < ar_capacity a \<and> s \<notin> set (ar_free a)) \<and>
     (\<forall>k k' s. od_get (ar_key_to_slot a) k = Some s \<longrightarrow> od_get (ar_key_to_slot a) k' = Some s \<longrightarrow> k = k') \<and>
     int (length (ar_key_to_slot a)) + int (length (ar_free a)) = ar_capacity a"

lemma init_slots: "slots_ok (arena_init c)"
  by (auto simp: slots_ok_def arena_init_def Let_def od_get_def)

lemma reset_slots: "0 \<le> ar_capacity a \<Longrightarrow> slots_ok (arena_reset a)"
  by (auto simp: slots_ok_def arena_reset_def od_get_def)

lemma slots_capacity: "slots_ok a \<Longrightarrow> 0 \<le> ar_capacity a"
  by (auto simp: slots_ok_def)

lemma free_slot_ok:
  assumes "slots_ok a" "od_get (ar_key_to_slot a) key = Some slot"
  shows "slots_ok (fst (free_slot a key))" "ar_capacity (fst (free_slot a key)) = ar_capacity a"
    "ar_pool (fst (free_slot a key)) = ar_pool a"
    "ar_key_to_slot (fst (free_slot a key)) = od_remove key (ar_key_to_slot a)"
proof -
  have k: "od_in key (ar_key_to_slot a)" using assms(2) by (auto dest: od_get_Some_in)
  note i = assms(1)[unfolded slots_ok_def]
  have "Suc (length (od_remove key (ar_key_to_slot a))) = length (ar_key_to_slot a)" using i k by (intro length_od_remove) auto
  then show "slots_ok (fst (free_slot a key))"
    using i assms(2) by (auto simp: slots_ok_def free_slot_def od_get_remove split: if_splits)
qed (use assms(2) in \<open>simp_all add: free_slot_def\<close>)

lemma allocate_slot_ok:
  assumes "slots_ok a" "od_get (ar_key_to_slot a) key = None" "int (length (ar_key_to_slot a)) < ar_capacity a"
  shows "\<exists>a' slot. allocate_slot a key = Inr (a', slot) \<and> slots_ok a' \<and> ar_capacity a' = ar_capacity a \<and> ar_pool a' = ar_pool a \<and>
    ar_key_to_slot a' = od_set (ar_key_to_slot a) key slot \<and> (\<forall>k s. od_get (ar_key_to_slot a) k = Some s \<longrightarrow> s \<noteq> slot)"
proof -
  note i = assms(1)[unfolded slots_ok_def]
  have ne: "ar_free a \<noteq> []" using i assms(3) by auto
  then obtain fs slot where fs: "ar_free a = fs @ [slot]" by (metis rev_exhaust)
  let ?a = "a\<lparr>ar_free := fs, ar_key_to_slot := od_set (ar_key_to_slot a) key slot, ar_slot_to_key := od_set (ar_slot_to_key a) slot key\<rparr>"
  have "allocate_slot a key = Inr (?a, slot)" using assms(2) ne by (simp add: allocate_slot_def Let_def fs)
  moreover have new: "\<forall>k s. od_get (ar_key_to_slot a) k = Some s \<longrightarrow> s \<noteq> slot" using i by (force simp: fs)
  moreover have "\<not> od_in key (ar_key_to_slot a)" using assms(2) by (simp add: od_get_eq_None)
  then have "length (od_set (ar_key_to_slot a) key slot) = Suc (length (ar_key_to_slot a))" by (simp add: length_od_set)
  then have "slots_ok ?a" using i new by (auto simp: slots_ok_def fs od_get_set split: if_splits)
  ultimately show ?thesis by (intro exI [of _ ?a] exI [of _ slot]) simp
qed

section \<open>The invariant of the cache\<close>

definition good_value :: "('w, 'q) mem_ops \<Rightarrow> bool \<Rightarrow> 'w \<Rightarrow> 'w \<Rightarrow> bool" where
  "good_value ops quantize w v \<longleftrightarrow>
     v = w \<or> quantize \<and> (v = mo_dequantize ops (mo_quantize ops w) \<or> v = mo_dequantize_to ops (mo_quantize ops w))"

definition good_for :: "('w, 'q) mem_ops \<Rightarrow> (expert_key \<Rightarrow> 'w result) \<Rightarrow> bool \<Rightarrow> expert_key \<Rightarrow> 'w \<Rightarrow> bool" where
  "good_for ops load quantize k v \<longleftrightarrow> (\<exists>w. load k = Inr w \<and> good_value ops quantize w v)"

definition ram_good :: "('w, 'q) mem_ops \<Rightarrow> (expert_key \<Rightarrow> 'w result) \<Rightarrow> bool \<Rightarrow> expert_key \<Rightarrow> ('w, 'q) ram_entry \<Rightarrow> bool" where
  "ram_good ops load quantize k e \<longleftrightarrow> (case e of Plain w \<Rightarrow> load k = Inr w
     | Packed q \<Rightarrow> quantize \<and> (\<exists>w. load k = Inr w \<and> q = mo_quantize ops w))"

definition views_ok :: "('w, 'q) mem_ops \<Rightarrow> (expert_key \<Rightarrow> 'w result) \<Rightarrow> ('w, 'q) mem_cache \<Rightarrow> bool" where
  "views_ok ops load s \<longleftrightarrow> (case mc_arena s of
     None \<Rightarrow> \<forall>k slot. od_get (mc_vram s) k \<noteq> Some (View slot)
   | Some a \<Rightarrow> slots_ok a \<and> ar_capacity a = max 1 (mc_vram_capacity s) \<and>
       (\<forall>k slot. od_get (mc_vram s) k = Some (View slot) \<longleftrightarrow> od_get (ar_key_to_slot a) k = Some slot) \<and>
       (\<forall>k slot. od_get (ar_key_to_slot a) k = Some slot \<longrightarrow>
          (\<exists>v. ar_pool a slot = Some v \<and> good_for ops load (mc_quantize s) k v)))"

lemma views_ok_cong:
  assumes same: "mc_arena s = mc_arena t" "od_get (mc_vram s) = od_get (mc_vram t)" "mc_vram_capacity s = mc_vram_capacity t"
    "mc_quantize s = mc_quantize t"
  shows "views_ok ops load s = views_ok ops load t"
  unfolding views_ok_def same ..

lemma views_ok_update [simp]:
  "views_ok ops load (s\<lparr>mc_ram := d\<rparr>) = views_ok ops load s"
  "views_ok ops load (s\<lparr>mc_ram_hits := n\<rparr>) = views_ok ops load s"
  "views_ok ops load (s\<lparr>mc_ram_hits := n, mc_ram := d\<rparr>) = views_ok ops load s"
  "views_ok ops load (s\<lparr>mc_disk_faults := n\<rparr>) = views_ok ops load s"
  by (rule views_ok_cong; simp)+

definition mem_inv :: "('w, 'q) mem_ops \<Rightarrow> (expert_key \<Rightarrow> 'w result) \<Rightarrow> ('w, 'q) mem_cache \<Rightarrow> bool" where
  "mem_inv ops load s \<longleftrightarrow> od_ok (mc_vram s) \<and> od_ok (mc_ram s) \<and> 0 \<le> mc_vram_capacity s \<and> 1 \<le> mc_ram_capacity s \<and>
     int (length (mc_vram s)) \<le> mc_vram_capacity s \<and> int (length (mc_ram s)) \<le> mc_ram_capacity s \<and>
     (\<forall>k e. od_get (mc_ram s) k = Some e \<longrightarrow> ram_good ops load (mc_quantize s) k e) \<and>
     (\<forall>k v. od_get (mc_vram s) k = Some (Owned v) \<longrightarrow> good_for ops load (mc_quantize s) k v) \<and> views_ok ops load s"

text \<open>What no operation changes.\<close>

definition same_config :: "('w, 'q) mem_cache \<Rightarrow> ('w, 'q) mem_cache \<Rightarrow> bool" where
  "same_config s t \<longleftrightarrow> mc_vram_capacity t = mc_vram_capacity s \<and> mc_ram_capacity t = mc_ram_capacity s \<and> mc_quantize t = mc_quantize s"

lemma same_config_refl [simp]: "same_config s s"
  by (simp add: same_config_def)

lemma same_config_trans: "same_config s t \<Longrightarrow> same_config t u \<Longrightarrow> same_config s u"
  by (simp add: same_config_def)

lemma init_inv: "mem_inv ops load (mem_init v r q u)"
  by (auto simp: mem_inv_def mem_init_def views_ok_def od_get_def max_def)

lemma arena_reset_fields [simp]:
  "ar_key_to_slot (arena_reset a) = []" "ar_capacity (arena_reset a) = ar_capacity a"
  by (simp_all add: arena_reset_def)

lemma od_get_Nil [simp]: "od_get [] k = None"
  by (simp add: od_get_def)

lemma clear_inv: "mem_inv ops load s \<Longrightarrow> mem_inv ops load (mem_clear s)"
  using reset_slots slots_capacity
  by (auto simp: mem_inv_def mem_clear_def views_ok_def split: option.splits)

lemma popitem_get:
  assumes "od_ok (p # d)"
  shows "od_get d k = (if k = fst p then None else od_get (p # d) k)"
  using assms od_get_eq_None [of d "fst p"] by (cases p) (auto simp: od_get_def)

lemma evict_ok:
  assumes i: "mem_inv ops load s" and c: "0 < mc_vram_capacity s" and n: "\<not> od_in key (mc_vram s)"
  shows "\<exists>s'. evict_oldest_vram s = Inr s' \<and> mem_inv ops load s' \<and> same_config s s' \<and> mc_ram s' = mc_ram s \<and>
    int (length (mc_vram s')) < mc_vram_capacity s \<and> \<not> od_in key (mc_vram s')"
proof (cases "mc_vram_capacity s \<le> int (length (mc_vram s))")
  case False
  then show ?thesis using i n by (simp add: evict_oldest_vram_def)
next
  case True
  then obtain old e d where v: "mc_vram s = (old, e) # d" using c by (cases "mc_vram s") auto
  have ok: "od_ok ((old, e) # d)" using i by (simp add: mem_inv_def v)
  note get = popitem_get [OF ok, simplified]
  have old: "od_get (mc_vram s) old = Some e" by (simp add: v od_get_def)
  define s' where "s' = s\<lparr>mc_vram := d,
    mc_arena := (case (mc_arena s, e) of (Some a, View slot) \<Rightarrow> Some (fst (free_slot a old)) | (a, _) \<Rightarrow> a)\<rparr>"
  have e: "evict_oldest_vram s = Inr s'" using True by (simp add: evict_oldest_vram_def v popitem_first_def s'_def)
  have "views_ok ops load s'"
  proof (cases "mc_arena s")
    case None
    then show ?thesis using i by (auto simp: s'_def mem_inv_def views_ok_def get v split: if_splits)
  next
    case (Some a)
    have a: "slots_ok a" "ar_capacity a = max 1 (mc_vram_capacity s)"
      "\<And>k slot. od_get (mc_vram s) k = Some (View slot) \<longleftrightarrow> od_get (ar_key_to_slot a) k = Some slot"
      "\<And>k slot. od_get (ar_key_to_slot a) k = Some slot \<Longrightarrow> \<exists>v. ar_pool a slot = Some v \<and> good_for ops load (mc_quantize s) k v"
      using i Some by (auto simp: mem_inv_def views_ok_def)
    show ?thesis
    proof (cases e)
      case (Owned w)
      have "od_get d k = Some (View slot) \<longleftrightarrow> od_get (ar_key_to_slot a) k = Some slot" for k slot
        using a(3) [of k slot] old Owned get [of k] by (cases "k = old") (auto simp: v)
      then show ?thesis using a Owned Some by (simp add: s'_def views_ok_def)
    next
      case (View slot)
      have sl: "od_get (ar_key_to_slot a) old = Some slot" using a(3) old View by blast
      note fr = free_slot_ok [OF a(1) sl]
      have "od_get d k = Some (View x) \<longleftrightarrow> od_get (od_remove old (ar_key_to_slot a)) k = Some x" for k x
        using a(3) [of k x] get [of k] by (auto simp: v od_get_remove)
      then show ?thesis using a fr View Some by (auto simp: s'_def views_ok_def od_get_remove split: if_splits)
    qed
  qed
  moreover have "od_get d k = Some (Owned w) \<Longrightarrow> od_get (mc_vram s) k = Some (Owned w)" for k w
    using get [of k] by (auto simp: v split: if_splits)
  ultimately have "mem_inv ops load s'" using i ok True by (auto simp: mem_inv_def s'_def v)
  then show ?thesis using e i n True by (auto simp: s'_def same_config_def mem_inv_def v)
qed

lemma ensure_inv:
  assumes "mem_inv ops load s"
  shows "mem_inv ops load (ensure_arena cuda fits s)" "same_config s (ensure_arena cuda fits s)"
    "mc_ram (ensure_arena cuda fits s) = mc_ram s" "mc_vram (ensure_arena cuda fits s) = mc_vram s"
  using assms init_slots [of "mc_vram_capacity s"]
  by (auto simp: ensure_arena_def mem_inv_def views_ok_def same_config_def arena_init_def Let_def od_get_def)

lemma vram_insert_ok:
  assumes i: "mem_inv ops load s" and c: "0 < mc_vram_capacity s" and n: "\<not> od_in key (mc_vram s)"
    and g: "good_for ops load (mc_quantize s) key into_view" "good_for ops load (mc_quantize s) key fresh"
  shows "\<exists>s' v. vram_insert fits key into_view fresh s = Inr (s', v) \<and> mem_inv ops load s' \<and> same_config s s' \<and>
    mc_ram s' = mc_ram s \<and> (v = into_view \<or> v = fresh)"
proof -
  obtain s1 where s1: "evict_oldest_vram s = Inr s1" "mem_inv ops load s1" "same_config s s1" "mc_ram s1 = mc_ram s"
    "int (length (mc_vram s1)) < mc_vram_capacity s" "\<not> od_in key (mc_vram s1)"
    using evict_ok [OF i c n] by blast
  define s2 where "s2 = ensure_arena True fits s1"
  have s2: "mem_inv ops load s2" "same_config s s2" "mc_ram s2 = mc_ram s" "mc_vram s2 = mc_vram s1"
    using ensure_inv [OF s1(2), of True fits] same_config_trans [OF s1(3)] s1(4) by (simp_all add: s2_def)
  have cfg: "mc_vram_capacity s2 = mc_vram_capacity s" "mc_quantize s2 = mc_quantize s" using s2(2) by (simp_all add: same_config_def)
  have len: "length (od_set (mc_vram s2) key e) = Suc (length (mc_vram s2))" for e using s1(6) s2(4) by (simp add: length_od_set)
  show ?thesis
  proof (cases "mc_arena s2")
    case None
    let ?s = "s2\<lparr>mc_vram := od_set (mc_vram s2) key (Owned fresh)\<rparr>"
    have "vram_insert fits key into_view fresh s = Inr (?s, fresh)"
      using s1(1) None by (simp add: vram_insert_def Let_def flip: s2_def)
    moreover have "mem_inv ops load ?s"
      using s2 s1(5) cfg len None g(2) by (auto simp: mem_inv_def views_ok_def od_get_set split: if_splits)
    ultimately show ?thesis using s2 by (auto simp: same_config_def)
  next
    case (Some a)
    have a: "slots_ok a" "ar_capacity a = max 1 (mc_vram_capacity s2)"
      "\<And>k slot. od_get (mc_vram s2) k = Some (View slot) \<longleftrightarrow> od_get (ar_key_to_slot a) k = Some slot"
      "\<And>k slot. od_get (ar_key_to_slot a) k = Some slot \<Longrightarrow> \<exists>v. ar_pool a slot = Some v \<and> good_for ops load (mc_quantize s2) k v"
      using s2(1) Some by (auto simp: mem_inv_def views_ok_def)
    have nk: "od_get (ar_key_to_slot a) key = None"
      using a(3) [of key] s1(6) s2(4) od_get_Some_in [of "mc_vram s2" key] by (cases "od_get (ar_key_to_slot a) key") auto
    have "set (od_keys (ar_key_to_slot a)) \<subseteq> set (od_keys (mc_vram s2))"
    proof
      fix k assume "k \<in> set (od_keys (ar_key_to_slot a))"
      then obtain sl where "od_get (ar_key_to_slot a) k = Some sl" using od_get_eq_None [of "ar_key_to_slot a" k] by auto
      then show "k \<in> set (od_keys (mc_vram s2))" using a(3) od_get_Some_in by metis
    qed
    then have "card (set (od_keys (ar_key_to_slot a))) \<le> card (set (od_keys (mc_vram s2)))" by (intro card_mono) simp_all
    moreover have "card (set (od_keys (ar_key_to_slot a))) = length (ar_key_to_slot a)"
      using a(1) distinct_card [of "od_keys (ar_key_to_slot a)"] by (simp add: slots_ok_def od_ok_def)
    moreover have "card (set (od_keys (mc_vram s2))) \<le> length (mc_vram s2)" using card_length [of "od_keys (mc_vram s2)"] by simp
    ultimately have room: "int (length (ar_key_to_slot a)) < ar_capacity a" using s1(5) s2(4) cfg a(2) by simp
    obtain a1 slot where al: "allocate_slot a key = Inr (a1, slot)" "slots_ok a1" "ar_capacity a1 = ar_capacity a" "ar_pool a1 = ar_pool a"
      "ar_key_to_slot a1 = od_set (ar_key_to_slot a) key slot" "\<forall>k s. od_get (ar_key_to_slot a) k = Some s \<longrightarrow> s \<noteq> slot"
      using allocate_slot_ok [OF a(1) nk room] by blast
    let ?a = "a1\<lparr>ar_pool := (ar_pool a1)(slot \<mapsto> into_view)\<rparr>"
    let ?s = "s2\<lparr>mc_arena := Some ?a, mc_vram := od_set (mc_vram s2) key (View slot)\<rparr>"
    have "vram_insert fits key into_view fresh s = Inr (?s, into_view)"
      using s1(1) Some al(1) by (simp add: vram_insert_def Let_def flip: s2_def)
    moreover have "slots_ok ?a" using al(2) by (simp add: slots_ok_def)
    then have "views_ok ops load ?s" using a al g(1) cfg by (auto simp: views_ok_def od_get_set)
    then have "mem_inv ops load ?s"
      using s2 s1(5) cfg len by (auto simp: mem_inv_def od_get_set split: if_splits)
    ultimately show ?thesis using s2 by (auto simp: same_config_def)
  qed
qed

section \<open>The operations\<close>

lemma from_ram_good:
  assumes "mem_inv ops load s" "od_get (mc_ram s) k = Some e"
  shows "good_for ops load (mc_quantize s) k (fst (from_ram ops e))" "good_for ops load (mc_quantize s) k (snd (from_ram ops e))"
proof -
  have "ram_good ops load (mc_quantize s) k e" using assms by (simp add: mem_inv_def)
  then show "good_for ops load (mc_quantize s) k (fst (from_ram ops e))" "good_for ops load (mc_quantize s) k (snd (from_ram ops e))"
    by (cases e; auto simp: ram_good_def from_ram_def good_for_def good_value_def)+
qed

lemma prefetch_ok:
  "mem_inv ops load s \<Longrightarrow> \<exists>s'. prefetch_batch ops cuda fits layer es s = Inr s' \<and> mem_inv ops load s' \<and> same_config s s'"
proof (induction ops cuda fits layer es s rule: prefetch_batch.induct)
  case (2 ops cuda fits layer expert experts s)
  show ?case
  proof (cases "cuda \<and> 0 < mc_vram_capacity s \<and> \<not> od_in (layer, expert) (mc_vram s)")
    case False
    then show ?thesis using 2 by (cases "cuda \<and> 0 < mc_vram_capacity s") auto
  next
    case True
    show ?thesis
    proof (cases "od_get (mc_ram s) (layer, expert)")
      case None
      then show ?thesis using 2 True by auto
    next
      case (Some e)
      obtain s1 v where s1: "vram_insert fits (layer, expert) (fst (from_ram ops e)) (snd (from_ram ops e)) s = Inr (s1, v)"
        "mem_inv ops load s1" "same_config s s1"
        using vram_insert_ok [OF "2.prems" _ _ from_ram_good [OF "2.prems" Some]] True by blast
      obtain s' where "prefetch_batch ops cuda fits layer experts s1 = Inr s'" "mem_inv ops load s'" "same_config s1 s'"
        using "2.IH"(3) [OF _ _ Some s1(2)] True by (auto simp: not_le)
      then show ?thesis using s1 True Some same_config_trans by auto
    qed
  qed
qed auto

lemma ram_insert_ok:
  assumes i: "mem_inv ops load s" and n: "od_get (mc_ram s) key = None" and g: "ram_good ops load (mc_quantize s) key e"
  shows "\<exists>s'. ram_insert key e s = Inr s' \<and> mem_inv ops load s' \<and> same_config s s' \<and> mc_vram s' = mc_vram s"
proof (cases "mc_ram_capacity s \<le> int (length (mc_ram s))")
  case True
  then obtain p d where d: "mc_ram s = p # d" using i by (cases "mc_ram s") (auto simp: mem_inv_def)
  have ok: "od_ok (p # d)" using i by (simp add: mem_inv_def d)
  have nk: "\<not> od_in key d" using n by (simp add: d od_get_eq_None)
  let ?s = "s\<lparr>mc_ram := od_set d key e\<rparr>"
  have "ram_insert key e s = Inr ?s" using True by (simp add: ram_insert_def d popitem_first_def)
  moreover have "ram_good ops load (mc_quantize s) k x" if "od_get (od_set d key e) k = Some x" for k x
    using that g i popitem_get [OF ok, of k] by (auto simp: od_get_set mem_inv_def d split: if_splits)
  then have "mem_inv ops load ?s" using i ok nk True
    by (auto simp: mem_inv_def d length_od_set)
  ultimately show ?thesis by (auto simp: same_config_def)
next
  case False
  let ?s = "s\<lparr>mc_ram := od_set (mc_ram s) key e\<rparr>"
  have "ram_insert key e s = Inr ?s" using False by (simp add: ram_insert_def)
  moreover have "mem_inv ops load ?s" using i False g n
    by (auto simp: mem_inv_def length_od_set od_get_eq_None od_get_set)
  ultimately show ?thesis by (auto simp: same_config_def)
qed

definition answer_ok :: "('w, 'q) mem_ops \<Rightarrow> bool \<Rightarrow> 'w result \<Rightarrow> ('w option \<times> tier_hit) result \<Rightarrow> bool" where
  "answer_ok ops quantize loaded r \<longleftrightarrow> (case loaded of
     Inl e \<Rightarrow> r = Inl e
   | Inr w \<Rightarrow> \<exists>v t. r = Inr (Some v, t) \<and> good_value ops quantize w v)"

lemma good_for_answer: "good_for ops load q k v \<Longrightarrow> answer_ok ops q (load k) (Inr (Some v, t))"
  by (auto simp: good_for_def answer_ok_def)

lemma get_from_ram_ok:
  assumes i: "mem_inv ops load s" and e: "od_get (mc_ram s) key = Some e" and n: "cuda \<Longrightarrow> \<not> od_in key (mc_vram s)"
  shows "\<exists>s' v t. get_from_ram ops cuda fits key e s = Inr (s', Some v, t) \<and> mem_inv ops load s' \<and> same_config s s' \<and>
    good_for ops load (mc_quantize s) key v"
proof -
  have ok: "od_ok (mc_ram s)" using i by (simp add: mem_inv_def)
  obtain d where d: "move_to_end key (mc_ram s) = Inr d" using move_to_end_total od_get_Some_in [OF e] by (metis od_in_iff)
  define s1 where "s1 = s\<lparr>mc_ram_hits := mc_ram_hits s + 1, mc_ram := d\<rparr>"
  have s1: "mem_inv ops load s1" "same_config s s1" "mc_vram s1 = mc_vram s" "mc_quantize s1 = mc_quantize s" "od_get (mc_ram s1) key = Some e"
    using i move_to_end_props [OF d ok] e by (auto simp: s1_def mem_inv_def same_config_def)
  note g = from_ram_good [OF s1(1,5)]
  show ?thesis
  proof (cases "cuda \<and> 0 < mc_vram_capacity s1")
    case True
    then have "\<not> od_in key (mc_vram s1)" using n s1(3) by simp
    then obtain s2 v where v: "vram_insert fits key (fst (from_ram ops e)) (snd (from_ram ops e)) s1 = Inr (s2, v)" "mem_inv ops load s2"
      "same_config s1 s2" "v = fst (from_ram ops e) \<or> v = snd (from_ram ops e)"
      using vram_insert_ok [OF s1(1) _ _ g] True by blast
    have "get_from_ram ops cuda fits key e s = Inr (s2, Some v, RamHit)"
      using d True v(1) s1(2) by (simp add: get_from_ram_def Let_def same_config_def flip: s1_def)
    then show ?thesis using v g s1(4) same_config_trans [OF s1(2) v(3)] by auto
  next
    case False
    then have "get_from_ram ops cuda fits key e s = Inr (s1, Some (snd (from_ram ops e)), RamHit)"
      using d s1(2) by (auto simp: get_from_ram_def Let_def same_config_def simp flip: s1_def)
    then show ?thesis using g(2) s1 by auto
  qed
qed

lemma stage_loaded_ok:
  assumes i: "mem_inv ops load s" and e: "od_get (mc_ram s) key = None" and n: "cuda \<Longrightarrow> \<not> od_in key (mc_vram s)" and l: "load key = Inr w"
  shows "\<exists>s' v t. stage_loaded ops cuda fits key w s = Inr (s', Some v, t) \<and> mem_inv ops load s' \<and> same_config s s' \<and>
    good_for ops load (mc_quantize s) key v"
proof -
  have "ram_good ops load (mc_quantize s) key (if mc_quantize s then Packed (mo_quantize ops w) else Plain w)"
    using l by (simp add: ram_good_def)
  from ram_insert_ok [OF i e this] obtain s1 where s1:
    "ram_insert key (if mc_quantize s then Packed (mo_quantize ops w) else Plain w) s = Inr s1"
    "mem_inv ops load s1" "same_config s s1" "mc_vram s1 = mc_vram s" by blast
  have g: "good_for ops load (mc_quantize s) key w" "good_for ops load (mc_quantize s1) key w"
    using l by (simp_all add: good_for_def good_value_def)
  show ?thesis
  proof (cases "cuda \<and> 0 < mc_vram_capacity s1")
    case True
    then have "\<not> od_in key (mc_vram s1)" using n s1(4) by simp
    then obtain s2 v where "vram_insert fits key w w s1 = Inr (s2, v)" "mem_inv ops load s2" "same_config s1 s2" "v = w"
      using vram_insert_ok [OF s1(2) _ _ g(2) g(2)] True by blast
    then show ?thesis using s1(1,3) True g(1) same_config_trans by (auto simp: stage_loaded_def)
  next
    case False
    then show ?thesis using s1 g(1) by (auto simp: stage_loaded_def)
  qed
qed

lemma get_or_load_ok:
  assumes i: "mem_inv ops load s"
  shows "\<exists>s' r. get_or_load ops load cuda fits key s = Inr (s', r) \<and> mem_inv ops load s' \<and> same_config s s' \<and>
    answer_ok ops (mc_quantize s) (load key) r"
proof (cases "if cuda then od_get (mc_vram s) key else None")
  case (Some e)
  then have v: "od_get (mc_vram s) key = Some e" by (simp split: if_splits)
  have ok: "od_ok (mc_vram s)" using i by (simp add: mem_inv_def)
  obtain d where d: "move_to_end key (mc_vram s) = Inr d" using move_to_end_total od_get_Some_in [OF v] by (metis od_in_iff)
  let ?s = "s\<lparr>mc_vram_hits := mc_vram_hits s + 1, mc_vram := d\<rparr>"
  have "views_ok ops load ?s = views_ok ops load s" using move_to_end_props(4) [OF d ok] by (intro views_ok_cong) simp_all
  then have "mem_inv ops load ?s" using i move_to_end_props [OF d ok] by (simp add: mem_inv_def)
  moreover have "\<exists>x. view_value s e = Some x \<and> good_for ops load (mc_quantize s) key x"
    using i v by (cases e) (auto simp: mem_inv_def views_ok_def view_value_def split: option.splits)
  then have "answer_ok ops (mc_quantize s) (load key) (Inr (view_value s e, VramHit))" using good_for_answer by fastforce
  ultimately show ?thesis using Some d by (auto simp: get_or_load_def Let_def same_config_def)
next
  case none: None
  then have n: "cuda \<Longrightarrow> \<not> od_in key (mc_vram s)" by (simp add: od_get_eq_None split: if_splits)
  show ?thesis
  proof (cases "od_get (mc_ram s) key")
    case (Some e)
    obtain s' v t where g: "get_from_ram ops cuda fits key e s = Inr (s', Some v, t)" "mem_inv ops load s'" "same_config s s'"
      "good_for ops load (mc_quantize s) key v"
      using get_from_ram_ok [of ops load s key e cuda fits] i Some n by blast
    then have "get_or_load ops load cuda fits key s = Inr (s', Inr (Some v, t))"
      unfolding get_or_load_def Let_def none by (simp add: Some)
    then show ?thesis using g good_for_answer [of ops load "mc_quantize s" key v t] by auto
  next
    case None
    let ?s = "s\<lparr>mc_disk_faults := mc_disk_faults s + 1\<rparr>"
    have i': "mem_inv ops load ?s" using i by (simp add: mem_inv_def)
    have c: "same_config s t \<longleftrightarrow> same_config ?s t" for t by (simp add: same_config_def)
    show ?thesis
    proof (cases "load key")
      case (Inl err)
      then show ?thesis using none None i' by (simp add: get_or_load_def Let_def answer_ok_def same_config_def)
    next
      case (Inr w)
      obtain s' v t where "stage_loaded ops cuda fits key w ?s = Inr (s', Some v, t)" "mem_inv ops load s'" "same_config ?s s'"
        "good_for ops load (mc_quantize s) key v"
        using stage_loaded_ok [OF i', of key cuda w fits] None n Inr by auto
      then show ?thesis using none None Inr c good_for_answer [of ops load "mc_quantize s" key v t]
        by (auto simp: get_or_load_def Let_def)
    qed
  qed
qed

section \<open>The property\<close>

datatype mem_op = GetOrLoad bool bool expert_key | PrefetchBatch bool bool int "int list" | ClearCache

definition mem_step :: "('w, 'q) mem_ops \<Rightarrow> (expert_key \<Rightarrow> 'w result) \<Rightarrow> mem_op \<Rightarrow> ('w, 'q) mem_cache \<Rightarrow> ('w, 'q) mem_cache result" where
  "mem_step ops load op s = (case op of
     GetOrLoad cuda fits key \<Rightarrow> bindE (get_or_load ops load cuda fits key s) (\<lambda>(s1, r). Inr s1)
   | PrefetchBatch cuda fits layer es \<Rightarrow> prefetch_batch ops cuda fits layer es s
   | ClearCache \<Rightarrow> Inr (mem_clear s))"

lemma mem_step_ok:
  assumes "mem_inv ops load s"
  shows "\<exists>s'. mem_step ops load op s = Inr s' \<and> mem_inv ops load s' \<and> same_config s s'"
proof (cases op)
  case (GetOrLoad cuda fits key)
  then show ?thesis using get_or_load_ok [OF assms, of cuda fits key] by (auto simp: mem_step_def)
next
  case (PrefetchBatch cuda fits layer es)
  then show ?thesis using prefetch_ok [OF assms, of cuda fits layer es] by (simp add: mem_step_def)
next
  case ClearCache
  then show ?thesis using clear_inv [OF assms] by (simp add: mem_step_def same_config_def mem_clear_def)
qed

lemma mem_run_ok:
  "mem_inv ops load s \<Longrightarrow> \<exists>s'. foldE (mem_step ops load) steps s = Inr s' \<and> mem_inv ops load s' \<and> same_config s s'"
proof (induction steps arbitrary: s)
  case (Cons op steps)
  obtain s1 where "mem_step ops load op s = Inr s1" "mem_inv ops load s1" "same_config s s1" using mem_step_ok [OF Cons.prems] by blast
  then show ?case using Cons.IH [of s1] same_config_trans by fastforce
qed simp


end
