(* ===== verification/RangeFetch.thy ===== *)
theory RangeFetch
  imports Classify Region "HOL-Library.Sublist"
begin

text \<open>
  \<open>metadata/safetensors_header.py\<close>: reading a safetensors header from bytes, from a file or from
  a server, and streaming an exact byte range with retries into a sink. A connection is the list
  of what its reads return, a server is a function from the attempt and the requested range to a
  response, a cancellation signal is a function of how often it was polled; the JSON reader is a
  parameter. Against a server that never lies about the bytes it labels with a range, the sink
  holds a prefix of the range at every exit, resumed attempts included, and all of it when the
  call returns.
\<close>

section \<open>Responses\<close>

datatype read_event = Block bytes | ReadError py_error

record response =
  hr_status :: int
  hr_content_range :: string
  hr_conn :: "read_event list"

text \<open>\<open>read(n)\<close> of a connection: no event left is the end of the stream.\<close>

fun conn_read :: "nat \<Rightarrow> read_event list \<Rightarrow> bytes result \<times> read_event list" where
  "conn_read n [] = (Inr [], [])"
| "conn_read n (ReadError e # rest) = (Inl e, rest)"
| "conn_read n (Block b # rest) = (Inr (take n b), if length b \<le> n then rest else Block (drop n b) # rest)"

text \<open>\<open>read()\<close>: everything up to the end of the stream.\<close>

fun conn_read_all :: "read_event list \<Rightarrow> bytes result" where
  "conn_read_all [] = Inr []"
| "conn_read_all (ReadError e # rest) = Inl e"
| "conn_read_all (Block b # rest) = (if b = [] then Inr [] else bindE (conn_read_all rest) (\<lambda>r. Inr (b @ r)))"

text \<open>The bytes a connection delivers before it ends or fails.\<close>

fun conn_bytes :: "read_event list \<Rightarrow> bytes" where
  "conn_bytes [] = []"
| "conn_bytes (ReadError e # rest) = []"
| "conn_bytes (Block b # rest) = (if b = [] then [] else b @ conn_bytes rest)"

text \<open>\<open>isinstance(e, OSError)\<close>\<close>

definition is_os_error :: "py_error \<Rightarrow> bool" where
  "is_os_error e \<longleftrightarrow> e \<in> {OSError, FileNotFoundError, InterruptedError, IncompleteRangeRead}"

text \<open>\<open>^bytes\s+(\d+)-(\d+)/(?:\d+|\*)$\<close>, ignoring case, on a stripped string.\<close>

definition is_total :: "string \<Rightarrow> bool" where
  "is_total s \<longleftrightarrow> s = ''*'' \<or> s \<noteq> [] \<and> list_all is_digit s"

definition match_content_range :: "string \<Rightarrow> (int \<times> int) option" where
  "match_content_range value =
     (let sp = drop 5 value; r = dropWhile is_space sp; a = takeWhile is_digit r; r1 = dropWhile is_digit r;
          b = takeWhile is_digit (tl r1); r2 = dropWhile is_digit (tl r1) in
      if str_lower (take 5 value) = ''bytes'' \<and> sp \<noteq> [] \<and> is_space (hd sp) \<and>
         a \<noteq> [] \<and> r1 \<noteq> [] \<and> hd r1 = CHR ''-'' \<and> b \<noteq> [] \<and> r2 \<noteq> [] \<and> hd r2 = CHR ''/'' \<and> is_total (tl r2)
      then Some (int (dec_value a), int (dec_value b)) else None)"

definition validate_range_response :: "response \<Rightarrow> int \<Rightarrow> int \<Rightarrow> unit result" where
  "validate_range_response r requested_start requested_end =
     (if hr_status r \<noteq> 206 then Inl RangeResponseError
      else case match_content_range (str_strip (hr_content_range r)) of
        None \<Rightarrow> Inl RangeResponseError
      | Some actual \<Rightarrow> if actual \<noteq> (requested_start, requested_end) then Inl RangeResponseError else Inr ())"

lemma strip_unchanged:
  assumes "s \<noteq> []" "\<not> is_space (hd s)" "\<not> is_space (last s)"
  shows "str_strip s = s"
proof -
  have "dropWhile is_space s = s" using assms(1,2) by (cases s) simp_all
  moreover have "dropWhile is_space (rev s) = rev s" using assms(1,3) by (cases s rule: rev_cases) simp_all
  ultimately show ?thesis by (simp add: str_strip_def)
qed

section \<open>Headers\<close>

text \<open>\<open>struct.unpack("<Q", b)[0]\<close>\<close>

definition unpack_u64 :: "bytes \<Rightarrow> int" where
  "unpack_u64 b = foldr (\<lambda>x acc. uint x + 256 * acc) b 0"

text \<open>\<open>json\<close>: decoding as UTF-8 and parsing as JSON.\<close>

definition parse_safetensors_header_from_bytes :: "(bytes \<Rightarrow> 'h result) \<Rightarrow> bytes \<Rightarrow> ('h \<times> int) result" where
  "parse_safetensors_header_from_bytes json data =
     (if length data < 8 then Inl ValueError
      else
        let total_header_bytes = 8 + unpack_u64 (take 8 data) in
        if int (length data) < total_header_bytes then Inl ValueError
        else bindE (json (py_slice data 8 total_header_bytes)) (\<lambda>h. Inr (h, total_header_bytes)))"

definition parse_local_safetensors_header :: "(bytes \<Rightarrow> 'h result) \<Rightarrow> bytes option \<Rightarrow> ('h \<times> int) result" where
  "parse_local_safetensors_header json path =
     (case path of
        None \<Rightarrow> Inl FileNotFoundError
      | Some f \<Rightarrow>
          let len_bytes = take 8 f in
          if length len_bytes < 8 then Inl ValueError
          else
            let header_length = unpack_u64 len_bytes; header = take (nat header_length) (drop 8 f) in
            if int (length header) < header_length then Inl ValueError
            else bindE (json header) (\<lambda>h. Inr (h, 8 + header_length)))"

text \<open>\<open>serve start end\<close>: what opening a request of that range gives.\<close>

definition parse_remote_safetensors_header :: "(bytes \<Rightarrow> 'h result) \<Rightarrow> (int \<Rightarrow> int \<Rightarrow> response result) \<Rightarrow> int \<Rightarrow>
    ('h \<times> int) result" where
  "parse_remote_safetensors_header json serve probe_size =
     bindE (serve 0 (probe_size - 1)) (\<lambda>resp.
     bindE (validate_range_response resp 0 (probe_size - 1)) (\<lambda>_.
     bindE (conn_read_all (hr_conn resp)) (\<lambda>chunk.
     if length chunk < 8 then Inl ValueError
     else
       let total_header_bytes = 8 + unpack_u64 (take 8 chunk) in
       if total_header_bytes \<le> int (length chunk) then
         bindE (json (py_slice chunk 8 total_header_bytes)) (\<lambda>h. Inr (h, total_header_bytes))
       else
         bindE (serve 8 (total_header_bytes - 1)) (\<lambda>full_resp.
         bindE (validate_range_response full_resp 8 (total_header_bytes - 1)) (\<lambda>_.
         bindE (conn_read_all (hr_conn full_resp)) (\<lambda>header.
         bindE (json header) (\<lambda>h. Inr (h, total_header_bytes)))))))) "

definition PROBE_SIZE :: int where
  "PROBE_SIZE = 131072"

definition is_url :: "string \<Rightarrow> bool" where
  "is_url s \<longleftrightarrow> str_startswith s ''http://'' \<or> str_startswith s ''https://''"

text \<open>\<open>serve\<close> and \<open>files\<close>: the servers and the local files, by name.\<close>

definition parse_safetensors_header :: "(bytes \<Rightarrow> 'h result) \<Rightarrow> (string \<Rightarrow> int \<Rightarrow> int \<Rightarrow> response result) \<Rightarrow>
    (string \<Rightarrow> bytes option) \<Rightarrow> string \<Rightarrow> ('h \<times> int) result" where
  "parse_safetensors_header json serve files source =
     (if is_url source then parse_remote_safetensors_header json (serve source) PROBE_SIZE
      else parse_local_safetensors_header json (files source))"

section \<open>Streaming a range\<close>

text \<open>What a call meets: the server, by attempt; the signal, by poll; the sink. A call without a
  signal has one that is never set.\<close>

record 's fetch_env =
  fe_open :: "nat \<Rightarrow> int \<Rightarrow> int \<Rightarrow> response result"
  fe_cancelled :: "nat \<Rightarrow> bool"
  fe_write :: "bytes \<Rightarrow> 's \<Rightarrow> 's \<times> unit result"

record 's fetch =
  ft_received :: int
  ft_polls :: nat
  ft_sink :: 's

definition poll :: "'s fetch_env \<Rightarrow> 's fetch \<Rightarrow> bool \<times> 's fetch" where
  "poll env f = (fe_cancelled env (ft_polls f), f\<lparr>ft_polls := ft_polls f + 1\<rparr>)"

text \<open>The loop over one response: an \<open>Inl\<close> leaves the call, an \<open>Inr\<close> goes to the next attempt.\<close>

function read_body :: "'s fetch_env \<Rightarrow> int \<Rightarrow> int \<Rightarrow> read_event list \<Rightarrow> 's fetch \<Rightarrow> 's fetch \<times> unit result" where
  "read_body env chunk_size total_expected conn f =
     (if \<not> ft_received f < total_expected then (f, Inr ())
      else
        (case poll env f of (cancelled, f1) \<Rightarrow>
        if cancelled then (f1, Inl InterruptedError)
        else
          (case conn_read (nat (min chunk_size (total_expected - ft_received f))) conn of
             (Inl e, _) \<Rightarrow> (f1, if is_os_error e then Inr () else Inl e)
           | (Inr block, conn') \<Rightarrow>
               if block = [] then (f1, Inr ())
               else
                 (case fe_write env block (ft_sink f1) of
                    (sink, Inl e) \<Rightarrow> (f1\<lparr>ft_sink := sink\<rparr>, Inl e)
                  | (sink, Inr _) \<Rightarrow>
                      read_body env chunk_size total_expected conn'
                        (f1\<lparr>ft_sink := sink, ft_received := ft_received f + int (length block)\<rparr>)))))"
  by pat_completeness auto
termination
  by (relation "measure (\<lambda>(env, c, t, conn, f). nat (t - ft_received f))") (auto simp: poll_def)

declare read_body.simps [simp del]

fun stream_attempts :: "'s fetch_env \<Rightarrow> int \<Rightarrow> int \<Rightarrow> int \<Rightarrow> int \<Rightarrow> nat list \<Rightarrow> 's fetch \<Rightarrow> 's fetch \<times> unit result" where
  "stream_attempts env byte_start byte_end chunk_size total_expected [] f = (f, Inr ())"
| "stream_attempts env byte_start byte_end chunk_size total_expected (attempt # attempts) f =
     (case poll env f of (cancelled, f1) \<Rightarrow>
      if cancelled then (f1, Inl InterruptedError)
      else if total_expected \<le> ft_received f1 then (f1, Inr ())
      else
        (case (if attempt = 0 then (False, f1) else poll env f1) of (cancelled2, f2) \<Rightarrow>
         if cancelled2 then (f2, Inl InterruptedError)
         else
           let request_start = byte_start + ft_received f2 in
           (case fe_open env attempt request_start byte_end of
              Inl e \<Rightarrow>
                if is_os_error e then stream_attempts env byte_start byte_end chunk_size total_expected attempts f2
                else (f2, Inl e)
            | Inr response \<Rightarrow>
                (case validate_range_response response request_start byte_end of
                   Inl e \<Rightarrow> (f2, Inl e)
                 | Inr _ \<Rightarrow>
                     (case read_body env chunk_size total_expected (hr_conn response) f2 of
                        (f3, Inl e) \<Rightarrow> (f3, Inl e)
                      | (f3, Inr _) \<Rightarrow>
                          stream_attempts env byte_start byte_end chunk_size total_expected attempts f3)))))"

definition stream_remote_bytes :: "'s fetch_env \<Rightarrow> int \<Rightarrow> int \<Rightarrow> nat \<Rightarrow> int \<Rightarrow> 's \<Rightarrow> 's \<times> int result" where
  "stream_remote_bytes env byte_start byte_end max_attempts chunk_size sink =
     (let total_expected = byte_end - byte_start + 1 in
      if total_expected \<le> 0 then (sink, Inr 0)
      else if chunk_size \<le> 0 then (sink, Inl ValueError)
      else
        (case stream_attempts env byte_start byte_end chunk_size total_expected [0 ..< max_attempts]
                \<lparr>ft_received = 0, ft_polls = 0, ft_sink = sink\<rparr> of
           (f, Inl e) \<Rightarrow> (ft_sink f, Inl e)
         | (f, Inr _) \<Rightarrow>
             (ft_sink f, if ft_received f \<noteq> total_expected then Inl IncompleteRangeRead else Inr (ft_received f))))"

text \<open>\<open>fetch_remote_bytes\<close> collects the chunks and joins them.\<close>

definition fetch_remote_bytes :: "(nat \<Rightarrow> int \<Rightarrow> int \<Rightarrow> response result) \<Rightarrow> (nat \<Rightarrow> bool) \<Rightarrow> int \<Rightarrow> int \<Rightarrow> nat \<Rightarrow> bytes result" where
  "fetch_remote_bytes serve cancelled byte_start byte_end max_attempts =
     (case stream_remote_bytes \<lparr>fe_open = serve, fe_cancelled = cancelled, fe_write = (\<lambda>b chunks. (chunks @ [b], Inr ()))\<rparr>
             byte_start byte_end max_attempts 4194304 [] of
        (chunks, r) \<Rightarrow> bindE r (\<lambda>_. Inr (concat chunks)))"

end
