(* ===== verification/PageTypes.thy ===== *)
theory PageTypes
  imports Slicing RangeFetch
begin

text \<open>
  \<open>domainslice/types.py\<close> and the remote half of \<open>domainslice/store.py\<close>: the identities of weight
  pages with the strings they are printed to, and the resolution of a page to the byte ranges of the
  checkpoint. Strings are their UTF-8 bytes.
\<close>

section \<open>Identities\<close>

record model_revision =
  mr_repo_id :: string
  mr_commit_sha :: string

record weight_id =
  wi_layer :: int
  wi_component :: string
  wi_expert_id :: "int option"
  wi_projection :: "string option"

record weight_page_id =
  wp_model_revision :: model_revision
  wp_page_kind :: string
  wp_logical_key :: string
  wp_codec :: string

definition RAW_BF16_CODEC :: string where
  "RAW_BF16_CODEC = ''pt.raw.bf16.v1''"

definition expert_page :: "model_revision \<Rightarrow> int \<Rightarrow> int \<Rightarrow> string \<Rightarrow> weight_page_id" where
  "expert_page revision layer expert codec =
     \<lparr>wp_model_revision = revision, wp_page_kind = ''expert'',
      wp_logical_key = ''layers/'' @ py_str layer @ ''/experts/'' @ py_str expert, wp_codec = codec\<rparr>"

text \<open>\<open>urllib.parse.quote(s, safe='')\<close> and \<open>unquote\<close>\<close>

definition is_alpha :: "char \<Rightarrow> bool" where
  "is_alpha c \<longleftrightarrow> (let n = of_char c :: nat in 65 \<le> n \<and> n \<le> 90 \<or> 97 \<le> n \<and> n \<le> 122)"

definition quote_safe :: "char \<Rightarrow> bool" where
  "quote_safe c \<longleftrightarrow> is_alpha c \<or> is_digit c \<or> c \<in> set ''_.-~''"

definition hex_upper :: "nat \<Rightarrow> char" where
  "hex_upper n = ''0123456789ABCDEF'' ! n"

definition hex_value :: "char \<Rightarrow> nat option" where
  "hex_value c = (let n = of_char c :: nat in
     if 48 \<le> n \<and> n \<le> 57 then Some (n - 48) else if 65 \<le> n \<and> n \<le> 70 then Some (n - 55)
     else if 97 \<le> n \<and> n \<le> 102 then Some (n - 87) else None)"

definition quote_char :: "char \<Rightarrow> string" where
  "quote_char c = (if quote_safe c then [c]
     else [CHR ''%'', hex_upper (of_char c div 16), hex_upper (of_char c mod 16)])"

definition quote :: "string \<Rightarrow> string" where
  "quote s = concat (map quote_char s)"

definition unhex :: "string \<Rightarrow> char option" where
  "unhex s = (case s of a # b # _ \<Rightarrow>
       (case (hex_value a, hex_value b) of (Some x, Some y) \<Rightarrow> Some (char_of (16 * x + y)) | _ \<Rightarrow> None)
     | _ \<Rightarrow> None)"

function unquote :: "string \<Rightarrow> string" where
  "unquote s =
     (if s = [] then []
      else if hd s = CHR ''%'' then
        (case unhex (tl s) of Some c \<Rightarrow> c # unquote (drop 3 s) | None \<Rightarrow> hd s # unquote (tl s))
      else hd s # unquote (tl s))"
  by pat_completeness auto
termination by (relation "measure length") auto

declare unquote.simps [simp del]

definition tensor_page :: "model_revision \<Rightarrow> string \<Rightarrow> string \<Rightarrow> weight_page_id result" where
  "tensor_page revision name codec =
     (if name = [] then Inl ValueError
      else Inr \<lparr>wp_model_revision = revision, wp_page_kind = ''tensor'', wp_logical_key = ''tensors/'' @ quote name,
        wp_codec = codec\<rparr>)"

text \<open>\<open>int(s)\<close>: surrounding space, one sign, digits with single underscores between them.\<close>

definition py_int_of :: "string \<Rightarrow> int result" where
  "py_int_of s =
     (let t = str_strip s; negative = (t \<noteq> [] \<and> hd t = CHR ''-'');
          d = (if t \<noteq> [] \<and> (hd t = CHR ''-'' \<or> hd t = CHR ''+'') then tl t else t);
          parts = str_split (CHR ''_'') d in
      if \<forall>p \<in> set parts. p \<noteq> [] \<and> list_all is_digit p
      then Inr (if negative then - int (dec_value (concat parts)) else int (dec_value (concat parts)))
      else Inl ValueError)"

definition expert_coordinates :: "weight_page_id \<Rightarrow> (int \<times> int) result" where
  "expert_coordinates p =
     (let parts = str_split (CHR ''/'') (wp_logical_key p) in
      if wp_page_kind p \<noteq> ''expert'' \<or> length parts \<noteq> 4 \<or> parts ! 0 \<noteq> ''layers'' then Inl ValueError
      else if parts ! 2 \<noteq> ''experts'' then Inl ValueError
      else bindE (py_int_of (parts ! 1)) (\<lambda>layer. bindE (py_int_of (parts ! 3)) (\<lambda>expert. Inr (layer, expert))))"

definition page_tensor_name :: "weight_page_id \<Rightarrow> string result" where
  "page_tensor_name p =
     (let prefix = ''tensors/'' in
      if wp_page_kind p \<noteq> ''tensor'' \<or> \<not> str_startswith (wp_logical_key p) prefix then Inl ValueError
      else
        let encoded = drop (length prefix) (wp_logical_key p) in
        if encoded = [] then Inl ValueError else Inr (unquote encoded))"

record page_descriptor =
  pd_page_id :: weight_page_id
  pd_weight_ids :: "weight_id list"
  pd_source_slices :: "source_slice list"
  pd_output_layout :: record_layout
  pd_expected_bytes :: int

record page_handle =
  ph_page_id :: weight_page_id
  ph_checksum :: string
  ph_size_bytes :: int
  ph_cache_hit :: bool
  ph_bytes_fetched :: int
  ph_bytes_resumed :: int
  ph_cache_occupancy_bytes :: int

record store_stats =
  sx_cache_hits :: int
  sx_cache_misses :: int
  sx_remote_payload_bytes :: int
  sx_resumed_bytes :: int
  sx_evictions :: int
  sx_corruptions :: int
  sx_cache_occupancy_bytes :: int
  sx_cached_pages :: int

section \<open>The remote store\<close>

record remote_store =
  rm_model_revision :: model_revision
  rm_tensors :: "(string, tensor_address) odict"
  rm_is_moe :: bool
  rm_num_experts :: "int option"
  rm_num_hidden_layers :: int
  rm_max_workers :: int
  rm_chunk_size :: int

definition remote_init :: "model_revision \<Rightarrow> (string, tensor_address) odict \<Rightarrow> bool \<Rightarrow> int option \<Rightarrow> int \<Rightarrow> int \<Rightarrow> int \<Rightarrow>
    remote_store result" where
  "remote_init revision tensors is_moe num_experts num_layers max_workers chunk_size =
     (if max_workers < 1 then Inl ValueError
      else if chunk_size < 1 then Inl ValueError
      else Inr \<lparr>rm_model_revision = revision, rm_tensors = tensors, rm_is_moe = is_moe, rm_num_experts = num_experts,
        rm_num_hidden_layers = num_layers, rm_max_workers = max_workers, rm_chunk_size = chunk_size\<rparr>)"

definition raw_spec :: "string \<Rightarrow> int list \<Rightarrow> projection_spec" where
  "raw_spec name shape = \<lparr>ps_name = name, ps_shape = shape, ps_bits = 16, ps_group_size = -1, ps_symmetric = True,
     ps_codec_id = RAW_BF16_CODEC\<rparr>"

definition resolve_tensor :: "remote_store \<Rightarrow> weight_page_id \<Rightarrow> page_descriptor result" where
  "resolve_tensor r p =
     bindE (page_tensor_name p) (\<lambda>name.
     case od_get (rm_tensors r) name of
       None \<Rightarrow> Inl DomainSliceError
     | Some a \<Rightarrow>
         if ta_dtype a \<noteq> ''BF16'' then Inl DomainSliceError
         else
           bindE (record_build [raw_spec ''tensor'' (ta_shape a)] PAGE_BYTES 2 2) (\<lambda>layout.
           Inr \<lparr>pd_page_id = p,
                pd_weight_ids = [\<lparr>wi_layer = (case layer_index (ta_name a) of Some l \<Rightarrow> l | None \<Rightarrow> -1),
                  wi_component = ''backbone'', wi_expert_id = None, wi_projection = Some (ta_name a)\<rparr>],
                pd_source_slices = [\<lparr>ss_tensor = ta_name a, ss_shard = ta_shard a, ss_projection = ''tensor'',
                  ss_dtype = ta_dtype a, ss_shape = ta_shape a, ss_byte_start = ta_byte_start a,
                  ss_byte_end = ta_byte_end a, ss_expert_index = None\<rparr>],
                pd_output_layout = layout, pd_expected_bytes = ta_size_bytes a\<rparr>))"

definition expert_descriptor :: "weight_page_id \<Rightarrow> int \<Rightarrow> int \<Rightarrow> source_slice list \<Rightarrow> page_descriptor result" where
  "expert_descriptor p layer expert source_slices =
     (if source_slices = [] then Inl DomainSliceError
      else if \<exists>s \<in> set source_slices. ss_dtype s \<noteq> ''BF16'' then Inl DomainSliceError
      else
        bindE (record_build (map (\<lambda>s. raw_spec (ss_projection s) (ss_shape s)) source_slices) PAGE_BYTES 2 2) (\<lambda>layout.
        let expected_bytes = sum_list (map ss_size_bytes source_slices) in
        if rl_payload_bytes layout \<noteq> expected_bytes then Inl DomainSliceError
        else Inr \<lparr>pd_page_id = p,
               pd_weight_ids = map (\<lambda>s. \<lparr>wi_layer = layer, wi_component = ''routed_expert'', wi_expert_id = Some expert,
                 wi_projection = Some (ss_projection s)\<rparr>) source_slices,
               pd_source_slices = source_slices, pd_output_layout = layout, pd_expected_bytes = expected_bytes\<rparr>))"

definition resolve_expert :: "remote_store \<Rightarrow> weight_page_id \<Rightarrow> page_descriptor result" where
  "resolve_expert r p =
     bindE (expert_coordinates p) (\<lambda>(layer, expert).
     case rm_num_experts r of
       None \<Rightarrow> Inl DomainSliceError
     | Some num_experts \<Rightarrow>
         if \<not> rm_is_moe r then Inl DomainSliceError
         else if \<not> (0 \<le> layer \<and> layer < rm_num_hidden_layers r) then Inl DomainSliceError
         else if \<not> (0 \<le> expert \<and> expert < num_experts) then Inl DomainSliceError
         else
           bindE (build_expert_slices (rm_tensors r) num_experts (Some [layer]) (Some [expert])) (\<lambda>resolved.
           if length resolved \<noteq> 1 then Inl DomainSliceError
           else expert_descriptor p layer expert (es_projections (hd resolved))))"

definition remote_resolve :: "remote_store \<Rightarrow> weight_page_id \<Rightarrow> page_descriptor result" where
  "remote_resolve r p =
     (if wp_model_revision p \<noteq> rm_model_revision r then Inl DomainSliceError
      else if wp_codec p \<noteq> RAW_BF16_CODEC then Inl DomainSliceError
      else if wp_page_kind p = ''tensor'' then resolve_tensor r p
      else if wp_page_kind p \<noteq> ''expert'' then Inl DomainSliceError
      else resolve_expert r p)"

section \<open>Resuming one fragment\<close>

text \<open>\<open>disk\<close>: how the file system takes an append, by block and file. The file as it is left is
  returned with the result, on every path.\<close>

definition fetch_slice_to_file :: "remote_store \<Rightarrow> bytes fetch_env \<Rightarrow> source_slice \<Rightarrow> bytes option \<Rightarrow>
    bytes option \<times> (int \<times> int) result" where
  "fetch_slice_to_file r env s destination0 =
     (let expected = ss_size_bytes s;
          destination = (case destination0 of Some f \<Rightarrow> if expected < int (length f) then None else Some f | None \<Rightarrow> None);
          existing = (case destination of Some f \<Rightarrow> int (length f) | None \<Rightarrow> 0) in
      if existing = expected then (destination, Inr (0, existing))
      else
        (case stream_remote_bytes env (ss_byte_start s + existing) (ss_byte_end s - 1) 6 (rm_chunk_size r)
                (case destination of Some f \<Rightarrow> f | None \<Rightarrow> []) of
           (f, Inl e) \<Rightarrow> (Some f, Inl e)
         | (f, Inr fetched) \<Rightarrow>
             (Some f, if int (length f) \<noteq> expected then Inl DomainSliceError else Inr (fetched, existing))))"

section \<open>Page names round trip\<close>

lemma split_append:
  "c \<notin> set a \<Longrightarrow> str_split c (a @ c # b) = a # str_split c b"
  by (induction a) auto

lemma split_none: "c \<notin> set a \<Longrightarrow> str_split c a = [a]"
  by (induction a) auto

lemma py_str_chars: "c \<in> set (py_str i) \<Longrightarrow> is_digit c \<or> c = CHR ''-''"
  using nat_digits_chars by (auto simp: py_str_def split: if_splits)

lemma digit_other: "\<not> is_digit (CHR ''/'')" "\<not> is_digit (CHR ''_'')" "\<not> is_digit (CHR ''-'')" "\<not> is_digit (CHR ''+'')" "\<not> is_digit (CHR ''%'')"
  by (simp_all add: is_digit_def)

lemma digits_not_in: "\<not> is_digit c \<Longrightarrow> c \<notin> set (nat_digits n)"
  using nat_digits_chars by blast

lemma py_str_slash [simp]: "CHR ''/'' \<notin> set (py_str i)"
  using py_str_chars [of "CHR ''/''" i] digit_other(1) by auto

lemma py_str_no_space:
  "py_str i \<noteq> []" "\<not> is_space (hd (py_str i))" "\<not> is_space (last (py_str i))"
proof -
  show n: "py_str i \<noteq> []" by (simp add: py_str_def)
  have "\<not> is_space c" if "c \<in> set (py_str i)" for c
    using py_str_chars [OF that] by (auto simp: is_digit_def is_space_def)
  then show "\<not> is_space (hd (py_str i))" "\<not> is_space (last (py_str i))" using n by simp_all
qed

lemma py_int_of_str [simp]: "py_int_of (py_str i) = Inr i"
proof -
  have s: "str_strip (py_str i) = py_str i" using py_str_no_space by (rule strip_unchanged)
  have h: "is_digit (hd (nat_digits n))" for n by (rule nat_digits_chars [where n = n]) simp
  have d: "str_split (CHR ''_'') (nat_digits n) = [nat_digits n]" "list_all is_digit (nat_digits n)" for n
    using split_none [OF digits_not_in [OF digit_other(2)], of n] nat_digits_chars [of _ n] by (auto simp: list_all_iff)
  have "hd (nat_digits n) \<noteq> c" if "\<not> is_digit c" for n c using h [of n] that by blast
  note d = d this [OF digit_other(3)] this [OF digit_other(4)]
  show ?thesis
  proof (cases "i < 0")
    case True
    then have "py_str i = CHR ''-'' # nat_digits (nat (- i))" by (simp add: py_str_def)
    then show ?thesis unfolding py_int_of_def s Let_def using True d(1,2) [of "nat (- i)"] by simp
  next
    case False
    then have "py_str i = nat_digits (nat i)" by (simp add: py_str_def)
    then show ?thesis unfolding py_int_of_def s Let_def using False d [of "nat i"] by simp
  qed
qed

lemma hex_value_upper: "n < 16 \<Longrightarrow> hex_value (hex_upper n) = Some n"
proof -
  have "\<forall>n \<in> set [0 ..< 16]. hex_value (hex_upper n) = Some n" by code_simp
  then show "n < 16 \<Longrightarrow> hex_value (hex_upper n) = Some n" by auto
qed

lemma unquote_quote: "unquote (quote s) = s"
proof (induction s)
  case Nil
  then show ?case by (simp add: quote_def unquote.simps)
next
  case (Cons c s)
  have b: "(of_char c :: nat) < 256" by (metis of_char_of nat_of_char_less_256)
  have q: "quote (c # s) = quote_char c @ quote s" by (simp add: quote_def)
  show ?case
  proof (cases "quote_safe c")
    case True
    then have "c \<noteq> CHR ''%''" by (auto simp: quote_safe_def is_alpha_def is_digit_def)
    then show ?thesis using True Cons.IH by (simp add: q quote_char_def unquote.simps [of "c # quote s"])
  next
    case False
    have "(of_char c :: nat) div 16 < 16" using b by (intro less_mult_imp_div_less) simp
    then have "unhex (hex_upper (of_char c div 16) # hex_upper (of_char c mod 16) # quote s) = Some c"
      by (simp add: unhex_def hex_value_upper)
    then show ?thesis using False Cons.IH
      by (simp add: q quote_char_def unquote.simps [of "CHR ''%'' # hex_upper (of_char c div 16) # hex_upper (of_char c mod 16) # quote s"])
  qed
qed

text \<open>C40: An expert page names its layer and expert, a tensor page its tensor, for every integer and every
  nonempty name; two names give two pages.\<close>

theorem page_names_round_trip:
  "expert_coordinates (expert_page revision layer expert codec) = Inr (layer, expert) \<and>
   (case tensor_page revision name codec of Inl e \<Rightarrow> e = ValueError \<and> name = [] | Inr p \<Rightarrow> page_tensor_name p = Inr name)"
proof
  show "expert_coordinates (expert_page revision layer expert codec) = Inr (layer, expert)"
  proof -
    have "str_split (CHR ''/'') (''layers/'' @ py_str layer @ ''/experts/'' @ py_str expert) =
        [''layers'', py_str layer, ''experts'', py_str expert]"
      using split_append [of "CHR ''/''" "py_str layer" "''experts/'' @ py_str expert"] split_none [of "CHR ''/''" "py_str expert"] by simp
    then show ?thesis by (simp add: expert_coordinates_def expert_page_def)
  qed
  have "quote name = [] \<Longrightarrow> name = []" using unquote_quote [of name] by (simp add: unquote.simps)
  then show "case tensor_page revision name codec of Inl e \<Rightarrow> e = ValueError \<and> name = [] | Inr p \<Rightarrow> page_tensor_name p = Inr name"
    by (auto simp: tensor_page_def page_tensor_name_def str_startswith_def unquote_quote Let_def)
qed

end
