(* ===== verification/PageStore.thy ===== *)
theory PageStore
  imports PageTypes
begin

text \<open>
  The local page cache and the composite store of \<open>domainslice/store.py\<close>. The state of a store is
  what is on its disk (pages, manifests, partial fragments with their journals), the rows of its
  database, and the leases and reservations it keeps in memory. Paths are the cache keys they are
  built from; the cache key of a page and SHA-256 are parameters, the clock is an argument of the
  operations that read it. Each operation takes the store's lock, so a history of several threads is
  a sequence of them.
\<close>

record digests =
  dg_key :: "weight_page_id \<Rightarrow> string"
  dg_sha :: "bytes \<Rightarrow> string"

section \<open>State\<close>

record page_row =
  rw_size_bytes :: int
  rw_checksum :: string
  rw_last_access :: int

record page_record =
  mf_descriptor :: page_descriptor
  mf_sha256 :: string
  mf_size_bytes :: int

record fragment_record =
  fr_tensor :: string
  fr_size_bytes :: int
  fr_sha256 :: string

text \<open>The fragments of a page by index, and its journal: \<open>None\<close> when it is missing or cannot be read.\<close>

record partial_page =
  pt_fragments :: "nat \<Rightarrow> bytes option"
  pt_journal :: "(nat, fragment_record) odict option"

text \<open>A manifest that cannot be parsed is \<open>Some None\<close>.\<close>

record page_store =
  st_max_cache_bytes :: int
  st_pages :: "string \<Rightarrow> bytes option"
  st_manifests :: "string \<Rightarrow> page_record option option"
  st_rows :: "(string, page_row) odict"
  st_partial :: "string \<Rightarrow> partial_page"
  st_leases :: "(string, int) odict"
  st_reservations :: "(string, int) odict"
  st_evictions :: int
  st_corruptions :: int

definition no_partial :: partial_page where
  "no_partial = \<lparr>pt_fragments = (\<lambda>_. None), pt_journal = None\<rparr>"

definition store_open :: "int \<Rightarrow> page_store result" where
  "store_open max_cache_bytes =
     (if max_cache_bytes \<le> 0 then Inl ValueError
      else Inr \<lparr>st_max_cache_bytes = max_cache_bytes, st_pages = (\<lambda>_. None), st_manifests = (\<lambda>_. None), st_rows = [],
        st_partial = (\<lambda>_. no_partial), st_leases = [], st_reservations = [], st_evictions = 0, st_corruptions = 0\<rparr>)"

text \<open>A restart keeps the disk and the database.\<close>

definition store_restart :: "page_store \<Rightarrow> page_store" where
  "store_restart s = s\<lparr>st_leases := [], st_reservations := [], st_evictions := 0, st_corruptions := 0\<rparr>"

definition occupancy_bytes :: "page_store \<Rightarrow> int" where
  "occupancy_bytes s = sum_list (map (\<lambda>p. rw_size_bytes (snd p)) (st_rows s))"

definition page_count :: "page_store \<Rightarrow> int" where
  "page_count s = int (length (st_rows s))"

definition lease_count :: "page_store \<Rightarrow> string \<Rightarrow> int" where
  "lease_count s key = (case od_get (st_leases s) key of Some n \<Rightarrow> n | None \<Rightarrow> 0)"

section \<open>Lookup\<close>

definition unlink_page :: "string \<Rightarrow> page_store \<Rightarrow> page_store" where
  "unlink_page key s = s\<lparr>st_pages := (st_pages s)(key := None), st_manifests := (st_manifests s)(key := None),
     st_rows := od_remove key (st_rows s)\<rparr>"

text \<open>\<open>INSERT OR REPLACE\<close>: the old row of the key goes, the new one is last.\<close>

definition replace_row :: "string \<Rightarrow> page_row \<Rightarrow> page_store \<Rightarrow> page_store" where
  "replace_row key row s = s\<lparr>st_rows := od_remove key (st_rows s) @ [(key, row)]\<rparr>"

definition acquire_lease :: "string \<Rightarrow> page_store \<Rightarrow> page_store" where
  "acquire_lease key s = s\<lparr>st_leases := od_set (st_leases s) key (lease_count s key + 1)\<rparr>"

definition manifest_valid :: "digests \<Rightarrow> weight_page_id \<Rightarrow> bytes \<Rightarrow> page_record \<Rightarrow> bool" where
  "manifest_valid d page_id page m \<longleftrightarrow> pd_page_id (mf_descriptor m) = page_id \<and> int (length page) = mf_size_bytes m \<and>
     dg_sha d page = mf_sha256 m"

definition store_lookup :: "digests \<Rightarrow> weight_page_id \<Rightarrow> bool \<Rightarrow> int \<Rightarrow> page_store \<Rightarrow> page_store \<times> page_handle option" where
  "store_lookup d page_id acquire now s =
     (let key = dg_key d page_id in
      case (st_pages s key, st_manifests s key) of
        (Some page, Some manifest) \<Rightarrow>
          (case manifest of
             Some m \<Rightarrow>
               if manifest_valid d page_id page m then
                 let s1 = replace_row key \<lparr>rw_size_bytes = mf_size_bytes m, rw_checksum = mf_sha256 m, rw_last_access = now\<rparr> s;
                     s2 = (if acquire then acquire_lease key s1 else s1) in
                 (s2, Some \<lparr>ph_page_id = page_id, ph_checksum = mf_sha256 m, ph_size_bytes = mf_size_bytes m,
                        ph_cache_hit = True, ph_bytes_fetched = 0, ph_bytes_resumed = 0,
                        ph_cache_occupancy_bytes = occupancy_bytes s2\<rparr>)
               else (unlink_page key (s\<lparr>st_corruptions := st_corruptions s + 1\<rparr>), None)
           | None \<Rightarrow> (unlink_page key (s\<lparr>st_corruptions := st_corruptions s + 1\<rparr>), None))
      | _ \<Rightarrow> (s\<lparr>st_rows := od_remove key (st_rows s)\<rparr>, None))"

definition store_resolve :: "digests \<Rightarrow> weight_page_id \<Rightarrow> page_store \<Rightarrow> page_descriptor option" where
  "store_resolve d page_id s =
     (case st_manifests s (dg_key d page_id) of
        Some (Some m) \<Rightarrow> if pd_page_id (mf_descriptor m) = page_id then Some (mf_descriptor m) else None
      | _ \<Rightarrow> None)"

section \<open>Capacity\<close>

definition find_victim :: "string \<Rightarrow> page_store \<Rightarrow> string option" where
  "find_victim protect_key s =
     (case filter (\<lambda>p. fst p \<noteq> protect_key \<and> lease_count s (fst p) = 0) (sort_key (\<lambda>p. rw_last_access (snd p)) (st_rows s)) of
        [] \<Rightarrow> None | p # _ \<Rightarrow> Some (fst p))"

definition reserved_elsewhere :: "string \<Rightarrow> page_store \<Rightarrow> int" where
  "reserved_elsewhere protect_key s = sum_list (map snd (od_remove protect_key (st_reservations s)))"

definition evict_page :: "string \<Rightarrow> page_store \<Rightarrow> page_store" where
  "evict_page key s = (unlink_page key s)\<lparr>st_evictions := st_evictions s + 1\<rparr>"

lemma find_victim_in: "find_victim protect_key s = Some k \<Longrightarrow> od_in k (st_rows s) \<and> k \<noteq> protect_key \<and> lease_count s k = 0"
proof -
  assume v: "find_victim protect_key s = Some k"
  let ?f = "filter (\<lambda>p. fst p \<noteq> protect_key \<and> lease_count s (fst p) = 0) (sort_key (\<lambda>p. rw_last_access (snd p)) (st_rows s))"
  obtain p ps where p: "?f = p # ps" "k = fst p" using v by (auto simp: find_victim_def split: list.splits)
  have "p \<in> set ?f" unfolding p(1) by simp
  then have "p \<in> set (st_rows s)" "fst p \<noteq> protect_key" "lease_count s (fst p) = 0" by simp_all
  then show ?thesis using p(2) by (simp add: od_keys_def)
qed

function make_room :: "int \<Rightarrow> string \<Rightarrow> page_store \<Rightarrow> page_store \<times> unit result" where
  "make_room incoming protect_key s =
     (if occupancy_bytes s + reserved_elsewhere protect_key s + incoming \<le> st_max_cache_bytes s then (s, Inr ())
      else (case find_victim protect_key s of
              None \<Rightarrow> (s, Inl CacheBudgetError)
            | Some key \<Rightarrow> make_room incoming protect_key (evict_page key s)))"
  by pat_completeness auto
termination
proof (relation "measure (\<lambda>(i, k, s). length (st_rows s))")
  fix incoming protect_key s key
  assume "find_victim protect_key s = Some key"
  then have "key \<in> fst ` set (st_rows s)" using find_victim_in [of protect_key s key] by (simp add: od_keys_def)
  then obtain p where "p \<in> set (st_rows s)" "\<not> fst p \<noteq> key" by auto
  then have "length (od_remove key (st_rows s)) < length (st_rows s)"
    unfolding od_remove_def by (rule length_filter_less)
  then show "((incoming, protect_key, evict_page key s), incoming, protect_key, s) \<in> measure (\<lambda>(i, k, s). length (st_rows s))"
    by (simp add: evict_page_def unlink_page_def)
qed simp

declare make_room.simps [simp del]

definition ensure_capacity :: "int \<Rightarrow> string \<Rightarrow> page_store \<Rightarrow> page_store \<times> unit result" where
  "ensure_capacity incoming protect_key s =
     (if st_max_cache_bytes s < incoming then (s, Inl CacheBudgetError) else make_room incoming protect_key s)"

definition store_reserve :: "digests \<Rightarrow> weight_page_id \<Rightarrow> int \<Rightarrow> page_store \<Rightarrow> page_store \<times> unit result" where
  "store_reserve d page_id size_bytes s =
     (let key = dg_key d page_id in
      if od_in key (st_reservations s) then (s, Inr ())
      else (case ensure_capacity size_bytes key s of
              (s1, Inl e) \<Rightarrow> (s1, Inl e)
            | (s1, Inr _) \<Rightarrow> (s1\<lparr>st_reservations := od_set (st_reservations s1) key size_bytes\<rparr>, Inr ())))"

definition cancel_reservation :: "digests \<Rightarrow> weight_page_id \<Rightarrow> page_store \<Rightarrow> page_store" where
  "cancel_reservation d page_id s = s\<lparr>st_reservations := od_remove (dg_key d page_id) (st_reservations s)\<rparr>"

definition store_release :: "digests \<Rightarrow> page_handle \<Rightarrow> page_store \<Rightarrow> page_store" where
  "store_release d h s =
     (let key = dg_key d (ph_page_id h); count = lease_count s key in
      if count \<le> 1 then s\<lparr>st_leases := od_remove key (st_leases s)\<rparr>
      else s\<lparr>st_leases := od_set (st_leases s) key (count - 1)\<rparr>)"

section \<open>Fragments\<close>

text \<open>One fragment of \<open>prepare_fragments\<close>: the file, its journal record, and the bytes reused.\<close>

definition keep_full :: "digests \<Rightarrow> source_slice \<Rightarrow> bytes \<Rightarrow> fragment_record option \<Rightarrow>
    bytes option \<times> fragment_record option \<times> int" where
  "keep_full d s f old =
     (Some f, if int (length f) = ss_size_bytes s
        then Some \<lparr>fr_tensor = ss_tensor s, fr_size_bytes = int (length f), fr_sha256 = dg_sha d f\<rparr> else old, int (length f))"

definition prepare_one :: "digests \<Rightarrow> source_slice \<Rightarrow> bytes option \<Rightarrow> fragment_record option \<Rightarrow>
    bytes option \<times> fragment_record option \<times> int" where
  "prepare_one d s fragment old =
     (case fragment of
        None \<Rightarrow> (None, old, 0)
      | Some f \<Rightarrow>
          let size = int (length f) in
          if ss_size_bytes s < size then (None, None, 0)
          else
            (case old of
               Some r \<Rightarrow>
                 if fr_size_bytes r < 0 \<or> size < fr_size_bytes r then (None, None, 0)
                 else if dg_sha d (take (nat (fr_size_bytes r)) f) \<noteq> fr_sha256 r then (None, None, 0)
                 else keep_full d s (take (nat (fr_size_bytes r)) f) old
             | None \<Rightarrow> if size < ss_size_bytes s then (None, None, 0) else keep_full d s f old))"

fun prepare_loop :: "digests \<Rightarrow> nat \<Rightarrow> source_slice list \<Rightarrow> (nat \<Rightarrow> bytes option) \<times> (nat, fragment_record) odict \<times> int \<Rightarrow>
    (nat \<Rightarrow> bytes option) \<times> (nat, fragment_record) odict \<times> int" where
  "prepare_loop d index [] acc = acc"
| "prepare_loop d index (s # slices) (fragments, completed, reused) =
     (case prepare_one d s (fragments index) (od_get completed index) of
        (f, r, n) \<Rightarrow>
          prepare_loop d (Suc index) slices
            (fragments(index := f), (case r of None \<Rightarrow> od_remove index completed | Some x \<Rightarrow> od_set completed index x), reused + n))"

definition set_partial :: "string \<Rightarrow> partial_page \<Rightarrow> page_store \<Rightarrow> page_store" where
  "set_partial key p s = s\<lparr>st_partial := (st_partial s)(key := p)\<rparr>"

definition prepare_fragments :: "digests \<Rightarrow> page_descriptor \<Rightarrow> page_store \<Rightarrow> page_store \<times> int" where
  "prepare_fragments d desc s =
     (let key = dg_key d (pd_page_id desc); p = st_partial s key in
      case prepare_loop d 0 (pd_source_slices desc)
             (pt_fragments p, (case pt_journal p of Some j \<Rightarrow> j | None \<Rightarrow> []), 0) of
        (fragments, completed, reused) \<Rightarrow>
          (set_partial key \<lparr>pt_fragments = fragments, pt_journal = Some completed\<rparr> s, reused))"

definition record_fragment :: "digests \<Rightarrow> page_descriptor \<Rightarrow> nat \<Rightarrow> bytes \<Rightarrow> page_store \<Rightarrow> page_store" where
  "record_fragment d desc index f s =
     (let key = dg_key d (pd_page_id desc); p = st_partial s key;
          r = \<lparr>fr_tensor = ss_tensor (pd_source_slices desc ! index), fr_size_bytes = int (length f), fr_sha256 = dg_sha d f\<rparr> in
      set_partial key (p\<lparr>pt_journal := Some (od_set (case pt_journal p of Some j \<Rightarrow> j | None \<Rightarrow> []) index r)\<rparr>) s)"

section \<open>Commit\<close>

text \<open>The padding loop writes \<open>zeros[:padding]\<close> until \<open>padding\<close> is zero; for a negative \<open>padding\<close> it
  writes empty blocks forever.\<close>

partial_function (option) write_padding :: "bytes \<Rightarrow> int \<Rightarrow> bytes \<Rightarrow> bytes option" where
  "write_padding zeros padding out =
     (if padding = 0 then Some out
      else write_padding zeros (padding - int (length (py_slice zeros 0 padding))) (out @ py_slice zeros 0 padding))"

definition page_padding :: "int \<Rightarrow> bytes \<Rightarrow> bytes option" where
  "page_padding padding out =
     (if padding \<noteq> 0 then write_padding (replicate (nat (min padding 1048576)) 0) padding out else Some out)"

fun read_fragments :: "source_slice list \<Rightarrow> bytes option list \<Rightarrow> bytes result" where
  "read_fragments (s # slices) (f # fragments) =
     (case f of
        None \<Rightarrow> Inl FileNotFoundError
      | Some b \<Rightarrow> if int (length b) \<noteq> ss_size_bytes s then Inl DomainSliceError
                  else bindE (read_fragments slices fragments) (\<lambda>rest. Inr (b @ rest)))"
| "read_fragments slices fragments = Inr []"

definition install_page :: "string \<Rightarrow> bytes \<Rightarrow> page_record \<Rightarrow> page_store \<Rightarrow> page_store" where
  "install_page key page m s = s\<lparr>st_pages := (st_pages s)(key := Some page), st_manifests := (st_manifests s)(key := Some (Some m))\<rparr>"

definition finish_commit :: "digests \<Rightarrow> page_descriptor \<Rightarrow> bytes \<Rightarrow> int \<Rightarrow> page_store \<Rightarrow> page_store \<times> page_handle" where
  "finish_commit d desc page now s =
     (let key = dg_key d (pd_page_id desc); checksum = dg_sha d page; size_bytes = int (length page);
          s1 = install_page key page \<lparr>mf_descriptor = desc, mf_sha256 = checksum, mf_size_bytes = size_bytes\<rparr> s;
          s2 = replace_row key \<lparr>rw_size_bytes = size_bytes, rw_checksum = checksum, rw_last_access = now\<rparr> s1;
          s3 = s2\<lparr>st_reservations := od_remove key (st_reservations s2)\<rparr>;
          s4 = set_partial key no_partial (acquire_lease key s3) in
      (s4, \<lparr>ph_page_id = pd_page_id desc, ph_checksum = checksum, ph_size_bytes = size_bytes, ph_cache_hit = False,
            ph_bytes_fetched = 0, ph_bytes_resumed = 0, ph_cache_occupancy_bytes = occupancy_bytes s4\<rparr>))"

text \<open>\<open>None\<close>: the commit does not return.\<close>

definition store_commit :: "digests \<Rightarrow> page_descriptor \<Rightarrow> int \<Rightarrow> page_store \<Rightarrow> (page_store \<times> page_handle result) option" where
  "store_commit d desc now s =
     (let key = dg_key d (pd_page_id desc); stride = rl_stride (pd_output_layout desc) in
      case ensure_capacity stride key s of
        (s1, Inl e) \<Rightarrow> Some (s1, Inl e)
      | (s1, Inr _) \<Rightarrow>
          (case read_fragments (pd_source_slices desc)
                  (map (pt_fragments (st_partial s1 key)) [0 ..< length (pd_source_slices desc)]) of
             Inl e \<Rightarrow> Some (s1, Inl e)
           | Inr body \<Rightarrow>
               (case page_padding (stride - pd_expected_bytes desc) body of
                  None \<Rightarrow> None
                | Some page \<Rightarrow>
                    if int (length page) \<noteq> stride then Some (s1, Inl DomainSliceError)
                    else (case finish_commit d desc page now s1 of (s2, h) \<Rightarrow> Some (s2, Inr h)))))"

section \<open>The composite store\<close>

record composite =
  cw_local :: page_store
  cw_remote :: remote_store
  cw_cache_hits :: int
  cw_cache_misses :: int
  cw_remote_payload_bytes :: int
  cw_resumed_bytes :: int

definition composite_init :: "page_store \<Rightarrow> remote_store \<Rightarrow> int \<Rightarrow> composite result" where
  "composite_init store remote download_workers =
     (if download_workers < 1 then Inl ValueError
      else Inr \<lparr>cw_local = store, cw_remote = remote, cw_cache_hits = 0, cw_cache_misses = 0, cw_remote_payload_bytes = 0,
        cw_resumed_bytes = 0\<rparr>)"

definition composite_resolve :: "digests \<Rightarrow> composite \<Rightarrow> weight_page_id \<Rightarrow> page_descriptor result" where
  "composite_resolve d c page_id =
     (case store_resolve d page_id (cw_local c) of Some desc \<Rightarrow> Inr desc | None \<Rightarrow> remote_resolve (cw_remote c) page_id)"

text \<open>One download: the fragment, its journal record, and the bytes it grew by.\<close>

definition file_size :: "bytes option \<Rightarrow> int" where
  "file_size f = (case f of Some b \<Rightarrow> int (length b) | None \<Rightarrow> 0)"

definition fetch_fragment :: "digests \<Rightarrow> remote_store \<Rightarrow> page_descriptor \<Rightarrow> bytes fetch_env \<Rightarrow> nat \<Rightarrow> page_store \<Rightarrow>
    page_store \<times> int \<times> unit result" where
  "fetch_fragment d remote desc env index s =
     (let key = dg_key d (pd_page_id desc); p = st_partial s key; old = pt_fragments p index;
          slice = pd_source_slices desc ! index in
      case fetch_slice_to_file remote env slice old of
        (f, r) \<Rightarrow>
          let s1 = set_partial key (p\<lparr>pt_fragments := (pt_fragments p)(index := f)\<rparr>) s;
              s2 = (case f of Some b \<Rightarrow> if b \<noteq> [] then record_fragment d desc index b s1 else s1 | None \<Rightarrow> s1);
              kept = (if ss_size_bytes slice < file_size old then 0 else file_size old) in
          (s2, file_size f - kept, bindE r (\<lambda>_. Inr ())))"

text \<open>The downloads that ran, in the order in which they ended. After a failure the rest is cancelled,
  but those already running still leave what they wrote; the first exception is the one raised.\<close>

fun fetch_fragments :: "digests \<Rightarrow> remote_store \<Rightarrow> page_descriptor \<Rightarrow> (nat \<Rightarrow> bytes fetch_env) \<Rightarrow> nat list \<Rightarrow> page_store \<Rightarrow>
    page_store \<times> int \<times> unit result" where
  "fetch_fragments d remote desc envs [] s = (s, 0, Inr ())"
| "fetch_fragments d remote desc envs (i # order) s =
     (case fetch_fragment d remote desc (envs i) i s of
        (s1, n, r) \<Rightarrow> (case fetch_fragments d remote desc envs order s1 of
           (s2, m, r2) \<Rightarrow> (s2, n + m, bindE r (\<lambda>_. r2))))"

definition set_local :: "composite \<Rightarrow> page_store \<Rightarrow> composite" where
  "set_local c s = c\<lparr>cw_local := s\<rparr>"

definition materialize :: "digests \<Rightarrow> (nat \<Rightarrow> bytes fetch_env) \<Rightarrow> nat list \<Rightarrow> int \<Rightarrow> weight_page_id \<Rightarrow> composite \<Rightarrow>
    (composite \<times> page_handle result) option" where
  "materialize d envs order now page_id c =
     (case store_lookup d page_id True now (cw_local c) of
        (s0, Some h) \<Rightarrow> Some ((set_local c s0)\<lparr>cw_cache_hits := cw_cache_hits c + 1\<rparr>, Inr h)
      | (s0, None) \<Rightarrow>
          let c0 = (set_local c s0)\<lparr>cw_cache_misses := cw_cache_misses c + 1\<rparr> in
          (case remote_resolve (cw_remote c) page_id of
             Inl e \<Rightarrow> Some (c0, Inl e)
           | Inr desc \<Rightarrow>
               (case store_reserve d page_id (rl_stride (pd_output_layout desc)) s0 of
                  (s1, Inl e) \<Rightarrow> Some (set_local c0 s1, Inl e)
                | (s1, Inr _) \<Rightarrow>
                    (case prepare_fragments d desc s1 of (s2, resumed) \<Rightarrow>
                     (case fetch_fragments d (cw_remote c) desc envs order s2 of
                        (s3, n, Inl e) \<Rightarrow>
                          Some ((set_local c0 (cancel_reservation d page_id s3))
                                  \<lparr>cw_remote_payload_bytes := cw_remote_payload_bytes c + n\<rparr>, Inl e)
                      | (s3, n, Inr _) \<Rightarrow>
                          (case store_commit d desc now s3 of
                             None \<Rightarrow> None
                           | Some (s4, Inl e) \<Rightarrow> Some (set_local c0 (cancel_reservation d page_id s4), Inl e)
                           | Some (s4, Inr h) \<Rightarrow>
                               Some ((set_local c0 s4)\<lparr>cw_remote_payload_bytes := cw_remote_payload_bytes c + n,
                                       cw_resumed_bytes := cw_resumed_bytes c + resumed\<rparr>,
                                     Inr (h\<lparr>ph_bytes_fetched := n, ph_bytes_resumed := resumed\<rparr>))))))))"

definition composite_release :: "digests \<Rightarrow> page_handle \<Rightarrow> composite \<Rightarrow> composite" where
  "composite_release d h c = set_local c (store_release d h (cw_local c))"

definition composite_stats :: "composite \<Rightarrow> store_stats" where
  "composite_stats c = \<lparr>sx_cache_hits = cw_cache_hits c, sx_cache_misses = cw_cache_misses c,
     sx_remote_payload_bytes = cw_remote_payload_bytes c, sx_resumed_bytes = cw_resumed_bytes c,
     sx_evictions = st_evictions (cw_local c), sx_corruptions = st_corruptions (cw_local c),
     sx_cache_occupancy_bytes = occupancy_bytes (cw_local c), sx_cached_pages = page_count (cw_local c)\<rparr>"

end
