(* ===== verification/RangeLaws.thy ===== *)
theory RangeLaws
  imports RangeFetch
begin

text \<open>
  What a caller of \<open>RangeFetch\<close> may rely on: printed content ranges parse back, the sink only ever
  grows along the requested range, retries finish a range that some attempt can deliver, and the
  header routes agree on one file, except that the remote route refuses a file smaller than its
  probe.
\<close>

section \<open>Content ranges\<close>

lemma digits_append:
  assumes "list_all is_digit a" "r = [] \<or> \<not> is_digit (hd r)"
  shows "takeWhile is_digit (a @ r) = a" "dropWhile is_digit (a @ r) = r"
  using assms by (cases r; auto simp: takeWhile_append dropWhile_append list_all_iff)+

lemma nat_digits_all [simp]: "list_all is_digit (nat_digits n)"
  using nat_digits_chars by (auto simp: list_all_iff)

lemma digit_not_space: "is_digit c \<Longrightarrow> \<not> is_space c"
  by (auto simp: is_digit_def is_space_def)

definition print_content_range :: "nat \<Rightarrow> nat \<Rightarrow> nat \<Rightarrow> string" where
  "print_content_range a b n = ''bytes '' @ nat_digits a @ ''-'' @ nat_digits b @ ''/'' @ nat_digits n"

lemma match_printed: "match_content_range (print_content_range a b n) = Some (int a, int b)"
proof -
  have s: "dropWhile is_space (CHR '' '' # nat_digits a @ r) = nat_digits a @ r" for r
    using nat_digits_all [of a] digit_not_space
    by (cases "nat_digits a") (auto simp: is_space_def list_all_iff)
  have s': "dropWhile is_space (nat_digits a @ r) = nat_digits a @ r" for r
    using nat_digits_all [of a] digit_not_space by (cases "nat_digits a") (auto simp: list_all_iff)
  have h: "\<not> is_digit (CHR ''-'')" "\<not> is_digit (CHR ''/'')" by (simp_all add: is_digit_def)
  have t: "takeWhile is_digit (nat_digits a @ CHR ''-'' # r) = nat_digits a"
    "dropWhile is_digit (nat_digits a @ CHR ''-'' # r) = CHR ''-'' # r" for r
    using digits_append [of "nat_digits a" "CHR ''-'' # r"] h by simp_all
  have u: "takeWhile is_digit (nat_digits b @ CHR ''/'' # r) = nat_digits b"
    "dropWhile is_digit (nat_digits b @ CHR ''/'' # r) = CHR ''/'' # r" for r
    using digits_append [of "nat_digits b" "CHR ''/'' # r"] h by simp_all
  have l: "str_lower ''bytes'' = ''bytes''" "is_space (CHR '' '')" by (code_simp, simp add: is_space_def)
  show ?thesis
    unfolding match_content_range_def print_content_range_def Let_def
    by (simp add: s s' t u l is_total_def numeral_eq_Suc)
qed

lemma strip_printed: "str_strip (print_content_range a b n) = print_content_range a b n"
proof (rule strip_unchanged)
  have "last (nat_digits n) \<in> set (nat_digits n)" by simp
  then show "\<not> is_space (last (print_content_range a b n))"
    using nat_digits_chars digit_not_space by (fastforce simp: print_content_range_def)
qed (simp_all add: print_content_range_def is_space_def)

lemma validate_iff:
  "validate_range_response r s e = Inr () \<longleftrightarrow>
     hr_status r = 206 \<and> match_content_range (str_strip (hr_content_range r)) = Some (s, e)"
  by (auto simp: validate_range_response_def split: option.splits)

lemma validate_printed:
  "hr_status r = 206 \<Longrightarrow> hr_content_range r = print_content_range a b n \<Longrightarrow>
     validate_range_response r s e = (if s = int a \<and> e = int b then Inr () else Inl RangeResponseError)"
  by (auto simp: validate_range_response_def strip_printed match_printed)

section \<open>Connections\<close>

lemma conn_read_bytes:
  "conn_read n conn = (Inr block, conn') \<Longrightarrow> block \<noteq> [] \<Longrightarrow>
     conn_bytes conn = block @ conn_bytes conn' \<and> length block \<le> n"
  by (cases "(n, conn)" rule: conn_read.cases) (auto split: if_splits)

lemma conn_read_stops:
  "conn_read n conn = (Inr [], conn') \<Longrightarrow> 0 < n \<Longrightarrow> conn_bytes conn = []"
  "conn_read n conn = (Inl e, conn') \<Longrightarrow> conn_bytes conn = []"
  by (cases "(n, conn)" rule: conn_read.cases; auto split: if_splits)+

lemma conn_read_all_bytes: "conn_read_all conn = Inr b \<Longrightarrow> b = conn_bytes conn"
  by (induction conn arbitrary: b rule: conn_read_all.induct) (auto split: if_splits)

section \<open>Progress along a range\<close>

definition on_track :: "bytes \<Rightarrow> bytes \<Rightarrow> bytes fetch \<Rightarrow> bool" where
  "on_track win sink0 f \<longleftrightarrow> 0 \<le> ft_received f \<and> ft_received f \<le> int (length win) \<and>
     ft_sink f = sink0 @ take (nat (ft_received f)) win"

definition part_of :: "bytes \<Rightarrow> bytes \<Rightarrow> bytes \<Rightarrow> bool" where
  "part_of win sink0 sink \<longleftrightarrow> (\<exists>m. sink = sink0 @ take m win)"

definition sink_ok :: "(bytes \<Rightarrow> bytes \<Rightarrow> bytes \<times> unit result) \<Rightarrow> bool" where
  "sink_ok w \<longleftrightarrow> (\<forall>b s. \<exists>m. fst (w b s) = s @ take m b \<and> (snd (w b s) = Inr () \<longrightarrow> length b \<le> m))"

lemma on_track_part: "on_track win sink0 f \<Longrightarrow> part_of win sink0 (ft_sink f)"
  by (auto simp: on_track_def part_of_def)

lemma sink_okD: "sink_ok w \<Longrightarrow> w b s = (s', r) \<Longrightarrow> \<exists>m. s' = s @ take m b \<and> (r = Inr () \<longrightarrow> s' = s @ b)"
  unfolding sink_ok_def by (metis fst_conv snd_conv take_all)

lemma poll_same [simp]: "poll env f = (c, f1) \<Longrightarrow> ft_received f1 = ft_received f \<and> ft_sink f1 = ft_sink f"
  by (auto simp: poll_def)

lemma on_track_same: "ft_received f1 = ft_received f \<Longrightarrow> ft_sink f1 = ft_sink f \<Longrightarrow> on_track win s f1 = on_track win s f"
  by (simp add: on_track_def)

lemma read_body_track:
  assumes "read_body env c tot conn f = (f', r)" "on_track win s f" "sink_ok (fe_write env)"
    "prefix (take (nat (tot - ft_received f)) (conn_bytes conn)) (drop (nat (ft_received f)) win)"
  shows "part_of win s (ft_sink f') \<and> (r = Inr () \<longrightarrow> on_track win s f' \<and> ft_received f \<le> ft_received f')"
  using assms
proof (induction env c tot conn f arbitrary: f' r rule: read_body.induct)
  case (1 env c tot conn f)
  obtain cancelled f1 where p: "poll env f = (cancelled, f1)" by (cases "poll env f")
  have s1: "ft_received f1 = ft_received f" "ft_sink f1 = ft_sink f" using poll_same [OF p] by simp_all
  have t1: "on_track win s f1" using "1.prems"(2) on_track_same [OF s1] by simp
  let ?n = "nat (min c (tot - ft_received f))"
  obtain rd conn' where rd: "conn_read ?n conn = (rd, conn')" by (cases "conn_read ?n conn")
  note eq = "1.prems"(1) [unfolded read_body.simps [of env c tot conn f] p prod.case rd]
  show ?case
  proof (cases "\<not> ft_received f < tot \<or> cancelled \<or> (\<exists>e. rd = Inl e) \<or> rd = Inr []")
    case True
    then have "f' = f \<or> f' = f1" using eq by (auto split: if_splits sum.splits)
    then show ?thesis using t1 "1.prems"(2) s1 on_track_part by auto
  next
    case False
    then obtain block where b: "rd = Inr block" "block \<noteq> []" "ft_received f < tot" "\<not> cancelled" by (cases rd) auto
    obtain sink w where w: "fe_write env block (ft_sink f1) = (sink, w)" by (cases "fe_write env block (ft_sink f1)")
    have cb: "conn_bytes conn = block @ conn_bytes conn'" "length block \<le> ?n" using conn_read_bytes [OF rd [unfolded b(1)] b(2)] by auto
    let ?r = "nat (ft_received f)"
    have len: "length block \<le> nat (tot - ft_received f)" using cb(2) by linarith
    have pre: "prefix (block @ take (nat (tot - ft_received f) - length block) (conn_bytes conn')) (drop ?r win)"
      using "1.prems"(4) len by (simp add: cb(1))
    obtain z where z: "drop ?r win = block @ z" using pre by (auto simp: prefix_def)
    have bd: "length block \<le> length win - ?r" using arg_cong [OF z, of length] by simp
    have t: "0 \<le> ft_received f" "ft_received f \<le> int (length win)" "ft_sink f = s @ take ?r win"
      using "1.prems"(2) by (simp_all add: on_track_def)
    have ext: "take ?r win @ take m block = take (?r + min m (length block)) win" for m
      by (cases "m \<le> length block") (simp_all add: take_add z)
    obtain m where m: "sink = ft_sink f @ take m block" "w = Inr () \<longrightarrow> sink = ft_sink f @ block"
      using sink_okD [OF "1.prems"(3) w] unfolding s1 by blast
    show ?thesis
    proof (cases w)
      case (Inl e)
      then have "f' = f1\<lparr>ft_sink := sink\<rparr>" "r = Inl e" using eq b w by auto
      then show ?thesis using m(1) t(3) ext [of m] by (auto simp: part_of_def)
    next
      case (Inr u)
      let ?f2 = "f1\<lparr>ft_sink := sink, ft_received := ft_received f + int (length block)\<rparr>"
      have go: "read_body env c tot conn' ?f2 = (f', r)" using eq b w Inr by simp
      have k: "?r + length block \<le> length win" using bd t by linarith
      have "on_track win s ?f2" using m(2) Inr t ext [of "length block"] k by (simp add: on_track_def nat_add_distrib)
      moreover have "prefix (take (nat (tot - ft_received ?f2)) (conn_bytes conn')) (drop (nat (ft_received ?f2)) win)"
      proof -
        have e: "nat (tot - ft_received ?f2) = nat (tot - ft_received f) - length block" by simp
        obtain z where "drop ?r win = block @ take (nat (tot - ft_received f) - length block) (conn_bytes conn') @ z"
          using pre by (auto simp: prefix_def)
        then have "drop (length block) (drop ?r win) = take (nat (tot - ft_received f) - length block) (conn_bytes conn') @ z" by simp
        then show ?thesis using e t(1) by (simp add: prefix_def nat_add_distrib add.commute)
      qed
      ultimately show ?thesis using "1.IH" [OF _ p [symmetric] b(4) rd [symmetric] b(1,2) w [symmetric], OF _ Inr] go b(3) "1.prems"(3) by fastforce
    qed
  qed
qed

text \<open>A server may fail, stop early or lie about anything but the bytes it labels with the range asked for.\<close>

definition window :: "bytes \<Rightarrow> int \<Rightarrow> int \<Rightarrow> bytes" where
  "window file byte_start byte_end = take (nat (byte_end - byte_start + 1)) (drop (nat byte_start) file)"

definition truthful :: "'s fetch_env \<Rightarrow> bytes \<Rightarrow> bool" where
  "truthful env file \<longleftrightarrow> (\<forall>attempt a e r. fe_open env attempt a e = Inr r \<longrightarrow> 0 \<le> a \<longrightarrow>
     validate_range_response r a e = Inr () \<longrightarrow>
     prefix (take (nat (e - a + 1)) (conn_bytes (hr_conn r))) (window file a e))"

lemma window_drop:
  assumes "0 \<le> s" "0 \<le> k"
  shows "window file (s + k) e = drop (nat k) (window file s e)"
proof -
  have "nat (e - s + 1) - nat k = nat (e - (s + k) + 1)" using assms by simp
  moreover have "nat (s + k) = nat k + nat s" using assms by (simp add: nat_add_distrib)
  ultimately show ?thesis by (simp add: window_def drop_take)
qed

lemma window_length: "length (window file s e) \<le> nat (e - s + 1)"
  by (simp add: window_def)

lemma stream_attempts_track:
  assumes "stream_attempts env s e c tot ats f = (f', r)" "on_track (window file s e) s0 f" "tot = e - s + 1" "0 \<le> s"
    and env: "sink_ok (fe_write env)" "truthful env file"
  shows "part_of (window file s e) s0 (ft_sink f') \<and> (r = Inr () \<longrightarrow> on_track (window file s e) s0 f')"
  using assms(1-4)
proof (induction ats arbitrary: f)
  case Nil
  then show ?case using on_track_part by auto
next
  case (Cons a ats)
  obtain c1 f1 where p1: "poll env f = (c1, f1)" by (cases "poll env f")
  obtain c2 f2 where p2: "(if a = 0 then (False, f1) else poll env f1) = (c2, f2)"
    by (cases "if a = 0 then (False, f1) else poll env f1")
  have s1: "ft_received f1 = ft_received f" "ft_sink f1 = ft_sink f" using poll_same [OF p1] by simp_all
  have s2: "ft_received f2 = ft_received f" "ft_sink f2 = ft_sink f"
    using p2 s1 poll_same [of env f1 c2 f2] by (auto split: if_splits)
  have t: "on_track (window file s e) s0 f1" "on_track (window file s e) s0 f2"
    using Cons.prems(2) on_track_same [OF s1] on_track_same [OF s2] by simp_all
  note eq = Cons.prems(1) [unfolded stream_attempts.simps p1 p2 prod.case Let_def]
  let ?a = "s + ft_received f2"
  show ?case
  proof (cases "c1 \<or> tot \<le> ft_received f1 \<or> c2")
    case True
    then have "f' = f1 \<or> f' = f2" using eq by (auto split: if_splits)
    then show ?thesis using t on_track_part by auto
  next
    case go: False
    show ?thesis
    proof (cases "fe_open env a ?a e")
      case (Inl err)
      then show ?thesis using eq go Cons.IH [OF _ t(2) Cons.prems(3,4)] on_track_part [OF t(2)] by (auto split: if_splits)
    next
      case (Inr resp)
      show ?thesis
      proof (cases "validate_range_response resp ?a e")
        case (Inl err)
        then show ?thesis using eq go Inr on_track_part [OF t(2)] by auto
      next
        case v: (Inr u)
        obtain f3 r3 where b: "read_body env c tot (hr_conn resp) f2 = (f3, r3)" by (cases "read_body env c tot (hr_conn resp) f2")
        have r0: "0 \<le> ft_received f2" using t(2) by (simp add: on_track_def)
        have "prefix (take (nat (e - ?a + 1)) (conn_bytes (hr_conn resp))) (window file ?a e)"
          using env(2) Inr v r0 Cons.prems(4) unfolding truthful_def by force
        moreover have "e - ?a + 1 = tot - ft_received f2" using Cons.prems(3) by simp
        ultimately have "prefix (take (nat (tot - ft_received f2)) (conn_bytes (hr_conn resp))) (drop (nat (ft_received f2)) (window file s e))"
          using window_drop [OF Cons.prems(4) r0] by simp
        note tr = read_body_track [OF b t(2) env(1) this]
        show ?thesis
        proof (cases r3)
          case (Inl err)
          then show ?thesis using eq go Inr v b tr by auto
        next
          case r3: (Inr u3)
          then show ?thesis using eq go Inr v b tr Cons.IH [OF _ _ Cons.prems(3,4), of f3] by auto
        qed
      qed
    qed
  qed
qed

lemma stream_exact:
  assumes "stream_remote_bytes env s e n c sink = (sink', r)" "0 \<le> s" "sink_ok (fe_write env)" "truthful env file"
  shows "part_of (window file s e) sink sink' \<and>
    (\<forall>k. r = Inr k \<longrightarrow> sink' = sink @ window file s e \<and> k = int (length (window file s e)) \<and> k = max 0 (e - s + 1))"
proof -
  let ?w = "window file s e" and ?tot = "e - s + 1"
  have self: "part_of ?w sink sink" by (auto simp: part_of_def intro: exI [of _ 0])
  consider "?tot \<le> 0" | "0 < ?tot" "c \<le> 0" | "0 < ?tot" "0 < c" by linarith
  then show ?thesis
  proof cases
    case 1
    then have "?w = []" "sink' = sink" "r = Inr 0" using assms(1) by (auto simp: window_def stream_remote_bytes_def)
    then show ?thesis using 1 self by simp
  next
    case 2
    then show ?thesis using assms(1) self by (auto simp: stream_remote_bytes_def)
  next
    case 3
    let ?f0 = "\<lparr>ft_received = 0, ft_polls = 0, ft_sink = sink\<rparr>"
    obtain f r1 where f: "stream_attempts env s e c ?tot [0 ..< n] ?f0 = (f, r1)"
      by (cases "stream_attempts env s e c ?tot [0 ..< n] ?f0")
    have "on_track ?w sink ?f0" by (simp add: on_track_def)
    note tr = stream_attempts_track [OF f this refl assms(2-4)]
    have out: "sink' = ft_sink f" "r = (case r1 of Inl e \<Rightarrow> Inl e
        | Inr _ \<Rightarrow> if ft_received f \<noteq> ?tot then Inl IncompleteRangeRead else Inr (ft_received f))"
      using assms(1) 3 f by (auto simp: stream_remote_bytes_def Let_def split: sum.splits)
    show ?thesis
    proof (intro conjI allI impI)
      show "part_of ?w sink sink'" using tr out by simp
      fix k assume k: "r = Inr k"
      then have r1: "r1 = Inr ()" "ft_received f = ?tot" "k = ?tot" using out(2) by (auto split: sum.splits if_splits)
      then have t: "on_track ?w sink f" using tr by simp
      then have "int (length ?w) = ?tot" using r1(2) window_length [of "file" s e] 3 by (simp add: on_track_def le_nat_iff)
      then show "sink' = sink @ ?w" "k = int (length ?w)" "k = max 0 ?tot"
        using t r1 3 out(1) by (simp_all add: on_track_def)
    qed
  qed
qed

section \<open>Retries complete\<close>

text \<open>No cancellation, a sink that never fails, and attempts that fail the way the code retries.\<close>

definition retryable :: "response \<Rightarrow> bool" where
  "retryable r \<longleftrightarrow> (\<forall>e. ReadError e \<in> set (hr_conn r) \<longrightarrow> is_os_error e)"

definition patient_env :: "'s fetch_env \<Rightarrow> int \<Rightarrow> int \<Rightarrow> bool" where
  "patient_env env s e \<longleftrightarrow> (\<forall>k. \<not> fe_cancelled env k) \<and> (\<forall>b st. \<exists>st'. fe_write env b st = (st', Inr ())) \<and>
     (\<forall>k a. s \<le> a \<longrightarrow> a \<le> e \<longrightarrow> (case fe_open env k a e of Inl err \<Rightarrow> is_os_error err
        | Inr r \<Rightarrow> validate_range_response r a e = Inr () \<and> retryable r))"

text \<open>Attempt \<open>k\<close> delivers every byte it is asked for.\<close>

definition full_attempt :: "'s fetch_env \<Rightarrow> int \<Rightarrow> int \<Rightarrow> nat \<Rightarrow> bool" where
  "full_attempt env s e k \<longleftrightarrow> (\<forall>a. s \<le> a \<longrightarrow> a \<le> e \<longrightarrow>
     (\<exists>resp. fe_open env k a e = Inr resp \<and> e - a + 1 \<le> int (length (conn_bytes (hr_conn resp)))))"

lemma full_attemptD:
  "full_attempt env s e k \<Longrightarrow> s \<le> a \<Longrightarrow> a \<le> e \<Longrightarrow>
     \<exists>resp. fe_open env k a e = Inr resp \<and> e - a + 1 \<le> int (length (conn_bytes (hr_conn resp)))"
  unfolding full_attempt_def by blast

lemma patient_envD:
  assumes "patient_env env s e"
  shows "\<exists>st'. fe_write env b st = (st', Inr ())" "poll env f = (c, f1) \<Longrightarrow> \<not> c"
    "s \<le> a \<Longrightarrow> a \<le> e \<Longrightarrow> case fe_open env k a e of Inl err \<Rightarrow> is_os_error err | Inr r \<Rightarrow> validate_range_response r a e = Inr () \<and> retryable r"
proof -
  note d = assms [unfolded patient_env_def]
  have n: "\<not> fe_cancelled env i" for i by (rule d [THEN conjunct1, THEN spec])
  assume "poll env f = (c, f1)"
  then have "fe_cancelled env (ft_polls f) = c" unfolding poll_def prod.inject by (rule conjunct1)
  then show "\<not> c" using n by blast
next
  note d = assms [unfolded patient_env_def]
  show "\<exists>st'. fe_write env b st = (st', Inr ())" by (rule d [THEN conjunct2, THEN conjunct1, THEN spec, THEN spec])
  show "s \<le> a \<Longrightarrow> a \<le> e \<Longrightarrow> case fe_open env k a e of Inl err \<Rightarrow> is_os_error err | Inr r \<Rightarrow> validate_range_response r a e = Inr () \<and> retryable r"
    by (rule d [THEN conjunct2, THEN conjunct2, THEN spec, THEN spec, THEN mp, THEN mp])
qed

lemma conn_read_rest: "conn_read n conn = (r, conn') \<Longrightarrow> ReadError e \<in> set conn' \<Longrightarrow> ReadError e \<in> set conn"
  by (cases "(n, conn)" rule: conn_read.cases) (auto split: if_splits)

lemma conn_read_err: "conn_read n conn = (Inl e, conn') \<Longrightarrow> ReadError e \<in> set conn"
  by (cases "(n, conn)" rule: conn_read.cases) auto

lemma read_body_done:
  assumes "read_body env c tot conn f = (f', r)" "patient_env env s e" "0 < c" "\<forall>e. ReadError e \<in> set conn \<longrightarrow> is_os_error e"
    "ft_received f \<le> tot"
  shows "r = Inr () \<and> ft_received f \<le> ft_received f' \<and> ft_received f' \<le> tot \<and> (tot - ft_received f \<le> int (length (conn_bytes conn)) \<longrightarrow> ft_received f' = tot)"
  using assms
proof (induction env c tot conn f arbitrary: f' r rule: read_body.induct)
  case (1 env c tot conn f)
  obtain cancelled f1 where p: "poll env f = (cancelled, f1)" by (cases "poll env f")
  have nc: "\<not> cancelled" by (rule patient_envD(2) [OF "1.prems"(2) p])
  have s1: "ft_received f1 = ft_received f" using poll_same [OF p] by simp
  let ?n = "nat (min c (tot - ft_received f))"
  obtain rd conn' where rd: "conn_read ?n conn = (rd, conn')" by (cases "conn_read ?n conn")
  note eq = "1.prems"(1) [unfolded read_body.simps [of env c tot conn f] p prod.case rd]
  show ?case
  proof (cases "ft_received f < tot")
    case False
    then show ?thesis using eq "1.prems"(5) by simp
  next
    case lt: True
    then have n: "0 < ?n" using "1.prems"(3) by simp
    consider e where "rd = Inl e" | "rd = Inr []" | block where "rd = Inr block" "block \<noteq> []" by (cases rd) auto
    then show ?thesis
    proof cases
      case (1 e)
      then have "is_os_error e" using conn_read_err rd "1.prems"(4) by blast
      then show ?thesis using eq lt nc 1 conn_read_stops(2) [OF rd [unfolded 1]] "1.prems"(5) s1 by auto
    next
      case 2
      then show ?thesis using eq lt nc conn_read_stops(1) [OF rd [unfolded 2] n] "1.prems"(5) s1 by auto
    next
      case (3 block)
      obtain sink where w: "fe_write env block (ft_sink f1) = (sink, Inr ())" using patient_envD(1) [OF "1.prems"(2), of block "ft_sink f1"] by blast
      let ?f2 = "f1\<lparr>ft_sink := sink, ft_received := ft_received f + int (length block)\<rparr>"
      have cb: "conn_bytes conn = block @ conn_bytes conn'" "length block \<le> ?n" using conn_read_bytes [OF rd [unfolded 3(1)] 3(2)] by auto
      have go: "read_body env c tot conn' ?f2 = (f', r)" using eq lt nc 3 w by simp
      have len: "ft_received ?f2 \<le> tot" using cb(2) lt by simp
      have er: "\<forall>e. ReadError e \<in> set conn' \<longrightarrow> is_os_error e" using conn_read_rest [OF rd] "1.prems"(4) by blast
      show ?thesis
        using "1.IH" [OF _ p [symmetric] nc rd [symmetric] 3 w [symmetric] refl go "1.prems"(2,3) er len] lt cb(1) by simp
    qed
  qed
qed

lemma stream_attempts_done:
  assumes "stream_attempts env s e c tot ats f = (f', r)" "patient_env env s e" "0 < c" "tot = e - s + 1" "ft_received f \<le> tot" "0 \<le> ft_received f"
  shows "r = Inr () \<and> ft_received f' \<le> tot \<and>
    ((\<exists>k \<in> set ats. full_attempt env s e k) \<or> ft_received f = tot \<longrightarrow> ft_received f' = tot)"
  using assms
proof (induction ats arbitrary: f)
  case (Cons k ats)
  obtain c1 f1 where p1: "poll env f = (c1, f1)" by (cases "poll env f")
  obtain c2 f2 where p2: "(if k = 0 then (False, f1) else poll env f1) = (c2, f2)"
    by (cases "if k = 0 then (False, f1) else poll env f1")
  have nc: "\<not> c1" "\<not> c2" using patient_envD(2) [OF Cons.prems(2)] p1 p2 by (simp_all split: if_splits) blast
  have s1: "ft_received f1 = ft_received f" using poll_same [OF p1] by simp
  have s2: "ft_received f2 = ft_received f" using p2 s1 poll_same [of env f1 c2 f2] by (auto split: if_splits)
  note eq = Cons.prems(1) [unfolded stream_attempts.simps p1 p2 prod.case Let_def]
  let ?a = "s + ft_received f2"
  show ?case
  proof (cases "tot \<le> ft_received f1")
    case True
    then show ?thesis using eq nc s1 Cons.prems(5) by simp
  next
    case go: False
    have a: "s \<le> ?a" "?a \<le> e" using go s1 s2 Cons.prems(4,6) by simp_all
    note env = patient_envD(3) [OF Cons.prems(2) a, of k]
    show ?thesis
    proof (cases "fe_open env k ?a e")
      case (Inl err)
      then have "stream_attempts env s e c tot ats f2 = (f', r)" using eq go nc env by simp
      from Cons.IH [OF this Cons.prems(2,3,4)] have ih: "r = Inr () \<and> ft_received f' \<le> tot \<and>
          ((\<exists>k \<in> set ats. full_attempt env s e k) \<or> ft_received f2 = tot \<longrightarrow> ft_received f' = tot)" using s2 Cons.prems(5,6) by simp
      have "\<not> full_attempt env s e k" using full_attemptD [OF _ a, of env k] Inl by auto
      then show ?thesis using ih s1 go by auto
    next
      case (Inr resp)
      obtain f3 r3 where b: "read_body env c tot (hr_conn resp) f2 = (f3, r3)" by (cases "read_body env c tot (hr_conn resp) f2")
      have d: "r3 = Inr ()" "ft_received f2 \<le> ft_received f3" "ft_received f3 \<le> tot"
        "tot - ft_received f2 \<le> int (length (conn_bytes (hr_conn resp))) \<longrightarrow> ft_received f3 = tot"
        using read_body_done [OF b Cons.prems(2,3)] env Inr s2 Cons.prems(5) by (simp_all add: retryable_def)
      have "stream_attempts env s e c tot ats f3 = (f', r)" using eq go nc env Inr b d(1) by simp
      from Cons.IH [OF this Cons.prems(2,3,4) d(3)] have ih: "r = Inr () \<and> ft_received f' \<le> tot \<and>
          ((\<exists>k \<in> set ats. full_attempt env s e k) \<or> ft_received f3 = tot \<longrightarrow> ft_received f' = tot)" using s2 Cons.prems(6) d(2) by simp
      have "full_attempt env s e k \<longrightarrow> ft_received f3 = tot"
      proof
        assume "full_attempt env s e k"
        from full_attemptD [OF this a] have "e - ?a + 1 \<le> int (length (conn_bytes (hr_conn resp)))" using Inr by auto
        moreover have "e - ?a + 1 = tot - ft_received f2" using Cons.prems(4) by simp
        ultimately show "ft_received f3 = tot" using d(4) by simp
      qed
      then show ?thesis using ih s1 go by auto
    qed
  qed
qed simp

lemma stream_completes:
  assumes env: "patient_env env s e" "0 < c" and full: "k < n" "full_attempt env s e k"
  shows "snd (stream_remote_bytes env s e n c sink) = Inr (max 0 (e - s + 1))"
proof (cases "e - s + 1 \<le> 0")
  case False
  let ?f0 = "\<lparr>ft_received = 0, ft_polls = 0, ft_sink = sink\<rparr>"
  obtain f r where f: "stream_attempts env s e c (e - s + 1) [0 ..< n] ?f0 = (f, r)"
    by (cases "stream_attempts env s e c (e - s + 1) [0 ..< n] ?f0")
  have "r = Inr ()" "ft_received f = e - s + 1" using stream_attempts_done [OF f env refl] False full by fastforce+
  then show ?thesis using f False env(2) by (simp add: stream_remote_bytes_def)
qed (simp add: stream_remote_bytes_def)

section \<open>Sinks\<close>

text \<open>Two sinks related by an abstraction see the same transfer.\<close>

definition map_fetch :: "('s \<Rightarrow> 't) \<Rightarrow> 's fetch \<Rightarrow> 't fetch" where
  "map_fetch h f = \<lparr>ft_received = ft_received f, ft_polls = ft_polls f, ft_sink = h (ft_sink f)\<rparr>"

definition same_net :: "('s \<Rightarrow> 't) \<Rightarrow> 's fetch_env \<Rightarrow> 't fetch_env \<Rightarrow> bool" where
  "same_net h env1 env2 \<longleftrightarrow> fe_open env2 = fe_open env1 \<and> fe_cancelled env2 = fe_cancelled env1 \<and>
     (\<forall>b s. fe_write env2 b (h s) = apfst h (fe_write env1 b s))"

lemma map_fetch_fields [simp]:
  "ft_received (map_fetch h f) = ft_received f" "ft_polls (map_fetch h f) = ft_polls f" "ft_sink (map_fetch h f) = h (ft_sink f)"
  "map_fetch h (f\<lparr>ft_polls := k\<rparr>) = (map_fetch h f)\<lparr>ft_polls := k\<rparr>"
  "map_fetch h (f\<lparr>ft_sink := x\<rparr>) = (map_fetch h f)\<lparr>ft_sink := h x\<rparr>"
  "map_fetch h (f\<lparr>ft_received := r\<rparr>) = (map_fetch h f)\<lparr>ft_received := r\<rparr>"
  by (simp_all add: map_fetch_def)

lemma same_netD:
  assumes "same_net h env1 env2"
  shows "fe_open env2 = fe_open env1" "poll env2 (map_fetch h f) = apsnd (map_fetch h) (poll env1 f)"
    "fe_write env2 b (h s) = apfst h (fe_write env1 b s)"
  using assms by (simp_all add: same_net_def poll_def)

lemma read_body_map:
  assumes n: "same_net h env1 env2"
  shows "read_body env2 c t conn (map_fetch h f) = apfst (map_fetch h) (read_body env1 c t conn f)"
  using n
proof (induction env1 c t conn f rule: read_body.induct)
  case (1 env1 c t conn f)
  obtain cancelled f1 where p: "poll env1 f = (cancelled, f1)" by (cases "poll env1 f")
  obtain rd conn' where rd: "conn_read (nat (min c (t - ft_received f))) conn = (rd, conn')"
    by (cases "conn_read (nat (min c (t - ft_received f))) conn")
  have p2: "poll env2 (map_fetch h f) = (cancelled, map_fetch h f1)" using same_netD(2) [OF "1.prems", of f] p by simp
  show ?case
  proof (cases "ft_received f < t \<and> \<not> cancelled \<and> (\<exists>block. rd = Inr block \<and> block \<noteq> [])")
    case True
    then obtain block where b: "rd = Inr block" "block \<noteq> []" "\<not> cancelled" "ft_received f < t" by blast
    obtain sink w where w: "fe_write env1 block (ft_sink f1) = (sink, w)" by (cases "fe_write env1 block (ft_sink f1)")
    have w2: "fe_write env2 block (h (ft_sink f1)) = (h sink, w)" using same_netD(3) [OF "1.prems"] w by simp
    show ?thesis
    proof (cases w)
      case (Inl e)
      then show ?thesis using b w w2
        by (simp add: read_body.simps [of env1 c t conn f] read_body.simps [of env2 c t conn "map_fetch h f"] p p2 rd)
    next
      case (Inr u)
      have "read_body env2 c t conn' (map_fetch h (f1\<lparr>ft_sink := sink, ft_received := ft_received f + int (length block)\<rparr>)) =
          apfst (map_fetch h) (read_body env1 c t conn' (f1\<lparr>ft_sink := sink, ft_received := ft_received f + int (length block)\<rparr>))"
        by (rule "1.IH" [OF _ p [symmetric] b(3) rd [symmetric] b(1,2) w [symmetric] Inr "1.prems"]) (use b in simp)
      then show ?thesis using b w w2 Inr
        by (simp add: read_body.simps [of env1 c t conn f] read_body.simps [of env2 c t conn "map_fetch h f"] p p2 rd)
    qed
  next
    case False
    then show ?thesis
      by (auto simp: read_body.simps [of env1 c t conn f] read_body.simps [of env2 c t conn "map_fetch h f"] p p2 rd split: sum.splits)
  qed
qed

lemma stream_attempts_map:
  assumes n: "same_net h env1 env2"
  shows "stream_attempts env2 s e c t ats (map_fetch h f) = apfst (map_fetch h) (stream_attempts env1 s e c t ats f)"
proof (induction ats arbitrary: f)
  case (Cons k ats)
  obtain c1 f1 where p1: "poll env1 f = (c1, f1)" by (cases "poll env1 f")
  obtain c2 f2 where p2: "(if k = 0 then (False, f1) else poll env1 f1) = (c2, f2)"
    by (cases "if k = 0 then (False, f1) else poll env1 f1")
  have q1: "poll env2 (map_fetch h f) = (c1, map_fetch h f1)" using same_netD(2) [OF n, of f] p1 by simp
  have q2: "(if k = 0 then (False, map_fetch h f1) else poll env2 (map_fetch h f1)) = (c2, map_fetch h f2)"
    using same_netD(2) [OF n, of f1] p2 by (auto split: if_splits)
  note o = same_netD(1) [OF n]
  show ?case
  proof (cases "fe_open env1 k (s + ft_received f2) e")
    case (Inl err)
    then show ?thesis using Cons.IH [of f2] by (simp add: p1 p2 q1 q2 o)
  next
    case (Inr resp)
    obtain f3 r3 where b: "read_body env1 c t (hr_conn resp) f2 = (f3, r3)" by (cases "read_body env1 c t (hr_conn resp) f2")
    have "read_body env2 c t (hr_conn resp) (map_fetch h f2) = (map_fetch h f3, r3)" using read_body_map [OF n] b by simp
    then show ?thesis using Inr b Cons.IH [of f3] by (auto simp: p1 p2 q1 q2 o split: sum.split)
  qed
qed simp

lemma stream_map:
  assumes n: "same_net h env1 env2"
  shows "stream_remote_bytes env2 s e k c (h sink) = apfst h (stream_remote_bytes env1 s e k c sink)"
proof -
  let ?f = "\<lparr>ft_received = 0, ft_polls = 0, ft_sink = sink\<rparr>"
  have m: "map_fetch h ?f = \<lparr>ft_received = 0, ft_polls = 0, ft_sink = h sink\<rparr>" by (simp add: map_fetch_def)
  show ?thesis
    using stream_attempts_map [OF n, of s e c "e - s + 1" "[0 ..< k]" ?f, unfolded m]
    by (cases "stream_attempts env1 s e c (e - s + 1) [0 ..< k] ?f") (auto simp: stream_remote_bytes_def Let_def split: sum.split)
qed

definition append_env :: "(nat \<Rightarrow> int \<Rightarrow> int \<Rightarrow> response result) \<Rightarrow> (nat \<Rightarrow> bool) \<Rightarrow> bytes fetch_env" where
  "append_env serve cancelled = \<lparr>fe_open = serve, fe_cancelled = cancelled, fe_write = (\<lambda>b s. (s @ b, Inr ()))\<rparr>"

lemma fetch_as_stream:
  "fetch_remote_bytes serve cancelled s e k =
     (case stream_remote_bytes (append_env serve cancelled) s e k 4194304 [] of (b, r) \<Rightarrow> bindE r (\<lambda>_. Inr b))"
proof -
  let ?env = "\<lparr>fe_open = serve, fe_cancelled = cancelled, fe_write = (\<lambda>b chunks. (chunks @ [b], Inr ()))\<rparr>"
  have "same_net concat ?env (append_env serve cancelled)" by (simp add: same_net_def append_env_def)
  from stream_map [OF this, of s e k 4194304 "[]"] show ?thesis
    by (cases "stream_remote_bytes ?env s e k 4194304 []") (simp add: fetch_remote_bytes_def)
qed

lemma append_sink_ok: "sink_ok (fe_write (append_env serve cancelled))"
proof -
  have "\<exists>m. b = take m b \<and> length b \<le> m" for b :: bytes by (rule exI [of _ "length b"]) simp
  then show ?thesis by (simp add: sink_ok_def append_env_def)
qed

text \<open>C12: A fetched range is exactly the bytes of the remote file, whatever fails on the way and however
  often the transfer resumes; and it is fetched whenever no attempt fails in a way the code does not retry and one of
  them delivers all it is asked for.\<close>

theorem range_fetch_exact:
  assumes server: "truthful (append_env serve cancelled) file" "0 \<le> s"
  shows "(\<forall>b. fetch_remote_bytes serve cancelled s e n = Inr b \<longrightarrow> b = window file s e) \<and>
    (patient_env (append_env serve cancelled) s e \<and> (\<exists>k < n. full_attempt (append_env serve cancelled) s e k) \<longrightarrow>
       fetch_remote_bytes serve cancelled s e n = Inr (window file s e))"
proof -
  let ?env = "append_env serve cancelled"
  obtain b r where st: "stream_remote_bytes ?env s e n 4194304 [] = (b, r)" by (cases "stream_remote_bytes ?env s e n 4194304 []")
  have f: "fetch_remote_bytes serve cancelled s e n = bindE r (\<lambda>_. Inr b)" using st by (simp add: fetch_as_stream)
  note ex = stream_exact [OF st server(2) append_sink_ok server(1)]
  have 1: "b' = window file s e" if "fetch_remote_bytes serve cancelled s e n = Inr b'" for b'
    using that ex f by (auto simp: bindE_Inr_iff)
  moreover have "fetch_remote_bytes serve cancelled s e n = Inr (window file s e)"
    if p: "patient_env ?env s e" and k: "k < n" "full_attempt ?env s e k" for k
  proof -
    have "snd (stream_remote_bytes ?env s e n 4194304 []) = Inr (max 0 (e - s + 1))"
      by (rule stream_completes [OF p _ k]) simp
    then have r: "r = Inr (max 0 (e - s + 1))" using st by simp
    then have "b = window file s e" using ex by simp
    then show ?thesis using f r by simp
  qed
  ultimately show ?thesis by blast
qed

section \<open>A server\<close>

text \<open>A server that answers a range the way HTTP says, with the end clipped to the file, and one whose connections
  break after some bytes.\<close>

definition honest_serve :: "bytes \<Rightarrow> int \<Rightarrow> int \<Rightarrow> response result" where
  "honest_serve file a e =
     (if a < 0 \<or> int (length file) \<le> a \<or> e < a then Inl OSError
      else Inr \<lparr>hr_status = 206, hr_content_range = print_content_range (nat a) (nat (min e (int (length file) - 1))) (length file),
        hr_conn = [Block (window file a e)]\<rparr>)"

definition break_after :: "nat \<Rightarrow> response result \<Rightarrow> response result" where
  "break_after k r = bindE r (\<lambda>r. Inr (r\<lparr>hr_conn := [Block (take k (concat (map (\<lambda>ev. case ev of Block b \<Rightarrow> b | ReadError e \<Rightarrow> []) (hr_conn r)))),
     ReadError OSError]\<rparr>))"

definition flaky_serve :: "bytes \<Rightarrow> nat list \<Rightarrow> nat \<Rightarrow> int \<Rightarrow> int \<Rightarrow> response result" where
  "flaky_serve file cuts attempt a e =
     (if attempt < length cuts then break_after (cuts ! attempt) (honest_serve file a e) else honest_serve file a e)"

lemma honest_window: "honest_serve file a e = Inr r \<Longrightarrow> conn_bytes (hr_conn r) = window file a e"
  by (auto simp: honest_serve_def split: if_splits)

lemma break_bytes:
  assumes "break_after k (honest_serve file a e) = Inr r"
  shows "conn_bytes (hr_conn r) = take k (window file a e)"
proof -
  obtain r0 where r0: "honest_serve file a e = Inr r0" using assms by (cases "honest_serve file a e") (simp_all add: break_after_def)
  have c: "hr_conn r0 = [Block (window file a e)]" using r0 by (auto simp: honest_serve_def split: if_splits)
  have "hr_conn r = [Block (take k (window file a e)), ReadError OSError]"
    using assms unfolding r0 break_after_def bindE_simps by (auto simp: c)
  then show ?thesis by simp
qed

lemma flaky_truthful: "truthful (append_env (flaky_serve file cuts) cancelled) file"
proof -
  have "prefix (take n (conn_bytes (hr_conn r))) (window file a e)" if r: "flaky_serve file cuts k a e = Inr r" for k a e r n
  proof (cases "k < length cuts")
    case True
    then show ?thesis using break_bytes [of "cuts ! k" "file" a e r] r by (simp add: flaky_serve_def take_is_prefix)
  next
    case False
    then show ?thesis using honest_window [of "file" a e r] r by (simp add: flaky_serve_def take_is_prefix)
  qed
  then show ?thesis by (simp add: truthful_def append_env_def)
qed

lemma honest_validated:
  assumes "honest_serve file a e = Inr r"
  shows "validate_range_response r a e = (if e < int (length file) then Inr () else Inl RangeResponseError)"
proof -
  have h: "hr_status r = 206" "0 \<le> a" "a < int (length file)" "a \<le> e"
    "hr_content_range r = print_content_range (nat a) (nat (min e (int (length file) - 1))) (length file)"
    using assms by (auto simp: honest_serve_def split: if_splits)
  show ?thesis unfolding validate_printed [OF h(1,5)] using h(2-4) by (auto simp: min_def)
qed

lemma honest_open: "0 \<le> a \<Longrightarrow> a \<le> e \<Longrightarrow> e < int (length file) \<Longrightarrow> \<exists>r. honest_serve file a e = Inr r \<and> hr_conn r = [Block (window file a e)]"
  by (auto simp: honest_serve_def)

lemma break_validate: "break_after k (Inr r) = Inr r' \<Longrightarrow> validate_range_response r' a e = validate_range_response r a e"
  by (auto simp: break_after_def validate_range_response_def)

lemma break_retryable: "break_after k (Inr r) = Inr r' \<Longrightarrow> retryable r'"
  by (auto simp: break_after_def retryable_def is_os_error_def)

text \<open>Such a server is patient over a range of its file, and the first attempt after its breaks delivers.\<close>

lemma flaky_patient:
  assumes e: "0 \<le> s" "e < int (length file)"
  shows "patient_env (append_env (flaky_serve file cuts) (\<lambda>_. False)) s e"
    and "full_attempt (append_env (flaky_serve file cuts) (\<lambda>_. False)) s e (length cuts)"
proof -
  have "case flaky_serve file cuts k a e of Inl err \<Rightarrow> is_os_error err
      | Inr r \<Rightarrow> validate_range_response r a e = Inr () \<and> retryable r" if a: "s \<le> a" "a \<le> e" for k a
  proof -
    have "0 \<le> a" using a e by simp
    from honest_open [OF this a(2) e(2)] obtain r where r: "honest_serve file a e = Inr r" "hr_conn r = [Block (window file a e)]" by blast
    have v: "validate_range_response r a e = Inr ()" using honest_validated [OF r(1)] e(2) by simp
    obtain r' where b: "break_after (cuts ! k) (Inr r) = Inr r'" by (simp add: break_after_def)
    show ?thesis using v r(2) b break_validate [OF b, of a e] break_retryable [OF b] by (simp add: flaky_serve_def r(1) retryable_def)
  qed
  then show "patient_env (append_env (flaky_serve file cuts) (\<lambda>_. False)) s e" by (simp add: patient_env_def append_env_def)
  have "\<exists>resp. honest_serve file a e = Inr resp \<and> e - a + 1 \<le> int (length (conn_bytes (hr_conn resp)))" if a: "s \<le> a" "a \<le> e" for a
  proof -
    have "0 \<le> a" using a e by simp
    from honest_open [OF this a(2) e(2)] obtain r where r: "honest_serve file a e = Inr r" "hr_conn r = [Block (window file a e)]" by blast
    have "int (length (window file a e)) = e - a + 1" using a e by (simp add: window_def)
    then show ?thesis using r honest_window [OF r(1)] by auto
  qed
  then show "full_attempt (append_env (flaky_serve file cuts) (\<lambda>_. False)) s e (length cuts)"
    by (simp add: full_attempt_def append_env_def flaky_serve_def)
qed

theorem range_fetch_exact_witness:
  "fetch_remote_bytes (flaky_serve [1, 2, 3, 4, 5, 6] [2, 0, 1]) (\<lambda>_. False) 1 4 6 = Inr [2, 3, 4, 5]"
proof -
  have w: "window [1, 2, 3, 4, 5, 6] 1 4 = [2, 3, 4, 5]" by code_simp
  have p: "(0 :: int) \<le> 1" "(4 :: int) < int (length [1, 2, 3, 4, 5, 6 :: byte])" by simp_all
  have "length [2, 0, 1 :: nat] < 6" by simp
  then show ?thesis
    using range_fetch_exact [OF flaky_truthful p(1), where e = 4 and n = 6] flaky_patient [OF p, of "[2, 0, 1]"] w by metis
qed

section \<open>Headers\<close>

lemma unpack_u64_nonneg: "0 \<le> unpack_u64 b"
  by (induction b) (auto simp: unpack_u64_def)

lemma bytes_route_eq:
  "parse_safetensors_header_from_bytes json file = parse_local_safetensors_header json (Some file)"
proof (cases "length file < 8")
  case False
  let ?n = "unpack_u64 (take 8 file)"
  have n: "0 \<le> ?n" by (rule unpack_u64_nonneg)
  have "py_slice file 8 (8 + ?n) = take (nat ?n) (drop 8 file)" using py_slice_nat [of 8 ?n "file"] n by simp
  then show ?thesis using False n
    by (auto simp: parse_safetensors_header_from_bytes_def parse_local_safetensors_header_def Let_def min_def)
qed (simp add: parse_safetensors_header_from_bytes_def parse_local_safetensors_header_def)

lemma honest_read: "honest_serve file a e = Inr r \<Longrightarrow> conn_read_all (hr_conn r) = Inr (window file a e)"
  by (auto simp: honest_serve_def split: if_splits)

text \<open>C39: From bytes and from a file the header is the same. From a server that follows HTTP it is the same or refused, and
  refused whenever the file is smaller than the 128 KiB probe.\<close>

theorem header_routes_agree:
  "parse_safetensors_header_from_bytes json file = parse_local_safetensors_header json (Some file) \<and>
   (case parse_remote_safetensors_header json (honest_serve file) PROBE_SIZE of
      Inr h \<Rightarrow> PROBE_SIZE \<le> int (length file) \<and> parse_local_safetensors_header json (Some file) = Inr h
    | Inl e \<Rightarrow> int (length file) < PROBE_SIZE \<or> isl (parse_local_safetensors_header json (Some file)))"
proof (intro conjI bytes_route_eq)
  let ?l = "parse_local_safetensors_header json (Some file)"
  let ?n = "unpack_u64 (take 8 file)"
  have n: "0 \<le> ?n" by (rule unpack_u64_nonneg)
  show "case parse_remote_safetensors_header json (honest_serve file) PROBE_SIZE of
      Inr h \<Rightarrow> PROBE_SIZE \<le> int (length file) \<and> ?l = Inr h | Inl e \<Rightarrow> int (length file) < PROBE_SIZE \<or> isl ?l"
  proof (cases "PROBE_SIZE \<le> int (length file)")
    case False
    then show ?thesis
      by (cases "honest_serve file 0 (PROBE_SIZE - 1)") (simp_all add: parse_remote_safetensors_header_def honest_validated)
  next
    case big: True
    then have "file \<noteq> []" by (auto simp: PROBE_SIZE_def)
    then obtain r where r: "honest_serve file 0 (PROBE_SIZE - 1) = Inr r"
      by (simp add: honest_serve_def PROBE_SIZE_def)
    let ?c = "window file 0 (PROBE_SIZE - 1)"
    have v: "validate_range_response r 0 (PROBE_SIZE - 1) = Inr ()" using honest_validated [OF r] big by simp
    have c: "?c = take 131072 file" by (simp add: window_def PROBE_SIZE_def)
    have c8: "take 8 ?c = take 8 file" "\<not> length ?c < 8" "length file \<ge> 8" unfolding c using big by (simp_all add: PROBE_SIZE_def min_def)
    have loc: "?l = (if int (length file) < 8 + ?n then Inl ValueError else bindE (json (take (nat ?n) (drop 8 file))) (\<lambda>h. Inr (h, 8 + ?n)))"
      using c8(3) n by (auto simp: parse_local_safetensors_header_def Let_def min_def)
    show ?thesis
    proof (cases "8 + ?n \<le> int (length ?c)")
      case True
      have "nat ?n \<le> 131064" using True n by (simp add: c)
      then have "py_slice ?c 8 (8 + ?n) = take (nat ?n) (drop 8 file)"
        using py_slice_nat [of 8 ?n ?c] n by (simp add: c drop_take)
      moreover have "8 + ?n \<le> int (length file)" using True c by simp
      ultimately have "parse_remote_safetensors_header json (honest_serve file) PROBE_SIZE = ?l"
        using True by (simp add: parse_remote_safetensors_header_def r v honest_read [OF r] Let_def c8(1,2) loc)
      then show ?thesis using big by (simp split: sum.split)
    next
      case far: False
      have rem: "parse_remote_safetensors_header json (honest_serve file) PROBE_SIZE =
          bindE (honest_serve file 8 (8 + ?n - 1)) (\<lambda>full. bindE (validate_range_response full 8 (8 + ?n - 1)) (\<lambda>_.
          bindE (conn_read_all (hr_conn full)) (\<lambda>header. bindE (json header) (\<lambda>h. Inr (h, 8 + ?n)))))"
        using far by (simp add: parse_remote_safetensors_header_def r v honest_read [OF r] Let_def c8(1,2))
      have "1 \<le> ?n" using far [unfolded c] big by (simp add: PROBE_SIZE_def)
      then obtain full where full: "honest_serve file 8 (8 + ?n - 1) = Inr full"
        using big by (simp add: honest_serve_def PROBE_SIZE_def)
      note hv = honest_validated [OF full] and hr = honest_read [OF full]
      show ?thesis
      proof (cases "8 + ?n \<le> int (length file)")
        case True
        have v2: "validate_range_response full 8 (8 + ?n - 1) = Inr ()" unfolding hv using True by simp
        have w2: "window file 8 (8 + ?n - 1) = take (nat ?n) (drop 8 file)" by (simp add: window_def)
        have "parse_remote_safetensors_header json (honest_serve file) PROBE_SIZE = ?l"
          unfolding rem loc full bindE_simps v2 hr w2 using True by simp
        then show ?thesis using big by (simp split: sum.split)
      next
        case False
        have v2: "validate_range_response full 8 (8 + ?n - 1) = Inl RangeResponseError" unfolding hv using False by simp
        show ?thesis unfolding rem loc full bindE_simps v2 using False by simp
      qed
    qed
  qed
qed

end
