(* ===== verification/PageLaws.thy ===== *)
theory PageLaws
  imports PageStore RangeLaws FormatLaws
begin

text \<open>
  What the page cache keeps, for any order of its operations and any behaviour of a truthful
  network: rows and files agree, every page is the bytes of its slices followed by zeros, leased
  pages stay, occupancy and reservations together stay within the budget, and a fragment is a prefix
  of its slice, so that a resumed download continues where the last one stopped.
\<close>

section \<open>Sums over dictionaries\<close>

definition od_sum :: "('v \<Rightarrow> int) \<Rightarrow> ('k, 'v) odict \<Rightarrow> int" where
  "od_sum f d = sum_list (map (\<lambda>p. f (snd p)) d)"

lemma od_sum_simps [simp]: "od_sum f [] = 0" "od_sum f (p # d) = f (snd p) + od_sum f d" "od_sum f (d @ e) = od_sum f d + od_sum f e"
  by (simp_all add: od_sum_def)

lemma od_remove_absent: "\<not> od_in k d \<Longrightarrow> od_remove k d = d"
  by (induction d) (auto simp: od_remove_def)

lemma od_sum_remove:
  "od_ok d \<Longrightarrow> od_sum f (od_remove k d) = od_sum f d - (case od_get d k of None \<Rightarrow> 0 | Some v \<Rightarrow> f v)"
proof (induction d)
  case (Cons p d)
  show ?case
  proof (cases "fst p = k")
    case True
    then have "od_remove k d = d" using Cons.prems by (intro od_remove_absent) simp
    then show ?thesis using True by (simp add: od_remove_def od_get_def)
  next
    case False
    then show ?thesis using Cons by (cases p) (simp add: od_remove_def od_get_def)
  qed
qed (simp add: od_remove_def od_get_def)

lemma od_sum_set: "od_ok d \<Longrightarrow> od_sum f (od_set d k v) = od_sum f (od_remove k d) + f v"
proof (induction d k v rule: od_set.induct)
  case (2 p d k v)
  show ?case
  proof (cases "fst p = k")
    case True
    then have "od_remove k d = d" using "2.prems" by (intro od_remove_absent) simp
    then show ?thesis using True by (simp add: od_remove_def)
  next
    case False
    then show ?thesis using 2 by (simp add: od_remove_def)
  qed
qed (simp add: od_remove_def)

lemma od_sum_nonneg: "(\<And>k v. od_get d k = Some v \<Longrightarrow> 0 \<le> f v) \<Longrightarrow> od_ok d \<Longrightarrow> 0 \<le> od_sum f d"
proof (induction d)
  case (Cons p d)
  have "0 \<le> f (snd p)" using Cons.prems(1) [of "fst p" "snd p"] by (cases p) (simp add: od_get_def)
  moreover have "0 \<le> od_sum f d"
  proof (rule Cons.IH)
    fix k v assume g: "od_get d k = Some v"
    then have "k \<noteq> fst p" using Cons.prems(2) od_get_Some_in [OF g] by auto
    then show "0 \<le> f v" using Cons.prems(1) [of k v] g by (cases p) (simp add: od_get_def)
  qed (use Cons.prems(2) in simp)
  ultimately show ?case by simp
qed simp

section \<open>Padding\<close>

lemma write_padding_zeros:
  assumes "0 \<le> p" "0 < n"
  shows "write_padding (replicate n 0) p out = Some (out @ replicate (nat p) 0)"
  using assms(1)
proof (induction "nat p" arbitrary: p out rule: less_induct)
  case less
  show ?case
  proof (cases "p = 0")
    case True
    then show ?thesis by (subst write_padding.simps) simp
  next
    case False
    have s: "py_slice (replicate n (0 :: byte)) 0 p = replicate (min n (nat p)) 0"
      using py_slice_nat [of 0 p "replicate n (0 :: byte)"] less.prems by simp
    let ?k = "min n (nat p)"
    have k: "0 < ?k" "int ?k \<le> p" using False less.prems assms(2) by simp_all
    have "write_padding (replicate n 0) (p - int ?k) (out @ replicate ?k 0) = Some ((out @ replicate ?k 0) @ replicate (nat (p - int ?k)) 0)"
      by (rule less.hyps) (use k in simp_all)
    moreover have "replicate ?k (0 :: byte) @ replicate (nat (p - int ?k)) 0 = replicate (nat p) 0"
      using k by (simp add: replicate_add [symmetric])
    ultimately show ?thesis using False by (simp add: write_padding.simps [of _ p] s)
  qed
qed

lemma write_padding_loops: "write_padding z p out = Some y \<Longrightarrow> z = [] \<longrightarrow> p = 0"
proof (erule write_padding.raw_induct [where P = "\<lambda>z p out y. z = [] \<longrightarrow> p = 0", rotated])
  fix f z p out y
  assume "\<And>z p out y. f z p out = Some y \<Longrightarrow> z = [] \<longrightarrow> p = 0"
    "(if p = 0 then Some out else f z (p - int (length (py_slice z 0 p))) (out @ py_slice z 0 p)) = Some y"
  then show "z = [] \<longrightarrow> p = 0" by (auto simp: py_slice_def split: if_splits)
qed

lemma page_padding_iff: "page_padding p out = (if 0 \<le> p then Some (out @ replicate (nat p) 0) else None)"
proof -
  have "page_padding p out = None" if "p < 0"
    using write_padding_loops [of "[]" p out] that by (cases "write_padding [] p out") (auto simp: page_padding_def)
  then show ?thesis using write_padding_zeros [of p "nat (min p 1048576)" out] by (auto simp: page_padding_def)
qed

section \<open>Fragments\<close>

definition slice_bytes :: "(string \<Rightarrow> bytes) \<Rightarrow> source_slice \<Rightarrow> bytes" where
  "slice_bytes files s = window (files (ss_shard s)) (ss_byte_start s) (ss_byte_end s - 1)"

lemma slice_bytes_length: "int (length (slice_bytes files s)) \<le> max 0 (ss_size_bytes s)"
  using window_length [of "files (ss_shard s)" "ss_byte_start s" "ss_byte_end s - 1"]
  by (simp add: slice_bytes_def ss_size_bytes_def)

lemma full_fragment:
  assumes "prefix f (slice_bytes files s)" "int (length f) = ss_size_bytes s"
  shows "f = slice_bytes files s"
proof -
  obtain z where z: "slice_bytes files s = f @ z" using assms(1) by (auto simp: prefix_def)
  then have "z = []" using slice_bytes_length [of files s] assms(2) by simp
  then show ?thesis using z by simp
qed

lemma fetch_slice_prefix:
  assumes f: "fetch_slice_to_file r env s dest = (dest', res)" and d: "\<And>f. dest = Some f \<Longrightarrow> prefix f (slice_bytes files s)"
    and env: "truthful env (files (ss_shard s))" "sink_ok (fe_write env)" and start: "0 \<le> ss_byte_start s"
    and b: "dest' = Some b"
  shows "prefix b (slice_bytes files s)"
proof -
  define dd where "dd = (case dest of Some f \<Rightarrow> if ss_size_bytes s < int (length f) then None else Some f | None \<Rightarrow> None)"
  define f0 where "f0 = (case dd of Some f \<Rightarrow> f | None \<Rightarrow> [])"
  let ?w = "slice_bytes files s"
  have f0: "prefix f0 ?w" using d by (auto simp: f0_def dd_def split: option.splits)
  have ex: "(case dd of Some f \<Rightarrow> int (length f) | None \<Rightarrow> 0) = int (length f0)" by (simp add: f0_def split: option.splits)
  note eq = f [unfolded fetch_slice_to_file_def Let_def, folded dd_def, unfolded ex, folded f0_def]
  show ?thesis
  proof (cases "int (length f0) = ss_size_bytes s")
    case True
    then have "dd = Some b" using eq b by simp
    then show ?thesis using f0 by (simp add: f0_def)
  next
    case False
    obtain g rr where st: "stream_remote_bytes env (ss_byte_start s + int (length f0)) (ss_byte_end s - 1) 6 (rm_chunk_size r) f0 = (g, rr)"
      by (cases "stream_remote_bytes env (ss_byte_start s + int (length f0)) (ss_byte_end s - 1) 6 (rm_chunk_size r) f0")
    have "b = g" using eq b False st by (auto split: sum.splits)
    moreover obtain m where "g = f0 @ take m (window (files (ss_shard s)) (ss_byte_start s + int (length f0)) (ss_byte_end s - 1))"
      using stream_exact [OF st _ env(2,1)] start by (auto simp: part_of_def)
    moreover obtain z where z: "?w = f0 @ z" using f0 by (auto simp: prefix_def)
    moreover have "window (files (ss_shard s)) (ss_byte_start s + int (length f0)) (ss_byte_end s - 1) = drop (length f0) ?w"
      using window_drop [OF start, of "int (length f0)" "files (ss_shard s)" "ss_byte_end s - 1"] by (simp add: slice_bytes_def)
    ultimately show ?thesis by (simp add: take_is_prefix)
  qed
qed

definition shrinks :: "bytes option \<Rightarrow> bytes option \<Rightarrow> bool" where
  "shrinks old new \<longleftrightarrow> new = None \<or> (\<exists>f k. old = Some f \<and> new = Some (take k f))"

lemma shrinks_self: "shrinks f f"
proof (cases f)
  case (Some b)
  then show ?thesis unfolding shrinks_def by (intro disjI2 exI [of _ b] exI [of _ "length b"]) simp
qed (simp add: shrinks_def)

lemma shrinks_trans: "shrinks a b \<Longrightarrow> shrinks b c \<Longrightarrow> shrinks a c"
  by (auto simp: shrinks_def)

text \<open>A fragment survives under its journaled checksum, or as an unjournaled file of the full size.\<close>

lemma prepare_one_kept:
  assumes "prepare_one d s fragment old = (Some f, r, n)"
  shows "\<exists>g. fragment = Some g \<and> n = int (length f) \<and> length f \<le> length g \<and>
    (case old of Some x \<Rightarrow> f = take (nat (fr_size_bytes x)) g \<and> dg_sha d f = fr_sha256 x \<and> int (length f) = fr_size_bytes x
     | None \<Rightarrow> f = g \<and> int (length g) = ss_size_bytes s)"
  using assms by (auto simp: prepare_one_def keep_full_def Let_def split: option.splits if_splits)

lemma prepare_one_shrinks:
  assumes p: "prepare_one d s fragment old = (f, r, n)"
  shows "shrinks fragment f"
proof (cases f)
  case (Some b)
  then obtain g where g: "fragment = Some g" "case old of Some x \<Rightarrow> b = take (nat (fr_size_bytes x)) g | None \<Rightarrow> b = g"
    using prepare_one_kept [of d s fragment old b r n] p by (auto split: option.splits)
  then show ?thesis using Some shrinks_self [of f] by (auto simp: shrinks_def split: option.splits)
qed (simp add: shrinks_def)

lemma prepare_loop_shrinks:
  "prepare_loop d index slices (fr, completed, reused) = (fr', completed', reused') \<Longrightarrow> shrinks (fr i) (fr' i)"
proof (induction slices arbitrary: index fr completed reused)
  case Nil
  then show ?case using shrinks_self by simp
next
  case (Cons s slices)
  obtain f r n where p: "prepare_one d s (fr index) (od_get completed index) = (f, r, n)"
    by (cases "prepare_one d s (fr index) (od_get completed index)")
  have "prepare_loop d (Suc index) slices (fr(index := f), (case r of None \<Rightarrow> od_remove index completed
      | Some x \<Rightarrow> od_set completed index x), reused + n) = (fr', completed', reused')" using Cons.prems p by simp
  then have "shrinks ((fr(index := f)) i) (fr' i)" by (rule Cons.IH)
  moreover have "shrinks (fr i) ((fr(index := f)) i)" using prepare_one_shrinks [OF p] shrinks_self by simp
  ultimately show ?case by (rule shrinks_trans [rotated])
qed

section \<open>The invariant\<close>

definition page_bytes :: "(string \<Rightarrow> bytes) \<Rightarrow> page_descriptor \<Rightarrow> bytes" where
  "page_bytes files desc = concat (map (slice_bytes files) (pd_source_slices desc)) @
     replicate (nat (rl_stride (pd_output_layout desc) - pd_expected_bytes desc)) 0"

definition page_held :: "digests \<Rightarrow> remote_store \<Rightarrow> (string \<Rightarrow> bytes) \<Rightarrow> page_store \<Rightarrow> string \<Rightarrow> bool" where
  "page_held d r files s key \<longleftrightarrow>
     (case (st_pages s key, st_manifests s key, od_get (st_rows s) key) of
        (Some page, Some (Some m), Some row) \<Rightarrow>
          dg_key d (pd_page_id (mf_descriptor m)) = key \<and> remote_resolve r (pd_page_id (mf_descriptor m)) = Inr (mf_descriptor m) \<and>
          page = page_bytes files (mf_descriptor m) \<and> mf_size_bytes m = int (length page) \<and> mf_sha256 m = dg_sha d page \<and>
          rw_size_bytes row = int (length page)
      | (None, None, None) \<Rightarrow> od_get (st_leases s) key = None
      | _ \<Rightarrow> False)"

definition fragments_ok :: "digests \<Rightarrow> remote_store \<Rightarrow> (string \<Rightarrow> bytes) \<Rightarrow> page_store \<Rightarrow> bool" where
  "fragments_ok d r files s \<longleftrightarrow> (\<forall>pid desc i f. remote_resolve r pid = Inr desc \<longrightarrow> i < length (pd_source_slices desc) \<longrightarrow>
     pt_fragments (st_partial s (dg_key d pid)) i = Some f \<longrightarrow> prefix f (slice_bytes files (pd_source_slices desc ! i)))"

definition reserved :: "page_store \<Rightarrow> int" where
  "reserved s = od_sum id (st_reservations s)"

definition store_inv :: "digests \<Rightarrow> remote_store \<Rightarrow> (string \<Rightarrow> bytes) \<Rightarrow> page_store \<Rightarrow> bool" where
  "store_inv d r files s \<longleftrightarrow> od_ok (st_rows s) \<and> od_ok (st_leases s) \<and> od_ok (st_reservations s) \<and>
     (\<forall>k n. od_get (st_leases s) k = Some n \<longrightarrow> 0 < n) \<and> (\<forall>k n. od_get (st_reservations s) k = Some n \<longrightarrow> 0 \<le> n) \<and>
     (\<forall>k. page_held d r files s k) \<and> fragments_ok d r files s \<and> occupancy_bytes s + reserved s \<le> st_max_cache_bytes s"

lemma occupancy_sum: "occupancy_bytes s = od_sum rw_size_bytes (st_rows s)"
  by (simp add: occupancy_bytes_def od_sum_def)

lemma reserved_elsewhere_sum: "reserved_elsewhere k s = od_sum id (od_remove k (st_reservations s))"
  by (simp add: reserved_elsewhere_def od_sum_def)

lemma page_heldD:
  assumes "page_held d r files s k"
  shows "(st_pages s k = None \<longleftrightarrow> st_manifests s k = None) \<and> (st_pages s k = None \<longleftrightarrow> od_get (st_rows s) k = None) \<and>
    (st_pages s k = None \<longrightarrow> od_get (st_leases s) k = None) \<and>
    (\<forall>page. st_pages s k = Some page \<longrightarrow> (\<exists>m row. st_manifests s k = Some (Some m) \<and> od_get (st_rows s) k = Some row \<and>
       dg_key d (pd_page_id (mf_descriptor m)) = k \<and> remote_resolve r (pd_page_id (mf_descriptor m)) = Inr (mf_descriptor m) \<and>
       page = page_bytes files (mf_descriptor m) \<and> mf_size_bytes m = int (length page) \<and> mf_sha256 m = dg_sha d page \<and>
       rw_size_bytes row = int (length page)))"
  using assms by (auto simp: page_held_def split: option.splits)

lemma store_invD:
  assumes "store_inv d r files s"
  shows "od_ok (st_rows s)" "od_ok (st_leases s)" "od_ok (st_reservations s)" "\<And>k n. od_get (st_leases s) k = Some n \<Longrightarrow> 0 < n"
    "\<And>k n. od_get (st_reservations s) k = Some n \<Longrightarrow> 0 \<le> n" "\<And>k. page_held d r files s k" "fragments_ok d r files s"
    "occupancy_bytes s + reserved s \<le> st_max_cache_bytes s"
  using assms unfolding store_inv_def by blast+

lemma row_size_nonneg: "store_inv d r files s \<Longrightarrow> od_get (st_rows s) k = Some row \<Longrightarrow> 0 \<le> rw_size_bytes row"
  using page_heldD [OF store_invD(6), of d r files s k] by (cases "st_pages s k") auto

lemma page_held_cong:
  assumes "st_pages s' k = st_pages s k" "st_manifests s' k = st_manifests s k"
    "od_get (st_rows s') k = od_get (st_rows s) k" "od_get (st_leases s') k = od_get (st_leases s) k"
  shows "page_held d r files s' k = page_held d r files s k"
  unfolding page_held_def assms ..

lemma fragments_ok_cong: "st_partial s' = st_partial s \<Longrightarrow> fragments_ok d r files s' = fragments_ok d r files s"
  by (simp add: fragments_ok_def)

lemma lease_count_0: "store_inv d r files s \<Longrightarrow> lease_count s k = 0 \<longleftrightarrow> od_get (st_leases s) k = None"
  using store_invD(4) [of d r files s k] by (auto simp: lease_count_def split: option.splits)

section \<open>Making room\<close>

definition same_memory :: "page_store \<Rightarrow> page_store \<Rightarrow> bool" where
  "same_memory s s' \<longleftrightarrow> st_max_cache_bytes s' = st_max_cache_bytes s \<and> st_partial s' = st_partial s \<and>
     st_leases s' = st_leases s \<and> st_reservations s' = st_reservations s \<and>
     (\<forall>k. st_pages s' k = st_pages s k \<or> od_get (st_leases s) k = None)"

lemma evict_inv:
  assumes i: "store_inv d r files s" and k: "od_in k (st_rows s)" "lease_count s k = 0"
  shows "store_inv d r files (evict_page k s) \<and> same_memory s (evict_page k s)"
proof -
  note i' = store_invD [OF i]
  have l: "od_get (st_leases s) k = None" using k(2) lease_count_0 [OF i] by simp
  have h: "page_held d r files (evict_page k s) j" for j
  proof (cases "j = k")
    case True
    then show ?thesis using l by (simp add: page_held_def evict_page_def unlink_page_def od_get_remove)
  next
    case False
    then have "page_held d r files (evict_page k s) j = page_held d r files s j"
      by (intro page_held_cong) (simp_all add: evict_page_def unlink_page_def od_get_remove)
    then show ?thesis using i'(6) by simp
  qed
  have "occupancy_bytes (evict_page k s) \<le> occupancy_bytes s"
    using od_sum_remove [OF i'(1), of rw_size_bytes k] row_size_nonneg [OF i, of k]
    by (simp add: occupancy_sum evict_page_def unlink_page_def split: option.splits)
  then have "occupancy_bytes (evict_page k s) + reserved (evict_page k s) \<le> st_max_cache_bytes (evict_page k s)"
    using i'(8) by (simp add: reserved_def evict_page_def unlink_page_def)
  then show ?thesis using h i' l fragments_ok_cong [of "evict_page k s" s d r files]
    by (auto simp: store_inv_def same_memory_def evict_page_def unlink_page_def)
qed

lemma same_memory_trans: "same_memory s s1 \<Longrightarrow> same_memory s1 s2 \<Longrightarrow> same_memory s s2"
  unfolding same_memory_def by metis

lemma make_room_inv:
  "store_inv d r files s \<Longrightarrow> make_room n k s = (s', res) \<Longrightarrow> store_inv d r files s' \<and> same_memory s s' \<and>
     (res = Inr () \<longrightarrow> occupancy_bytes s' + reserved_elsewhere k s' + n \<le> st_max_cache_bytes s')"
proof (induction n k s rule: make_room.induct)
  case (1 n k s)
  note eq = "1.prems"(2) [unfolded make_room.simps [of n k s]]
  show ?case
  proof (cases "occupancy_bytes s + reserved_elsewhere k s + n \<le> st_max_cache_bytes s \<or> find_victim k s = None")
    case True
    then have "s' = s" "res = Inr () \<longrightarrow> occupancy_bytes s + reserved_elsewhere k s + n \<le> st_max_cache_bytes s"
      using eq by (auto split: if_splits)
    then show ?thesis using "1.prems"(1) by (simp add: same_memory_def)
  next
    case False
    then obtain v where v: "find_victim k s = Some v" "\<not> occupancy_bytes s + reserved_elsewhere k s + n \<le> st_max_cache_bytes s" by auto
    have e: "store_inv d r files (evict_page v s)" "same_memory s (evict_page v s)"
      using evict_inv [OF "1.prems"(1)] find_victim_in [OF v(1)] by blast+
    show ?thesis using "1.IH" [OF v(2,1) e(1)] eq v same_memory_trans [OF e(2)] by simp
  qed
qed

lemma ensure_capacity_inv:
  assumes "store_inv d r files s" "ensure_capacity n k s = (s', res)"
  shows "store_inv d r files s' \<and> same_memory s s' \<and>
     (res = Inr () \<longrightarrow> occupancy_bytes s' + reserved_elsewhere k s' + n \<le> st_max_cache_bytes s')"
proof (cases "st_max_cache_bytes s < n")
  case True
  then show ?thesis using assms by (auto simp: ensure_capacity_def same_memory_def)
next
  case False
  then show ?thesis using assms make_room_inv [OF assms(1)] by (simp add: ensure_capacity_def)
qed

section \<open>Every operation keeps the invariant\<close>

lemma resolve_tensor_id: "resolve_tensor r p = Inr desc \<Longrightarrow> pd_page_id desc = p"
  unfolding resolve_tensor_def by (elim bindE_InrE) (auto split: if_splits option.splits)

lemma resolve_expert_id: "resolve_expert r p = Inr desc \<Longrightarrow> pd_page_id desc = p"
  unfolding resolve_expert_def expert_descriptor_def Let_def by (elim bindE_InrE) (auto split: if_splits option.splits prod.splits)

lemma resolve_page_id: "remote_resolve r p = Inr desc \<Longrightarrow> pd_page_id desc = p"
  using resolve_tensor_id resolve_expert_id by (simp add: remote_resolve_def split: if_splits)

lemma replace_row_inv:
  assumes i: "store_inv d r files s" and row: "od_get (st_rows s) k = Some row" "rw_size_bytes row' = rw_size_bytes row"
  shows "store_inv d r files (replace_row k row' s)"
proof -
  note i' = store_invD [OF i]
  have g: "od_get (od_remove k (st_rows s) @ [(k, row')]) j = (if j = k then Some row' else od_get (st_rows s) j)" for j
    by (auto simp: od_get_append od_get_remove od_get_def [of "[(k, row')]"] split: option.splits)
  have "page_held d r files (replace_row k row' s) j" for j
  proof (cases "j = k")
    case True
    then show ?thesis using i'(6) [of k] row g [of k] by (auto simp: page_held_def replace_row_def split: option.splits)
  next
    case False
    then have "page_held d r files (replace_row k row' s) j = page_held d r files s j"
      by (intro page_held_cong) (simp_all add: replace_row_def g)
    then show ?thesis using i'(6) by simp
  qed
  moreover have "occupancy_bytes (replace_row k row' s) = occupancy_bytes s"
    using od_sum_remove [OF i'(1), of rw_size_bytes k] row by (simp add: occupancy_sum replace_row_def)
  ultimately show ?thesis using i' fragments_ok_cong [of "replace_row k row' s" s d r files]
    by (auto simp: store_inv_def replace_row_def reserved_def)
qed

lemma lease_inv:
  assumes i: "store_inv d r files s" and p: "st_pages s k \<noteq> None"
  shows "store_inv d r files (acquire_lease k s)"
proof -
  note i' = store_invD [OF i]
  have "page_held d r files (acquire_lease k s) j" for j
  proof (cases "j = k")
    case True
    then show ?thesis using i'(6) [of k] p by (auto simp: page_held_def acquire_lease_def split: option.splits)
  next
    case False
    then have "page_held d r files (acquire_lease k s) j = page_held d r files s j"
      by (intro page_held_cong) (simp_all add: acquire_lease_def od_get_set)
    then show ?thesis using i'(6) by simp
  qed
  moreover have "0 \<le> lease_count s k" using i'(4) [of k] by (auto simp: lease_count_def split: option.splits)
  ultimately show ?thesis using i' fragments_ok_cong [of "acquire_lease k s" s d r files]
    by (auto simp: store_inv_def acquire_lease_def reserved_def od_get_set occupancy_sum split: if_splits)
qed

lemma release_inv:
  assumes i: "store_inv d r files s"
  shows "store_inv d r files (store_release d h s)"
proof -
  note i' = store_invD [OF i]
  let ?k = "dg_key d (ph_page_id h)" and ?s = "store_release d h s"
  have f: "st_pages ?s = st_pages s" "st_manifests ?s = st_manifests s" "st_rows ?s = st_rows s" "st_partial ?s = st_partial s"
    "st_reservations ?s = st_reservations s" "st_max_cache_bytes ?s = st_max_cache_bytes s"
    by (simp_all add: store_release_def Let_def)
  have l: "od_ok (st_leases ?s)" "od_get (st_leases ?s) k = Some n \<Longrightarrow> 0 < n" "od_get (st_leases s) k = None \<Longrightarrow> od_get (st_leases ?s) k = None" for k n
    using i'(2,4) by (auto simp: store_release_def Let_def od_get_remove od_get_set lease_count_def split: if_splits option.splits)
  have "page_held d r files ?s j" for j
    using i'(6) [of j] l(3) [of j] unfolding page_held_def f by (auto split: option.splits)
  then show ?thesis using i' l(1,2) fragments_ok_cong [OF f(4), of d r files] by (simp add: store_inv_def f reserved_def occupancy_sum)
qed

lemma cancel_inv:
  assumes i: "store_inv d r files s"
  shows "store_inv d r files (cancel_reservation d pid s)"
proof -
  note i' = store_invD [OF i]
  let ?k = "dg_key d pid" and ?s = "cancel_reservation d pid s"
  have f: "st_pages ?s = st_pages s" "st_manifests ?s = st_manifests s" "st_rows ?s = st_rows s" "st_partial ?s = st_partial s"
    "st_leases ?s = st_leases s" "st_max_cache_bytes ?s = st_max_cache_bytes s" "st_reservations ?s = od_remove ?k (st_reservations s)"
    by (simp_all add: cancel_reservation_def)
  have "reserved ?s \<le> reserved s"
    using od_sum_remove [OF i'(3), of id ?k] i'(5) [of ?k] by (simp add: reserved_def f split: option.splits)
  moreover have "page_held d r files ?s j" for j using i'(6) [of j] unfolding page_held_def f .
  ultimately show ?thesis using i' fragments_ok_cong [OF f(4), of d r files]
    by (auto simp: store_inv_def f occupancy_sum od_get_remove split: if_splits)
qed

lemma reserve_inv:
  assumes i: "store_inv d r files s" and n: "0 \<le> n" and e: "store_reserve d pid n s = (s', res)"
  shows "store_inv d r files s'"
proof (cases "od_in (dg_key d pid) (st_reservations s)")
  case True
  then show ?thesis using i e by (simp add: store_reserve_def Let_def)
next
  case False
  let ?k = "dg_key d pid"
  obtain s1 r1 where c: "ensure_capacity n ?k s = (s1, r1)" by (cases "ensure_capacity n ?k s")
  have c': "store_inv d r files s1" "same_memory s s1"
    "r1 = Inr () \<longrightarrow> occupancy_bytes s1 + reserved_elsewhere ?k s1 + n \<le> st_max_cache_bytes s1"
    using ensure_capacity_inv [OF i c] by blast+
  note i' = store_invD [OF c'(1)]
  show ?thesis
  proof (cases r1)
    case (Inl err)
    then show ?thesis using e c c'(1) False by (simp add: store_reserve_def Let_def)
  next
    case (Inr u)
    then have s': "s' = s1\<lparr>st_reservations := od_set (st_reservations s1) ?k n\<rparr>" using e c False by (simp add: store_reserve_def Let_def)
    have "reserved s' = reserved_elsewhere ?k s1 + n"
      using od_sum_set [OF i'(3), of id ?k n] by (simp add: reserved_def s' reserved_elsewhere_sum)
    moreover have "page_held d r files s' j" for j
      using i'(6) [of j] page_held_cong [of s' j s1 d r files] by (simp add: s')
    ultimately show ?thesis using i' c'(3) Inr n fragments_ok_cong [of s' s1 d r files]
      by (auto simp: store_inv_def s' occupancy_sum od_get_set split: if_splits)
  qed
qed

lemma lookup_inv:
  assumes i: "store_inv d r files s" and inj: "inj (dg_key d)" and e: "store_lookup d pid acquire now s = (s', h)"
  shows "store_inv d r files s' \<and> st_partial s' = st_partial s \<and> st_reservations s' = st_reservations s \<and>
    st_corruptions s' = st_corruptions s \<and>
    (\<forall>h'. h = Some h' \<longrightarrow> (\<exists>desc. remote_resolve r pid = Inr desc \<and> st_pages s' (dg_key d pid) = Some (page_bytes files desc) \<and>
       ph_page_id h' = pid \<and> ph_checksum h' = dg_sha d (page_bytes files desc) \<and>
       (acquire \<longrightarrow> od_get (st_leases s') (dg_key d pid) \<noteq> None)))"
proof -
  let ?k = "dg_key d pid"
  note i' = store_invD [OF i] and ph = page_heldD [OF store_invD(6) [OF i], of ?k]
  show ?thesis
  proof (cases "st_pages s ?k")
    case None
    then have "od_get (st_rows s) ?k = None" using ph by blast
    then have "od_remove ?k (st_rows s) = st_rows s" by (intro od_remove_absent) (simp add: od_get_eq_None)
    then show ?thesis using e i None by (auto simp: store_lookup_def Let_def)
  next
    case (Some page)
    then obtain m row where m: "st_manifests s ?k = Some (Some m)" "od_get (st_rows s) ?k = Some row"
      "dg_key d (pd_page_id (mf_descriptor m)) = ?k" "remote_resolve r (pd_page_id (mf_descriptor m)) = Inr (mf_descriptor m)"
      "page = page_bytes files (mf_descriptor m)" "mf_size_bytes m = int (length page)" "mf_sha256 m = dg_sha d page"
      "rw_size_bytes row = int (length page)" using ph by blast
    have id: "pd_page_id (mf_descriptor m) = pid" using m(3) inj by (simp add: inj_eq)
    have v: "manifest_valid d pid page m" using id m(6,7) by (simp add: manifest_valid_def)
    let ?row = "\<lparr>rw_size_bytes = mf_size_bytes m, rw_checksum = mf_sha256 m, rw_last_access = now\<rparr>"
    let ?s1 = "replace_row ?k ?row s"
    have i1: "store_inv d r files ?s1" by (rule replace_row_inv [OF i m(2)]) (simp add: m(6,8))
    have p1: "st_pages ?s1 ?k \<noteq> None" using Some by (simp add: replace_row_def)
    have s': "s' = (if acquire then acquire_lease ?k ?s1 else ?s1)" and h: "\<exists>h'. h = Some h' \<and> ph_page_id h' = pid \<and> ph_checksum h' = mf_sha256 m"
      using e Some m(1) v by (auto simp: store_lookup_def Let_def)
    have f: "st_pages s' = st_pages s" "st_partial s' = st_partial s" "st_reservations s' = st_reservations s" "st_corruptions s' = st_corruptions s"
      by (simp_all add: s' replace_row_def acquire_lease_def)
    have l: "acquire \<longrightarrow> od_get (st_leases s') ?k \<noteq> None" by (simp add: s' acquire_lease_def od_get_set)
    have "store_inv d r files s'" using i1 lease_inv [OF i1 p1] by (simp add: s')
    then show ?thesis using f h l Some m(4,5,7) id by auto
  qed
qed

lemma set_partial_inv:
  assumes i: "store_inv d r files s" and inj: "inj (dg_key d)" and desc: "remote_resolve r pid = Inr desc"
    and p: "\<And>i f. i < length (pd_source_slices desc) \<Longrightarrow> pt_fragments p i = Some f \<Longrightarrow> prefix f (slice_bytes files (pd_source_slices desc ! i))"
  shows "store_inv d r files (set_partial (dg_key d pid) p s)"
proof -
  let ?s = "set_partial (dg_key d pid) p s"
  note i' = store_invD [OF i]
  have "fragments_ok d r files ?s"
    unfolding fragments_ok_def
  proof (intro allI impI)
    fix pid' desc' j f
    assume a: "remote_resolve r pid' = Inr desc'" "j < length (pd_source_slices desc')" "pt_fragments (st_partial ?s (dg_key d pid')) j = Some f"
    show "prefix f (slice_bytes files (pd_source_slices desc' ! j))"
    proof (cases "pid' = pid")
      case True
      then show ?thesis using a desc p by (simp add: set_partial_def)
    next
      case False
      then have "dg_key d pid' \<noteq> dg_key d pid" using inj by (simp add: inj_eq)
      then show ?thesis using a i'(7) by (simp add: set_partial_def fragments_ok_def)
    qed
  qed
  moreover have "page_held d r files ?s j" for j using i'(6) [of j] page_held_cong [of ?s j s d r files] by (simp add: set_partial_def)
  ultimately show ?thesis using i' by (simp add: store_inv_def set_partial_def occupancy_sum reserved_def)
qed

lemma fragment_prefix:
  "store_inv d r files s \<Longrightarrow> remote_resolve r pid = Inr desc \<Longrightarrow> i < length (pd_source_slices desc) \<Longrightarrow>
     pt_fragments (st_partial s (dg_key d pid)) i = Some f \<Longrightarrow> prefix f (slice_bytes files (pd_source_slices desc ! i))"
  using store_invD(7) [of d r files s] unfolding fragments_ok_def by blast

lemma prepare_inv:
  assumes i: "store_inv d r files s" and inj: "inj (dg_key d)" and desc: "remote_resolve r pid = Inr desc"
    and e: "prepare_fragments d desc s = (s', n)"
  shows "store_inv d r files s'"
proof -
  note id = resolve_page_id [OF desc]
  let ?p = "st_partial s (dg_key d pid)"
  obtain fr completed reused where l: "prepare_loop d 0 (pd_source_slices desc)
      (pt_fragments ?p, (case pt_journal ?p of Some j \<Rightarrow> j | None \<Rightarrow> []), 0) = (fr, completed, reused)"
    by (cases "prepare_loop d 0 (pd_source_slices desc) (pt_fragments ?p, (case pt_journal ?p of Some j \<Rightarrow> j | None \<Rightarrow> []), 0)") auto
  have s': "s' = set_partial (dg_key d pid) \<lparr>pt_fragments = fr, pt_journal = Some completed\<rparr> s"
    using e l by (simp add: prepare_fragments_def id Let_def)
  show ?thesis
    unfolding s'
  proof (rule set_partial_inv [OF i inj desc])
    fix j f assume j: "j < length (pd_source_slices desc)" "pt_fragments \<lparr>pt_fragments = fr, pt_journal = Some completed\<rparr> j = Some f"
    then obtain g k where "pt_fragments ?p j = Some g" "f = take k g"
      using prepare_loop_shrinks [OF l, of j] by (auto simp: shrinks_def)
    then show "prefix f (slice_bytes files (pd_source_slices desc ! j))"
      using fragment_prefix [OF i desc j(1)] prefix_order.trans [OF take_is_prefix] by blast
  qed
qed

text \<open>Addresses as a checkpoint header gives them, and what the resolution of a page makes of them.\<close>

definition addresses_ok :: "remote_store \<Rightarrow> bool" where
  "addresses_ok r \<longleftrightarrow> (\<forall>a \<in> snd ` set (rm_tensors r). 0 \<le> ta_byte_start a \<and> 0 \<le> ta_size_bytes a \<and>
     ta_byte_end a = ta_byte_start a + ta_size_bytes a \<and> (ta_dtype a = ''BF16'' \<longrightarrow> ta_size_bytes a = 2 * prod_list (ta_shape a)))"

definition resolves_ok :: "remote_store \<Rightarrow> bool" where
  "resolves_ok r \<longleftrightarrow> (\<forall>pid desc. remote_resolve r pid = Inr desc \<longrightarrow>
     (\<forall>s \<in> set (pd_source_slices desc). 0 \<le> ss_byte_start s) \<and> 0 \<le> pd_expected_bytes desc \<and>
     pd_expected_bytes desc \<le> rl_stride (pd_output_layout desc))"

lemma set_od_set: "set (od_set d k v) \<subseteq> insert (k, v) (set d)"
  by (induction d k v rule: od_set.induct) auto

lemma od_append_values:
  assumes "\<forall>p \<in> set d. set (snd p) \<subseteq> A" "x \<in> A"
  shows "\<forall>p \<in> set (od_append d k x). set (snd p) \<subseteq> A"
proof -
  have "set (case od_get d k of Some xs \<Rightarrow> xs | None \<Rightarrow> []) \<subseteq> A"
  proof (cases "od_get d k")
    case (Some xs)
    then have "(k, xs) \<in> set d" by (simp add: od_get_def map_of_SomeD)
    from bspec [OF assms(1) this] show ?thesis using Some by simp
  qed simp
  then show ?thesis using assms set_od_set [of d k "(case od_get d k of Some xs \<Rightarrow> xs | None \<Rightarrow> []) @ [x]"]
    by (fastforce simp: od_append_def)
qed

lemma bank_values: "\<forall>p \<in> set (expert_bank_tensors ts). set (snd p) \<subseteq> snd ` set ts"
proof -
  let ?step = "\<lambda>(name, address) banks.
       if cr_component (classify_tensor (ta_name address) None) \<noteq> EXPERTS_ROUTED then banks
       else case layer_index (ta_name address) of None \<Rightarrow> banks | Some layer \<Rightarrow> od_append banks layer address"
  have "\<forall>p \<in> set (fold ?step us d). set (snd p) \<subseteq> A"
    if "\<forall>p \<in> set d. set (snd p) \<subseteq> A" "snd ` set us \<subseteq> A" for us d A
    using that
  proof (induction us arbitrary: d)
    case (Cons u us)
    have u: "snd u \<in> A" "snd ` set us \<subseteq> A" using Cons.prems(2) by auto
    have "\<forall>p \<in> set (?step u d). set (snd p) \<subseteq> A"
      using Cons.prems(1) od_append_values [OF Cons.prems(1) u(1)] by (cases u) (simp split: option.split)
    from Cons.IH [OF this u(2)] show ?case by simp
  qed simp
  from this [of "[]" "snd ` set ts" ts] show ?thesis unfolding expert_bank_tensors_def by simp
qed

lemma slice_layer_values:
  assumes "slice_layer addresses layer n es = Inr out" "x \<in> set out" "s \<in> set (es_projections x)"
  shows "\<exists>a \<in> set addresses. s = whole_slice a \<or> (\<exists>e. slice_expert_from_bank a e n = Inr s)"
proof -
  define fused where "fused = filter (\<lambda>a. name_expert_index (ta_name a) = None) addresses"
  define per where "per = fold (\<lambda>a d. case name_expert_index (ta_name a) of None \<Rightarrow> d | Some e \<Rightarrow> od_append d e a) addresses []"
  have per: "\<forall>p \<in> set (fold (\<lambda>a d. case name_expert_index (ta_name a) of None \<Rightarrow> d | Some e \<Rightarrow> od_append d e a) us d). set (snd p) \<subseteq> A"
    if "\<forall>p \<in> set d. set (snd p) \<subseteq> A" "set us \<subseteq> A" for us d A
    using that
  proof (induction us arbitrary: d)
    case (Cons u us)
    let ?d = "case name_expert_index (ta_name u) of None \<Rightarrow> d | Some e \<Rightarrow> od_append d e u"
    have "\<forall>p \<in> set ?d. set (snd p) \<subseteq> A"
      using Cons.prems(1) od_append_values [OF Cons.prems(1), of u] Cons.prems(2) by (simp split: option.split)
    from Cons.IH [OF this] show ?case using Cons.prems(2) by simp
  qed simp
  have po: "\<forall>p \<in> set per. set (snd p) \<subseteq> set addresses" unfolding per_def by (rule per) simp_all
  obtain e slices where x: "(if fused \<noteq> [] then mapE (\<lambda>a. slice_expert_from_bank a e n) fused
      else case od_get per e of None \<Rightarrow> Inl SliceError | Some owned \<Rightarrow> if owned = [] then Inl SliceError else Inr (map whole_slice owned)) = Inr slices"
    "es_projections x = sort_projections slices"
    using assms(1) mapE_mem [OF _ assms(2)] unfolding slice_layer_def Let_def fused_def [symmetric] per_def [symmetric]
    by (fastforce simp: bindE_Inr_iff split: if_splits)
  have s: "s \<in> set slices" using assms(3) x(2) by (simp add: sort_projections_def)
  show ?thesis
  proof (cases "fused = []")
    case False
    then obtain a where "a \<in> set fused" "slice_expert_from_bank a e n = Inr s" using x(1) mapE_mem s by force
    then show ?thesis by (auto simp: fused_def)
  next
    case True
    then obtain owned where o: "od_get per e = Some owned" "slices = map whole_slice owned" using x(1) by (auto split: option.splits if_splits)
    then have "set owned \<subseteq> set addresses" using po by (force simp: od_get_def dest: map_of_SomeD)
    then show ?thesis using o(2) s by auto
  qed
qed

lemma build_slices_values:
  assumes "build_expert_slices ts n layers es = Inr out" "x \<in> set out" "s \<in> set (es_projections x)"
  shows "\<exists>a \<in> snd ` set ts. s = whole_slice a \<or> (\<exists>e. slice_expert_from_bank a e n = Inr s)"
proof -
  let ?f = "\<lambda>layer. bindE (od_index (expert_bank_tensors ts) layer) (\<lambda>addresses.
    slice_layer addresses layer n (case es of None \<Rightarrow> [0 .. n - 1] | Some es \<Rightarrow> es))"
  obtain ls outs where o: "mapE ?f ls = Inr outs" "out = concat outs"
    using assms(1) by (auto simp: build_expert_slices_def Let_def bindE_Inr_iff)
  then obtain o1 where o1: "o1 \<in> set outs" "x \<in> set o1" using assms(2) by auto
  then obtain l where "?f l = Inr o1" using mapE_mem [OF o(1) o1(1)] by (elim bexE) (rule that)
  then obtain addresses where l: "od_index (expert_bank_tensors ts) l = Inr addresses"
    "slice_layer addresses l n (case es of None \<Rightarrow> [0 .. n - 1] | Some es \<Rightarrow> es) = Inr o1"
    by (rule bindE_InrE) (rule that)
  then have "set addresses \<subseteq> snd ` set ts"
    using bank_values [of ts] by (force simp: od_index_def od_get_def dest: map_of_SomeD split: option.splits)
  then show ?thesis using slice_layer_values [OF l(2) o1(2) assms(3)] by blast
qed

lemma bank_slice_start:
  assumes "slice_expert_from_bank a e n = Inr s" "0 \<le> ta_byte_start a" "0 \<le> ta_size_bytes a"
  shows "0 \<le> ss_byte_start s \<and> ss_byte_start s \<le> ss_byte_end s"
proof -
  obtain b where b: "b * n = ta_size_bytes a" "0 \<le> e" "e < n" "ss_byte_start s = ta_byte_start a + e * b" "ss_byte_end s = ss_byte_start s + b"
    using assms(1) by (auto simp: slice_expert_from_bank_def Let_def bindE_Inr_iff split: if_splits)
  have "0 \<le> b" using b(1-3) assms(3) by (smt (verit) mult_neg_pos)
  then show ?thesis using b(2,4,5) assms(2) by simp
qed

lemma build_payload: "record_build specs a sb zb = Inr lay \<Longrightarrow> rl_stride lay = align_up (rl_payload_bytes lay) a"
  by (auto simp: record_build_def bindE_Inr_iff)

lemma raw_payload:
  assumes "record_build [raw_spec name shape] a 2 2 = Inr lay"
  shows "rl_payload_bytes lay = 2 * prod_list shape"
proof -
  have "fst (matrix_dims shape) * snd (matrix_dims shape) = prod_list shape"
    by (cases shape rule: rev_cases) (auto simp: matrix_dims_def)
  then show ?thesis using assms
    by (cases "matrix_dims shape") (auto simp: record_build_def raw_spec_def section_spans_def Let_def spans_length_def)
qed

lemma addresses_resolve:
  assumes ok: "addresses_ok r"
  shows "resolves_ok r"
  unfolding resolves_ok_def
proof (intro allI impI)
  fix pid desc assume "remote_resolve r pid = Inr desc"
  then consider "resolve_tensor r pid = Inr desc" | "resolve_expert r pid = Inr desc" by (auto simp: remote_resolve_def split: if_splits)
  then show "(\<forall>s \<in> set (pd_source_slices desc). 0 \<le> ss_byte_start s) \<and> 0 \<le> pd_expected_bytes desc \<and>
     pd_expected_bytes desc \<le> rl_stride (pd_output_layout desc)"
  proof cases
    case 1
    then obtain name a lay where a: "od_get (rm_tensors r) name = Some a" "ta_dtype a = ''BF16''"
      "record_build [raw_spec ''tensor'' (ta_shape a)] PAGE_BYTES 2 2 = Inr lay"
      "pd_output_layout desc = lay" "pd_expected_bytes desc = ta_size_bytes a" "map ss_byte_start (pd_source_slices desc) = [ta_byte_start a]"
      unfolding resolve_tensor_def by (elim bindE_InrE) (auto split: if_splits option.splits)
    then have "a \<in> snd ` set (rm_tensors r)" by (force simp: od_get_def dest: map_of_SomeD)
    then have "0 \<le> ta_byte_start a" "0 \<le> ta_size_bytes a" "ta_size_bytes a = 2 * prod_list (ta_shape a)"
      using ok a(2) by (auto simp: addresses_ok_def)
    then show ?thesis using a raw_payload [OF a(3)] build_payload [OF a(3)] align_up_ge [of "rl_payload_bytes lay" PAGE_BYTES] by auto
  next
    case 2
    then obtain n layer expert resolved where b:
      "build_expert_slices (rm_tensors r) n (Some [layer]) (Some [expert]) = Inr resolved" "length resolved = 1"
      "expert_descriptor pid layer expert (es_projections (hd resolved)) = Inr desc"
      unfolding resolve_expert_def by (elim bindE_InrE) (auto split: if_splits option.splits prod.splits)
    obtain lay where e: "pd_source_slices desc = es_projections (hd resolved)"
      "record_build (map (\<lambda>s. raw_spec (ss_projection s) (ss_shape s)) (es_projections (hd resolved))) PAGE_BYTES 2 2 = Inr lay"
      "rl_payload_bytes lay = pd_expected_bytes desc" "pd_output_layout desc = lay"
      "pd_expected_bytes desc = sum_list (map ss_size_bytes (es_projections (hd resolved)))"
      using b(3) unfolding expert_descriptor_def Let_def by (auto simp: bindE_Inr_iff split: if_splits)
    have s: "0 \<le> ss_byte_start s \<and> 0 \<le> ss_size_bytes s" if "s \<in> set (pd_source_slices desc)" for s
    proof -
      have h: "hd resolved \<in> set resolved" using b(2) by (cases resolved) auto
      have "s \<in> set (es_projections (hd resolved))" using that e(1) by simp
      from build_slices_values [OF b(1) h this] obtain a where a: "a \<in> snd ` set (rm_tensors r)"
        "s = whole_slice a \<or> (\<exists>e. slice_expert_from_bank a e n = Inr s)" by (elim bexE) (rule that)
      then have "0 \<le> ta_byte_start a" "0 \<le> ta_size_bytes a" "ta_byte_end a = ta_byte_start a + ta_size_bytes a"
        using ok by (auto simp: addresses_ok_def)
      then show ?thesis using a(2) bank_slice_start [of a _ n s] unfolding ss_size_bytes_def
        by (elim disjE exE) (simp_all add: whole_slice_def)
    qed
    then have "0 \<le> sum_list (map ss_size_bytes (pd_source_slices desc))" by (intro sum_list_nonneg) auto
    then show ?thesis using s e(1,3-5) build_payload [OF e(2)] align_up_ge [of "rl_payload_bytes lay" PAGE_BYTES] by simp
  qed
qed

definition honest_env :: "(string \<Rightarrow> bytes) \<Rightarrow> source_slice \<Rightarrow> bytes fetch_env \<Rightarrow> bool" where
  "honest_env files s env \<longleftrightarrow> truthful env (files (ss_shard s)) \<and> sink_ok (fe_write env)"

lemma fetch_inv:
  assumes i: "store_inv d r files s" and inj: "inj (dg_key d)" and ok: "resolves_ok r" and desc: "remote_resolve r pid = Inr desc"
    and j: "j < length (pd_source_slices desc)" and env: "honest_env files (pd_source_slices desc ! j) env"
    and e: "fetch_fragment d r desc env j s = (s', n, res)"
  shows "store_inv d r files s'"
proof -
  note id = resolve_page_id [OF desc]
  let ?k = "dg_key d pid"
  let ?p = "st_partial s ?k" and ?sl = "pd_source_slices desc ! j"
  obtain f rr where f: "fetch_slice_to_file r env ?sl (pt_fragments ?p j) = (f, rr)"
    by (cases "fetch_slice_to_file r env ?sl (pt_fragments ?p j)")
  have start: "0 \<le> ss_byte_start ?sl" using ok desc j unfolding resolves_ok_def by (meson nth_mem)
  have old: "prefix g (slice_bytes files ?sl)" if "pt_fragments ?p j = Some g" for g using fragment_prefix [OF i desc j that] .
  have new: "prefix b (slice_bytes files ?sl)" if "f = Some b" for b
    by (rule fetch_slice_prefix [OF f old _ _ start that]) (use env in \<open>simp_all add: honest_env_def\<close>)
  let ?new = "\<lambda>b. \<lparr>fr_tensor = ss_tensor ?sl, fr_size_bytes = int (length b), fr_sha256 = dg_sha d b\<rparr>"
  define p' where "p' = (let q = ?p\<lparr>pt_fragments := (pt_fragments ?p)(j := f)\<rparr> in
    case f of Some b \<Rightarrow> if b \<noteq> [] then q\<lparr>pt_journal := Some (od_set (case pt_journal ?p of Some jn \<Rightarrow> jn | None \<Rightarrow> []) j (?new b))\<rparr> else q
    | None \<Rightarrow> q)"
  have fr: "pt_fragments p' = (pt_fragments ?p)(j := f)" by (simp add: p'_def Let_def split: option.split)
  have s': "s' = set_partial ?k p' s"
    using e f by (cases f) (auto simp: fetch_fragment_def id Let_def record_fragment_def set_partial_def p'_def)
  show ?thesis
    unfolding s'
  proof (rule set_partial_inv [OF i inj desc])
    fix i' g assume "i' < length (pd_source_slices desc)" "pt_fragments p' i' = Some g"
    then show "prefix g (slice_bytes files (pd_source_slices desc ! i'))"
      using fragment_prefix [OF i desc] new by (simp add: fr split: if_splits)
  qed
qed

lemma read_fragments_full:
  assumes "read_fragments slices frs = Inr body" "length frs = length slices"
    "\<And>i f. i < length slices \<Longrightarrow> frs ! i = Some f \<Longrightarrow> prefix f (slice_bytes files (slices ! i))"
  shows "body = concat (map (slice_bytes files) slices)"
  using assms
proof (induction slices frs arbitrary: body rule: read_fragments.induct)
  case (1 s slices f frs)
  then obtain b rest where b: "f = Some b" "int (length b) = ss_size_bytes s" "read_fragments slices frs = Inr rest" "body = b @ rest"
    by (auto split: option.splits if_splits)
  have "b = slice_bytes files s" using full_fragment b(2) "1.prems"(3) [of 0 b] b(1) by simp
  moreover have "rest = concat (map (slice_bytes files) slices)"
  proof (rule "1.IH" [OF b(1) _ b(3)])
    show "\<not> int (length b) \<noteq> ss_size_bytes s" using b(2) by simp
    show "length frs = length slices" using "1.prems"(2) by simp
    show "prefix g (slice_bytes files (slices ! i))" if "i < length slices" "frs ! i = Some g" for i g
      using "1.prems"(3) [of "Suc i" g] that by simp
  qed
  ultimately show ?case using b(4) by simp
qed auto

lemma leased_partial:
  "st_pages (set_partial k p (acquire_lease k s)) = st_pages s" "od_get (st_leases (set_partial k p (acquire_lease k s))) k \<noteq> None"
  by (simp_all add: set_partial_def acquire_lease_def od_get_set)

lemma finish_commit_inv:
  assumes i: "store_inv d r files s" and inj: "inj (dg_key d)" and desc: "remote_resolve r pid = Inr desc"
    and page: "page = page_bytes files desc" "int (length page) = rl_stride (pd_output_layout desc)"
    and room: "occupancy_bytes s + reserved_elsewhere (dg_key d pid) s + rl_stride (pd_output_layout desc) \<le> st_max_cache_bytes s"
    and e: "finish_commit d desc page now s = (s', h)"
  shows "store_inv d r files s' \<and> st_pages s' (dg_key d pid) = Some page \<and> od_get (st_leases s') (dg_key d pid) \<noteq> None \<and>
    ph_page_id h = pid \<and> ph_checksum h = dg_sha d page"
proof -
  let ?k = "dg_key d pid"
  note i' = store_invD [OF i] and id = resolve_page_id [OF desc]
  let ?m = "\<lparr>mf_descriptor = desc, mf_sha256 = dg_sha d page, mf_size_bytes = int (length page)\<rparr>"
  let ?row = "\<lparr>rw_size_bytes = int (length page), rw_checksum = dg_sha d page, rw_last_access = now\<rparr>"
  let ?s2 = "replace_row ?k ?row (install_page ?k page ?m s)"
  let ?s3 = "?s2\<lparr>st_reservations := od_remove ?k (st_reservations ?s2)\<rparr>"
  have f: "st_pages ?s3 = (st_pages s)(?k := Some page)" "st_manifests ?s3 = (st_manifests s)(?k := Some (Some ?m))"
    "st_rows ?s3 = od_remove ?k (st_rows s) @ [(?k, ?row)]" "st_leases ?s3 = st_leases s" "st_partial ?s3 = st_partial s"
    "st_reservations ?s3 = od_remove ?k (st_reservations s)" "st_max_cache_bytes ?s3 = st_max_cache_bytes s"
    by (simp_all add: replace_row_def install_page_def)
  have g: "od_get (od_remove ?k (st_rows s) @ [(?k, ?row)]) j = (if j = ?k then Some ?row else od_get (st_rows s) j)" for j
    by (auto simp: od_get_append od_get_remove od_get_def [of "[(?k, ?row)]"] split: option.splits)
  have h3: "page_held d r files ?s3 j" for j
  proof (cases "j = ?k")
    case True
    then show ?thesis using desc id page(1) unfolding page_held_def f g by simp
  next
    case False
    then show ?thesis using i'(6) [of j] unfolding page_held_def f g by simp
  qed
  have "od_sum rw_size_bytes (od_remove ?k (st_rows s)) \<le> occupancy_bytes s"
    using od_sum_remove [OF i'(1), of rw_size_bytes ?k] row_size_nonneg [OF i, of ?k] by (simp add: occupancy_sum split: option.splits)
  then have "occupancy_bytes ?s3 + reserved ?s3 \<le> st_max_cache_bytes ?s3"
    using room page(2) unfolding occupancy_sum reserved_def reserved_elsewhere_sum f by simp
  moreover have "od_ok (st_rows ?s3)" "od_ok (st_reservations ?s3)" using i'(1,3) unfolding f by simp_all
  moreover have "\<forall>j n. od_get (st_reservations ?s3) j = Some n \<longrightarrow> 0 \<le> n" using i'(5) unfolding f by (simp add: od_get_remove)
  moreover have "\<forall>j n. od_get (st_leases ?s3) j = Some n \<longrightarrow> 0 < n" "od_ok (st_leases ?s3)" using i'(2,4) unfolding f by blast+
  moreover have "fragments_ok d r files ?s3" using i'(7) fragments_ok_cong [OF f(5)] by blast
  ultimately have i3: "store_inv d r files ?s3" using h3 unfolding store_inv_def by blast
  have "store_inv d r files (acquire_lease ?k ?s3)" by (rule lease_inv [OF i3]) (simp add: f)
  then have "store_inv d r files (set_partial ?k no_partial (acquire_lease ?k ?s3))"
    by (rule set_partial_inv [OF _ inj desc]) (simp add: no_partial_def)
  moreover have "s' = set_partial ?k no_partial (acquire_lease ?k ?s3)" "ph_page_id h = pid" "ph_checksum h = dg_sha d page"
    using e id by (auto simp: finish_commit_def Let_def)
  ultimately show ?thesis using leased_partial [of ?k no_partial ?s3] by (simp only: f) simp
qed

lemma commit_inv:
  assumes i: "store_inv d r files s" and inj: "inj (dg_key d)" and ok: "resolves_ok r" and desc: "remote_resolve r pid = Inr desc"
  shows "\<exists>s' res. store_commit d desc now s = Some (s', res) \<and> store_inv d r files s' \<and>
    (\<forall>h. res = Inr h \<longrightarrow> st_pages s' (dg_key d pid) = Some (page_bytes files desc) \<and> od_get (st_leases s') (dg_key d pid) \<noteq> None \<and>
       ph_page_id h = pid \<and> ph_checksum h = dg_sha d (page_bytes files desc))"
proof -
  let ?k = "dg_key d pid" and ?n = "rl_stride (pd_output_layout desc)" and ?sl = "pd_source_slices desc"
  note id = resolve_page_id [OF desc]
  have pad: "0 \<le> ?n - pd_expected_bytes desc" using ok desc by (simp add: resolves_ok_def)
  obtain s1 r1 where c: "ensure_capacity ?n ?k s = (s1, r1)" by (cases "ensure_capacity ?n ?k s")
  have c': "store_inv d r files s1" "r1 = Inr () \<longrightarrow> occupancy_bytes s1 + reserved_elsewhere ?k s1 + ?n \<le> st_max_cache_bytes s1"
    using ensure_capacity_inv [OF i c] by blast+
  let ?frs = "map (pt_fragments (st_partial s1 ?k)) [0 ..< length ?sl]"
  show ?thesis
  proof (cases r1)
    case (Inl err)
    then show ?thesis using c c'(1) by (simp add: store_commit_def id Let_def)
  next
    case r1: (Inr u)
    show ?thesis
    proof (cases "read_fragments ?sl ?frs")
      case (Inl err)
      then show ?thesis using c c'(1) r1 by (simp add: store_commit_def id Let_def)
    next
      case body: (Inr body)
      have "body = concat (map (slice_bytes files) ?sl)"
        by (rule read_fragments_full [OF body]) (use fragment_prefix [OF c'(1) desc] in simp_all)
      then have page: "page_padding (?n - pd_expected_bytes desc) body = Some (page_bytes files desc)"
        using pad by (simp add: page_padding_iff page_bytes_def)
      show ?thesis
      proof (cases "int (length (page_bytes files desc)) = ?n")
        case False
        then show ?thesis using c c'(1) r1 body page by (simp add: store_commit_def id Let_def)
      next
        case True
        obtain s2 h where f: "finish_commit d desc (page_bytes files desc) now s1 = (s2, h)" by (cases "finish_commit d desc (page_bytes files desc) now s1")
        have "store_commit d desc now s = Some (s2, Inr h)" using c r1 body page True f by (simp add: store_commit_def id Let_def)
        then show ?thesis using finish_commit_inv [OF c'(1) inj desc refl True _ f] c'(2) r1 by auto
      qed
    qed
  qed
qed

section \<open>Histories\<close>

text \<open>One operation of some thread under the lock of the store; a page that does not resolve is skipped.\<close>

datatype page_op = LookupPage weight_page_id bool int | ReservePage weight_page_id | CancelPage weight_page_id
  | PreparePage weight_page_id | FetchPage weight_page_id nat "bytes fetch_env" | CommitPage weight_page_id int | ReleasePage page_handle

definition page_step :: "digests \<Rightarrow> remote_store \<Rightarrow> page_op \<Rightarrow> page_store \<Rightarrow> page_store option" where
  "page_step d r op s =
     (let on = (\<lambda>pid f. case remote_resolve r pid of Inl _ \<Rightarrow> Some s | Inr desc \<Rightarrow> f desc) in
      case op of
        LookupPage pid acquire now \<Rightarrow> Some (fst (store_lookup d pid acquire now s))
      | ReservePage pid \<Rightarrow> on pid (\<lambda>desc. Some (fst (store_reserve d pid (rl_stride (pd_output_layout desc)) s)))
      | CancelPage pid \<Rightarrow> Some (cancel_reservation d pid s)
      | PreparePage pid \<Rightarrow> on pid (\<lambda>desc. Some (fst (prepare_fragments d desc s)))
      | FetchPage pid i env \<Rightarrow> on pid (\<lambda>desc. Some (fst (fetch_fragment d r desc env i s)))
      | CommitPage pid now \<Rightarrow> on pid (\<lambda>desc. map_option fst (store_commit d desc now s))
      | ReleasePage h \<Rightarrow> Some (store_release d h s))"

fun page_run :: "digests \<Rightarrow> remote_store \<Rightarrow> page_op list \<Rightarrow> page_store \<Rightarrow> page_store option" where
  "page_run d r [] s = Some s"
| "page_run d r (op # ops) s = (case page_step d r op s of None \<Rightarrow> None | Some s' \<Rightarrow> page_run d r ops s')"

definition honest_op :: "(string \<Rightarrow> bytes) \<Rightarrow> remote_store \<Rightarrow> page_op \<Rightarrow> bool" where
  "honest_op files r op \<longleftrightarrow> (\<forall>pid i env desc. op = FetchPage pid i env \<longrightarrow> remote_resolve r pid = Inr desc \<longrightarrow>
     i < length (pd_source_slices desc) \<and> honest_env files (pd_source_slices desc ! i) env)"

lemma page_step_inv:
  assumes i: "store_inv d r files s" and inj: "inj (dg_key d)" and ok: "resolves_ok r" and op: "honest_op files r op"
  shows "\<exists>s'. page_step d r op s = Some s' \<and> store_inv d r files s'"
proof (cases op)
  case (LookupPage pid acquire now)
  then show ?thesis using lookup_inv [OF i inj, of pid acquire now] by (cases "store_lookup d pid acquire now s") (auto simp: page_step_def)
next
  case (ReservePage pid)
  show ?thesis
  proof (cases "remote_resolve r pid")
    case (Inr desc)
    then have "0 \<le> rl_stride (pd_output_layout desc)" using ok unfolding resolves_ok_def by fastforce
    then show ?thesis using Inr ReservePage reserve_inv [OF i]
      by (cases "store_reserve d pid (rl_stride (pd_output_layout desc)) s") (auto simp: page_step_def)
  qed (use ReservePage i in \<open>simp add: page_step_def\<close>)
next
  case (CancelPage pid)
  then show ?thesis using cancel_inv [OF i] by (simp add: page_step_def)
next
  case (PreparePage pid)
  show ?thesis
  proof (cases "remote_resolve r pid")
    case (Inr desc)
    then show ?thesis using PreparePage prepare_inv [OF i inj Inr] by (cases "prepare_fragments d desc s") (auto simp: page_step_def)
  qed (use PreparePage i in \<open>simp add: page_step_def\<close>)
next
  case (FetchPage pid j env)
  show ?thesis
  proof (cases "remote_resolve r pid")
    case (Inr desc)
    then have "j < length (pd_source_slices desc)" "honest_env files (pd_source_slices desc ! j) env" using op FetchPage by (auto simp: honest_op_def)
    then show ?thesis using FetchPage Inr fetch_inv [OF i inj ok Inr] by (cases "fetch_fragment d r desc env j s") (auto simp: page_step_def)
  qed (use FetchPage i in \<open>simp add: page_step_def\<close>)
next
  case (CommitPage pid now)
  show ?thesis
  proof (cases "remote_resolve r pid")
    case (Inr desc)
    then show ?thesis using CommitPage commit_inv [OF i inj ok Inr, of now] by (auto simp: page_step_def)
  qed (use CommitPage i in \<open>simp add: page_step_def\<close>)
next
  case (ReleasePage h)
  then show ?thesis using release_inv [OF i] by (simp add: page_step_def)
qed

lemma page_run_inv:
  assumes "inj (dg_key d)" "resolves_ok r"
  shows "store_inv d r files s \<Longrightarrow> \<forall>op \<in> set ops. honest_op files r op \<Longrightarrow> \<exists>s'. page_run d r ops s = Some s' \<and> store_inv d r files s'"
proof (induction ops arbitrary: s)
  case (Cons op ops)
  obtain s1 where "page_step d r op s = Some s1" "store_inv d r files s1" using page_step_inv [OF Cons.prems(1) assms] Cons.prems(2) by auto
  then show ?case using Cons.IH [of s1] Cons.prems(2) by auto
qed simp

lemma open_inv: "store_open n = Inr s \<Longrightarrow> store_inv d r files s \<and> st_max_cache_bytes s = n"
  by (auto simp: store_open_def store_inv_def page_held_def fragments_ok_def no_partial_def occupancy_bytes_def reserved_def od_get_def
      split: if_splits)

lemma make_room_budget: "make_room n k s = (s', res) \<Longrightarrow> st_max_cache_bytes s' = st_max_cache_bytes s"
proof (induction n k s rule: make_room.induct)
  case (1 n k s)
  then show ?case by (auto simp: make_room.simps [of n k s] evict_page_def unlink_page_def split: if_splits option.splits)
qed

lemma ensure_capacity_budget: "ensure_capacity n k s = (s', res) \<Longrightarrow> st_max_cache_bytes s' = st_max_cache_bytes s"
  using make_room_budget by (auto simp: ensure_capacity_def split: if_splits)

lemma finish_commit_budget: "st_max_cache_bytes (fst (finish_commit d desc page now s)) = st_max_cache_bytes s"
  by (simp add: finish_commit_def Let_def set_partial_def acquire_lease_def replace_row_def install_page_def)

lemma commit_budget: "store_commit d desc now s = Some (s', res) \<Longrightarrow> st_max_cache_bytes s' = st_max_cache_bytes s"
  using finish_commit_budget [of d desc]
  by (auto simp: store_commit_def Let_def dest: ensure_capacity_budget split: prod.splits sum.splits option.splits if_splits)
    (metis fst_conv ensure_capacity_budget)+

lemma page_step_budget:
  assumes "page_step d r op s = Some s'"
  shows "st_max_cache_bytes s' = st_max_cache_bytes s"
proof -
  have l: "st_max_cache_bytes (fst (store_lookup d pid a now s)) = st_max_cache_bytes s" for pid a now
    by (simp add: store_lookup_def Let_def unlink_page_def replace_row_def acquire_lease_def split: option.split)
  have rs: "st_max_cache_bytes (fst (store_reserve d pid n s)) = st_max_cache_bytes s" for pid n
    by (auto simp: store_reserve_def Let_def dest: ensure_capacity_budget split: prod.split sum.split)
  have pr: "st_max_cache_bytes (fst (prepare_fragments d desc s)) = st_max_cache_bytes s" for desc
    by (simp add: prepare_fragments_def Let_def set_partial_def split: prod.split)
  have fe: "st_max_cache_bytes (fst (fetch_fragment d r desc env i s)) = st_max_cache_bytes s" for desc env i
    by (simp add: fetch_fragment_def Let_def set_partial_def record_fragment_def split: prod.split option.split)
  show ?thesis
  proof (cases op)
    case (CommitPage pid now)
    then show ?thesis using assms commit_budget by (auto simp: page_step_def split: sum.splits)
  qed (use assms l rs pr fe in \<open>auto simp: page_step_def cancel_reservation_def store_release_def Let_def split: sum.splits\<close>)
qed

lemma page_run_budget: "page_run d r ops s = Some s' \<Longrightarrow> st_max_cache_bytes s' = st_max_cache_bytes s"
proof (induction ops arbitrary: s)
  case (Cons op ops)
  obtain s1 where s1: "page_step d r op s = Some s1" "page_run d r ops s1 = Some s'" using Cons.prems by (auto split: option.splits)
  then show ?case using Cons.IH [OF s1(2)] page_step_budget [OF s1(1)] by simp
qed simp

end
