(* ===== verification/PageClaims.thy ===== *)
theory PageClaims
  imports PageLaws
begin

text \<open>
  The properties of the page cache: safety of every history of its operations, exactness and
  progress of \<open>materialize\<close>, what \<open>prepare_fragments\<close> trusts after a crash, and the two states the
  code does not handle, a page whose database row was lost and a padding below zero.
\<close>

section \<open>A checkpoint of one tensor\<close>

text \<open>Digests whose keys are injective: the fields of a page, quoted, between slashes.\<close>

definition demo_key :: "weight_page_id \<Rightarrow> string" where
  "demo_key p = quote (mr_repo_id (wp_model_revision p)) @ CHR ''/'' # quote (mr_commit_sha (wp_model_revision p)) @ CHR ''/'' #
     quote (wp_page_kind p) @ CHR ''/'' # quote (wp_logical_key p) @ CHR ''/'' # quote (wp_codec p)"

lemma quote_no_slash: "CHR ''/'' \<notin> set (quote s)"
proof -
  have h: "\<forall>n \<in> set [0 ..< 16]. hex_upper n \<noteq> CHR ''/''" by code_simp
  have "CHR ''/'' \<notin> set (quote_char c)" for c
  proof (cases "quote_safe c")
    case True
    then have "c \<noteq> CHR ''/''" by (auto simp: quote_safe_def is_alpha_def is_digit_def)
    then show ?thesis using True by (simp add: quote_char_def)
  next
    case False
    have "(of_char c :: nat) < 256" by (metis of_char_of nat_of_char_less_256)
    then have "(of_char c :: nat) div 16 < 16" by (intro less_mult_imp_div_less) simp
    then have "hex_upper (of_char c div 16) \<noteq> CHR ''/''" "hex_upper (of_char c mod 16) \<noteq> CHR ''/''" using h by simp_all
    then show ?thesis using False by (auto simp: quote_char_def)
  qed
  then show ?thesis by (auto simp: quote_def)
qed

lemma demo_key_inj: "inj demo_key"
proof (rule injI)
  fix x y :: weight_page_id
  assume e: "demo_key x = demo_key y"
  have p: "map unquote (str_split (CHR ''/'') (demo_key p)) =
      [mr_repo_id (wp_model_revision p), mr_commit_sha (wp_model_revision p), wp_page_kind p, wp_logical_key p, wp_codec p]" for p
    by (simp add: demo_key_def split_append [OF quote_no_slash] split_none [OF quote_no_slash] unquote_quote)
  from arg_cong [OF e, of "\<lambda>k. map unquote (str_split (CHR ''/'') k)", unfolded p]
  show "x = y" by (cases x; cases "wp_model_revision x"; cases y; cases "wp_model_revision y") simp
qed

definition demo_digests :: digests where
  "demo_digests = \<lparr>dg_key = demo_key, dg_sha = (\<lambda>b. nat_digits (length b))\<rparr>"

definition demo_shard :: bytes where
  "demo_shard = [0, 1, 2, 3, 4, 5, 6, 7, 8, 9, 10, 11]"

definition demo_revision :: model_revision where
  "demo_revision = \<lparr>mr_repo_id = ''r'', mr_commit_sha = ''c''\<rparr>"

definition demo_remote :: remote_store where
  "demo_remote = \<lparr>rm_model_revision = demo_revision,
     rm_tensors = [(''w'', \<lparr>ta_name = ''w'', ta_shard = ''m'', ta_dtype = ''BF16'', ta_shape = [2], ta_byte_start = 6, ta_byte_end = 10,
       ta_num_params = 2, ta_size_bytes = 4\<rparr>)],
     rm_is_moe = False, rm_num_experts = None, rm_num_hidden_layers = 1, rm_max_workers = 1, rm_chunk_size = 3\<rparr>"

definition demo_page :: weight_page_id where
  "demo_page = \<lparr>wp_model_revision = demo_revision, wp_page_kind = ''tensor'', wp_logical_key = ''tensors/w'', wp_codec = RAW_BF16_CODEC\<rparr>"

text \<open>A server that breaks the first connection after one byte and the second at once.\<close>

definition demo_env :: "bytes fetch_env" where
  "demo_env = append_env (flaky_serve demo_shard [1, 0]) (\<lambda>_. False)"

lemma demo_inj: "inj (dg_key demo_digests)"
  using demo_key_inj by (simp add: demo_digests_def)

lemma demo_addresses: "addresses_ok demo_remote"
  by (simp add: addresses_ok_def demo_remote_def)

lemma demo_honest: "honest_env (\<lambda>_. demo_shard) s demo_env"
  using flaky_truthful [of demo_shard "[1, 0]" "\<lambda>_. False"] append_sink_ok [of "flaky_serve demo_shard [1, 0]" "\<lambda>_. False"]
  by (simp add: honest_env_def demo_env_def)

lemma resolve_nonempty: "remote_resolve r pid = Inr desc \<Longrightarrow> pd_source_slices desc \<noteq> []"
proof -
  assume r: "remote_resolve r pid = Inr desc"
  consider "resolve_tensor r pid = Inr desc" | layer expert sl where "expert_descriptor pid layer expert sl = Inr desc"
    using r unfolding remote_resolve_def resolve_expert_def by (auto simp: bindE_Inr_iff split: if_splits option.splits prod.splits)
  then show ?thesis
  proof cases
    case 1
    then have "\<exists>s. pd_source_slices desc = [s]" unfolding resolve_tensor_def by (elim bindE_InrE) (auto split: if_splits option.splits)
    then show ?thesis by auto
  next
    case 2
    then show ?thesis by (auto simp: expert_descriptor_def bindE_Inr_iff Let_def split: if_splits)
  qed
qed

section \<open>Safety of every history\<close>



section \<open>Faulting a page in\<close>

definition honest_envs :: "(string \<Rightarrow> bytes) \<Rightarrow> remote_store \<Rightarrow> weight_page_id \<Rightarrow> (nat \<Rightarrow> bytes fetch_env) \<Rightarrow> nat list \<Rightarrow> bool" where
  "honest_envs files r pid envs order \<longleftrightarrow> (\<forall>desc i. remote_resolve r pid = Inr desc \<longrightarrow> i \<in> set order \<longrightarrow>
     i < length (pd_source_slices desc) \<and> honest_env files (pd_source_slices desc ! i) (envs i))"

lemma fetch_fragments_inv:
  assumes inj: "inj (dg_key d)" and ok: "resolves_ok r" and desc: "remote_resolve r pid = Inr desc"
  shows "store_inv d r files s \<Longrightarrow> honest_envs files r pid envs order \<Longrightarrow>
    fetch_fragments d r desc envs order s = (s', n, res) \<Longrightarrow> store_inv d r files s'"
proof (induction order arbitrary: s s' n res)
  case (Cons i order)
  obtain s1 n1 r1 where a: "fetch_fragment d r desc (envs i) i s = (s1, n1, r1)" by (cases "fetch_fragment d r desc (envs i) i s")
  obtain s2 n2 r2 where b: "fetch_fragments d r desc envs order s1 = (s2, n2, r2)" by (cases "fetch_fragments d r desc envs order s1")
  have h: "i < length (pd_source_slices desc)" "honest_env files (pd_source_slices desc ! i) (envs i)"
    "honest_envs files r pid envs order"
    using Cons.prems(2) desc by (simp_all add: honest_envs_def)
  have "store_inv d r files s2" by (rule Cons.IH [OF fetch_inv [OF Cons.prems(1) inj ok desc h(1,2) a] h(3) b])
  then show ?case using Cons.prems(3) a b by simp
qed simp

definition page_served :: "digests \<Rightarrow> (string \<Rightarrow> bytes) \<Rightarrow> remote_store \<Rightarrow> weight_page_id \<Rightarrow> composite \<Rightarrow> page_handle \<Rightarrow> bool" where
  "page_served d files r pid c h \<longleftrightarrow> (\<exists>desc. remote_resolve r pid = Inr desc \<and>
     st_pages (cw_local c) (dg_key d pid) = Some (page_bytes files desc) \<and> od_get (st_leases (cw_local c)) (dg_key d pid) \<noteq> None \<and>
     ph_page_id h = pid \<and> ph_checksum h = dg_sha d (page_bytes files desc))"

lemma materialize_inv:
  assumes i: "store_inv d r files (cw_local c)" and r: "cw_remote c = r" and inj: "inj (dg_key d)" and ok: "resolves_ok r"
    and env: "honest_envs files r pid envs order"
  shows "\<exists>c' res. materialize d envs order now pid c = Some (c', res) \<and> store_inv d r files (cw_local c') \<and> cw_remote c' = r \<and>
    (\<forall>h. res = Inr h \<longrightarrow> page_served d files r pid c' h)"
proof -
  let ?k = "dg_key d pid"
  obtain s0 h0 where l: "store_lookup d pid True now (cw_local c) = (s0, h0)" by (cases "store_lookup d pid True now (cw_local c)")
  note l' = lookup_inv [OF i inj l]
  show ?thesis
  proof (cases h0)
    case (Some h)
    then show ?thesis using l l' r by (auto simp: materialize_def set_local_def page_served_def)
  next
    case h0: None
    show ?thesis
    proof (cases "remote_resolve r pid")
      case (Inl e)
      then show ?thesis using l l' h0 r by (simp add: materialize_def set_local_def Let_def)
    next
      case desc: (Inr desc)
      have n: "0 \<le> rl_stride (pd_output_layout desc)" using ok desc unfolding resolves_ok_def by fastforce
      obtain s1 r1 where s1: "store_reserve d pid (rl_stride (pd_output_layout desc)) s0 = (s1, r1)"
        by (cases "store_reserve d pid (rl_stride (pd_output_layout desc)) s0")
      have i1: "store_inv d r files s1" using reserve_inv [OF _ n s1] l' by blast
      show ?thesis
      proof (cases r1)
        case (Inl e)
        then show ?thesis using l h0 r desc s1 i1 by (simp add: materialize_def set_local_def Let_def)
      next
        case r1: (Inr u)
        obtain s2 m where s2: "prepare_fragments d desc s1 = (s2, m)" by (cases "prepare_fragments d desc s1")
        note i2 = prepare_inv [OF i1 inj desc s2]
        obtain s3 k r3 where s3: "fetch_fragments d r desc envs order s2 = (s3, k, r3)" by (cases "fetch_fragments d r desc envs order s2")
        note i3 = fetch_fragments_inv [OF inj ok desc i2 env s3]
        show ?thesis
        proof (cases r3)
          case (Inl e)
          then show ?thesis using l h0 r desc s1 r1 s2 s3 cancel_inv [OF i3] by (simp add: materialize_def set_local_def Let_def)
        next
          case r3: (Inr u3)
          obtain s4 r4 where s4: "store_commit d desc now s3 = Some (s4, r4)" "store_inv d r files s4"
            "\<forall>h. r4 = Inr h \<longrightarrow> st_pages s4 ?k = Some (page_bytes files desc) \<and> od_get (st_leases s4) ?k \<noteq> None \<and>
              ph_page_id h = pid \<and> ph_checksum h = dg_sha d (page_bytes files desc)"
            using commit_inv [OF i3 inj ok desc, of now] by blast
          show ?thesis
          proof (cases r4)
            case (Inl e)
            then show ?thesis using l h0 r desc s1 r1 s2 s3 r3 s4 cancel_inv [OF s4(2)] by (simp add: materialize_def set_local_def Let_def)
          next
            case (Inr h)
            then show ?thesis using l h0 r desc s1 r1 s2 s3 r3 s4 by (auto simp: materialize_def set_local_def Let_def page_served_def)
          qed
        qed
      qed
    qed
  qed
qed

text \<open>The calls of a client, with what each of them meets on the network.\<close>

datatype client_op = Materialize "nat \<Rightarrow> bytes fetch_env" "nat list" int weight_page_id | ReleaseHandle page_handle

fun client_step :: "digests \<Rightarrow> client_op \<Rightarrow> composite \<Rightarrow> composite option" where
  "client_step d (Materialize envs order now pid) c = map_option fst (materialize d envs order now pid c)"
| "client_step d (ReleaseHandle h) c = Some (composite_release d h c)"

fun client_run :: "digests \<Rightarrow> client_op list \<Rightarrow> composite \<Rightarrow> composite option" where
  "client_run d [] c = Some c"
| "client_run d (op # ops) c = (case client_step d op c of None \<Rightarrow> None | Some c' \<Rightarrow> client_run d ops c')"

definition honest_client :: "(string \<Rightarrow> bytes) \<Rightarrow> remote_store \<Rightarrow> client_op list \<Rightarrow> bool" where
  "honest_client files r ops \<longleftrightarrow> (\<forall>envs order now pid. Materialize envs order now pid \<in> set ops \<longrightarrow> honest_envs files r pid envs order)"

lemma client_run_inv:
  assumes inj: "inj (dg_key d)" and ok: "resolves_ok r"
  shows "store_inv d r files (cw_local c) \<Longrightarrow> cw_remote c = r \<Longrightarrow> honest_client files r ops \<Longrightarrow>
    \<exists>c'. client_run d ops c = Some c' \<and> store_inv d r files (cw_local c') \<and> cw_remote c' = r"
proof (induction ops arbitrary: c)
  case (Cons op ops)
  have h: "honest_client files r ops" using Cons.prems(3) by (simp add: honest_client_def)
  obtain c1 where "client_step d op c = Some c1" "store_inv d r files (cw_local c1)" "cw_remote c1 = r"
  proof (cases op)
    case (Materialize envs order now pid)
    then have "honest_envs files r pid envs order" using Cons.prems(3) by (auto simp: honest_client_def)
    from materialize_inv [OF Cons.prems(1,2) inj ok this, of now] obtain c' res where
      "materialize d envs order now pid c = Some (c', res)" "store_inv d r files (cw_local c')" "cw_remote c' = r" by blast
    then show thesis using that [of c'] Materialize by simp
  next
    case (ReleaseHandle h)
    then show thesis using that [of "composite_release d h c"] release_inv [OF Cons.prems(1)] Cons.prems(2)
      by (simp add: composite_release_def set_local_def)
  qed
  then show ?case using Cons.IH [OF _ _ h] by simp
qed simp



section \<open>What a restart trusts\<close>

lemma prepare_loop_kept:
  assumes "prepare_loop d 0 slices (fr, completed, 0) = (fr', completed', reused')" "i < length slices" "fr' i = Some f"
  shows "\<exists>g. fr i = Some g \<and> (case od_get completed i of
       Some x \<Rightarrow> f = take (nat (fr_size_bytes x)) g \<and> dg_sha d f = fr_sha256 x \<and> int (length f) = fr_size_bytes x
     | None \<Rightarrow> f = g \<and> int (length g) = ss_size_bytes (slices ! i))"
proof -
  have untouched: "prepare_loop d k sl (a, b, n) = (a', b', n') \<Longrightarrow> j < k \<Longrightarrow> a' j = a j" for k sl a b n a' b' n' j
    by (induction sl arbitrary: k a b n) (auto split: prod.splits)
  have "prepare_loop d k sl (a, b, n) = (a', b', n') \<Longrightarrow> j < length sl \<Longrightarrow> a' (k + j) = Some f \<Longrightarrow>
      \<exists>g. a (k + j) = Some g \<and> (case od_get b (k + j) of
         Some x \<Rightarrow> f = take (nat (fr_size_bytes x)) g \<and> dg_sha d f = fr_sha256 x \<and> int (length f) = fr_size_bytes x
       | None \<Rightarrow> f = g \<and> int (length g) = ss_size_bytes (sl ! j))" for k sl a b n a' b' n' j
  proof (induction sl arbitrary: k a b n j)
    case (Cons s sl)
    obtain f1 r1 n1 where p: "prepare_one d s (a k) (od_get b k) = (f1, r1, n1)" by (cases "prepare_one d s (a k) (od_get b k)")
    let ?b = "case r1 of None \<Rightarrow> od_remove k b | Some x \<Rightarrow> od_set b k x"
    have go: "prepare_loop d (Suc k) sl (a(k := f1), ?b, n + n1) = (a', b', n')" using Cons.prems(1) p by simp
    show ?case
    proof (cases j)
      case 0
      then have "f1 = Some f" using untouched [OF go, of k] Cons.prems(3) by simp
      then show ?thesis using prepare_one_kept [of d s "a k" "od_get b k" f r1 n1] p 0 by (auto split: option.splits)
    next
      case (Suc j')
      have g: "od_get ?b (Suc k + j') = od_get b (Suc k + j')" by (simp add: od_get_remove od_get_set split: option.split)
      have k: "k + j = Suc k + j'" and n: "(s # sl) ! j = sl ! j'" using Suc by simp_all
      have "j' < length sl" "a' (Suc k + j') = Some f" using Cons.prems(2,3) Suc by simp_all
      from Cons.IH [OF go this, unfolded g] show ?thesis unfolding k n by simp
    qed
  qed simp
  from this [of 0 slices fr completed 0 fr' completed' reused' i] show ?thesis using assms by simp
qed

text \<open>C38: A fragment that survives \<open>prepare_fragments\<close> is either cut to its journaled size and matches its journaled
  checksum, or has no journal record and exactly the size of its slice, which is then trusted.\<close>

theorem prepare_trusts:
  "case prepare_fragments d desc s of (s', reused) \<Rightarrow>
     (\<forall>i f. i < length (pd_source_slices desc) \<and>
        pt_fragments (st_partial s' (dg_key d (pd_page_id desc))) i = Some f \<longrightarrow>
      (\<exists>g. pt_fragments (st_partial s (dg_key d (pd_page_id desc))) i = Some g \<and>
        (case od_get (case pt_journal (st_partial s (dg_key d (pd_page_id desc))) of Some j \<Rightarrow> j | None \<Rightarrow> []) i of
           Some x \<Rightarrow> f = take (nat (fr_size_bytes x)) g \<and> dg_sha d f = fr_sha256 x \<and> int (length f) = fr_size_bytes x
         | None \<Rightarrow> f = g \<and> int (length g) = ss_size_bytes (pd_source_slices desc ! i))))"
proof -
  let ?p = "st_partial s (dg_key d (pd_page_id desc))"
  let ?j = "case pt_journal ?p of Some j \<Rightarrow> j | None \<Rightarrow> []"
  obtain fr completed reused where l: "prepare_loop d 0 (pd_source_slices desc) (pt_fragments ?p, ?j, 0) = (fr, completed, reused)"
    by (cases "prepare_loop d 0 (pd_source_slices desc) (pt_fragments ?p, ?j, 0)") auto
  have e: "prepare_fragments d desc s =
      (set_partial (dg_key d (pd_page_id desc)) \<lparr>pt_fragments = fr, pt_journal = Some completed\<rparr> s, reused)"
    using l by (simp add: prepare_fragments_def Let_def)
  show ?thesis unfolding e using prepare_loop_kept [OF l] by (simp add: set_partial_def)
qed

text \<open>A crash that lost the journal and the data of the only fragment but not its length: the zeros are trusted.\<close>

definition demo_crashed :: page_store where
  "demo_crashed = (case store_open 8192 of Inr s \<Rightarrow> set_partial (dg_key demo_digests demo_page)
     \<lparr>pt_fragments = (\<lambda>i. if i = 0 then Some [0, 0, 0, 0] else None), pt_journal = None\<rparr> s)"

definition demo_descriptor :: page_descriptor where
  "demo_descriptor = (case remote_resolve demo_remote demo_page of Inr desc \<Rightarrow> desc)"

theorem prepare_trusts_witness:
  "\<exists>s' reused f g. prepare_fragments demo_digests demo_descriptor demo_crashed = (s', reused) \<and>
     pt_fragments (st_partial s' (dg_key demo_digests (pd_page_id demo_descriptor))) 0 = Some f \<and>
     pt_fragments (st_partial demo_crashed (dg_key demo_digests (pd_page_id demo_descriptor))) 0 = Some g \<and> f = g"
proof -
  let ?k = "dg_key demo_digests (pd_page_id demo_descriptor)"
  have j: "pt_journal (st_partial demo_crashed ?k) = None" "0 < length (pd_source_slices demo_descriptor)" by code_simp+
  obtain s' reused where p: "prepare_fragments demo_digests demo_descriptor demo_crashed = (s', reused)"
    by (cases "prepare_fragments demo_digests demo_descriptor demo_crashed")
  have "case prepare_fragments demo_digests demo_descriptor demo_crashed of (s', reused) \<Rightarrow>
      pt_fragments (st_partial s' ?k) 0 = Some [0, 0, 0, 0]" by code_simp
  then have f: "pt_fragments (st_partial s' ?k) 0 = Some [0, 0, 0, 0]" using p by simp
  note t = prepare_trusts [where d = demo_digests and desc = demo_descriptor and s = demo_crashed, unfolded p prod.case,
      THEN spec, THEN spec, THEN mp, OF conjI, OF j(2) f]
  then show ?thesis using p f by (auto simp: j(1) od_get_def)
qed

theorem unjournaled_full_trusted:
  "pt_fragments (st_partial demo_crashed (dg_key demo_digests demo_page)) 0 = Some [0, 0, 0, 0] \<and>
   slice_bytes (\<lambda>_. demo_shard) (hd (pd_source_slices demo_descriptor)) = [6, 7, 8, 9] \<and>
   pt_fragments (st_partial (fst (prepare_fragments demo_digests demo_descriptor demo_crashed)) (dg_key demo_digests demo_page)) 0 =
     Some [0, 0, 0, 0]"
  by (intro conjI; code_simp)

section \<open>Lost rows and lost padding\<close>

text \<open>A crash between the manifest and the database row of a commit: the restarted cache does not count the page,
  gives its room away, and counts it again when it is looked up. The budget is two bytes, each page two.\<close>

definition tiny_descriptor :: "weight_page_id \<Rightarrow> int \<Rightarrow> page_descriptor" where
  "tiny_descriptor p padding = \<lparr>pd_page_id = p, pd_weight_ids = [], pd_source_slices = [],
     pd_output_layout = \<lparr>rl_projections = [], rl_payload_bytes = 0, rl_stride = padding, rl_alignment = 1\<rparr>, pd_expected_bytes = 0\<rparr>"

definition other_page :: weight_page_id where
  "other_page = demo_page\<lparr>wp_logical_key := ''tensors/v''\<rparr>"

definition orphan_crash :: "page_store \<Rightarrow> page_store" where
  "orphan_crash s = store_restart (install_page (dg_key demo_digests demo_page) [0, 0]
     \<lparr>mf_descriptor = tiny_descriptor demo_page 2, mf_sha256 = dg_sha demo_digests [0, 0], mf_size_bytes = 2\<rparr> s)"

theorem orphan_exceeds_budget:
  "case store_open 2 of Inl _ \<Rightarrow> False | Inr s \<Rightarrow>
     (case store_commit demo_digests (tiny_descriptor other_page 2) 1 (orphan_crash s) of
        Some (s1, Inr h) \<Rightarrow> occupancy_bytes s1 = 2 \<and> occupancy_bytes (fst (store_lookup demo_digests demo_page True 2 s1)) = 4
      | _ \<Rightarrow> False)"
proof -
  have p: "page_padding 2 [] = Some [0, 0]" by (simp add: page_padding_iff numeral_2_eq_2)
  have k: "dg_key demo_digests other_page \<noteq> dg_key demo_digests demo_page" by code_simp
  show ?thesis
    using p k
    by (simp add: store_open_def store_commit_def tiny_descriptor_def orphan_crash_def store_restart_def install_page_def ensure_capacity_def
        make_room.simps occupancy_bytes_def reserved_elsewhere_def finish_commit_def replace_row_def acquire_lease_def set_partial_def
        store_lookup_def manifest_valid_def od_remove_def Let_def)
qed

text \<open>A descriptor that expects more bytes than its stride: the commit never returns.\<close>

theorem commit_hangs:
  "case store_open 8192 of Inl _ \<Rightarrow> False | Inr s \<Rightarrow>
     store_commit demo_digests ((tiny_descriptor demo_page 0)\<lparr>pd_expected_bytes := 4\<rparr>) 1 s = None"
  by (simp add: store_open_def store_commit_def tiny_descriptor_def ensure_capacity_def make_room.simps occupancy_bytes_def
      reserved_elsewhere_def page_padding_iff od_remove_def)

end
