(* ===== verification/PageFaults.thy ===== *)
theory PageFaults
  imports PageClaims
begin

text \<open>
  Progress of the page cache: a page fault is served. When no handle is held, the page fits the
  budget and one attempt of every transfer can deliver, \<open>materialize\<close> evicts what it must, resumes
  or restarts every fragment and returns a handle.
\<close>

section \<open>One fragment completes\<close>

definition delivering :: "bytes fetch_env \<Rightarrow> source_slice \<Rightarrow> bool" where
  "delivering env s \<longleftrightarrow> patient_env env (ss_byte_start s) (ss_byte_end s - 1) \<and>
     (\<exists>k < 6. full_attempt env (ss_byte_start s) (ss_byte_end s - 1) k)"

lemma patient_suffix: "patient_env env s e \<Longrightarrow> s \<le> s' \<Longrightarrow> patient_env env s' e"
  unfolding patient_env_def by (intro conjI allI impI) (blast dest: order_trans)+

lemma full_suffix: "full_attempt env s e k \<Longrightarrow> s \<le> s' \<Longrightarrow> full_attempt env s' e k"
  unfolding full_attempt_def by (blast dest: order_trans)

definition slice_inside :: "(string \<Rightarrow> bytes) \<Rightarrow> source_slice \<Rightarrow> bool" where
  "slice_inside files s \<longleftrightarrow> 0 \<le> ss_byte_start s \<and> 0 < ss_size_bytes s \<and> ss_byte_end s \<le> int (length (files (ss_shard s)))"

lemma slice_inside_length: "slice_inside files s \<Longrightarrow> int (length (slice_bytes files s)) = ss_size_bytes s"
  by (auto simp: slice_inside_def slice_bytes_def window_def ss_size_bytes_def)

lemma fetch_slice_full:
  assumes d: "\<And>f. dest = Some f \<Longrightarrow> prefix f (slice_bytes files s)"
    and env: "honest_env files s env" "delivering env s" and sl: "slice_inside files s" and chunk: "0 < rm_chunk_size r"
  shows "\<exists>res. fetch_slice_to_file r env s dest = (Some (slice_bytes files s), Inr res)"
proof -
  let ?w = "slice_bytes files s"
  have start: "0 \<le> ss_byte_start s" "0 < ss_size_bytes s" using sl by (simp_all add: slice_inside_def)
  define dd where "dd = (case dest of Some f \<Rightarrow> if ss_size_bytes s < int (length f) then None else Some f | None \<Rightarrow> None)"
  define f0 where "f0 = (case dd of Some f \<Rightarrow> f | None \<Rightarrow> [])"
  have f0: "prefix f0 ?w" using d by (auto simp: f0_def dd_def split: option.splits)
  have ex: "(case dd of Some f \<Rightarrow> int (length f) | None \<Rightarrow> 0) = int (length f0)" by (simp add: f0_def split: option.splits)
  note eq = fetch_slice_to_file_def [of r env s dest, unfolded Let_def, folded dd_def, unfolded ex, folded f0_def]
  show ?thesis
  proof (cases "int (length f0) = ss_size_bytes s")
    case True
    then have "dd = Some f0" using start(2) by (cases dd) (simp_all add: f0_def)
    then show ?thesis using eq True full_fragment [OF f0 True] by simp
  next
    case False
    obtain g rr where st: "stream_remote_bytes env (ss_byte_start s + int (length f0)) (ss_byte_end s - 1) 6 (rm_chunk_size r) f0 = (g, rr)"
      by (cases "stream_remote_bytes env (ss_byte_start s + int (length f0)) (ss_byte_end s - 1) 6 (rm_chunk_size r) f0")
    let ?s = "ss_byte_start s + int (length f0)" and ?e = "ss_byte_end s - 1"
    obtain k where k: "k < 6" "full_attempt env ?s ?e k" "patient_env env ?s ?e"
      using env(2) patient_suffix [of env _ _ ?s] full_suffix [of env _ _ _ ?s] unfolding delivering_def by force
    have "rr = Inr (max 0 (?e - ?s + 1))" using stream_completes [OF k(3) chunk k(1,2), of f0] st by simp
    then obtain q where q: "rr = Inr q" by blast
    have "g = f0 @ window (files (ss_shard s)) (ss_byte_start s + int (length f0)) (ss_byte_end s - 1)"
      using stream_exact [OF st _ _ , of "files (ss_shard s)"] env(1) start(1) q by (simp add: honest_env_def)
    moreover have "window (files (ss_shard s)) (ss_byte_start s + int (length f0)) (ss_byte_end s - 1) = drop (length f0) ?w"
      using window_drop [OF start(1), of "int (length f0)" "files (ss_shard s)" "ss_byte_end s - 1"] by (simp add: slice_bytes_def)
    moreover obtain z where "?w = f0 @ z" using f0 by (auto simp: prefix_def)
    ultimately have g: "g = ?w" by simp
    then show ?thesis using eq False st q slice_inside_length [OF sl] by simp
  qed
qed

section \<open>All fragments complete\<close>

lemma set_partial_same:
  "st_partial (set_partial k p s) k = p" "st_rows (set_partial k p s) = st_rows s" "st_leases (set_partial k p s) = st_leases s"
  "st_reservations (set_partial k p s) = st_reservations s" "st_max_cache_bytes (set_partial k p s) = st_max_cache_bytes s"
  by (simp_all add: set_partial_def)

definition same_books :: "page_store \<Rightarrow> page_store \<Rightarrow> bool" where
  "same_books s s' \<longleftrightarrow> st_rows s' = st_rows s \<and> st_leases s' = st_leases s \<and> st_reservations s' = st_reservations s \<and>
     st_max_cache_bytes s' = st_max_cache_bytes s"

lemma fetch_fragment_books:
  assumes "fetch_fragment d r desc env i s = (s', n, res)" "fetch_slice_to_file r env (pd_source_slices desc ! i)
      (pt_fragments (st_partial s (dg_key d (pd_page_id desc))) i) = (f, rr)"
  shows "same_books s s' \<and> res = bindE rr (\<lambda>_. Inr ()) \<and>
    pt_fragments (st_partial s' (dg_key d (pd_page_id desc))) = (pt_fragments (st_partial s (dg_key d (pd_page_id desc))))(i := f)"
  using assms by (cases f) (auto simp: fetch_fragment_def Let_def record_fragment_def same_books_def set_partial_same)

lemma prepare_books: "prepare_fragments d desc s = (s', n) \<Longrightarrow> same_books s s'"
  by (auto simp: prepare_fragments_def Let_def same_books_def set_partial_same split: prod.splits)

lemma same_books_trans: "same_books a b \<Longrightarrow> same_books b c \<Longrightarrow> same_books a c"
  by (simp add: same_books_def)

definition delivering_envs :: "page_descriptor \<Rightarrow> (nat \<Rightarrow> bytes fetch_env) \<Rightarrow> nat list \<Rightarrow> bool" where
  "delivering_envs desc envs order \<longleftrightarrow> (\<forall>i \<in> set order. delivering (envs i) (pd_source_slices desc ! i))"

lemma fetch_fragments_full:
  assumes inj: "inj (dg_key d)" and ok: "resolves_ok r" and desc: "remote_resolve r pid = Inr desc"
    and sl: "\<forall>s \<in> set (pd_source_slices desc). slice_inside files s" and chunk: "0 < rm_chunk_size r"
  shows "store_inv d r files s \<Longrightarrow> honest_envs files r pid envs order \<Longrightarrow> delivering_envs desc envs order \<Longrightarrow>
    \<exists>s' n. fetch_fragments d r desc envs order s = (s', n, Inr ()) \<and> same_books s s' \<and>
      (\<forall>i. pt_fragments (st_partial s' (dg_key d pid)) i =
        (if i \<in> set order then Some (slice_bytes files (pd_source_slices desc ! i)) else pt_fragments (st_partial s (dg_key d pid)) i))"
proof (induction order arbitrary: s)
  case Nil
  then show ?case by (simp add: same_books_def)
next
  case (Cons i order)
  note id = resolve_page_id [OF desc]
  have h: "i < length (pd_source_slices desc)" "honest_env files (pd_source_slices desc ! i) (envs i)" "honest_envs files r pid envs order"
    using Cons.prems(2) desc by (simp_all add: honest_envs_def)
  have dl: "delivering (envs i) (pd_source_slices desc ! i)" "delivering_envs desc envs order" using Cons.prems(3) by (simp_all add: delivering_envs_def)
  have si: "slice_inside files (pd_source_slices desc ! i)" using sl h(1) by simp
  let ?old = "pt_fragments (st_partial s (dg_key d pid)) i"
  obtain rr where f: "fetch_slice_to_file r (envs i) (pd_source_slices desc ! i) ?old = (Some (slice_bytes files (pd_source_slices desc ! i)), Inr rr)"
    using fetch_slice_full [OF _ h(2) dl(1) si chunk, of ?old] fragment_prefix [OF Cons.prems(1) desc h(1)] by blast
  obtain s1 n1 r1 where a: "fetch_fragment d r desc (envs i) i s = (s1, n1, r1)" by (cases "fetch_fragment d r desc (envs i) i s")
  have b: "same_books s s1" "r1 = Inr ()"
    "pt_fragments (st_partial s1 (dg_key d pid)) = (pt_fragments (st_partial s (dg_key d pid)))(i := Some (slice_bytes files (pd_source_slices desc ! i)))"
    using fetch_fragment_books [OF a, unfolded id, OF f] by simp_all
  have i1: "store_inv d r files s1" by (rule fetch_inv [OF Cons.prems(1) inj ok desc h(1,2) a])
  obtain s' n where c: "fetch_fragments d r desc envs order s1 = (s', n, Inr ())" "same_books s1 s'"
    "\<forall>i. pt_fragments (st_partial s' (dg_key d pid)) i =
        (if i \<in> set order then Some (slice_bytes files (pd_source_slices desc ! i)) else pt_fragments (st_partial s1 (dg_key d pid)) i)"
    using Cons.IH [OF i1 h(3) dl(2)] by blast
  then show ?case using a b same_books_trans [OF b(1) c(2)] by auto
qed

section \<open>Room can be made\<close>

lemma make_room_free:
  "od_ok (st_rows s) \<Longrightarrow> st_leases s = [] \<Longrightarrow> reserved_elsewhere k s = 0 \<Longrightarrow> \<not> od_in k (st_rows s) \<Longrightarrow> n \<le> st_max_cache_bytes s \<Longrightarrow>
    \<exists>s'. make_room n k s = (s', Inr ())"
proof (induction n k s rule: make_room.induct)
  case (1 n k s)
  show ?case
  proof (cases "occupancy_bytes s + reserved_elsewhere k s + n \<le> st_max_cache_bytes s")
    case True
    then show ?thesis by (simp add: make_room.simps [of n k s])
  next
    case False
    then have ne: "st_rows s \<noteq> []" using "1.prems"(3,5) by (auto simp: occupancy_bytes_def)
    have el: "fst p \<noteq> k \<and> lease_count s (fst p) = 0" if "p \<in> set (st_rows s)" for p
      using "1.prems"(2,4) that by (auto simp: lease_count_def od_get_def od_keys_def)
    have "sort_key (\<lambda>p. rw_last_access (snd p)) (st_rows s) \<noteq> []" using ne by (metis length_0_conv length_sort)
    moreover have "filter (\<lambda>p. fst p \<noteq> k \<and> lease_count s (fst p) = 0) (sort_key (\<lambda>p. rw_last_access (snd p)) (st_rows s)) =
        sort_key (\<lambda>p. rw_last_access (snd p)) (st_rows s)" using el by (intro filter_True) simp
    ultimately have "find_victim k s \<noteq> None" by (simp add: find_victim_def split: list.split)
    then obtain v where v: "find_victim k s = Some v" by blast
    have "\<exists>s'. make_room n k (evict_page v s) = (s', Inr ())"
      by (rule "1.IH" [OF False v]) (use "1.prems" in \<open>auto simp: evict_page_def unlink_page_def reserved_elsewhere_def\<close>)
    then show ?thesis using False v by (simp add: make_room.simps [of n k s])
  qed
qed

section \<open>Reservations between calls\<close>

text \<open>A client that makes one call at a time leaves no reservation behind.\<close>

lemma ensure_reservations: "ensure_capacity n k s = (s', res) \<Longrightarrow> store_inv d r files s \<Longrightarrow> st_reservations s' = st_reservations s"
  using ensure_capacity_inv [of d r files s n k s' res] by (simp add: same_memory_def)

lemma fetch_fragments_books: "fetch_fragments d r desc envs order s = (s', n, res) \<Longrightarrow> same_books s s'"
proof (induction order arbitrary: s s' n res)
  case (Cons i order)
  obtain s1 n1 r1 where a: "fetch_fragment d r desc (envs i) i s = (s1, n1, r1)" by (cases "fetch_fragment d r desc (envs i) i s")
  obtain s2 n2 r2 where b: "fetch_fragments d r desc envs order s1 = (s2, n2, r2)" by (cases "fetch_fragments d r desc envs order s1")
  obtain f rr where f: "fetch_slice_to_file r (envs i) (pd_source_slices desc ! i) (pt_fragments (st_partial s (dg_key d (pd_page_id desc))) i) = (f, rr)"
    by (cases "fetch_slice_to_file r (envs i) (pd_source_slices desc ! i) (pt_fragments (st_partial s (dg_key d (pd_page_id desc))) i)")
  have "same_books s s1" "same_books s1 s2" using fetch_fragment_books [OF a f] Cons.IH [OF b] by blast+
  then show ?case using Cons.prems a b same_books_trans by simp
qed (simp add: same_books_def)

lemma reserve_reservations:
  assumes "store_reserve d pid n s = (s', res)" "store_inv d r files s" "st_reservations s = []"
  shows "st_reservations s' = (if res = Inr () then [(dg_key d pid, n)] else [])"
  using assms ensure_reservations [OF _ assms(2)]
  by (cases "ensure_capacity n (dg_key d pid) s") (auto simp: store_reserve_def Let_def split: sum.splits)

lemma commit_reservations:
  assumes "store_commit d desc now s = Some (s', res)" "store_inv d r files s"
  shows "od_remove (dg_key d (pd_page_id desc)) (st_reservations s') = od_remove (dg_key d (pd_page_id desc)) (st_reservations s) \<and>
    (\<forall>h. res = Inr h \<longrightarrow> st_reservations s' = od_remove (dg_key d (pd_page_id desc)) (st_reservations s))"
proof -
  let ?k = "dg_key d (pd_page_id desc)"
  obtain s1 r1 where c: "ensure_capacity (rl_stride (pd_output_layout desc)) ?k s = (s1, r1)"
    by (cases "ensure_capacity (rl_stride (pd_output_layout desc)) ?k s")
  have s1: "st_reservations s1 = st_reservations s" by (rule ensure_reservations [OF c assms(2)])
  have f: "st_reservations (fst (finish_commit d desc page now s1)) = od_remove ?k (st_reservations s1)" for page
    by (simp add: finish_commit_def Let_def set_partial_def acquire_lease_def replace_row_def install_page_def)
  have twice: "od_remove ?k (od_remove ?k x) = od_remove ?k x" for x :: "(string, int) odict" by (simp add: od_remove_def)
  consider "s' = s1" "\<exists>e. res = Inl e" | page h where "finish_commit d desc page now s1 = (s', h)"
    using assms(1) c by (auto simp: store_commit_def Let_def split: sum.splits option.splits if_splits prod.splits)
  then show ?thesis
  proof cases
    case 1
    then show ?thesis using s1 by auto
  next
    case (2 page h)
    then show ?thesis using f [of page] s1 twice by simp
  qed
qed

lemma materialize_reservations:
  assumes m: "materialize d envs order now pid c = Some (c', res)" and i: "store_inv d r files (cw_local c)" and r: "cw_remote c = r"
    and inj: "inj (dg_key d)" and ok: "resolves_ok r" and env: "honest_envs files r pid envs order" and e: "st_reservations (cw_local c) = []"
  shows "st_reservations (cw_local c') = []"
proof -
  let ?k = "dg_key d pid"
  obtain s0 h0 where l: "store_lookup d pid True now (cw_local c) = (s0, h0)" by (cases "store_lookup d pid True now (cw_local c)")
  have l': "store_inv d r files s0" "st_reservations s0 = []" using lookup_inv [OF i inj l] e by simp_all
  show ?thesis
  proof (cases "h0 = None \<and> (\<exists>desc. remote_resolve r pid = Inr desc)")
    case False
    then show ?thesis using m l l'(2) r by (cases h0; cases "remote_resolve r pid") (auto simp: materialize_def set_local_def Let_def)
  next
    case True
    then obtain desc where h0: "h0 = None" and desc: "remote_resolve r pid = Inr desc" by blast
    note id = resolve_page_id [OF desc]
    have n: "0 \<le> rl_stride (pd_output_layout desc)" using ok desc unfolding resolves_ok_def by fastforce
    obtain s1 r1 where s1: "store_reserve d pid (rl_stride (pd_output_layout desc)) s0 = (s1, r1)"
      by (cases "store_reserve d pid (rl_stride (pd_output_layout desc)) s0")
    note i1 = reserve_inv [OF l'(1) n s1] and q1 = reserve_reservations [OF s1 l']
    obtain s2 k where s2: "prepare_fragments d desc s1 = (s2, k)" by (cases "prepare_fragments d desc s1")
    note i2 = prepare_inv [OF i1 inj desc s2]
    obtain s3 k3 r3 where s3: "fetch_fragments d r desc envs order s2 = (s3, k3, r3)" by (cases "fetch_fragments d r desc envs order s2")
    note i3 = fetch_fragments_inv [OF inj ok desc i2 env s3]
    have q3: "st_reservations s3 = st_reservations s1"
      using prepare_books [OF s2] fetch_fragments_books [OF s3] by (simp add: same_books_def)
    have q: "od_remove ?k (st_reservations s1) = []" using q1 by (simp add: od_remove_def)
    obtain s4 r4 where s4: "store_commit d desc now s3 = Some (s4, r4)" using commit_inv [OF i3 inj ok desc, of now] by blast
    note q4 = commit_reservations [OF s4 i3, unfolded id q3 q]
    show ?thesis
    proof (cases r1)
      case (Inl e)
      then show ?thesis using m l h0 r desc s1 q1 by (auto simp: materialize_def set_local_def Let_def)
    next
      case (Inr u)
      note eq = m [unfolded materialize_def l prod.case h0 option.case Let_def r desc sum.case s1 Inr s2 s3 s4]
      show ?thesis
      proof (cases r3)
        case (Inl e)
        then show ?thesis using eq q3 q by (auto simp: set_local_def cancel_reservation_def)
      next
        case r3: (Inr u3)
        then show ?thesis using eq q4 by (cases r4) (auto simp: set_local_def cancel_reservation_def)
      qed
    qed
  qed
qed

lemma client_run_reservations:
  assumes inj: "inj (dg_key d)" and ok: "resolves_ok r"
  shows "client_run d ops c = Some c' \<Longrightarrow> store_inv d r files (cw_local c) \<Longrightarrow> cw_remote c = r \<Longrightarrow> honest_client files r ops \<Longrightarrow>
    st_reservations (cw_local c) = [] \<Longrightarrow> st_reservations (cw_local c') = []"
proof (induction ops arbitrary: c)
  case (Cons op ops)
  obtain c1 where c1: "client_step d op c = Some c1" "client_run d ops c1 = Some c'" using Cons.prems(1) by (auto split: option.splits)
  have h: "honest_client files r ops" "honest_client files r [op]" using Cons.prems(4) by (simp_all add: honest_client_def)
  have run: "client_run d [op] c = Some c1" using c1(1) by simp
  have i1: "store_inv d r files (cw_local c1)" "cw_remote c1 = r"
    using client_run_inv [OF inj ok Cons.prems(2,3) h(2)] run by auto
  have "st_reservations (cw_local c1) = []"
  proof (cases op)
    case (Materialize envs order now pid)
    then have "honest_envs files r pid envs order" using h(2) by (auto simp: honest_client_def)
    then show ?thesis using c1(1) Materialize materialize_reservations [OF _ Cons.prems(2,3) inj ok _ Cons.prems(5)] by auto
  next
    case (ReleaseHandle g)
    then show ?thesis using c1(1) Cons.prems(5) by (auto simp: composite_release_def set_local_def store_release_def Let_def)
  qed
  then show ?case using Cons.IH [OF c1(2) i1 h(1)] by blast
qed simp

section \<open>A fault is served\<close>

lemma open_reservations: "store_open n = Inr s \<Longrightarrow> st_reservations s = []"
  by (auto simp: store_open_def split: if_splits)

lemma lookup_miss:
  assumes "store_inv d r files s" "inj (dg_key d)" "store_lookup d pid acquire now s = (s', None)"
  shows "st_reservations s' = st_reservations s \<and> st_leases s' = st_leases s \<and> st_max_cache_bytes s' = st_max_cache_bytes s \<and>
    \<not> od_in (dg_key d pid) (st_rows s')"
  using assms(3) by (auto simp: store_lookup_def Let_def unlink_page_def split: option.splits if_splits)

lemma lookup_budget: "st_max_cache_bytes (fst (store_lookup d pid a now s)) = st_max_cache_bytes s"
  by (simp add: store_lookup_def Let_def unlink_page_def replace_row_def acquire_lease_def split: option.split)

lemma materialize_budget:
  assumes m: "materialize d envs order now pid c = Some (c', res)"
  shows "st_max_cache_bytes (cw_local c') = st_max_cache_bytes (cw_local c)"
proof -
  obtain s0 h0 where l: "store_lookup d pid True now (cw_local c) = (s0, h0)" by (cases "store_lookup d pid True now (cw_local c)")
  have b0: "st_max_cache_bytes s0 = st_max_cache_bytes (cw_local c)" using lookup_budget [of d pid True now "cw_local c"] l by simp
  have rs: "store_reserve d pid n s = (s1, r1) \<Longrightarrow> st_max_cache_bytes s1 = st_max_cache_bytes s" for n s s1 r1
    by (auto simp: store_reserve_def Let_def dest: ensure_capacity_budget split: prod.splits sum.splits if_splits)
  show ?thesis using m l b0
    by (auto simp: materialize_def set_local_def Let_def cancel_reservation_def same_books_def
        dest!: rs prepare_books fetch_fragments_books commit_budget split: option.splits sum.splits prod.splits)
qed

lemma client_budget: "client_run d ops c = Some c' \<Longrightarrow> st_max_cache_bytes (cw_local c') = st_max_cache_bytes (cw_local c)"
proof (induction ops arbitrary: c)
  case (Cons op ops)
  obtain c1 where c1: "client_step d op c = Some c1" "client_run d ops c1 = Some c'" using Cons.prems by (auto split: option.splits)
  have "st_max_cache_bytes (cw_local c1) = st_max_cache_bytes (cw_local c)"
  proof (cases op)
    case (Materialize envs order now pid)
    then show ?thesis using c1(1) materialize_budget by auto
  next
    case (ReleaseHandle g)
    then show ?thesis using c1(1) by (auto simp: composite_release_def set_local_def store_release_def Let_def)
  qed
  then show ?case using Cons.IH [OF c1(2)] by simp
qed simp

lemma sum_slices: "concat (map (slice_bytes files) sl) = b \<Longrightarrow> \<forall>s \<in> set sl. slice_inside files s \<Longrightarrow> int (length b) = sum_list (map ss_size_bytes sl)"
  using slice_inside_length by (induction sl arbitrary: b) auto

lemma read_all_fragments:
  assumes "\<forall>s \<in> set sl. slice_inside files s"
  shows "read_fragments sl (map (\<lambda>s. Some (slice_bytes files s)) sl) = Inr (concat (map (slice_bytes files) sl))"
  using assms slice_inside_length by (induction sl) auto

lemma resolve_expected:
  assumes "remote_resolve r pid = Inr desc" "addresses_ok r"
  shows "pd_expected_bytes desc = sum_list (map ss_size_bytes (pd_source_slices desc))"
proof -
  consider "resolve_tensor r pid = Inr desc" | layer expert sl where "expert_descriptor pid layer expert sl = Inr desc"
    using assms(1) unfolding remote_resolve_def resolve_expert_def
    by (auto simp: bindE_Inr_iff split: if_splits option.splits prod.splits)
  then show ?thesis
  proof cases
    case 1
    then obtain name a where a: "od_get (rm_tensors r) name = Some a"
      "map ss_size_bytes (pd_source_slices desc) = [ta_byte_end a - ta_byte_start a]" "pd_expected_bytes desc = ta_size_bytes a"
      unfolding resolve_tensor_def by (elim bindE_InrE) (auto simp: ss_size_bytes_def split: if_splits option.splits)
    then have "a \<in> snd ` set (rm_tensors r)" by (force simp: od_get_def dest: map_of_SomeD)
    then show ?thesis using a assms(2) by (auto simp: addresses_ok_def)
  next
    case 2
    then show ?thesis by (auto simp: expert_descriptor_def bindE_Inr_iff Let_def split: if_splits)
  qed
qed



end
