(* ===== verification/Spec2Isabelle.thy ===== *)
theory Spec2Isabelle
  imports Simulation ExpertCache Decode Scan Budget Engine MemCacheLaws PageFaults
begin

text \<open>
  A verification development of PocketTitan's model package builder.
\<close>

end
